(* ===== verification/Prelude.thy ===== *)
theory Prelude
  imports Main "HOL-Library.AList" "HOL-Library.Sublist"
begin

text \<open>
  The library the components share: Unicode text as the Rust code sees it, results of
  fallible operations, database tables as lists of rows, association lists for the hash
  maps, the contract of values stored by name, and the contract of a retained window of
  rows.
\<close>

named_theorems text_simps "unfolding rules of the text operations"
named_theorems table_simps "rules about tables of rows"

section \<open>Text\<close>

text \<open>
  A Rust \<open>String\<close> is a sequence of Unicode scalar values. The model keeps the scalar
  values, so that \<open>chars()\<close> is the list itself, and computes the UTF-8 length where the
  code asks for \<open>len()\<close>. A literal of the source is written \<open>lit ''...''\<close>.
\<close>

type_synonym uchar = nat
type_synonym utext = "uchar list"

definition lit :: "string \<Rightarrow> utext" where
  "lit s = map of_char s"

definition utf8_width :: "uchar \<Rightarrow> nat" where
  "utf8_width c = (if c < 128 then 1 else if c < 2048 then 2 else if c < 65536 then 3 else 4)"

definition byte_len :: "utext \<Rightarrow> nat" where
  "byte_len t = sum_list (map utf8_width t)"

text \<open>The scalar values with Unicode's White_Space property, which \<open>trim\<close> removes.\<close>

definition is_white :: "uchar \<Rightarrow> bool" where
  "is_white c \<longleftrightarrow> (9 \<le> c \<and> c \<le> 13) \<or> c = 32 \<or> c = 133 \<or> c = 160 \<or> c = 5760 \<or>
     (8192 \<le> c \<and> c \<le> 8202) \<or> c = 8232 \<or> c = 8233 \<or> c = 8239 \<or> c = 8287 \<or> c = 12288"

definition is_control :: "uchar \<Rightarrow> bool" where
  "is_control c \<longleftrightarrow> c < 32 \<or> (127 \<le> c \<and> c \<le> 159)"

definition is_ascii_lower :: "uchar \<Rightarrow> bool" where
  "is_ascii_lower c \<longleftrightarrow> 97 \<le> c \<and> c \<le> 122"

definition is_ascii_upper :: "uchar \<Rightarrow> bool" where
  "is_ascii_upper c \<longleftrightarrow> 65 \<le> c \<and> c \<le> 90"

definition is_ascii_digit :: "uchar \<Rightarrow> bool" where
  "is_ascii_digit c \<longleftrightarrow> 48 \<le> c \<and> c \<le> 57"

definition is_ascii_alphanumeric :: "uchar \<Rightarrow> bool" where
  "is_ascii_alphanumeric c \<longleftrightarrow> is_ascii_lower c \<or> is_ascii_upper c \<or> is_ascii_digit c"

definition ascii_lower_char :: "uchar \<Rightarrow> uchar" where
  "ascii_lower_char c = (if is_ascii_upper c then c + 32 else c)"

definition to_ascii_lowercase :: "utext \<Rightarrow> utext" where
  "to_ascii_lowercase t = map ascii_lower_char t"

definition is_ascii_alphabetic :: "uchar \<Rightarrow> bool" where
  "is_ascii_alphabetic c \<longleftrightarrow> is_ascii_lower c \<or> is_ascii_upper c"

definition to_ascii_uppercase :: "utext \<Rightarrow> utext" where
  "to_ascii_uppercase t = map (\<lambda>c. if is_ascii_lower c then c - 32 else c) t"

definition trim_start :: "utext \<Rightarrow> utext" where
  "trim_start t = dropWhile is_white t"

definition trim_end :: "utext \<Rightarrow> utext" where
  "trim_end t = rev (dropWhile is_white (rev t))"

definition trim :: "utext \<Rightarrow> utext" where
  "trim t = trim_end (trim_start t)"

text \<open>\<open>split(c)\<close>: the pieces between the separators, never an empty list.\<close>

fun split_on :: "uchar \<Rightarrow> utext \<Rightarrow> utext list" where
  "split_on sep [] = [[]]"
| "split_on sep (c # cs) =
     (if c = sep then [] # split_on sep cs
      else (case split_on sep cs of
              [] \<Rightarrow> [[c]]
            | p # ps \<Rightarrow> (c # p) # ps))"

text \<open>\<open>split_once(c)\<close>: the text before and after the first separator.\<close>

fun split_once :: "uchar \<Rightarrow> utext \<Rightarrow> (utext \<times> utext) option" where
  "split_once sep [] = None"
| "split_once sep (c # cs) =
     (if c = sep then Some ([], cs)
      else map_option (\<lambda>(a, b). (c # a, b)) (split_once sep cs))"

text \<open>\<open>strip_prefix(p)\<close>.\<close>

definition strip_prefix :: "utext \<Rightarrow> utext \<Rightarrow> utext option" where
  "strip_prefix p t = (if take (length p) t = p then Some (drop (length p) t) else None)"

text \<open>\<open>rsplit_once(c)\<close>: the text before and after the last separator.\<close>

definition rsplit_once :: "uchar \<Rightarrow> utext \<Rightarrow> (utext \<times> utext) option" where
  "rsplit_once sep t = map_option (\<lambda>(a, b). (rev b, rev a)) (split_once sep (rev t))"

text \<open>\<open>join(sep)\<close> with a one-character separator.\<close>

fun join_with :: "uchar \<Rightarrow> utext list \<Rightarrow> utext" where
  "join_with sep [] = []"
| "join_with sep [p] = p"
| "join_with sep (p # q # ps) = p @ sep # join_with sep (q # ps)"

text \<open>\<open>join(sep)\<close> with any separator, \<open>trim_end_matches(c)\<close> and \<open>strip_suffix(s)\<close>.\<close>

fun join_text :: "utext \<Rightarrow> utext list \<Rightarrow> utext" where
  "join_text sep [] = []"
| "join_text sep [p] = p"
| "join_text sep (p # q # ps) = p @ sep @ join_text sep (q # ps)"

definition trim_end_char :: "uchar \<Rightarrow> utext \<Rightarrow> utext" where
  "trim_end_char c t = rev (dropWhile (\<lambda>x. x = c) (rev t))"

definition strip_suffix :: "utext \<Rightarrow> utext \<Rightarrow> utext option" where
  "strip_suffix s t = map_option rev (strip_prefix (rev s) (rev t))"

lemma lit_Nil [simp]: "lit [] = []" and lit_Cons [simp]: "lit (c # s) = of_char c # lit s"
  by (simp_all add: lit_def)

lemma length_to_ascii_lowercase [simp]: "length (to_ascii_lowercase t) = length t"
  by (simp add: to_ascii_lowercase_def)

lemma ascii_lower_char_idem [simp]: "ascii_lower_char (ascii_lower_char c) = ascii_lower_char c"
  by (simp add: ascii_lower_char_def is_ascii_upper_def)

lemma to_ascii_lowercase_idem [simp]: "to_ascii_lowercase (to_ascii_lowercase t) = to_ascii_lowercase t"
  by (simp add: to_ascii_lowercase_def)

lemma is_white_lower [simp]: "is_white (ascii_lower_char c) = is_white c"
  by (auto simp: is_white_def ascii_lower_char_def is_ascii_upper_def)

lemma trim_start_lower: "trim_start (to_ascii_lowercase t) = to_ascii_lowercase (trim_start t)"
  by (simp add: trim_start_def to_ascii_lowercase_def dropWhile_map comp_def)

lemma trim_end_lower: "trim_end (to_ascii_lowercase t) = to_ascii_lowercase (trim_end t)"
  by (simp add: trim_end_def to_ascii_lowercase_def rev_map dropWhile_map comp_def)

lemma trim_lower: "trim (to_ascii_lowercase t) = to_ascii_lowercase (trim t)"
  by (simp add: trim_def trim_start_lower trim_end_lower)

lemma set_trim: "set (trim t) \<subseteq> set t"
  by (auto simp: trim_def trim_start_def trim_end_def dest!: set_dropWhileD)

lemma trim_start_fixed: "x = [] \<or> \<not> is_white (hd x) \<Longrightarrow> trim_start x = x"
  by (cases x) (simp_all add: trim_start_def)

lemma trim_end_split: "\<exists>w. x = trim_end x @ w \<and> (\<forall>c \<in> set w. is_white c)"
proof (rule exI, rule conjI)
  show "x = trim_end x @ rev (takeWhile is_white (rev x))"
    unfolding trim_end_def by (metis rev_append rev_rev_ident takeWhile_dropWhile_id)
  show "\<forall>c \<in> set (rev (takeWhile is_white (rev x))). is_white c" by (auto dest: set_takeWhileD)
qed

lemma trim_end_hd: "trim_start x = x \<Longrightarrow> trim_start (trim_end x) = trim_end x"
proof (cases x)
  case (Cons c cs)
  assume "trim_start x = x"
  then have c: "\<not> is_white c"
    using Cons by (simp add: trim_start_def dropWhile_eq_self_iff del: dropWhile.simps)
  obtain w where w: "x = trim_end x @ w" "\<forall>c \<in> set w. is_white c" using trim_end_split by blast
  show ?thesis
  proof (cases "trim_end x")
    case Nil then show ?thesis by (simp add: trim_start_def)
  next
    case (Cons d ds) then show ?thesis using w c \<open>x = c # cs\<close> by (simp add: trim_start_def)
  qed
qed (simp add: trim_start_def trim_end_def)

lemma trim_trim: "trim (trim t) = trim t"
proof -
  have "trim_start (trim_start t) = trim_start t" by (simp add: trim_start_def)
  then have "trim_start (trim t) = trim t" unfolding trim_def by (rule trim_end_hd)
  then show ?thesis by (simp add: trim_def trim_end_def)
qed

lemma trim_no_white: "\<forall>c \<in> set t. \<not> is_white c \<Longrightarrow> trim t = t"
proof -
  assume h: "\<forall>c \<in> set t. \<not> is_white c"
  have "dropWhile is_white t = t" and "dropWhile is_white (rev t) = rev t"
    using h by (auto simp: dropWhile_eq_self_iff hd_rev)
  then show ?thesis by (simp add: trim_def trim_start_def trim_end_def)
qed

lemma byte_len_ascii: "\<forall>c \<in> set t. c < 128 \<Longrightarrow> byte_len t = length t"
  by (induction t) (auto simp: byte_len_def utf8_width_def)

lemma byte_len_ge_length: "length t \<le> byte_len t"
  by (induction t) (auto simp: byte_len_def utf8_width_def)

lemma split_on_not_Nil [simp]: "split_on sep t \<noteq> []"
  by (induction t) (auto split: list.splits)

lemma split_on_piece: "sep \<notin> set p \<Longrightarrow> split_on sep p = [p]"
  by (induction p) auto

lemma split_on_append: "sep \<notin> set p \<Longrightarrow> split_on sep (p @ sep # t) = p # split_on sep t"
  by (induction p) auto

lemma split_on_join:
  assumes "ps \<noteq> []" and "\<forall>p \<in> set ps. sep \<notin> set p"
  shows "split_on sep (join_with sep ps) = ps"
  using assms
  by (induction sep ps rule: join_with.induct) (auto simp: split_on_piece split_on_append)

lemma split_once_append: "sep \<notin> set p \<Longrightarrow> split_once sep (p @ sep # t) = Some (p, t)"
  by (induction p) auto

lemma split_once_Some:
  "split_once sep t = Some (p, q) \<Longrightarrow> t = p @ sep # q \<and> sep \<notin> set p"
  by (induction t arbitrary: p) (auto split: if_splits)

lemma rsplit_once_Some: "rsplit_once sep t = Some (a, b) \<Longrightarrow> t = a @ sep # b"
proof -
  assume "rsplit_once sep t = Some (a, b)"
  then obtain x y where "split_once sep (rev t) = Some (x, y)" "a = rev y" "b = rev x"
    by (auto simp: rsplit_once_def)
  then have "rev t = x @ sep # y" using split_once_Some by blast
  then have "t = rev (x @ sep # y)" by (simp add: rev_swap)
  then show ?thesis using \<open>a = rev y\<close> \<open>b = rev x\<close> by simp
qed

lemma strip_prefix_Some: "strip_prefix p t = Some r \<longleftrightarrow> t = p @ r"
  unfolding strip_prefix_def by (metis append_eq_conv_conj option.distinct(1) option.inject)

lemma rsplit_once_last: "rsplit_once sep t = Some (a, b) \<Longrightarrow> sep \<notin> set b"
  by (auto simp: rsplit_once_def dest: split_once_Some)

lemma rsplit_once_app: "sep \<notin> set b \<Longrightarrow> rsplit_once sep (a @ sep # b) = Some (a, b)"
proof -
  have "split_once sep (x @ sep # y) = Some (x, y)" if "sep \<notin> set x" for x y
    using that by (induction x) auto
  then show "sep \<notin> set b \<Longrightarrow> ?thesis" by (simp add: rsplit_once_def)
qed

lemma rsplit_once_None: "rsplit_once sep t = None \<longleftrightarrow> sep \<notin> set t"
proof -
  have "split_once sep x = None \<longleftrightarrow> sep \<notin> set x" for x by (induction x) auto
  then show ?thesis by (simp add: rsplit_once_def)
qed


text \<open>Decimal numbers, as \<open>Display\<close> writes an unsigned integer, and the \<open>{:02}\<close> form.\<close>

fun decimal :: "nat \<Rightarrow> utext" where
  "decimal n = (if n < 10 then [48 + n] else decimal (n div 10) @ [48 + n mod 10])"

declare decimal.simps [simp del]

definition pad2 :: "nat \<Rightarrow> utext" where
  "pad2 n = (if n < 10 then 48 # decimal n else decimal n)"

lemma decimal_small [simp]: "n < 10 \<Longrightarrow> decimal n = [48 + n]"
  by (subst decimal.simps) simp

lemma pad2_digits: "n < 100 \<Longrightarrow> pad2 n = [48 + n div 10, 48 + n mod 10]"
  by (subst pad2_def) (auto simp: decimal.simps [of n])

text \<open>A signed number: ids print with a minus sign when negative.\<close>

definition decimal_int :: "int \<Rightarrow> utext" where
  "decimal_int i = (if i < 0 then 45 # decimal (nat (- i)) else decimal (nat i))"

section \<open>Fallible operations\<close>

text \<open>
  A Rust \<open>Result<T, E>\<close> is \<open>'e + 'a\<close> with \<open>Inl\<close> for the error. The \<open>?\<close>
  operator is \<open>and_then\<close>: the rest of the function runs only on success.
\<close>

definition and_then :: "'e + 'a \<Rightarrow> ('a \<Rightarrow> 'e + 'b) \<Rightarrow> 'e + 'b" where
  "and_then r f = (case r of Inl e \<Rightarrow> Inl e | Inr a \<Rightarrow> f a)"

definition ok_or :: "'e \<Rightarrow> 'a option \<Rightarrow> 'e + 'a" where
  "ok_or e x = (case x of None \<Rightarrow> Inl e | Some a \<Rightarrow> Inr a)"

text \<open>\<open>Option<Result>::transpose\<close> after a \<open>map\<close>: nothing to check, or the check's result.\<close>

definition check_opt :: "('a \<Rightarrow> 'e + 'b) \<Rightarrow> 'a option \<Rightarrow> 'e + 'b option" where
  "check_opt f x = (case x of None \<Rightarrow> Inr None | Some a \<Rightarrow> map_sum id Some (f a))"

lemma and_then_simps [simp]: "and_then (Inl e) f = Inl e" "and_then (Inr a) f = f a"
  by (simp_all add: and_then_def)

lemma and_then_Inr: "and_then r f = Inr b \<longleftrightarrow> (\<exists>a. r = Inr a \<and> f a = Inr b)"
  by (cases r) auto

lemma and_then_Inl: "and_then r f = Inl e \<longleftrightarrow> r = Inl e \<or> (\<exists>a. r = Inr a \<and> f a = Inl e)"
  by (cases r) auto

lemma ok_or_simps [simp]: "ok_or e None = Inl e" "ok_or e (Some a) = Inr a"
  by (simp_all add: ok_or_def)

lemma ok_or_Inr [simp]: "ok_or e x = Inr a \<longleftrightarrow> x = Some a"
  by (cases x) auto

lemma check_opt_simps [simp]:
  "check_opt f None = Inr None"
  "check_opt f (Some a) = (case f a of Inl e \<Rightarrow> Inl e | Inr b \<Rightarrow> Inr (Some b))"
  by (auto simp: check_opt_def split: sum.splits)

section \<open>Tables\<close>

text \<open>
  A SQLite table is the list of its rows in rowid order. An \<open>INTEGER PRIMARY KEY\<close>
  without \<open>AUTOINCREMENT\<close> gives a new row one more than the largest id.
\<close>

definition next_rowid :: "int list \<Rightarrow> int" where
  "next_rowid ids = (if ids = [] then 1 else Max (set ids) + 1)"

lemma next_rowid_greater [table_simps]: "i \<in> set ids \<Longrightarrow> i < next_rowid ids"
  by (auto simp: next_rowid_def zless_add1_eq order_le_less
        dest: Max_ge [OF finite_set] split: if_splits)

lemma next_rowid_fresh [table_simps]: "next_rowid ids \<notin> set ids"
  using next_rowid_greater by blast

text \<open>\<open>UPDATE ... WHERE\<close>: the rows that match change, the others stay, in place.\<close>

definition update_where :: "('r \<Rightarrow> bool) \<Rightarrow> ('r \<Rightarrow> 'r) \<Rightarrow> 'r list \<Rightarrow> 'r list" where
  "update_where p f rows = map (\<lambda>r. if p r then f r else r) rows"

text \<open>\<open>rows_affected\<close> of that update.\<close>

definition matched :: "('r \<Rightarrow> bool) \<Rightarrow> 'r list \<Rightarrow> nat" where
  "matched p rows = length (filter p rows)"

lemma matched_0 [table_simps]: "matched p rows = 0 \<longleftrightarrow> (\<forall>r \<in> set rows. \<not> p r)"
  by (auto simp: matched_def filter_empty_conv)

lemma length_update_where [table_simps]: "length (update_where p f rows) = length rows"
  by (simp add: update_where_def)

lemma set_update_where [table_simps]:
  "set (update_where p f rows) = (\<lambda>r. if p r then f r else r) ` set rows"
  by (auto simp: update_where_def)

lemma map_update_where [table_simps]:
  "(\<And>r. p r \<Longrightarrow> g (f r) = g r) \<Longrightarrow> map g (update_where p f rows) = map g rows"
  by (auto simp: update_where_def)

lemma find_update_where_key:
  assumes "\<And>r. key (f r) = key r"
  shows "find (\<lambda>r. key r = k) (update_where p f rows) =
    map_option (\<lambda>r. if p r then f r else r) (find (\<lambda>r. key r = k) rows)"
  using assms by (induction rows) (auto simp: update_where_def)

lemma find_Some_in: "find p rows = Some r \<Longrightarrow> r \<in> set rows \<and> p r"
  by (induction rows) (auto split: if_splits)

lemma find_append:
  "find p (xs @ ys) = (case find p xs of None \<Rightarrow> find p ys | Some x \<Rightarrow> Some x)"
  by (induction xs) auto

lemma find_distinct_key:
  "distinct (map key rows) \<Longrightarrow> r \<in> set rows \<Longrightarrow> find (\<lambda>x. key x = key r) rows = Some r"
  by (induction rows) auto

text \<open>Ids ascend, so a table's order is its order by id.\<close>

definition ascending :: "('r \<Rightarrow> int) \<Rightarrow> 'r list \<Rightarrow> bool" where
  "ascending key rows \<longleftrightarrow> sorted_wrt (<) (map key rows)"

lemma ascending_append:
  "ascending key (rows @ [r]) \<longleftrightarrow> ascending key rows \<and> (\<forall>x \<in> set rows. key x < key r)"
  by (auto simp: ascending_def sorted_wrt_append)

lemma ascending_update:
  "(\<And>r. key (f r) = key r) \<Longrightarrow> ascending key (update_where p f rows) = ascending key rows"
  by (simp add: ascending_def table_simps)

lemma ascending_new: "ascending key rows \<Longrightarrow> key r = next_rowid (map key rows) \<Longrightarrow> ascending key (rows @ [r])"
  by (simp add: ascending_append next_rowid_greater)

lemma ascending_inj: "ascending key rows \<Longrightarrow> r \<in> set rows \<Longrightarrow> s \<in> set rows \<Longrightarrow> key r = key s \<Longrightarrow> r = s"
  unfolding ascending_def by (metis inj_on_def distinct_map strict_sorted_iff)

lemma ascending_distinct: "ascending key rows \<Longrightarrow> distinct (map key rows)"
  by (simp add: ascending_def strict_sorted_iff)

lemma ascending_filter: "ascending key rows \<Longrightarrow> ascending key (filter p rows)"
  by (simp add: ascending_def sorted_wrt_map sorted_wrt_filter)

lemma ascending_sorted: "ascending key rows \<Longrightarrow> sort_key key rows = rows"
  by (rule sort_key_id_if_sorted) (simp add: ascending_def strict_sorted_iff)

lemma keys_updated: "(\<And>r. key (f r) = key r) \<Longrightarrow> key ` set (update_where p f rows) = key ` set rows"
  using map_update_where [of p key f rows] by (simp flip: set_map)

text \<open>
  A limit on a rolling window: however the rows that count are stamped, no stretch of
  \<open>window\<close> holds more than \<open>limit\<close> of them. A row may be added at a time with fewer than that
  many after the start of its own window, whatever order the times come in.
\<close>

definition stamped_within :: "int \<Rightarrow> ('r \<Rightarrow> int option) \<Rightarrow> int \<Rightarrow> 'r list \<Rightarrow> 'r list" where
  "stamped_within window stamp w rows =
     filter (\<lambda>r. case stamp r of None \<Rightarrow> False | Some t \<Rightarrow> w - window < t \<and> t \<le> w) rows"

definition stamped_after :: "('r \<Rightarrow> int option) \<Rightarrow> int \<Rightarrow> 'r list \<Rightarrow> 'r list" where
  "stamped_after stamp t rows = filter (\<lambda>r. case stamp r of None \<Rightarrow> False | Some s \<Rightarrow> t < s) rows"

definition rolling_bound :: "int \<Rightarrow> nat \<Rightarrow> ('r \<Rightarrow> int option) \<Rightarrow> 'r list \<Rightarrow> bool" where
  "rolling_bound window limit stamp rows \<longleftrightarrow> (\<forall>w. length (stamped_within window stamp w rows) \<le> limit)"

lemma length_filter_imp: "(\<And>x. x \<in> set xs \<Longrightarrow> p x \<Longrightarrow> q x) \<Longrightarrow> length (filter p xs) \<le> length (filter q xs)"
  by (induction xs) auto

lemma rolling_bound_insert:
  assumes bound: "rolling_bound window limit stamp (xs @ ys)" and t: "stamp r = Some t"
    and room: "length (stamped_after stamp (t - window) (xs @ ys)) < limit"
  shows "rolling_bound window limit stamp (xs @ r # ys)"
  unfolding rolling_bound_def
proof
  fix w
  show "length (stamped_within window stamp w (xs @ r # ys)) \<le> limit"
  proof (cases "w - window < t \<and> t \<le> w")
    case True
    have "length (stamped_within window stamp w (xs @ ys)) \<le> length (stamped_after stamp (t - window) (xs @ ys))"
      unfolding stamped_within_def stamped_after_def using True by (intro length_filter_imp) (auto split: option.splits)
    then show ?thesis using room True t by (simp add: stamped_within_def)
  next
    case False
    then have "stamped_within window stamp w (xs @ r # ys) = stamped_within window stamp w (xs @ ys)" using t by (auto simp: stamped_within_def)
    then show ?thesis using bound by (simp add: rolling_bound_def)
  qed
qed

lemma rolling_bound_filter: "rolling_bound window limit stamp rows \<Longrightarrow> rolling_bound window limit stamp (filter p rows)"
proof -
  have "length (stamped_within window stamp w (filter p rows)) \<le> length (stamped_within window stamp w rows)" for w
    unfolding stamped_within_def by (induction rows) auto
  then show "rolling_bound window limit stamp rows \<Longrightarrow> ?thesis" unfolding rolling_bound_def using le_trans by blast
qed

lemma rolling_bound_update:
  assumes "\<And>r. p r \<Longrightarrow> stamp (f r) = stamp r \<or> stamp (f r) = None"
  shows "rolling_bound window limit stamp rows \<Longrightarrow> rolling_bound window limit stamp (update_where p f rows)"
proof -
  have "length (stamped_within window stamp w (update_where p f rows)) \<le> length (stamped_within window stamp w rows)" for w
  proof (induction rows)
    case (Cons r rows)
    then show ?case using assms [of r] by (cases "stamp r") (auto simp: update_where_def stamped_within_def)
  qed (simp add: update_where_def stamped_within_def)
  then show "rolling_bound window limit stamp rows \<Longrightarrow> ?thesis" unfolding rolling_bound_def using le_trans by blast
qed

lemma rolling_bound_Nil [simp]: "rolling_bound window limit stamp []"
  by (simp add: rolling_bound_def stamped_within_def)

section \<open>Interfaces\<close>

text \<open>
  A value stored by name: what a component writes to a column or a frame, another reads
  back.
\<close>

locale stored_name =
  fixes to_name :: "'a \<Rightarrow> 'n"
    and from_name :: "'n \<Rightarrow> 'a"
  assumes from_to: "from_name (to_name a) = a"
begin

lemma name_inject: "to_name a = to_name b \<longleftrightarrow> a = b"
  by (metis from_to)

lemma map_from_to: "map from_name (map to_name xs) = xs"
  by (simp add: from_to comp_def)

end

text \<open>
  A catalogue: names outside it read as \<open>None\<close>, so a reader can drop them.
\<close>

locale catalogue = stored_name to_name "\<lambda>n. the (of_name n)"
  for to_name :: "'a \<Rightarrow> 'n" and of_name :: "'n \<Rightarrow> 'a option" +
  assumes of_to: "of_name (to_name a) = Some a"
    and of_Some: "of_name n = Some a \<Longrightarrow> n = to_name a"
begin

lemma of_name_iff: "of_name n = Some a \<longleftrightarrow> n = to_name a"
  using of_to of_Some by blast

lemma map_filter_names: "List.map_filter of_name (map to_name xs) = xs"
  by (induction xs) (simp_all add: List.map_filter_simps of_to)

end

text \<open>
  A table whose rows lapse: the provider prunes the rows older than a window and answers
  only from the rows inside it. Pruning must never change an answer.
\<close>

locale retained_table =
  fixes stamp :: "'r \<Rightarrow> int"
    and window :: int
    and prune :: "int \<Rightarrow> 'r list \<Rightarrow> 'r list"
    and visible :: "int \<Rightarrow> 'r list \<Rightarrow> 'r list"
    and wanted :: "'r \<Rightarrow> bool"
  assumes prune_eq: "prune now rows = filter (\<lambda>r. \<not> stamp r \<le> now - window) rows"
    and visible_eq: "visible now rows = filter (\<lambda>r. wanted r \<and> now - window < stamp r) rows"
begin

lemma visible_prune: "now \<le> later \<Longrightarrow> visible later (prune now rows) = visible later rows"
  by (auto simp: prune_eq visible_eq intro: filter_cong)

lemma prune_prune: "now \<le> later \<Longrightarrow> prune later (prune now rows) = prune later rows"
  by (auto simp: prune_eq intro: filter_cong)

lemma visible_antimono: "now \<le> later \<Longrightarrow> set (visible later rows) \<subseteq> set (visible now rows)"
  by (auto simp: visible_eq)

lemma length_visible_antimono: "now \<le> later \<Longrightarrow> length (visible later rows) \<le> length (visible now rows)"
  by (induction rows) (auto simp: visible_eq)

end

text \<open>
  The history of a table that is only appended to and updated in place: its old rows are
  still there, each related to what it was, and a new row has a key no old row has.
\<close>

definition grows :: "('r \<Rightarrow> 'r \<Rightarrow> bool) \<Rightarrow> ('r \<Rightarrow> 'k) \<Rightarrow> 'r list \<Rightarrow> 'r list \<Rightarrow> bool" where
  "grows kept key rows rows' \<longleftrightarrow>
     (\<exists>old new. rows' = old @ new \<and> list_all2 kept rows old
        \<and> (\<forall>r \<in> set new. key r \<notin> key ` set rows))"

lemma list_all2_left: "list_all2 P xs ys \<Longrightarrow> x \<in> set xs \<Longrightarrow> \<exists>y \<in> set ys. P x y"
  by (induction rule: list_all2_induct) auto

lemma list_all2_right: "list_all2 P xs ys \<Longrightarrow> y \<in> set ys \<Longrightarrow> \<exists>x \<in> set xs. P x y"
  by (induction rule: list_all2_induct) auto

locale table_history =
  fixes kept :: "'r \<Rightarrow> 'r \<Rightarrow> bool" and key :: "'r \<Rightarrow> 'k"
  assumes kept_refl: "kept r r"
    and kept_trans: "kept a b \<Longrightarrow> kept b c \<Longrightarrow> kept a c"
    and kept_key: "kept a b \<Longrightarrow> key b = key a"
begin

lemma kept_rows_refl: "list_all2 kept rows rows"
  by (induction rows) (simp_all add: kept_refl)

lemma growsI:
  "list_all2 kept rows old \<Longrightarrow> \<forall>r \<in> set new. key r \<notin> key ` set rows \<Longrightarrow>
   grows kept key rows (old @ new)"
  unfolding grows_def by blast

lemma grows_refl: "grows kept key rows rows"
  using growsI [OF kept_rows_refl [of rows], of "[]"] by (simp del: image_set)

lemma kept_rows_keys: "list_all2 kept xs ys \<Longrightarrow> map key ys = map key xs"
  by (induction rule: list_all2_induct) (simp_all add: kept_key)

lemma grows_keys: "grows kept key rows rows' \<Longrightarrow> key ` set rows \<subseteq> key ` set rows'"
proof -
  assume "grows kept key rows rows'"
  then obtain old new where *: "rows' = old @ new" "list_all2 kept rows old"
    unfolding grows_def by blast
  have "key ` set old = key ` set rows"
    using arg_cong [OF kept_rows_keys [OF *(2)], of set] by simp
  then show ?thesis using *(1) by auto
qed

lemma grows_trans:
  assumes "grows kept key a b" and "grows kept key b c"
  shows "grows kept key a c"
proof -
  obtain b1 b2 where b: "b = b1 @ b2" "list_all2 kept a b1" "\<forall>r \<in> set b2. key r \<notin> key ` set a"
    using assms(1) unfolding grows_def by blast
  obtain c1 c2 where c: "c = c1 @ c2" "list_all2 kept b c1" "\<forall>r \<in> set c2. key r \<notin> key ` set b"
    using assms(2) unfolding grows_def by blast
  obtain d1 d2 where d: "c1 = d1 @ d2" "list_all2 kept b1 d1" "list_all2 kept b2 d2"
    using c(2) b(1) by (auto simp: list_all2_append1)
  have "list_all2 kept a d1"
    using list_all2_trans [of kept kept kept a b1 d1] b(2) d(2) kept_trans by blast
  moreover have "\<forall>r \<in> set d2. key r \<notin> key ` set a"
  proof -
    have "key ` set d2 = key ` set b2"
      using arg_cong [OF kept_rows_keys [OF d(3)], of set] by simp
    then have "key ` set d2 \<inter> key ` set a = {}" using b(3) by auto
    then show ?thesis by blast
  qed
  moreover have "\<forall>r \<in> set c2. key r \<notin> key ` set a"
    using c(3) grows_keys [OF assms(1)] by blast
  ultimately show ?thesis
    unfolding c(1) d(1) append.assoc by (intro growsI) auto
qed

lemma grows_update:
  assumes "\<And>r. r \<in> set rows \<Longrightarrow> p r \<Longrightarrow> kept r (f r)"
  shows "grows kept key rows (update_where p f rows)"
proof -
  have "list_all2 kept rows (update_where p f rows)"
    using assms by (induction rows) (auto simp: update_where_def kept_refl)
  from growsI [OF this, of "[]"] show ?thesis by simp
qed

lemma grows_append: "key r \<notin> key ` set rows \<Longrightarrow> grows kept key rows (rows @ [r])"
  by (rule growsI [OF kept_rows_refl]) simp

lemma grows_row:
  assumes "grows kept key rows rows'" and "r \<in> set rows"
  obtains r' where "r' \<in> set rows'" and "kept r r'"
proof -
  obtain old new where "rows' = old @ new" "list_all2 kept rows old"
    using assms(1) unfolding grows_def by blast
  then obtain r' where "r' \<in> set old" "kept r r'" using list_all2_left assms(2) by metis
  then show thesis using that [of r'] \<open>rows' = old @ new\<close> by simp
qed

lemma grows_old:
  assumes "grows kept key rows rows'" and "r' \<in> set rows'" and "key r' \<in> key ` set rows"
  obtains r where "r \<in> set rows" and "kept r r'"
proof -
  obtain old new where *: "rows' = old @ new" "list_all2 kept rows old"
    "\<forall>r \<in> set new. key r \<notin> key ` set rows"
    using assms(1) unfolding grows_def by blast
  then have "r' \<in> set old" using assms(2,3) by auto
  then obtain r where "r \<in> set rows" "kept r r'" using list_all2_right [OF *(2)] by blast
  then show thesis using that by blast
qed

end

end
