(* ===== verification/Protocol.thy ===== *)
theory Protocol
  imports Prelude
begin

text \<open>
  The wire types of \<open>crates/bokkie-protocol\<close>: ids, accounts, Bots, messages, routines,
  usage, the events of the per-user log and the frames of the event socket. An id is the
  \<open>i64\<close> it wraps, a timestamp the \<open>i64\<close> of milliseconds, and a sequence number a
  natural number: it counts up from 0 by one and the code never wraps it.
\<close>

section \<open>Ids, timestamps and sequence numbers (lib.rs, events.rs)\<close>

type_synonym timestamp = int
type_synonym user_id = int
type_synonym bot_id = int
type_synonym message_id = int
type_synonym routine_id = int
type_synonym routine_run_id = int
type_synonym notification_id = int
type_synonym seq = nat

definition SEQ_ZERO :: seq where
  "SEQ_ZERO = 0"

definition seq_next :: "seq \<Rightarrow> seq" where
  "seq_next s = s + 1"

definition SESSION_COOKIE :: utext where
  "SESSION_COOKIE = lit ''__Host-bokkie_session''"

section \<open>Errors (api.rs)\<close>

datatype error_code =
    InvalidRequest | Unauthenticated | Forbidden | NotFound | Conflict
  | RateLimited | LimitReached | Unavailable | InternalError

fun error_status :: "error_code \<Rightarrow> nat" where
  "error_status InvalidRequest = 400"
| "error_status Unauthenticated = 401"
| "error_status Forbidden = 403"
| "error_status NotFound = 404"
| "error_status Conflict = 409"
| "error_status RateLimited = 429"
| "error_status LimitReached = 429"
| "error_status Unavailable = 503"
| "error_status InternalError = 500"

record api_error =
  ae_code :: error_code
  ae_message :: utext

section \<open>Accounts and sessions (api.rs)\<close>

datatype role = Admin | Member

record permissions =
  may_create_bots :: bool
  may_edit_bot_profiles :: bool

definition default_permissions :: permissions where
  "default_permissions = \<lparr>may_create_bots = True, may_edit_bot_profiles = True\<rparr>"

record user =
  u_id :: user_id
  u_username :: utext
  u_display_name :: utext
  u_role :: role
  u_disabled :: bool
  u_created_at :: timestamp
  u_permissions :: permissions
  u_oversight :: bool
  u_oversight_changed_at :: "timestamp option"
  u_time_zone :: utext

definition DEFAULT_TIME_ZONE :: utext where
  "DEFAULT_TIME_ZONE = lit ''Australia/Adelaide''"

record limits =
  daily_turns :: "nat option"
  weekly_tokens :: "nat option"

definition no_limits :: limits where
  "no_limits = \<lparr>daily_turns = None, weekly_tokens = None\<rparr>"

record admin_user =
  au_user :: user
  au_limits :: limits

record session_summary =
  ss_id :: int
  ss_current :: bool
  ss_created_at :: timestamp
  ss_last_seen_at :: timestamp
  ss_user_agent :: "utext option"

record invitation_summary =
  is_id :: int
  is_role :: role
  is_permissions :: permissions
  is_display_name :: "utext option"
  is_created_at :: timestamp
  is_expires_at :: timestamp

section \<open>Grants (api.rs)\<close>

datatype grant = Notes | Seen | Notify | WebSearch | WebFetch

definition GRANT_ALL :: "grant list" where
  "GRANT_ALL = [Notes, Seen, Notify, WebSearch, WebFetch]"

fun grant_name :: "grant \<Rightarrow> utext" where
  "grant_name Notes = lit ''notes''"
| "grant_name Seen = lit ''seen''"
| "grant_name Notify = lit ''notify''"
| "grant_name WebSearch = lit ''web.search''"
| "grant_name WebFetch = lit ''web.fetch''"

definition grant_from_name :: "utext \<Rightarrow> grant option" where
  "grant_from_name name = find (\<lambda>g. grant_name g = name) GRANT_ALL"

text \<open>The derived order of the enum is the catalogue order: \<open>BTreeSet<Grant>\<close> iterates in it.\<close>

fun grant_index :: "grant \<Rightarrow> nat" where
  "grant_index Notes = 0"
| "grant_index Seen = 1"
| "grant_index Notify = 2"
| "grant_index WebSearch = 3"
| "grant_index WebFetch = 4"

lemma grant_index_inject: "grant_index a = grant_index b \<Longrightarrow> a = b"
  by (cases a; cases b) auto

instantiation grant :: linorder
begin

definition less_eq_grant :: "grant \<Rightarrow> grant \<Rightarrow> bool" where
  "less_eq_grant a b \<longleftrightarrow> grant_index a \<le> grant_index b"

definition less_grant :: "grant \<Rightarrow> grant \<Rightarrow> bool" where
  "less_grant a b \<longleftrightarrow> grant_index a < grant_index b"

instance
  by standard (auto simp: less_eq_grant_def less_grant_def dest: grant_index_inject)

end

section \<open>Bots and messages (api.rs)\<close>

datatype bot_status = Idle | Working | Refused

datatype author = AuthorUser | AuthorBot

datatype message_state = Streaming | Complete | Interrupted | Failed

datatype message_kind = TextMessage | Marker

datatype notification_kind = ResultNotice | Question

record message_routine =
  mr_routine_id :: routine_id
  mr_run_id :: routine_run_id
  mr_prompt :: utext

record message_notification =
  mn_kind :: notification_kind
  mn_body :: utext

record message =
  m_id :: message_id
  m_bot_id :: bot_id
  m_author :: author
  m_text :: utext
  m_state :: message_state
  m_created_at :: timestamp
  m_updated_at :: timestamp
  m_kind :: message_kind
  m_routine :: "message_routine option"
  m_notification :: "message_notification option"

definition is_unread :: "message \<Rightarrow> message_id option \<Rightarrow> bool" where
  "is_unread m read_up_to \<longleftrightarrow> m_author m = AuthorBot \<and>
     (case read_up_to of None \<Rightarrow> True | Some r \<Rightarrow> m_id m > r)"

record message_preview =
  mp_author :: author
  mp_text :: utext
  mp_at :: timestamp

record bot =
  b_id :: bot_id
  b_name :: utext
  b_label :: utext
  b_description :: utext
  b_avatar :: "utext option"
  b_pinned :: bool
  b_hidden :: bool
  b_status :: bot_status
  b_created_at :: timestamp
  b_updated_at :: timestamp
  b_last_message :: "message_preview option"
  b_grants :: "grant list"
  b_read_up_to :: "message_id option"
  b_unread :: bool

record bot_list =
  bl_bots :: "bot list"
  bl_unread_bots :: nat
  bl_seq :: seq

record message_page =
  pg_messages :: "message list"
  pg_older :: "message_id option"
  pg_seq :: seq

record read_state =
  rs_bot_id :: bot_id
  rs_read_up_to :: "message_id option"
  rs_unread :: bool

section \<open>Routines (api.rs)\<close>

datatype weekday = Mon | Tue | Wed | Thu | Fri | Sat | Sun

definition WEEKDAY_ALL :: "weekday list" where
  "WEEKDAY_ALL = [Mon, Tue, Wed, Thu, Fri, Sat, Sun]"

text \<open>The fields are private: a time of day is made by \<open>new\<close> or by parsing.\<close>

datatype time_of_day = TimeOfDay (hour: nat) (minute: nat)

definition time_of_day_new :: "nat \<Rightarrow> nat \<Rightarrow> time_of_day option" where
  "time_of_day_new h m = (if h < 24 \<and> m < 60 then Some (TimeOfDay h m) else None)"

definition time_of_day_show :: "time_of_day \<Rightarrow> utext" where
  "time_of_day_show t = pad2 (hour t) @ 58 # pad2 (minute t)"

definition two_digits :: "utext \<Rightarrow> nat option" where
  "two_digits part =
     (if byte_len part = 2 \<and> list_all is_ascii_digit part
      then Some (foldl (\<lambda>n c. n * 10 + (c - 48)) 0 part)
      else None)"

definition time_of_day_parse :: "utext \<Rightarrow> time_of_day option" where
  "time_of_day_parse text =
     (case split_once 58 text of
        None \<Rightarrow> None
      | Some (h, m) \<Rightarrow>
          (case (two_digits h, two_digits m) of
             (Some h', Some m') \<Rightarrow> time_of_day_new h' m'
           | _ \<Rightarrow> None))"

datatype schedule =
    Daily time_of_day
  | Weekdays time_of_day
  | Days "weekday list" time_of_day
  | Hours nat time_of_day

definition EVERY_HOURS :: "nat list" where
  "EVERY_HOURS = [1, 2, 3, 4, 6, 8, 12]"

datatype routine_push = EveryRun | NotifyOnly

record routine =
  r_id :: routine_id
  r_bot_id :: bot_id
  r_name :: utext
  r_prompt :: utext
  r_schedule :: schedule
  r_push :: routine_push
  r_paused :: bool
  r_failures :: nat
  r_next_run_at :: "timestamp option"
  r_created_at :: timestamp
  r_updated_at :: timestamp

record routine_list =
  rl_routines :: "routine list"
  rl_seq :: seq

datatype run_trigger = ScheduleTrigger | ManualTrigger

datatype run_state =
    RunWaiting | RunRunning | RunSucceeded | RunFailed | RunMissed | RunSkipped | RunInterrupted

definition run_finished :: "run_state \<Rightarrow> bool" where
  "run_finished s \<longleftrightarrow> \<not> (s = RunWaiting \<or> s = RunRunning)"

record routine_run =
  rr_id :: routine_run_id
  rr_routine_id :: routine_id
  rr_bot_id :: bot_id
  rr_trigger :: run_trigger
  rr_scheduled_for :: timestamp
  rr_started_at :: "timestamp option"
  rr_finished_at :: "timestamp option"
  rr_state :: run_state
  rr_reason :: "utext option"
  rr_messages :: "message_id list"
  rr_tokens :: "nat option"

section \<open>Usage (api.rs)\<close>

record rate_limit_window =
  w_used_percent :: int
  w_window_minutes :: "int option"
  w_resets_at :: "timestamp option"

record rate_limit_bucket =
  bk_id :: utext
  bk_name :: "utext option"
  bk_primary :: "rate_limit_window option"
  bk_secondary :: "rate_limit_window option"
  bk_reached :: bool

record allowance =
  al_limits :: limits
  al_turns_today :: nat
  al_tokens_this_week :: nat
  al_exhausted :: bool

record usage =
  us_subscription :: "rate_limit_bucket list"
  us_allowance :: allowance

section \<open>Events and frames (events.rs)\<close>

datatype event =
    BotCreated bot
  | BotUpdated bot
  | BotStatusChanged bot_id bot_status
  | MessageCreated message
  | MessageDelta bot_id message_id nat utext
  | MessageCompleted message
  | UsageUpdated usage
  | BotError bot_id utext
  | AccountUpdated user
  | RoutineCreated routine
  | RoutineUpdated routine
  | RoutineDeleted bot_id routine_id
  | RoutineRunUpdated routine_run
  | ReadUpdated read_state

record envelope =
  e_seq :: seq
  e_at :: timestamp
  e_event :: event

definition VIEWING_RENEW_MS :: nat where
  "VIEWING_RENEW_MS = 30000"

definition VIEWING_EXPIRES_MS :: nat where
  "VIEWING_EXPIRES_MS = 75000"

datatype client_frame =
    CResume "seq option"
  | CPing
  | CViewing "bot_id option"

datatype server_frame =
    SReset seq
  | SEvent envelope
  | SLive seq
  | SPong

section \<open>Lemmas\<close>

interpretation grants: catalogue grant_name grant_from_name
proof unfold_locales
  show of_to: "grant_from_name (grant_name a) = Some a" for a
    by (cases a) (simp_all add: grant_from_name_def GRANT_ALL_def)
  show "the (grant_from_name (grant_name a)) = a" for a
    by (simp add: of_to)
  show "grant_from_name n = Some a \<Longrightarrow> n = grant_name a" for n a
    by (auto simp: grant_from_name_def dest: find_Some_in)
qed

lemma set_GRANT_ALL: "set GRANT_ALL = UNIV"
proof -
  have "g \<in> set GRANT_ALL" for g by (cases g) (auto simp: GRANT_ALL_def)
  then show ?thesis by auto
qed

lemma sorted_GRANT_ALL: "sorted GRANT_ALL" "distinct GRANT_ALL"
  by (simp_all add: GRANT_ALL_def less_eq_grant_def)

lemma comma_not_in_grant_name: "44 \<notin> set (grant_name g)" and grant_name_not_Nil: "grant_name g \<noteq> []"
  by (cases g; simp)+

lemma is_ascii_digit_cases: "is_ascii_digit c \<longleftrightarrow> (\<exists>d < 10. c = 48 + d)"
  by (auto simp: is_ascii_digit_def intro: exI [of _ "c - 48"])

lemma two_digits_Some: "two_digits part = Some n \<longleftrightarrow> n < 100 \<and> part = pad2 n"
proof
  assume h: "two_digits part = Some n"
  then have ds: "list_all is_ascii_digit part" and len: "byte_len part = 2"
    by (auto simp: two_digits_def split: if_splits)
  have "\<forall>c \<in> set part. c < 128"
    using ds by (fastforce simp: list_all_iff is_ascii_digit_def)
  then have "length part = 2" using len by (simp add: byte_len_ascii)
  then obtain a b where p: "part = [a, b]"
    by (auto simp: length_Suc_conv eval_nat_numeral)
  with ds obtain x y where "x < 10" "y < 10" "a = 48 + x" "b = 48 + y"
    by (auto simp: is_ascii_digit_cases)
  then show "n < 100 \<and> part = pad2 n" using h p
    by (auto simp: two_digits_def pad2_digits split: if_splits)
next
  assume "n < 100 \<and> part = pad2 n"
  then show "two_digits part = Some n"
    by (auto simp: pad2_digits two_digits_def byte_len_def utf8_width_def is_ascii_digit_def)
qed

lemma colon_not_in_pad2: "n < 100 \<Longrightarrow> 58 \<notin> set (pad2 n)"
  by (auto simp: pad2_digits)

lemma time_of_day_parse_Some:
  "time_of_day_parse text = Some t \<longleftrightarrow>
     hour t < 24 \<and> minute t < 60 \<and> text = time_of_day_show t"
proof
  assume h: "time_of_day_parse text = Some t"
  then obtain a b x y where "split_once 58 text = Some (a, b)"
    and "two_digits a = Some x" "two_digits b = Some y" "time_of_day_new x y = Some t"
    by (auto simp: time_of_day_parse_def split: option.splits)
  then show "hour t < 24 \<and> minute t < 60 \<and> text = time_of_day_show t"
    by (auto simp: two_digits_Some time_of_day_new_def time_of_day_show_def
        dest!: split_once_Some split: if_splits)
next
  assume h: "hour t < 24 \<and> minute t < 60 \<and> text = time_of_day_show t"
  then have "two_digits (pad2 (hour t)) = Some (hour t)"
    and "two_digits (pad2 (minute t)) = Some (minute t)"
    by (auto simp: two_digits_Some)
  with h show "time_of_day_parse text = Some t"
    by (simp add: time_of_day_parse_def time_of_day_show_def split_once_append
        colon_not_in_pad2 time_of_day_new_def)
qed

section \<open>Properties\<close>

text \<open>Reading and writing a time of day are inverse: a text parses to a time exactly when
  the time is in range and the text is the one \<open>Display\<close> writes for it, so nothing
  else is accepted and every accepted text is canonical.\<close>

lemma time_of_day_roundtrip:
  "time_of_day_parse text = Some t \<longleftrightarrow>
     hour t < 24 \<and> minute t < 60 \<and> time_of_day_show t = text"
  using time_of_day_parse_Some by auto

end
