(* ===== verification/Failures.thy ===== *)
theory Failures
  imports Protocol
begin

text \<open>
  \<open>crates/bokkie-gateway/src/error.rs\<close> and \<open>clock.rs\<close>: the error type of every
  route and the gateway's clock. A database error is outside the model: every query
  succeeds, so \<open>internal\<close> is reached only where the code builds it itself.
\<close>

section \<open>Failures (error.rs)\<close>

record failure =
  f_code :: error_code
  f_message :: utext

definition failure_new :: "error_code \<Rightarrow> utext \<Rightarrow> failure" where
  "failure_new code message = \<lparr>f_code = code, f_message = message\<rparr>"

definition invalid :: "utext \<Rightarrow> failure" where
  "invalid message = failure_new InvalidRequest message"

definition unauthenticated :: failure where
  "unauthenticated = failure_new Unauthenticated (lit ''Sign in to continue'')"

definition forbidden :: "utext \<Rightarrow> failure" where
  "forbidden message = failure_new Forbidden message"

definition not_found :: failure where
  "not_found = failure_new NotFound (lit ''Not found'')"

definition conflict :: "utext \<Rightarrow> failure" where
  "conflict message = failure_new Conflict message"

definition unavailable :: "utext \<Rightarrow> failure" where
  "unavailable message = failure_new Unavailable message"

text \<open>The cause goes to the log only.\<close>

definition internal :: "utext \<Rightarrow> failure" where
  "internal cause = failure_new InternalError (lit ''Something went wrong'')"

text \<open>The HTTP response of a failure: its status and its JSON body.\<close>

definition into_response :: "failure \<Rightarrow> nat \<times> api_error" where
  "into_response f = (error_status (f_code f), \<lparr>ae_code = f_code f, ae_message = f_message f\<rparr>)"

text \<open>
  The extractors turn a rejection of axum's own into the gateway's error shape. Axum is
  not under \<open>src/\<close>: a rejection is its status and its text. A server-side rejection of a
  path is the gateway's own fault.
\<close>

definition body_extract :: "utext + 'a \<Rightarrow> failure + 'a" where
  "body_extract r = (case r of Inr value \<Rightarrow> Inr value | Inl text \<Rightarrow> Inl (invalid text))"

definition path_extract :: "(nat \<times> utext) + 'a \<Rightarrow> failure + 'a" where
  "path_extract r =
     (case r of
        Inr value \<Rightarrow> Inr value
      | Inl (status, text) \<Rightarrow>
          (if 500 \<le> status \<and> status < 600 then Inl (internal text) else Inl (invalid text)))"

definition query_extract :: "utext + 'a \<Rightarrow> failure + 'a" where
  "query_extract r = (case r of Inr value \<Rightarrow> Inr value | Inl text \<Rightarrow> Inl (invalid text))"

section \<open>The clock (clock.rs)\<close>

text \<open>The system clock's reading is an argument; a manual clock stands still until advanced.\<close>

datatype clock = SystemClock | ManualClock int

definition wrap_i64 :: "int \<Rightarrow> int" where
  "wrap_i64 i = (i + 2 ^ 63) mod 2 ^ 64 - 2 ^ 63"

fun now_ms :: "int \<Rightarrow> clock \<Rightarrow> int" where
  "now_ms system (ManualClock now) = now"
| "now_ms system SystemClock = system"

text \<open>\<open>fetch_add\<close> wraps around on overflow.\<close>

fun advance :: "clock \<Rightarrow> int \<Rightarrow> clock" where
  "advance (ManualClock now) ms = ManualClock (wrap_i64 (now + ms))"
| "advance SystemClock ms = SystemClock"

definition MINUTE_MS :: int where
  "MINUTE_MS = 60 * 1000"

definition HOUR_MS :: int where
  "HOUR_MS = 60 * MINUTE_MS"

definition DAY_MS :: int where
  "DAY_MS = 24 * HOUR_MS"

lemma ms_values: "MINUTE_MS = 60000" "HOUR_MS = 3600000" "DAY_MS = 86400000"
  by (simp_all add: MINUTE_MS_def HOUR_MS_def DAY_MS_def)

lemma failure_codes [simp]:
  "f_code (invalid m) = InvalidRequest"
  "f_code unauthenticated = Unauthenticated"
  "f_code (forbidden m) = Forbidden"
  "f_code not_found = NotFound"
  "f_code (conflict m) = Conflict"
  "f_code (unavailable m) = Unavailable"
  "f_code (internal m) = InternalError"
  by (simp_all add: invalid_def unauthenticated_def forbidden_def not_found_def conflict_def
      unavailable_def internal_def failure_new_def)

lemma failure_messages [simp]:
  "f_message (invalid m) = m"
  "f_message (forbidden m) = m"
  "f_message (conflict m) = m"
  by (simp_all add: invalid_def forbidden_def conflict_def failure_new_def)

lemma failure_inject [simp]:
  "invalid a = invalid b \<longleftrightarrow> a = b"
  "forbidden a = forbidden b \<longleftrightarrow> a = b"
  "conflict a = conflict b \<longleftrightarrow> a = b"
  by (simp_all add: invalid_def forbidden_def conflict_def failure_new_def)

lemma failure_distinct [simp]:
  "invalid a \<noteq> forbidden b" "forbidden b \<noteq> invalid a"
  "invalid a \<noteq> not_found" "not_found \<noteq> invalid a"
  "forbidden a \<noteq> not_found" "not_found \<noteq> forbidden a"
  "conflict a \<noteq> not_found" "not_found \<noteq> conflict a"
  "conflict a \<noteq> forbidden b" "forbidden b \<noteq> conflict a"
  "conflict a \<noteq> invalid b" "invalid b \<noteq> conflict a"
  by (simp_all add: invalid_def forbidden_def conflict_def not_found_def failure_new_def)

end
