(* ===== verification/Grants.thy ===== *)
theory Grants
  imports Failures
begin

text \<open>
  \<open>crates/bokkie-gateway/src/grants.rs\<close>: the rules for setting a Bot's capability
  grants. A \<open>BTreeSet<Grant>\<close> is a set of grants, iterated in the catalogue order of the
  \<open>linorder\<close> instance. The lemmas characterise exactly which requests are accepted.
\<close>

type_synonym grant_set = "grant set"

datatype trust_class = Ordinary | UntrustedInput | Privileged

fun grant_class :: "grant \<Rightarrow> trust_class" where
  "grant_class Notes = Ordinary"
| "grant_class Seen = Ordinary"
| "grant_class Notify = Ordinary"
| "grant_class WebSearch = UntrustedInput"
| "grant_class WebFetch = UntrustedInput"

fun available :: "grant \<Rightarrow> bool" where
  "available Notes = True"
| "available Seen = True"
| "available Notify = True"
| "available WebSearch = True"
| "available WebFetch = True"

definition member_may_grant :: "grant \<Rightarrow> bool" where
  "member_may_grant g \<longleftrightarrow> g = Notes \<or> g = Seen \<or> g = Notify"

text \<open>One iteration of the loop over the grants: each slot keeps the first grant of its class.\<close>

fun taint_step :: "('g \<times> trust_class) \<Rightarrow> 'g option \<times> 'g option \<Rightarrow> 'g option \<times> 'g option" where
  "taint_step (g, UntrustedInput) (u, p) = (if u = None then Some g else u, p)"
| "taint_step (g, Privileged) (u, p) = (u, if p = None then Some g else p)"
| "taint_step (g, Ordinary) (u, p) = (u, p)"

definition taint_conflict :: "('g \<times> trust_class) list \<Rightarrow> ('g \<times> 'g) option" where
  "taint_conflict grants =
     (case fold taint_step grants (None, None) of
        (Some untrusted, Some privileged) \<Rightarrow> Some (untrusted, privileged)
      | _ \<Rightarrow> None)"

text \<open>The loop over the grants a request adds, in order; it returns at the first refusal.\<close>

fun check_added :: "role \<Rightarrow> grant list \<Rightarrow> failure + unit" where
  "check_added role [] = Inr ()"
| "check_added role (g # gs) =
     (if role \<noteq> Admin \<and> \<not> member_may_grant g
      then Inl (forbidden (lit ''Only an admin can grant '' @ grant_name g))
      else if \<not> available g then Inl (invalid (grant_name g @ lit '' is not available yet''))
      else check_added role gs)"

definition check_change_classed ::
  "role \<Rightarrow> grant_set \<Rightarrow> grant list \<Rightarrow> (grant \<Rightarrow> trust_class) \<Rightarrow> failure + grant_set" where
  "check_change_classed role current requested cls =
     (let req = set requested in
      and_then (check_added role (sorted_list_of_set (req - current))) (\<lambda>_.
        case taint_conflict (map (\<lambda>g. (g, cls g)) (sorted_list_of_set req)) of
          Some (untrusted, privileged) \<Rightarrow>
            Inl (invalid (lit ''A Bot granted '' @ grant_name untrusted @
                   lit '' reads untrusted input, so it cannot also hold '' @ grant_name privileged))
        | None \<Rightarrow> Inr req))"

definition check_change :: "role \<Rightarrow> grant_set \<Rightarrow> grant list \<Rightarrow> failure + grant_set" where
  "check_change role current requested = check_change_classed role current requested grant_class"

definition grants_to_stored :: "grant_set \<Rightarrow> utext" where
  "grants_to_stored grants = join_with 44 (map grant_name (sorted_list_of_set grants))"

definition grants_from_stored :: "utext \<Rightarrow> grant_set" where
  "grants_from_stored stored =
     set (List.map_filter grant_from_name (filter (\<lambda>name. name \<noteq> []) (split_on 44 stored)))"

section \<open>Lemmas\<close>

lemma finite_grants [simp]: "finite (gs :: grant set)"
  using finite_set [of GRANT_ALL] unfolding set_GRANT_ALL by (rule finite_subset [OF subset_UNIV])

lemma available_all [simp]: "available g"
  by (cases g) auto

text \<open>What the loop over the grants has found: the first grant of each class.\<close>

lemma fold_taint:
  "fold taint_step grants (u, p) =
     (if u = None then map_option fst (find (\<lambda>x. snd x = UntrustedInput) grants) else u,
      if p = None then map_option fst (find (\<lambda>x. snd x = Privileged) grants) else p)"
proof (induction grants arbitrary: u p)
  case Nil
  then show ?case by auto
next
  case (Cons x grants)
  then show ?case
    by (cases x; cases "snd x") auto
qed

lemma taint_conflict_Some:
  "taint_conflict grants = Some (a, b) \<longleftrightarrow>
     map_option fst (find (\<lambda>x. snd x = UntrustedInput) grants) = Some a \<and>
     map_option fst (find (\<lambda>x. snd x = Privileged) grants) = Some b"
  by (auto simp: taint_conflict_def fold_taint split: option.splits)

lemma taint_conflict_None:
  "taint_conflict grants = None \<longleftrightarrow>
     \<not> ((\<exists>g. (g, UntrustedInput) \<in> set grants) \<and> (\<exists>g. (g, Privileged) \<in> set grants))"
proof -
  have iff: "map_option fst (find (\<lambda>x. snd x = c) grants) = None \<longleftrightarrow> (\<forall>g. (g, c) \<notin> set grants)"
    for c by (auto simp: find_None_iff)
  have "taint_conflict grants = None \<longleftrightarrow>
      map_option fst (find (\<lambda>x. snd x = UntrustedInput) grants) = None \<or>
      map_option fst (find (\<lambda>x. snd x = Privileged) grants) = None"
    by (auto simp: taint_conflict_def fold_taint split: option.splits)
  then show ?thesis unfolding iff by blast
qed

lemma check_added_Inr:
  "check_added role gs = Inr () \<longleftrightarrow> role = Admin \<or> (\<forall>g \<in> set gs. member_may_grant g)"
  by (induction gs) auto

lemma check_added_Inl:
  "check_added role gs = Inl e \<Longrightarrow>
     role = Member \<and> (\<exists>g \<in> set gs. \<not> member_may_grant g \<and>
        e = forbidden (lit ''Only an admin can grant '' @ grant_name g))"
  by (induction gs) (auto split: if_splits intro: role.exhaust)

lemma check_change_classed_Inr:
  "check_change_classed role current requested cls = Inr s \<longleftrightarrow>
     s = set requested \<and>
     (role = Admin \<or> (\<forall>g \<in> s - current. member_may_grant g)) \<and>
     \<not> ((\<exists>g \<in> s. cls g = UntrustedInput) \<and> (\<exists>g \<in> s. cls g = Privileged))"
proof -
  let ?pairs = "map (\<lambda>g. (g, cls g)) (sorted_list_of_set (set requested))"
  have some: "(\<exists>g. (g, c) \<in> set ?pairs) \<longleftrightarrow> (\<exists>g \<in> set requested. cls g = c)" for c
    by auto
  have "check_change_classed role current requested cls = Inr s \<longleftrightarrow>
      check_added role (sorted_list_of_set (set requested - current)) = Inr () \<and>
      taint_conflict ?pairs = None \<and> s = set requested"
    by (auto simp: check_change_classed_def Let_def and_then_Inr split: option.splits)
  then show ?thesis
    unfolding check_added_Inr taint_conflict_None some by auto
qed

lemma no_grant_privileged [simp]: "grant_class g \<noteq> Privileged"
  by (cases g) auto

lemma check_change_Inr:
  "check_change role current requested = Inr s \<longleftrightarrow>
     s = set requested \<and> (role = Admin \<or> (\<forall>g \<in> s - current. member_may_grant g))"
  by (auto simp: check_change_def check_change_classed_Inr)

lemma check_change_admin: "check_change Admin current requested = Inr (set requested)"
  by (simp add: check_change_Inr)

lemma map_filter_grant_names:
  "List.map_filter grant_from_name (map grant_name gs) = gs"
  by (rule grants.map_filter_names)

lemma grants_stored_roundtrip: "grants_from_stored (grants_to_stored gs) = gs"
proof (cases "gs = {}")
  case True
  then show ?thesis
    by (simp add: grants_from_stored_def grants_to_stored_def List.map_filter_simps)
next
  case False
  let ?names = "map grant_name (sorted_list_of_set gs)"
  have "split_on 44 (grants_to_stored gs) = ?names"
    unfolding grants_to_stored_def
    by (rule split_on_join) (use False in \<open>auto simp: comma_not_in_grant_name\<close>)
  moreover have "filter (\<lambda>name. name \<noteq> []) ?names = ?names"
    by (simp add: grant_name_not_Nil)
  ultimately show ?thesis
    by (simp add: grants_from_stored_def map_filter_grant_names)
qed

section \<open>Histories\<close>

text \<open>A Bot's grants under a sequence of requests: a refused request changes nothing.\<close>

fun grant_history :: "(role \<times> grant list) list \<Rightarrow> grant_set \<Rightarrow> grant_set" where
  "grant_history [] gs = gs"
| "grant_history ((role, requested) # rs) gs =
     grant_history rs (case check_change role gs requested of Inl _ \<Rightarrow> gs | Inr gs' \<Rightarrow> gs')"

lemma grant_history_source:
  "g \<in> grant_history rs gs \<Longrightarrow> g \<notin> gs \<Longrightarrow>
     \<exists>(role, requested) \<in> set rs. g \<in> set requested \<and> (role = Admin \<or> member_may_grant g)"
proof (induction rs arbitrary: gs)
  case Nil
  then show ?case by simp
next
  case (Cons x rs)
  obtain role requested where x: "x = (role, requested)" by (cases x)
  let ?gs = "case check_change role gs requested of Inl _ \<Rightarrow> gs | Inr gs' \<Rightarrow> gs'"
  show ?case
  proof (cases "g \<in> ?gs")
    case True
    then obtain s where "check_change role gs requested = Inr s" and "g \<in> s"
      using Cons.prems(2) by (auto split: sum.splits)
    then show ?thesis using Cons.prems(2) by (auto simp: x check_change_Inr)
  next
    case False
    have "g \<in> grant_history rs ?gs" using Cons.prems(1) by (simp add: x)
    from Cons.IH [OF this False] show ?thesis by auto
  qed
qed

section \<open>Properties\<close>

text \<open>A request to set a Bot's grants is accepted exactly when a member adds nothing
  beyond notes, seen and notify and the requested set never holds an untrusted-input grant
  beside a privileged one; the new set is then the requested one. It holds for every
  assignment of classes to grants, so also once a privileged grant exists.\<close>

lemma grants_accepted_exactly:
  "check_change_classed role current requested cls = Inr s \<longleftrightarrow>
     s = set requested \<and>
     (role = Admin \<or> (\<forall>g \<in> s - current. member_may_grant g)) \<and>
     \<not> ((\<exists>g \<in> s. cls g = UntrustedInput) \<and> (\<exists>g \<in> s. cls g = Privileged))"
  by (rule check_change_classed_Inr)

lemma grants_accepted_exactly_witness:
  "check_change_classed Member {Notes, WebSearch} [WebSearch, Seen] grant_class = Inr {WebSearch, Seen}"
  using grants_accepted_exactly [of Member "{Notes, WebSearch}" "[WebSearch, Seen]" grant_class
      "{WebSearch, Seen}"]
  by (simp add: member_may_grant_def)

text \<open>A grant that only an admin may give is on a Bot only because some admin's request
  named it: no sequence of members' requests brings it.\<close>

lemma outward_grants_come_from_admins:
  assumes "g \<in> grant_history requests start" and "g \<notin> start" and "\<not> member_may_grant g"
  shows "\<exists>requested. (Admin, requested) \<in> set requests \<and> g \<in> set requested"
  using grant_history_source [OF assms(1,2)] assms(3) by auto

lemma outward_grants_come_from_admins_witness:
  "\<exists>requested. (Admin, requested) \<in> set [(Member, [WebFetch]), (Admin, [WebFetch, Notes])] \<and>
     WebFetch \<in> set requested"
proof (rule outward_grants_come_from_admins [where start = "{}"])
  show "WebFetch \<in> grant_history [(Member, [WebFetch]), (Admin, [WebFetch, Notes])] {}"
    by (simp add: check_change_admin)
qed (simp_all add: member_may_grant_def)

text \<open>The stored form of a Bot's grants reads back as the same grants.\<close>

lemma grants_survive_storage: "grants_from_stored (grants_to_stored gs) = gs"
  by (rule grants_stored_roundtrip)

end
