(* ===== verification/Addresses.thy ===== *)
theory Addresses
  imports Prelude "HOL-Library.Word"
begin

text \<open>
  \<open>crates/bokkie-gateway/src/http/address.rs\<close>: which addresses the gateway may connect
  to on the web's behalf. Addresses are 32-bit and 128-bit words and the masks are the
  code's shifts of the all-ones word.
\<close>

unbundle bit_operations_syntax

datatype ip_address = V4 "32 word" | V6 "128 word"

text \<open>\<open>u32::from_be_bytes\<close> of the four bytes of a network.\<close>

definition from_be_bytes :: "nat \<times> nat \<times> nat \<times> nat \<Rightarrow> 32 word" where
  "from_be_bytes bs =
     (case bs of (a, b, c, d) \<Rightarrow>
        push_bit 24 (word_of_nat a) OR push_bit 16 (word_of_nat b) OR
        push_bit 8 (word_of_nat c) OR word_of_nat d)"

definition NON_PUBLIC_V4 :: "((nat \<times> nat \<times> nat \<times> nat) \<times> nat) list" where
  "NON_PUBLIC_V4 =
     [((0, 0, 0, 0), 8),
      ((10, 0, 0, 0), 8),
      ((100, 64, 0, 0), 10),
      ((127, 0, 0, 0), 8),
      ((169, 254, 0, 0), 16),
      ((172, 16, 0, 0), 12),
      ((192, 0, 0, 0), 24),
      ((192, 0, 2, 0), 24),
      ((192, 31, 196, 0), 24),
      ((192, 52, 193, 0), 24),
      ((192, 88, 99, 0), 24),
      ((192, 168, 0, 0), 16),
      ((192, 175, 48, 0), 24),
      ((198, 18, 0, 0), 15),
      ((198, 51, 100, 0), 24),
      ((203, 0, 113, 0), 24),
      ((224, 0, 0, 0), 4),
      ((240, 0, 0, 0), 4)]"

definition is_public_v4 :: "32 word \<Rightarrow> bool" where
  "is_public_v4 bits \<longleftrightarrow>
     \<not> list_ex (\<lambda>(network, plen).
          let m = push_bit (32 - plen) (- 1) in
          bits AND m = from_be_bytes network AND m) NON_PUBLIC_V4"

definition NON_PUBLIC_V6 :: "(128 word \<times> nat) list" where
  "NON_PUBLIC_V6 =
     [(push_bit 96 0x20010000, 23),
      (push_bit 96 0x20010db8, 32),
      (push_bit 112 0x2002, 16),
      (push_bit 112 0x3fff, 20)]"

definition NAT64 :: "128 word" where
  "NAT64 = push_bit 96 0x0064ff9b"

definition in_range :: "128 word \<Rightarrow> 128 word \<Rightarrow> nat \<Rightarrow> bool" where
  "in_range bits network plen \<longleftrightarrow>
     (let m = push_bit (128 - plen) (- 1) in bits AND m = network AND m)"

text \<open>
  \<open>Ipv6Addr::to_ipv4_mapped\<close> of the standard library: \<open>::ffff:a.b.c.d\<close>, the first 80
  bits zero and the next 16 ones.
\<close>

definition to_ipv4_mapped :: "128 word \<Rightarrow> 32 word option" where
  "to_ipv4_mapped bits = (if drop_bit 32 bits = 0xffff then Some (ucast bits) else None)"

definition is_public_v6 :: "128 word \<Rightarrow> bool" where
  "is_public_v6 bits \<longleftrightarrow>
     (case to_ipv4_mapped bits of
        Some v4 \<Rightarrow> is_public_v4 v4
      | None \<Rightarrow>
          if in_range bits NAT64 96 then is_public_v4 (ucast bits)
          else in_range bits (push_bit 112 0x2000) 3 \<and>
               \<not> list_ex (\<lambda>(network, plen). in_range bits network plen) NON_PUBLIC_V6)"

fun is_public :: "ip_address \<Rightarrow> bool" where
  "is_public (V4 v4) = is_public_v4 v4"
| "is_public (V6 v6) = is_public_v6 v6"

section \<open>Lemmas\<close>

text \<open>Comparing under a prefix mask is comparing the numbers without the host bits.\<close>

lemma masked_eq_iff_drop_bit:
  fixes a b :: "'a::len word"
  shows "a AND NOT (mask n) = b AND NOT (mask n) \<longleftrightarrow> drop_bit n a = drop_bit n b"
proof -
  have drop: "drop_bit n (x AND NOT (mask n)) = drop_bit n x" for x :: "'a word"
    by (rule bit_eqI) (auto simp: bit_simps dest: bit_imp_le_length)
  have push: "x AND NOT (mask n) = push_bit n (drop_bit n x)" for x :: "'a word"
    by (rule bit_eqI) (auto simp: bit_simps)
  show ?thesis by (metis drop push)
qed

lemma drop_bit_eq_iff_div:
  fixes a b :: "'a::len word"
  shows "drop_bit n a = drop_bit n b \<longleftrightarrow> unat a div 2 ^ n = unat b div 2 ^ n"
  unfolding word_unat_eq_iff unat_drop_bit_eq by (simp add: drop_bit_eq_div)

lemma in_range_iff: "in_range bits network plen \<longleftrightarrow>
    unat bits div 2 ^ (128 - plen) = unat network div 2 ^ (128 - plen)"
  by (simp add: in_range_def Let_def masked_eq_iff_drop_bit drop_bit_eq_iff_div)

lemma div_eq_iff_block:
  assumes "0 < m"
  shows "(n::nat) div m = k \<longleftrightarrow> n \<in> {k * m ..< (k + 1) * m}"
proof -
  have "n div m = k \<longleftrightarrow> k \<le> n div m \<and> n div m < k + 1" by auto
  also have "\<dots> \<longleftrightarrow> n \<in> {k * m ..< (k + 1) * m}"
    using assms by (simp only: less_eq_div_iff_mult_less_eq div_less_iff_less_mult
        atLeastLessThan_iff)
  finally show ?thesis .
qed

text \<open>
  The IPv4 test spelt out: the numeric intervals that the table's rows stand for.
\<close>

definition non_public_v4 :: "nat set" where
  "non_public_v4 =
     {0 ..< 0x01000000} \<union> {0x0a000000 ..< 0x0b000000} \<union> {0x64400000 ..< 0x64800000} \<union>
     {0x7f000000 ..< 0x80000000} \<union> {0xa9fe0000 ..< 0xa9ff0000} \<union> {0xac100000 ..< 0xac200000} \<union>
     {0xc0000000 ..< 0xc0000100} \<union> {0xc0000200 ..< 0xc0000300} \<union> {0xc01fc400 ..< 0xc01fc500} \<union>
     {0xc034c100 ..< 0xc034c200} \<union> {0xc0586300 ..< 0xc0586400} \<union> {0xc0a80000 ..< 0xc0a90000} \<union>
     {0xc0af3000 ..< 0xc0af3100} \<union> {0xc6120000 ..< 0xc6140000} \<union> {0xc6336400 ..< 0xc6336500} \<union>
     {0xcb007100 ..< 0xcb007200} \<union> {0xe0000000 ..< 0xf0000000} \<union> {0xf0000000 ..< 0x100000000}"

lemma v4_row:
  "bits AND push_bit (32 - plen) (- 1) = from_be_bytes network AND push_bit (32 - plen) (- 1) \<longleftrightarrow>
     unat bits div 2 ^ (32 - plen) = unat (from_be_bytes network) div 2 ^ (32 - plen)"
  by (simp add: masked_eq_iff_drop_bit drop_bit_eq_iff_div)

lemma is_public_v4_iff: "is_public_v4 bits \<longleftrightarrow> unat bits \<notin> non_public_v4"
  unfolding is_public_v4_def Let_def v4_row
  by (simp add: NON_PUBLIC_V4_def from_be_bytes_def non_public_v4_def div_eq_iff_block)

lemma in_range_block: "plen \<le> 128 \<Longrightarrow> in_range bits network plen \<longleftrightarrow>
    unat bits \<in> {unat network div 2 ^ (128 - plen) * 2 ^ (128 - plen) ..<
      (unat network div 2 ^ (128 - plen) + 1) * 2 ^ (128 - plen)}"
  unfolding in_range_iff by (rule div_eq_iff_block) simp

text \<open>The reserved parts of global unicast, and the two embeddings of IPv4.\<close>

definition reserved_v6 :: "nat set" where
  "reserved_v6 =
     {0x20010000 * 2 ^ 96 ..< 0x20010200 * 2 ^ 96} \<union> {0x20010db8 * 2 ^ 96 ..< 0x20010db9 * 2 ^ 96} \<union>
     {0x2002 * 2 ^ 112 ..< 0x2003 * 2 ^ 112} \<union> {0x3fff0 * 2 ^ 108 ..< 0x3fff1 * 2 ^ 108}"

definition carries_v4 :: "nat \<Rightarrow> bool" where
  "carries_v4 n \<longleftrightarrow> n div 2 ^ 32 = 0xffff \<or> n div 2 ^ 32 = 0x0064ff9b * 2 ^ 64"

lemma to_ipv4_mapped_iff:
  "to_ipv4_mapped bits = (if unat bits div 2 ^ 32 = 0xffff then Some (ucast bits) else None)"
proof -
  have "drop_bit 32 bits = 0xffff \<longleftrightarrow> unat (drop_bit 32 bits) = unat (0xffff :: 128 word)"
    by (rule word_unat_eq_iff)
  also have "\<dots> \<longleftrightarrow> unat bits div 2 ^ 32 = 0xffff"
    unfolding unat_drop_bit_eq by (simp add: drop_bit_eq_div)
  finally show ?thesis by (simp add: to_ipv4_mapped_def)
qed

lemma unat_low_32: "unat (ucast (bits :: 128 word) :: 32 word) = unat bits mod 2 ^ 32"
  by (simp add: unsigned_ucast_eq take_bit_eq_mod)

lemma is_public_v6_iff:
  "is_public_v6 bits \<longleftrightarrow>
     (if carries_v4 (unat bits) then unat bits mod 2 ^ 32 \<notin> non_public_v4
      else unat bits \<in> {2 ^ 125 ..< 2 ^ 126} \<and> unat bits \<notin> reserved_v6)"
proof -
  have nat64: "in_range bits NAT64 96 \<longleftrightarrow> unat bits div 2 ^ 32 = 0x0064ff9b * 2 ^ 64"
    by (simp add: in_range_iff NAT64_def)
  have unicast: "in_range bits (push_bit 112 0x2000) 3 \<longleftrightarrow> unat bits \<in> {2 ^ 125 ..< 2 ^ 126}"
    by (subst in_range_block) simp_all
  have rows: "list_ex (\<lambda>(network, plen). in_range bits network plen) NON_PUBLIC_V6 \<longleftrightarrow>
      unat bits \<in> reserved_v6"
    by (simp add: NON_PUBLIC_V6_def in_range_block reserved_v6_def)
  show ?thesis
    unfolding is_public_v6_def to_ipv4_mapped_iff nat64 unicast rows carries_v4_def
      is_public_v4_iff
    by (simp add: is_public_v4_iff unat_low_32)
qed

section \<open>Properties\<close>

text \<open>The mask arithmetic of the IPv4 test decides membership of the intervals the
  table means, for all 2^32 addresses: nothing private, loopback, link-local, shared (the
  tailnet's), multicast or otherwise reserved is public, and everything else is.\<close>

lemma public_v4_exactly: "is_public (V4 bits) \<longleftrightarrow> unat bits \<notin> non_public_v4"
  by (simp add: is_public_v4_iff)

text \<open>An IPv6 address that carries an IPv4 address (mapped, or under the NAT64 prefix)
  is judged by that IPv4 address; any other is public exactly inside 2000::/3 less its
  reserved parts.\<close>

lemma public_v6_exactly:
  "is_public (V6 bits) \<longleftrightarrow>
     (if carries_v4 (unat bits) then unat bits mod 2 ^ 32 \<notin> non_public_v4
      else unat bits \<in> {2 ^ 125 ..< 2 ^ 126} \<and> unat bits \<notin> reserved_v6)"
  by (simp add: is_public_v6_iff)

end
