(* ===== verification/LoginLimiter.thy ===== *)
theory LoginLimiter
  imports Failures "HOL-Library.Option_ord"
begin

text \<open>
  The sign-in rate limiter of \<open>crates/bokkie-gateway/src/auth.rs\<close>: attempts are counted
  per key over a sliding window, in memory, and journalled to the table
  \<open>login_failures\<close> so that a restart starts from what is stored. The hash map is an
  association list in its iteration order, which Rust leaves open: every statement holds for
  any order. The lemmas show the window's bound, the memory bound, and that the table follows
  the memory.
\<close>

section \<open>State\<close>

type_synonym counts = "(utext \<times> int list) list"

datatype change = Counted "utext list" int | Cleared utext | TakenBack utext int

text \<open>The journal is the sequence of changes sent to the task that stores them.\<close>

record limiter =
  l_failures :: counts
  l_persistent :: bool
  l_journal :: "change list"

definition default_limiter :: limiter where
  "default_limiter = \<lparr>l_failures = [], l_persistent = False, l_journal = []\<rparr>"

record key =
  k_name :: utext
  k_limit :: nat
  k_clear :: bool
  k_stored :: bool

datatype attempting =
    SignIn utext utext bool
  | Invitation utext
  | PasswordChange user_id

text \<open>Each key with whether success clears it and whether it is stored.\<close>

record attempt =
  a_keys :: "(utext \<times> bool \<times> bool) list"
  a_at :: int

definition WINDOW_MS :: int where
  "WINDOW_MS = 15 * MINUTE_MS"

definition PER_ACCOUNT :: nat where
  "PER_ACCOUNT = 5"

definition PER_ADDRESS :: nat where
  "PER_ADDRESS = 20"

definition MAX_KEYS :: nat where
  "MAX_KEYS = 10000"

definition address_key :: "utext \<Rightarrow> key" where
  "address_key a =
     \<lparr>k_name = lit ''a:'' @ a, k_limit = PER_ADDRESS, k_clear = False, k_stored = True\<rparr>"

fun attempt_keys :: "attempting \<Rightarrow> key list" where
  "attempt_keys (SignIn username address account_exists) =
     [\<lparr>k_name = lit ''u:'' @ to_ascii_lowercase (trim username), k_limit = PER_ACCOUNT,
        k_clear = True, k_stored = account_exists\<rparr>,
      address_key address]"
| "attempt_keys (Invitation address) = [address_key address]"
| "attempt_keys (PasswordChange user) =
     [\<lparr>k_name = lit ''p:'' @ decimal_int user, k_limit = PER_ACCOUNT,
        k_clear = True, k_stored = True\<rparr>]"

section \<open>Operations\<close>

definition journal :: "change \<Rightarrow> limiter \<Rightarrow> limiter" where
  "journal c l = (if l_persistent l then l\<lparr>l_journal := l_journal l @ [c]\<rparr> else l)"

text \<open>
  The first loop of \<open>begin\<close>: each key's queue loses its lapsed front, and the first key
  at its limit refuses the attempt (\<open>False\<close>). What was popped before stays popped.
\<close>

fun check_keys :: "int \<Rightarrow> key list \<Rightarrow> counts \<Rightarrow> bool \<times> counts" where
  "check_keys now [] f = (True, f)"
| "check_keys now (k # ks) f =
     (case map_of f (k_name k) of
        None \<Rightarrow> check_keys now ks f
      | Some ts \<Rightarrow>
          (let ts' = dropWhile (\<lambda>t. now - t \<ge> WINDOW_MS) ts;
               f' = AList.update (k_name k) ts' f in
           if k_limit k \<le> length ts' then (False, f') else check_keys now ks f'))"

definition queue_back :: "int list \<Rightarrow> int option" where
  "queue_back ts = (if ts = [] then None else Some (last ts))"

definition retain_live :: "int \<Rightarrow> counts \<Rightarrow> counts" where
  "retain_live now f =
     filter (\<lambda>(_, ts). case queue_back ts of None \<Rightarrow> False | Some t \<Rightarrow> now - t < WINDOW_MS) f"

text \<open>\<open>min_by_key\<close> gives the first of several minima; \<open>None\<close> is below every \<open>Some\<close>.\<close>

fun min_by_back :: "counts \<Rightarrow> (utext \<times> int list) option" where
  "min_by_back [] = None"
| "min_by_back (e # es) =
     (case min_by_back es of
        None \<Rightarrow> Some e
      | Some m \<Rightarrow> if queue_back (snd e) \<le> queue_back (snd m) then Some e else Some m)"

lemma min_by_back_in: "min_by_back f = Some e \<Longrightarrow> e \<in> set f"
  by (induction f arbitrary: e) (auto split: option.splits if_splits)

function evict :: "nat \<Rightarrow> limiter \<Rightarrow> limiter" where
  "evict n l =
     (if length (l_failures l) + n > MAX_KEYS then
        (case min_by_back (l_failures l) of
           None \<Rightarrow> l
         | Some (oldest, _) \<Rightarrow>
             evict n (journal (Cleared oldest)
               (l\<lparr>l_failures := AList.delete oldest (l_failures l)\<rparr>)))
      else l)"
  by pat_completeness auto
termination
proof (relation "measure (\<lambda>(n, l). length (l_failures l))", simp)
  fix n k x and l :: limiter and ts :: "int list"
  assume "min_by_back (l_failures l) = Some x" and "(k, ts) = x"
  then have "(k, ts) \<in> set (l_failures l)" by (auto dest: min_by_back_in)
  then have "length (AList.delete k (l_failures l)) < length (l_failures l)"
    by (auto simp: AList.delete_eq intro!: length_filter_less)
  then show "((n, journal (Cleared k) (l\<lparr>l_failures := AList.delete k (l_failures l)\<rparr>)), n, l)
      \<in> measure (\<lambda>(n, l). length (l_failures l))"
    by (simp add: journal_def)
qed

declare evict.simps [simp del]

definition make_room :: "int \<Rightarrow> nat \<Rightarrow> limiter \<Rightarrow> limiter" where
  "make_room now n l =
     (if length (l_failures l) + n > MAX_KEYS
      then evict n (l\<lparr>l_failures := retain_live now (l_failures l)\<rparr>)
      else l)"

text \<open>\<open>entry(k).or_default()\<close>: the key's queue, empty when there is none.\<close>

definition held :: "counts \<Rightarrow> utext \<Rightarrow> int list" where
  "held f k = (case map_of f k of None \<Rightarrow> [] | Some ts \<Rightarrow> ts)"

definition push_back :: "utext \<Rightarrow> int \<Rightarrow> counts \<Rightarrow> counts" where
  "push_back k t f = AList.update k (held f k @ [t]) f"

definition attempt_of :: "key list \<Rightarrow> int \<Rightarrow> attempt" where
  "attempt_of keys now =
     \<lparr>a_keys = map (\<lambda>k. (k_name k, k_clear k, k_stored k)) keys, a_at = now\<rparr>"

definition begin_attempt :: "attempting \<Rightarrow> int \<Rightarrow> limiter \<Rightarrow> attempt option \<times> limiter" where
  "begin_attempt attempting now l =
     (let keys = attempt_keys attempting;
          (allowed, f) = check_keys now keys (l_failures l);
          l1 = l\<lparr>l_failures := f\<rparr> in
      if \<not> allowed then (None, l1)
      else
        (let l2 = make_room now (length keys) l1;
             l3 = l2\<lparr>l_failures := fold (\<lambda>k. push_back (k_name k) now) keys (l_failures l2)\<rparr>;
             l4 = journal (Counted (map k_name (filter k_stored keys)) now) l3 in
         (Some (attempt_of keys now), l4)))"

fun succeed_key :: "int \<Rightarrow> utext \<times> bool \<times> bool \<Rightarrow> limiter \<Rightarrow> limiter" where
  "succeed_key at (k, clear, stored) l =
     (if clear then
        (let l' = l\<lparr>l_failures := AList.delete k (l_failures l)\<rparr> in
         if stored then journal (Cleared k) l' else l')
      else
        (case map_of (l_failures l) k of
           None \<Rightarrow> l
         | Some ts \<Rightarrow>
             if at \<in> set ts then
               (let l' = l\<lparr>l_failures := AList.update k (remove1 at ts) (l_failures l)\<rparr> in
                if stored then journal (TakenBack k at) l' else l')
             else l))"

definition succeeded :: "attempt \<Rightarrow> limiter \<Rightarrow> limiter" where
  "succeeded a l = fold (succeed_key (a_at a)) (a_keys a) l"

definition rate_limited :: failure where
  "rate_limited = failure_new RateLimited
     (lit ''Too many sign-in attempts. Try again in a few minutes'')"

section \<open>The stored attempts\<close>

record login_row =
  lr_id :: int
  lr_key :: utext
  lr_at :: int

definition insert_login :: "int \<Rightarrow> utext \<Rightarrow> login_row list \<Rightarrow> login_row list" where
  "insert_login at k db = db @ [\<lparr>lr_id = next_rowid (map lr_id db), lr_key = k, lr_at = at\<rparr>]"

definition prune_logins :: "int \<Rightarrow> login_row list \<Rightarrow> login_row list" where
  "prune_logins now db = filter (\<lambda>r. \<not> lr_at r \<le> now - WINDOW_MS) db"

text \<open>\<open>record\<close>: one journalled change applied to the table.\<close>

fun record_change :: "change \<Rightarrow> login_row list \<Rightarrow> login_row list" where
  "record_change (Counted keys at) db =
     (if keys = [] then db else prune_logins at (fold (insert_login at) keys db))"
| "record_change (Cleared k) db = filter (\<lambda>r. lr_key r \<noteq> k) db"
| "record_change (TakenBack k at) db =
     (case find (\<lambda>r. lr_key r = k \<and> lr_at r = at) db of
        None \<Rightarrow> db
      | Some r \<Rightarrow> filter (\<lambda>x. lr_id x \<noteq> lr_id r) db)"

text \<open>
  \<open>persistent\<close>: rows older than the window are deleted and the others are read in order
  of time, then id; the table lists its rows by id and \<open>sort_key\<close> is stable.
\<close>

definition persistent :: "login_row list \<Rightarrow> int \<Rightarrow> limiter \<times> login_row list" where
  "persistent db now =
     (let db' = prune_logins now db;
          f = fold (\<lambda>r. push_back (lr_key r) (lr_at r)) (sort_key lr_at db') [] in
      (\<lparr>l_failures = f, l_persistent = True, l_journal = []\<rparr>, db'))"

section \<open>The counts as a map\<close>

definition recent :: "int \<Rightarrow> int list \<Rightarrow> int list" where
  "recent now ts = filter (\<lambda>t. now - t < WINDOW_MS) ts"

text \<open>The limit of a key, read off its name: addresses share one, accounts another.\<close>

definition key_limit :: "utext \<Rightarrow> nat" where
  "key_limit k = (if take 2 k = lit ''a:'' then PER_ADDRESS else PER_ACCOUNT)"

lemma WINDOW_pos: "0 < WINDOW_MS"
  by (simp add: WINDOW_MS_def MINUTE_MS_def)

lemma recent_simps [simp]: "recent now [] = []" "recent now (xs @ ys) = recent now xs @ recent now ys"
  by (simp_all add: recent_def)

lemma recent_later: "now \<le> later \<Longrightarrow> recent later (recent now ts) = recent later ts"
  by (auto simp: recent_def intro!: filter_cong)

lemma recent_cong_later:
  "now \<le> later \<Longrightarrow> recent now ts = recent now us \<Longrightarrow> recent later ts = recent later us"
  by (metis recent_later)

lemma recent_dropWhile: "recent now (dropWhile (\<lambda>t. now - t \<ge> WINDOW_MS) ts) = recent now ts"
  by (induction ts) (auto simp: recent_def)

lemma sorted_dropWhile_recent:
  "sorted ts \<Longrightarrow> dropWhile (\<lambda>t. now - t \<ge> WINDOW_MS) ts = recent now ts"
proof (induction ts)
  case (Cons t ts)
  then show ?case
    by (cases "now - t \<ge> WINDOW_MS") (auto simp: recent_def intro!: filter_True [symmetric])
qed (simp add: recent_def)

lemma recent_remove1: "recent now (remove1 t ts) = remove1 t (recent now ts)"
  by (simp add: recent_def filter_remove1)

lemma recent_now: "recent t [t] = [t]"
  using WINDOW_pos by (simp add: recent_def)

lemma length_recent_antimono: "now \<le> later \<Longrightarrow> length (recent later ts) \<le> length (recent now ts)"
  by (metis recent_def length_filter_le recent_later)

lemma held_update: "held (AList.update k ts f) = (held f)(k := ts)"
  by (auto simp: held_def AList.update_conv' fun_eq_iff)

lemma held_delete: "held (AList.delete k f) = (held f)(k := [])"
  by (auto simp: held_def AList.delete_conv' fun_eq_iff)

lemma held_push_back: "held (push_back k t f) = (held f)(k := held f k @ [t])"
  by (simp add: push_back_def held_update)

lemma held_in: "distinct (map fst f) \<Longrightarrow> (k, ts) \<in> set f \<Longrightarrow> held f k = ts"
  by (simp add: held_def map_of_is_SomeI)

lemma held_Nil_or_in: "held f k = [] \<or> (k, held f k) \<in> set f"
  by (cases "map_of f k") (auto simp: held_def dest: map_of_SomeD)

lemma held_filter:
  assumes "distinct (map fst f)"
  shows "held (filter P f) k = (if P (k, held f k) then held f k else [])"
proof -
  have "map_of (filter P f) k = (case map_of f k of None \<Rightarrow> None
      | Some ts \<Rightarrow> if P (k, ts) then Some ts else None)"
    using assms by (induction f) (force split: option.splits dest: map_of_SomeD)+
  then show ?thesis by (auto simp: held_def split: option.splits)
qed

section \<open>The operations on the counts\<close>

lemma set_suffix_sorted: "suffix us ts \<Longrightarrow> sorted ts \<Longrightarrow> sorted us"
  by (auto simp: suffix_def sorted_append)

text \<open>
  Checking the keys keeps every key and everything inside the window; each queue is left
  as a suffix of what it was.
\<close>

definition checked_of :: "int \<Rightarrow> counts \<Rightarrow> counts \<Rightarrow> bool" where
  "checked_of now f f' \<longleftrightarrow> map fst f' = map fst f \<and>
     (\<forall>k. suffix (held f' k) (held f k) \<and> recent now (held f' k) = recent now (held f k))"

lemma checked_of_refl: "checked_of now f f"
  by (simp add: checked_of_def)

lemma checked_of_trans: "checked_of now f g \<Longrightarrow> checked_of now g h \<Longrightarrow> checked_of now f h"
  by (auto simp: checked_of_def intro: suffix_order.trans)

lemma checked_of_pop:
  assumes "map_of f k = Some ts"
  shows "checked_of now f (AList.update k (dropWhile (\<lambda>t. now - t \<ge> WINDOW_MS) ts) f)"
proof -
  have "k \<in> set (map fst f)" using assms by (metis domI dom_map_of_conv_image_fst set_map)
  moreover have "held f k = ts" using assms by (simp add: held_def)
  ultimately show ?thesis
    by (auto simp: checked_of_def AList.update_keys held_update recent_dropWhile suffix_dropWhile)
qed

lemma check_keys_frame: "check_keys now keys f = (ok, f') \<Longrightarrow> checked_of now f f'"
proof (induction keys arbitrary: f)
  case Nil
  then show ?case by (simp add: checked_of_refl)
next
  case (Cons k keys)
  then show ?case
    by (auto simp: Let_def split: option.splits if_splits
        intro: checked_of_trans checked_of_pop)
qed

lemma check_keys_iff:
  assumes "\<forall>k \<in> set keys. 0 < k_limit k" and "\<forall>k. sorted (held f k)"
  shows "fst (check_keys now keys f) \<longleftrightarrow>
    (\<forall>k \<in> set keys. length (recent now (held f (k_name k))) < k_limit k)"
  using assms
proof (induction keys arbitrary: f)
  case Nil
  then show ?case by simp
next
  case (Cons k keys)
  show ?case
  proof (cases "map_of f (k_name k)")
    case None
    then have "held f (k_name k) = []" by (simp add: held_def)
    with None Cons show ?thesis by simp
  next
    case (Some ts)
    let ?ts = "dropWhile (\<lambda>t. now - t \<ge> WINDOW_MS) ts"
    let ?f = "AList.update (k_name k) ?ts f"
    have h: "held f (k_name k) = ts" using Some by (simp add: held_def)
    then have len: "?ts = recent now ts"
      using Cons.prems(2) sorted_dropWhile_recent by metis
    have chk: "checked_of now f ?f" using Some by (rule checked_of_pop)
    then have "\<forall>k. sorted (held ?f k)"
      using Cons.prems(2) by (auto simp: checked_of_def intro: set_suffix_sorted)
    with Cons.IH Cons.prems(1) have "fst (check_keys now keys ?f) \<longleftrightarrow>
        (\<forall>k \<in> set keys. length (recent now (held ?f (k_name k))) < k_limit k)"
      by simp
    moreover have "recent now (held ?f j) = recent now (held f j)" for j
      using chk by (simp add: checked_of_def)
    ultimately show ?thesis using Some h len by (auto simp: Let_def)
  qed
qed

text \<open>Making room only forgets whole keys, and leaves at least the room asked for.\<close>

lemma held_retain_live:
  assumes "distinct (map fst f)"
  shows "held (retain_live now f) k = held f k \<or>
    held (retain_live now f) k = [] \<and> (held f k \<noteq> [] \<longrightarrow> now - last (held f k) \<ge> WINDOW_MS)"
  using assms by (auto simp: retain_live_def held_filter queue_back_def)

lemma recent_lapsed:
  assumes "sorted ts" and "ts \<noteq> [] \<longrightarrow> now - last ts \<ge> WINDOW_MS"
  shows "recent now ts = []"
proof -
  have "t \<le> last ts" if "t \<in> set ts" for t
    using assms(1) that by (metis append_butlast_last_id empty_iff empty_set last_in_set
        sorted_append in_set_butlastD order_refl set_append UnE list.set_intros(1) set_ConsD)
  then show ?thesis using assms(2) by (fastforce simp: recent_def filter_empty_conv)
qed

lemma distinct_delete_keys: "distinct (map fst f) \<Longrightarrow> distinct (map fst (AList.delete k f))"
  by (rule AList.distinct_delete)

lemma journal_simps [simp]:
  "l_failures (journal c l) = l_failures l"
  "l_persistent (journal c l) = l_persistent l"
  by (simp_all add: journal_def)

lemma evict_frame:
  "distinct (map fst (l_failures l)) \<Longrightarrow>
     distinct (map fst (l_failures (evict n l))) \<and>
     (\<forall>k. held (l_failures (evict n l)) k = held (l_failures l) k \<or>
          held (l_failures (evict n l)) k = []) \<and>
     l_persistent (evict n l) = l_persistent l"
proof (induction n l rule: evict.induct)
  case (1 n l)
  show ?case
  proof (cases "length (l_failures l) + n > MAX_KEYS \<and> min_by_back (l_failures l) \<noteq> None")
    case True
    then obtain k ts where m: "min_by_back (l_failures l) = Some (k, ts)" by auto
    let ?l = "journal (Cleared k) (l\<lparr>l_failures := AList.delete k (l_failures l)\<rparr>)"
    have "evict n l = evict n ?l" using True m by (subst evict.simps) simp
    moreover have "distinct (map fst (l_failures ?l))"
      using "1.prems" by (simp add: distinct_delete_keys)
    ultimately show ?thesis
      using "1.IH" [OF _ m refl] True by (auto simp: held_delete split: if_splits)
  next
    case False
    then have "evict n l = l" by (subst evict.simps) (auto split: option.splits)
    then show ?thesis using "1.prems" by simp
  qed
qed

lemma min_by_back_None: "min_by_back f = None \<longleftrightarrow> f = []"
  by (cases f) (auto split: option.splits)

lemma evict_room: "n \<le> MAX_KEYS \<Longrightarrow> length (l_failures (evict n l)) + n \<le> MAX_KEYS"
proof (induction n l rule: evict.induct)
  case (1 n l)
  show ?case
  proof (cases "length (l_failures l) + n > MAX_KEYS")
    case True
    then have "l_failures l \<noteq> []" using "1.prems" by auto
    then obtain k ts where m: "min_by_back (l_failures l) = Some (k, ts)"
      by (metis min_by_back_None not_None_eq surj_pair)
    show ?thesis using "1.IH" [OF True m refl] "1.prems" True m
      by (subst evict.simps) simp
  next
    case False
    then show ?thesis by (subst evict.simps) simp
  qed
qed

lemma make_room_room: "n \<le> MAX_KEYS \<Longrightarrow> length (l_failures (make_room now n l)) + n \<le> MAX_KEYS"
  by (auto simp: make_room_def evict_room)

lemma make_room_frame:
  assumes "distinct (map fst (l_failures l))"
  shows "distinct (map fst (l_failures (make_room now n l))) \<and>
     (\<forall>k. held (l_failures (make_room now n l)) k = held (l_failures l) k \<or>
          held (l_failures (make_room now n l)) k = []) \<and>
     l_persistent (make_room now n l) = l_persistent l"
proof -
  let ?l = "l\<lparr>l_failures := retain_live now (l_failures l)\<rparr>"
  have "distinct (map fst (l_failures ?l))"
    using assms by (simp add: retain_live_def distinct_map_filter)
  then have "distinct (map fst (l_failures (evict n ?l))) \<and>
     (\<forall>k. held (l_failures (evict n ?l)) k = held (l_failures ?l) k \<or>
          held (l_failures (evict n ?l)) k = []) \<and> l_persistent (evict n ?l) = l_persistent ?l"
    by (rule evict_frame)
  moreover have "\<forall>k. held (l_failures ?l) k = held (l_failures l) k \<or> held (l_failures ?l) k = []"
    using held_retain_live [OF assms] by auto
  ultimately show ?thesis using assms unfolding make_room_def by (auto, metis+)
qed


section \<open>The invariant\<close>

text \<open>
  At time \<open>now\<close>: keys are distinct, each queue is in order of time and not in the
  future, no key holds more attempts inside the window than its limit, and the number of
  keys is bounded.
\<close>

definition queue_ok :: "int \<Rightarrow> utext \<Rightarrow> int list \<Rightarrow> bool" where
  "queue_ok now k ts \<longleftrightarrow>
     sorted ts \<and> (\<forall>t \<in> set ts. t \<le> now) \<and> length (recent now ts) \<le> key_limit k"

definition limiter_inv :: "int \<Rightarrow> limiter \<Rightarrow> bool" where
  "limiter_inv now l \<longleftrightarrow>
     distinct (map fst (l_failures l)) \<and> length (l_failures l) \<le> MAX_KEYS \<and>
     (\<forall>k. queue_ok now k (held (l_failures l) k))"

lemma queue_ok_Nil [simp]: "queue_ok now k []"
  by (simp add: queue_ok_def)

lemma queue_ok_suffix: "suffix us ts \<Longrightarrow> queue_ok now k ts \<Longrightarrow> queue_ok now k us"
  by (auto simp: queue_ok_def suffix_def sorted_append)

lemma queue_ok_remove1: "queue_ok now k ts \<Longrightarrow> queue_ok now k (remove1 t ts)"
  by (auto simp: queue_ok_def recent_remove1 length_remove1 sorted_remove1 dest: notin_set_remove1)

lemma queue_ok_push:
  "queue_ok now k ts \<Longrightarrow> length (recent now ts) < key_limit k \<Longrightarrow> queue_ok now k (ts @ [now])"
  by (auto simp: queue_ok_def sorted_append recent_now)

lemma queue_ok_later: "queue_ok now k ts \<Longrightarrow> now \<le> later \<Longrightarrow> queue_ok later k ts"
  unfolding queue_ok_def using length_recent_antimono [of now later ts] by fastforce

lemma limiter_inv_default: "limiter_inv now default_limiter"
  by (simp add: limiter_inv_def default_limiter_def held_def)

lemma limiter_inv_later: "limiter_inv now l \<Longrightarrow> now \<le> later \<Longrightarrow> limiter_inv later l"
  unfolding limiter_inv_def by (blast intro: queue_ok_later)

lemma limiter_inv_sorted: "limiter_inv now l \<Longrightarrow> \<forall>k. sorted (held (l_failures l) k)"
  by (simp add: limiter_inv_def queue_ok_def)

lemma length_update:
  "length (AList.update k v f) = (if k \<in> fst ` set f then length f else Suc (length f))"
  by (induction f) auto

lemma map_of_Some_key: "map_of f k = Some v \<Longrightarrow> k \<in> fst ` set f"
  by (metis domI dom_map_of_conv_image_fst)

lemma key_names:
  "k \<in> set (attempt_keys a) \<Longrightarrow> k_limit k = key_limit (k_name k) \<and> 0 < k_limit k"
  by (cases a) (auto simp: key_limit_def address_key_def PER_ACCOUNT_def PER_ADDRESS_def)

lemma distinct_attempt_keys: "distinct (map k_name (attempt_keys a))"
  by (cases a) (auto simp: address_key_def)

lemma length_attempt_keys: "length (attempt_keys a) \<le> 2"
  by (cases a) auto

lemma fold_push_held:
  "distinct (map k_name keys) \<Longrightarrow>
     held (fold (\<lambda>k. push_back (k_name k) t) keys f) j =
       held f j @ (if j \<in> k_name ` set keys then [t] else [])"
  by (induction keys arbitrary: f) (auto simp: held_push_back)

lemma fold_push_keys:
  "distinct (map fst f) \<Longrightarrow>
     distinct (map fst (fold (\<lambda>k. push_back (k_name k) t) keys f)) \<and>
     length (fold (\<lambda>k. push_back (k_name k) t) keys f) \<le> length f + length keys"
proof (induction keys arbitrary: f)
  case Nil
  then show ?case by simp
next
  case (Cons k keys)
  have "distinct (map fst (push_back (k_name k) t f))"
    using Cons.prems by (simp add: push_back_def AList.distinct_update)
  moreover have "length (push_back (k_name k) t f) \<le> Suc (length f)"
    by (simp add: push_back_def length_update)
  ultimately show ?case using Cons.IH [of "push_back (k_name k) t f"] by simp
qed

lemma check_keys_inv_iff:
  assumes "limiter_inv now l"
  shows "fst (check_keys now (attempt_keys a) (l_failures l)) \<longleftrightarrow>
    (\<forall>k \<in> set (attempt_keys a). length (recent now (held (l_failures l) (k_name k))) < k_limit k)"
  using check_keys_iff limiter_inv_sorted [OF assms] key_names by blast

lemma begin_attempt_None:
  assumes "limiter_inv now l"
  shows "fst (begin_attempt a now l) = None \<longleftrightarrow>
    (\<exists>k \<in> set (attempt_keys a). k_limit k \<le> length (recent now (held (l_failures l) (k_name k))))"
proof -
  have "fst (begin_attempt a now l) = None \<longleftrightarrow>
      \<not> fst (check_keys now (attempt_keys a) (l_failures l))"
    by (auto simp: begin_attempt_def Let_def split: prod.splits)
  then show ?thesis unfolding check_keys_inv_iff [OF assms] by (auto simp: not_less)
qed

text \<open>What an allowed attempt leaves behind.\<close>

lemma begin_attempt_Some:
  fixes l l' :: limiter
  assumes b: "begin_attempt a now l = (Some att, l')" and d: "distinct (map fst (l_failures l))"
  shows "\<forall>k. \<exists>u. suffix u (held (l_failures l) k) \<and>
      held (l_failures l') k = u @ (if k \<in> k_name ` set (attempt_keys a) then [now] else [])"
    and "distinct (map fst (l_failures l'))" and "length (l_failures l') \<le> MAX_KEYS"
    and "fst (check_keys now (attempt_keys a) (l_failures l))"
    and "att = attempt_of (attempt_keys a) now"
proof -
  let ?keys = "attempt_keys a"
  obtain ok f where c: "check_keys now ?keys (l_failures l) = (ok, f)" by fastforce
  let ?l2 = "make_room now (length ?keys) (l\<lparr>l_failures := f\<rparr>)"
  have chk: "checked_of now (l_failures l) f" using c by (rule check_keys_frame)
  then have d1: "distinct (map fst (l_failures (l\<lparr>l_failures := f\<rparr>)))"
    using d by (simp add: checked_of_def)
  note room = make_room_frame [OF d1, of now "length ?keys"]
  have n: "length ?keys \<le> MAX_KEYS"
    using length_attempt_keys [of a] by (simp add: MAX_KEYS_def)
  have len: "length (l_failures ?l2) + length ?keys \<le> MAX_KEYS" using n by (rule make_room_room)
  have ok: ok and fl': "l_failures l' =
      fold (\<lambda>k. push_back (k_name k) now) ?keys (l_failures ?l2)"
    and att: "att = attempt_of ?keys now"
    using b c by (auto simp: begin_attempt_def Let_def split: if_splits)
  have "suffix (held (l_failures ?l2) k) (held f k)" for k
    using room [THEN conjunct2, THEN conjunct1, THEN spec, of k] by auto
  moreover have "suffix (held f k) (held (l_failures l) k)" for k
    using chk by (simp add: checked_of_def)
  ultimately have "suffix (held (l_failures ?l2) k) (held (l_failures l) k)" for k
    by (rule suffix_order.trans)
  moreover have "held (l_failures l') k =
      held (l_failures ?l2) k @ (if k \<in> k_name ` set ?keys then [now] else [])" for k
    unfolding fl' by (rule fold_push_held [OF distinct_attempt_keys])
  ultimately show "\<forall>k. \<exists>u. suffix u (held (l_failures l) k) \<and>
      held (l_failures l') k = u @ (if k \<in> k_name ` set ?keys then [now] else [])"
    by blast
  show "distinct (map fst (l_failures l'))" and "length (l_failures l') \<le> MAX_KEYS"
    using fold_push_keys [of "l_failures ?l2" now ?keys] room len fl' by auto
  show "fst (check_keys now ?keys (l_failures l))" using ok c by simp
  show "att = attempt_of ?keys now"
    by (rule att)
qed

lemma begin_attempt_None_frame:
  assumes "begin_attempt a now l = (None, l')"
  shows "checked_of now (l_failures l) (l_failures l') \<and> l_journal l' = l_journal l \<and>
    l_persistent l' = l_persistent l"
  using assms check_keys_frame
  by (fastforce simp: begin_attempt_def Let_def split: prod.splits if_splits)

lemma limiter_inv_begin:
  assumes inv: "limiter_inv now l" and b: "begin_attempt a now l = (r, l')"
  shows "limiter_inv now l'"
proof (cases r)
  case None
  then have "checked_of now (l_failures l) (l_failures l')"
    using b begin_attempt_None_frame by blast
  then have "map fst (l_failures l') = map fst (l_failures l)"
    and "\<forall>k. suffix (held (l_failures l') k) (held (l_failures l) k)"
    by (simp_all add: checked_of_def)
  then show ?thesis using inv queue_ok_suffix unfolding limiter_inv_def by (metis length_map)
next
  case (Some att)
  have d: "distinct (map fst (l_failures l))" using inv by (simp add: limiter_inv_def)
  note began = begin_attempt_Some [OF b [unfolded Some] d]
  have below: "length (recent now (held (l_failures l) k)) < key_limit k"
    if "k \<in> k_name ` set (attempt_keys a)" for k
    using that began(4) key_names unfolding check_keys_inv_iff [OF inv] by force
  have "queue_ok now k (held (l_failures l') k)" for k
  proof -
    obtain u where u: "suffix u (held (l_failures l) k)"
      and h: "held (l_failures l') k = u @ (if k \<in> k_name ` set (attempt_keys a) then [now] else [])"
      using began(1) by blast
    have q: "queue_ok now k u" using u inv by (auto simp: limiter_inv_def intro: queue_ok_suffix)
    have "length (recent now u) \<le> length (recent now (held (l_failures l) k))"
      using u by (auto simp: suffix_def)
    then show ?thesis using q below [of k] by (auto simp: h intro!: queue_ok_push)
  qed
  then show ?thesis using began(2,3) by (simp add: limiter_inv_def)
qed

lemma held_succeed_key:
  "held (l_failures (succeed_key at (k, clear, stored) l)) j =
     (if j = k then (if clear then [] else remove1 at (held (l_failures l) k))
      else held (l_failures l) j)"
proof (cases "map_of (l_failures l) k")
  case None
  then show ?thesis by (auto simp: held_delete Let_def) (simp add: held_def)
next
  case (Some ts)
  then have "held (l_failures l) k = ts" by (simp add: held_def)
  with Some show ?thesis by (auto simp: held_delete held_update Let_def remove1_idem)
qed

lemma keys_succeed_key:
  fixes l :: limiter
  assumes d: "distinct (map fst (l_failures l))"
  shows "distinct (map fst (l_failures (succeed_key at x l))) \<and>
     length (l_failures (succeed_key at x l)) \<le> length (l_failures l)"
proof (cases x)
  case (fields k clear stored)
  have "length (AList.delete k (l_failures l)) \<le> length (l_failures l)"
    by (simp add: AList.delete_eq)
  then show ?thesis using d fields map_of_Some_key [of "l_failures l" k]
    by (cases clear) (auto simp: Let_def AList.distinct_update distinct_delete_keys length_update
        split: option.splits)
qed

lemma limiter_inv_succeed_key: "limiter_inv now l \<Longrightarrow> limiter_inv now (succeed_key at x l)"
proof (cases x)
  case (fields k clear stored)
  assume inv: "limiter_inv now l"
  have "queue_ok now j (held (l_failures (succeed_key at x l)) j)" for j
    using inv unfolding fields held_succeed_key limiter_inv_def
    by (auto intro: queue_ok_remove1)
  then show ?thesis using inv keys_succeed_key [of l at x] by (simp add: limiter_inv_def)
qed

lemma limiter_inv_succeeded: "limiter_inv now l \<Longrightarrow> limiter_inv now (succeeded a l)"
proof -
  have "limiter_inv now l \<Longrightarrow> limiter_inv now (fold (succeed_key at) xs l)" for at xs
    by (induction xs arbitrary: l) (simp_all add: limiter_inv_succeed_key)
  then show "limiter_inv now l \<Longrightarrow> limiter_inv now (succeeded a l)"
    by (simp add: succeeded_def)
qed


section \<open>Runs\<close>

text \<open>
  A run is any interleaving of attempts and of successes of attempts made earlier, with
  the clock never going back.
\<close>

datatype limiter_op = Begin attempting int | Succeed attempting int

fun limiter_step :: "limiter_op \<Rightarrow> limiter \<Rightarrow> limiter" where
  "limiter_step (Begin a t) l = snd (begin_attempt a t l)"
| "limiter_step (Succeed a t) l = succeeded (attempt_of (attempt_keys a) t) l"

fun in_order :: "int \<Rightarrow> limiter_op list \<Rightarrow> bool" where
  "in_order now [] = True"
| "in_order now (Begin a t # ops) = (now \<le> t \<and> in_order t ops)"
| "in_order now (Succeed a t # ops) = in_order now ops"

fun end_time :: "int \<Rightarrow> limiter_op list \<Rightarrow> int" where
  "end_time now [] = now"
| "end_time now (Begin a t # ops) = end_time t ops"
| "end_time now (Succeed a t # ops) = end_time now ops"

lemma limiter_inv_step:
  "limiter_inv now l \<Longrightarrow> in_order now (x # ops) \<Longrightarrow> limiter_inv (end_time now [x]) (limiter_step x l)"
  by (cases x) (auto simp: limiter_inv_succeeded prod_eq_iff
      intro: limiter_inv_begin limiter_inv_later)

lemma limiter_inv_run:
  "limiter_inv now l \<Longrightarrow> in_order now ops \<Longrightarrow>
     limiter_inv (end_time now ops) (fold limiter_step ops l)"
proof (induction ops arbitrary: now l)
  case Nil
  then show ?case by simp
next
  case (Cons x ops)
  then have "limiter_inv (end_time now [x]) (limiter_step x l)" by (blast intro: limiter_inv_step)
  then show ?case using Cons by (cases x) auto
qed

section \<open>The table follows the memory\<close>

definition stored_times :: "login_row list \<Rightarrow> utext \<Rightarrow> int list" where
  "stored_times db k = map lr_at (filter (\<lambda>r. lr_key r = k) db)"

definition table_ok :: "int \<Rightarrow> login_row list \<Rightarrow> bool" where
  "table_ok now db \<longleftrightarrow> sorted_wrt (<) (map lr_id db) \<and> sorted (map lr_at db) \<and>
     (\<forall>r \<in> set db. lr_at r \<le> now)"

lemma table_ok_filter: "table_ok now db \<Longrightarrow> table_ok now (filter P db)"
  by (auto simp: table_ok_def sorted_wrt_map sorted_wrt_filter)

lemma table_ok_later: "table_ok now db \<Longrightarrow> now \<le> later \<Longrightarrow> table_ok later db"
  by (force simp: table_ok_def)

lemma table_ok_insert: "table_ok now db \<Longrightarrow> table_ok now (insert_login now k db)"
  using next_rowid_greater [of _ "map lr_id db"]
  by (auto simp: table_ok_def insert_login_def sorted_wrt_append sorted_append)

lemma table_ok_record:
  "table_ok now db \<Longrightarrow> (\<forall>ks t. c = Counted ks t \<longrightarrow> t = now) \<Longrightarrow> table_ok now (record_change c db)"
proof (cases c)
  case (Counted ks t)
  assume ok: "table_ok now db" and t: "\<forall>ks t. c = Counted ks t \<longrightarrow> t = now"
  have "table_ok now (fold (insert_login now) ks db)"
    using ok by (induction ks arbitrary: db) (auto intro: table_ok_insert)
  then show ?thesis using Counted t ok
    by (auto simp: prune_logins_def table_ok_filter)
qed (auto simp: table_ok_filter split: option.splits)

lemma stored_times_insert:
  "distinct ks \<Longrightarrow> stored_times (fold (insert_login t) ks db) k =
     stored_times db k @ (if k \<in> set ks then [t] else [])"
  by (induction ks arbitrary: db) (auto simp: stored_times_def insert_login_def)

interpretation logins: retained_table lr_at WINDOW_MS prune_logins
  "\<lambda>now db. filter (\<lambda>r. lr_key r = k \<and> now - WINDOW_MS < lr_at r) db" "\<lambda>r. lr_key r = k" for k
  by unfold_locales (auto simp: prune_logins_def)

lemma recent_stored:
  "recent now (stored_times db k) =
     map lr_at (filter (\<lambda>r. lr_key r = k \<and> now - WINDOW_MS < lr_at r) db)"
  by (auto simp: recent_def stored_times_def filter_map comp_def conj_commute
      intro!: arg_cong [of _ _ "map lr_at"] filter_cong)

lemma recent_prune: "now \<le> later \<Longrightarrow>
    recent later (stored_times (prune_logins now db) k) = recent later (stored_times db k)"
  unfolding recent_stored by (simp only: logins.visible_prune)

lemma stored_times_cleared:
  "stored_times (filter (\<lambda>r. lr_key r \<noteq> k) db) j = (if j = k then [] else stored_times db j)"
  by (auto simp: stored_times_def intro!: arg_cong [of _ _ "map lr_at"] filter_cong)

lemma stored_times_Cons [simp]:
  "stored_times (r # db) k = (if lr_key r = k then lr_at r # stored_times db k else stored_times db k)"
  by (simp add: stored_times_def)

lemma stored_times_taken_back:
  "sorted_wrt (<) (map lr_id db) \<Longrightarrow>
     stored_times (record_change (TakenBack k t) db) j =
       (if j = k then remove1 t (stored_times db k) else stored_times db j)"
proof (induction db)
  case Nil
  then show ?case by (simp add: stored_times_def)
next
  case (Cons r db)
  have less: "\<forall>x \<in> set db. lr_id r < lr_id x" using Cons.prems by auto
  then have same: "filter (\<lambda>x. lr_id x \<noteq> lr_id r) db = db" by (auto intro!: filter_True)
  have IH: "stored_times (record_change (TakenBack k t) db) j =
      (if j = k then remove1 t (stored_times db k) else stored_times db j)"
    using Cons by simp
  show ?case
  proof (cases "lr_key r = k \<and> lr_at r = t")
    case True
    then show ?thesis using same by auto
  next
    case False
    show ?thesis
    proof (cases "find (\<lambda>r. lr_key r = k \<and> lr_at r = t) db")
      case None
      with False have "find (\<lambda>r. lr_key r = k \<and> lr_at r = t) (r # db) = None" by auto
      then show ?thesis using False IH None by (simp del: find.simps) auto
    next
      case (Some x)
      then have "lr_id r \<noteq> lr_id x" using less find_Some_in by fastforce
      then have "record_change (TakenBack k t) (r # db) = r # record_change (TakenBack k t) db"
        using False Some by auto
      then show ?thesis using False IH by auto
    qed
  qed
qed


text \<open>
  The relation between memory and table, for the keys that are always stored: what lies
  inside the window is the same, in the same order.
\<close>

definition always_stored :: "utext \<Rightarrow> bool" where
  "always_stored k \<longleftrightarrow> take 2 k = lit ''a:'' \<or> take 2 k = lit ''p:''"

definition stored_after :: "login_row list \<Rightarrow> limiter \<Rightarrow> login_row list" where
  "stored_after db l = fold record_change (l_journal l) db"

definition agrees :: "int \<Rightarrow> counts \<Rightarrow> login_row list \<Rightarrow> bool" where
  "agrees now f db \<longleftrightarrow> table_ok now db \<and>
     (\<forall>k. always_stored k \<longrightarrow> recent now (held f k) = recent now (stored_times db k))"

lemma stored_after_journal:
  "l_persistent l \<Longrightarrow> stored_after db (journal c l) = record_change c (stored_after db l)"
  by (simp add: stored_after_def journal_def)

lemma stored_after_failures [simp]: "stored_after db (l\<lparr>l_failures := f\<rparr>) = stored_after db l"
  by (simp add: stored_after_def)

lemma agrees_later: "agrees now f db \<Longrightarrow> now \<le> later \<Longrightarrow> agrees later f db"
  by (auto simp: agrees_def intro: table_ok_later recent_cong_later)

lemma agrees_recent:
  "agrees now f db \<Longrightarrow> \<forall>k. recent now (held f' k) = recent now (held f k) \<Longrightarrow> agrees now f' db"
  by (simp add: agrees_def)

lemma agrees_clear:
  "agrees now f db \<Longrightarrow> agrees now (AList.delete k f) (record_change (Cleared k) db)"
  by (auto simp: agrees_def held_delete stored_times_cleared table_ok_filter)

lemma evict_agrees:
  "l_persistent l \<Longrightarrow> agrees now (l_failures l) (stored_after db l) \<Longrightarrow>
     agrees now (l_failures (evict n l)) (stored_after db (evict n l))"
proof (induction n l rule: evict.induct)
  case (1 n l)
  show ?case
  proof (cases "length (l_failures l) + n > MAX_KEYS \<and> min_by_back (l_failures l) \<noteq> None")
    case True
    then obtain k ts where m: "min_by_back (l_failures l) = Some (k, ts)" by auto
    let ?l = "journal (Cleared k) (l\<lparr>l_failures := AList.delete k (l_failures l)\<rparr>)"
    have step: "evict n l = evict n ?l" using True m by (subst evict.simps) simp
    have "agrees now (l_failures ?l) (stored_after db ?l)"
      using "1.prems" by (simp add: stored_after_journal agrees_clear del: record_change.simps)
    with "1.IH" [OF _ m refl] True "1.prems" show ?thesis unfolding step by simp
  next
    case False
    then have "evict n l = l" by (subst evict.simps) (auto split: option.splits)
    then show ?thesis using "1.prems" by simp
  qed
qed

lemma make_room_agrees:
  assumes p: "l_persistent l" and a: "agrees now (l_failures l) (stored_after db l)"
    and d: "distinct (map fst (l_failures l))" and s: "\<forall>k. sorted (held (l_failures l) k)"
  shows "agrees now (l_failures (make_room now n l)) (stored_after db (make_room now n l))"
proof -
  let ?l = "l\<lparr>l_failures := retain_live now (l_failures l)\<rparr>"
  have "recent now (held (retain_live now (l_failures l)) k) = recent now (held (l_failures l) k)" for k
    using held_retain_live [OF d, of now k] s recent_lapsed [of "held (l_failures l) k" now] by auto
  then have "agrees now (l_failures ?l) (stored_after db ?l)"
    using agrees_recent [OF a] by simp
  then have "agrees now (l_failures (evict n ?l)) (stored_after db (evict n ?l))"
    using evict_agrees [of ?l] p by simp
  with a show ?thesis by (simp add: make_room_def)
qed

lemma always_stored_keys:
  "k \<in> set (attempt_keys a) \<Longrightarrow> always_stored (k_name k) \<Longrightarrow> k_stored k"
  by (cases a) (auto simp: always_stored_def address_key_def)

lemma agrees_counted:
  assumes a: "agrees now f db"
  shows "agrees now (fold (\<lambda>k. push_back (k_name k) now) (attempt_keys x) f)
    (record_change (Counted (map k_name (filter k_stored (attempt_keys x))) now) db)"
proof -
  let ?ks = "map k_name (filter k_stored (attempt_keys x))"
  let ?db = "fold (insert_login now) ?ks db"
  have d: "distinct ?ks"
    using distinct_attempt_keys [of x] by (simp add: distinct_map_filter)
  have mem: "k \<in> set ?ks \<longleftrightarrow> k \<in> k_name ` set (attempt_keys x)" if "always_stored k" for k
    using that always_stored_keys [of _ x] by auto
  have rec: "recent now (stored_times (record_change (Counted ?ks now) db) k) =
      recent now (stored_times ?db k)" for k
    by (auto simp: recent_prune)
  have "table_ok now (record_change (Counted ?ks now) db)"
    using a by (intro table_ok_record) (auto simp: agrees_def)
  moreover have "recent now (held (fold (\<lambda>k. push_back (k_name k) now) (attempt_keys x) f) k) =
      recent now (stored_times (record_change (Counted ?ks now) db) k)" if "always_stored k" for k
    unfolding rec stored_times_insert [OF d] fold_push_held [OF distinct_attempt_keys]
    using a that mem [OF that] by (auto simp: agrees_def)
  ultimately show ?thesis unfolding agrees_def by blast
qed

lemma begin_agrees:
  fixes l l' :: limiter
  assumes inv: "limiter_inv now l" and p: "l_persistent l"
    and a: "agrees now (l_failures l) (stored_after db l)"
    and b: "begin_attempt x now l = (r, l')"
  shows "agrees now (l_failures l') (stored_after db l') \<and> l_persistent l'"
proof -
  let ?keys = "attempt_keys x"
  obtain ok f where c: "check_keys now ?keys (l_failures l) = (ok, f)" by fastforce
  then have chk: "checked_of now (l_failures l) f" by (rule check_keys_frame)
  then have rec: "\<forall>k. recent now (held f k) = recent now (held (l_failures l) k)"
    and d: "distinct (map fst f)" and s: "\<forall>k. sorted (held f k)"
    using inv limiter_inv_sorted [OF inv]
    by (auto simp: checked_of_def limiter_inv_def intro: set_suffix_sorted)
  let ?l1 = "l\<lparr>l_failures := f\<rparr>"
  let ?l2 = "make_room now (length ?keys) ?l1"
  have a1: "agrees now (l_failures ?l1) (stored_after db ?l1)"
    using agrees_recent [OF a rec] by simp
  then have a2: "agrees now (l_failures ?l2) (stored_after db ?l2)"
    using p d s by (intro make_room_agrees) simp_all
  have p2: "l_persistent ?l2" using make_room_frame [of ?l1] d p by simp
  show ?thesis
  proof (cases ok)
    case False
    then have "l' = ?l1" using b c by (auto simp: begin_attempt_def Let_def)
    then show ?thesis using a1 p by simp
  next
    case True
    then have "l' = journal (Counted (map k_name (filter k_stored ?keys)) now)
        (?l2\<lparr>l_failures := fold (\<lambda>k. push_back (k_name k) now) ?keys (l_failures ?l2)\<rparr>)"
      using b c by (auto simp: begin_attempt_def Let_def)
    then show ?thesis
      using p2 agrees_counted [OF a2, of x]
      by (simp add: stored_after_journal del: record_change.simps)
  qed
qed

lemma succeed_key_agrees:
  fixes l :: limiter
  assumes p: "l_persistent l" and a: "agrees now (l_failures l) (stored_after db l)"
    and st: "always_stored k \<Longrightarrow> stored"
  shows "agrees now (l_failures (succeed_key t (k, clear, stored) l))
      (stored_after db (succeed_key t (k, clear, stored) l)) \<and>
    l_persistent (succeed_key t (k, clear, stored) l)"
proof -
  let ?l = "succeed_key t (k, clear, stored) l"
  let ?db = "stored_after db l"
  have ids: "sorted_wrt (<) (map lr_id ?db)" using a by (simp add: agrees_def table_ok_def)
  have pers: "l_persistent ?l" using p by (auto simp: Let_def split: option.splits)
  have same: "stored_after db ?l = ?db" if "\<not> stored"
    using that by (auto simp: Let_def split: option.splits)
  have table: "table_ok now (stored_after db ?l)"
    using a p by (auto simp: agrees_def Let_def stored_after_journal table_ok_filter
        split: option.splits)
  have "recent now (held (l_failures ?l) j) = recent now (stored_times (stored_after db ?l) j)"
    if j: "always_stored j" for j
  proof (cases "j = k")
    case False
    have "stored_times (stored_after db ?l) j = stored_times ?db j"
      using False p ids by (auto simp: Let_def stored_after_journal stored_times_taken_back
          stored_times_cleared simp del: record_change.simps(3) split: option.splits)
    then show ?thesis using False a j by (simp add: held_succeed_key agrees_def del: succeed_key.simps)
  next
    case True
    have st': stored using True st j by simp
    have eq: "recent now (held (l_failures l) k) = recent now (stored_times ?db k)"
      using a True j by (simp add: agrees_def)
    show ?thesis
    proof (cases "clear \<or> t \<in> set (held (l_failures l) k)")
      case True
      then have "stored_times (stored_after db ?l) k = (if clear then []
          else remove1 t (stored_times ?db k))"
        using p ids st' by (auto simp: Let_def stored_after_journal stored_times_taken_back
            stored_times_cleared held_def simp del: record_change.simps(3) split: option.splits)
      then show ?thesis using \<open>j = k\<close> eq
        by (simp add: held_succeed_key recent_remove1 del: succeed_key.simps)
    next
      case False
      then have "?l = l" by (auto simp: held_def split: option.splits)
      then show ?thesis using \<open>j = k\<close> eq by simp
    qed
  qed
  then show ?thesis using table pers unfolding agrees_def by blast
qed

lemma succeeded_agrees:
  fixes l :: limiter
  assumes "l_persistent l" and "agrees now (l_failures l) (stored_after db l)"
  shows "agrees now (l_failures (succeeded (attempt_of (attempt_keys a) t) l))
      (stored_after db (succeeded (attempt_of (attempt_keys a) t) l)) \<and>
    l_persistent (succeeded (attempt_of (attempt_keys a) t) l)"
proof -
  have gen: "\<forall>(k, c, s) \<in> set xs. always_stored k \<longrightarrow> s \<Longrightarrow> l_persistent l \<Longrightarrow>
      agrees now (l_failures l) (stored_after db l) \<Longrightarrow>
      agrees now (l_failures (fold (succeed_key t) xs l)) (stored_after db (fold (succeed_key t) xs l)) \<and>
      l_persistent (fold (succeed_key t) xs l)" for xs and l :: limiter
  proof (induction xs arbitrary: l)
    case (Cons x xs)
    obtain k c s where x: "x = (k, c, s)" by (cases x)
    show ?case
      using Cons succeed_key_agrees [of l now db k s t c] by (simp add: x del: succeed_key.simps)
  qed simp
  have "\<forall>(k, c, s) \<in> set (map (\<lambda>k. (k_name k, k_clear k, k_stored k)) (attempt_keys a)).
      always_stored k \<longrightarrow> s"
    using always_stored_keys by auto
  from gen [OF this assms] show ?thesis by (simp add: succeeded_def attempt_of_def)
qed

lemma run_agrees:
  fixes l :: limiter
  shows "limiter_inv now l \<Longrightarrow> l_persistent l \<Longrightarrow> agrees now (l_failures l) (stored_after db l) \<Longrightarrow>
     in_order now ops \<Longrightarrow>
     agrees (end_time now ops) (l_failures (fold limiter_step ops l))
       (stored_after db (fold limiter_step ops l))"
proof (induction ops arbitrary: now l)
  case Nil
  then show ?case by simp
next
  case (Cons x ops)
  show ?case
  proof (cases x)
    case (Begin a t)
    then have "limiter_inv t l" "agrees t (l_failures l) (stored_after db l)" "in_order t ops"
      using Cons.prems by (auto intro: limiter_inv_later agrees_later)
    moreover from this have "limiter_inv t (limiter_step x l)"
      using Begin by (auto simp: prod_eq_iff intro: limiter_inv_begin)
    ultimately show ?thesis
      using begin_agrees [of t l db a] Cons.prems(2) Cons.IH [of t "limiter_step x l"] Begin
      by (metis (no_types, lifting) end_time.simps(2) fold_simps(2) limiter_step.simps(1) prod.collapse)
  next
    case (Succeed a t)
    then show ?thesis
      using Cons.prems Cons.IH [of now "limiter_step x l"]
        succeeded_agrees [of l now db a t] limiter_inv_succeeded [of now l]
      by simp
  qed
qed

text \<open>Loading the table again gives back what is inside the window.\<close>

lemma held_load:
  "held (fold (\<lambda>r. push_back (lr_key r) (lr_at r)) rows f) k = held f k @ stored_times rows k"
  by (induction rows arbitrary: f) (auto simp: held_push_back stored_times_def)

lemma persistent_held:
  assumes "table_ok now db"
  shows "held (l_failures (fst (persistent db now))) k = stored_times (prune_logins now db) k"
proof -
  have "sorted (map lr_at (prune_logins now db))"
    using table_ok_filter [OF assms] by (simp add: table_ok_def prune_logins_def)
  then have "sort_key lr_at (prune_logins now db) = prune_logins now db"
    by (simp add: sort_key_id_if_sorted)
  then show ?thesis by (simp add: persistent_def Let_def held_load) (simp add: held_def)
qed

lemma persistent_agrees:
  assumes "table_ok now db"
  shows "agrees now (l_failures (fst (persistent db now)))
    (stored_after (snd (persistent db now)) (fst (persistent db now)))"
  using assms persistent_held [OF assms]
  by (simp add: agrees_def stored_after_def persistent_def Let_def prune_logins_def table_ok_filter)


lemma begin_held_with_room:
  fixes l l' :: limiter
  assumes inv: "limiter_inv now l" and room: "length (l_failures l) + 2 \<le> MAX_KEYS"
    and b: "begin_attempt a now l = (Some att, l')"
  shows "held (l_failures l') k = recent now (held (l_failures l) k) @
      (if k \<in> k_name ` set (attempt_keys a) then [now] else []) \<or>
    k \<notin> k_name ` set (attempt_keys a) \<and> held (l_failures l') k = held (l_failures l) k"
proof -
  let ?keys = "attempt_keys a"
  have pops: "held (snd (check_keys now ks f)) k =
      (if k \<in> k_name ` set ks then recent now (held f k) else held f k)"
    if "fst (check_keys now ks f)" "\<forall>k. sorted (held f k)" for ks f
    using that
  proof (induction ks arbitrary: f)
    case (Cons x ks)
    show ?case
    proof (cases "map_of f (k_name x)")
      case None
      then have "held f (k_name x) = []" by (simp add: held_def)
      with None Cons show ?thesis by auto
    next
      case (Some ts)
      let ?f = "AList.update (k_name x) (dropWhile (\<lambda>t. now - t \<ge> WINDOW_MS) ts) f"
      have h: "held f (k_name x) = ts" using Some by (simp add: held_def)
      have chk: "checked_of now f ?f" using Some by (rule checked_of_pop)
      have s: "\<forall>k. sorted (held ?f k)"
        using chk Cons.prems(2) by (auto simp: checked_of_def intro: set_suffix_sorted)
      have r: "dropWhile (\<lambda>t. now - t \<ge> WINDOW_MS) ts = recent now ts"
        using h Cons.prems(2) sorted_dropWhile_recent by metis
      have "fst (check_keys now ks ?f)" using Cons.prems(1) Some
        by (auto simp: Let_def split: if_splits)
      from Cons.IH [OF this s] Cons.prems(1) Some h show ?thesis
        by (auto simp: Let_def held_update r recent_later split: if_splits)
    qed
  qed simp
  obtain ok f where c: "check_keys now ?keys (l_failures l) = (ok, f)" by fastforce
  then have len: "length f = length (l_failures l)"
    using check_keys_frame by (metis checked_of_def length_map)
  then have "make_room now (length ?keys) (l\<lparr>l_failures := f\<rparr>) = l\<lparr>l_failures := f\<rparr>"
    using room length_attempt_keys [of a] by (simp add: make_room_def)
  then have ok: ok and "l_failures l' = fold (\<lambda>k. push_back (k_name k) now) ?keys f"
    using b c by (auto simp: begin_attempt_def Let_def split: if_splits)
  then have "held (l_failures l') k = held f k @ (if k \<in> k_name ` set ?keys then [now] else [])"
    by (simp add: fold_push_held distinct_attempt_keys)
  then show ?thesis
    using pops [of ?keys "l_failures l"] ok c limiter_inv_sorted [OF inv] by auto
qed

lemma remove1_snoc_sorted:
  fixes t :: "'a::linorder"
  assumes "sorted ts" and "\<forall>x \<in> set ts. x \<le> t"
  shows "remove1 t (ts @ [t]) = ts"
  using assms
proof (induction ts)
  case (Cons x ts)
  show ?case
  proof (cases "x = t")
    case True
    then have "ts = replicate (length ts) t"
      using Cons.prems by (intro replicate_eqI) (auto intro: antisym)
    then show ?thesis using True by (metis append_Cons remove1.simps(2) replicate_append_same)
  qed (use Cons in auto)
qed simp

lemmas limiter_eval = begin_attempt_def Let_def make_room_def journal_def default_limiter_def
  push_back_def held_def address_key_def recent_def WINDOW_MS_def MINUTE_MS_def
  PER_ACCOUNT_def PER_ADDRESS_def MAX_KEYS_def

section \<open>Properties\<close>

text \<open>C13: whatever the attempts and successes and whatever their interleaving, the limiter
  never holds more attempts of one key inside the sliding window than that key's limit, and
  never tracks more than MAX_KEYS keys.\<close>

theorem limiter_window_bound:
  assumes "in_order now ops"
  shows "length (recent (end_time now ops)
      (held (l_failures (fold limiter_step ops default_limiter)) k)) \<le> key_limit k \<and>
    length (l_failures (fold limiter_step ops default_limiter)) \<le> MAX_KEYS"
  using limiter_inv_run [OF limiter_inv_default assms] by (simp add: limiter_inv_def queue_ok_def)

theorem limiter_window_bound_witness:
  "in_order 0 [Begin (Invitation (lit ''10.0.0.9'')) 5, Succeed (Invitation (lit ''10.0.0.9'')) 5] \<and>
   length (l_failures (fold limiter_step
     [Begin (Invitation (lit ''10.0.0.9'')) 5, Succeed (Invitation (lit ''10.0.0.9'')) 5]
     default_limiter)) \<le> MAX_KEYS"
proof -
  have h: "in_order 0 [Begin (Invitation (lit ''10.0.0.9'')) 5, Succeed (Invitation (lit ''10.0.0.9'')) 5]"
    by simp
  show ?thesis using h limiter_window_bound [OF h] by blast
qed

text \<open>After any run, an attempt is refused exactly when one of its keys already has as
  many attempts inside the window as its limit; otherwise it is counted.\<close>

lemma limiter_refuses_exactly:
  assumes "in_order now ops" and "end_time now ops \<le> t"
  shows "fst (begin_attempt a t (fold limiter_step ops default_limiter)) = None \<longleftrightarrow>
    (\<exists>k \<in> set (attempt_keys a). k_limit k \<le>
       length (recent t (held (l_failures (fold limiter_step ops default_limiter)) (k_name k))))"
  using limiter_inv_run [OF limiter_inv_default assms(1)] assms(2)
  by (intro begin_attempt_None) (rule limiter_inv_later)

lemma limiter_refuses_exactly_witness:
  "fst (begin_attempt (PasswordChange 7) 50
     (fold limiter_step (map (\<lambda>t. Begin (PasswordChange 7) t) [10, 20, 30, 40, 50]) default_limiter)) = None"
proof -
  have h: "in_order 0 (map (\<lambda>t. Begin (PasswordChange 7) t) [10, 20, 30, 40, 50])"
    and e: "end_time 0 (map (\<lambda>t. Begin (PasswordChange 7) t) [10, 20, 30, 40, 50]) \<le> 50"
    by simp_all
  have "\<exists>k \<in> set (attempt_keys (PasswordChange 7)). k_limit k \<le> length (recent 50
      (held (l_failures (fold limiter_step (map (\<lambda>t. Begin (PasswordChange 7) t) [10, 20, 30, 40, 50])
        default_limiter)) (k_name k)))"
    by (simp add: limiter_eval)
  then show ?thesis using limiter_refuses_exactly [OF h e] by blast
qed

text \<open>An attempt that succeeds takes back only itself on the shared address key, so a
  good sign-in cannot reset guessing against other accounts, while the account's own key
  forgets its failures.\<close>

lemma limiter_success_takes_back:
  fixes l :: limiter
  assumes inv: "limiter_inv now l" and room: "length (l_failures l) + 2 \<le> MAX_KEYS"
    and b: "begin_attempt (SignIn username address exists) now l = (Some att, l')"
  shows "held (l_failures (succeeded att l')) (lit ''a:'' @ address) =
      recent now (held (l_failures l) (lit ''a:'' @ address)) \<and>
    held (l_failures (succeeded att l')) (lit ''u:'' @ to_ascii_lowercase (trim username)) = []"
proof -
  let ?u = "lit ''u:'' @ to_ascii_lowercase (trim username)" and ?a = "lit ''a:'' @ address"
  have att: "att = attempt_of (attempt_keys (SignIn username address exists)) now"
    by (rule begin_attempt_Some(5) [OF b]) (use inv in \<open>simp add: limiter_inv_def\<close>)
  have "held (l_failures l') ?a = recent now (held (l_failures l) ?a) @ [now]"
    using begin_held_with_room [OF inv room b, of ?a] by (auto simp: address_key_def)
  moreover have "remove1 now (recent now (held (l_failures l) ?a) @ [now]) =
      recent now (held (l_failures l) ?a)"
    by (rule remove1_snoc_sorted)
       (use inv in \<open>auto simp: limiter_inv_def queue_ok_def recent_def sorted_wrt_filter\<close>)
  ultimately show ?thesis
    by (simp add: succeeded_def att attempt_of_def address_key_def held_succeed_key
        del: succeed_key.simps)
qed

lemma limiter_success_takes_back_witness:
  "held (l_failures (succeeded (attempt_of (attempt_keys (SignIn (lit ''Rob'') (lit ''10.0.0.1'') True)) 9)
      (snd (begin_attempt (SignIn (lit ''Rob'') (lit ''10.0.0.1'') True) 9 default_limiter))))
    (lit ''u:'' @ to_ascii_lowercase (trim (lit ''Rob''))) = []"
proof -
  have inv: "limiter_inv 9 default_limiter" by (rule limiter_inv_default)
  have room: "length (l_failures default_limiter) + 2 \<le> MAX_KEYS"
    by (simp add: default_limiter_def MAX_KEYS_def)
  have b: "begin_attempt (SignIn (lit ''Rob'') (lit ''10.0.0.1'') True) 9 default_limiter =
      (Some (attempt_of (attempt_keys (SignIn (lit ''Rob'') (lit ''10.0.0.1'') True)) 9),
       snd (begin_attempt (SignIn (lit ''Rob'') (lit ''10.0.0.1'') True) 9 default_limiter))"
    by (simp add: limiter_eval)
  show ?thesis using limiter_success_takes_back [OF inv room b] by blast
qed

text \<open>A restart does not reset the limits: after any run of a limiter loaded from the
  table, with its journal written to the table, loading the table again gives for every
  address key and password key exactly the attempts inside the window that memory held.\<close>

lemma limiter_survives_restart:
  fixes l :: limiter
  assumes db: "table_ok now db" and inv: "limiter_inv now (fst (persistent db now))"
    and ord: "in_order now ops" and later: "end_time now ops \<le> now'"
    and l: "l = fold limiter_step ops (fst (persistent db now))"
    and k: "always_stored k"
  shows "recent now' (held (l_failures (fst (persistent
      (stored_after (snd (persistent db now)) l) now'))) k) =
    recent now' (held (l_failures l) k)"
proof -
  let ?db = "stored_after (snd (persistent db now)) l"
  have "l_persistent (fst (persistent db now))" by (simp add: persistent_def Let_def)
  from run_agrees [OF inv this persistent_agrees [OF db] ord]
  have "agrees now' (l_failures l) ?db" using later by (auto simp: l intro: agrees_later)
  then show ?thesis
    using k persistent_held [of now' ?db k] by (simp add: agrees_def recent_prune)
qed

lemma limiter_survives_restart_witness:
  "recent 70 (held (l_failures (fst (persistent (stored_after (snd (persistent [] 5))
      (fold limiter_step [Begin (PasswordChange 3) 60] (fst (persistent [] 5)))) 70)))
      (lit ''p:'' @ decimal_int 3)) =
   recent 70 (held (l_failures (fold limiter_step [Begin (PasswordChange 3) 60]
      (fst (persistent [] 5)))) (lit ''p:'' @ decimal_int 3))"
proof -
  have db: "table_ok 5 []" by (simp add: table_ok_def)
  have inv: "limiter_inv 5 (fst (persistent [] 5))"
    by (simp add: limiter_inv_def persistent_def prune_logins_def held_def)
  have ord: "in_order 5 [Begin (PasswordChange 3) 60]"
    and later: "end_time 5 [Begin (PasswordChange 3) 60] \<le> 70" by simp_all
  have k: "always_stored (lit ''p:'' @ decimal_int 3)" by (simp add: always_stored_def)
  show ?thesis by (rule limiter_survives_restart [OF db inv ord later refl k])
qed

end
