(* ===== verification/Accounts.thy ===== *)
theory Accounts
  imports Failures
begin

text \<open>
  \<open>crates/bokkie-gateway/src/accounts.rs\<close> and \<open>secrets.rs\<close> over the tables of
  migrations 0001, 0006 and 0009: users, sessions and invitations. Each operation maps the
  tables to a result; an operation that fails returns no tables, since its transaction is
  rolled back. SHA-256, Argon2 and the random source are not under \<open>src/\<close>: the token hash
  and the password check are parameters, and a fresh token or a salted hash is an argument.
  An operation that reads before its write transaction takes both snapshots, so that what
  other requests do in between is part of the model.
\<close>

section \<open>Secrets (secrets.rs)\<close>

definition MIN_PASSWORD_CHARS :: nat where
  "MIN_PASSWORD_CHARS = 10"

definition MAX_PASSWORD_BYTES :: nat where
  "MAX_PASSWORD_BYTES = 256"

definition check_new_password :: "utext \<Rightarrow> utext + unit" where
  "check_new_password password =
     (if length password < MIN_PASSWORD_CHARS
      then Inl (lit ''Passwords need at least '' @ decimal MIN_PASSWORD_CHARS @ lit '' characters'')
      else if byte_len password > MAX_PASSWORD_BYTES
      then Inl (lit ''Passwords may have at most '' @ decimal MAX_PASSWORD_BYTES @ lit '' bytes'')
      else Inr ())"

text \<open>
  \<open>argon password stored\<close> is \<open>None\<close> where \<open>stored\<close> is not a PHC string, else whether it
  verifies. An unknown user's password is checked against a fixed hash.
\<close>

type_synonym argon = "utext \<Rightarrow> utext \<Rightarrow> bool option"

definition verify_password :: "argon \<Rightarrow> utext \<Rightarrow> utext \<Rightarrow> utext option \<Rightarrow> bool" where
  "verify_password argon dummy password stored =
     (if byte_len password > MAX_PASSWORD_BYTES then False
      else case argon password (case stored of None \<Rightarrow> dummy | Some hash \<Rightarrow> hash) of
          None \<Rightarrow> False
        | Some ok \<Rightarrow> ok \<and> stored \<noteq> None)"

type_synonym token_hash = "utext \<Rightarrow> nat list"

section \<open>The tables\<close>

record user_row =
  ur_id :: int
  ur_username :: utext
  ur_display_name :: utext
  ur_role :: utext
  ur_password_hash :: utext
  ur_disabled :: bool
  ur_daily_turns :: "int option"
  ur_weekly_tokens :: "int option"
  ur_created_at :: int
  ur_updated_at :: int
  ur_may_create_bots :: bool
  ur_may_edit_bot_profiles :: bool
  ur_oversight :: bool
  ur_oversight_changed_at :: "int option"
  ur_password_reset_by_admin_at :: "int option"
  ur_time_zone :: utext

record session_row =
  se_id :: int
  se_user_id :: int
  se_token_hash :: "nat list"
  se_user_agent :: "utext option"
  se_created_at :: int
  se_last_seen_at :: int
  se_expires_at :: int
  se_revoked_at :: "int option"

record invitation_row =
  iv_id :: int
  iv_code_hash :: "nat list"
  iv_role :: utext
  iv_may_create_bots :: bool
  iv_may_edit_bot_profiles :: bool
  iv_display_name :: "utext option"
  iv_created_by :: int
  iv_created_at :: int
  iv_expires_at :: int
  iv_used_at :: "int option"
  iv_used_by :: "int option"
  iv_withdrawn_at :: "int option"

record accounts_db =
  db_users :: "user_row list"
  db_sessions :: "session_row list"
  db_invitations :: "invitation_row list"

definition SESSION_IDLE_MS :: int where
  "SESSION_IDLE_MS = 400 * DAY_MS"

definition INVITATION_DEFAULT_MS :: int where
  "INVITATION_DEFAULT_MS = 3 * DAY_MS"

definition INVITATION_MAX_MS :: int where
  "INVITATION_MAX_MS = 30 * DAY_MS"

section \<open>Accounts\<close>

record account =
  ac_user :: user
  ac_limits :: limits
  ac_password_reset_by_admin :: "timestamp option"

definition is_admin :: "account \<Rightarrow> bool" where
  "is_admin a \<longleftrightarrow> u_role (ac_user a) = Admin"

fun role_name :: "role \<Rightarrow> utext" where
  "role_name Admin = lit ''admin''"
| "role_name Member = lit ''member''"

definition role_from :: "utext \<Rightarrow> role" where
  "role_from name = (if name = lit ''admin'' then Admin else Member)"

text \<open>Admins have both permissions and no oversight, whatever the row says.\<close>

definition account_from :: "user_row \<Rightarrow> account" where
  "account_from r =
     (let admin = role_from (ur_role r) = Admin in
      \<lparr>ac_user =
         \<lparr>u_id = ur_id r, u_username = ur_username r, u_display_name = ur_display_name r,
          u_role = role_from (ur_role r), u_disabled = ur_disabled r,
          u_created_at = ur_created_at r,
          u_permissions =
            \<lparr>may_create_bots = admin \<or> ur_may_create_bots r,
             may_edit_bot_profiles = admin \<or> ur_may_edit_bot_profiles r\<rparr>,
          u_oversight = (\<not> admin \<and> ur_oversight r),
          u_oversight_changed_at = ur_oversight_changed_at r,
          u_time_zone = ur_time_zone r\<rparr>,
       ac_limits =
         \<lparr>daily_turns = map_option (\<lambda>v. nat (v mod 2 ^ 32)) (ur_daily_turns r),
          weekly_tokens = map_option (\<lambda>v. nat (v mod 2 ^ 64)) (ur_weekly_tokens r)\<rparr>,
       ac_password_reset_by_admin = ur_password_reset_by_admin_at r\<rparr>)"

definition check_permissions :: "role \<Rightarrow> permissions \<Rightarrow> failure + unit" where
  "check_permissions role perms =
     (if role = Admin \<and> perms \<noteq> default_permissions
      then Inl (invalid (lit ''Admins always have both permissions'')) else Inr ())"

definition username_char :: "uchar \<Rightarrow> bool" where
  "username_char c \<longleftrightarrow> is_ascii_lower c \<or> is_ascii_digit c \<or> c \<in> set (lit ''._-'')"

definition valid_username :: "utext \<Rightarrow> bool" where
  "valid_username u \<longleftrightarrow>
     2 \<le> byte_len u \<and> byte_len u \<le> 32 \<and> list_all username_char u
     \<and> (case u of [] \<Rightarrow> False | c # _ \<Rightarrow> is_ascii_alphanumeric c)"

definition normalise_username :: "utext \<Rightarrow> failure + utext" where
  "normalise_username username =
     (let u = to_ascii_lowercase (trim username) in
      if valid_username u then Inr u
      else Inl (invalid (lit ''Usernames have 2 to 32 letters, digits, dots, dashes or underscores'')))"

definition normalise_display_name :: "utext \<Rightarrow> failure + utext" where
  "normalise_display_name name =
     (let n = trim name in
      if 1 \<le> length n \<and> length n \<le> 64 \<and> \<not> list_ex is_control n then Inr n
      else Inl (invalid (lit ''Display names have 1 to 64 characters'')))"

definition check_password :: "utext \<Rightarrow> failure + unit" where
  "check_password password =
     (case check_new_password password of Inl e \<Rightarrow> Inl (invalid e) | Inr u \<Rightarrow> Inr u)"

section \<open>Users\<close>

definition find_user :: "accounts_db \<Rightarrow> int \<Rightarrow> user_row option" where
  "find_user db user = find (\<lambda>r. ur_id r = user) (db_users db)"

definition find_username :: "accounts_db \<Rightarrow> utext \<Rightarrow> user_row option" where
  "find_username db username = find (\<lambda>r. ur_username r = username) (db_users db)"

definition account :: "accounts_db \<Rightarrow> int \<Rightarrow> account option" where
  "account db user = map_option account_from (find_user db user)"

definition account_by_username :: "accounts_db \<Rightarrow> utext \<Rightarrow> account option" where
  "account_by_username db username =
     map_option account_from (find_username db (to_ascii_lowercase (trim username)))"

definition new_user_row ::
  "int \<Rightarrow> int \<Rightarrow> utext \<Rightarrow> utext \<Rightarrow> role \<Rightarrow> permissions \<Rightarrow> utext \<Rightarrow> user_row" where
  "new_user_row rowid now username display_name role perms password_hash =
     \<lparr>ur_id = rowid, ur_username = username, ur_display_name = display_name,
      ur_role = role_name role, ur_password_hash = password_hash, ur_disabled = False,
      ur_daily_turns = None, ur_weekly_tokens = None, ur_created_at = now, ur_updated_at = now,
      ur_may_create_bots = may_create_bots perms,
      ur_may_edit_bot_profiles = may_edit_bot_profiles perms, ur_oversight = False,
      ur_oversight_changed_at = None, ur_password_reset_by_admin_at = None,
      ur_time_zone = DEFAULT_TIME_ZONE\<rparr>"

definition insert_user ::
  "int \<Rightarrow> utext \<Rightarrow> utext \<Rightarrow> role \<Rightarrow> permissions \<Rightarrow> utext \<Rightarrow> accounts_db
   \<Rightarrow> failure + int \<times> accounts_db" where
  "insert_user now username display_name role perms password_hash db =
     and_then (check_permissions role perms) (\<lambda>_.
       if username \<in> ur_username ` set (db_users db)
       then Inl (conflict (lit ''That username is taken''))
       else
         let rowid = next_rowid (map ur_id (db_users db)) in
         Inr (rowid, db\<lparr>db_users := db_users db @
           [new_user_row rowid now username display_name role perms password_hash]\<rparr>))"

definition is_admin_row :: "user_row \<Rightarrow> bool" where
  "is_admin_row r \<longleftrightarrow> ur_role r = lit ''admin''"

definition bootstrap_admin ::
  "utext \<Rightarrow> int \<Rightarrow> utext \<Rightarrow> utext \<Rightarrow> utext \<Rightarrow> accounts_db \<Rightarrow> failure + user \<times> accounts_db" where
  "bootstrap_admin hash now username display_name password db =
     and_then (normalise_username username) (\<lambda>u.
     and_then (normalise_display_name display_name) (\<lambda>d.
     and_then (check_password password) (\<lambda>_.
       if matched is_admin_row (db_users db) > 0
       then Inl (conflict (lit ''An admin already exists''))
       else
         and_then (insert_user now u d Admin default_permissions hash db) (\<lambda>(rowid, db').
         and_then (ok_or not_found (account db' rowid)) (\<lambda>a. Inr (ac_user a, db'))))))"

definition update_user :: "int \<Rightarrow> (user_row \<Rightarrow> user_row) \<Rightarrow> accounts_db \<Rightarrow> accounts_db" where
  "update_user user f db = db\<lparr>db_users := update_where (\<lambda>r. ur_id r = user) f (db_users db)\<rparr>"

definition set_time_zone ::
  "int \<Rightarrow> int \<Rightarrow> utext \<Rightarrow> accounts_db \<Rightarrow> failure + account \<times> accounts_db" where
  "set_time_zone now user time_zone db =
     (let db' = update_user user (\<lambda>r. r\<lparr>ur_time_zone := time_zone, ur_updated_at := now\<rparr>) db in
      and_then (ok_or not_found (account db' user)) (\<lambda>a. Inr (a, db')))"

definition admin_user_of :: "account \<Rightarrow> admin_user" where
  "admin_user_of a = \<lparr>au_user = ac_user a, au_limits = ac_limits a\<rparr>"

definition admin_list_users :: "accounts_db \<Rightarrow> admin_user list" where
  "admin_list_users db = map (admin_user_of \<circ> account_from) (sort_key ur_id (db_users db))"

section \<open>Revoking sessions\<close>

definition revoke_all_sessions :: "int \<Rightarrow> int \<Rightarrow> int option \<Rightarrow> accounts_db \<Rightarrow> accounts_db" where
  "revoke_all_sessions now user except db =
     db\<lparr>db_sessions :=
        update_where (\<lambda>s. se_user_id s = user \<and> se_revoked_at s = None \<and> Some (se_id s) \<noteq> except)
          (\<lambda>s. s\<lparr>se_revoked_at := Some now\<rparr>) (db_sessions db)\<rparr>"

section \<open>Changes by an admin\<close>

record account_changes =
  ch_display_name :: "utext option"
  ch_disabled :: "bool option"
  ch_limits :: "limits option"
  ch_permissions :: "permissions option"
  ch_oversight :: "bool option"

definition when_some :: "'a option \<Rightarrow> ('a \<Rightarrow> 's \<Rightarrow> 's) \<Rightarrow> 's \<Rightarrow> 's" where
  "when_some x f s = (case x of None \<Rightarrow> s | Some a \<Rightarrow> f a s)"

definition write_permissions :: "int \<Rightarrow> int \<Rightarrow> permissions \<Rightarrow> accounts_db \<Rightarrow> accounts_db" where
  "write_permissions now target perms =
     update_user target (\<lambda>r. r\<lparr>ur_may_create_bots := may_create_bots perms,
       ur_may_edit_bot_profiles := may_edit_bot_profiles perms, ur_updated_at := now\<rparr>)"

definition write_oversight :: "int \<Rightarrow> int \<Rightarrow> bool \<Rightarrow> accounts_db \<Rightarrow> accounts_db" where
  "write_oversight now target oversight =
     update_user target (\<lambda>r. r\<lparr>
       ur_oversight_changed_at := if ur_oversight r \<noteq> oversight then Some now
         else ur_oversight_changed_at r,
       ur_oversight := oversight, ur_updated_at := now\<rparr>)"

definition write_display_name :: "int \<Rightarrow> int \<Rightarrow> utext \<Rightarrow> accounts_db \<Rightarrow> accounts_db" where
  "write_display_name now target name =
     update_user target (\<lambda>r. r\<lparr>ur_display_name := name, ur_updated_at := now\<rparr>)"

definition write_disabled :: "int \<Rightarrow> int \<Rightarrow> bool \<Rightarrow> accounts_db \<Rightarrow> accounts_db" where
  "write_disabled now target disabled db =
     (let db' = update_user target (\<lambda>r. r\<lparr>ur_disabled := disabled, ur_updated_at := now\<rparr>) db in
      if disabled then revoke_all_sessions now target None db' else db')"

definition write_limits :: "int \<Rightarrow> int \<Rightarrow> limits \<Rightarrow> accounts_db \<Rightarrow> accounts_db" where
  "write_limits now target l =
     update_user target (\<lambda>r. r\<lparr>
       ur_daily_turns := map_option int (daily_turns l),
       ur_weekly_tokens := map_option (\<lambda>v. int (min v (2 ^ 63 - 1))) (weekly_tokens l),
       ur_updated_at := now\<rparr>)"

definition admin_update_user ::
  "int \<Rightarrow> int \<Rightarrow> int \<Rightarrow> account_changes \<Rightarrow> accounts_db \<Rightarrow> failure + admin_user \<times> accounts_db" where
  "admin_update_user now admin target changes db =
     (if target = admin \<and> ch_disabled changes = Some True
      then Inl (invalid (lit ''You cannot disable your own account''))
      else
        and_then (check_opt normalise_display_name (ch_display_name changes)) (\<lambda>display_name.
        and_then (ok_or not_found (find_user db target)) (\<lambda>row.
          let role = role_from (ur_role row) in
          if role = Admin \<and> ch_oversight changes = Some True
          then Inl (forbidden (lit ''Oversight applies to members only''))
          else
            and_then (check_opt (check_permissions role) (ch_permissions changes)) (\<lambda>_.
              let db1 = when_some (ch_permissions changes) (write_permissions now target) db;
                  db2 = when_some (ch_oversight changes) (write_oversight now target) db1;
                  db3 = when_some display_name (write_display_name now target) db2;
                  db4 = when_some (ch_disabled changes) (write_disabled now target) db3;
                  db5 = when_some (ch_limits changes) (write_limits now target) db4
              in and_then (ok_or not_found (account db5 target)) (\<lambda>a.
                Inr (admin_user_of a, db5))))))"

definition refuse_admin :: failure where
  "refuse_admin = forbidden (lit ''No admin can reset another admin's password'')"

text \<open>Both checks of \<open>admin_reset_password\<close>: the early one and the one inside the transaction.\<close>

definition reset_check :: "accounts_db \<Rightarrow> int \<Rightarrow> int \<Rightarrow> failure + role" where
  "reset_check db admin target =
     and_then (ok_or not_found (find_user db target)) (\<lambda>row.
       let role = role_from (ur_role row) in
       if role = Admin \<and> target \<noteq> admin then Inl refuse_admin else Inr role)"

definition admin_reset_password_at ::
  "utext \<Rightarrow> int \<Rightarrow> int \<Rightarrow> int \<Rightarrow> utext \<Rightarrow> accounts_db \<Rightarrow> accounts_db \<Rightarrow> failure + accounts_db" where
  "admin_reset_password_at hash now admin target new_password db_read db =
     and_then (reset_check db_read admin target) (\<lambda>_.
     and_then (check_password new_password) (\<lambda>_.
     and_then (reset_check db admin target) (\<lambda>role.
       let reset = if role = Member then Some now else None;
           db1 = update_user target (\<lambda>r. r\<lparr>ur_password_hash := hash, ur_updated_at := now,
             ur_password_reset_by_admin_at :=
               (case reset of None \<Rightarrow> ur_password_reset_by_admin_at r | Some t \<Rightarrow> Some t)\<rparr>) db
       in Inr (revoke_all_sessions now target None db1))))"

section \<open>A user's own account\<close>

definition acknowledge_password_reset :: "int \<Rightarrow> int \<Rightarrow> accounts_db \<Rightarrow> accounts_db" where
  "acknowledge_password_reset user session db =
     (if list_ex (\<lambda>s. se_id s = session \<and> se_user_id s = user \<and> se_revoked_at s = None) (db_sessions db)
      then update_user user (\<lambda>r. r\<lparr>ur_password_reset_by_admin_at := None\<rparr>) db
      else db)"

definition change_own_password_at ::
  "argon \<Rightarrow> utext \<Rightarrow> utext \<Rightarrow> int \<Rightarrow> int \<Rightarrow> int \<Rightarrow> utext \<Rightarrow> utext \<Rightarrow> accounts_db \<Rightarrow> accounts_db
   \<Rightarrow> failure + accounts_db" where
  "change_own_password_at argon dummy hash now user current_session current_password new_password
     db_read db =
     and_then (check_password new_password) (\<lambda>_.
       if \<not> verify_password argon dummy current_password
             (map_option ur_password_hash (find_user db_read user))
       then Inl (forbidden (lit ''The current password is wrong''))
       else
         let db1 = update_user user (\<lambda>r. r\<lparr>ur_password_hash := hash, ur_updated_at := now\<rparr>) db
         in Inr (revoke_all_sessions now user (Some current_session) db1))"

definition username_exists :: "accounts_db \<Rightarrow> utext \<Rightarrow> bool" where
  "username_exists db username \<longleftrightarrow> find_username db (to_ascii_lowercase (trim username)) \<noteq> None"

definition check_credentials ::
  "argon \<Rightarrow> utext \<Rightarrow> accounts_db \<Rightarrow> utext \<Rightarrow> utext \<Rightarrow> account option" where
  "check_credentials argon dummy db username password =
     (let row = find_username db (to_ascii_lowercase (trim username));
          ok = verify_password argon dummy password (map_option ur_password_hash row)
      in case row of
           None \<Rightarrow> None
         | Some r \<Rightarrow>
             if ok \<and> \<not> u_disabled (ac_user (account_from r)) then Some (account_from r) else None)"

section \<open>Sessions\<close>

record session =
  sn_id :: int
  sn_account :: account

definition create_session ::
  "token_hash \<Rightarrow> utext \<Rightarrow> int \<Rightarrow> int \<Rightarrow> utext option \<Rightarrow> accounts_db \<Rightarrow> failure + utext \<times> accounts_db" where
  "create_session th token now user user_agent db =
     (if find_user db user = None then Inl (internal (lit ''FOREIGN KEY constraint failed''))
      else if th token \<in> se_token_hash ` set (db_sessions db)
      then Inl (internal (lit ''UNIQUE constraint failed: sessions.token_hash''))
      else Inr (token, db\<lparr>db_sessions := db_sessions db @
        [\<lparr>se_id = next_rowid (map se_id (db_sessions db)), se_user_id = user,
          se_token_hash = th token, se_user_agent = map_option (take 120) user_agent,
          se_created_at = now, se_last_seen_at = now, se_expires_at = now + SESSION_IDLE_MS,
          se_revoked_at = None\<rparr>]\<rparr>))"

text \<open>The row of the join: the session of the token that is live, with its enabled user.\<close>

definition session_live :: "int \<Rightarrow> session_row \<Rightarrow> bool" where
  "session_live now s \<longleftrightarrow> se_revoked_at s = None \<and> se_expires_at s > now"

definition join_session :: "token_hash \<Rightarrow> int \<Rightarrow> utext \<Rightarrow> accounts_db \<Rightarrow> (session_row \<times> user_row) option" where
  "join_session th now token db =
     find (\<lambda>(s, u). se_token_hash s = th token \<and> session_live now s \<and> \<not> ur_disabled u)
       (concat (map (\<lambda>s. map (Pair s) (filter (\<lambda>u. ur_id u = se_user_id s) (db_users db)))
         (db_sessions db)))"

definition find_session ::
  "token_hash \<Rightarrow> int \<Rightarrow> utext \<Rightarrow> accounts_db \<Rightarrow> session option \<times> accounts_db" where
  "find_session th now token db =
     (case join_session th now token db of
        None \<Rightarrow> (None, db)
      | Some (s, u) \<Rightarrow>
          (Some \<lparr>sn_id = se_id s, sn_account = account_from u\<rparr>,
           if now - se_last_seen_at s > HOUR_MS
           then db\<lparr>db_sessions := update_where (\<lambda>r. se_id r = se_id s)
             (\<lambda>r. r\<lparr>se_last_seen_at := now, se_expires_at := now + SESSION_IDLE_MS\<rparr>)
             (db_sessions db)\<rparr>
           else db))"

definition list_sessions :: "int \<Rightarrow> int \<Rightarrow> int \<Rightarrow> accounts_db \<Rightarrow> session_summary list" where
  "list_sessions now user current db =
     map (\<lambda>s. \<lparr>ss_id = se_id s, ss_current = (se_id s = current), ss_created_at = se_created_at s,
        ss_last_seen_at = se_last_seen_at s, ss_user_agent = se_user_agent s\<rparr>)
       (sort_key se_id (filter (\<lambda>s. se_user_id s = user \<and> session_live now s) (db_sessions db)))"

definition revoke_session :: "int \<Rightarrow> int \<Rightarrow> int \<Rightarrow> accounts_db \<Rightarrow> failure + accounts_db" where
  "revoke_session now user session db =
     (let wanted = (\<lambda>s. se_id s = session \<and> se_user_id s = user \<and> se_revoked_at s = None) in
      if matched wanted (db_sessions db) = 0 then Inl not_found
      else Inr (db\<lparr>db_sessions :=
        update_where wanted (\<lambda>s. s\<lparr>se_revoked_at := Some now\<rparr>) (db_sessions db)\<rparr>))"

section \<open>Invitations\<close>

definition invitation_lifetime :: "nat option \<Rightarrow> int" where
  "invitation_lifetime expires_in_hours =
     (case expires_in_hours of None \<Rightarrow> INVITATION_DEFAULT_MS | Some h \<Rightarrow> int h * HOUR_MS)"

definition admin_create_invitation ::
  "token_hash \<Rightarrow> utext \<Rightarrow> int \<Rightarrow> int \<Rightarrow> role \<Rightarrow> permissions \<Rightarrow> utext option \<Rightarrow> nat option \<Rightarrow> accounts_db
   \<Rightarrow> failure + (int \<times> utext \<times> int) \<times> accounts_db" where
  "admin_create_invitation th code now admin role perms display_name expires_in_hours db =
     and_then (check_permissions role perms) (\<lambda>_.
     and_then (check_opt normalise_display_name display_name) (\<lambda>name.
       let lifetime = invitation_lifetime expires_in_hours in
       if lifetime \<le> 0 \<or> lifetime > INVITATION_MAX_MS
       then Inl (invalid (lit ''Invitations last from 1 hour to 30 days''))
       else if find_user db admin = None
       then Inl (internal (lit ''FOREIGN KEY constraint failed''))
       else if th code \<in> iv_code_hash ` set (db_invitations db)
       then Inl (internal (lit ''UNIQUE constraint failed: invitations.code_hash''))
       else
         let rowid = next_rowid (map iv_id (db_invitations db)); expires_at = now + lifetime in
         Inr ((rowid, code, expires_at), db\<lparr>db_invitations := db_invitations db @
           [\<lparr>iv_id = rowid, iv_code_hash = th code, iv_role = role_name role,
             iv_may_create_bots = may_create_bots perms,
             iv_may_edit_bot_profiles = may_edit_bot_profiles perms, iv_display_name = name,
             iv_created_by = admin, iv_created_at = now, iv_expires_at = expires_at,
             iv_used_at = None, iv_used_by = None, iv_withdrawn_at = None\<rparr>]\<rparr>)))"

definition invitation_permissions :: "invitation_row \<Rightarrow> permissions" where
  "invitation_permissions r =
     \<lparr>may_create_bots = iv_may_create_bots r, may_edit_bot_profiles = iv_may_edit_bot_profiles r\<rparr>"

definition outstanding :: "int \<Rightarrow> invitation_row \<Rightarrow> bool" where
  "outstanding now r \<longleftrightarrow> iv_used_at r = None \<and> iv_withdrawn_at r = None \<and> iv_expires_at r > now"

definition admin_list_invitations :: "int \<Rightarrow> accounts_db \<Rightarrow> invitation_summary list" where
  "admin_list_invitations now db =
     map (\<lambda>r. \<lparr>is_id = iv_id r, is_role = role_from (iv_role r),
        is_permissions = invitation_permissions r, is_display_name = iv_display_name r,
        is_created_at = iv_created_at r, is_expires_at = iv_expires_at r\<rparr>)
       (sort_key iv_id (filter (outstanding now) (db_invitations db)))"

definition admin_withdraw_invitation :: "int \<Rightarrow> int \<Rightarrow> accounts_db \<Rightarrow> failure + accounts_db" where
  "admin_withdraw_invitation now rowid db =
     (let wanted = (\<lambda>r. iv_id r = rowid \<and> iv_used_at r = None \<and> iv_withdrawn_at r = None) in
      if matched wanted (db_invitations db) = 0 then Inl not_found
      else Inr (db\<lparr>db_invitations :=
        update_where wanted (\<lambda>r. r\<lparr>iv_withdrawn_at := Some now\<rparr>) (db_invitations db)\<rparr>))"

definition invitation_refused :: failure where
  "invitation_refused = forbidden (lit ''That invitation is not valid'')"

definition code_outstanding :: "nat list \<Rightarrow> int \<Rightarrow> invitation_row \<Rightarrow> bool" where
  "code_outstanding code_hash now r \<longleftrightarrow> iv_code_hash r = code_hash \<and> outstanding now r"

text \<open>The write transaction: the account and the consumed code commit together or not at all.\<close>

definition accept_commit ::
  "utext \<Rightarrow> int \<Rightarrow> nat list \<Rightarrow> utext \<Rightarrow> utext \<Rightarrow> role \<Rightarrow> permissions \<Rightarrow> accounts_db
   \<Rightarrow> failure + int \<times> accounts_db" where
  "accept_commit hash now code_hash username display_name role perms db =
     and_then (insert_user now username display_name role perms hash db) (\<lambda>(user, db1).
       if matched (code_outstanding code_hash now) (db_invitations db1) \<noteq> 1
       then Inl invitation_refused
       else Inr (user, db1\<lparr>db_invitations :=
         update_where (code_outstanding code_hash now)
           (\<lambda>r. r\<lparr>iv_used_at := Some now, iv_used_by := Some user\<rparr>) (db_invitations db1)\<rparr>))"

definition accept_invitation_at ::
  "token_hash \<Rightarrow> utext \<Rightarrow> int \<Rightarrow> utext \<Rightarrow> utext \<Rightarrow> utext \<Rightarrow> utext \<Rightarrow> accounts_db \<Rightarrow> accounts_db
   \<Rightarrow> failure + int \<times> accounts_db" where
  "accept_invitation_at th hash now code username display_name password db_read db =
     and_then (normalise_username username) (\<lambda>u.
     and_then (normalise_display_name display_name) (\<lambda>d.
     and_then (check_password password) (\<lambda>_.
       let code_hash = th (trim code) in
       and_then (ok_or invitation_refused
           (find (code_outstanding code_hash now) (db_invitations db_read))) (\<lambda>invitation.
         accept_commit hash now code_hash u d (role_from (iv_role invitation))
           (invitation_permissions invitation) db))))"

end
