(* ===== verification/AccountSafety.thy ===== *)
theory AccountSafety
  imports Accounts
begin

text \<open>
  What the account tables promise: the operations of \<open>Accounts\<close> as the steps of runs in
  any interleaving, the invariant of the tables, and the properties of sessions,
  invitations and roles along every run.
\<close>

section \<open>Runs\<close>

text \<open>
  One step is one operation of \<open>accounts.rs\<close>. An operation with an early read carries the
  tables it read, which may be older than the tables it writes.
\<close>

datatype account_op =
    Bootstrap utext int utext utext utext
  | SetTimeZone int int utext
  | UpdateUser int int int account_changes
  | ResetPassword utext int int int utext accounts_db
  | Acknowledge int int
  | ChangePassword utext int int int utext utext accounts_db
  | CreateSession utext int int "utext option"
  | FindSession int utext
  | RevokeSession int int int
  | CreateInvitation utext int int role permissions "utext option" "nat option"
  | WithdrawInvitation int int
  | AcceptInvitation utext int utext utext utext utext accounts_db

definition tables_of :: "accounts_db \<Rightarrow> failure + 'a \<times> accounts_db \<Rightarrow> accounts_db" where
  "tables_of db r = (case r of Inl _ \<Rightarrow> db | Inr (_, db') \<Rightarrow> db')"

definition tables_after :: "accounts_db \<Rightarrow> failure + accounts_db \<Rightarrow> accounts_db" where
  "tables_after db r = (case r of Inl _ \<Rightarrow> db | Inr db' \<Rightarrow> db')"

fun account_step :: "argon \<Rightarrow> utext \<Rightarrow> token_hash \<Rightarrow> account_op \<Rightarrow> accounts_db \<Rightarrow> accounts_db" where
  "account_step argon dummy th (Bootstrap hash now u d pw) db =
     tables_of db (bootstrap_admin hash now u d pw db)"
| "account_step argon dummy th (SetTimeZone now user tz) db = tables_of db (set_time_zone now user tz db)"
| "account_step argon dummy th (UpdateUser now admin target ch) db =
     tables_of db (admin_update_user now admin target ch db)"
| "account_step argon dummy th (ResetPassword hash now admin target pw seen) db =
     tables_after db (admin_reset_password_at hash now admin target pw seen db)"
| "account_step argon dummy th (Acknowledge user session) db = acknowledge_password_reset user session db"
| "account_step argon dummy th (ChangePassword hash now user session cur new seen) db =
     tables_after db (change_own_password_at argon dummy hash now user session cur new seen db)"
| "account_step argon dummy th (CreateSession token now user agent) db =
     tables_of db (create_session th token now user agent db)"
| "account_step argon dummy th (FindSession now token) db = snd (find_session th now token db)"
| "account_step argon dummy th (RevokeSession now user session) db =
     tables_after db (revoke_session now user session db)"
| "account_step argon dummy th (CreateInvitation code now admin role perms name hours) db =
     tables_of db (admin_create_invitation th code now admin role perms name hours db)"
| "account_step argon dummy th (WithdrawInvitation now invitation) db =
     tables_after db (admin_withdraw_invitation now invitation db)"
| "account_step argon dummy th (AcceptInvitation hash now code u d pw seen) db =
     tables_of db (accept_invitation_at th hash now code u d pw seen db)"

fun account_run :: "argon \<Rightarrow> utext \<Rightarrow> token_hash \<Rightarrow> account_op list \<Rightarrow> accounts_db \<Rightarrow> accounts_db" where
  "account_run argon dummy th [] db = db"
| "account_run argon dummy th (opr # ops) db =
     account_run argon dummy th ops (account_step argon dummy th opr db)"

section \<open>The history of each table\<close>

definition user_kept :: "user_row \<Rightarrow> user_row \<Rightarrow> bool" where
  "user_kept r r' \<longleftrightarrow> ur_id r' = ur_id r \<and> ur_username r' = ur_username r \<and> ur_role r' = ur_role r
     \<and> ur_created_at r' = ur_created_at r"

definition session_kept :: "session_row \<Rightarrow> session_row \<Rightarrow> bool" where
  "session_kept s s' \<longleftrightarrow> se_id s' = se_id s \<and> se_user_id s' = se_user_id s
     \<and> se_token_hash s' = se_token_hash s \<and> (se_revoked_at s \<noteq> None \<longrightarrow> se_revoked_at s' \<noteq> None)"

definition invitation_kept :: "invitation_row \<Rightarrow> invitation_row \<Rightarrow> bool" where
  "invitation_kept r r' \<longleftrightarrow> iv_code_hash r' = iv_code_hash r \<and> iv_id r' = iv_id r
     \<and> iv_role r' = iv_role r \<and> invitation_permissions r' = invitation_permissions r
     \<and> iv_expires_at r' = iv_expires_at r \<and> (iv_used_at r \<noteq> None \<longrightarrow> iv_used_at r' \<noteq> None)
     \<and> (iv_withdrawn_at r \<noteq> None \<longrightarrow> iv_withdrawn_at r' \<noteq> None)"

interpretation users: table_history user_kept ur_id
  by unfold_locales (auto simp: user_kept_def)

interpretation sessions: table_history session_kept se_id
  by unfold_locales (auto simp: session_kept_def)

interpretation invitations: table_history invitation_kept iv_code_hash
  by unfold_locales (auto simp: invitation_kept_def)

definition db_grows :: "accounts_db \<Rightarrow> accounts_db \<Rightarrow> bool" where
  "db_grows db db' \<longleftrightarrow> grows user_kept ur_id (db_users db) (db_users db')
     \<and> grows session_kept se_id (db_sessions db) (db_sessions db')
     \<and> grows invitation_kept iv_code_hash (db_invitations db) (db_invitations db')"

lemma db_grows_refl: "db_grows db db"
  by (simp add: db_grows_def users.grows_refl sessions.grows_refl invitations.grows_refl)

lemma db_grows_trans: "db_grows a b \<Longrightarrow> db_grows b c \<Longrightarrow> db_grows a c"
  unfolding db_grows_def
  using users.grows_trans sessions.grows_trans invitations.grows_trans by blast

lemma db_grows_users:
  "grows user_kept ur_id (db_users db) us \<Longrightarrow> db_grows db (db\<lparr>db_users := us\<rparr>)"
  by (simp add: db_grows_def sessions.grows_refl invitations.grows_refl)

lemma db_grows_sessions:
  "grows session_kept se_id (db_sessions db) ss \<Longrightarrow> db_grows db (db\<lparr>db_sessions := ss\<rparr>)"
  by (simp add: db_grows_def users.grows_refl invitations.grows_refl)

lemma db_grows_invitations:
  "grows invitation_kept iv_code_hash (db_invitations db) is \<Longrightarrow> db_grows db (db\<lparr>db_invitations := is\<rparr>)"
  by (simp add: db_grows_def users.grows_refl sessions.grows_refl)

lemma db_grows_update_user: "(\<And>r. user_kept r (f r)) \<Longrightarrow> db_grows db (update_user user f db)"
  unfolding update_user_def by (intro db_grows_users users.grows_update) simp

lemma next_rowid_new: "next_rowid (map k rows) \<notin> k ` set rows"
  using next_rowid_fresh [of "map k rows"] by simp

lemma next_rowid_neq [simp]: "r \<in> set rows \<Longrightarrow> next_rowid (map k rows) \<noteq> k r"
  using next_rowid_new [of k rows] by force

lemma insert_user_Inr:
  "insert_user now u d role perms hash db = Inr (new, db') \<longleftrightarrow>
   check_permissions role perms = Inr () \<and> u \<notin> ur_username ` set (db_users db)
   \<and> new = next_rowid (map ur_id (db_users db))
   \<and> db' = db\<lparr>db_users := db_users db @ [new_user_row new now u d role perms hash]\<rparr>"
  by (auto simp: insert_user_def and_then_Inr Let_def simp del: set_map split: if_splits)

lemma new_user_row_id [simp]: "ur_id (new_user_row new now u d role perms hash) = new"
  by (simp add: new_user_row_def)

lemma db_grows_insert_user:
  "insert_user now u d role perms hash db = Inr (new, db') \<Longrightarrow> db_grows db db'"
  unfolding insert_user_Inr by (auto intro!: db_grows_users users.grows_append simp: next_rowid_new)

lemma db_grows_revoke_all: "db_grows db (revoke_all_sessions now user except db)"
  unfolding revoke_all_sessions_def
  by (intro db_grows_sessions sessions.grows_update) (simp add: session_kept_def)

lemma db_grows_when_some:
  "db_grows db s \<Longrightarrow> (\<And>a s. db_grows s (f a s)) \<Longrightarrow> db_grows db (when_some x f s)"
  by (cases x) (auto simp: when_some_def intro: db_grows_trans)

lemma db_grows_writes:
  "db_grows db (write_permissions now target perms db)"
  "db_grows db (write_oversight now target b db)"
  "db_grows db (write_display_name now target name db)"
  "db_grows db (write_limits now target l db)"
  unfolding write_permissions_def write_oversight_def write_display_name_def write_limits_def
  by (rule db_grows_update_user, simp add: user_kept_def)+

lemma db_grows_write_disabled: "db_grows db (write_disabled now target b db)"
proof -
  have "db_grows db (update_user target (\<lambda>r. r\<lparr>ur_disabled := b, ur_updated_at := now\<rparr>) db)"
    by (rule db_grows_update_user) (simp add: user_kept_def)
  then show ?thesis
    unfolding write_disabled_def Let_def using db_grows_trans db_grows_revoke_all by auto
qed

lemmas db_grows_intros = db_grows_refl db_grows_writes db_grows_write_disabled db_grows_when_some

lemma check_opt_Inr:
  "check_opt f x = Inr y \<longleftrightarrow>
   x = None \<and> y = None \<or> (\<exists>a b. x = Some a \<and> f a = Inr b \<and> y = Some b)"
  by (cases x) (auto split: sum.splits)

text \<open>What a successful change of an account wrote.\<close>

definition written_changes :: "int \<Rightarrow> int \<Rightarrow> account_changes \<Rightarrow> utext option \<Rightarrow> accounts_db \<Rightarrow> accounts_db" where
  "written_changes now target changes name db =
     when_some (ch_limits changes) (write_limits now target)
       (when_some (ch_disabled changes) (write_disabled now target)
         (when_some name (write_display_name now target)
           (when_some (ch_oversight changes) (write_oversight now target)
             (when_some (ch_permissions changes) (write_permissions now target) db))))"

lemma admin_update_user_Inr:
  "admin_update_user now admin target changes db = Inr (a, db') \<Longrightarrow>
   \<exists>name row. db' = written_changes now target changes name db \<and> find_user db target = Some row
     \<and> check_opt normalise_display_name (ch_display_name changes) = Inr name
     \<and> \<not> (target = admin \<and> ch_disabled changes = Some True)
     \<and> \<not> (role_from (ur_role row) = Admin \<and> ch_oversight changes = Some True)
     \<and> (\<forall>perms. ch_permissions changes = Some perms \<longrightarrow>
          check_permissions (role_from (ur_role row)) perms = Inr ())"
  unfolding admin_update_user_def written_changes_def Let_def
  by (simp add: and_then_Inr split: if_splits) (auto simp: check_opt_Inr)

lemma db_grows_written: "db_grows db (written_changes now target changes name db)"
  unfolding written_changes_def by (intro db_grows_intros)

lemma reset_Inr:
  "admin_reset_password_at hash now admin target pw seen db = Inr db' \<Longrightarrow>
   \<exists>role f. reset_check db admin target = Inr role
     \<and> db' = revoke_all_sessions now target None (update_user target f db)
     \<and> f = (\<lambda>r. r\<lparr>ur_password_hash := hash, ur_updated_at := now,
          ur_password_reset_by_admin_at := (case if role = Member then Some now else None of
            None \<Rightarrow> ur_password_reset_by_admin_at r | Some t \<Rightarrow> Some t)\<rparr>)"
  by (auto simp: admin_reset_password_at_def and_then_Inr Let_def)

lemma find_session_tables:
  "snd (find_session th now token db) = db \<or>
   (\<exists>s. snd (find_session th now token db) = db\<lparr>db_sessions := update_where (\<lambda>r. se_id r = s)
     (\<lambda>r. r\<lparr>se_last_seen_at := now, se_expires_at := now + SESSION_IDLE_MS\<rparr>) (db_sessions db)\<rparr>)"
  by (auto simp: find_session_def split: option.splits)

lemma accept_commit_Inr:
  "accept_commit hash now ch u d role perms db = Inr (user, db') \<Longrightarrow>
   \<exists>db1. insert_user now u d role perms hash db = Inr (user, db1)
     \<and> matched (code_outstanding ch now) (db_invitations db1) = 1
     \<and> db' = db1\<lparr>db_invitations := update_where (code_outstanding ch now)
         (\<lambda>r. r\<lparr>iv_used_at := Some now, iv_used_by := Some user\<rparr>) (db_invitations db1)\<rparr>"
  by (auto simp: accept_commit_def and_then_Inr split: if_splits)

lemma accept_Inr:
  "accept_invitation_at th hash now code username display_name pw seen db = Inr r \<Longrightarrow>
   \<exists>u d role perms. accept_commit hash now (th (trim code)) u d role perms db = Inr r
     \<and> normalise_username username = Inr u \<and> normalise_display_name display_name = Inr d"
  by (auto simp: accept_invitation_at_def and_then_Inr Let_def)

lemma db_grows_step: "db_grows db (account_step argon dummy th opr db)"
proof (cases opr)
  case (Bootstrap hash now u d pw)
  then show ?thesis
    by (auto simp: tables_of_def bootstrap_admin_def and_then_Inr db_grows_refl
        dest: db_grows_insert_user split: sum.splits if_splits)
next
  case (SetTimeZone now user tz)
  have "db_grows db (update_user user (\<lambda>r. r\<lparr>ur_time_zone := tz, ur_updated_at := now\<rparr>) db)"
    by (rule db_grows_update_user) (simp add: user_kept_def)
  then show ?thesis using SetTimeZone
    by (auto simp: tables_of_def set_time_zone_def Let_def and_then_Inr db_grows_refl split: sum.splits)
next
  case (UpdateUser now admin target ch)
  then show ?thesis
    by (auto simp: tables_of_def db_grows_refl split: sum.splits
        dest!: admin_update_user_Inr intro: db_grows_written)
next
  case (ResetPassword hash now admin target pw seen)
  have "db_grows db (revoke_all_sessions now target None (update_user target (\<lambda>r.
      r\<lparr>ur_password_hash := hash, ur_updated_at := now, ur_password_reset_by_admin_at := g r\<rparr>) db))" for g
    by (rule db_grows_trans [OF db_grows_update_user db_grows_revoke_all]) (simp add: user_kept_def)
  then show ?thesis using ResetPassword
    by (auto simp: tables_after_def db_grows_refl split: sum.splits dest!: reset_Inr)
next
  case (Acknowledge user session)
  then show ?thesis
    by (auto simp: acknowledge_password_reset_def db_grows_refl user_kept_def intro: db_grows_update_user)
next
  case (ChangePassword hash now user session cur new seen)
  have "db_grows db (revoke_all_sessions now user (Some session)
      (update_user user (\<lambda>r. r\<lparr>ur_password_hash := hash, ur_updated_at := now\<rparr>) db))"
    by (rule db_grows_trans [OF db_grows_update_user db_grows_revoke_all]) (simp add: user_kept_def)
  then show ?thesis using ChangePassword
    by (auto simp: tables_after_def change_own_password_at_def and_then_Inr Let_def db_grows_refl
        split: sum.splits if_splits)
next
  case (CreateSession token now user agent)
  then show ?thesis using CreateSession
    by (auto simp: tables_of_def create_session_def db_grows_refl split: sum.splits if_splits
        intro!: db_grows_sessions sessions.grows_append simp: next_rowid_new)
next
  case (FindSession now token)
  have "db_grows db (db\<lparr>db_sessions := update_where (\<lambda>r. se_id r = s)
     (\<lambda>r. r\<lparr>se_last_seen_at := now, se_expires_at := now + SESSION_IDLE_MS\<rparr>) (db_sessions db)\<rparr>)" for s
    by (intro db_grows_sessions sessions.grows_update) (simp add: session_kept_def)
  then show ?thesis using FindSession find_session_tables [of th now token db]
    by (auto simp: db_grows_refl)
next
  case (RevokeSession now user session)
  then show ?thesis
    by (auto simp: tables_after_def revoke_session_def Let_def db_grows_refl session_kept_def
        split: sum.splits if_splits intro!: db_grows_sessions sessions.grows_update)
next
  case (CreateInvitation code now admin role perms name hours)
  then show ?thesis
    by (auto simp: tables_of_def admin_create_invitation_def and_then_Inr Let_def db_grows_refl
        split: sum.splits if_splits intro!: db_grows_invitations invitations.grows_append)
next
  case (WithdrawInvitation now invitation)
  then show ?thesis
    by (auto simp: tables_after_def admin_withdraw_invitation_def Let_def db_grows_refl
        invitation_kept_def invitation_permissions_def
        split: sum.splits if_splits intro!: db_grows_invitations invitations.grows_update)
next
  case (AcceptInvitation hash now code u d pw seen)
  have "db_grows db1 (db1\<lparr>db_invitations := update_where (code_outstanding ch now)
         (\<lambda>r. r\<lparr>iv_used_at := Some now, iv_used_by := Some user\<rparr>) (db_invitations db1)\<rparr>)" for db1 ch user
    by (intro db_grows_invitations invitations.grows_update)
      (simp add: invitation_kept_def invitation_permissions_def)
  then show ?thesis using AcceptInvitation
    by (auto simp: tables_of_def db_grows_refl split: sum.splits dest!: accept_Inr accept_commit_Inr
        intro: db_grows_trans [OF db_grows_insert_user])
qed

lemma db_grows_run: "db_grows db (account_run argon dummy th ops db)"
  by (induction ops arbitrary: db) (auto intro: db_grows_refl db_grows_trans [OF db_grows_step])

section \<open>The invariant of the tables\<close>

definition user_ok :: "user_row \<Rightarrow> bool" where
  "user_ok r \<longleftrightarrow> valid_username (ur_username r)
     \<and> normalise_display_name (ur_display_name r) = Inr (ur_display_name r)
     \<and> ur_role r = role_name (role_from (ur_role r))
     \<and> (is_admin_row r \<longrightarrow> ur_may_create_bots r \<and> ur_may_edit_bot_profiles r \<and> \<not> ur_oversight r)
     \<and> (\<forall>v. ur_daily_turns r = Some v \<longrightarrow> 0 \<le> v \<and> v < 2 ^ 32)
     \<and> (\<forall>v. ur_weekly_tokens r = Some v \<longrightarrow> 0 \<le> v \<and> v < 2 ^ 63)"

definition invitation_ok :: "int set \<Rightarrow> invitation_row \<Rightarrow> bool" where
  "invitation_ok ids r \<longleftrightarrow> iv_created_by r \<in> ids
     \<and> check_permissions (role_from (iv_role r)) (invitation_permissions r) = Inr ()
     \<and> (iv_used_at r \<noteq> None \<longleftrightarrow> iv_used_by r \<noteq> None)
     \<and> (\<forall>u. iv_used_by r = Some u \<longrightarrow> u \<in> ids)"

definition accounts_inv :: "accounts_db \<Rightarrow> bool" where
  "accounts_inv db \<longleftrightarrow>
     distinct (map ur_id (db_users db)) \<and> distinct (map ur_username (db_users db))
     \<and> (\<forall>r \<in> set (db_users db). user_ok r)
     \<and> distinct (map se_id (db_sessions db)) \<and> distinct (map se_token_hash (db_sessions db))
     \<and> se_user_id ` set (db_sessions db) \<subseteq> ur_id ` set (db_users db)
     \<and> distinct (map iv_id (db_invitations db)) \<and> distinct (map iv_code_hash (db_invitations db))
     \<and> (\<forall>r \<in> set (db_invitations db). invitation_ok (ur_id ` set (db_users db)) r)"

definition empty_accounts :: accounts_db where
  "empty_accounts = \<lparr>db_users = [], db_sessions = [], db_invitations = []\<rparr>"

lemma accounts_inv_empty: "accounts_inv empty_accounts"
  by (simp add: accounts_inv_def empty_accounts_def)

text \<open>The limits of a request are a \<open>u32\<close> and a \<open>u64\<close>.\<close>

definition limits_fit :: "limits \<Rightarrow> bool" where
  "limits_fit l \<longleftrightarrow> (\<forall>v. daily_turns l = Some v \<longrightarrow> v < 2 ^ 32) \<and> (\<forall>v. weekly_tokens l = Some v \<longrightarrow> v < 2 ^ 64)"

fun op_fits :: "account_op \<Rightarrow> bool" where
  "op_fits (UpdateUser now admin target ch) = (\<forall>l. ch_limits ch = Some l \<longrightarrow> limits_fit l)"
| "op_fits _ = True"

lemma find_key_iff:
  "distinct (map key rows) \<Longrightarrow> find (\<lambda>r. key r = k) rows = Some r \<longleftrightarrow> r \<in> set rows \<and> key r = k"
proof -
  assume d: "distinct (map key rows)"
  show ?thesis
    using find_Some_in [of "\<lambda>r. key r = k" rows r] find_distinct_key [OF d, of r] by auto
qed

lemma find_user_iff:
  "accounts_inv db \<Longrightarrow> find_user db i = Some r \<longleftrightarrow> r \<in> set (db_users db) \<and> ur_id r = i"
  unfolding find_user_def accounts_inv_def by (simp add: find_key_iff)

lemma find_username_iff:
  "accounts_inv db \<Longrightarrow> find_username db u = Some r \<longleftrightarrow> r \<in> set (db_users db) \<and> ur_username r = u"
  unfolding find_username_def accounts_inv_def by (simp add: find_key_iff)

lemma find_user_None: "find_user db i = None \<longleftrightarrow> i \<notin> ur_id ` set (db_users db)"
  by (auto simp: find_user_def find_None_iff)

lemma role_from_name [simp]: "role_from (role_name role) = role"
  by (cases role) (simp_all add: role_from_def lit_def)

lemma is_admin_new_row [simp]:
  "is_admin_row (new_user_row new now u d role perms hash) \<longleftrightarrow> role = Admin"
  by (cases role) (simp_all add: is_admin_row_def new_user_row_def)

lemma user_ok_admin: "user_ok r \<Longrightarrow> is_admin_row r \<longleftrightarrow> role_from (ur_role r) = Admin"
  by (auto simp: user_ok_def is_admin_row_def role_from_def)

lemma inv_update_user:
  assumes "accounts_inv db" and "\<And>r. user_kept r (f r)"
    and "\<And>r. r \<in> set (db_users db) \<Longrightarrow> ur_id r = user \<Longrightarrow> user_ok r \<Longrightarrow> user_ok (f r)"
  shows "accounts_inv (update_user user f db)"
proof -
  have keys: "map ur_id (db_users (update_user user f db)) = map ur_id (db_users db)"
    "map ur_username (db_users (update_user user f db)) = map ur_username (db_users db)"
    using assms(2) by (auto simp: update_user_def user_kept_def intro!: map_update_where)
  have ids: "ur_id ` set (db_users (update_user user f db)) = ur_id ` set (db_users db)"
    using arg_cong [OF keys(1), of set] by simp
  have "\<forall>r \<in> set (db_users (update_user user f db)). user_ok r"
    using assms(1,3) by (auto simp: accounts_inv_def update_user_def set_update_where)
  then show ?thesis
    using assms(1) unfolding accounts_inv_def keys ids by (simp add: update_user_def)
qed

lemma inv_update_sessions:
  assumes "accounts_inv db"
    and "\<And>s. se_id (f s) = se_id s \<and> se_user_id (f s) = se_user_id s \<and> se_token_hash (f s) = se_token_hash s"
  shows "accounts_inv (db\<lparr>db_sessions := update_where p f (db_sessions db)\<rparr>)"
proof -
  have keys: "map se_id (update_where p f (db_sessions db)) = map se_id (db_sessions db)"
    "map se_token_hash (update_where p f (db_sessions db)) = map se_token_hash (db_sessions db)"
    "map se_user_id (update_where p f (db_sessions db)) = map se_user_id (db_sessions db)"
    using assms(2) by (auto intro!: map_update_where)
  have "se_user_id ` set (update_where p f (db_sessions db)) = se_user_id ` set (db_sessions db)"
    using arg_cong [OF keys(3), of set] by simp
  then show ?thesis using assms(1) unfolding accounts_inv_def by (simp add: keys)
qed

lemma inv_update_invitations:
  assumes "accounts_inv db" and "\<And>r. iv_id (f r) = iv_id r \<and> iv_code_hash (f r) = iv_code_hash r"
    and "\<And>r. invitation_ok (ur_id ` set (db_users db)) r \<Longrightarrow> invitation_ok (ur_id ` set (db_users db)) (f r)"
  shows "accounts_inv (db\<lparr>db_invitations := update_where p f (db_invitations db)\<rparr>)"
proof -
  have keys: "map iv_id (update_where p f (db_invitations db)) = map iv_id (db_invitations db)"
    "map iv_code_hash (update_where p f (db_invitations db)) = map iv_code_hash (db_invitations db)"
    using assms(2) by (auto intro!: map_update_where)
  show ?thesis
    using assms(1,3) unfolding accounts_inv_def by (auto simp: keys set_update_where)
qed

lemma inv_revoke_all: "accounts_inv db \<Longrightarrow> accounts_inv (revoke_all_sessions now user except db)"
  unfolding revoke_all_sessions_def by (erule inv_update_sessions) simp

lemma normalised_display_name:
  assumes "normalise_display_name n = Inr d" shows "normalise_display_name d = Inr d"
proof -
  have "d = trim n" using assms by (auto simp: normalise_display_name_def Let_def split: if_splits)
  then show ?thesis using assms by (auto simp: normalise_display_name_def Let_def trim_trim split: if_splits)
qed

lemma inv_insert_user:
  assumes inv: "accounts_inv db" and ins: "insert_user now u d role perms hash db = Inr (new, db')"
    and ok: "valid_username u" "normalise_display_name d = Inr d"
  shows "accounts_inv db'"
proof -
  have row: "user_ok (new_user_row new now u d role perms hash)"
    using ins ok unfolding user_ok_def is_admin_new_row
    by (auto simp: insert_user_Inr new_user_row_def check_permissions_def default_permissions_def
        split: if_splits)
  have mono: "invitation_ok ids r \<Longrightarrow> ids \<subseteq> ids' \<Longrightarrow> invitation_ok ids' r" for ids ids' r
    by (auto simp: invitation_ok_def)
  have name: "ur_username (new_user_row new' now u d role perms hash) = u" for new'
    by (simp add: new_user_row_def)
  show ?thesis
    using inv ins row unfolding accounts_inv_def insert_user_Inr
    by (auto simp: name image_iff intro: mono)
qed

text \<open>The five writes of an admin's change, each on a row of a known role.\<close>

definition target_role :: "int \<Rightarrow> role \<Rightarrow> accounts_db \<Rightarrow> bool" where
  "target_role target role db \<longleftrightarrow>
     (\<forall>r \<in> set (db_users db). ur_id r = target \<longrightarrow> role_from (ur_role r) = role)"

definition inv_role :: "int \<Rightarrow> role \<Rightarrow> accounts_db \<Rightarrow> bool" where
  "inv_role target role db \<longleftrightarrow> accounts_inv db \<and> target_role target role db"

lemma inv_role_update:
  assumes "inv_role target role db" and "\<And>r. user_kept r (f r)"
    and "\<And>r. role_from (ur_role r) = role \<Longrightarrow> user_ok r \<Longrightarrow> user_ok (f r)"
  shows "inv_role target role (update_user target f db)"
proof -
  have "accounts_inv (update_user target f db)"
    using assms by (intro inv_update_user) (auto simp: inv_role_def target_role_def)
  moreover have "target_role target role (update_user target f db)"
    unfolding target_role_def
  proof (intro ballI impI)
    fix r assume "r \<in> set (db_users (update_user target f db))" "ur_id r = target"
    then obtain q where "q \<in> set (db_users db)" "r = (if ur_id q = target then f q else q)"
      by (auto simp: update_user_def set_update_where)
    then show "role_from (ur_role r) = role"
      using assms(1,2) \<open>ur_id r = target\<close>
      by (auto simp: inv_role_def target_role_def user_kept_def split: if_splits)
  qed
  ultimately show ?thesis by (simp add: inv_role_def)
qed

lemma inv_role_when_some:
  "inv_role target role db \<Longrightarrow> (\<And>a s. x = Some a \<Longrightarrow> inv_role target role s \<Longrightarrow> inv_role target role (f a s)) \<Longrightarrow>
   inv_role target role (when_some x f db)"
  by (cases x) (simp_all add: when_some_def)

lemma inv_write_permissions:
  assumes "inv_role target role db" and "check_permissions role perms = Inr ()"
  shows "inv_role target role (write_permissions now target perms db)"
  unfolding write_permissions_def
proof (rule inv_role_update [OF assms(1)])
  fix r assume "role_from (ur_role r) = role" "user_ok r"
  then show "user_ok (r\<lparr>ur_may_create_bots := may_create_bots perms,
      ur_may_edit_bot_profiles := may_edit_bot_profiles perms, ur_updated_at := now\<rparr>)"
    using assms(2) user_ok_admin [of r]
    by (auto simp: user_ok_def is_admin_row_def check_permissions_def default_permissions_def split: if_splits)
qed (simp add: user_kept_def)

lemma inv_write_oversight:
  assumes "inv_role target role db" and "\<not> (role = Admin \<and> b)"
  shows "inv_role target role (write_oversight now target b db)"
  unfolding write_oversight_def
proof (rule inv_role_update [OF assms(1)])
  fix r assume "role_from (ur_role r) = role" "user_ok r"
  then show "user_ok (r\<lparr>ur_oversight_changed_at := if ur_oversight r \<noteq> b then Some now
      else ur_oversight_changed_at r, ur_oversight := b, ur_updated_at := now\<rparr>)"
    using assms(2) user_ok_admin [of r] by (auto simp: user_ok_def is_admin_row_def)
qed (simp add: user_kept_def)

lemma inv_write_display_name:
  assumes "inv_role target role db" and "normalise_display_name name = Inr name"
  shows "inv_role target role (write_display_name now target name db)"
  unfolding write_display_name_def
  by (rule inv_role_update [OF assms(1)])
    (use assms(2) in \<open>auto simp: user_ok_def is_admin_row_def user_kept_def\<close>)

lemma inv_write_limits:
  assumes "inv_role target role db" and "limits_fit l"
  shows "inv_role target role (write_limits now target l db)"
  unfolding write_limits_def
  by (rule inv_role_update [OF assms(1)])
    (use assms(2) in \<open>auto simp: user_ok_def is_admin_row_def user_kept_def limits_fit_def min_def\<close>)

lemma inv_role_revoke_all:
  "inv_role target role db \<Longrightarrow> inv_role target role (revoke_all_sessions now user except db)"
  using inv_revoke_all by (auto simp: inv_role_def target_role_def revoke_all_sessions_def)

lemma inv_write_disabled:
  assumes "inv_role target role db"
  shows "inv_role target role (write_disabled now target b db)"
proof -
  have "inv_role target role (update_user target (\<lambda>r. r\<lparr>ur_disabled := b, ur_updated_at := now\<rparr>) db)"
    by (rule inv_role_update [OF assms]) (auto simp: user_ok_def is_admin_row_def user_kept_def)
  then show ?thesis unfolding write_disabled_def Let_def by (cases b) (auto intro: inv_role_revoke_all)
qed

lemma inv_admin_update:
  assumes inv: "accounts_inv db" and ok: "admin_update_user now admin target ch db = Inr (a, db')"
    and fits: "\<forall>l. ch_limits ch = Some l \<longrightarrow> limits_fit l"
  shows "accounts_inv db'"
proof -
  obtain name row where w: "db' = written_changes now target ch name db"
    and row: "find_user db target = Some row"
    and name: "check_opt normalise_display_name (ch_display_name ch) = Inr name"
    and over: "\<not> (role_from (ur_role row) = Admin \<and> ch_oversight ch = Some True)"
    and perms: "\<forall>perms. ch_permissions ch = Some perms \<longrightarrow>
      check_permissions (role_from (ur_role row)) perms = Inr ()"
    using admin_update_user_Inr [OF ok] by blast
  let ?role = "role_from (ur_role row)"
  have start: "inv_role target ?role db"
    using inv row unfolding inv_role_def target_role_def
    by (metis find_user_iff option.inject)
  have "inv_role target ?role (written_changes now target ch name db)"
    unfolding written_changes_def
    using name over perms fits normalised_display_name
    by (intro inv_role_when_some start inv_write_limits inv_write_disabled inv_write_display_name
        inv_write_oversight inv_write_permissions) (auto simp: check_opt_Inr)
  then show ?thesis using w by (simp add: inv_role_def)
qed

lemma inv_create_session:
  assumes "accounts_inv db" and "create_session th token now user agent db = Inr (tok, db')"
  shows "accounts_inv db'"
proof -
  have user: "user \<in> ur_id ` set (db_users db)"
    using assms(2) find_user_None [of db user] by (auto simp: create_session_def split: if_splits)
  show ?thesis
    using assms user unfolding accounts_inv_def
    by (auto simp: create_session_def image_subset_iff simp del: image_iff split: if_splits)
qed

lemma inv_create_invitation:
  assumes "accounts_inv db"
    and "admin_create_invitation th code now admin role perms name hours db = Inr (r, db')"
  shows "accounts_inv db'"
proof -
  have admin: "admin \<in> ur_id ` set (db_users db)"
    using assms(2) find_user_None [of db admin]
    by (auto simp: admin_create_invitation_def and_then_Inr Let_def split: if_splits)
  have "check_permissions role perms = Inr ()"
    using assms(2) by (auto simp: admin_create_invitation_def and_then_Inr)
  then have perms: "check_permissions role \<lparr>may_create_bots = may_create_bots perms,
      may_edit_bot_profiles = may_edit_bot_profiles perms\<rparr> = Inr ()"
    by (cases perms) simp
  obtain a where fresh: "th code \<notin> iv_code_hash ` set (db_invitations db)"
    and db': "db' = db\<lparr>db_invitations := db_invitations db @
      [\<lparr>iv_id = next_rowid (map iv_id (db_invitations db)), iv_code_hash = th code,
        iv_role = role_name role, iv_may_create_bots = may_create_bots perms,
        iv_may_edit_bot_profiles = may_edit_bot_profiles perms, iv_display_name = a,
        iv_created_by = admin, iv_created_at = now,
        iv_expires_at = now + invitation_lifetime hours,
        iv_used_at = None, iv_used_by = None, iv_withdrawn_at = None\<rparr>]\<rparr>"
    using assms(2) by (auto simp: admin_create_invitation_def and_then_Inr Let_def split: if_splits)
  show ?thesis
    using assms(1) fresh admin perms unfolding accounts_inv_def db'
    by (simp add: invitation_ok_def invitation_permissions_def next_rowid_new)
qed

lemma inv_accept:
  assumes inv: "accounts_inv db"
    and ok: "accept_invitation_at th hash now code username display_name pw seen db = Inr (user, db')"
  shows "accounts_inv db'"
proof -
  obtain u d role perms db1 where
    names: "normalise_username username = Inr u" "normalise_display_name display_name = Inr d"
    and ins: "insert_user now u d role perms hash db = Inr (user, db1)"
    and db': "db' = db1\<lparr>db_invitations := update_where (code_outstanding (th (trim code)) now)
         (\<lambda>r. r\<lparr>iv_used_at := Some now, iv_used_by := Some user\<rparr>) (db_invitations db1)\<rparr>"
    using accept_Inr [OF ok] accept_commit_Inr by metis
  have u: "valid_username u"
    using names(1) by (auto simp: normalise_username_def Let_def split: if_splits)
  have "accounts_inv db1"
    using inv_insert_user [OF inv ins u normalised_display_name [OF names(2)]] .
  moreover have "user \<in> ur_id ` set (db_users db1)"
    using ins by (auto simp: insert_user_Inr)
  ultimately show ?thesis
    unfolding db' by (intro inv_update_invitations) (auto simp: invitation_ok_def invitation_permissions_def)
qed

lemma accounts_inv_step:
  assumes inv: "accounts_inv db" and fits: "op_fits opr"
  shows "accounts_inv (account_step argon dummy th opr db)"
proof (cases opr)
  case (Bootstrap hash now u d pw)
  then show ?thesis
    using inv by (auto simp: tables_of_def bootstrap_admin_def and_then_Inr normalise_username_def Let_def
        dest: inv_insert_user normalised_display_name split: sum.splits if_splits)
next
  case (SetTimeZone now user tz)
  have "accounts_inv (update_user user (\<lambda>r. r\<lparr>ur_time_zone := tz, ur_updated_at := now\<rparr>) db)"
    using inv by (rule inv_update_user) (auto simp: user_kept_def user_ok_def is_admin_row_def)
  then show ?thesis using SetTimeZone inv
    by (auto simp: tables_of_def set_time_zone_def Let_def and_then_Inr split: sum.splits)
next
  case (UpdateUser now admin target ch)
  then show ?thesis
    using inv fits inv_admin_update by (auto simp: tables_of_def split: sum.splits)
next
  case (ResetPassword hash now admin target pw seen)
  have "accounts_inv (update_user target (\<lambda>r. r\<lparr>ur_password_hash := hash, ur_updated_at := now,
      ur_password_reset_by_admin_at := g r\<rparr>) db)" for g
    using inv by (rule inv_update_user) (auto simp: user_kept_def user_ok_def is_admin_row_def)
  then show ?thesis using ResetPassword inv
    by (auto simp: tables_after_def split: sum.splits dest!: reset_Inr intro: inv_revoke_all)
next
  case (Acknowledge user session)
  have "accounts_inv (update_user user (\<lambda>r. r\<lparr>ur_password_reset_by_admin_at := None\<rparr>) db)"
    using inv by (rule inv_update_user) (auto simp: user_kept_def user_ok_def is_admin_row_def)
  then show ?thesis using Acknowledge inv by (simp add: acknowledge_password_reset_def)
next
  case (ChangePassword hash now user session cur new seen)
  have "accounts_inv (update_user user (\<lambda>r. r\<lparr>ur_password_hash := hash, ur_updated_at := now\<rparr>) db)"
    using inv by (rule inv_update_user) (auto simp: user_kept_def user_ok_def is_admin_row_def)
  then show ?thesis using ChangePassword inv
    by (auto simp: tables_after_def change_own_password_at_def and_then_Inr Let_def
        split: sum.splits if_splits intro: inv_revoke_all)
next
  case (CreateSession token now user agent)
  then show ?thesis using inv inv_create_session by (auto simp: tables_of_def split: sum.splits)
next
  case (FindSession now token)
  then show ?thesis
    using inv find_session_tables [of th now token db] by (auto intro!: inv_update_sessions)
next
  case (RevokeSession now user session)
  then show ?thesis using inv
    by (auto simp: tables_after_def revoke_session_def Let_def split: sum.splits if_splits
        intro!: inv_update_sessions)
next
  case (CreateInvitation code now admin role perms name hours)
  then show ?thesis using inv inv_create_invitation by (auto simp: tables_of_def split: sum.splits)
next
  case (WithdrawInvitation now invitation)
  then show ?thesis using inv
    by (auto simp: tables_after_def admin_withdraw_invitation_def Let_def invitation_ok_def
        invitation_permissions_def split: sum.splits if_splits intro!: inv_update_invitations)
next
  case (AcceptInvitation hash now code u d pw seen)
  then show ?thesis using inv inv_accept by (auto simp: tables_of_def split: sum.splits)
qed

lemma accounts_inv_run:
  "accounts_inv db \<Longrightarrow> list_all op_fits ops \<Longrightarrow> accounts_inv (account_run argon dummy th ops db)"
  by (induction ops arbitrary: db) (simp_all add: accounts_inv_step)

end
