(* ===== verification/AccountPromises.thy ===== *)
theory AccountPromises
  imports AccountSafety
begin

text \<open>
  The properties of accounts, sessions and invitations along every run of
  \<open>AccountSafety\<close>. A concrete household at the end gives the witnesses.
\<close>

section \<open>Sessions\<close>

lemma find_session_Some:
  assumes "fst (find_session th now token db) = Some sn"
  shows "\<exists>s u. s \<in> set (db_sessions db) \<and> u \<in> set (db_users db) \<and> ur_id u = se_user_id s
    \<and> se_token_hash s = th token \<and> session_live now s \<and> \<not> ur_disabled u
    \<and> sn = \<lparr>sn_id = se_id s, sn_account = account_from u\<rparr>"
proof -
  obtain s u where j: "join_session th now token db = Some (s, u)"
    and sn: "sn = \<lparr>sn_id = se_id s, sn_account = account_from u\<rparr>"
    using assms by (auto simp: find_session_def split: option.splits)
  show ?thesis using find_Some_in [OF j [unfolded join_session_def]] sn by auto
qed

lemma find_session_complete:
  assumes inv: "accounts_inv db" and s: "s \<in> set (db_sessions db)" "se_token_hash s = th token"
    "session_live now s" and u: "u \<in> set (db_users db)" "ur_id u = se_user_id s" "\<not> ur_disabled u"
  shows "fst (find_session th now token db) = Some \<lparr>sn_id = se_id s, sn_account = account_from u\<rparr>"
proof -
  have "join_session th now token db \<noteq> None"
    unfolding join_session_def find_None_iff using s u by force
  then obtain s' u' where j: "join_session th now token db = Some (s', u')" by auto
  have *: "s' \<in> set (db_sessions db)" "u' \<in> set (db_users db)" "ur_id u' = se_user_id s'"
    "se_token_hash s' = th token"
    using find_Some_in [OF j [unfolded join_session_def]] by auto
  have "s' = s"
    using inv * s unfolding accounts_inv_def distinct_map inj_on_def by metis
  moreover have "u' = u"
    using inv * u \<open>s' = s\<close> unfolding accounts_inv_def distinct_map inj_on_def by metis
  ultimately show ?thesis using j by (simp add: find_session_def)
qed

text \<open>A revoked session never comes back, whatever runs after.\<close>

lemma revoked_stays_dead:
  assumes "\<forall>s \<in> set (db_sessions db). se_id s = sid \<longrightarrow> se_revoked_at s \<noteq> None"
    and "sid \<in> se_id ` set (db_sessions db)"
    and "fst (find_session th now token (account_run argon dummy th' ops db)) = Some sn"
  shows "sn_id sn \<noteq> sid"
proof
  assume sid: "sn_id sn = sid"
  obtain s where s: "s \<in> set (db_sessions (account_run argon dummy th' ops db))" "se_id s = sid"
    "se_revoked_at s = None"
    using find_session_Some [OF assms(3)] sid by (auto simp: session_live_def)
  have "grows session_kept se_id (db_sessions db) (db_sessions (account_run argon dummy th' ops db))"
    using db_grows_run by (simp add: db_grows_def)
  then obtain r where "r \<in> set (db_sessions db)" "session_kept r s"
    using sessions.grows_old [OF _ s(1)] s(2) assms(2) by blast
  then show False using assms(1) s by (auto simp: session_kept_def)
qed

lemma revoke_all_revokes:
  assumes "s \<in> set (db_sessions (revoke_all_sessions now user except db))"
    and "se_user_id s = user" and "Some (se_id s) \<noteq> except"
  shows "se_revoked_at s \<noteq> None"
proof -
  let ?f = "\<lambda>r. if se_user_id r = user \<and> se_revoked_at r = None \<and> Some (se_id r) \<noteq> except
    then r\<lparr>se_revoked_at := Some now\<rparr> else r"
  have "s \<in> ?f ` set (db_sessions db)"
    using assms(1) by (simp add: revoke_all_sessions_def set_update_where)
  then obtain r where "s = ?f r" by (rule imageE)
  then show ?thesis using assms(2,3) by (cases "se_revoked_at r") (simp_all split: if_splits)
qed

lemma write_limits_sessions [simp]:
  "db_sessions (write_limits now target l db) = db_sessions db"
  by (simp add: write_limits_def update_user_def)

lemma disable_revokes:
  assumes "admin_update_user now admin target ch db = Inr (a, db')" and "ch_disabled ch = Some True"
    and "s \<in> set (db_sessions db')" and "se_user_id s = target"
  shows "se_revoked_at s \<noteq> None"
proof -
  obtain name where "db' = written_changes now target ch name db"
    using admin_update_user_Inr [OF assms(1)] by blast
  then have "\<exists>db1. db_sessions db' = db_sessions (revoke_all_sessions now target None db1)"
    using assms(2) by (cases "ch_limits ch")
      (auto simp: written_changes_def when_some_def write_disabled_def Let_def)
  then obtain db1 where "s \<in> set (db_sessions (revoke_all_sessions now target None db1))"
    using assms(3) by auto
  from revoke_all_revokes [OF this assms(4)] show ?thesis by simp
qed

lemma reset_revokes:
  assumes "admin_reset_password_at hash now admin target pw seen db = Inr db'"
    and "s \<in> set (db_sessions db')" and "se_user_id s = target"
  shows "se_revoked_at s \<noteq> None"
proof -
  obtain db1 where "s \<in> set (db_sessions (revoke_all_sessions now target None db1))"
    using reset_Inr [OF assms(1)] assms(2) by auto
  from revoke_all_revokes [OF this assms(3)] show ?thesis by simp
qed

lemma session_ids_unique:
  "accounts_inv db \<Longrightarrow> s \<in> set (db_sessions db) \<Longrightarrow> r \<in> set (db_sessions db) \<Longrightarrow>
   se_id r = se_id s \<Longrightarrow> r = s"
  unfolding accounts_inv_def distinct_map inj_on_def by blast

lemma code_hashes_unique:
  "accounts_inv db \<Longrightarrow> q \<in> set (db_invitations db) \<Longrightarrow> r \<in> set (db_invitations db) \<Longrightarrow>
   iv_code_hash q = iv_code_hash r \<Longrightarrow> q = r"
  unfolding accounts_inv_def distinct_map by (auto dest: inj_onD)

section \<open>Invitations\<close>

text \<open>The code hashes that were accepted along a run, in order.\<close>

definition accepted_by :: "token_hash \<Rightarrow> account_op \<Rightarrow> accounts_db \<Rightarrow> nat list list" where
  "accepted_by th opr db = (case opr of
     AcceptInvitation hash now code u d pw seen \<Rightarrow>
       (case accept_invitation_at th hash now code u d pw seen db of
          Inl _ \<Rightarrow> [] | Inr _ \<Rightarrow> [th (trim code)])
   | _ \<Rightarrow> [])"

fun accepted_codes :: "argon \<Rightarrow> utext \<Rightarrow> token_hash \<Rightarrow> account_op list \<Rightarrow> accounts_db \<Rightarrow> nat list list" where
  "accepted_codes argon dummy th [] db = []"
| "accepted_codes argon dummy th (opr # ops) db =
     accepted_by th opr db @ accepted_codes argon dummy th ops (account_step argon dummy th opr db)"

definition code_used :: "nat list \<Rightarrow> accounts_db \<Rightarrow> bool" where
  "code_used ch db \<longleftrightarrow> (\<exists>r \<in> set (db_invitations db). iv_code_hash r = ch \<and> iv_used_at r \<noteq> None)"

lemma code_used_step: "code_used ch db \<Longrightarrow> code_used ch (account_step argon dummy th opr db)"
proof -
  assume "code_used ch db"
  then obtain r where r: "r \<in> set (db_invitations db)" "iv_code_hash r = ch" "iv_used_at r \<noteq> None"
    unfolding code_used_def by blast
  have "grows invitation_kept iv_code_hash (db_invitations db)
      (db_invitations (account_step argon dummy th opr db))"
    using db_grows_step by (simp add: db_grows_def)
  then obtain r' where "r' \<in> set (db_invitations (account_step argon dummy th opr db))" "invitation_kept r r'"
    using invitations.grows_row r(1) by blast
  then show ?thesis using r unfolding code_used_def invitation_kept_def by metis
qed

lemma insert_user_invitations:
  "insert_user now u d role perms hash db = Inr (new, db') \<Longrightarrow> db_invitations db' = db_invitations db"
  by (auto simp: insert_user_Inr)

lemma accepted_uses:
  assumes "accept_invitation_at th hash now code u d pw seen db = Inr (user, db')"
  shows "code_used (th (trim code)) db'"
proof -
  obtain u' d' role perms where "accept_commit hash now (th (trim code)) u' d' role perms db = Inr (user, db')"
    using accept_Inr [OF assms] by blast
  then obtain db1 where one: "matched (code_outstanding (th (trim code)) now) (db_invitations db1) = 1"
    and db': "db' = db1\<lparr>db_invitations := update_where (code_outstanding (th (trim code)) now)
         (\<lambda>r. r\<lparr>iv_used_at := Some now, iv_used_by := Some user\<rparr>) (db_invitations db1)\<rparr>"
    using accept_commit_Inr by blast
  have "matched (code_outstanding (th (trim code)) now) (db_invitations db1) \<noteq> 0" using one by simp
  then obtain r where r: "r \<in> set (db_invitations db1)" "code_outstanding (th (trim code)) now r"
    unfolding matched_0 by blast
  then have "r\<lparr>iv_used_at := Some now, iv_used_by := Some user\<rparr> \<in> set (db_invitations db')"
    unfolding db' by (force simp: set_update_where)
  moreover have "iv_code_hash r = th (trim code)" using r(2) by (simp add: code_outstanding_def)
  ultimately show ?thesis unfolding code_used_def by (intro bexI) auto
qed

lemma used_not_accepted:
  assumes inv: "accounts_inv db" and used: "code_used (th (trim code)) db"
  shows "\<exists>e. accept_invitation_at th hash now code u d pw seen db = Inl e"
proof (cases "accept_invitation_at th hash now code u d pw seen db")
  case (Inr res)
  obtain user db' where res: "res = (user, db')" by (cases res)
  obtain u' d' role perms where "accept_commit hash now (th (trim code)) u' d' role perms db = Inr (user, db')"
    using accept_Inr Inr res by blast
  then obtain db1 where ins: "insert_user now u' d' role perms hash db = Inr (user, db1)"
    and one: "matched (code_outstanding (th (trim code)) now) (db_invitations db1) = 1"
    using accept_commit_Inr by blast
  have "matched (code_outstanding (th (trim code)) now) (db_invitations db) \<noteq> 0"
    using one insert_user_invitations [OF ins] by simp
  then obtain r where r: "r \<in> set (db_invitations db)" "code_outstanding (th (trim code)) now r"
    unfolding matched_0 by blast
  obtain q where q: "q \<in> set (db_invitations db)" "iv_code_hash q = th (trim code)" "iv_used_at q \<noteq> None"
    using used unfolding code_used_def by blast
  have "q = r"
    using code_hashes_unique [OF inv q(1) r(1)] q(2) r(2) by (simp add: code_outstanding_def)
  then show ?thesis using q r by (simp add: code_outstanding_def outstanding_def)
qed blast

lemma used_not_in_run:
  "accounts_inv db \<Longrightarrow> list_all op_fits ops \<Longrightarrow> code_used ch db \<Longrightarrow>
   ch \<notin> set (accepted_codes argon dummy th ops db)"
proof (induction ops arbitrary: db)
  case (Cons opr ops)
  have "ch \<notin> set (accepted_by th opr db)"
  proof (cases opr)
    case (AcceptInvitation hash now code u d pw seen)
    then show ?thesis
      using used_not_accepted [OF Cons.prems(1), of th code hash now u d pw seen] Cons.prems(3)
      by (auto simp: accepted_by_def split: sum.splits)
  qed (simp_all add: accepted_by_def)
  then show ?case
    using Cons.IH [OF accounts_inv_step [OF Cons.prems(1)] _ code_used_step [OF Cons.prems(3)]]
      Cons.prems(2) by simp
qed simp

lemma distinct_accepted:
  "accounts_inv db \<Longrightarrow> list_all op_fits ops \<Longrightarrow> distinct (accepted_codes argon dummy th ops db)"
proof (induction ops arbitrary: db)
  case (Cons opr ops)
  let ?db = "account_step argon dummy th opr db"
  have inv: "accounts_inv ?db" using Cons.prems accounts_inv_step by simp
  have rest: "distinct (accepted_codes argon dummy th ops ?db)" using Cons.IH [OF inv] Cons.prems(2) by simp
  have "distinct (accepted_by th opr db)"
    by (auto simp: accepted_by_def split: account_op.splits sum.splits)
  moreover have "\<forall>ch \<in> set (accepted_by th opr db). code_used ch ?db"
    using accepted_uses by (auto simp: accepted_by_def tables_of_def split: account_op.splits sum.splits)
  ultimately show ?case
    using rest used_not_in_run [OF inv] Cons.prems(2) by auto
qed simp

section \<open>Who stays an admin\<close>

definition enabled_admin :: "accounts_db \<Rightarrow> int \<Rightarrow> bool" where
  "enabled_admin db user \<longleftrightarrow>
     (\<exists>r \<in> set (db_users db). ur_id r = user \<and> role_from (ur_role r) = Admin \<and> \<not> ur_disabled r)"

definition user_kept_enabled :: "user_row \<Rightarrow> user_row \<Rightarrow> bool" where
  "user_kept_enabled r r' \<longleftrightarrow> user_kept r r' \<and> ur_disabled r' = ur_disabled r"

interpretation enabled: table_history user_kept_enabled ur_id
  by unfold_locales (auto simp: user_kept_def user_kept_enabled_def)

lemma enabled_update_user:
  "(\<And>r. ur_id r = user \<Longrightarrow> user_kept_enabled r (f r)) \<Longrightarrow>
   grows user_kept_enabled ur_id (db_users db) (db_users (update_user user f db))"
  unfolding update_user_def by (auto intro: enabled.grows_update)

lemma enabled_insert_user:
  "insert_user now u d role perms hash db = Inr (new, db') \<Longrightarrow>
   grows user_kept_enabled ur_id (db_users db) (db_users db')"
  unfolding insert_user_Inr by (auto intro!: enabled.grows_append simp: next_rowid_new)

lemma revoke_all_users [simp]: "db_users (revoke_all_sessions now user except db) = db_users db"
  by (simp add: revoke_all_sessions_def)

text \<open>Only an admin's change of an account touches who is disabled.\<close>

lemma enabled_step:
  assumes "\<forall>now admin target ch. opr \<noteq> UpdateUser now admin target ch"
  shows "grows user_kept_enabled ur_id (db_users db) (db_users (account_step argon dummy th opr db))"
proof (cases opr)
  case (UpdateUser now admin target ch)
  then show ?thesis using assms by blast
next
  case (Bootstrap hash now u d pw)
  then show ?thesis
    by (auto simp: tables_of_def bootstrap_admin_def and_then_Inr enabled.grows_refl
        dest: enabled_insert_user split: sum.splits if_splits)
next
  case (SetTimeZone now user tz)
  have "grows user_kept_enabled ur_id (db_users db)
      (db_users (update_user user (\<lambda>r. r\<lparr>ur_time_zone := tz, ur_updated_at := now\<rparr>) db))"
    by (rule enabled_update_user) (simp add: user_kept_enabled_def user_kept_def)
  then show ?thesis using SetTimeZone
    by (auto simp: tables_of_def set_time_zone_def Let_def and_then_Inr enabled.grows_refl split: sum.splits)
next
  case (ResetPassword hash now admin target pw seen)
  have "grows user_kept_enabled ur_id (db_users db)
      (db_users (update_user target (\<lambda>r. r\<lparr>ur_password_hash := hash, ur_updated_at := now,
        ur_password_reset_by_admin_at := g r\<rparr>) db))" for g
    by (rule enabled_update_user) (simp add: user_kept_enabled_def user_kept_def)
  then show ?thesis using ResetPassword
    by (auto simp: tables_after_def enabled.grows_refl split: sum.splits dest!: reset_Inr)
next
  case (Acknowledge user session)
  have "grows user_kept_enabled ur_id (db_users db)
      (db_users (update_user user (\<lambda>r. r\<lparr>ur_password_reset_by_admin_at := None\<rparr>) db))"
    by (rule enabled_update_user) (simp add: user_kept_enabled_def user_kept_def)
  then show ?thesis using Acknowledge by (simp add: acknowledge_password_reset_def enabled.grows_refl)
next
  case (ChangePassword hash now user session cur new seen)
  have "grows user_kept_enabled ur_id (db_users db)
      (db_users (update_user user (\<lambda>r. r\<lparr>ur_password_hash := hash, ur_updated_at := now\<rparr>) db))"
    by (rule enabled_update_user) (simp add: user_kept_enabled_def user_kept_def)
  then show ?thesis using ChangePassword
    by (auto simp: tables_after_def change_own_password_at_def and_then_Inr Let_def enabled.grows_refl
        split: sum.splits if_splits)
next
  case (FindSession now token)
  then show ?thesis using find_session_tables [of th now token db] by (auto simp: enabled.grows_refl)
next
  case (AcceptInvitation hash now code u d pw seen)
  then show ?thesis
    by (auto simp: tables_of_def enabled.grows_refl split: sum.splits dest!: accept_Inr accept_commit_Inr
        intro: enabled_insert_user)
qed (auto simp: tables_of_def tables_after_def create_session_def revoke_session_def
    admin_create_invitation_def admin_withdraw_invitation_def and_then_Inr Let_def enabled.grows_refl
    split: sum.splits if_splits)

text \<open>An admin cannot disable their own account, and no change takes a role away.\<close>

lemma self_stays_enabled:
  assumes "enabled_admin db admin"
  shows "enabled_admin (account_step argon dummy th (UpdateUser now admin target ch) db) admin"
proof (cases "admin_update_user now admin target ch db")
  case (Inl e) then show ?thesis using assms by (simp add: tables_of_def)
next
  case (Inr res)
  obtain a db' where res: "res = (a, db')" by (cases res)
  obtain name where w: "db' = written_changes now target ch name db"
    and self: "\<not> (target = admin \<and> ch_disabled ch = Some True)"
    using admin_update_user_Inr Inr res by blast
  have upd: "enabled_admin (update_user target f s) admin"
    if s: "enabled_admin s admin" and kept: "\<And>r. user_kept r (f r)"
      and dis: "\<And>r. target = admin \<Longrightarrow> ur_disabled r = False \<Longrightarrow> ur_disabled (f r) = False" for f s
  proof -
    obtain r where r: "r \<in> set (db_users s)" "ur_id r = admin" "role_from (ur_role r) = Admin" "\<not> ur_disabled r"
      using s unfolding enabled_admin_def by blast
    let ?r = "if ur_id r = target then f r else r"
    have "?r \<in> set (db_users (update_user target f s))"
      using r(1) by (auto simp: update_user_def set_update_where)
    moreover have "ur_id ?r = admin \<and> role_from (ur_role ?r) = Admin \<and> \<not> ur_disabled ?r"
      using r kept [of r] dis [of r] by (auto simp: user_kept_def)
    ultimately show ?thesis unfolding enabled_admin_def by blast
  qed
  have some: "enabled_admin (when_some x f s) admin"
    if "enabled_admin s admin" "\<And>v s. x = Some v \<Longrightarrow> enabled_admin s admin \<Longrightarrow> enabled_admin (f v s) admin"
    for x :: "'b option" and f s
    using that by (cases x) (simp_all add: when_some_def)
  have dis: "enabled_admin (write_disabled now target b s) admin"
    if "enabled_admin s admin" "ch_disabled ch = Some b" for b s
  proof -
    have "enabled_admin (update_user target (\<lambda>r. r\<lparr>ur_disabled := b, ur_updated_at := now\<rparr>) s) admin"
      using that self by (intro upd) (auto simp: user_kept_def)
    then show ?thesis by (cases b) (simp_all add: write_disabled_def Let_def enabled_admin_def)
  qed
  have "enabled_admin (written_changes now target ch name db) admin"
    unfolding written_changes_def write_permissions_def write_oversight_def write_display_name_def
      write_limits_def
    by (intro some upd dis assms) (auto simp: user_kept_def)
  then show ?thesis using Inr res w by (simp add: tables_of_def)
qed

text \<open>Runs where every change of an account is made by an admin who is enabled then.\<close>

fun admins_act :: "argon \<Rightarrow> utext \<Rightarrow> token_hash \<Rightarrow> account_op list \<Rightarrow> accounts_db \<Rightarrow> bool" where
  "admins_act argon dummy th [] db \<longleftrightarrow> True"
| "admins_act argon dummy th (opr # ops) db \<longleftrightarrow>
     (case opr of UpdateUser now admin target ch \<Rightarrow> enabled_admin db admin | _ \<Rightarrow> True)
     \<and> admins_act argon dummy th ops (account_step argon dummy th opr db)"

lemma enabled_admin_grows:
  assumes "grows user_kept_enabled ur_id (db_users db) (db_users db')" and "enabled_admin db i"
  shows "enabled_admin db' i"
proof -
  obtain r where r: "r \<in> set (db_users db)" "ur_id r = i" "role_from (ur_role r) = Admin" "\<not> ur_disabled r"
    using assms(2) unfolding enabled_admin_def by blast
  obtain r' where "r' \<in> set (db_users db')" "user_kept_enabled r r'"
    using enabled.grows_row [OF assms(1) r(1)] by blast
  then show ?thesis using r unfolding enabled_admin_def user_kept_enabled_def user_kept_def by metis
qed

lemma some_admin_step:
  assumes "\<exists>i. enabled_admin db i"
    and "case opr of UpdateUser now admin target ch \<Rightarrow> enabled_admin db admin | _ \<Rightarrow> True"
  shows "\<exists>i. enabled_admin (account_step argon dummy th opr db) i"
proof (cases "\<exists>now admin target ch. opr = UpdateUser now admin target ch")
  case True then show ?thesis using assms(2) self_stays_enabled by fastforce
next
  case False
  then show ?thesis using enabled_admin_grows [OF enabled_step] assms(1) by blast
qed

section \<open>The household of the witnesses\<close>

text \<open>
  An admin, a member whose password is \<open>member password\<close>, one live session each, and one
  outstanding invitation, at time 1000. The hash of a token is the token.
\<close>

definition ADA :: user_row where
  "ADA = new_user_row 1 10 (lit ''ada'') (lit ''Ada'') Admin default_permissions (lit ''ada password'')"

definition BEN :: user_row where
  "BEN = new_user_row 2 20 (lit ''ben'') (lit ''Ben'') Member default_permissions (lit ''ben password'')"

definition example_session :: "int \<Rightarrow> int \<Rightarrow> utext \<Rightarrow> session_row" where
  "example_session sid user token =
     \<lparr>se_id = sid, se_user_id = user, se_token_hash = token, se_user_agent = None,
      se_created_at = 100, se_last_seen_at = 100, se_expires_at = 5000, se_revoked_at = None\<rparr>"

definition example_invitation :: invitation_row where
  "example_invitation =
     \<lparr>iv_id = 1, iv_code_hash = lit ''code'', iv_role = lit ''member'', iv_may_create_bots = False,
      iv_may_edit_bot_profiles = True, iv_display_name = None, iv_created_by = 1, iv_created_at = 50,
      iv_expires_at = 9000, iv_used_at = None, iv_used_by = None, iv_withdrawn_at = None\<rparr>"

definition example_household :: accounts_db where
  "example_household =
     \<lparr>db_users = [ADA, BEN],
      db_sessions = [example_session 1 1 (lit ''t1''), example_session 2 2 (lit ''t2'')],
      db_invitations = [example_invitation]\<rparr>"

definition plain_argon :: argon where
  "plain_argon password stored = Some (password = stored)"

lemmas example_defs = ADA_def BEN_def example_session_def example_invitation_def
  example_household_def new_user_row_def

lemmas text_defs = lit_def trim_def trim_start_def trim_end_def to_ascii_lowercase_def
  ascii_lower_char_def is_white_def is_control_def is_ascii_lower_def is_ascii_upper_def
  is_ascii_digit_def is_ascii_alphanumeric_def byte_len_def utf8_width_def valid_username_def
  username_char_def normalise_username_def normalise_display_name_def check_password_def
  check_new_password_def MIN_PASSWORD_CHARS_def MAX_PASSWORD_BYTES_def

lemma example_names:
  "normalise_username (lit '' Cleo'') = Inr (lit ''cleo'')"
  "normalise_display_name (lit ''Cleo'') = Inr (lit ''Cleo'')"
  "check_password (lit ''cleo password'') = Inr ()" "trim (lit ''code'') = lit ''code''"
  by (simp_all add: text_defs)

lemma example_inv: "accounts_inv example_household"
  by (simp add: accounts_inv_def example_defs user_ok_def is_admin_row_def role_from_def
      text_defs default_permissions_def invitation_ok_def check_permissions_def
      invitation_permissions_def)

section \<open>Properties\<close>

text \<open>C14: from consistent tables, every interleaving of the operations of \<open>accounts.rs\<close>,
  with early reads as stale as they like, leaves consistent tables: ids, usernames, token and
  code hashes stay unique, every stored name is in its normal form, every admin keeps both
  permissions and is never overseen, limits stay in the range they are read back from, and
  sessions and invitations refer to accounts that exist.\<close>

theorem account_tables_stay_consistent:
  assumes "accounts_inv db" and "list_all op_fits ops"
  shows "accounts_inv (account_run argon dummy th ops db)"
  using assms by (rule accounts_inv_run)

theorem account_tables_stay_consistent_witness:
  "accounts_inv (account_run plain_argon [] id
     [Bootstrap [] 0 (lit ''Ada'') (lit ''Ada'') (lit ''ada password''),
      CreateSession (lit ''t1'') 5 1 None, FindSession 7 (lit ''t1'')] empty_accounts)"
  by (rule account_tables_stay_consistent) (simp_all add: accounts_inv_empty)

text \<open>C27: along any run, however accepts of the same code interleave and whatever they read
  before their transactions, each invitation code opens at most one account.\<close>

theorem invitation_opens_one_account:
  assumes "accounts_inv db" and "list_all op_fits ops"
  shows "distinct (accepted_codes argon dummy th ops db)"
  using assms by (rule distinct_accepted)

theorem invitation_opens_one_account_witness:
  "distinct (accepted_codes plain_argon [] id
     [AcceptInvitation [] 1000 (lit ''code'') (lit ''Cleo'') (lit ''Cleo'') (lit ''cleo password'')
        example_household,
      AcceptInvitation [] 1000 (lit ''code'') (lit ''Dora'') (lit ''Dora'') (lit ''dora password'')
        example_household] example_household)"
  by (rule invitation_opens_one_account) (simp_all add: example_inv)

text \<open>The accept whose code is outstanding and whose username is free.\<close>

lemma accept_opens:
  assumes inv: "accounts_inv db" and u: "normalise_username username = Inr u"
    and d: "normalise_display_name display_name = Inr d" and pw: "check_password password = Inr ()"
    and found: "find (code_outstanding (th (trim code)) now) (db_invitations db) = Some r"
    and free: "find_username db u = None"
  shows "\<exists>user db'. accept_invitation_at th hash now code username display_name password db db
      = Inr (user, db')
    \<and> find_user db user = None
    \<and> account db' user = Some (account_from (new_user_row user now u d
        (role_from (iv_role r)) (invitation_permissions r) hash))
    \<and> (\<forall>later. find (code_outstanding (th (trim code)) later) (db_invitations db') = None)"
proof -
  let ?ch = "th (trim code)" and ?role = "role_from (iv_role r)" and ?perms = "invitation_permissions r"
  have r: "r \<in> set (db_invitations db)" "code_outstanding ?ch now r" using find_Some_in [OF found] by auto
  have perms: "check_permissions ?role ?perms = Inr ()"
    using inv r(1) by (auto simp: accounts_inv_def invitation_ok_def)
  have fresh: "u \<notin> ur_username ` set (db_users db)"
    using free by (auto simp: find_username_def find_None_iff)
  let ?user = "next_rowid (map ur_id (db_users db))"
  let ?new = "new_user_row ?user now u d ?role ?perms hash"
  let ?f = "\<lambda>r. r\<lparr>iv_used_at := Some now, iv_used_by := Some ?user\<rparr>"
  define db' where "db' = db\<lparr>db_users := db_users db @ [?new],
    db_invitations := update_where (code_outstanding ?ch now) ?f (db_invitations db)\<rparr>"
  have unique: "q = r" if "q \<in> set (db_invitations db)" "iv_code_hash q = ?ch" for q
    using code_hashes_unique [OF inv that(1) r(1)] that(2) r(2) by (simp add: code_outstanding_def)
  have "distinct (db_invitations db)" using inv by (auto simp: accounts_inv_def distinct_map)
  moreover have "set (filter (code_outstanding ?ch now) (db_invitations db)) = {r}"
  proof
    show "set (filter (code_outstanding ?ch now) (db_invitations db)) \<subseteq> {r}"
    proof
      fix q assume "q \<in> set (filter (code_outstanding ?ch now) (db_invitations db))"
      then show "q \<in> {r}" using unique [of q] by (simp add: code_outstanding_def)
    qed
  qed (use r in simp)
  ultimately have one: "matched (code_outstanding ?ch now) (db_invitations db) = 1"
    using distinct_card [OF distinct_filter [of "db_invitations db" "code_outstanding ?ch now"]]
    by (simp add: matched_def)
  have res: "accept_invitation_at th hash now code username display_name password db db = Inr (?user, db')"
    using found u d pw perms fresh one
    by (simp add: accept_invitation_at_def accept_commit_def insert_user_def db'_def Let_def)
  have gone: "\<forall>later. find (code_outstanding ?ch later) (db_invitations db') = None"
    unfolding find_None_iff
  proof (intro allI notI)
    fix later assume "\<exists>q. q \<in> set (db_invitations db') \<and> code_outstanding ?ch later q"
    then obtain p where p: "p \<in> set (update_where (code_outstanding ?ch now) ?f (db_invitations db))"
      "code_outstanding ?ch later p"
      by (auto simp: db'_def)
    then obtain q where "q \<in> set (db_invitations db)"
      "p = (if code_outstanding ?ch now q then ?f q else q)"
      unfolding set_update_where by (elim imageE)
    with p(2) have q: "q \<in> set (db_invitations db)"
      "code_outstanding ?ch later (if code_outstanding ?ch now q then ?f q else q)"
      by simp_all
    have "iv_code_hash q = ?ch" using q(2) by (simp add: code_outstanding_def split: if_splits)
    then have "q = r" using unique q(1) by blast
    then show False using q(2) r(2) by (simp add: code_outstanding_def outstanding_def)
  qed
  have new: "find (\<lambda>r. ur_id r = ?user) (db_users db) = None"
    using next_rowid_neq [of _ "db_users db" ur_id] unfolding find_None_iff by metis
  then have "account db' ?user = Some (account_from ?new)"
    by (simp add: db'_def account_def find_user_def find_append)
  moreover have "find_user db ?user = None" using new by (simp add: find_user_def)
  ultimately show ?thesis using res gone by (intro exI conjI)
qed

text \<open>With acceptable names and password, an invitation code is refused exactly when it
  is unknown, used, withdrawn or expired, always with the same answer. Otherwise the code
  opens an account with the invitation's role and permissions, unless the username is taken,
  and it is no longer outstanding at any time.\<close>

lemma invitation_accepted_exactly:
  assumes "accounts_inv db" and "normalise_username username = Inr u"
    and "normalise_display_name display_name = Inr d" and "check_password password = Inr ()"
  shows "case find (code_outstanding (th (trim code)) now) (db_invitations db) of
      None \<Rightarrow> accept_invitation_at th hash now code username display_name password db db
        = Inl invitation_refused
    | Some r \<Rightarrow>
        if find_username db u \<noteq> None
        then accept_invitation_at th hash now code username display_name password db db
          = Inl (conflict (lit ''That username is taken''))
        else \<exists>user db'. accept_invitation_at th hash now code username display_name password db db
            = Inr (user, db')
          \<and> find_user db user = None
          \<and> account db' user = Some (account_from (new_user_row user now u d
              (role_from (iv_role r)) (invitation_permissions r) hash))
          \<and> (\<forall>later. find (code_outstanding (th (trim code)) later) (db_invitations db') = None)"
proof (cases "find (code_outstanding (th (trim code)) now) (db_invitations db)")
  case None
  then show ?thesis using assms by (simp add: accept_invitation_at_def Let_def)
next
  case found: (Some r)
  show ?thesis
  proof (cases "find_username db u")
    case None
    then show ?thesis unfolding found option.case using accept_opens [where th = th and code = code and now = now and hash = hash, OF assms found None] by argo
  next
    case (Some q)
    have "check_permissions (role_from (iv_role r)) (invitation_permissions r) = Inr ()"
      using assms(1) find_Some_in [OF found] by (auto simp: accounts_inv_def invitation_ok_def)
    moreover have "u \<in> ur_username ` set (db_users db)"
      using find_username_iff [OF assms(1), of u q] Some by auto
    ultimately show ?thesis
      using assms found Some by (simp add: accept_invitation_at_def accept_commit_def insert_user_def Let_def)
  qed
qed

lemma invitation_accepted_exactly_witness:
  "\<exists>user db'. accept_invitation_at id (lit ''h'') 1000 (lit ''code'') (lit '' Cleo'') (lit ''Cleo'')
     (lit ''cleo password'') example_household example_household = Inr (user, db')
   \<and> u_role (ac_user (the (account db' user))) = Member"
proof -
  have "find (code_outstanding (id (trim (lit ''code''))) 1000) (db_invitations example_household)
      = Some example_invitation"
    by (simp add: text_defs example_household_def example_invitation_def code_outstanding_def
        outstanding_def)
  moreover have "find_username example_household (lit ''cleo'') = None"
    by (simp add: find_username_def example_defs lit_def)
  ultimately obtain user db' where
    "accept_invitation_at id (lit ''h'') 1000 (lit ''code'') (lit '' Cleo'') (lit ''Cleo'')
       (lit ''cleo password'') example_household example_household = Inr (user, db')"
    "account db' user = Some (account_from (new_user_row user 1000 (lit ''cleo'') (lit ''Cleo'')
       (role_from (iv_role example_invitation)) (invitation_permissions example_invitation) (lit ''h'')))"
    using invitation_accepted_exactly [OF example_inv example_names(1,2,3), where th = id
        and code = "lit ''code''" and now = 1000 and hash = "lit ''h''"]
    by (auto simp del: lit_def)
  then show ?thesis
    by (auto simp: account_from_def new_user_row_def Let_def example_invitation_def role_from_def lit_def)
qed

text \<open>C26: a password reset by an admin, and disabling an account, end every session of the
  account for good: whatever requests run afterwards, at whatever time and with whatever
  token, no session the account had then is found again.\<close>

theorem reset_and_disable_end_sessions:
  assumes inv: "accounts_inv db'"
    and ended: "admin_reset_password_at hash now admin target pw seen db = Inr db'
      \<or> (\<exists>a ch. admin_update_user now admin target ch db = Inr (a, db') \<and> ch_disabled ch = Some True)"
    and s: "s \<in> set (db_sessions db')" "se_user_id s = target"
    and later: "fst (find_session th later token (account_run argon dummy th ops db')) = Some sn"
  shows "sn_id sn \<noteq> se_id s"
proof (rule revoked_stays_dead [OF _ _ later])
  have "se_revoked_at s \<noteq> None"
    using ended disable_revokes reset_revokes s by blast
  then show "\<forall>r \<in> set (db_sessions db'). se_id r = se_id s \<longrightarrow> se_revoked_at r \<noteq> None"
    using session_ids_unique [OF inv s(1)] by blast
qed (use s in simp)

definition after_reset :: accounts_db where
  "after_reset = tables_after example_household
     (admin_reset_password_at (lit ''h'') 1000 1 2 (lit ''new password'') example_household example_household)"

lemma after_reset_eq:
  "admin_reset_password_at (lit ''h'') 1000 1 2 (lit ''new password'') example_household example_household
     = Inr after_reset"
  by (simp add: after_reset_def tables_after_def admin_reset_password_at_def reset_check_def
      find_user_def example_defs text_defs role_from_def)

lemma after_reset_tables:
  "db_sessions after_reset = [example_session 1 1 (lit ''t1''),
     (example_session 2 2 (lit ''t2''))\<lparr>se_revoked_at := Some 1000\<rparr>]"
  "db_users after_reset = [ADA, BEN\<lparr>ur_password_hash := lit ''h'', ur_updated_at := 1000,
     ur_password_reset_by_admin_at := Some 1000\<rparr>]"
  by (simp_all add: after_reset_def tables_after_def admin_reset_password_at_def reset_check_def
      find_user_def example_defs text_defs role_from_def Let_def revoke_all_sessions_def
      update_user_def update_where_def)

lemma after_reset_inv: "accounts_inv after_reset"
  using accounts_inv_step [OF example_inv, of "ResetPassword (lit ''h'') 1000 1 2 (lit ''new password'')
    example_household"] after_reset_eq by (simp add: tables_after_def)

theorem reset_and_disable_end_sessions_witness:
  "fst (find_session id 1001 (lit ''t1'') (account_run plain_argon [] id [] after_reset))
     = Some \<lparr>sn_id = 1, sn_account = account_from ADA\<rparr>
   \<and> sn_id \<lparr>sn_id = (1::int), sn_account = account_from ADA\<rparr> \<noteq> 2"
proof -
  have found: "fst (find_session id 1001 (lit ''t1'') (account_run plain_argon [] id [] after_reset))
     = Some \<lparr>sn_id = se_id (example_session 1 1 (lit ''t1'')), sn_account = account_from ADA\<rparr>"
    unfolding account_run.simps
    by (rule find_session_complete [OF after_reset_inv])
      (simp_all add: after_reset_tables example_session_def session_live_def ADA_def new_user_row_def)
  have "sn_id \<lparr>sn_id = se_id (example_session 1 1 (lit ''t1'')), sn_account = account_from ADA\<rparr>
      \<noteq> se_id ((example_session 2 2 (lit ''t2''))\<lparr>se_revoked_at := Some 1000\<rparr>)"
    by (rule reset_and_disable_end_sessions [OF after_reset_inv disjI1 [OF after_reset_eq] _ _ found])
      (simp_all add: after_reset_tables example_session_def)
  then show ?thesis using found by (simp add: example_session_def)
qed

text \<open>A cookie signs in exactly the enabled user of the one session that its token was
  made for, while that session is neither revoked nor expired.\<close>

lemma session_found_exactly:
  assumes "accounts_inv db"
  shows "fst (find_session th now token db) = Some sn \<longleftrightarrow>
    (\<exists>s \<in> set (db_sessions db). \<exists>u \<in> set (db_users db).
       se_token_hash s = th token \<and> se_revoked_at s = None \<and> now < se_expires_at s
       \<and> ur_id u = se_user_id s \<and> \<not> ur_disabled u
       \<and> sn = \<lparr>sn_id = se_id s, sn_account = account_from u\<rparr>)"
  using find_session_Some [of th now token db sn] find_session_complete [OF assms]
  by (auto simp: session_live_def)

lemma session_found_exactly_witness:
  "fst (find_session id 1000 (lit ''t2'') example_household) = Some \<lparr>sn_id = 2, sn_account = account_from BEN\<rparr>"
  unfolding session_found_exactly [OF example_inv]
  by (simp add: example_defs lit_def)

text \<open>A sign-in succeeds exactly with the password of the enabled account whose username
  is the typed one, trimmed and in lower case.\<close>

lemma sign_in_exactly:
  assumes "accounts_inv db"
  shows "check_credentials argon dummy db username password = Some a \<longleftrightarrow>
    (\<exists>r \<in> set (db_users db). ur_username r = to_ascii_lowercase (trim username) \<and> \<not> ur_disabled r
       \<and> byte_len password \<le> MAX_PASSWORD_BYTES \<and> argon password (ur_password_hash r) = Some True
       \<and> a = account_from r)"
proof (cases "find_username db (to_ascii_lowercase (trim username))")
  case None
  then have "\<forall>r \<in> set (db_users db). ur_username r \<noteq> to_ascii_lowercase (trim username)"
    by (auto simp: find_username_def find_None_iff)
  then show ?thesis using None by (auto simp: check_credentials_def)
next
  case (Some r)
  have "r \<in> set (db_users db)" "ur_username r = to_ascii_lowercase (trim username)"
    using find_username_iff [OF assms] Some by blast+
  moreover have "q = r" if "q \<in> set (db_users db)" "ur_username q = to_ascii_lowercase (trim username)" for q
    using find_username_iff [OF assms, of "to_ascii_lowercase (trim username)" q] that Some by simp
  then have "(\<exists>q \<in> set (db_users db). ur_username q = to_ascii_lowercase (trim username) \<and> P q) \<longleftrightarrow> P r" for P
    using calculation by blast
  moreover have "u_disabled (ac_user (account_from r)) = ur_disabled r"
    by (simp add: account_from_def Let_def)
  ultimately show ?thesis using Some
    by (auto simp: check_credentials_def Let_def verify_password_def split: option.splits)
qed

lemma sign_in_exactly_witness:
  "check_credentials plain_argon [] example_household (lit ''Ben '') (lit ''ben password'')
     = Some (account_from BEN)"
  unfolding sign_in_exactly [OF example_inv]
  by (simp add: plain_argon_def example_defs text_defs)

text \<open>Nobody's role, username or id ever changes, whatever the run: in particular no
  member becomes an admin and no account disappears.\<close>

lemma roles_never_change:
  assumes inv: "accounts_inv db" and fits: "list_all op_fits ops" and a: "account db user = Some a"
  shows "\<exists>a'. account (account_run argon dummy th ops db) user = Some a'
    \<and> u_role (ac_user a') = u_role (ac_user a) \<and> u_username (ac_user a') = u_username (ac_user a)
    \<and> u_id (ac_user a') = user"
proof -
  let ?db = "account_run argon dummy th ops db"
  obtain r where r: "r \<in> set (db_users db)" "ur_id r = user" "a = account_from r"
    using a find_user_iff [OF inv] by (auto simp: account_def)
  have "grows user_kept ur_id (db_users db) (db_users ?db)"
    using db_grows_run by (simp add: db_grows_def)
  then obtain r' where r': "r' \<in> set (db_users ?db)" "user_kept r r'"
    using users.grows_row r(1) by blast
  then have "find_user ?db user = Some r'"
    using find_user_iff [OF accounts_inv_run [OF inv fits]] r(2) by (simp add: user_kept_def)
  then show ?thesis using r r'(2) by (simp add: account_def user_kept_def account_from_def Let_def)
qed

lemma roles_never_change_witness:
  "\<exists>a'. account (account_run plain_argon [] id [SetTimeZone 5 2 (lit ''UTC''), Acknowledge 2 2]
     example_household) 2 = Some a' \<and> u_role (ac_user a') = Member"
proof -
  have "account example_household 2 = Some (account_from BEN)"
    by (simp add: account_def find_user_def example_defs)
  from roles_never_change [OF example_inv _ this,
      of "[SetTimeZone 5 2 (lit ''UTC''), Acknowledge 2 2]" plain_argon "[]" id]
  show ?thesis by (auto simp: account_from_def Let_def BEN_def new_user_row_def role_from_def lit_def)
qed

text \<open>
  As long as every change of an account is made by an admin who is still enabled when it
  commits, some admin stays enabled. The gateway looks before the transaction only.
\<close>

lemma some_admin_stays_enabled:
  assumes "enabled_admin db user" and "admins_act argon dummy th ops db"
  shows "\<exists>i. enabled_admin (account_run argon dummy th ops db) i"
  using assms
proof (induction ops arbitrary: db user)
  case (Cons opr ops)
  have "\<exists>i. enabled_admin db i" using Cons.prems(1) by blast
  then obtain i where "enabled_admin (account_step argon dummy th opr db) i"
    using some_admin_step [of db opr argon dummy th] Cons.prems(2) by auto
  then show ?case using Cons.IH Cons.prems(2) by simp
qed auto

text \<open>A notice that an admin reset the password is not cleared unseen: a session that was
  open at the reset, or any acknowledgement still in flight through it, clears nothing
  afterwards.\<close>

lemma reset_notice_outlives_old_sessions:
  assumes inv: "accounts_inv db'"
    and reset: "admin_reset_password_at hash now admin target pw seen db = Inr db'"
    and s: "s \<in> set (db_sessions db')" "se_user_id s = target"
  shows "acknowledge_password_reset target (se_id s) (account_run argon dummy th ops db')
    = account_run argon dummy th ops db'"
proof -
  let ?db = "account_run argon dummy th ops db'"
  have "\<not> (se_id r = se_id s \<and> se_user_id r = target \<and> se_revoked_at r = None)"
    if r: "r \<in> set (db_sessions ?db)" for r
  proof
    assume *: "se_id r = se_id s \<and> se_user_id r = target \<and> se_revoked_at r = None"
    have "grows session_kept se_id (db_sessions db') (db_sessions ?db)"
      using db_grows_run by (simp add: db_grows_def)
    then obtain q where q: "q \<in> set (db_sessions db')" "session_kept q r"
      using sessions.grows_old [OF _ r] * s(1) by auto
    then have "q = s" using session_ids_unique [OF inv s(1)] * by (simp add: session_kept_def)
    then show False using reset_revokes [OF reset s] q(2) * by (simp add: session_kept_def)
  qed
  then have "\<not> list_ex (\<lambda>r. se_id r = se_id s \<and> se_user_id r = target \<and> se_revoked_at r = None)
      (db_sessions ?db)"
    unfolding list_ex_iff by blast
  then show ?thesis by (simp add: acknowledge_password_reset_def)
qed

lemma reset_notice_outlives_old_sessions_witness:
  "acknowledge_password_reset 2 2 after_reset = after_reset"
  using reset_notice_outlives_old_sessions [OF after_reset_inv after_reset_eq,
      of "(example_session 2 2 (lit ''t2''))\<lparr>se_revoked_at := Some 1000\<rparr>" plain_argon "[]" id "[]"]
  by (simp add: after_reset_tables example_session_def)

section \<open>Between the check and the session\<close>

text \<open>
  \<open>login\<close> checks the password and creates the session in two statements. A reset of the
  password that commits between them revokes the sessions there are, and the session made
  afterwards from the old password stays live.
\<close>

lemma sign_in_in_flight_survives_reset:
  "check_credentials plain_argon [] example_household (lit ''ben'') (lit ''ben password'') = Some (account_from BEN)
   \<and> (\<exists>db'. create_session id (lit ''t3'') 1000 2 None after_reset = Inr (lit ''t3'', db')
        \<and> map_option sn_id (fst (find_session id 1001 (lit ''t3'') db')) = Some 3)"
proof
  show "check_credentials plain_argon [] example_household (lit ''ben'') (lit ''ben password'')
    = Some (account_from BEN)"
    by (simp add: check_credentials_def find_username_def verify_password_def plain_argon_def
        example_defs text_defs Let_def account_from_def)
  show "\<exists>db'. create_session id (lit ''t3'') 1000 2 None after_reset = Inr (lit ''t3'', db')
        \<and> map_option sn_id (fst (find_session id 1001 (lit ''t3'') db')) = Some 3"
    by (simp add: create_session_def after_reset_def tables_after_def admin_reset_password_at_def
        reset_check_def find_user_def example_defs text_defs role_from_def Let_def revoke_all_sessions_def
        update_user_def update_where_def next_rowid_def find_session_def join_session_def
        session_live_def SESSION_IDLE_MS_def DAY_MS_def HOUR_MS_def MINUTE_MS_def)
qed

end
