(* ===== verification/RequestGuard.thy ===== *)
theory RequestGuard
  imports AccountPromises
begin

text \<open>
  The parts of \<open>config.rs\<close> and \<open>auth.rs\<close> that decide which requests reach a handler and as
  whom: the public origin, the request guard, the session cookie, the signed-in extractors
  and the client's address. A header value is its text, or \<open>None\<close> where it is not visible
  ASCII; header names are in lower case, as \<open>http\<close> keeps them.
\<close>

section \<open>IPv6 literals\<close>

text \<open>
  \<open>str::parse::<Ipv6Addr>\<close> of the standard library: up to eight groups of at most four
  hexadecimal digits, one \<open>::\<close> for a run of zero groups, and an IPv4 address as the last two.
\<close>

definition hex_digit :: "uchar \<Rightarrow> bool" where
  "hex_digit c \<longleftrightarrow> is_ascii_digit c \<or> 97 \<le> c \<and> c \<le> 102 \<or> 65 \<le> c \<and> c \<le> 70"

definition read_hex :: "utext \<Rightarrow> utext option" where
  "read_hex t = (let ds = takeWhile hex_digit t in
     if ds = [] \<or> length ds > 4 then None else Some (drop (length ds) t))"

definition decimal_value :: "utext \<Rightarrow> nat" where
  "decimal_value ds = foldl (\<lambda>n d. 10 * n + (d - 48)) 0 ds"

definition read_octet :: "utext \<Rightarrow> utext option" where
  "read_octet t = (let ds = takeWhile is_ascii_digit t in
     if ds = [] \<or> length ds > 3 \<or> hd ds = 48 \<and> length ds > 1 \<or> decimal_value ds > 255
     then None else Some (drop (length ds) t))"

definition read_char :: "uchar \<Rightarrow> utext \<Rightarrow> utext option" where
  "read_char c t = (case t of [] \<Rightarrow> None | d # ds \<Rightarrow> if d = c then Some ds else None)"

definition read_ipv4 :: "utext \<Rightarrow> utext option" where
  "read_ipv4 t =
     Option.bind (read_octet t) (\<lambda>t. Option.bind (read_char 46 t) (\<lambda>t.
     Option.bind (read_octet t) (\<lambda>t. Option.bind (read_char 46 t) (\<lambda>t.
     Option.bind (read_octet t) (\<lambda>t. Option.bind (read_char 46 t) read_octet)))))"

text \<open>\<open>read_groups limit i t\<close>: how many groups, whether they end in an IPv4 address, the rest.\<close>

fun read_groups :: "nat \<Rightarrow> nat \<Rightarrow> utext \<Rightarrow> nat \<times> bool \<times> utext" where
  "read_groups 0 i t = (i, False, t)"
| "read_groups (Suc n) i t =
     (let start = (if i = 0 then Some t else read_char 58 t) in
      case (if n > 0 then Option.bind start read_ipv4 else None) of
        Some rest \<Rightarrow> (i + 2, True, rest)
      | None \<Rightarrow>
          (case Option.bind start read_hex of
             Some rest \<Rightarrow> read_groups n (i + 1) rest
           | None \<Rightarrow> (i, False, t)))"

definition parses_ipv6 :: "utext \<Rightarrow> bool" where
  "parses_ipv6 t =
     (let (head, v4, rest) = read_groups 8 0 t in
      if head = 8 then rest = []
      else if v4 then False
      else case Option.bind (read_char 58 rest) (read_char 58) of
          None \<Rightarrow> False
        | Some rest \<Rightarrow> (case read_groups (8 - (head + 1)) 0 rest of (_, _, rest) \<Rightarrow> rest = []))"

section \<open>The public origin (config.rs)\<close>

record public_origin =
  po_origin :: utext
  po_authority :: utext

definition host_char :: "uchar \<Rightarrow> bool" where
  "host_char c \<longleftrightarrow> is_ascii_lower c \<or> is_ascii_digit c \<or> c = 45 \<or> c = 95"

definition valid_host :: "utext \<Rightarrow> bool" where
  "valid_host host =
     (if host \<noteq> [] \<and> hd host = 91 \<and> length host \<ge> 2 \<and> last host = 93
      then parses_ipv6 (butlast (tl host))
      else list_all (\<lambda>label. label \<noteq> [] \<and> list_all host_char label) (split_on 46 host))"

text \<open>
  \<open>port.parse::<u16>()\<close> gives a number that is not 0 and prints as the port did: decimal
  digits without a leading zero or sign, at most 65535.
\<close>

definition valid_port :: "utext \<Rightarrow> bool" where
  "valid_port port \<longleftrightarrow> port \<noteq> [] \<and> list_all is_ascii_digit port \<and> hd port \<noteq> 48
     \<and> length port \<le> 5 \<and> decimal_value port < 2 ^ 16"

definition host_and_port :: "utext \<Rightarrow> utext \<times> utext option" where
  "host_and_port authority =
     (case rsplit_once 58 authority of
        Some (host, port) \<Rightarrow> if 93 \<notin> set port then (host, Some port) else (authority, None)
      | None \<Rightarrow> (authority, None))"

datatype origin_error = OriginScheme | OriginHost | OriginPort

text \<open>The authority after the scheme, and the scheme's default port.\<close>

definition split_scheme :: "utext \<Rightarrow> (utext \<times> utext) option" where
  "split_scheme origin =
     (case strip_prefix (lit ''https://'') origin of
        Some authority \<Rightarrow> Some (authority, lit ''443'')
      | None \<Rightarrow> map_option (\<lambda>authority. (authority, lit ''80'')) (strip_prefix (lit ''http://'') origin))"

definition parse_origin :: "utext \<Rightarrow> origin_error + public_origin" where
  "parse_origin value =
     (let origin = to_ascii_lowercase (rev (dropWhile (\<lambda>c. c = 47) (rev (trim value)))) in
      case split_scheme origin of
        None \<Rightarrow> Inl OriginScheme
      | Some (authority, default_port) \<Rightarrow>
          (case host_and_port authority of (host, port) \<Rightarrow>
             if \<not> valid_host host then Inl OriginHost
             else if (case port of None \<Rightarrow> False | Some p \<Rightarrow> \<not> (valid_port p \<and> p \<noteq> default_port))
             then Inl OriginPort
             else Inr \<lparr>po_origin = origin, po_authority = authority\<rparr>))"

record config =
  cf_origin :: public_origin
  cf_extra_hosts :: "utext list"
  cf_trust_forwarded_for :: bool

text \<open>\<open>BOKKIE_EXTRA_HOSTS\<close>, as \<open>Config::from_env\<close> reads it.\<close>

definition parse_extra_hosts :: "utext \<Rightarrow> utext list" where
  "parse_extra_hosts hosts =
     filter (\<lambda>h. h \<noteq> []) (map (\<lambda>h. to_ascii_lowercase (trim h)) (split_on 44 hosts))"

definition accepts_host :: "config \<Rightarrow> utext \<Rightarrow> bool" where
  "accepts_host cfg host =
     (let host = to_ascii_lowercase host in
      host = po_authority (cf_origin cfg) \<or> host \<in> set (cf_extra_hosts cfg))"

section \<open>Requests\<close>

datatype http_method = GET | HEAD | OPTIONS | OtherMethod utext

record request =
  rq_method :: http_method
  rq_path :: utext
  rq_authority :: "utext option"
  rq_headers :: "(utext \<times> utext option) list"
  rq_peer :: "utext option"

definition header_values :: "utext \<Rightarrow> request \<Rightarrow> utext option list" where
  "header_values name rq = map snd (filter (\<lambda>(n, _). n = name) (rq_headers rq))"

text \<open>\<open>headers.get(name)\<close> and \<open>to_str\<close> on it: the first value, where it is text.\<close>

definition header_text :: "utext \<Rightarrow> request \<Rightarrow> utext option" where
  "header_text name rq = (case header_values name rq of [] \<Rightarrow> None | v # _ \<Rightarrow> v)"

section \<open>The guard (auth.rs)\<close>

definition host_of :: "request \<Rightarrow> utext option" where
  "host_of rq = (case header_text (lit ''host'') rq of Some h \<Rightarrow> Some h | None \<Rightarrow> rq_authority rq)"

definition guard :: "config \<Rightarrow> request \<Rightarrow> failure + unit" where
  "guard cfg rq =
     (if rq_path rq \<noteq> lit ''/healthz''
         \<and> \<not> (case host_of rq of None \<Rightarrow> False | Some h \<Rightarrow> accepts_host cfg h)
      then Inl (forbidden (lit ''Unknown host''))
      else
        let safe = rq_method rq \<in> {GET, HEAD, OPTIONS};
            upgrade = header_values (lit ''upgrade'') rq \<noteq> [] in
        if (\<not> safe \<or> upgrade)
           \<and> map_option to_ascii_lowercase (header_text (lit ''origin'') rq)
              \<noteq> Some (po_origin (cf_origin cfg))
        then Inl (forbidden (lit ''Cross-origin requests are not allowed''))
        else Inr ())"

section \<open>Cookies\<close>

definition session_cookie :: "utext \<Rightarrow> utext" where
  "session_cookie token = SESSION_COOKIE @ lit ''='' @ token @ lit ''; Path=/; Max-Age=''
     @ decimal_int (SESSION_IDLE_MS div 1000) @ lit ''; HttpOnly; Secure; SameSite=Lax''"

definition clear_session_cookie :: utext where
  "clear_session_cookie = SESSION_COOKIE @ lit ''=; Path=/; Max-Age=0; HttpOnly; Secure; SameSite=Lax''"

definition session_token :: "request \<Rightarrow> utext option" where
  "session_token rq =
     (let values = List.map_filter id (header_values (lit ''cookie'') rq);
          pairs = List.map_filter (\<lambda>pair. split_once 61 (trim pair)) (concat (map (split_on 59) values))
      in case find (\<lambda>(name, _). name = SESSION_COOKIE) pairs of
           None \<Rightarrow> None
         | Some (_, value) \<Rightarrow> if value = [] then None else Some value)"

section \<open>Extractors\<close>

record signed_in =
  si_session_id :: int
  si_account :: account

definition signed_in ::
  "token_hash \<Rightarrow> int \<Rightarrow> request \<Rightarrow> accounts_db \<Rightarrow> failure + signed_in \<times> accounts_db" where
  "signed_in th now rq db =
     and_then (ok_or unauthenticated (session_token rq)) (\<lambda>token.
       case find_session th now token db of
         (None, _) \<Rightarrow> Inl unauthenticated
       | (Some s, db') \<Rightarrow> Inr (\<lparr>si_session_id = sn_id s, si_account = sn_account s\<rparr>, db'))"

definition signed_in_admin ::
  "token_hash \<Rightarrow> int \<Rightarrow> request \<Rightarrow> accounts_db \<Rightarrow> failure + signed_in \<times> accounts_db" where
  "signed_in_admin th now rq db =
     and_then (signed_in th now rq db) (\<lambda>(si, db').
       if u_role (ac_user (si_account si)) \<noteq> Admin
       then Inl (forbidden (lit ''Only an admin can do that'')) else Inr (si, db'))"

text \<open>\<open>rfind\<close>: the last entry that is not empty.\<close>

definition client_address :: "request \<Rightarrow> bool \<Rightarrow> utext" where
  "client_address rq trust_forwarded_for =
     (let values = List.map_filter id (header_values (lit ''x-forwarded-for'') rq);
          entries = map trim (concat (map (split_on 44) values));
          peer = (case rq_peer rq of None \<Rightarrow> lit ''unknown'' | Some ip \<Rightarrow> ip)
      in if trust_forwarded_for
         then case find (\<lambda>v. v \<noteq> []) (rev entries) of Some forwarded \<Rightarrow> forwarded | None \<Rightarrow> peer
         else peer)"

section \<open>The normal form of an origin\<close>

lemma trim_ends: "x \<noteq> [] \<Longrightarrow> \<not> is_white (hd x) \<Longrightarrow> \<not> is_white (last x) \<Longrightarrow> trim x = x"
proof -
  assume x: "x \<noteq> []" "\<not> is_white (hd x)" "\<not> is_white (last x)"
  have "trim_start x = x" using x by (intro trim_start_fixed) simp
  moreover have "dropWhile is_white (rev x) = rev x"
    using x by (simp add: dropWhile_eq_self_iff hd_rev)
  ultimately show ?thesis by (simp add: trim_def trim_end_def)
qed

lemma lower_idem: "to_ascii_lowercase (to_ascii_lowercase t) = to_ascii_lowercase t"
  by (auto simp: to_ascii_lowercase_def ascii_lower_char_def is_ascii_upper_def)

lemma split_on_chars: "c \<in> set t \<Longrightarrow> c = sep \<or> (\<exists>p \<in> set (split_on sep t). c \<in> set p)"
  by (induction t) (auto split: list.splits)

definition plain_char :: "uchar \<Rightarrow> bool" where
  "plain_char c \<longleftrightarrow> \<not> is_white c \<and> c \<noteq> 47"

lemma host_char_plain: "host_char c \<Longrightarrow> plain_char c"
  by (auto simp: host_char_def plain_char_def is_white_def is_ascii_lower_def is_ascii_digit_def)

lemma digit_plain: "is_ascii_digit c \<Longrightarrow> plain_char c"
  by (auto simp: plain_char_def is_white_def is_ascii_digit_def)

lemma valid_host_last: "valid_host host \<Longrightarrow> host \<noteq> [] \<and> plain_char (last host)"
proof (cases "host \<noteq> [] \<and> hd host = 91 \<and> length host \<ge> 2 \<and> last host = 93")
  case True then show ?thesis by (simp add: plain_char_def is_white_def)
next
  case False
  assume "valid_host host"
  then have labels: "\<forall>l \<in> set (split_on 46 host). l \<noteq> [] \<and> list_all host_char l"
    using False by (auto simp: valid_host_def list_all_iff)
  then have ne: "host \<noteq> []" by auto
  then have "last host = 46 \<or> host_char (last host)"
    using split_on_chars [of "last host" host 46] labels by (auto simp: list_all_iff)
  then show ?thesis using ne host_char_plain by (auto simp: plain_char_def is_white_def)
qed

lemma authority_last:
  assumes "host_and_port authority = (host, port)" and "valid_host host"
    and "\<forall>p. port = Some p \<longrightarrow> valid_port p"
  shows "authority \<noteq> [] \<and> plain_char (last authority)"
proof (cases port)
  case None
  then have "host = authority" using assms(1) by (auto simp: host_and_port_def split: option.splits if_splits)
  then show ?thesis using valid_host_last [OF assms(2)] by simp
next
  case (Some p)
  then have "authority = host @ 58 # p"
    using assms(1) rsplit_once_Some by (auto simp: host_and_port_def split: option.splits if_splits)
  moreover have "p \<noteq> []" "plain_char (last p)"
    using assms(3) Some digit_plain by (auto simp: valid_port_def list_all_iff)
  ultimately show ?thesis by simp
qed

definition scheme_port :: "utext \<Rightarrow> utext \<Rightarrow> bool" where
  "scheme_port scheme port \<longleftrightarrow> scheme = lit ''https://'' \<and> port = lit ''443''
     \<or> scheme = lit ''http://'' \<and> port = lit ''80''"

lemma split_scheme_Some:
  assumes "split_scheme origin = Some (authority, port)"
  obtains scheme where "origin = scheme @ authority" and "scheme_port scheme port"
proof (cases "strip_prefix (lit ''https://'') origin")
  case (Some a)
  then have "authority = a" "port = lit ''443''"
    using assms unfolding split_scheme_def by simp_all
  then show thesis
    using that [of "lit ''https://''"] Some unfolding scheme_port_def strip_prefix_Some by blast
next
  case None
  then have "strip_prefix (lit ''http://'') origin = Some authority" "port = lit ''80''"
    using assms unfolding split_scheme_def by auto
  then show thesis
    using that [of "lit ''http://''"] unfolding scheme_port_def strip_prefix_Some by blast
qed

lemma split_scheme_append: "scheme_port scheme port \<Longrightarrow> split_scheme (scheme @ authority) = Some (authority, port)"
  by (auto simp: scheme_port_def split_scheme_def strip_prefix_def lit_def)

lemma parse_origin_Inr:
  assumes "parse_origin value = Inr po"
  obtains scheme default_port host port where
    "po_origin po = scheme @ po_authority po" "scheme_port scheme default_port"
    "host_and_port (po_authority po) = (host, port)" "valid_host host"
    "\<forall>p. port = Some p \<longrightarrow> valid_port p \<and> p \<noteq> default_port"
    "to_ascii_lowercase (po_origin po) = po_origin po"
proof -
  let ?o = "to_ascii_lowercase (rev (dropWhile (\<lambda>c. c = 47) (rev (trim value))))"
  obtain authority default_port where split: "split_scheme ?o = Some (authority, default_port)"
    using assms unfolding parse_origin_def Let_def by (auto split: option.splits)
  obtain host port where hp: "host_and_port authority = (host, port)" by fastforce
  have ok: "valid_host host" "\<forall>p. port = Some p \<longrightarrow> valid_port p \<and> p \<noteq> default_port"
    and po: "po = \<lparr>po_origin = ?o, po_authority = authority\<rparr>"
    using assms by (auto simp: parse_origin_def Let_def split hp split: if_splits option.splits)
  obtain scheme where scheme: "?o = scheme @ authority" "scheme_port scheme default_port"
    using split_scheme_Some [OF split] .
  have "to_ascii_lowercase ?o = ?o" by (rule lower_idem)
  then show thesis using that [of scheme default_port host port] hp ok po scheme by simp
qed

lemma authority_not_empty: "parse_origin value = Inr po \<Longrightarrow> po_authority po \<noteq> []"
  using authority_last by (auto elim!: parse_origin_Inr)

lemma origin_reparses:
  assumes "parse_origin value = Inr po"
  shows "parse_origin (po_origin po) = Inr po"
proof -
  obtain scheme default_port host port where *:
    "po_origin po = scheme @ po_authority po" "scheme_port scheme default_port"
    "host_and_port (po_authority po) = (host, port)" "valid_host host"
    "\<forall>p. port = Some p \<longrightarrow> valid_port p \<and> p \<noteq> default_port"
    "to_ascii_lowercase (po_origin po) = po_origin po"
    using parse_origin_Inr [OF assms] .
  have last: "po_authority po \<noteq> []" "plain_char (last (po_authority po))"
    using authority_last [OF *(3,4)] *(5) by auto
  have scheme: "scheme \<noteq> []" "\<not> is_white (hd scheme)"
    using *(2) by (auto simp: scheme_port_def lit_def is_white_def)
  have "trim (po_origin po) = po_origin po"
    using last scheme unfolding *(1) by (intro trim_ends) (auto simp: plain_char_def)
  moreover have "dropWhile (\<lambda>c. c = 47) (rev (po_origin po)) = rev (po_origin po)"
    using last unfolding *(1) by (auto simp: dropWhile_eq_self_iff hd_rev hd_append plain_char_def)
  ultimately have norm: "to_ascii_lowercase (rev (dropWhile (\<lambda>c. c = 47) (rev (trim (po_origin po)))))
      = scheme @ po_authority po"
    using *(1,6) by simp
  show ?thesis
    using *(1,3,4,5) unfolding parse_origin_def Let_def norm split_scheme_append [OF *(2)]
    by (auto split: option.splits)
qed

text \<open>What \<open>PublicOrigin::parse\<close> accepts is in normal form: the origin is its scheme and
  authority, in lower case, without a trailing slash or spaces, and reading it again gives
  the same origin, so it equals what a browser on it sends.\<close>

lemma origin_normal_form:
  assumes "parse_origin value = Inr po"
  shows "parse_origin (po_origin po) = Inr po
    \<and> (po_origin po = lit ''https://'' @ po_authority po \<or> po_origin po = lit ''http://'' @ po_authority po)
    \<and> to_ascii_lowercase (po_origin po) = po_origin po"
proof -
  obtain scheme default_port host port where
    "po_origin po = scheme @ po_authority po" "scheme_port scheme default_port"
    "to_ascii_lowercase (po_origin po) = po_origin po"
    using parse_origin_Inr [OF assms] by metis
  then show ?thesis using origin_reparses [OF assms] unfolding scheme_port_def by metis
qed

lemma origin_normal_form_witness:
  "parse_origin (lit ''https://b.lan:8443'') = Inr \<lparr>po_origin = lit ''https://b.lan:8443'', po_authority = lit ''b.lan:8443''\<rparr>"
proof -
  have "parse_origin (lit '' HTTPS://B.lan:8443/'') =
      Inr \<lparr>po_origin = lit ''https://b.lan:8443'', po_authority = lit ''b.lan:8443''\<rparr>"
    by (simp add: parse_origin_def text_defs split_scheme_def Let_def strip_prefix_def host_and_port_def rsplit_once_def
        valid_host_def host_char_def valid_port_def decimal_value_def)
  from origin_normal_form [OF this] show ?thesis by simp
qed

section \<open>Reading the cookie back\<close>

lemma find_map_filter:
  assumes "\<forall>x \<in> set xs. \<forall>v. f x \<noteq> Some (name, v)" and "f y = Some (name, value)"
  shows "find (\<lambda>(n, _). n = name) (List.map_filter f (xs @ y # zs)) = Some (name, value)"
  using assms by (induction xs) (auto simp: List.map_filter_simps split: option.splits)

text \<open>The cookie that a sign-in sets reads back as its token: the pair of the
  \<open>Set-Cookie\<close> value, among any other cookies that do not bear its name, gives the token.\<close>

lemma session_cookie_roundtrip:
  assumes own: "trim pair = hd (split_on 59 (session_cookie token))" "59 \<notin> set pair"
    and token: "token \<noteq> []" "59 \<notin> set token"
    and before: "\<forall>p \<in> set before. 59 \<notin> set p \<and> (\<forall>v. split_once 61 (trim p) \<noteq> Some (SESSION_COOKIE, v))"
    and after: "\<forall>p \<in> set after. 59 \<notin> set p"
    and rq: "header_values (lit ''cookie'') rq = [Some (join_with 59 (before @ pair # after))]"
  shows "session_token rq = Some token"
proof -
  have name: "59 \<notin> set SESSION_COOKIE" "61 \<notin> set SESSION_COOKIE"
    by (simp_all add: SESSION_COOKIE_def lit_def)
  have "59 \<notin> set (SESSION_COOKIE @ 61 # token)" using name(1) token(2) by simp
  from split_on_append [OF this] have "trim pair = SESSION_COOKIE @ 61 # token"
    using own(1) by (simp add: session_cookie_def lit_def)
  then have mine: "split_once 61 (trim pair) = Some (SESSION_COOKIE, token)"
    using split_once_append [OF name(2)] by simp
  have "split_on 59 (join_with 59 (before @ pair # after)) = before @ pair # after"
    using before after own(2) by (intro split_on_join) auto
  then have "session_token rq = (case find (\<lambda>(n, _). n = SESSION_COOKIE)
      (List.map_filter (\<lambda>p. split_once 61 (trim p)) (before @ pair # after)) of
        None \<Rightarrow> None | Some (_, value) \<Rightarrow> if value = [] then None else Some value)"
    using rq by (simp add: session_token_def List.map_filter_simps)
  also have "\<dots> = Some token"
    using find_map_filter [of before "\<lambda>p. split_once 61 (trim p)" SESSION_COOKIE, OF _ mine] before token(1)
    by simp
  finally show ?thesis .
qed

definition example_request :: request where
  "example_request = \<lparr>rq_method = GET, rq_path = lit ''/'', rq_authority = None,
     rq_headers = [(lit ''cookie'', Some (join_with 59 [lit ''theme=dark'', 32 # SESSION_COOKIE @ lit ''=t2'']))],
     rq_peer = None\<rparr>"

lemma session_cookie_roundtrip_witness: "session_token example_request = Some (lit ''t2'')"
  by (rule session_cookie_roundtrip [where pair = "32 # SESSION_COOKIE @ lit ''=t2''"
        and before = "[lit ''theme=dark'']" and after = "[]"])
    (simp_all add: example_request_def header_values_def session_cookie_def SESSION_COOKIE_def text_defs)

section \<open>Signed-in requests\<close>

lemma reaches_admin_route:
  assumes inv: "accounts_inv db"
  shows "(\<exists>db'. signed_in_admin th now rq db = Inr (si, db')) \<longleftrightarrow>
    (\<exists>token s u. session_token rq = Some token \<and> s \<in> set (db_sessions db) \<and> u \<in> set (db_users db)
       \<and> se_token_hash s = th token \<and> session_live now s \<and> ur_id u = se_user_id s
       \<and> \<not> ur_disabled u \<and> role_from (ur_role u) = Admin
       \<and> si = \<lparr>si_session_id = se_id s, si_account = account_from u\<rparr>)"
    (is "?reached \<longleftrightarrow> ?live")
proof
  assume ?reached
  then obtain db1 where adm: "signed_in_admin th now rq db = Inr (si, db1)" by blast
  then have res: "signed_in th now rq db = Inr (si, db1)"
    and admin: "u_role (ac_user (si_account si)) = Admin"
    by (auto simp: signed_in_admin_def and_then_Inr split: prod.splits if_splits)
  obtain token where token: "session_token rq = Some token"
    using res by (auto simp: signed_in_def and_then_Inr)
  obtain sn where found: "fst (find_session th now token db) = Some sn"
    and si: "si = \<lparr>si_session_id = sn_id sn, si_account = sn_account sn\<rparr>"
    using res token by (cases "find_session th now token db")
      (auto simp: signed_in_def split: option.splits)
  obtain s u where su: "s \<in> set (db_sessions db)" "u \<in> set (db_users db)" "ur_id u = se_user_id s"
    "se_token_hash s = th token" "session_live now s" "\<not> ur_disabled u"
    and sn: "sn = \<lparr>sn_id = se_id s, sn_account = account_from u\<rparr>"
    using find_session_Some [OF found] by blast
  have "role_from (ur_role u) = Admin"
    using admin si sn by (simp add: account_from_def Let_def)
  then show ?live using token su si sn by auto
next
  assume ?live
  then obtain token s u where token: "session_token rq = Some token"
    and su: "s \<in> set (db_sessions db)" "se_token_hash s = th token" "session_live now s"
      "u \<in> set (db_users db)" "ur_id u = se_user_id s" "\<not> ur_disabled u"
    and admin: "role_from (ur_role u) = Admin"
    and si: "si = \<lparr>si_session_id = se_id s, si_account = account_from u\<rparr>"
    by blast
  have "fst (find_session th now token db) = Some \<lparr>sn_id = se_id s, sn_account = account_from u\<rparr>"
    using find_session_complete [where th = th and token = token, OF inv su] .
  then obtain db' where "find_session th now token db
      = (Some \<lparr>sn_id = se_id s, sn_account = account_from u\<rparr>, db')"
    by (metis prod.collapse)
  moreover have "u_role (ac_user (account_from u)) = Admin"
    using admin by (simp add: account_from_def Let_def)
  ultimately show ?reached using token si by (simp add: signed_in_admin_def signed_in_def)
qed

text \<open>C10: a request reaches an admin's route exactly with the cookie of a session that is live at
  that time, not revoked and not expired, and belongs to an account that is enabled and an
  admin then, and it acts as that account: a session of a member, of a disabled account, one
  that was revoked or ran out, or a token nobody was given, reaches none.\<close>

theorem admin_routes_need_enabled_admin:
  assumes "accounts_inv db"
  shows "(\<exists>db'. signed_in_admin th now rq db = Inr (si, db')) \<longleftrightarrow>
    (\<exists>token s u. session_token rq = Some token \<and> s \<in> set (db_sessions db) \<and> u \<in> set (db_users db)
       \<and> se_token_hash s = th token \<and> se_revoked_at s = None \<and> now < se_expires_at s \<and> ur_id u = se_user_id s
       \<and> \<not> ur_disabled u \<and> role_from (ur_role u) = Admin
       \<and> si = \<lparr>si_session_id = se_id s, si_account = account_from u\<rparr>)"
  unfolding reaches_admin_route [OF assms] session_live_def by blast

theorem admin_routes_need_enabled_admin_witness:
  "\<nexists>db'. signed_in_admin id 1000 example_request example_household
     = Inr (\<lparr>si_session_id = 2, si_account = account_from BEN\<rparr>, db')"
proof -
  have token: "session_token example_request = Some (lit ''t2'')"
    by (simp add: session_token_def example_request_def header_values_def SESSION_COOKIE_def text_defs
        List.map_filter_simps)
  show ?thesis
    unfolding admin_routes_need_enabled_admin [OF example_inv] token
    by (auto simp: example_defs role_from_def lit_def)
qed

section \<open>Two admins at once\<close>

definition disabling :: account_changes where
  "disabling = \<lparr>ch_display_name = None, ch_disabled = Some True, ch_limits = None, ch_permissions = None, ch_oversight = None\<rparr>"

text \<open>Disabling another account works whoever asks, and touches nobody else.\<close>

lemma disable_account:
  assumes inv: "accounts_inv db" and target: "r \<in> set (db_users db)" "ur_id r = target" "target \<noteq> admin"
  shows "\<exists>x db'. admin_update_user now admin target disabling db = Inr (x, db') \<and> accounts_inv db'
    \<and> db_users db' = update_where (\<lambda>r. ur_id r = target) (\<lambda>r. r\<lparr>ur_disabled := True, ur_updated_at := now\<rparr>) (db_users db)"
proof -
  let ?db = "write_disabled now target True db"
  have users: "db_users ?db = update_where (\<lambda>r. ur_id r = target) (\<lambda>r. r\<lparr>ur_disabled := True, ur_updated_at := now\<rparr>) (db_users db)"
    by (simp add: write_disabled_def Let_def update_user_def)
  have found: "find_user db target = Some r" using target find_user_iff [OF inv] by simp
  have "\<exists>q \<in> set (db_users ?db). ur_id q = target"
    unfolding users set_update_where
    by (rule bexI [of _ "r\<lparr>ur_disabled := True, ur_updated_at := now\<rparr>"]) (use target in \<open>auto intro!: image_eqI [of _ _ r]\<close>)
  then obtain q where q: "find_user ?db target = Some q"
    unfolding find_user_def by (metis (mono_tags, lifting) find_None_iff2 not_Some_eq option.distinct(1))
  then have upd: "admin_update_user now admin target disabling db = Inr (admin_user_of (account_from q), ?db)"
    using found target(3) by (simp add: admin_update_user_def disabling_def check_opt_def when_some_def account_def and_then_def Let_def)
  have "accounts_inv (account_step plain_argon [] id (UpdateUser now admin target disabling) db)"
    by (rule accounts_inv_step [OF inv]) (simp add: disabling_def)
  then show ?thesis using upd users by (simp add: tables_of_def)
qed

lemma enabled_admin_disabled:
  assumes "db_users db' = update_where (\<lambda>r. ur_id r = target) (\<lambda>r. r\<lparr>ur_disabled := True, ur_updated_at := now\<rparr>) (db_users db)"
  shows "enabled_admin db' i \<longleftrightarrow> enabled_admin db i \<and> i \<noteq> target"
  unfolding enabled_admin_def assms set_update_where by auto

lemma signed_in_keeps:
  assumes "signed_in_admin th now rq db = Inr (si, db')" and inv: "accounts_inv db"
  shows "db_users db' = db_users db" "accounts_inv db'"
proof -
  have res: "signed_in th now rq db = Inr (si, db')"
    using assms(1) by (auto simp: signed_in_admin_def and_then_Inr split: prod.splits if_splits)
  then obtain token where "session_token rq = Some token" by (auto simp: signed_in_def and_then_Inr)
  with res have "snd (find_session th now token db) = db'"
    by (cases "find_session th now token db") (auto simp: signed_in_def split: option.splits)
  moreover have "account_step plain_argon [] th (FindSession now token) db = snd (find_session th now token db)" by simp
  ultimately show "db_users db' = db_users db" "accounts_inv db'"
    using find_session_tables [of th now token db] accounts_inv_step [OF inv, of "FindSession now token" plain_argon "[]" th] by auto
qed

text \<open>C35: two admins can disable each other at once, and then the household has no admin. The
  gateway looks who asks before the transaction that changes the account, and the two requests
  change different accounts, so neither waits for the other: when both have passed the check
  of the route, both changes commit. If these two were the only enabled admins, no admin is
  left enabled and no request reaches an admin's route any more, so none enables them again.\<close>

theorem admins_disable_each_other:
  assumes "accounts_inv db"
    and "signed_in_admin th t1 rq1 db = Inr (si1, db1)" and "signed_in_admin th t2 rq2 db1 = Inr (si2, db2)"
    and "a = u_id (ac_user (si_account si1))" and "b = u_id (ac_user (si_account si2))" and "a \<noteq> b"
    and "\<forall>i. enabled_admin db i \<longrightarrow> i \<in> {a, b}"
  shows "\<exists>x y db3 db4. admin_update_user t3 a b disabling db2 = Inr (x, db3) \<and> admin_update_user t4 b a disabling db3 = Inr (y, db4)
    \<and> (\<nexists>i. enabled_admin db4 i) \<and> (\<forall>th now rq. \<nexists>si db'. signed_in_admin th now rq db4 = Inr (si, db'))"
proof -
  have db1: "accounts_inv db1" "db_users db1 = db_users db" using signed_in_keeps [OF assms(2,1)] by simp_all
  have db2: "accounts_inv db2" "db_users db2 = db_users db" using signed_in_keeps [OF assms(3) db1(1)] db1(2) by simp_all
  have id: "u_id (ac_user (account_from q)) = ur_id q" for q by (simp add: account_from_def Let_def)
  obtain u where u: "u \<in> set (db_users db)" "ur_id u = a"
    using iffD1 [OF reaches_admin_route [OF assms(1)], OF exI, OF assms(2)] assms(4) by (auto simp: id)
  obtain v where v: "v \<in> set (db_users db)" "ur_id v = b"
    using iffD1 [OF reaches_admin_route [OF db1(1)], OF exI, OF assms(3)] assms(5) db1(2) by (auto simp: id)
  obtain x db3 where db3: "admin_update_user t3 a b disabling db2 = Inr (x, db3)" "accounts_inv db3"
    "db_users db3 = update_where (\<lambda>r. ur_id r = b) (\<lambda>r. r\<lparr>ur_disabled := True, ur_updated_at := t3\<rparr>) (db_users db2)"
    using disable_account [OF db2(1), of v b a t3] v db2(2) assms(6) by auto
  have "u \<in> set (db_users db3)" using u db2(2) assms(6) unfolding db3(3) set_update_where by (auto intro!: image_eqI)
  then obtain y db4 where db4: "admin_update_user t4 b a disabling db3 = Inr (y, db4)" "accounts_inv db4"
    "db_users db4 = update_where (\<lambda>r. ur_id r = a) (\<lambda>r. r\<lparr>ur_disabled := True, ur_updated_at := t4\<rparr>) (db_users db3)"
    using disable_account [OF db3(2), of u a b t4] u(2) assms(6) by auto
  have nobody: "\<not> enabled_admin db4 i" for i
    using assms(7) db2(2) unfolding enabled_admin_disabled [OF db4(3)] enabled_admin_disabled [OF db3(3)]
    by (auto simp: enabled_admin_def)
  have "\<nexists>si db'. signed_in_admin th now rq db4 = Inr (si, db')" for th now rq
    using reaches_admin_route [OF db4(2)] nobody unfolding enabled_admin_def by metis
  then show ?thesis using db3(1) db4(1) nobody by blast
qed

definition two_admins :: accounts_db where
  "two_admins = example_household\<lparr>db_users := [ADA, BEN\<lparr>ur_role := lit ''admin''\<rparr>]\<rparr>"

definition ada_request :: request where
  "ada_request = example_request\<lparr>rq_headers := [(lit ''cookie'', Some (SESSION_COOKIE @ lit ''=t1''))]\<rparr>"

theorem admins_disable_each_other_witness:
  "\<exists>x y db3 db4. admin_update_user 1001 1 2 disabling two_admins = Inr (x, db3)
    \<and> admin_update_user 1002 2 1 disabling db3 = Inr (y, db4) \<and> (\<nexists>i. enabled_admin db4 i)"
proof -
  have inv: "accounts_inv two_admins"
    by (simp add: two_admins_def accounts_inv_def example_defs user_ok_def is_admin_row_def role_from_def
      text_defs default_permissions_def invitation_ok_def check_permissions_def invitation_permissions_def)
  have token: "session_token ada_request = Some (lit ''t1'')" "session_token example_request = Some (lit ''t2'')"
    by (simp_all add: session_token_def ada_request_def example_request_def header_values_def SESSION_COOKIE_def text_defs
        List.map_filter_simps)
  have "signed_in_admin id 1000 ada_request two_admins
      = Inr (\<lparr>si_session_id = 1, si_account = account_from ADA\<rparr>, two_admins)"
    "signed_in_admin id 1000 example_request two_admins
      = Inr (\<lparr>si_session_id = 2, si_account = account_from (BEN\<lparr>ur_role := lit ''admin''\<rparr>)\<rparr>, two_admins)"
    by (simp_all add: signed_in_admin_def signed_in_def token find_session_def join_session_def session_live_def two_admins_def
        example_defs account_from_def Let_def role_from_def lit_def HOUR_MS_def MINUTE_MS_def)
  note reached = this
  have only: "\<forall>i. enabled_admin two_admins i \<longrightarrow> i \<in> {1, 2}"
    by (auto simp: enabled_admin_def two_admins_def example_defs)
  have "(1 :: int) = u_id (ac_user (account_from ADA))" "(2 :: int) = u_id (ac_user (account_from (BEN\<lparr>ur_role := lit ''admin''\<rparr>)))"
    by (simp_all add: account_from_def Let_def example_defs)
  then show ?thesis
    using admins_disable_each_other [OF inv reached _ _ _ only, of 1001 1002] by auto
qed

section \<open>The client's address\<close>

lemma split_on_last: "sep \<notin> set b \<Longrightarrow> \<exists>p ps. split_on sep (a @ sep # b) = (p # ps) @ [b]"
  by (induction a) (auto simp: split_on_piece split: list.splits)

text \<open>Behind a trusted proxy the address that counts is the one the proxy appended,
  whatever a client wrote before it in the same header or in earlier ones; without a trusted
  proxy the header counts for nothing.\<close>

lemma forged_addresses_do_not_count:
  assumes "header_values (lit ''x-forwarded-for'') rq = earlier @ [Some (forged @ 44 # appended)]"
    and "44 \<notin> set appended" and "trim appended \<noteq> []"
  shows "client_address rq True = trim appended
    \<and> client_address rq False = (case rq_peer rq of None \<Rightarrow> lit ''unknown'' | Some ip \<Rightarrow> ip)"
proof -
  obtain ps where ps: "split_on 44 (forged @ 44 # appended) = ps @ [appended]"
    using split_on_last [OF assms(2)] by metis
  have "List.map_filter id (earlier @ [Some x]) = List.map_filter id earlier @ [x]" for x :: utext
    by (induction earlier) (auto simp: List.map_filter_simps split: option.splits)
  then show ?thesis using assms(1,3) ps by (simp add: client_address_def)
qed

lemma forged_addresses_do_not_count_witness:
  "client_address (example_request\<lparr>rq_headers := [(lit ''x-forwarded-for'', Some (lit ''1.2.3.4, 10.0.0.7''))]\<rparr>) True
     = lit ''10.0.0.7''"
  using forged_addresses_do_not_count [of
      "example_request\<lparr>rq_headers := [(lit ''x-forwarded-for'', Some (lit ''1.2.3.4, 10.0.0.7''))]\<rparr>"
      "[]" "lit ''1.2.3.4''" "lit '' 10.0.0.7''"]
  by (simp add: header_values_def text_defs)

text \<open>C30: a request that changes state, and every WebSocket upgrade, passes the guard only
  when its \<open>Origin\<close> is the gateway's public origin up to letter case, whatever its path and its
  host. Unless it goes to \<open>/healthz\<close>, its \<open>Host\<close> is besides the authority of that origin, or one
  of the further hosts the operator listed in \<open>BOKKIE_EXTRA_HOSTS\<close>, up to letter case.\<close>

theorem cross_origin_changes_are_refused:
  assumes origin: "parse_origin value = Inr (cf_origin cfg)" and extra: "cf_extra_hosts cfg = parse_extra_hosts hosts"
    and passed: "guard cfg rq = Inr ()"
    and changes: "rq_method rq \<notin> {GET, HEAD, OPTIONS} \<or> header_values (lit ''upgrade'') rq \<noteq> []"
  shows "\<exists>o_text. header_text (lit ''origin'') rq = Some o_text
    \<and> parse_origin (to_ascii_lowercase o_text) = Inr (cf_origin cfg)
    \<and> to_ascii_lowercase o_text = po_origin (cf_origin cfg)
    \<and> (rq_path rq = lit ''/healthz'' \<or> (\<exists>h_text. host_of rq = Some h_text \<and> h_text \<noteq> []
         \<and> (to_ascii_lowercase o_text = lit ''https://'' @ to_ascii_lowercase h_text
            \<or> to_ascii_lowercase o_text = lit ''http://'' @ to_ascii_lowercase h_text
            \<or> (\<exists>listed \<in> set (split_on 44 hosts). to_ascii_lowercase (trim listed) = to_ascii_lowercase h_text))))"
proof -
  obtain scheme default_port where norm:
    "po_origin (cf_origin cfg) = scheme @ po_authority (cf_origin cfg)" "scheme_port scheme default_port"
    using parse_origin_Inr [OF origin] by metis
  obtain o_text where o: "header_text (lit ''origin'') rq = Some o_text"
    "to_ascii_lowercase o_text = po_origin (cf_origin cfg)"
    using passed changes by (auto simp: guard_def Let_def split: if_splits)
  have "rq_path rq = lit ''/healthz'' \<or> (\<exists>h. host_of rq = Some h \<and> accepts_host cfg h)"
    using passed by (auto simp: guard_def Let_def split: if_splits option.splits)
  moreover have "h \<noteq> [] \<and> (po_origin (cf_origin cfg) = lit ''https://'' @ to_ascii_lowercase h
      \<or> po_origin (cf_origin cfg) = lit ''http://'' @ to_ascii_lowercase h
      \<or> (\<exists>listed \<in> set (split_on 44 hosts). to_ascii_lowercase (trim listed) = to_ascii_lowercase h))"
    if h: "accepts_host cfg h" for h
  proof (rule conjI)
    have "to_ascii_lowercase h = po_authority (cf_origin cfg) \<or> to_ascii_lowercase h \<in> set (parse_extra_hosts hosts)"
      using h by (simp add: accepts_host_def extra Let_def)
    moreover from this have "to_ascii_lowercase h \<noteq> []"
      using authority_not_empty [OF origin] by (auto simp: parse_extra_hosts_def)
    then show "h \<noteq> []" by (auto simp: to_ascii_lowercase_def)
    ultimately show "po_origin (cf_origin cfg) = lit ''https://'' @ to_ascii_lowercase h
        \<or> po_origin (cf_origin cfg) = lit ''http://'' @ to_ascii_lowercase h
        \<or> (\<exists>listed \<in> set (split_on 44 hosts). to_ascii_lowercase (trim listed) = to_ascii_lowercase h)"
      using norm by (auto simp: parse_extra_hosts_def scheme_port_def)
  qed
  ultimately show ?thesis using o origin_reparses [OF origin] by metis
qed

text \<open>A change through a tailnet name that the operator listed.\<close>

definition example_config :: config where
  "example_config = \<lparr>cf_origin = \<lparr>po_origin = lit ''https://b.lan'', po_authority = lit ''b.lan''\<rparr>,
     cf_extra_hosts = parse_extra_hosts (lit ''Tail.net, ''), cf_trust_forwarded_for = True\<rparr>"

definition example_change :: request where
  "example_change = \<lparr>rq_method = OtherMethod (lit ''PUT''), rq_path = lit ''/api'', rq_authority = None,
     rq_headers = [(lit ''host'', Some (lit ''tail.NET'')), (lit ''origin'', Some (lit ''https://B.lan''))],
     rq_peer = None\<rparr>"

lemma example_origin: "parse_origin (lit ''https://b.lan'') = Inr (cf_origin example_config)"
  by (simp add: parse_origin_def text_defs split_scheme_def Let_def strip_prefix_def host_and_port_def
      rsplit_once_def valid_host_def host_char_def example_config_def)

theorem cross_origin_changes_are_refused_witness:
  "guard example_config example_change = Inr () \<and> parse_origin (lit ''https://b.lan'') = Inr (cf_origin example_config)"
proof -
  have hosts: "cf_extra_hosts example_config = parse_extra_hosts (lit ''Tail.net, '')" by (simp add: example_config_def)
  have passed: "guard example_config example_change = Inr ()" by code_simp
  have lower: "to_ascii_lowercase (lit ''https://B.lan'') = lit ''https://b.lan''"
    "header_text (lit ''origin'') example_change = Some (lit ''https://B.lan'')" by code_simp+
  show ?thesis
    using cross_origin_changes_are_refused [OF example_origin hosts passed] passed lower
    by (auto simp: example_change_def)
qed

end
