(* ===== verification/UsageMeter.thy ===== *)
theory UsageMeter
  imports Accounts
begin

text \<open>
  \<open>crates/bokkie-gateway/src/usage.rs\<close> over the tables of migrations 0004 and 0008: the
  turns and tokens each user has used, their allowance, and the subscription's rate-limit
  buckets with the cache of what each user's app server reported. The account tables give
  the limits.
\<close>

section \<open>Tables\<close>

record turn_row =
  tn_id :: int
  tn_user_id :: int
  tn_bot_id :: int
  tn_at :: int

record token_row =
  tk_user_id :: int
  tk_bot_id :: int
  tk_at :: int
  tk_tokens :: int
  tk_turn_id :: "utext option"

record thread_row =
  th_user_id :: int
  th_thread_id :: utext
  th_bot_id :: int
  th_tokens_reported :: int

text \<open>Of the Bots only the id and the owner matter here.\<close>

record usage_db =
  ud_bots :: "(int \<times> int) list"
  ud_turns :: "turn_row list"
  ud_tokens :: "token_row list"
  ud_threads :: "thread_row list"

definition TURN_WINDOW_MS :: int where
  "TURN_WINDOW_MS = DAY_MS"

definition TOKEN_WINDOW_MS :: int where
  "TOKEN_WINDOW_MS = 7 * DAY_MS"

section \<open>Allowances\<close>

definition turns_since :: "int \<Rightarrow> int \<Rightarrow> turn_row list \<Rightarrow> turn_row list" where
  "turns_since now user rows = filter (\<lambda>r. tn_user_id r = user \<and> now - TURN_WINDOW_MS < tn_at r) rows"

definition tokens_since :: "int \<Rightarrow> int \<Rightarrow> token_row list \<Rightarrow> token_row list" where
  "tokens_since now user rows = filter (\<lambda>r. tk_user_id r = user \<and> now - TOKEN_WINDOW_MS < tk_at r) rows"

definition allowance_of :: "int \<Rightarrow> int \<Rightarrow> limits \<Rightarrow> usage_db \<Rightarrow> allowance" where
  "allowance_of now user l db =
     (let turns = length (turns_since now user (ud_turns db));
          tokens = sum_list (map tk_tokens (tokens_since now user (ud_tokens db)));
          turns_today = (if turns < 2 ^ 32 then turns else 2 ^ 32 - 1);
          tokens_this_week = (if tokens < 0 then 0 else nat tokens)
      in \<lparr>al_limits = l, al_turns_today = turns_today, al_tokens_this_week = tokens_this_week,
          al_exhausted =
            (case daily_turns l of None \<Rightarrow> False | Some n \<Rightarrow> turns_today \<ge> n)
            \<or> (case weekly_tokens l of None \<Rightarrow> False | Some n \<Rightarrow> tokens_this_week \<ge> n)\<rparr>)"

definition limits_of :: "accounts_db \<Rightarrow> int \<Rightarrow> limits" where
  "limits_of adb user = (case account adb user of None \<Rightarrow> no_limits | Some a \<Rightarrow> ac_limits a)"

definition reserve_turn ::
  "int \<Rightarrow> int \<Rightarrow> int \<Rightarrow> accounts_db \<Rightarrow> usage_db \<Rightarrow> failure + int option \<times> usage_db" where
  "reserve_turn now user botid adb db =
     (if al_exhausted (allowance_of now user (limits_of adb user) db) then Inr (None, db)
      else if (botid, user) \<notin> set (ud_bots db) then Inl not_found
      else
        let turn = next_rowid (map tn_id (ud_turns db)) in
        Inr (Some turn, db\<lparr>ud_turns := ud_turns db @
          [\<lparr>tn_id = turn, tn_user_id = user, tn_bot_id = botid, tn_at = now\<rparr>]\<rparr>))"

definition release_turn :: "int \<Rightarrow> int \<Rightarrow> usage_db \<Rightarrow> usage_db" where
  "release_turn user turn db =
     db\<lparr>ud_turns := filter (\<lambda>r. \<not> (tn_id r = turn \<and> tn_user_id r = user)) (ud_turns db)\<rparr>"

definition cap_total :: "nat \<Rightarrow> int" where
  "cap_total t = (if t < 2 ^ 63 then int t else 2 ^ 63 - 1)"

definition record_turn_tokens ::
  "int \<Rightarrow> int \<Rightarrow> int \<Rightarrow> utext \<Rightarrow> utext option \<Rightarrow> nat \<Rightarrow> usage_db \<Rightarrow> failure + nat \<times> usage_db" where
  "record_turn_tokens now user botid thread turn thread_total db =
     (case find (\<lambda>r. th_user_id r = user \<and> th_thread_id r = thread \<and> th_bot_id r = botid) (ud_threads db) of
        None \<Rightarrow> Inl not_found
      | Some r \<Rightarrow>
          let total = cap_total thread_total;
              growth = max (total - th_tokens_reported r) 0;
              db1 = db\<lparr>ud_threads := update_where (\<lambda>r. th_user_id r = user \<and> th_thread_id r = thread)
                (\<lambda>r. r\<lparr>th_tokens_reported := total\<rparr>) (ud_threads db)\<rparr>;
              db2 = (if growth > 0
                then db1\<lparr>ud_tokens := ud_tokens db1 @
                  [\<lparr>tk_user_id = user, tk_bot_id = botid, tk_at = now, tk_tokens = growth, tk_turn_id = turn\<rparr>]\<rparr>
                else db1)
          in Inr (nat growth, db2))"

definition record_tokens ::
  "int \<Rightarrow> int \<Rightarrow> int \<Rightarrow> utext \<Rightarrow> nat \<Rightarrow> usage_db \<Rightarrow> failure + nat \<times> usage_db" where
  "record_tokens now user botid thread thread_total db =
     record_turn_tokens now user botid thread None thread_total db"

definition rolled_over :: "int \<Rightarrow> int \<Rightarrow> usage_db \<Rightarrow> int set" where
  "rolled_over since now db =
     tn_user_id ` {r \<in> set (ud_turns db). since - TURN_WINDOW_MS < tn_at r \<and> tn_at r \<le> now - TURN_WINDOW_MS}
     \<union> tk_user_id ` {r \<in> set (ud_tokens db). since - TOKEN_WINDOW_MS < tk_at r \<and> tk_at r \<le> now - TOKEN_WINDOW_MS}"

definition prune_turns :: "int \<Rightarrow> turn_row list \<Rightarrow> turn_row list" where
  "prune_turns now rows = filter (\<lambda>r. \<not> tn_at r \<le> now - TURN_WINDOW_MS) rows"

definition prune_tokens :: "int \<Rightarrow> token_row list \<Rightarrow> token_row list" where
  "prune_tokens now rows = filter (\<lambda>r. \<not> tk_at r \<le> now - TOKEN_WINDOW_MS) rows"

definition prune_usage :: "int \<Rightarrow> usage_db \<Rightarrow> usage_db" where
  "prune_usage now db =
     db\<lparr>ud_turns := prune_turns now (ud_turns db), ud_tokens := prune_tokens now (ud_tokens db)\<rparr>"

section \<open>The subscription's buckets\<close>

record codex_window =
  cw_used_percent :: int
  cw_window_duration_mins :: "int option"
  cw_resets_at :: "int option"

record snapshot =
  sp_limit_id :: "utext option"
  sp_limit_name :: "utext option"
  sp_plan_type :: "utext option"
  sp_primary :: "codex_window option"
  sp_secondary :: "codex_window option"
  sp_reached_type :: "utext option"

record rate_limits_response =
  rr_rate_limits :: snapshot
  rr_by_limit_id :: "(utext \<times> snapshot) list option"

text \<open>\<open>saturating_mul\<close> on \<open>i64\<close>.\<close>

definition saturate_i64 :: "int \<Rightarrow> int" where
  "saturate_i64 i = max (- (2 ^ 63)) (min (2 ^ 63 - 1) i)"

definition seconds_to_timestamp :: "int \<Rightarrow> int" where
  "seconds_to_timestamp seconds = saturate_i64 (seconds * 1000)"

definition window_of :: "codex_window \<Rightarrow> rate_limit_window" where
  "window_of w = \<lparr>w_used_percent = cw_used_percent w, w_window_minutes = cw_window_duration_mins w,
     w_resets_at = map_option seconds_to_timestamp (cw_resets_at w)\<rparr>"

definition windows_full :: "rate_limit_window option \<Rightarrow> rate_limit_window option \<Rightarrow> bool" where
  "windows_full a b \<longleftrightarrow> list_ex (\<lambda>w. w_used_percent w \<ge> 100) (List.map_filter id [a, b])"

definition bucket_of :: "utext \<Rightarrow> snapshot \<Rightarrow> rate_limit_bucket" where
  "bucket_of fallback s =
     (let primary = map_option window_of (sp_primary s);
          secondary = map_option window_of (sp_secondary s)
      in \<lparr>bk_id = (case sp_limit_id s of None \<Rightarrow> fallback | Some i \<Rightarrow> i), bk_name = sp_limit_name s,
          bk_primary = primary, bk_secondary = secondary,
          bk_reached = (sp_reached_type s \<noteq> None \<or> windows_full primary secondary)\<rparr>)"

definition buckets_of :: "rate_limits_response \<Rightarrow> rate_limit_bucket list" where
  "buckets_of r =
     (case rr_by_limit_id r of
        Some by_id \<Rightarrow>
          if by_id \<noteq> [] then map (\<lambda>(i, s). bucket_of i s) by_id
          else [bucket_of (lit ''codex'') (rr_rate_limits r)]
      | None \<Rightarrow> [bucket_of (lit ''codex'') (rr_rate_limits r)])"

text \<open>\<open>is_some\<close> replaces, \<open>None\<close> keeps.\<close>

definition or_known :: "'a option \<Rightarrow> 'a option \<Rightarrow> 'a option" where
  "or_known new known = (if new \<noteq> None then new else known)"

definition merge_bucket :: "snapshot \<Rightarrow> rate_limit_bucket \<Rightarrow> rate_limit_bucket \<Rightarrow> rate_limit_bucket" where
  "merge_bucket s updated existing =
     (let primary = or_known (bk_primary updated) (bk_primary existing);
          secondary = or_known (bk_secondary updated) (bk_secondary existing)
      in existing\<lparr>bk_name := or_known (bk_name updated) (bk_name existing), bk_primary := primary,
          bk_secondary := secondary,
          bk_reached := (sp_reached_type s \<noteq> None \<or> windows_full primary secondary)\<rparr>)"

text \<open>\<open>iter_mut().find\<close>: the first bucket of the id is merged in place.\<close>

fun merge_into :: "snapshot \<Rightarrow> rate_limit_bucket \<Rightarrow> rate_limit_bucket list \<Rightarrow> rate_limit_bucket list" where
  "merge_into s updated [] = [updated]"
| "merge_into s updated (b # bs) =
     (if bk_id b = bk_id updated then merge_bucket s updated b # bs else b # merge_into s updated bs)"

definition merge_snapshot :: "rate_limit_bucket list \<Rightarrow> snapshot \<Rightarrow> rate_limit_bucket list" where
  "merge_snapshot bs s = merge_into s (bucket_of (lit ''codex'') s) bs"

definition bucket_windows :: "rate_limit_bucket list \<Rightarrow> rate_limit_window list" where
  "bucket_windows bs = List.map_filter id (concat (map (\<lambda>b. [bk_primary b, bk_secondary b]) bs))"

definition stale :: "rate_limit_bucket list \<Rightarrow> int \<Rightarrow> bool" where
  "stale bs now \<longleftrightarrow>
     list_ex (\<lambda>w. case w_resets_at w of None \<Rightarrow> False | Some at \<Rightarrow> at \<le> now) (bucket_windows bs)"

type_synonym subscription_cache = "int \<Rightarrow> rate_limit_bucket list option"

definition cache_get :: "subscription_cache \<Rightarrow> int \<Rightarrow> rate_limit_bucket list option" where
  "cache_get c user = c user"

definition cache_set :: "subscription_cache \<Rightarrow> int \<Rightarrow> rate_limit_bucket list \<Rightarrow> subscription_cache" where
  "cache_set c user bs = c(user \<mapsto> bs)"

definition resetting :: "subscription_cache \<Rightarrow> int \<Rightarrow> int \<Rightarrow> int set" where
  "resetting c since now = {user. case c user of None \<Rightarrow> False | Some bs \<Rightarrow>
     list_ex (\<lambda>w. case w_resets_at w of None \<Rightarrow> False | Some at \<Rightarrow> since < at \<and> at \<le> now) (bucket_windows bs)}"

definition cache_update ::
  "subscription_cache \<Rightarrow> int \<Rightarrow> snapshot \<Rightarrow> rate_limit_bucket list \<times> subscription_cache" where
  "cache_update c user s =
     (let bs = merge_snapshot (case c user of None \<Rightarrow> [] | Some bs \<Rightarrow> bs) s in (bs, c(user \<mapsto> bs)))"

definition usage_of :: "rate_limit_bucket list \<Rightarrow> allowance \<Rightarrow> usage" where
  "usage_of subscription a = \<lparr>us_subscription = subscription, us_allowance = a\<rparr>"

definition admin_usage :: "int \<Rightarrow> int \<Rightarrow> accounts_db \<Rightarrow> usage_db \<Rightarrow> failure + allowance" where
  "admin_usage now user adb db =
     and_then (ok_or not_found (account adb user)) (\<lambda>a. Inr (allowance_of now user (limits_of adb user) db))"

section \<open>Pruning and rolling over\<close>

interpretation turns: retained_table tn_at TURN_WINDOW_MS prune_turns
    "\<lambda>now. turns_since now user" "\<lambda>r. tn_user_id r = user" for user
  by unfold_locales (auto simp: prune_turns_def turns_since_def)

interpretation tokens: retained_table tk_at TOKEN_WINDOW_MS prune_tokens
    "\<lambda>now. tokens_since now user" "\<lambda>r. tk_user_id r = user" for user
  by unfold_locales (auto simp: prune_tokens_def tokens_since_def)

lemma allowance_cong:
  "length (turns_since now user (ud_turns db)) = length (turns_since now' user (ud_turns db')) \<Longrightarrow>
   tokens_since now user (ud_tokens db) = tokens_since now' user (ud_tokens db') \<Longrightarrow>
   allowance_of now user l db = allowance_of now' user l db'"
  by (simp add: allowance_of_def)

text \<open>Deleting usage that no window counts changes nobody's allowance, then or later, so
  when the pruning runs does not matter.\<close>

lemma pruning_keeps_allowances:
  assumes "now \<le> later"
  shows "allowance_of later user l (prune_usage now db) = allowance_of later user l db"
  by (rule allowance_cong) (simp_all add: prune_usage_def turns.visible_prune [OF assms]
      tokens.visible_prune [OF assms])

lemma pruning_keeps_allowances_witness:
  "allowance_of 9 1 no_limits (prune_usage 7 \<lparr>ud_bots = [], ud_turns = [\<lparr>tn_id = 1, tn_user_id = 1, tn_bot_id = 1, tn_at = 5\<rparr>],
      ud_tokens = [], ud_threads = []\<rparr>)
   = allowance_of 9 1 no_limits \<lparr>ud_bots = [], ud_turns = [\<lparr>tn_id = 1, tn_user_id = 1, tn_bot_id = 1, tn_at = 5\<rparr>],
      ud_tokens = [], ud_threads = []\<rparr>"
  by (rule pruning_keeps_allowances) simp

text \<open>Every user whose allowance differs between two times, with no usage in between, is
  reported as rolled over, so a meter shown to a user never goes stale unnoticed.\<close>

lemma rolled_over_catches_changes:
  assumes "since \<le> now" and "allowance_of since user l db \<noteq> allowance_of now user l db"
  shows "user \<in> rolled_over since now db"
proof (rule ccontr)
  assume no: "user \<notin> rolled_over since now db"
  have "turns_since since user (ud_turns db) = turns_since now user (ud_turns db)"
    using no assms(1) unfolding turns_since_def by (intro filter_cong) (force simp: rolled_over_def)+
  moreover have "tokens_since since user (ud_tokens db) = tokens_since now user (ud_tokens db)"
    using no assms(1) unfolding tokens_since_def by (intro filter_cong) (force simp: rolled_over_def)+
  ultimately have "allowance_of since user l db = allowance_of now user l db"
    by (intro allowance_cong) simp_all
  then show False using assms(2) by simp
qed

lemma rolled_over_catches_changes_witness:
  "1 \<in> rolled_over 5 (5 + DAY_MS) \<lparr>ud_bots = [], ud_turns = [\<lparr>tn_id = 1, tn_user_id = 1, tn_bot_id = 1, tn_at = 5\<rparr>],
      ud_tokens = [], ud_threads = []\<rparr>"
  by (rule rolled_over_catches_changes [where l = no_limits])
    (simp_all add: allowance_of_def turns_since_def tokens_since_def TURN_WINDOW_MS_def DAY_MS_def
      HOUR_MS_def MINUTE_MS_def)

section \<open>The daily limit along a run\<close>

datatype usage_op =
    Reserve int int int
  | Release int int int
  | Report int int int utext "utext option" nat
  | Prune int

fun usage_time :: "usage_op \<Rightarrow> int" where
  "usage_time (Reserve now user botid) = now"
| "usage_time (Release now user turn) = now"
| "usage_time (Report now user botid thread turn thread_total) = now"
| "usage_time (Prune now) = now"

fun usage_step :: "accounts_db \<Rightarrow> usage_op \<Rightarrow> usage_db \<Rightarrow> usage_db" where
  "usage_step adb (Reserve now user botid) db =
     (case reserve_turn now user botid adb db of Inl _ \<Rightarrow> db | Inr (_, db') \<Rightarrow> db')"
| "usage_step adb (Release now user turn) db = release_turn user turn db"
| "usage_step adb (Report now user botid thread turn thread_total) db =
     (case record_turn_tokens now user botid thread turn thread_total db of Inl _ \<Rightarrow> db | Inr (_, db') \<Rightarrow> db')"
| "usage_step adb (Prune now) db = prune_usage now db"

fun usage_run :: "accounts_db \<Rightarrow> usage_op list \<Rightarrow> usage_db \<Rightarrow> usage_db" where
  "usage_run adb [] db = db"
| "usage_run adb (opr # ops) db = usage_run adb ops (usage_step adb opr db)"

lemma record_keeps_turns:
  "record_turn_tokens now user botid thread turn thread_total db = Inr (n, db') \<Longrightarrow> ud_turns db' = ud_turns db"
  by (auto simp: record_turn_tokens_def Let_def split: option.splits if_splits)

lemma length_filter_twice: "length (filter p (filter q xs)) \<le> length (filter p xs)"
  by (induction xs) auto

lemma usage_step_turns:
  assumes limit: "daily_turns (limits_of adb user) = Some n" "n < 2 ^ 32"
    and before: "length (turns_since t user (ud_turns db)) \<le> n" and t: "t \<le> usage_time opr"
  shows "length (turns_since (usage_time opr) user (ud_turns (usage_step adb opr db))) \<le> n"
proof -
  have mono: "length (turns_since (usage_time opr) user (ud_turns db)) \<le> n"
    using turns.length_visible_antimono [OF t] before le_trans by blast
  show ?thesis
  proof (cases opr)
    case (Reserve now who botid)
    then have mono: "length (turns_since now user (ud_turns db)) \<le> n" using mono by simp
    show ?thesis
    proof (cases "reserve_turn now who botid adb db")
      case (Inr r)
      obtain turn db' where r: "r = (turn, db')" by fastforce
      show ?thesis
      proof (cases turn)
        case None
        then show ?thesis using Inr r Reserve mono by (auto simp: reserve_turn_def Let_def split: if_splits)
      next
        case (Some i)
        then have db': "ud_turns db' = ud_turns db @
            [\<lparr>tn_id = i, tn_user_id = who, tn_bot_id = botid, tn_at = now\<rparr>]"
          and room: "\<not> al_exhausted (allowance_of now who (limits_of adb who) db)"
          using Inr r by (auto simp: reserve_turn_def Let_def split: if_splits)
        have "who = user \<Longrightarrow> length (turns_since now user (ud_turns db)) < n"
          using room limit by (auto simp: allowance_of_def Let_def split: if_splits)
        then show ?thesis
          using Reserve Inr r db' mono by (auto simp: turns_since_def)
      qed
    qed (use Reserve mono in simp)
  next
    case (Release now who turn)
    have "length (turns_since now user (ud_turns (release_turn who turn db)))
        \<le> length (turns_since now user (ud_turns db))"
    proof -
      have "ud_turns (release_turn who turn db) = filter (\<lambda>r. \<not> (tn_id r = turn \<and> tn_user_id r = who)) (ud_turns db)"
        by (simp add: release_turn_def)
      then show ?thesis unfolding turns_since_def by (simp only: length_filter_twice)
    qed
    then show ?thesis using Release mono by simp
  next
    case (Report now who botid thread turn thread_total)
    then show ?thesis using mono record_keeps_turns by (auto split: sum.splits)
  next
    case (Prune now)
    then show ?thesis using mono turns.visible_prune [of now now] by (simp add: prune_usage_def)
  qed
qed

fun usage_ordered :: "int \<Rightarrow> usage_op list \<Rightarrow> bool" where
  "usage_ordered t [] \<longleftrightarrow> True"
| "usage_ordered t (opr # ops) \<longleftrightarrow> t \<le> usage_time opr \<and> usage_ordered (usage_time opr) ops"

fun usage_end :: "int \<Rightarrow> usage_op list \<Rightarrow> int" where
  "usage_end t [] = t"
| "usage_end t (opr # ops) = usage_end (usage_time opr) ops"

lemma usage_run_turns:
  "daily_turns (limits_of adb user) = Some n \<Longrightarrow> n < 2 ^ 32 \<Longrightarrow> usage_ordered t ops \<Longrightarrow>
   length (turns_since t user (ud_turns db)) \<le> n \<Longrightarrow>
   length (turns_since (usage_end t ops) user (ud_turns (usage_run adb ops db))) \<le> n"
  by (induction t ops arbitrary: db rule: usage_ordered.induct) (simp_all add: usage_step_turns)

lemma limits_of_fit: "daily_turns (limits_of adb user) = Some n \<Longrightarrow> n < 2 ^ 32"
  by (auto simp: limits_of_def account_def account_from_def Let_def no_limits_def split: option.splits)

text \<open>C29: with a daily limit of \<open>n\<close> turns, however turns, releases, reports and pruning
  interleave in time, no rolling day ever holds more than \<open>n\<close> of the user's turns.\<close>

theorem daily_limit_holds:
  assumes limit: "daily_turns (limits_of adb user) = Some n" and order: "usage_ordered t ops"
    and start: "length (turns_since t user (ud_turns db)) \<le> n" and later: "usage_end t ops \<le> later"
  shows "length (turns_since later user (ud_turns (usage_run adb ops db))) \<le> n"
  using usage_run_turns [OF limit limits_of_fit [OF limit] order start]
    turns.length_visible_antimono [OF later] le_trans by blast

definition one_a_day :: accounts_db where
  "one_a_day = \<lparr>db_users = [(new_user_row 7 0 (lit ''ben'') (lit ''Ben'') Member default_permissions [])
     \<lparr>ur_daily_turns := Some 1\<rparr>], db_sessions = [], db_invitations = []\<rparr>"

theorem daily_limit_holds_witness:
  "length (turns_since 30 7 (ud_turns (usage_run one_a_day [Reserve 10 7 3, Reserve 20 7 3]
     \<lparr>ud_bots = [(3, 7)], ud_turns = [], ud_tokens = [], ud_threads = []\<rparr>))) \<le> 1"
  by (rule daily_limit_holds [where t = 0])
    (simp_all add: limits_of_def account_def find_user_def one_a_day_def new_user_row_def
      account_from_def Let_def turns_since_def)

section \<open>Token growth\<close>

definition tokens_used :: "int \<Rightarrow> usage_db \<Rightarrow> int" where
  "tokens_used user db = sum_list (map tk_tokens (filter (\<lambda>r. tk_user_id r = user) (ud_tokens db)))"

text \<open>One report after another for a thread, each with its time and total.\<close>

fun report_all :: "int \<Rightarrow> int \<Rightarrow> utext \<Rightarrow> (int \<times> nat) list \<Rightarrow> usage_db \<Rightarrow> usage_db" where
  "report_all user botid thread [] db = db"
| "report_all user botid thread ((now, t) # reports) db =
     (case record_tokens now user botid thread t db of
        Inl _ \<Rightarrow> report_all user botid thread reports db
      | Inr (_, db') \<Rightarrow> report_all user botid thread reports db')"

definition thread_base :: "int \<Rightarrow> int \<Rightarrow> utext \<Rightarrow> usage_db \<Rightarrow> int option" where
  "thread_base user botid thread db = map_option th_tokens_reported
     (find (\<lambda>r. th_user_id r = user \<and> th_thread_id r = thread \<and> th_bot_id r = botid) (ud_threads db))"

lemma thread_base_update:
  "thread_base user botid thread db = Some base \<Longrightarrow>
   map_option th_tokens_reported
     (find (\<lambda>r. th_user_id r = user \<and> th_thread_id r = thread \<and> th_bot_id r = botid)
       (update_where (\<lambda>r. th_user_id r = user \<and> th_thread_id r = thread)
          (\<lambda>r. r\<lparr>th_tokens_reported := t\<rparr>) (ud_threads db))) = Some t"
proof -
  have "map_option th_tokens_reported
     (find (\<lambda>r. th_user_id r = user \<and> th_thread_id r = thread \<and> th_bot_id r = botid) rows) = Some base \<Longrightarrow>
   map_option th_tokens_reported
     (find (\<lambda>r. th_user_id r = user \<and> th_thread_id r = thread \<and> th_bot_id r = botid)
       (update_where (\<lambda>r. th_user_id r = user \<and> th_thread_id r = thread)
          (\<lambda>r. r\<lparr>th_tokens_reported := t\<rparr>) rows)) = Some t" for rows
    by (induction rows) (auto simp: update_where_def split: if_splits)
  then show "thread_base user botid thread db = Some base \<Longrightarrow> ?thesis" by (simp add: thread_base_def)
qed

lemma record_tokens_grows:
  assumes "thread_base user botid thread db = Some base" and "base \<le> cap_total t"
  shows "\<exists>db'. record_tokens now user botid thread t db = Inr (nat (cap_total t - base), db')
    \<and> thread_base user botid thread db' = Some (cap_total t)
    \<and> tokens_used user db' = tokens_used user db + (cap_total t - base)"
proof -
  obtain r where r: "find (\<lambda>r. th_user_id r = user \<and> th_thread_id r = thread \<and> th_bot_id r = botid)
      (ud_threads db) = Some r" "th_tokens_reported r = base"
    using assms(1) by (auto simp: thread_base_def)
  show ?thesis
    using r assms(2) thread_base_update [OF assms(1), of "cap_total t"]
    by (auto simp: record_tokens_def record_turn_tokens_def Let_def thread_base_def tokens_used_def max_def)
qed

text \<open>Reports whose totals never fall charge the user exactly what the thread used: the
  last total less the baseline, each token once, however many reports say so. Totals are
  \<open>u64\<close> and stored as \<open>i64\<close>, which saturates.\<close>

lemma tokens_are_charged_once:
  assumes "thread_base user botid thread db = Some base"
    and "sorted (base # map (\<lambda>(_, t). cap_total t) reports)"
  shows "tokens_used user (report_all user botid thread reports db)
    = tokens_used user db + (last (base # map (\<lambda>(_, t). cap_total t) reports) - base)"
  using assms
proof (induction reports arbitrary: base db)
  case (Cons r reports)
  obtain now t where r: "r = (now, t)" by fastforce
  have "base \<le> cap_total t" using Cons.prems(2) r by simp
  from record_tokens_grows [OF Cons.prems(1) this, of now] obtain db' where
    db': "record_tokens now user botid thread t db = Inr (nat (cap_total t - base), db')"
    "thread_base user botid thread db' = Some (cap_total t)"
    "tokens_used user db' = tokens_used user db + (cap_total t - base)"
    by blast
  have "sorted (cap_total t # map (\<lambda>(_, t). cap_total t) reports)" using Cons.prems(2) r by simp
  from Cons.IH [OF db'(2) this] show ?case using db' r by (auto simp: last_map split: if_splits)
qed simp

lemma tokens_are_charged_once_witness:
  "tokens_used 7 (report_all 7 3 (lit ''t'') [(10, 100), (20, 100), (30, 250)]
     \<lparr>ud_bots = [(3, 7)], ud_turns = [], ud_tokens = [],
      ud_threads = [\<lparr>th_user_id = 7, th_thread_id = lit ''t'', th_bot_id = 3, th_tokens_reported = 40\<rparr>]\<rparr>) = 210"
  by (subst tokens_are_charged_once [where base = 40])
    (simp_all add: thread_base_def cap_total_def tokens_used_def)

section \<open>Sparse updates\<close>

lemma merge_into_other:
  "i \<noteq> bk_id u \<Longrightarrow> find (\<lambda>b. bk_id b = i) (merge_into s u bs) = find (\<lambda>b. bk_id b = i) bs"
  by (induction bs) (auto simp: merge_bucket_def Let_def)

lemma merge_into_same:
  "find (\<lambda>b. bk_id b = bk_id u) (merge_into s u bs) = (case find (\<lambda>b. bk_id b = bk_id u) bs of
     None \<Rightarrow> Some u | Some b \<Rightarrow> Some (merge_bucket s u b))"
  by (induction bs) (auto simp: merge_bucket_def Let_def)

text \<open>A sparse update of the subscription's limits replaces what it mentions and keeps
  everything else: other buckets are untouched, a window or name it leaves out keeps its
  known value, and the bucket counts as reached exactly when Codex says so or a window that
  is known after the update is full.\<close>

lemma sparse_update_keeps_the_rest:
  "find (\<lambda>b. bk_id b = i) (merge_snapshot bs s) =
    (if i \<noteq> (case sp_limit_id s of None \<Rightarrow> lit ''codex'' | Some j \<Rightarrow> j)
     then find (\<lambda>b. bk_id b = i) bs
     else Some (case find (\<lambda>b. bk_id b = i) bs of
         None \<Rightarrow> bucket_of (lit ''codex'') s
       | Some b \<Rightarrow>
           let primary = (case sp_primary s of None \<Rightarrow> bk_primary b | Some w \<Rightarrow> Some (window_of w));
               secondary = (case sp_secondary s of None \<Rightarrow> bk_secondary b | Some w \<Rightarrow> Some (window_of w))
           in b\<lparr>bk_name := (case sp_limit_name s of None \<Rightarrow> bk_name b | Some n \<Rightarrow> Some n),
                bk_primary := primary, bk_secondary := secondary,
                bk_reached := (sp_reached_type s \<noteq> None
                  \<or> (\<exists>w. (primary = Some w \<or> secondary = Some w) \<and> w_used_percent w \<ge> 100))\<rparr>))"
proof -
  have bid: "bk_id (bucket_of (lit ''codex'') s) = (case sp_limit_id s of None \<Rightarrow> lit ''codex'' | Some j \<Rightarrow> j)"
    by (cases "sp_limit_id s") (simp_all add: bucket_of_def Let_def)
  have full: "windows_full p q \<longleftrightarrow> (\<exists>w. (p = Some w \<or> q = Some w) \<and> w_used_percent w \<ge> 100)" for p q
    by (auto simp: windows_full_def List.map_filter_simps split: option.splits)
  have merged: "merge_bucket s (bucket_of (lit ''codex'') s) b =
      (let primary = (case sp_primary s of None \<Rightarrow> bk_primary b | Some w \<Rightarrow> Some (window_of w));
           secondary = (case sp_secondary s of None \<Rightarrow> bk_secondary b | Some w \<Rightarrow> Some (window_of w))
       in b\<lparr>bk_name := (case sp_limit_name s of None \<Rightarrow> bk_name b | Some n \<Rightarrow> Some n),
            bk_primary := primary, bk_secondary := secondary,
            bk_reached := (sp_reached_type s \<noteq> None
              \<or> (\<exists>w. (primary = Some w \<or> secondary = Some w) \<and> w_used_percent w \<ge> 100))\<rparr>)" for b
    unfolding merge_bucket_def full by (simp add: Let_def or_known_def bucket_of_def split: option.splits)
  show ?thesis
    unfolding merge_snapshot_def bid [symmetric] merged [symmetric]
    using merge_into_other [of i] merge_into_same by (cases "i = bk_id (bucket_of (lit ''codex'') s)") (auto split: option.splits)
qed

lemma sparse_update_keeps_the_rest_witness:
  "map_option bk_secondary (find (\<lambda>b. bk_id b = lit ''codex'') (merge_snapshot
     [\<lparr>bk_id = lit ''codex'', bk_name = None, bk_primary = None,
        bk_secondary = Some \<lparr>w_used_percent = 40, w_window_minutes = Some 300, w_resets_at = None\<rparr>,
        bk_reached = False\<rparr>]
     \<lparr>sp_limit_id = None, sp_limit_name = None, sp_plan_type = None, sp_primary = None, sp_secondary = None, sp_reached_type = None\<rparr>))
   = Some (Some \<lparr>w_used_percent = 40, w_window_minutes = Some 300, w_resets_at = None\<rparr>)"
  by (subst sparse_update_keeps_the_rest) simp

end
