(* ===== verification/EventLog.thy ===== *)
theory EventLog
  imports Failures
begin

text \<open>
  \<open>crates/bokkie-gateway/src/events.rs\<close> over the table of migration 0003: each user's
  numbered event log, written in batches, broadcast in commit order and pruned. The stored
  body is the event itself, since its JSON is serde's. A broadcast channel is the list of
  everything sent on it; a subscription is a position in that list. Batches hold SQLite's
  one write lock from \<open>begin\<close> to commit, so at most one is open at a time, and a pruning
  runs after its commit, whenever the write lock is free.
\<close>

section \<open>State\<close>

definition DEFAULT_RETENTION :: nat where
  "DEFAULT_RETENTION = 5000"

definition DEFAULT_CAPACITY :: nat where
  "DEFAULT_CAPACITY = 1024"

record event_row =
  er_user_id :: int
  er_envelope :: envelope

text \<open>\<open>ul_last\<close> is the cached last number; \<open>ul_live\<close> is what was broadcast.\<close>

record user_log =
  ul_last :: "nat option"
  ul_live :: "envelope list"

definition new_user_log :: user_log where
  "new_user_log = \<lparr>ul_last = None, ul_live = []\<rparr>"

record batch =
  ba_user :: int
  ba_first :: nat
  ba_previous :: nat
  ba_pending :: "envelope list"
  ba_rows :: "event_row list"
  ba_queued_push :: bool

text \<open>\<open>el_prunes\<close> holds the prunings that commits have started and not yet run.\<close>

record event_log =
  el_rows :: "event_row list"
  el_retention :: nat
  el_capacity :: nat
  el_users :: "int \<Rightarrow> user_log"
  el_open :: "batch option"
  el_prunes :: "(int \<times> nat) list"
  el_pushes_queued :: nat

definition with_limits :: "nat \<Rightarrow> nat \<Rightarrow> event_log" where
  "with_limits retention capacity =
     \<lparr>el_rows = [], el_retention = max retention 1, el_capacity = max capacity 1,
      el_users = (\<lambda>_. new_user_log), el_open = None, el_prunes = [], el_pushes_queued = 0\<rparr>"

definition user_rows :: "int \<Rightarrow> event_row list \<Rightarrow> envelope list" where
  "user_rows user rows = map er_envelope (filter (\<lambda>r. er_user_id r = user) rows)"

text \<open>\<open>SELECT max(seq)\<close>, with 0 for an empty log.\<close>

definition stored_last :: "int \<Rightarrow> event_row list \<Rightarrow> nat" where
  "stored_last user rows = fold max (map e_seq (user_rows user rows)) 0"

section \<open>Batches\<close>

definition set_last :: "int \<Rightarrow> nat option \<Rightarrow> event_log \<Rightarrow> event_log" where
  "set_last user v l = l\<lparr>el_users := (el_users l)(user := (el_users l user)\<lparr>ul_last := v\<rparr>)\<rparr>"

definition batch_begin :: "int \<Rightarrow> event_log \<Rightarrow> event_log" where
  "batch_begin user l =
     (let first = (case ul_last (el_users l user) of Some previous \<Rightarrow> previous
                   | None \<Rightarrow> stored_last user (el_rows l))
      in (set_last user None l)\<lparr>el_open := Some
        \<lparr>ba_user = user, ba_first = first, ba_previous = first, ba_pending = [],
         ba_rows = el_rows l, ba_queued_push = False\<rparr>\<rparr>)"

definition wake_pushes :: "batch \<Rightarrow> batch" where
  "wake_pushes b = b\<lparr>ba_queued_push := True\<rparr>"

definition batch_emit :: "int \<Rightarrow> event \<Rightarrow> batch \<Rightarrow> failure + batch" where
  "batch_emit now ev b =
     (let envelope = \<lparr>e_seq = ba_previous b + 1, e_at = now, e_event = ev\<rparr> in
      if e_seq envelope \<in> e_seq ` set (user_rows (ba_user b) (ba_rows b))
      then Inl (internal (lit ''UNIQUE constraint failed: events.user_id, events.seq''))
      else Inr (b\<lparr>ba_rows := ba_rows b @ [\<lparr>er_user_id = ba_user b, er_envelope = envelope\<rparr>],
        ba_previous := e_seq envelope, ba_pending := ba_pending b @ [envelope]\<rparr>))"

text \<open>The commit, the broadcast under the lock, and the pruning it may start.\<close>

definition batch_finish :: "batch \<Rightarrow> event_log \<Rightarrow> event_log" where
  "batch_finish b l =
     (let l1 = l\<lparr>el_rows := ba_rows b, el_open := None,
            el_pushes_queued := el_pushes_queued l + (if ba_queued_push b then 1 else 0)\<rparr>;
          l2 = set_last (ba_user b) (Some (ba_previous b)) l1;
          l3 = l2\<lparr>el_users := (el_users l2)(ba_user b := (el_users l2 (ba_user b))
            \<lparr>ul_live := ul_live (el_users l2 (ba_user b)) @ ba_pending b\<rparr>)\<rparr>
      in if ba_previous b div 256 > ba_first b div 256 \<and> ba_previous b > el_retention l
         then l3\<lparr>el_prunes := el_prunes l3 @ [(ba_user b, ba_previous b - el_retention l)]\<rparr>
         else l3)"

text \<open>A dropped batch rolls back; the cached number stays cleared.\<close>

definition batch_drop :: "event_log \<Rightarrow> event_log" where
  "batch_drop l = l\<lparr>el_open := None\<rparr>"

definition prune_events :: "int \<Rightarrow> nat \<Rightarrow> event_log \<Rightarrow> event_log" where
  "prune_events user upto_seq l =
     l\<lparr>el_rows := filter (\<lambda>r. \<not> (er_user_id r = user \<and> e_seq (er_envelope r) \<le> upto_seq)) (el_rows l),
       el_prunes := remove1 (user, upto_seq) (el_prunes l)\<rparr>"

section \<open>Reading\<close>

text \<open>\<open>latest\<close> waits for an open batch of the user; it caches what it reads.\<close>

definition log_latest :: "int \<Rightarrow> event_log \<Rightarrow> nat \<times> event_log" where
  "log_latest user l =
     (case ul_last (el_users l user) of
        Some v \<Rightarrow> (v, l)
      | None \<Rightarrow> let v = stored_last user (el_rows l) in (v, set_last user (Some v) l))"

definition log_earliest :: "int \<Rightarrow> event_log \<Rightarrow> nat option" where
  "log_earliest user l =
     (case map e_seq (user_rows user (el_rows l)) of
        [] \<Rightarrow> None
      | s # ss \<Rightarrow> Some (fold min ss s))"

definition log_since :: "int \<Rightarrow> nat \<Rightarrow> nat \<Rightarrow> event_log \<Rightarrow> envelope list" where
  "log_since user after limit l =
     take limit (sort_key e_seq (filter (\<lambda>e. after < e_seq e) (user_rows user (el_rows l))))"

definition log_subscribe :: "int \<Rightarrow> event_log \<Rightarrow> nat" where
  "log_subscribe user l = length (ul_live (el_users l user))"

section \<open>Runs\<close>

text \<open>
  The steps of the log in any order the locks allow: a step that is not allowed, or an emit
  that fails, leaves the log as it is; a failed emit's batch is dropped by its holder.
\<close>

datatype log_op =
    OpenBatch int
  | Emit int event
  | WakePushes
  | CommitBatch
  | DropBatch
  | RunPrune int nat
  | ReadLatest int
  | RestartGateway

fun log_step :: "log_op \<Rightarrow> event_log \<Rightarrow> event_log" where
  "log_step (OpenBatch user) l = (if el_open l = None then batch_begin user l else l)"
| "log_step (Emit now ev) l =
     (case el_open l of
        None \<Rightarrow> l
      | Some b \<Rightarrow> (case batch_emit now ev b of Inl _ \<Rightarrow> batch_drop l | Inr b' \<Rightarrow> l\<lparr>el_open := Some b'\<rparr>))"
| "log_step WakePushes l = l\<lparr>el_open := map_option wake_pushes (el_open l)\<rparr>"
| "log_step CommitBatch l = (case el_open l of None \<Rightarrow> l | Some b \<Rightarrow> batch_finish b l)"
| "log_step DropBatch l = batch_drop l"
| "log_step (RunPrune user n) l =
     (if el_open l = None \<and> (user, n) \<in> set (el_prunes l) then prune_events user n l else l)"
| "log_step (ReadLatest user) l =
     (case el_open l of
        None \<Rightarrow> snd (log_latest user l)
      | Some b \<Rightarrow> if ba_user b = user then l else snd (log_latest user l))"
| "log_step RestartGateway l =
     l\<lparr>el_open := None, el_prunes := [], el_users := (\<lambda>u. (el_users l u)\<lparr>ul_last := None\<rparr>)\<rparr>"

definition log_append :: "int \<Rightarrow> int \<Rightarrow> event \<Rightarrow> event_log \<Rightarrow> event_log" where
  "log_append now user ev l = fold log_step [OpenBatch user, Emit now ev, CommitBatch] l"

section \<open>The invariant\<close>

text \<open>
  The history of a user is everything ever broadcast to them; a restart keeps it, although
  its subscribers are gone. The stored rows are the history without a pruned prefix that
  never reaches the last event.
\<close>

definition history :: "int \<Rightarrow> event_log \<Rightarrow> envelope list" where
  "history user l = ul_live (el_users l user)"

definition numbered :: "envelope list \<Rightarrow> bool" where
  "numbered es \<longleftrightarrow> map e_seq es = [1..<Suc (length es)]"

definition keeps_tail :: "nat \<Rightarrow> envelope list \<Rightarrow> envelope list \<Rightarrow> bool" where
  "keeps_tail retention es rows \<longleftrightarrow>
     (\<exists>d. rows = drop d es \<and> d + min retention (length es) \<le> length es)"

definition batch_ok :: "event_log \<Rightarrow> batch \<Rightarrow> bool" where
  "batch_ok l b \<longleftrightarrow>
     ul_last (el_users l (ba_user b)) = None
     \<and> ba_first b = length (history (ba_user b) l)
     \<and> ba_previous b = ba_first b + length (ba_pending b)
     \<and> numbered (history (ba_user b) l @ ba_pending b)
     \<and> ba_rows b = el_rows l @ map (\<lambda>e. \<lparr>er_user_id = ba_user b, er_envelope = e\<rparr>) (ba_pending b)"

definition log_inv :: "event_log \<Rightarrow> bool" where
  "log_inv l \<longleftrightarrow> el_retention l \<ge> 1
     \<and> (\<forall>u. numbered (history u l))
     \<and> (\<forall>u. keeps_tail (el_retention l) (history u l) (user_rows u (el_rows l)))
     \<and> (\<forall>u v. ul_last (el_users l u) = Some v \<longrightarrow> v = length (history u l))
     \<and> (\<forall>(u, n) \<in> set (el_prunes l). n + el_retention l \<le> length (history u l))
     \<and> (\<forall>b. el_open l = Some b \<longrightarrow> batch_ok l b)"

lemma numbered_Nil [simp]: "numbered []"
  by (simp add: numbered_def)

lemma numbered_snoc: "numbered (es @ [e]) \<longleftrightarrow> numbered es \<and> e_seq e = Suc (length es)"
  by (simp add: numbered_def)

lemma numbered_append_left: "numbered (es @ fs) \<Longrightarrow> numbered es"
  by (induction fs rule: rev_induct) (simp_all add: numbered_snoc flip: append_assoc)

lemma numbered_nth: "numbered es \<Longrightarrow> i < length es \<Longrightarrow> e_seq (es ! i) = Suc i"
proof -
  assume n: "numbered es" and i: "i < length es"
  have "e_seq (es ! i) = map e_seq es ! i" using i by simp
  also have "\<dots> = [1..<Suc (length es)] ! i" using n by (simp only: numbered_def)
  also have "\<dots> = Suc i" using i by (simp del: upt_Suc)
  finally show ?thesis .
qed

lemma numbered_seqs: "numbered es \<Longrightarrow> e_seq ` set es = {1..length es}"
proof -
  assume "numbered es"
  then have "set (map e_seq es) = set [1..<Suc (length es)]" by (simp only: numbered_def)
  then show ?thesis by (auto simp del: upt_Suc)
qed

lemma numbered_drop_seqs: "numbered es \<Longrightarrow> map e_seq (drop d es) = [Suc d..<Suc (length es)]"
proof -
  assume n: "numbered es"
  have "map e_seq (drop d es) = drop d (map e_seq es)" by (simp only: drop_map)
  also have "\<dots> = drop d [1..<Suc (length es)]" using n by (simp only: numbered_def)
  also have "\<dots> = [Suc d..<Suc (length es)]" by (simp add: drop_upt del: upt_Suc)
  finally show ?thesis .
qed

lemma numbered_filter_after: "numbered es \<Longrightarrow> filter (\<lambda>e. n < e_seq e) es = drop n es"
proof (induction es rule: rev_induct)
  case (snoc e es)
  then show ?case by (cases "n \<le> length es") (auto simp: numbered_snoc)
qed simp

lemma user_rows_append [simp]: "user_rows u (a @ b) = user_rows u a @ user_rows u b"
  by (simp add: user_rows_def)

lemma user_rows_batch:
  "user_rows u (map (\<lambda>e. \<lparr>er_user_id = v, er_envelope = e\<rparr>) es) = (if u = v then es else [])"
  by (induction es) (auto simp: user_rows_def)

lemma log_inv_start: "log_inv (with_limits retention capacity)"
  by (auto simp: log_inv_def with_limits_def history_def new_user_log_def keeps_tail_def user_rows_def)

lemma fold_max_upt: "fold max [Suc d..<Suc n] 0 = (if d < n then n else (0::nat))"
  by (induction n) auto

lemma stored_last_tail:
  assumes "log_inv l"
  shows "stored_last u (el_rows l) = length (history u l)"
proof -
  have num: "numbered (history u l)" and ret: "el_retention l \<ge> 1"
    using assms by (auto simp: log_inv_def)
  obtain d where d: "user_rows u (el_rows l) = drop d (history u l)"
      "d + min (el_retention l) (length (history u l)) \<le> length (history u l)"
    using assms unfolding log_inv_def keeps_tail_def by blast
  have "stored_last u (el_rows l) = fold max [Suc d..<Suc (length (history u l))] 0"
    unfolding stored_last_def d(1) numbered_drop_seqs [OF num] ..
  also have "\<dots> = length (history u l)"
    using d(2) ret unfolding fold_max_upt by (auto simp: min_def split: if_splits)
  finally show ?thesis .
qed

lemma set_last_simps [simp]:
  "el_rows (set_last u v l) = el_rows l" "el_retention (set_last u v l) = el_retention l"
  "el_open (set_last u v l) = el_open l" "el_prunes (set_last u v l) = el_prunes l"
  "history w (set_last u v l) = history w l"
  "ul_last (el_users (set_last u v l) w) = (if w = u then v else ul_last (el_users l w))"
  by (simp_all add: set_last_def history_def)

lemma keeps_tail_append:
  assumes "keeps_tail n es rows" shows "keeps_tail n (es @ fs) (rows @ fs)"
proof -
  obtain d where d: "rows = drop d es" "d + min n (length es) \<le> length es"
    using assms unfolding keeps_tail_def by blast
  then have "d \<le> length es" by simp
  then have "rows @ fs = drop d (es @ fs)" using d(1) by simp
  moreover have "d + min n (length (es @ fs)) \<le> length (es @ fs)" using d(2) by auto
  ultimately show ?thesis unfolding keeps_tail_def by blast
qed

lemma keeps_tail_prune:
  assumes num: "numbered es" and tail: "keeps_tail r es rows" and n: "n + r \<le> length es"
  shows "keeps_tail r es (filter (\<lambda>e. n < e_seq e) rows)"
proof -
  obtain d where d: "rows = drop d es" "d + min r (length es) \<le> length es"
    using tail unfolding keeps_tail_def by blast
  have num': "e_seq e = Suc i + d" if "i < length es - d" "e = drop d es ! i" for i e
    using that numbered_nth [OF num, of "d + i"] by simp
  have "filter (\<lambda>e. n < e_seq e) (drop d es) = drop (max d n) es"
  proof -
    have "es = take d es @ drop d es" by simp
    moreover have "\<forall>e \<in> set (take d es). e_seq e \<le> d"
      using num numbered_nth [OF num] by (auto simp: in_set_conv_nth)
    moreover have "filter (\<lambda>e. max d n < e_seq e) es = drop (max d n) es"
      using numbered_filter_after [OF num] .
    moreover have "filter (\<lambda>e. max d n < e_seq e) (drop d es) = filter (\<lambda>e. n < e_seq e) (drop d es)"
    proof (rule filter_cong)
      fix e assume "e \<in> set (drop d es)"
      then obtain i where "i < length (drop d es)" "e = drop d es ! i" by (auto simp: in_set_conv_nth)
      then show "max d n < e_seq e \<longleftrightarrow> n < e_seq e" using num' by auto
    qed simp
    moreover have "filter (\<lambda>e. max d n < e_seq e) (take d es) = []"
      using calculation(2) by (auto simp: filter_empty_conv)
    ultimately show ?thesis by (metis append_Nil filter_append)
  qed
  moreover have "max d n + min r (length es) \<le> length es" using d(2) n by auto
  ultimately show ?thesis using d(1) unfolding keeps_tail_def by blast
qed

lemma user_rows_prune:
  "user_rows u (filter (\<lambda>r. \<not> (er_user_id r = v \<and> e_seq (er_envelope r) \<le> n)) rows) =
   (if u = v then filter (\<lambda>e. n < e_seq e) (user_rows u rows) else user_rows u rows)"
  by (induction rows) (auto simp: user_rows_def)

lemma log_inv_begin:
  assumes inv: "log_inv l" and free: "el_open l = None"
  shows "log_inv (batch_begin user l)"
proof -
  let ?first = "case ul_last (el_users l user) of Some previous \<Rightarrow> previous
                | None \<Rightarrow> stored_last user (el_rows l)"
  have first: "?first = length (history user l)"
    using inv stored_last_tail [OF inv] by (auto simp: log_inv_def split: option.splits)
  show ?thesis
    using inv unfolding batch_begin_def Let_def first
    by (auto simp: log_inv_def batch_ok_def history_def set_last_def)
qed

lemma batch_rows_seqs:
  assumes inv: "log_inv l" and b: "batch_ok l b"
  shows "e_seq ` set (user_rows (ba_user b) (ba_rows b)) \<subseteq> {1..ba_previous b}"
proof -
  obtain d where d: "user_rows (ba_user b) (el_rows l) = drop d (history (ba_user b) l)"
    using inv unfolding log_inv_def keeps_tail_def by blast
  have "set (user_rows (ba_user b) (ba_rows b)) \<subseteq> set (history (ba_user b) l @ ba_pending b)"
    using b d set_drop_subset by (force simp: batch_ok_def user_rows_batch)
  moreover have "e_seq ` set (history (ba_user b) l @ ba_pending b) = {1..ba_previous b}"
    using numbered_seqs [of "history (ba_user b) l @ ba_pending b"] b by (simp add: batch_ok_def)
  ultimately show ?thesis by blast
qed

lemma batch_emit_ok:
  assumes "log_inv l" and b: "batch_ok l b"
  shows "\<exists>b'. batch_emit now ev b = Inr b' \<and> batch_ok l b'"
proof -
  have "ba_previous b + 1 \<notin> e_seq ` set (user_rows (ba_user b) (ba_rows b))"
    using batch_rows_seqs [OF assms] by auto
  then show ?thesis
    using b unfolding batch_emit_def Let_def
    by (auto simp: batch_ok_def numbered_snoc simp flip: append_assoc)
qed

lemma history_finish:
  "history u (batch_finish b l) = (if u = ba_user b then history u l @ ba_pending b else history u l)"
  by (simp add: batch_finish_def Let_def history_def set_last_def)

lemma finish_simps [simp]:
  "el_rows (batch_finish b l) = ba_rows b" "el_retention (batch_finish b l) = el_retention l"
  "el_open (batch_finish b l) = None"
  "ul_last (el_users (batch_finish b l) u) =
     (if u = ba_user b then Some (ba_previous b) else ul_last (el_users l u))"
  by (simp_all add: batch_finish_def Let_def set_last_def)

lemma log_inv_finish:
  assumes inv: "log_inv l" and b: "batch_ok l b"
  shows "log_inv (batch_finish b l)"
proof -
  have len: "length (history u l) \<le> length (history u (batch_finish b l))" for u
    by (simp add: history_finish)
  have prunes: "n + el_retention l \<le> length (history u (batch_finish b l))"
    if "(u, n) \<in> set (el_prunes (batch_finish b l))" for u n
  proof (cases "(u, n) \<in> set (el_prunes l)")
    case True
    then show ?thesis using inv len [of u] unfolding log_inv_def by fastforce
  next
    case False
    then have "u = ba_user b" "n = ba_previous b - el_retention l" "ba_previous b > el_retention l"
      using that by (auto simp: batch_finish_def Let_def set_last_def split: if_splits)
    then show ?thesis using b by (simp add: history_finish batch_ok_def)
  qed
  have rows: "keeps_tail (el_retention l) (history u (batch_finish b l)) (user_rows u (ba_rows b))" for u
    using inv b keeps_tail_append [of "el_retention l" "history u l" "user_rows u (el_rows l)" "ba_pending b"]
    by (auto simp: log_inv_def batch_ok_def history_finish user_rows_batch)
  show ?thesis
    unfolding log_inv_def using inv b prunes rows
    by (auto simp: log_inv_def batch_ok_def history_finish split: if_splits)
qed

lemma log_inv_latest:
  assumes inv: "log_inv l" and other: "\<And>b. el_open l = Some b \<Longrightarrow> ba_user b \<noteq> user"
  shows "log_inv (snd (log_latest user l))"
proof (cases "ul_last (el_users l user)")
  case None
  have "batch_ok (set_last user v l) b" if "el_open l = Some b" "batch_ok l b" for b v
    using that other [OF that(1)] by (auto simp: batch_ok_def)
  then show ?thesis
    using inv None stored_last_tail [OF inv] by (auto simp: log_latest_def Let_def log_inv_def)
qed (use inv in \<open>simp add: log_latest_def\<close>)

lemma log_inv_step: "log_inv l \<Longrightarrow> log_inv (log_step opr l)"
proof (induction opr l rule: log_step.induct)
  case (1 user l)
  then show ?case by (simp add: log_inv_begin)
next
  case (2 now ev l)
  show ?case
  proof (cases "el_open l")
    case (Some b)
    then have b: "batch_ok l b" using 2 by (simp add: log_inv_def)
    obtain b' where "batch_emit now ev b = Inr b'" "batch_ok l b'"
      using batch_emit_ok [OF 2 b] by blast
    then show ?thesis using Some 2 by (auto simp: log_inv_def batch_ok_def history_def)
  qed (use 2 in simp)
next
  case (3 l)
  then show ?case
    by (cases "el_open l") (auto simp: log_inv_def batch_ok_def history_def wake_pushes_def)
next
  case (4 l)
  then show ?case using log_inv_finish by (auto simp: log_inv_def split: option.splits)
next
  case (5 l)
  then show ?case by (auto simp: log_inv_def batch_drop_def history_def)
next
  case (6 user n l)
  have "log_inv (prune_events user n l)"
    if free: "el_open l = None" and mem: "(user, n) \<in> set (el_prunes l)"
  proof -
    have n: "n + el_retention l \<le> length (history user l)"
      using 6 mem unfolding log_inv_def by fastforce
    have "keeps_tail (el_retention l) (history u l)
        (user_rows u (filter (\<lambda>r. \<not> (er_user_id r = user \<and> e_seq (er_envelope r) \<le> n)) (el_rows l)))" for u
      using 6 n keeps_tail_prune [of "history user l"] unfolding user_rows_prune log_inv_def by simp
    moreover have "set (remove1 (user, n) (el_prunes l)) \<subseteq> set (el_prunes l)" by (rule set_remove1_subset)
    ultimately show ?thesis
      using 6 free unfolding log_inv_def prune_events_def history_def by auto
  qed
  then show ?case using 6 by simp
next
  case (7 user l)
  then show ?case using log_inv_latest [OF 7] by (auto split: option.splits)
next
  case (8 l)
  then show ?case by (auto simp: log_inv_def history_def)
qed

lemma log_inv_run: "log_inv l \<Longrightarrow> log_inv (fold log_step ops l)"
  by (induction ops arbitrary: l) (simp_all add: log_inv_step)

section \<open>The log as its readers see it\<close>

text \<open>
  What the event socket relies on: the past of a user is numbered from 1 without gaps, the
  newest number is its length, and a read gives the retained events after a number, oldest
  first. A later state has the same past and perhaps more.
\<close>

locale event_source =
  fixes good :: "'l \<Rightarrow> bool"
    and past :: "'l \<Rightarrow> envelope list"
    and latest :: "'l \<Rightarrow> nat"
    and earliest :: "'l \<Rightarrow> nat option"
    and since :: "nat \<Rightarrow> nat \<Rightarrow> 'l \<Rightarrow> envelope list"
    and later :: "'l \<Rightarrow> 'l \<Rightarrow> bool"
  assumes past_numbered: "good l \<Longrightarrow> numbered (past l)"
    and latest_past: "good l \<Longrightarrow> latest l = length (past l)"
    and retained: "good l \<Longrightarrow> \<exists>d. d + min 1 (length (past l)) \<le> length (past l)
      \<and> earliest l = (if past l = [] then None else Some (Suc d))
      \<and> (\<forall>after limit. since after limit l = take limit (drop (max d after) (past l)))"
    and later_good: "later l m \<Longrightarrow> good l \<Longrightarrow> good m"
    and later_past: "later l m \<Longrightarrow> good l \<Longrightarrow> \<exists>more. past m = past l @ more"
begin

lemma since_first:
  assumes "good l" and "since after limit l = e # es"
  shows "after < e_seq e"
proof -
  obtain d where "since after limit l = take limit (drop (max d after) (past l))"
    using retained [OF assms(1)] by blast
  then have es: "take limit (drop (max d after) (past l)) = e # es" using assms(2) by simp
  then have "max d after < length (past l)" by (metis drop_eq_Nil list.distinct(1) not_le take_Nil)
  moreover have "e = past l ! max d after"
    using es calculation by (metis hd_drop_conv_nth hd_take list.sel(1) take_eq_Nil list.distinct(1) gr0I)
  ultimately show ?thesis using numbered_nth [OF past_numbered [OF assms(1)]] by auto
qed

text \<open>A read that starts right after \<open>after\<close> is the next events of the past, in order.\<close>

lemma since_contiguous:
  assumes "good l" and "since after limit l = e # es" and "e_seq e = Suc after"
  shows "e # es = take limit (drop after (past l))"
proof -
  obtain d where d: "since after limit l = take limit (drop (max d after) (past l))"
    using retained [OF assms(1)] by blast
  then have es: "take limit (drop (max d after) (past l)) = e # es" using assms(2) by simp
  then have len: "max d after < length (past l)" by (metis drop_eq_Nil list.distinct(1) not_le take_Nil)
  moreover have "e = past l ! max d after"
    using es len by (metis hd_drop_conv_nth hd_take list.sel(1) take_eq_Nil list.distinct(1) gr0I)
  ultimately have "e_seq e = Suc (max d after)"
    using numbered_nth [OF past_numbered [OF assms(1)]] by blast
  then show ?thesis using es assms(3) by simp
qed

lemma since_not_empty:
  assumes "good l" and "after < length (past l)" and "0 < limit"
  shows "since after limit l \<noteq> []"
proof -
  obtain d where "d + min 1 (length (past l)) \<le> length (past l)"
    "since after limit l = take limit (drop (max d after) (past l))"
    using retained [OF assms(1)] by blast
  then show ?thesis using assms(2,3) by auto
qed

end

lemma sort_key_sorted: "sorted (map f xs) \<Longrightarrow> sort_key f xs = xs"
  by (induction xs) (auto simp: insort_is_Cons)

lemma history_step: "\<exists>more. history u (log_step opr l) = history u l @ more"
proof (induction opr l rule: log_step.induct)
  case (2 now ev l)
  then show ?case by (auto simp: history_def batch_drop_def split: option.splits sum.splits)
next
  case (4 l)
  then show ?case by (auto simp: history_finish split: option.splits)
qed (auto simp: history_def batch_begin_def Let_def set_last_def batch_drop_def prune_events_def
    log_latest_def split: option.splits)

lemma history_run: "\<exists>more. history u (fold log_step ops l) = history u l @ more"
proof (induction ops arbitrary: l)
  case (Cons opr ops)
  obtain m1 m2 where "history u (log_step opr l) = history u l @ m1"
    "history u (fold log_step ops (log_step opr l)) = history u (log_step opr l) @ m2"
    using history_step Cons.IH by blast
  then show ?case by simp
qed simp

lemma log_retained:
  assumes inv: "log_inv l"
  shows "\<exists>d. d + min 1 (length (history u l)) \<le> length (history u l)
    \<and> log_earliest u l = (if history u l = [] then None else Some (Suc d))
    \<and> (\<forall>after limit. log_since u after limit l = take limit (drop (max d after) (history u l)))"
proof -
  have num: "numbered (history u l)" and ret: "el_retention l \<ge> 1"
    using inv by (auto simp: log_inv_def)
  obtain d where d: "user_rows u (el_rows l) = drop d (history u l)"
    "d + min (el_retention l) (length (history u l)) \<le> length (history u l)"
    using inv unfolding log_inv_def keeps_tail_def by blast
  have seqs: "map e_seq (drop d (history u l)) = [Suc d..<Suc (length (history u l))]"
    using numbered_drop_seqs [OF num] .
  have tail: "d + min 1 (length (history u l)) \<le> length (history u l)" using d(2) ret by auto
  have min_upt: "fold min [Suc n..<m] n = n" for n m :: nat
    by (induction m) (auto simp: fold_append min_def)
  have earliest: "log_earliest u l = (if history u l = [] then None else Some (Suc d))"
  proof (cases "history u l = []")
    case True
    then show ?thesis using d(1) by (simp add: log_earliest_def)
  next
    case False
    then have "Suc d < Suc (length (history u l))" using tail by (cases "history u l") auto
    then have "map e_seq (user_rows u (el_rows l)) = Suc d # [Suc (Suc d)..<Suc (length (history u l))]"
      using seqs d(1) by (simp add: upt_conv_Cons del: upt_Suc)
    then show ?thesis using False min_upt [of "Suc d"] by (simp add: log_earliest_def)
  qed
  have since: "log_since u after limit l = take limit (drop (max d after) (history u l))" for after limit
  proof -
    have "filter (\<lambda>e. after < e_seq e) (drop d (history u l)) = drop (max d after) (history u l)"
    proof -
      have "drop d (history u l) = filter (\<lambda>e. d < e_seq e) (history u l)"
        using numbered_filter_after [OF num] by simp
      then have "filter (\<lambda>e. after < e_seq e) (drop d (history u l))
          = filter (\<lambda>e. max d after < e_seq e) (history u l)"
        by (simp add: filter_filter conj_commute)
      then show ?thesis using numbered_filter_after [OF num, of "max d after"] by simp
    qed
    moreover have "sorted (map e_seq (drop (max d after) (history u l)))"
      unfolding numbered_drop_seqs [OF num] by (rule sorted_upt)
    ultimately show ?thesis by (simp add: log_since_def d(1) sort_key_sorted)
  qed
  show ?thesis using tail earliest since by blast
qed

interpretation events: event_source log_inv "history user" "\<lambda>l. fst (log_latest user l)"
    "log_earliest user" "log_since user" "\<lambda>l m. \<exists>ops. m = fold log_step ops l" for user
proof unfold_locales
  show "numbered (history user l)" if "log_inv l" for l using that by (simp add: log_inv_def)
  show "fst (log_latest user l) = length (history user l)" if "log_inv l" for l
    using that stored_last_tail [OF that] by (auto simp: log_latest_def Let_def log_inv_def split: option.splits)
  show "\<exists>more. history user m = history user l @ more" if "\<exists>ops. m = fold log_step ops l" for l m
    using that history_run by blast
  show "log_inv m" if "\<exists>ops. m = fold log_step ops l" "log_inv l" for l m
    using that log_inv_run by blast
qed (rule log_retained)

section \<open>Properties\<close>

text \<open>C15: whatever batches, rollbacks, restarts, reads and prunings run and however they
  interleave, each user's events are broadcast with the numbers 1, 2, 3 and so on without a
  gap or a repeat, and the table holds exactly the newest of what was broadcast: at least the
  retention's worth, and nothing that was not broadcast.\<close>

theorem log_has_no_gaps:
  "map e_seq (history u (fold log_step ops (with_limits retention capacity)))
     = [1..<Suc (length (history u (fold log_step ops (with_limits retention capacity))))]
   \<and> (\<exists>d. user_rows u (el_rows (fold log_step ops (with_limits retention capacity)))
        = drop d (history u (fold log_step ops (with_limits retention capacity)))
      \<and> d + min (max retention 1) (length (history u (fold log_step ops (with_limits retention capacity))))
        \<le> length (history u (fold log_step ops (with_limits retention capacity))))"
proof -
  let ?l = "fold log_step ops (with_limits retention capacity)"
  have inv: "log_inv ?l" using log_inv_run log_inv_start by blast
  have step: "el_retention (log_step opr l) = el_retention l" for opr l
    by (induction opr l rule: log_step.induct)
      (auto simp: batch_begin_def Let_def batch_drop_def prune_events_def log_latest_def
        split: option.splits sum.splits)
  have ret: "el_retention (fold log_step ops l) = el_retention l" for l
    by (induction ops arbitrary: l) (simp_all add: step)
  show ?thesis
    using inv unfolding log_inv_def numbered_def keeps_tail_def ret
    by (auto simp: with_limits_def)
qed

end
