(* ===== verification/Presence.thy ===== *)
theory Presence
  imports Failures
begin

text \<open>
  \<open>crates/bokkie-gateway/src/presence.rs\<close>: which Bots each user's open sockets say they
  show. The two hash maps are a function from users to association lists by connection; a
  user without connections has the empty list. Dropping a \<open>Viewer\<close> shows nothing.
\<close>

section \<open>State and operations\<close>

record shown =
  sh_bot :: bot_id
  sh_until_ms :: int

record presence =
  pr_next :: nat
  pr_shown :: "user_id \<Rightarrow> (nat \<times> shown) list"

definition new_presence :: presence where
  "new_presence = \<lparr>pr_next = 1, pr_shown = (\<lambda>_. [])\<rparr>"

text \<open>The new viewer's connection id; a viewer is its user and that id.\<close>

definition presence_connect :: "presence \<Rightarrow> nat \<times> presence" where
  "presence_connect p = (pr_next p, p\<lparr>pr_next := pr_next p + 1\<rparr>)"

definition saturating_add_i64 :: "int \<Rightarrow> int \<Rightarrow> int" where
  "saturating_add_i64 a b = max (- (2 ^ 63)) (min (2 ^ 63 - 1) (a + b))"

definition presence_set :: "int \<Rightarrow> user_id \<Rightarrow> nat \<Rightarrow> bot_id option \<Rightarrow> presence \<Rightarrow> presence" where
  "presence_set now user conn shown p =
     (case shown of
        Some b \<Rightarrow>
          let until_ms = saturating_add_i64 now (int VIEWING_EXPIRES_MS) in
          p\<lparr>pr_shown := (pr_shown p)(user :=
            AList.update conn \<lparr>sh_bot = b, sh_until_ms = until_ms\<rparr> (pr_shown p user))\<rparr>
      | None \<Rightarrow> p\<lparr>pr_shown := (pr_shown p)(user := AList.delete conn (pr_shown p user))\<rparr>)"

definition viewer_show :: "int \<Rightarrow> user_id \<Rightarrow> nat \<Rightarrow> bot_id option \<Rightarrow> presence \<Rightarrow> presence" where
  "viewer_show now user conn shown p = presence_set now user conn shown p"

definition viewer_drop :: "int \<Rightarrow> user_id \<Rightarrow> nat \<Rightarrow> presence \<Rightarrow> presence" where
  "viewer_drop now user conn p = presence_set now user conn None p"

definition is_shown :: "int \<Rightarrow> user_id \<Rightarrow> bot_id \<Rightarrow> presence \<Rightarrow> bool" where
  "is_shown now user b p \<longleftrightarrow>
     list_ex (\<lambda>(_, s). sh_bot s = b \<and> sh_until_ms s > now) (pr_shown p user)"

text \<open>\<open>sort\<close> and \<open>dedup\<close>.\<close>

definition shown_bots :: "int \<Rightarrow> user_id \<Rightarrow> presence \<Rightarrow> bot_id list" where
  "shown_bots now user p =
     remdups_adj (sort (map (sh_bot \<circ> snd) (filter (\<lambda>(_, s). sh_until_ms s > now) (pr_shown p user))))"

section \<open>What the connections last said\<close>

text \<open>One step is a socket saying what it shows, or closing.\<close>

datatype presence_op = Say int user_id nat "bot_id option" | Leave int user_id nat

fun presence_step :: "presence_op \<Rightarrow> presence \<Rightarrow> presence" where
  "presence_step (Say now user conn shown) p = viewer_show now user conn shown p"
| "presence_step (Leave now user conn) p = viewer_drop now user conn p"

text \<open>The last say of a connection that still holds: when, and of which Bot.\<close>

definition say_of :: "user_id \<Rightarrow> nat \<Rightarrow> presence_op \<Rightarrow> (int \<times> bot_id) option \<Rightarrow> (int \<times> bot_id) option" where
  "say_of user conn opr held = (case opr of
     Say now u c shown \<Rightarrow> if u = user \<and> c = conn then map_option (Pair now) shown else held
   | Leave now u c \<Rightarrow> if u = user \<and> c = conn then None else held)"

definition last_say :: "user_id \<Rightarrow> nat \<Rightarrow> presence_op list \<Rightarrow> (int \<times> bot_id) option" where
  "last_say user conn ops = fold (say_of user conn) ops None"

definition entry_of :: "int \<times> bot_id \<Rightarrow> shown" where
  "entry_of say = \<lparr>sh_bot = snd say,
     sh_until_ms = saturating_add_i64 (fst say) (int VIEWING_EXPIRES_MS)\<rparr>"

lemma entry_step:
  "map_of (pr_shown p user) conn = map_option entry_of held \<Longrightarrow>
   map_of (pr_shown (presence_step opr p) user) conn = map_option entry_of (say_of user conn opr held)"
  by (cases opr) (auto simp: viewer_show_def viewer_drop_def presence_set_def Let_def say_of_def
      entry_of_def AList.update_conv' AList.delete_conv' split: option.splits)

lemma distinct_step:
  "distinct (map fst (pr_shown p user)) \<Longrightarrow> distinct (map fst (pr_shown (presence_step opr p) user))"
  by (cases opr) (auto simp: viewer_show_def viewer_drop_def presence_set_def Let_def
      AList.distinct_update AList.distinct_delete split: option.splits)

lemma entries_run:
  "map_of (pr_shown p user) conn = map_option entry_of held \<Longrightarrow>
   map_of (pr_shown (fold presence_step ops p) user) conn = map_option entry_of (fold (say_of user conn) ops held)"
  by (induction ops arbitrary: p held) (simp_all add: entry_step)

lemma distinct_run:
  "distinct (map fst (pr_shown p user)) \<Longrightarrow> distinct (map fst (pr_shown (fold presence_step ops p) user))"
  by (induction ops arbitrary: p) (simp_all add: distinct_step)

lemma is_shown_entries:
  assumes "distinct (map fst (pr_shown p user))"
  shows "is_shown now user b p \<longleftrightarrow>
    (\<exists>conn s. map_of (pr_shown p user) conn = Some s \<and> sh_bot s = b \<and> now < sh_until_ms s)"
  using assms by (auto simp: is_shown_def list_ex_iff map_of_eq_Some_iff)

lemma shown_bots_set: "b \<in> set (shown_bots now user p) \<longleftrightarrow> is_shown now user b p"
  by (auto simp: shown_bots_def is_shown_def list_ex_iff image_iff split: prod.splits)

lemma distinct_remdups_sorted: "sorted xs \<Longrightarrow> distinct (remdups_adj xs)"
  by (induction xs rule: remdups_adj.induct) (auto simp: order.antisym)

text \<open>Whatever the sockets of all users say and however they close, a Bot counts as shown
  exactly while some open socket of its user last said so less than the expiry ago; the list
  of shown Bots holds exactly those, in order, once each.\<close>

lemma shown_while_said:
  "(is_shown now user b (fold presence_step ops new_presence) \<longleftrightarrow>
     (\<exists>conn said. last_say user conn ops = Some (said, b)
        \<and> now < saturating_add_i64 said (int VIEWING_EXPIRES_MS)))
   \<and> sorted_wrt (<) (shown_bots now user (fold presence_step ops new_presence))
   \<and> set (shown_bots now user (fold presence_step ops new_presence))
     = {c. is_shown now user c (fold presence_step ops new_presence)}"
proof -
  let ?p = "fold presence_step ops new_presence"
  have "map_of (pr_shown ?p user) conn = map_option entry_of (last_say user conn ops)" for conn
    unfolding last_say_def by (rule entries_run) (simp add: new_presence_def)
  moreover have "distinct (map fst (pr_shown ?p user))"
    by (rule distinct_run) (simp add: new_presence_def)
  ultimately have shown: "is_shown now user b ?p \<longleftrightarrow>
     (\<exists>conn said. last_say user conn ops = Some (said, b)
        \<and> now < saturating_add_i64 said (int VIEWING_EXPIRES_MS))"
    by (force simp: is_shown_entries entry_of_def)
  have "sorted (shown_bots now user ?p) \<and> distinct (shown_bots now user ?p)"
    unfolding shown_bots_def by (simp add: sorted_remdups_adj distinct_remdups_sorted)
  then have "sorted_wrt (<) (shown_bots now user ?p)" by (simp add: strict_sorted_iff)
  then show ?thesis using shown shown_bots_set by auto
qed

end
