(* ===== verification/EventSocket.thy ===== *)
theory EventSocket
  imports EventLog Presence RequestGuard
begin

text \<open>
  \<open>crates/bokkie-gateway/src/routes/events.rs\<close>: the server's side of the event socket. The
  replay reads the log several times while other requests write it, so it takes the states
  that its reads see. The live loop is one step per event of its \<open>select\<close>; what happens on
  the wire (JSON, time limits of a send) is not modelled: a frame that fails to send ends the
  socket as \<open>Gone\<close> does.
\<close>

section \<open>Constants\<close>

definition REPLAY_PAGE :: nat where
  "REPLAY_PAGE = 500"

definition CLOSE_PROTOCOL :: nat where
  "CLOSE_PROTOCOL = 4000"

definition CLOSE_LAGGED :: nat where
  "CLOSE_LAGGED = 4001"

definition CLOSE_SIGNED_OUT :: nat where
  "CLOSE_SIGNED_OUT = 4002"

section \<open>Replay\<close>

text \<open>
  One page per read. The last argument holds the states of the log that the reads see;
  \<open>None\<close> means that they did not suffice.
\<close>

fun replay_pages ::
  "(nat \<Rightarrow> nat \<Rightarrow> 'l \<Rightarrow> envelope list) \<Rightarrow> nat \<Rightarrow> nat \<Rightarrow> 'l list \<Rightarrow> server_frame list option" where
  "replay_pages since latest sent [] = (if sent < latest then None else Some [])"
| "replay_pages since latest sent (l # ls) =
     (if sent < latest then
        (case since sent REPLAY_PAGE l of
           [] \<Rightarrow> Some []
         | first # rest \<Rightarrow>
             if e_seq first \<noteq> seq_next sent then Some [SReset latest]
             else
               map_option (\<lambda>frames. map SEvent (takeWhile (\<lambda>e. e_seq e \<le> latest) (first # rest)) @ frames)
                 (replay_pages since latest (min (e_seq (last (first # rest))) latest) ls))
      else Some [])"

text \<open>
  The frames up to and with \<open>live\<close>: \<open>l_latest\<close> and \<open>l_earliest\<close> are the states seen by the
  two reads before the pages.
\<close>

definition serve_start ::
  "('l \<Rightarrow> nat) \<Rightarrow> ('l \<Rightarrow> nat option) \<Rightarrow> (nat \<Rightarrow> nat \<Rightarrow> 'l \<Rightarrow> envelope list)
   \<Rightarrow> nat option \<Rightarrow> 'l \<Rightarrow> 'l \<Rightarrow> 'l list \<Rightarrow> (server_frame list \<times> nat) option" where
  "serve_start latest earliest since after l_latest l_earliest ls =
     (let newest = latest l_latest in
      case after of
        None \<Rightarrow> Some ([SLive newest], newest)
      | Some a \<Rightarrow>
          let dropped = (a < newest \<and> (case earliest l_earliest of None \<Rightarrow> True | Some e \<Rightarrow> seq_next a < e)) in
          if a > newest \<or> dropped then Some ([SReset newest, SLive newest], newest)
          else map_option (\<lambda>frames. (frames @ [SLive newest], newest)) (replay_pages since newest a ls))"

definition serve_user_start ::
  "int \<Rightarrow> nat option \<Rightarrow> event_log \<Rightarrow> event_log \<Rightarrow> event_log list \<Rightarrow> (server_frame list \<times> nat) option" where
  "serve_user_start user = serve_start (\<lambda>l. fst (log_latest user l)) (log_earliest user) (log_since user)"

section \<open>The live loop\<close>

record socket =
  sk_user :: int
  sk_session_id :: int
  sk_token :: utext
  sk_sent :: nat
  sk_viewer :: nat

datatype incoming =
    TextFrame "client_frame option"
  | PingMessage utext
  | PongMessage
  | BinaryMessage
  | CloseMessage
  | Gone

datatype socket_event =
    LiveEvent envelope
  | LiveLagged
  | LiveClosed
  | Incoming incoming
  | CheckTick

datatype socket_out =
    SendFrame server_frame
  | SendPong utext
  | SendPing
  | CloseWith nat

text \<open>What the loop does next: send and go on, or end with a last message or none.\<close>

datatype socket_next = GoOn "socket_out list" socket presence | EndWith "socket_out list" presence

definition closing :: "int \<Rightarrow> socket \<Rightarrow> presence \<Rightarrow> socket_out list \<Rightarrow> socket_next" where
  "closing now s p out = EndWith out (viewer_drop now (sk_user s) (sk_viewer s) p)"

definition session_alive :: "token_hash \<Rightarrow> int \<Rightarrow> socket \<Rightarrow> accounts_db \<Rightarrow> bool" where
  "session_alive th now s db \<longleftrightarrow>
     (case fst (find_session th now (sk_token s) db) of None \<Rightarrow> False | Some sn \<Rightarrow> sn_id sn = sk_session_id s)"

text \<open>\<open>own b\<close> is whether the Bot is one of the user's, as the Bot store says.\<close>

fun serve_event ::
  "token_hash \<Rightarrow> (bot_id \<Rightarrow> bool) \<Rightarrow> int \<Rightarrow> accounts_db \<Rightarrow> socket_event \<Rightarrow> socket \<Rightarrow> presence \<Rightarrow> socket_next" where
  "serve_event th own now db (LiveEvent envelope) s p =
     (if e_seq envelope > sk_sent s then
        if e_seq envelope \<noteq> seq_next (sk_sent s) then closing now s p [CloseWith CLOSE_LAGGED]
        else GoOn [SendFrame (SEvent envelope)] (s\<lparr>sk_sent := e_seq envelope\<rparr>) p
      else GoOn [] s p)"
| "serve_event th own now db LiveLagged s p = closing now s p [CloseWith CLOSE_LAGGED]"
| "serve_event th own now db LiveClosed s p = closing now s p []"
| "serve_event th own now db (Incoming (TextFrame (Some CPing))) s p = GoOn [SendFrame SPong] s p"
| "serve_event th own now db (Incoming (TextFrame (Some (CViewing shown)))) s p =
     GoOn [] s (viewer_show now (sk_user s) (sk_viewer s)
       (case shown of None \<Rightarrow> None | Some b \<Rightarrow> if own b then Some b else None) p)"
| "serve_event th own now db (Incoming (TextFrame (Some (CResume after)))) s p =
     closing now s p [CloseWith CLOSE_PROTOCOL]"
| "serve_event th own now db (Incoming (TextFrame None)) s p = closing now s p [CloseWith CLOSE_PROTOCOL]"
| "serve_event th own now db (Incoming (PingMessage payload)) s p = GoOn [SendPong payload] s p"
| "serve_event th own now db (Incoming PongMessage) s p = GoOn [] s p"
| "serve_event th own now db (Incoming BinaryMessage) s p = closing now s p [CloseWith CLOSE_PROTOCOL]"
| "serve_event th own now db (Incoming CloseMessage) s p = closing now s p []"
| "serve_event th own now db (Incoming Gone) s p = closing now s p []"
| "serve_event th own now db CheckTick s p =
     (if session_alive th now s db then GoOn [SendPing] s p
      else closing now s p [CloseWith CLOSE_SIGNED_OUT])"

text \<open>
  The channel of broadcasts is tokio's, a parameter: \<open>recv pos es\<close> is what \<open>recv\<close> gives a
  receiver that has passed \<open>pos\<close> of the user's broadcasts when \<open>es\<close> are all that were sent.
\<close>

datatype received = RecvEvent envelope | RecvLagged nat | RecvWaits

text \<open>
  The broadcasts of the live loop. The lists are what had been sent each time the loop polls
  the channel; the result is the frames sent, how many broadcasts were taken from the
  channel, and whether the socket is still up.
\<close>

fun live_frames ::
  "(nat \<Rightarrow> envelope list \<Rightarrow> received) \<Rightarrow> nat \<Rightarrow> nat \<Rightarrow> envelope list list \<Rightarrow> server_frame list \<times> nat \<times> bool" where
  "live_frames recv pos sent [] = ([], pos, True)"
| "live_frames recv pos sent (es # polls) =
     (case recv pos es of
        RecvWaits \<Rightarrow> live_frames recv pos sent polls
      | RecvLagged missed \<Rightarrow> ([], pos, False)
      | RecvEvent e \<Rightarrow>
          if e_seq e > sent then
            if e_seq e \<noteq> seq_next sent then ([], pos, False)
            else (case live_frames recv (Suc pos) (e_seq e) polls of (fs, r) \<Rightarrow> (SEvent e # fs, r))
          else live_frames recv (Suc pos) sent polls)"

text \<open>\<open>live_frames\<close> is the loop on the channel alone.\<close>

fun received_event :: "received \<Rightarrow> socket_event option" where
  "received_event (RecvEvent e) = Some (LiveEvent e)"
| "received_event (RecvLagged missed) = Some LiveLagged"
| "received_event RecvWaits = None"

fun serve_lives ::
  "(nat \<Rightarrow> envelope list \<Rightarrow> received) \<Rightarrow> int \<Rightarrow> nat \<Rightarrow> envelope list list \<Rightarrow> socket \<Rightarrow> presence \<Rightarrow> server_frame list \<times> bool" where
  "serve_lives recv now pos [] s p = ([], True)"
| "serve_lives recv now pos (es # polls) s p =
     (case received_event (recv pos es) of
        None \<Rightarrow> serve_lives recv now pos polls s p
      | Some ev \<Rightarrow>
          (case serve_event (\<lambda>_. []) (\<lambda>_. False) now empty_accounts ev s p of
             EndWith _ _ \<Rightarrow> ([], False)
           | GoOn out s' p' \<Rightarrow>
               (case serve_lives recv now (Suc pos) polls s' p' of (fs, ok) \<Rightarrow>
                  (List.map_filter (\<lambda>x. case x of SendFrame f \<Rightarrow> Some f | _ \<Rightarrow> None) out @ fs, ok))))"

lemma serve_lives_eq:
  "serve_lives recv now pos polls s p = (case live_frames recv pos (sk_sent s) polls of (fs, _, up) \<Rightarrow> (fs, up))"
proof (induction polls arbitrary: pos s p)
  case (Cons es polls)
  then show ?case
    by (cases "recv pos es") (auto simp: closing_def List.map_filter_simps split: prod.splits)
qed simp

text \<open>
  What tokio documents of \<open>broadcast::channel(capacity)\<close>: a receiver gets the values in the order
  sent, none is lost unless more than \<open>capacity\<close> wait for it (the channel may keep more), and
  one that lost some is told so.
\<close>

definition broadcast_channel :: "nat \<Rightarrow> (nat \<Rightarrow> envelope list \<Rightarrow> received) \<Rightarrow> bool" where
  "broadcast_channel capacity recv \<longleftrightarrow> (\<forall>pos es.
     (length es \<le> pos \<longrightarrow> recv pos es = RecvWaits)
     \<and> (pos < length es \<longrightarrow> recv pos es = RecvEvent (es ! pos)
          \<or> capacity < length es - pos \<and> (\<exists>missed. recv pos es = RecvLagged missed)))"

section \<open>Replay from a log without gaps\<close>

lemma takeWhile_numbered:
  assumes num: "numbered es"
  shows "takeWhile (\<lambda>e. e_seq e \<le> n) (take m (drop s es)) = take (min m (n - s)) (drop s es)"
proof -
  have nth: "e_seq (take m (drop s es) ! i) = Suc (s + i)" if "i < length (take m (drop s es))" for i
  proof -
    have i: "s + i < length es" "i < m" using that by auto
    then have "take m (drop s es) ! i = es ! (s + i)" by simp
    then show ?thesis using numbered_nth [OF num i(1)] by simp
  qed
  have "takeWhile (\<lambda>e. e_seq e \<le> n) (take m (drop s es)) = take (n - s) (take m (drop s es))"
  proof (rule takeWhile_eq_take_P_nth)
    fix i assume "i < n - s" "i < length (take m (drop s es))"
    then show "e_seq (take m (drop s es) ! i) \<le> n" using nth by simp
  next
    assume "n - s < length (take m (drop s es))"
    then show "\<not> e_seq (take m (drop s es) ! (n - s)) \<le> n" using nth [of "n - s"] by simp
  qed
  then show ?thesis by (simp add: min.commute)
qed

lemma last_numbered:
  assumes num: "numbered es" and "s < length es" and "0 < m"
  shows "e_seq (last (take m (drop s es))) = min (s + m) (length es)"
proof -
  let ?page = "take m (drop s es)"
  have ne: "?page \<noteq> []" using assms(2,3) by simp
  have "last ?page = ?page ! (length ?page - 1)" using ne by (simp add: last_conv_nth)
  also have "\<dots> = es ! (s + (length ?page - 1))" using ne assms(2,3) by simp
  finally have "e_seq (last ?page) = Suc (s + (length ?page - 1))"
    using numbered_nth [OF num, of "s + (length ?page - 1)"] assms(2,3) by auto
  then show ?thesis using assms(2,3) by auto
qed

text \<open>
  From a log without gaps the loop passes on the events after those sent, in order, as far as
  it took them from the channel; it ends only when more than the capacity waited.
\<close>

lemma live_frames_numbered:
  assumes num: "numbered H" and chan: "broadcast_channel capacity recv"
    and polls: "\<forall>es \<in> set polls. es = take (length es) H" and pos: "pos \<le> length H" "n \<le> length H"
  shows "\<exists>p up. live_frames recv pos (max n pos) polls = (map SEvent (drop (max n pos) (take p H)), p, up)
    \<and> pos \<le> p \<and> p \<le> length H \<and> (\<not> up \<longrightarrow> (\<exists>es \<in> set polls. capacity < length es - p))
    \<and> (up \<and> length H \<le> pos + length (filter (\<lambda>es. es = H) polls) \<longrightarrow> p = length H)"
  using polls pos
proof (induction polls arbitrary: pos)
  case Nil
  then show ?case by auto
next
  case (Cons es polls)
  have es: "es = take (length es) H" "length es \<le> length H"
    using Cons.prems(1) by (auto simp: min_def) (metis length_take min.cobounded1)
  have polls: "\<forall>es \<in> set polls. es = take (length es) H" using Cons.prems(1) by simp
  consider (waits) "length es \<le> pos" "recv pos es = RecvWaits"
    | (gets) "pos < length es" "recv pos es = RecvEvent (es ! pos)"
    | (lags) missed where "pos < length es" "capacity < length es - pos" "recv pos es = RecvLagged missed"
    using chan unfolding broadcast_channel_def by (meson not_le)
  then show ?case
  proof cases
    case waits
    then have "es = H \<longrightarrow> pos = length H" using Cons.prems(2) by auto
    then show ?thesis using Cons.IH [OF polls Cons.prems(2,3)] waits(2) by fastforce
  next
    case lags
    then show ?thesis using Cons.prems(2) by auto
  next
    case gets
    have p: "pos < length H" using gets(1) es(2) by simp
    have nth: "es ! pos = H ! pos" using gets(1) es(1) by (metis nth_take)
    have seq: "e_seq (es ! pos) = Suc pos" using numbered_nth [OF num p] by (simp add: nth)
    from Cons.IH [OF polls _ Cons.prems(3), of "Suc pos"] p obtain p' up where
      r: "live_frames recv (Suc pos) (max n (Suc pos)) polls = (map SEvent (drop (max n (Suc pos)) (take p' H)), p', up)"
      "Suc pos \<le> p'" "p' \<le> length H" "\<not> up \<longrightarrow> (\<exists>es \<in> set polls. capacity < length es - p')"
      "up \<and> length H \<le> Suc pos + length (filter (\<lambda>es. es = H) polls) \<longrightarrow> p' = length H"
      by auto
    have "live_frames recv pos (max n pos) (es # polls) = (map SEvent (drop (max n pos) (take p' H)), p', up)"
    proof (cases "n \<le> pos")
      case True
      then have "max n (Suc pos) = Suc pos" "max n pos = pos" by simp_all
      moreover have "drop pos (take p' H) = H ! pos # drop (Suc pos) (take p' H)"
        using r(2) p by (subst Cons_nth_drop_Suc [symmetric]) simp_all
      ultimately show ?thesis using r(1) gets(2) seq by (simp add: nth seq_next_def)
    next
      case False
      then have "max n (Suc pos) = n" "max n pos = n" by simp_all
      then show ?thesis using r(1) gets(2) seq False by (simp add: seq_next_def)
    qed
    then show ?thesis using r(2-5) by (intro exI [of _ p'] exI [of _ up]) auto
  qed
qed

context event_source
begin

text \<open>
  With as many reads as there are events to replay, the replay gives the next events in
  order, all of them, unless a pruning overtakes it; then it stops with a reset.
\<close>

lemma replay_correct:
  "good l \<Longrightarrow> successively later (l # ls) \<Longrightarrow> n \<le> length (past l) \<Longrightarrow> sent \<le> n \<Longrightarrow> n - sent \<le> length ls \<Longrightarrow>
   \<exists>k. sent \<le> k \<and> k \<le> n \<and> replay_pages since n sent ls
     = Some (map SEvent (drop sent (take k (past l))) @ (if k = n then [] else [SReset n]))"
proof (induction ls arbitrary: l sent)
  case Nil
  then show ?case by auto
next
  case (Cons m ls)
  obtain more where m: "good m" "past m = past l @ more"
    using Cons.prems(1,2) later_good later_past by fastforce
  have chain: "successively later (m # ls)" using Cons.prems(2) by (cases ls) auto
  have n: "n \<le> length (past m)" using Cons.prems(3) m(2) by simp
  have take_past: "take k (past m) = take k (past l)" if "k \<le> n" for k
    using that Cons.prems(3) m(2) by simp
  show ?case
  proof (cases "sent < n")
    case False
    then show ?thesis using Cons.prems(4) by auto
  next
    case True
    then have lt: "sent < length (past m)" using n by simp
    obtain first rest where page: "since sent REPLAY_PAGE m = first # rest"
      using since_not_empty [OF m(1) lt, of REPLAY_PAGE] by (cases "since sent REPLAY_PAGE m") (auto simp: REPLAY_PAGE_def)
    show ?thesis
    proof (cases "e_seq first = Suc sent")
      case False
      then show ?thesis using True page by (intro exI [of _ sent]) (simp add: seq_next_def)
    next
      case first: True
      have eq: "first # rest = take REPLAY_PAGE (drop sent (past m))"
        using since_contiguous [OF m(1) page first] .
      let ?sent = "min (sent + REPLAY_PAGE) n"
      have lastp: "min (e_seq (last (first # rest))) n = ?sent"
        using last_numbered [OF past_numbered [OF m(1)] lt, of REPLAY_PAGE] n unfolding eq
        by (simp add: REPLAY_PAGE_def min_def)
      have sent: "sent < ?sent" using True by (simp add: REPLAY_PAGE_def)
      have "n - sent \<le> Suc (length ls)" using Cons.prems(5) by simp
      then have "n - ?sent \<le> length ls" using sent by linarith
      from Cons.IH [OF m(1) chain n _ this] obtain k where k: "?sent \<le> k" "k \<le> n"
        "replay_pages since n ?sent ls
          = Some (map SEvent (drop ?sent (take k (past m))) @ (if k = n then [] else [SReset n]))"
        by auto
      have "takeWhile (\<lambda>e. e_seq e \<le> n) (first # rest) = take (min REPLAY_PAGE (n - sent)) (drop sent (past m))"
        unfolding eq using takeWhile_numbered [OF past_numbered [OF m(1)]] .
      also have "\<dots> = drop sent (take ?sent (past m))"
        using True by (simp add: drop_take min_def)
      finally have joined: "takeWhile (\<lambda>e. e_seq e \<le> n) (first # rest) @ drop ?sent (take k (past m))
          = drop sent (take k (past m))"
      proof -
        assume tw: "takeWhile (\<lambda>e. e_seq e \<le> n) (first # rest) = drop sent (take ?sent (past m))"
        have "drop sent (take k (past m)) = drop sent (take ?sent (take k (past m)) @ drop ?sent (take k (past m)))"
          by (simp only: append_take_drop_id)
        also have "\<dots> = drop sent (take ?sent (past m)) @ drop ?sent (take k (past m))"
          using k(1) sent lt n k(2) by (simp add: min_def)
        finally show ?thesis using tw by simp
      qed
      have "replay_pages since n sent (m # ls) = Some (map SEvent (takeWhile (\<lambda>e. e_seq e \<le> n) (first # rest))
          @ map SEvent (drop ?sent (take k (past m))) @ (if k = n then [] else [SReset n]))"
        using True page first k(3) lastp by (simp add: seq_next_def)
      also have "\<dots> = Some (map SEvent (drop sent (take k (past l))) @ (if k = n then [] else [SReset n]))"
        using arg_cong [OF joined, of "map SEvent"] unfolding take_past [OF k(2)] map_append by simp
      finally have "replay_pages since n sent (m # ls)
          = Some (map SEvent (drop sent (take k (past l))) @ (if k = n then [] else [SReset n]))" .
      moreover have "sent \<le> k" using k(1) sent by linarith
      ultimately show ?thesis using k(2) by blast
    qed
  qed
qed

lemma serve_correct:
  assumes good: "good l" and chain: "successively later (l # l_earliest # ls)"
    and reads: "length (past l) - a \<le> length ls"
  shows "\<exists>frames. serve_start latest earliest since (Some a) l l_earliest ls = Some (frames, length (past l))
    \<and> (frames = [SReset (length (past l)), SLive (length (past l))] \<and> a \<noteq> length (past l)
      \<or> (\<exists>k. a \<le> k \<and> k \<le> length (past l)
          \<and> frames = map SEvent (drop a (take k (past l)))
            @ (if k = length (past l) then [] else [SReset (length (past l))]) @ [SLive (length (past l))]))"
proof -
  let ?n = "length (past l)"
  have n: "latest l = ?n" using latest_past [OF good] .
  obtain more where e: "good l_earliest" "past l_earliest = past l @ more"
    using later_good later_past good chain by fastforce
  have chain': "successively later (l_earliest # ls)" using chain by (cases ls) auto
  show ?thesis
  proof (cases "a > ?n \<or> (a < ?n \<and> (case earliest l_earliest of None \<Rightarrow> True | Some e \<Rightarrow> seq_next a < e))")
    case True
    then show ?thesis using n by (auto simp: serve_start_def Let_def)
  next
    case False
    then have a: "a \<le> ?n" by simp
    from replay_correct [OF e(1) chain' _ a reads] obtain k where k: "a \<le> k" "k \<le> ?n"
      "replay_pages since ?n a ls = Some (map SEvent (drop a (take k (past l_earliest)))
        @ (if k = ?n then [] else [SReset ?n]))"
      using e(2) by auto
    have "serve_start latest earliest since (Some a) l l_earliest ls = Some (map SEvent (drop a (take k (past l_earliest)))
        @ (if k = ?n then [] else [SReset ?n]) @ [SLive ?n], ?n)"
      unfolding serve_start_def Let_def option.case n
      by (simp only: if_not_P [OF False] k(3) option.map append_assoc)
    moreover have "take k (past l_earliest) = take k (past l)" using k(2) e(2) by simp
    ultimately show ?thesis using k(1,2) by auto
  qed
qed

end

end
