(* ===== verification/ClientConnection.thy ===== *)
theory ClientConnection
  imports Protocol
begin

text \<open>
  \<open>apps/bokkie-web/src/connection.rs\<close>: the client's side of the event socket, a state
  machine without I/O. A \<open>Duration\<close> is its milliseconds. Counters are \<open>u32\<close> as natural
  numbers, with the saturation and the wrap-around of the code written out.
\<close>

section \<open>Constants and types\<close>

definition FIRST_RETRY :: nat where
  "FIRST_RETRY = 250"

definition LAST_RETRY :: nat where
  "LAST_RETRY = 8000"

definition CLIENT_SIGNED_OUT :: nat where
  "CLIENT_SIGNED_OUT = 4002"

definition CLIENT_PROTOCOL :: nat where
  "CLIENT_PROTOCOL = 4000"

definition PONG_DEADLINE :: nat where
  "PONG_DEADLINE = 5000"

definition UNREADABLE_LIMIT :: nat where
  "UNREADABLE_LIMIT = 3"

definition VIEWING_RENEW :: nat where
  "VIEWING_RENEW = VIEWING_RENEW_MS"

datatype conn_state =
    Stopped
  | Connecting
  | Resuming
  | Replaying
  | Live
  | BackingOff nat nat
  | SignedOut
  | Outdated

datatype conn_input =
    Start
  | Opened
  | Frame server_frame
  | Unreadable
  | Closed "nat option"
  | RetryDue
  | Visible
  | Hidden
  | Viewing "bot_id option"
  | ViewingDue nat
  | PongOverdue nat
  | GotUnauthenticated
  | Stop

datatype conn_command =
    Connect
  | Send client_frame
  | Close
  | RetryAfter nat
  | CancelRetry
  | AwaitPong nat nat
  | RenewViewing nat nat
  | Apply envelope
  | Reload
  | CheckSession
  | ShowSignedOut
  | ShowOutdated

record connection =
  cn_state :: conn_state
  cn_failures :: nat
  cn_last :: "seq option"
  cn_synced :: bool
  cn_pings :: nat
  cn_awaiting :: "nat option"
  cn_unreadable :: nat
  cn_refusals :: nat
  cn_viewing :: "bot_id option"
  cn_hidden :: bool
  cn_told :: "bot_id option"
  cn_renewals :: nat

definition new_connection :: connection where
  "new_connection = \<lparr>cn_state = Stopped, cn_failures = 0, cn_last = None, cn_synced = False,
     cn_pings = 0, cn_awaiting = None, cn_unreadable = 0, cn_refusals = 0, cn_viewing = None,
     cn_hidden = False, cn_told = None, cn_renewals = 0\<rparr>"

definition saturating_succ :: "nat \<Rightarrow> nat" where
  "saturating_succ n = min (n + 1) (2 ^ 32 - 1)"

definition wrapping_succ :: "nat \<Rightarrow> nat" where
  "wrapping_succ n = (n + 1) mod 2 ^ 32"

section \<open>Operations\<close>

definition conn_shown :: "connection \<Rightarrow> bot_id option" where
  "conn_shown c = (if cn_hidden c then None else cn_viewing c)"

definition retry_delay :: "nat \<Rightarrow> nat" where
  "retry_delay attempt = (let doublings = min (attempt - 1) 6 in min (FIRST_RETRY * 2 ^ doublings) LAST_RETRY)"

definition renew_later :: "connection \<Rightarrow> conn_command list \<times> connection" where
  "renew_later c =
     (case cn_told c of
        None \<Rightarrow> ([], c)
      | Some _ \<Rightarrow>
          let n = wrapping_succ (cn_renewals c) in
          ([RenewViewing n VIEWING_RENEW], c\<lparr>cn_renewals := n\<rparr>))"

definition say_viewing :: "connection \<Rightarrow> conn_command list \<times> connection" where
  "say_viewing c =
     (if cn_state c \<noteq> Live \<or> cn_told c = conn_shown c then ([], c)
      else
        let (more, c') = renew_later (c\<lparr>cn_told := conn_shown c\<rparr>) in
        (Send (CViewing (conn_shown c)) # more, c'))"

definition conn_connect :: "connection \<Rightarrow> conn_command list \<times> connection" where
  "conn_connect c = ([Connect], c\<lparr>cn_state := Connecting, cn_awaiting := None\<rparr>)"

definition conn_closed :: "nat option \<Rightarrow> connection \<Rightarrow> conn_command list \<times> connection" where
  "conn_closed code c =
     (if code = Some CLIENT_SIGNED_OUT then ([ShowSignedOut], c\<lparr>cn_state := SignedOut\<rparr>)
      else
        let c1 = (if code = Some CLIENT_PROTOCOL then c\<lparr>cn_refusals := saturating_succ (cn_refusals c)\<rparr> else c) in
        if code = Some CLIENT_PROTOCOL \<and> cn_refusals c1 \<ge> UNREADABLE_LIMIT
        then ([ShowOutdated], c1\<lparr>cn_state := Outdated\<rparr>)
        else
          let n = saturating_succ (cn_failures c1); delay = retry_delay n in
          ([RetryAfter delay], c1\<lparr>cn_failures := n, cn_state := BackingOff n delay\<rparr>))"

definition resync :: "connection \<Rightarrow> conn_command list \<times> connection" where
  "resync c = (let (more, c') = conn_closed None c in (Close # more, c'))"

definition to_replaying :: "connection \<Rightarrow> connection" where
  "to_replaying c = (if cn_state c = Resuming then c\<lparr>cn_state := Replaying\<rparr> else c)"

fun conn_frame :: "server_frame \<Rightarrow> connection \<Rightarrow> conn_command list \<times> connection" where
  "conn_frame (SEvent envelope) c =
     (case cn_last c of
        Some l \<Rightarrow>
          if e_seq envelope \<le> l then ([], c)
          else if e_seq envelope \<noteq> seq_next l then resync c
          else ([Apply envelope], to_replaying (c\<lparr>cn_last := Some (e_seq envelope), cn_unreadable := 0\<rparr>))
      | None \<Rightarrow> ([Apply envelope], to_replaying (c\<lparr>cn_last := Some (e_seq envelope), cn_unreadable := 0\<rparr>)))"
| "conn_frame (SLive newest) c =
     (if cn_state c = Live then ([], c)
      else if (case cn_last c of Some l \<Rightarrow> l < newest | None \<Rightarrow> False) then resync c
      else
        let replaced = (case cn_last c of Some l \<Rightarrow> l > newest | None \<Rightarrow> False);
            reload = (\<not> cn_synced c \<or> replaced);
            c1 = c\<lparr>cn_last := Some newest, cn_state := Live, cn_failures := 0, cn_refusals := 0,
                   cn_synced := (cn_synced c \<or> reload), cn_told := None\<rparr>;
            (more, c2) = say_viewing c1
        in ((if reload then [Reload] else []) @ more, c2))"
| "conn_frame (SReset after) c =
     ([Reload], to_replaying (c\<lparr>cn_last := Some after, cn_synced := True\<rparr>))"
| "conn_frame SPong c = ([], c)"

definition socket_open :: "conn_state \<Rightarrow> bool" where
  "socket_open s \<longleftrightarrow> s \<in> {Resuming, Replaying, Live}"

text \<open>The match of \<open>transition\<close>, its arms in order.\<close>

definition conn_transition :: "conn_input \<Rightarrow> connection \<Rightarrow> conn_command list \<times> connection" where
  "conn_transition input c =
     (if cn_state c = SignedOut then ([], c)
      else if cn_state c = Outdated then
        (if input = Stop then ([], c\<lparr>cn_state := Stopped\<rparr>) else ([], c))
      else case input of
        GotUnauthenticated \<Rightarrow> ([Close, CancelRetry, ShowSignedOut], c\<lparr>cn_state := SignedOut\<rparr>)
      | Stop \<Rightarrow> ([Close, CancelRetry], c\<lparr>cn_state := Stopped\<rparr>)
      | Start \<Rightarrow> if cn_state c = Stopped then conn_connect c else ([], c)
      | RetryDue \<Rightarrow> (case cn_state c of BackingOff _ _ \<Rightarrow> conn_connect c | _ \<Rightarrow> ([], c))
      | Visible \<Rightarrow>
          (case cn_state c of
             BackingOff _ _ \<Rightarrow> (let (more, c') = conn_connect c in (CancelRetry # more, c'))
           | Live \<Rightarrow>
               let n = wrapping_succ (cn_pings c) in
               ([Send CPing, AwaitPong n PONG_DEADLINE], c\<lparr>cn_pings := n, cn_awaiting := Some n\<rparr>)
           | _ \<Rightarrow> ([], c))
      | PongOverdue ping \<Rightarrow>
          if cn_state c = Live \<and> cn_awaiting c = Some ping then resync (c\<lparr>cn_awaiting := None\<rparr>) else ([], c)
      | ViewingDue renewal \<Rightarrow>
          if cn_state c = Live \<and> renewal = cn_renewals c \<and> cn_told c \<noteq> None
          then (let (more, c') = renew_later c in (Send (CViewing (cn_told c)) # more, c'))
          else ([], c)
      | Opened \<Rightarrow>
          if cn_state c = Connecting then ([Send (CResume (cn_last c))], c\<lparr>cn_state := Resuming\<rparr>) else ([], c)
      | Closed code \<Rightarrow>
          if cn_state c = Connecting then
            (let (more, c') = conn_closed code c in
             (if cn_state c' \<noteq> SignedOut then more @ [CheckSession] else more, c'))
          else if socket_open (cn_state c) then conn_closed code c
          else ([], c)
      | Frame f \<Rightarrow>
          if socket_open (cn_state c) then conn_frame f (c\<lparr>cn_awaiting := None\<rparr>) else ([], c)
      | Unreadable \<Rightarrow>
          if socket_open (cn_state c) then
            let c1 = c\<lparr>cn_awaiting := None, cn_unreadable := saturating_succ (cn_unreadable c)\<rparr> in
            if cn_unreadable c1 \<ge> UNREADABLE_LIMIT then ([Close, ShowOutdated], c1\<lparr>cn_state := Outdated\<rparr>)
            else resync c1
          else ([], c)
      | _ \<Rightarrow> ([], c))"

definition note_viewing :: "conn_input \<Rightarrow> connection \<Rightarrow> bool \<times> connection" where
  "note_viewing input c =
     (case input of
        Visible \<Rightarrow> (True, c\<lparr>cn_hidden := False\<rparr>)
      | Hidden \<Rightarrow> (True, c\<lparr>cn_hidden := True\<rparr>)
      | Viewing b \<Rightarrow> (True, c\<lparr>cn_viewing := b\<rparr>)
      | _ \<Rightarrow> (False, c))"

definition handle :: "conn_input \<Rightarrow> connection \<Rightarrow> conn_command list \<times> connection" where
  "handle input c =
     (let (viewing, c1) = note_viewing input c;
          (commands, c2) = conn_transition input c1
      in if viewing then (let (more, c3) = say_viewing c2 in (commands @ more, c3)) else (commands, c2))"

fun handle_all :: "conn_input list \<Rightarrow> connection \<Rightarrow> conn_command list \<times> connection" where
  "handle_all [] c = ([], c)"
| "handle_all (i # is) c =
     (let (commands, c1) = handle i c; (more, c2) = handle_all is c1 in (commands @ more, c2))"

lemma handle_all_append:
  "handle_all (is @ js) c =
     (let (a, c1) = handle_all is c; (b, c2) = handle_all js c1 in (a @ b, c2))"
  by (induction "is" arbitrary: c) (auto simp: Let_def split: prod.splits)

section \<open>Delays\<close>

text \<open>The wait before a reconnection is 250 ms doubled for every failure in a row after the
  first, and 8 s at most: the cap on the exponent never shows.\<close>

lemma retry_delays_double:
  "retry_delay (Suc n) = min 8000 (250 * 2 ^ n)"
proof (cases "n \<le> 6")
  case True
  then show ?thesis by (simp add: retry_delay_def FIRST_RETRY_def LAST_RETRY_def Let_def min.commute)
next
  case False
  then have "(2::nat) ^ 6 \<le> 2 ^ n" by (intro power_increasing) simp_all
  then have "8000 \<le> 250 * (2::nat) ^ n" by simp
  then show ?thesis using False
    by (simp add: retry_delay_def FIRST_RETRY_def LAST_RETRY_def Let_def min_def)
qed

section \<open>The position in the log\<close>

lemma say_viewing_simps [simp]:
  "cn_last (snd (say_viewing c)) = cn_last c" "cn_state (snd (say_viewing c)) = cn_state c"
  "cn_synced (snd (say_viewing c)) = cn_synced c" "cn_failures (snd (say_viewing c)) = cn_failures c"
  "Apply e \<notin> set (fst (say_viewing c))" "Reload \<notin> set (fst (say_viewing c))"
  "Connect \<notin> set (fst (say_viewing c))"
  by (auto simp: say_viewing_def renew_later_def Let_def split: option.splits prod.splits)

lemma renew_later_simps [simp]:
  "cn_last (snd (renew_later c)) = cn_last c" "cn_state (snd (renew_later c)) = cn_state c"
  "cn_synced (snd (renew_later c)) = cn_synced c" "cn_told (snd (renew_later c)) = cn_told c"
  "Apply e \<notin> set (fst (renew_later c))" "Reload \<notin> set (fst (renew_later c))"
  "Connect \<notin> set (fst (renew_later c))"
  by (auto simp: renew_later_def Let_def split: option.splits)

lemma conn_closed_simps [simp]:
  "cn_last (snd (conn_closed code c)) = cn_last c" "cn_synced (snd (conn_closed code c)) = cn_synced c"
  "Apply e \<notin> set (fst (conn_closed code c))" "Reload \<notin> set (fst (conn_closed code c))"
  "Connect \<notin> set (fst (conn_closed code c))" "cn_state (snd (conn_closed code c)) \<noteq> Live"
  by (auto simp: conn_closed_def Let_def)

lemma resync_simps [simp]:
  "cn_last (snd (resync c)) = cn_last c" "cn_synced (snd (resync c)) = cn_synced c"
  "Apply e \<notin> set (fst (resync c))" "Reload \<notin> set (fst (resync c))"
  "cn_state (snd (resync c)) \<noteq> Live"
  by (simp_all add: resync_def conn_closed_def Let_def)

text \<open>
  What the store is told: events that follow one another, from any first one after a reload.
  \<open>no_hole pos cs\<close> says so of the commands \<open>cs\<close> for a store at \<open>pos\<close>, and \<open>store_at\<close> is where
  they leave it.
\<close>

fun no_hole :: "nat option \<Rightarrow> conn_command list \<Rightarrow> bool" where
  "no_hole pos [] \<longleftrightarrow> True"
| "no_hole pos (Apply e # cs) \<longleftrightarrow>
     (case pos of None \<Rightarrow> True | Some l \<Rightarrow> e_seq e = Suc l) \<and> no_hole (Some (e_seq e)) cs"
| "no_hole pos (Reload # cs) \<longleftrightarrow> no_hole None cs"
| "no_hole pos (c # cs) \<longleftrightarrow> no_hole pos cs"

fun store_at :: "nat option \<Rightarrow> conn_command list \<Rightarrow> nat option" where
  "store_at pos [] = pos"
| "store_at pos (Apply e # cs) = store_at (Some (e_seq e)) cs"
| "store_at pos (Reload # cs) = store_at None cs"
| "store_at pos (c # cs) = store_at pos cs"

lemma no_hole_append: "no_hole pos (a @ b) \<longleftrightarrow> no_hole pos a \<and> no_hole (store_at pos a) b"
  by (induction pos a rule: no_hole.induct) auto

lemma store_at_append: "store_at pos (a @ b) = store_at (store_at pos a) b"
  by (induction pos a rule: no_hole.induct) auto

definition quiet :: "conn_command list \<Rightarrow> bool" where
  "quiet cs \<longleftrightarrow> (\<forall>x \<in> set cs. x \<noteq> Reload \<and> (\<forall>e. x \<noteq> Apply e))"

lemma quiet_no_hole: "quiet cs \<Longrightarrow> no_hole pos cs \<and> store_at pos cs = pos"
proof (induction cs)
  case (Cons x cs)
  then show ?case by (cases x) (auto simp: quiet_def)
qed simp

lemma quiet_simps [simp]:
  "quiet []" "quiet (a @ b) \<longleftrightarrow> quiet a \<and> quiet b"
  "quiet (x # cs) \<longleftrightarrow> x \<noteq> Reload \<and> (\<forall>e. x \<noteq> Apply e) \<and> quiet cs"
  by (auto simp: quiet_def)

lemma quiet_parts [simp]:
  "quiet (fst (say_viewing c))" "quiet (fst (renew_later c))" "quiet (fst (conn_closed code c))"
  "quiet (fst (resync c))" "quiet (fst (conn_connect c))"
  by (auto simp: say_viewing_def renew_later_def conn_closed_def resync_def conn_connect_def Let_def
      split: option.splits prod.splits)

text \<open>Without a position nothing was synchronised.\<close>

definition position_ok :: "connection \<Rightarrow> bool" where
  "position_ok c \<longleftrightarrow> (cn_last c = None \<longrightarrow> \<not> cn_synced c)"

definition at_position :: "nat option \<Rightarrow> connection \<Rightarrow> bool" where
  "at_position pos c \<longleftrightarrow> position_ok c \<and> (pos = None \<or> pos = cn_last c)"

lemma at_position_cong:
  "cn_last c' = cn_last c \<Longrightarrow> cn_synced c' = cn_synced c \<Longrightarrow> at_position pos c' = at_position pos c"
  by (simp add: at_position_def position_ok_def)

text \<open>A step either moves nothing, or applies the next event, or reloads.\<close>

definition moves :: "nat option \<Rightarrow> connection \<Rightarrow> conn_command list \<times> connection \<Rightarrow> bool" where
  "moves pos c r \<longleftrightarrow> no_hole pos (fst r) \<and> at_position (store_at pos (fst r)) (snd r)"

lemma moves_quiet:
  "at_position pos c \<Longrightarrow> quiet (fst r) \<Longrightarrow> cn_last (snd r) = cn_last c \<Longrightarrow>
   cn_synced (snd r) = cn_synced c \<Longrightarrow> moves pos c r"
  by (simp add: moves_def quiet_no_hole at_position_cong [of "snd r" c])

lemma to_replaying_simps [simp]:
  "cn_last (to_replaying c) = cn_last c" "cn_synced (to_replaying c) = cn_synced c"
  by (simp_all add: to_replaying_def)

lemma moves_frame: "at_position pos c \<Longrightarrow> moves pos c (conn_frame f c)"
proof (cases f)
  case (SEvent e)
  assume at: "at_position pos c"
  show ?thesis
  proof (cases "cn_last c")
    case None
    then have "pos = None" using at by (simp add: at_position_def)
    then show ?thesis using SEvent None by (simp add: moves_def at_position_def position_ok_def)
  next
    case (Some l)
    then show ?thesis
      using SEvent at moves_quiet [OF at, of "resync c"] moves_quiet [OF at, of "([], c)"]
      by (auto simp: moves_def at_position_def position_ok_def seq_next_def split: option.splits)
  qed
next
  case (SLive n)
  assume at: "at_position pos c"
  show ?thesis
  proof (cases "cn_state c = Live \<or> (case cn_last c of Some l \<Rightarrow> l < n | None \<Rightarrow> False)")
    case True
    then show ?thesis
      using SLive moves_quiet [OF at, of "resync c"] moves_quiet [OF at, of "([], c)"] by auto
  next
    case False
    let ?replaced = "case cn_last c of Some l \<Rightarrow> l > n | None \<Rightarrow> False"
    let ?reload = "\<not> cn_synced c \<or> ?replaced"
    define c1 where "c1 = c\<lparr>cn_last := Some n, cn_state := Live, cn_failures := 0, cn_refusals := 0,
      cn_synced := (cn_synced c \<or> ?reload), cn_told := None\<rparr>"
    have r: "conn_frame f c = ((if ?reload then [Reload] else []) @ fst (say_viewing c1), snd (say_viewing c1))"
      using SLive False by (simp add: c1_def Let_def split: prod.splits)
    have c1: "cn_last c1 = Some n" by (simp add: c1_def)
    have quiet: "no_hole p (fst (say_viewing c1)) \<and> store_at p (fst (say_viewing c1)) = p" for p
      by (rule quiet_no_hole) simp
    show ?thesis
    proof (cases ?reload)
      case True
      then show ?thesis unfolding r moves_def at_position_def position_ok_def using quiet c1 by simp
    next
      case noreload: False
      then have "cn_last c = Some n"
        using False at by (auto simp: at_position_def position_ok_def split: option.splits)
      then show ?thesis
        unfolding r moves_def using noreload quiet c1 at by (auto simp: at_position_def position_ok_def)
    qed
  qed
next
  case (SReset n)
  then show ?thesis by (simp add: moves_def at_position_def position_ok_def)
next
  case SPong
  then show "at_position pos c \<Longrightarrow> ?thesis" using moves_quiet [of pos c "([], c)"] by simp
qed

lemma conn_connect_simps [simp]:
  "cn_last (snd (conn_connect c)) = cn_last c" "cn_synced (snd (conn_connect c)) = cn_synced c"
  by (simp_all add: conn_connect_def)

lemma transition_cases:
  "(quiet (fst (conn_transition i c)) \<and> cn_last (snd (conn_transition i c)) = cn_last c
     \<and> cn_synced (snd (conn_transition i c)) = cn_synced c)
   \<or> (\<exists>f. i = Frame f \<and> socket_open (cn_state c)
        \<and> conn_transition i c = conn_frame f (c\<lparr>cn_awaiting := None\<rparr>))"
  by (cases i) (auto simp: conn_transition_def Let_def socket_open_def split_def split: conn_state.splits)

lemma moves_transition: "at_position pos c \<Longrightarrow> moves pos c (conn_transition i c)"
proof -
  assume at: "at_position pos c"
  have at': "at_position pos (c\<lparr>cn_awaiting := None\<rparr>)" using at by (simp add: at_position_def position_ok_def)
  show ?thesis
    using transition_cases [of i c] moves_quiet [OF at, of "conn_transition i c"] moves_frame [OF at']
    by (auto simp: moves_def)
qed

lemma note_viewing_simps [simp]:
  "cn_last (snd (note_viewing i c)) = cn_last c" "cn_synced (snd (note_viewing i c)) = cn_synced c"
  "cn_state (snd (note_viewing i c)) = cn_state c" "cn_told (snd (note_viewing i c)) = cn_told c"
  by (cases i; simp add: note_viewing_def)+

lemma handle_eq:
  "handle i c = (let r = conn_transition i (snd (note_viewing i c)) in
     if fst (note_viewing i c) then (fst r @ fst (say_viewing (snd r)), snd (say_viewing (snd r))) else r)"
  by (simp add: handle_def Let_def split_def)

lemma moves_handle: "at_position pos c \<Longrightarrow> moves pos c (handle i c)"
proof -
  assume "at_position pos c"
  then have at: "at_position pos (snd (note_viewing i c))" by (simp add: at_position_cong [of "snd (note_viewing i c)" c])
  define r where "r = conn_transition i (snd (note_viewing i c))"
  have step: "no_hole pos (fst r)" "at_position (store_at pos (fst r)) (snd r)"
    using moves_transition [OF at, of i] by (simp_all add: moves_def r_def)
  have said: "no_hole p (fst (say_viewing (snd r))) \<and> store_at p (fst (say_viewing (snd r))) = p" for p
    by (rule quiet_no_hole) simp
  show ?thesis
  proof (cases "fst (note_viewing i c)")
    case True
    then have "handle i c = (fst r @ fst (say_viewing (snd r)), snd (say_viewing (snd r)))"
      by (simp add: handle_eq r_def Let_def)
    then show ?thesis
      using step said at_position_cong [of "snd (say_viewing (snd r))" "snd r"]
      by (simp add: moves_def no_hole_append store_at_append)
  next
    case False
    then have "handle i c = r" by (simp add: handle_eq r_def Let_def)
    then show ?thesis using step by (simp add: moves_def)
  qed
qed

lemma handle_all_Cons:
  "handle_all (i # is) c =
     (fst (handle i c) @ fst (handle_all is (snd (handle i c))), snd (handle_all is (snd (handle i c))))"
  by (simp add: Let_def split_def)

lemma moves_run: "at_position pos c \<Longrightarrow> moves pos c (handle_all is c)"
proof (induction "is" arbitrary: pos c)
  case Nil
  then show ?case by (simp add: moves_def)
next
  case (Cons i "is")
  from moves_handle [OF Cons.prems, of i]
  have step: "no_hole pos (fst (handle i c))" "at_position (store_at pos (fst (handle i c))) (snd (handle i c))"
    by (simp_all add: moves_def)
  from Cons.IH [OF step(2)] show ?case
    unfolding moves_def handle_all_Cons using step(1) by (simp add: no_hole_append store_at_append)
qed

text \<open>C28: whatever arrives, in whatever order, over however many sockets, what the connection
  passes on to the store between two reloads is the log's events one after the other: none
  is lost, repeated or reordered.\<close>

theorem events_are_passed_on_in_order:
  "no_hole None (fst (handle_all is new_connection))"
proof -
  have "at_position None new_connection" by (simp add: at_position_def position_ok_def new_connection_def)
  from moves_run [OF this, of "is"] show ?thesis by (simp add: moves_def)
qed

section \<open>The end of a session\<close>

lemma signed_out_handle: "cn_state c = SignedOut \<Longrightarrow> fst (handle i c) = [] \<and> cn_state (snd (handle i c)) = SignedOut"
  by (simp add: handle_eq Let_def conn_transition_def say_viewing_def)

lemma signed_out_run: "cn_state c = SignedOut \<Longrightarrow> fst (handle_all is c) = []"
  by (induction "is" arbitrary: c) (simp_all add: handle_all_Cons signed_out_handle del: handle_all.simps(2))

text \<open>Once the gateway says that the session is gone, by the close code of an open socket
  or by a 401, the client shows it and does nothing more: it never reconnects, whatever
  happens afterwards.\<close>

lemma signed_out_is_final:
  assumes "cn_state c \<in> {Connecting, Resuming, Replaying, Live}"
  shows "fst (handle_all (Closed (Some CLIENT_SIGNED_OUT) # is) c) = [ShowSignedOut]
    \<and> fst (handle_all (GotUnauthenticated # is) c) = [Close, CancelRetry, ShowSignedOut]"
proof -
  have "handle (Closed (Some CLIENT_SIGNED_OUT)) c = ([ShowSignedOut], c\<lparr>cn_state := SignedOut\<rparr>)"
    using assms by (auto simp: handle_def note_viewing_def conn_transition_def conn_closed_def socket_open_def)
  moreover have "handle GotUnauthenticated c = ([Close, CancelRetry, ShowSignedOut], c\<lparr>cn_state := SignedOut\<rparr>)"
    using assms by (auto simp: handle_def note_viewing_def conn_transition_def)
  ultimately show ?thesis
    using signed_out_run [of "c\<lparr>cn_state := SignedOut\<rparr>" "is"] by (simp add: handle_all_Cons del: handle_all.simps(2))
qed

lemma signed_out_is_final_witness:
  "fst (handle_all [Closed (Some CLIENT_SIGNED_OUT), Visible, RetryDue, Start] (new_connection\<lparr>cn_state := Live\<rparr>))
    = [ShowSignedOut]"
  using signed_out_is_final [of "new_connection\<lparr>cn_state := Live\<rparr>" "[Visible, RetryDue, Start]"]
  by (simp add: new_connection_def del: handle_all.simps)

section \<open>What the gateway knows of the page\<close>

text \<open>What the socket has said since it was opened; a new socket has said nothing.\<close>

fun said_viewing :: "bot_id option \<Rightarrow> conn_command list \<Rightarrow> bot_id option" where
  "said_viewing v [] = v"
| "said_viewing v (Connect # cs) = said_viewing None cs"
| "said_viewing v (Send (CViewing b) # cs) = said_viewing b cs"
| "said_viewing v (c # cs) = said_viewing v cs"

lemma said_viewing_append: "said_viewing v (a @ b) = said_viewing (said_viewing v a) b"
  by (induction v a rule: said_viewing.induct) auto

definition told_ok :: "bot_id option \<Rightarrow> connection \<Rightarrow> bool" where
  "told_ok v c \<longleftrightarrow> (cn_state c = Live \<longrightarrow> v = cn_told c) \<and> (cn_state c \<in> {Connecting, Resuming, Replaying} \<longrightarrow> v = None)"

lemma said_say_viewing:
  "told_ok v c \<Longrightarrow> told_ok (said_viewing v (fst (say_viewing c))) (snd (say_viewing c))
   \<and> (cn_state c = Live \<longrightarrow> cn_told (snd (say_viewing c)) = conn_shown (snd (say_viewing c)))"
  by (auto simp: say_viewing_def renew_later_def told_ok_def Let_def conn_shown_def split: option.splits)

lemma said_closed: "told_ok v c \<Longrightarrow>
   told_ok (said_viewing v (fst (conn_closed code c))) (snd (conn_closed code c))"
  by (auto simp: conn_closed_def told_ok_def Let_def)

lemma said_resync: "told_ok v c \<Longrightarrow> told_ok (said_viewing v (fst (resync c))) (snd (resync c))"
  using said_closed [of v c None] by (simp add: resync_def split_def Let_def)

definition live_shown :: "connection \<Rightarrow> bool" where
  "live_shown c \<longleftrightarrow> (cn_state c = Live \<longrightarrow> cn_told c = conn_shown c)"

lemma not_live_shown: "cn_state c \<noteq> Live \<Longrightarrow> live_shown c"
  by (simp add: live_shown_def)

lemma told_frame:
  assumes "told_ok v c" and "live_shown c" and "socket_open (cn_state c)"
  shows "told_ok (said_viewing v (fst (conn_frame f c))) (snd (conn_frame f c)) \<and> live_shown (snd (conn_frame f c))"
proof (cases f)
  case (SEvent e)
  have "told_ok v (to_replaying (c\<lparr>cn_last := l, cn_unreadable := 0\<rparr>))
      \<and> live_shown (to_replaying (c\<lparr>cn_last := l, cn_unreadable := 0\<rparr>))" for l
    using assms by (auto simp: to_replaying_def told_ok_def live_shown_def conn_shown_def)
  then show ?thesis
    using SEvent assms said_resync [OF assms(1)] not_live_shown [of "snd (resync c)"]
    by (auto split: option.splits)
next
  case (SLive n)
  show ?thesis
  proof (cases "cn_state c = Live \<or> (case cn_last c of Some l \<Rightarrow> l < n | None \<Rightarrow> False)")
    case True
    then show ?thesis
      using SLive assms said_resync [OF assms(1)] not_live_shown [of "snd (resync c)"] by auto
  next
    case False
    let ?reload = "\<not> cn_synced c \<or> (case cn_last c of Some l \<Rightarrow> l > n | None \<Rightarrow> False)"
    define c1 where "c1 = c\<lparr>cn_last := Some n, cn_state := Live, cn_failures := 0, cn_refusals := 0,
      cn_synced := (cn_synced c \<or> ?reload), cn_told := None\<rparr>"
    have r: "conn_frame f c = ((if ?reload then [Reload] else []) @ fst (say_viewing c1), snd (say_viewing c1))"
      using SLive False by (simp add: c1_def Let_def split_def)
    have "v = None" using assms False by (auto simp: told_ok_def socket_open_def)
    then have "told_ok v c1" "cn_state c1 = Live" by (simp_all add: c1_def told_ok_def)
    then show ?thesis
      unfolding r using said_say_viewing [of v c1] by (simp add: said_viewing_append live_shown_def)
  qed
next
  case (SReset n)
  then show ?thesis
    using assms by (auto simp: to_replaying_def told_ok_def live_shown_def conn_shown_def)
next
  case SPong
  then show ?thesis using assms by simp
qed

definition shown_input :: "conn_input \<Rightarrow> bool" where
  "shown_input i \<longleftrightarrow> i \<in> {Visible, Hidden} \<or> (\<exists>b. i = Viewing b)"

lemma note_viewing_shown: "fst (note_viewing i c) \<longleftrightarrow> shown_input i"
  by (cases i) (simp_all add: note_viewing_def shown_input_def)

text \<open>What holds of a step from a connection of which the gateway has been told \<open>v\<close>.\<close>

definition tells :: "bot_id option \<Rightarrow> conn_command list \<times> connection \<Rightarrow> bool" where
  "tells v r \<longleftrightarrow> told_ok (said_viewing v (fst r)) (snd r) \<and> live_shown (snd r)"

lemma tells_closed: "told_ok v c \<Longrightarrow> tells v (conn_closed code c)"
  by (simp add: tells_def said_closed not_live_shown)

lemma tells_resync: "told_ok v c \<Longrightarrow> tells v (resync c)"
  by (simp add: tells_def said_resync not_live_shown)

lemma tells_connect: "tells v (conn_connect c)"
  by (simp add: tells_def conn_connect_def told_ok_def live_shown_def)

lemma tells_renewal:
  assumes "told_ok v c" and "live_shown c" and "cn_state c = Live"
  shows "tells v (Send (CViewing (cn_told c)) # fst (renew_later c), snd (renew_later c))"
  using assms by (auto simp: tells_def renew_later_def told_ok_def live_shown_def conn_shown_def Let_def
      split: option.splits)

lemma told_awaiting:
  "told_ok v (c\<lparr>cn_awaiting := a\<rparr>) = told_ok v c" "live_shown (c\<lparr>cn_awaiting := a\<rparr>) = live_shown c"
  "told_ok v (c\<lparr>cn_awaiting := a, cn_unreadable := n\<rparr>) = told_ok v c"
  by (simp_all add: told_ok_def live_shown_def conn_shown_def)

lemma tells_transition:
  assumes told: "told_ok v c" and live: "live_shown c" and i: "\<not> shown_input i"
  shows "tells v (conn_transition i c)"
proof (cases "cn_state c = SignedOut \<or> cn_state c = Outdated")
  case True
  then show ?thesis by (auto simp: conn_transition_def tells_def told_ok_def live_shown_def)
next
  case False
  have stay: "tells v ([], c)" using told live by (simp add: tells_def)
  show ?thesis
  proof (cases i)
    case Start
    then show ?thesis using False stay tells_connect by (simp add: conn_transition_def)
  next
    case Opened
    then show ?thesis using False stay told
      by (auto simp: conn_transition_def tells_def told_ok_def live_shown_def)
  next
    case (Frame f)
    then show ?thesis
      using False stay told_frame [of v "c\<lparr>cn_awaiting := None\<rparr>" f] told live
      by (simp add: conn_transition_def tells_def told_awaiting)
  next
    case Unreadable
    then show ?thesis
      using False stay tells_resync [of v "c\<lparr>cn_awaiting := None, cn_unreadable := n\<rparr>" for n] told
      by (simp add: conn_transition_def told_awaiting Let_def) (simp add: tells_def told_ok_def live_shown_def)
  next
    case (Closed code)
    have "tells v (fst (conn_closed code c) @ [CheckSession], snd (conn_closed code c))"
      using tells_closed [OF told, of code] by (simp add: tells_def said_viewing_append)
    then show ?thesis
      using Closed False stay tells_closed [OF told, of code]
      by (simp add: conn_transition_def split_def Let_def)
  next
    case RetryDue
    then show ?thesis using False stay tells_connect by (simp add: conn_transition_def split: conn_state.split)
  next
    case (ViewingDue n)
    then show ?thesis using False stay tells_renewal [OF told live]
      by (simp add: conn_transition_def split_def Let_def)
  next
    case (PongOverdue n)
    then show ?thesis using False stay tells_resync [of v "c\<lparr>cn_awaiting := None\<rparr>"] told
      by (simp add: conn_transition_def told_awaiting)
  next
    case GotUnauthenticated
    then show ?thesis using False by (simp add: conn_transition_def tells_def told_ok_def live_shown_def)
  next
    case Stop
    then show ?thesis using False by (simp add: conn_transition_def tells_def told_ok_def live_shown_def)
  qed (use i in \<open>simp_all add: shown_input_def\<close>)
qed

lemma told_transition_shown:
  assumes told: "told_ok v c" and i: "shown_input i"
  shows "told_ok (said_viewing v (fst (conn_transition i c))) (snd (conn_transition i c))"
proof (cases "i = Visible \<and> cn_state c \<noteq> SignedOut \<and> cn_state c \<noteq> Outdated")
  case True
  then have i: "i = Visible" by simp
  show ?thesis unfolding i
    using told True tells_connect [of v c]
    by (cases "cn_state c") (simp_all add: conn_transition_def told_ok_def tells_def Let_def split_def)
next
  case False
  then have "conn_transition i c = ([], c)" using i by (auto simp: shown_input_def conn_transition_def)
  then show ?thesis using told by simp
qed

lemma told_handle:
  assumes "told_ok v c" and "live_shown c"
  shows "told_ok (said_viewing v (fst (handle i c))) (snd (handle i c)) \<and> live_shown (snd (handle i c))"
proof (cases "shown_input i")
  case True
  define r where "r = conn_transition i (snd (note_viewing i c))"
  have "told_ok v (snd (note_viewing i c))" using assms(1) by (simp add: told_ok_def)
  then have told: "told_ok (said_viewing v (fst r)) (snd r)" unfolding r_def by (rule told_transition_shown [OF _ True])
  have "handle i c = (fst r @ fst (say_viewing (snd r)), snd (say_viewing (snd r)))"
    using True by (simp add: handle_eq r_def note_viewing_shown Let_def)
  then show ?thesis
    using said_say_viewing [OF told] by (simp add: said_viewing_append live_shown_def)
next
  case False
  then have "note_viewing i c = (False, c)" by (cases i) (simp_all add: shown_input_def note_viewing_def)
  then have "handle i c = conn_transition i c" by (simp add: handle_eq Let_def)
  then show ?thesis using tells_transition [OF assms False] by (simp add: tells_def)
qed

lemma told_run:
  "told_ok v c \<Longrightarrow> live_shown c \<Longrightarrow>
   told_ok (said_viewing v (fst (handle_all is c))) (snd (handle_all is c)) \<and> live_shown (snd (handle_all is c))"
proof (induction "is" arbitrary: v c)
  case (Cons i "is")
  from told_handle [OF Cons.prems, of i] Cons.IH [of "said_viewing v (fst (handle i c))" "snd (handle i c)"]
  show ?case unfolding handle_all_Cons by (simp add: said_viewing_append)
qed simp

text \<open>Whenever the socket is live, what it last told the gateway is the Bot that the page
  shows, and none while the page is hidden: the gateway never suppresses a push for a Bot
  the user does not see.\<close>

lemma gateway_knows_what_is_shown:
  assumes "cn_state (snd (handle_all is new_connection)) = Live"
  shows "said_viewing None (fst (handle_all is new_connection)) = conn_shown (snd (handle_all is new_connection))"
  using told_run [of None new_connection "is"] assms
  by (simp add: told_ok_def live_shown_def new_connection_def)

lemma gateway_knows_what_is_shown_witness:
  "said_viewing None (fst (handle_all [Start, Viewing (Some 4), Opened, Frame (SLive 9)] new_connection)) = Some 4"
  by (subst gateway_knows_what_is_shown)
    (simp_all add: handle_def note_viewing_def conn_transition_def say_viewing_def renew_later_def
      conn_connect_def conn_shown_def new_connection_def socket_open_def Let_def)

end
