(* ===== verification/Delivery.thy ===== *)
theory Delivery
  imports EventSocket ClientConnection
begin

text \<open>
  The event stream end to end: the log of the gateway (\<open>EventLog\<close>), the socket that serves it
  (\<open>EventSocket\<close>) and the client's connection (\<open>ClientConnection\<close>), put together the way
  \<open>routes/events.rs\<close> \<open>serve\<close> and \<open>connection.rs\<close> do: the gateway subscribes, then reads, then
  passes on the broadcasts; the client handles each frame as it comes.
\<close>

section \<open>A session\<close>

text \<open>The commands that reach the store.\<close>

definition store_commands :: "conn_command list \<Rightarrow> conn_command list" where
  "store_commands cs = filter (\<lambda>x. case x of Apply _ \<Rightarrow> True | Reload \<Rightarrow> True | _ \<Rightarrow> False) cs"

lemma store_commands_simps [simp]:
  "store_commands [] = []" "store_commands (a @ b) = store_commands a @ store_commands b"
  "store_commands (Apply e # cs) = Apply e # store_commands cs"
  "store_commands (Reload # cs) = Reload # store_commands cs"
  "store_commands (map Apply es) = map Apply es"
  by (simp_all add: store_commands_def filter_map comp_def)

lemma store_commands_quiet: "quiet cs \<Longrightarrow> store_commands cs = []"
  by (auto simp: store_commands_def quiet_def filter_empty_conv split: conn_command.splits)

text \<open>
  Everything the gateway sends on a socket that resumes at \<open>after\<close>: it subscribes at \<open>l0\<close>,
  reads at \<open>l\<close>, \<open>l_earliest\<close> and \<open>ls\<close>, and polls the channel at \<open>polls\<close>. With the frames,
  how many broadcasts it took from the channel, counted from the first, and whether the
  socket is still up.
\<close>

definition session_frames ::
  "int \<Rightarrow> (nat \<Rightarrow> envelope list \<Rightarrow> received) \<Rightarrow> nat option \<Rightarrow> event_log \<Rightarrow> event_log \<Rightarrow> event_log \<Rightarrow> event_log list
   \<Rightarrow> event_log list \<Rightarrow> (server_frame list \<times> nat \<times> bool) option" where
  "session_frames user recv after l0 l l_earliest ls polls =
     (case serve_user_start user after l l_earliest ls of
        None \<Rightarrow> None
      | Some (frames, sent) \<Rightarrow>
          (case live_frames recv (log_subscribe user l0) sent (map (\<lambda>m. ul_live (el_users m user)) polls) of
             (lives, r) \<Rightarrow> Some (frames @ lives, r)))"

definition log_later :: "event_log \<Rightarrow> event_log \<Rightarrow> bool" where
  "log_later l m \<longleftrightarrow> (\<exists>ops. m = fold log_step ops l)"

section \<open>The client's side\<close>

definition take_frames :: "server_frame list \<Rightarrow> connection \<Rightarrow> conn_command list \<times> connection" where
  "take_frames fs c = handle_all (map Frame fs) c"

lemma take_frames_append:
  "take_frames (a @ b) c =
     (fst (take_frames a c) @ fst (take_frames b (snd (take_frames a c))), snd (take_frames b (snd (take_frames a c))))"
  by (simp add: take_frames_def handle_all_append Let_def split_def)

lemma take_frames_Nil [simp]: "take_frames [] c = ([], c)"
  by (simp add: take_frames_def)

lemma handle_frame:
  "socket_open (cn_state c) \<Longrightarrow> handle (Frame f) c = conn_frame f (c\<lparr>cn_awaiting := None\<rparr>)"
  by (auto simp: handle_def note_viewing_def conn_transition_def socket_open_def split: prod.splits)

lemma take_frame:
  "socket_open (cn_state c) \<Longrightarrow> take_frames [f] c = conn_frame f (c\<lparr>cn_awaiting := None\<rparr>)"
  by (simp add: take_frames_def handle_frame split_def)

lemma take_frames_Cons:
  "take_frames (f # fs) c =
     (fst (take_frames [f] c) @ fst (take_frames fs (snd (take_frames [f] c))), snd (take_frames fs (snd (take_frames [f] c))))"
  using take_frames_append [of "[f]" fs c] by simp

text \<open>What a connection looks like after frames that did not interrupt it.\<close>

definition at_seq :: "conn_state set \<Rightarrow> nat \<Rightarrow> bool \<Rightarrow> connection \<Rightarrow> bool" where
  "at_seq states n synced c \<longleftrightarrow> cn_state c \<in> states \<and> cn_last c = Some n \<and> cn_synced c = synced"

lemma take_event:
  assumes "at_seq states n synced c" and "states = {Live} \<or> states = {Resuming, Replaying}" and "e_seq e = Suc n"
  shows "fst (take_frames [SEvent e] c) = [Apply e] \<and> at_seq states (Suc n) synced (snd (take_frames [SEvent e] c))"
proof -
  have "socket_open (cn_state c)" using assms(1,2) by (auto simp: at_seq_def socket_open_def)
  then show ?thesis
    using assms by (auto simp: take_frame at_seq_def seq_next_def to_replaying_def)
qed

lemma take_events:
  assumes num: "numbered es" and states: "states = {Live} \<or> states = {Resuming, Replaying}" and "k \<le> length es"
  shows "i \<le> k \<Longrightarrow> at_seq states i synced c \<Longrightarrow>
    fst (take_frames (map SEvent (drop i (take k es))) c) = map Apply (drop i (take k es))
    \<and> at_seq states k synced (snd (take_frames (map SEvent (drop i (take k es))) c))"
proof (induction "k - i" arbitrary: i c)
  case 0
  then show ?case by simp
next
  case (Suc m)
  then have i: "i < k" by simp
  then have split: "drop i (take k es) = es ! i # drop (Suc i) (take k es)"
    using \<open>k \<le> length es\<close> by (simp add: Cons_nth_drop_Suc [symmetric])
  have "e_seq (es ! i) = Suc i" using numbered_nth [OF num, of i] i \<open>k \<le> length es\<close> by simp
  from take_event [OF Suc.prems(2) states this]
  have step: "fst (take_frames [SEvent (es ! i)] c) = [Apply (es ! i)]"
    "at_seq states (Suc i) synced (snd (take_frames [SEvent (es ! i)] c))" by simp_all
  have "m = k - Suc i" "Suc i \<le> k" using Suc(2) i by simp_all
  from Suc.hyps(1) [OF this step(2)] show ?case
    unfolding split list.map by (subst (1 2) take_frames_Cons) (simp add: step(1))
qed

text \<open>The frame \<open>live\<close> with the position the client is at.\<close>

lemma take_live:
  assumes "cn_state c \<in> {Resuming, Replaying}" and "cn_last c = Some n \<or> cn_last c = None \<and> \<not> cn_synced c"
  shows "store_commands (fst (take_frames [SLive n] c)) = (if cn_synced c then [] else [Reload])
    \<and> Close \<notin> set (fst (take_frames [SLive n] c))
    \<and> at_seq {Live} n True (snd (take_frames [SLive n] c))"
proof -
  define c1 where "c1 = c\<lparr>cn_awaiting := None, cn_last := Some n, cn_state := Live, cn_failures := 0,
    cn_refusals := 0, cn_synced := True, cn_told := None\<rparr>"
  have "socket_open (cn_state c)" using assms(1) by (auto simp: socket_open_def)
  then have r: "take_frames [SLive n] c =
      ((if cn_synced c then [] else [Reload]) @ fst (say_viewing c1), snd (say_viewing c1))"
    using assms by (auto simp: take_frame c1_def Let_def split_def)
  have "Close \<notin> set (fst (say_viewing c1))"
    by (auto simp: say_viewing_def renew_later_def Let_def split: option.splits)
  then show ?thesis
    unfolding r using store_commands_quiet [of "fst (say_viewing c1)"]
    by (simp add: at_seq_def c1_def)
qed

lemma take_reset:
  assumes "cn_state c \<in> {Resuming, Replaying}"
  shows "fst (take_frames [SReset n] c) = [Reload] \<and> at_seq {Resuming, Replaying} n True (snd (take_frames [SReset n] c))"
proof -
  have "socket_open (cn_state c)" using assms by (auto simp: socket_open_def)
  then show ?thesis using assms by (auto simp: take_frame at_seq_def to_replaying_def)
qed

text \<open>A reset, then \<open>live\<close>.\<close>

lemma take_reset_live:
  assumes "cn_state c \<in> {Resuming, Replaying}"
  shows "store_commands (fst (take_frames [SReset n, SLive n] c)) = [Reload]
    \<and> Close \<notin> set (fst (take_frames [SReset n, SLive n] c))
    \<and> at_seq {Live} n True (snd (take_frames [SReset n, SLive n] c))"
proof -
  let ?c = "snd (take_frames [SReset n] c)"
  have reset: "fst (take_frames [SReset n] c) = [Reload]" "at_seq {Resuming, Replaying} n True ?c"
    using take_reset [OF assms] by simp_all
  have "cn_state ?c \<in> {Resuming, Replaying}" "cn_last ?c = Some n" "cn_synced ?c"
    using reset(2) by (simp_all add: at_seq_def)
  then show ?thesis
    using take_live [of ?c n] reset(1) by (subst (1 2 3) take_frames_Cons) simp
qed

section \<open>The two sides together\<close>

text \<open>
  What the store is told by a session that leaves the client at the end of \<open>past\<close>: either
  exactly the events after the client's position, or events from there, then one reload, and
  then every event that was broadcast after the \<open>n\<close>th, where \<open>n\<close> was the newest when the
  gateway served the reload.
\<close>

definition told_all :: "nat option \<Rightarrow> bool \<Rightarrow> nat \<Rightarrow> envelope list \<Rightarrow> conn_command list \<Rightarrow> bool" where
  "told_all after synced n past cs \<longleftrightarrow>
     (synced \<and> (\<exists>a. after = Some a \<and> a \<le> n \<and> cs = map Apply (drop a past)))
     \<or> (\<exists>k \<le> n. cs = map Apply (drop (case after of None \<Rightarrow> k | Some a \<Rightarrow> a) (take k past))
          @ Reload # map Apply (drop n past))"

lemma take_lives:
  assumes num: "numbered es" and "n \<le> r" "r \<le> length es" and at: "at_seq {Live} n True c"
  shows "fst (take_frames (map SEvent (drop n (take r es))) c) = map Apply (drop n (take r es))
    \<and> at_seq {Live} r True (snd (take_frames (map SEvent (drop n (take r es))) c))"
  using take_events [OF num _ assms(3,2) at] by simp

lemma Close_not_Apply [simp]: "Close \<notin> Apply ` es"
  by auto

text \<open>The opening frames of a resumed session, up to and with \<open>live\<close>.\<close>

lemma take_opening:
  assumes num: "numbered past" and c: "cn_state c = Resuming" "cn_last c = Some a"
    and k: "a \<le> k" "k \<le> n" and n: "n \<le> length past"
  shows "let r = take_frames (map SEvent (drop a (take k past)) @ (if k = n then [] else [SReset n]) @ [SLive n]) c
    in store_commands (fst r) = map Apply (drop a (take k past)) @ (if k = n \<and> cn_synced c then [] else [Reload])
      \<and> Close \<notin> set (fst r) \<and> at_seq {Live} n True (snd r)"
proof -
  let ?r1 = "take_frames (map SEvent (drop a (take k past))) c"
  have "at_seq {Resuming, Replaying} a (cn_synced c) c" using c by (simp add: at_seq_def)
  from take_events [OF num _ _ k(1) this] k n
  have r1: "fst ?r1 = map Apply (drop a (take k past))" "at_seq {Resuming, Replaying} k (cn_synced c) (snd ?r1)"
    by simp_all
  have c1: "cn_state (snd ?r1) \<in> {Resuming, Replaying}" "cn_last (snd ?r1) = Some k" "cn_synced (snd ?r1) = cn_synced c"
    using r1(2) by (simp_all add: at_seq_def)
  show ?thesis
  proof (cases "k = n")
    case True
    then show ?thesis
      using take_live [of "snd ?r1" n] c1 r1(1) by (simp add: take_frames_append Let_def)
  next
    case False
    then show ?thesis
      using take_reset_live [OF c1(1), of n] r1(1) by (simp add: take_frames_append Let_def)
  qed
qed

lemma later_chain:
  assumes "successively log_later (l # ls)" and "log_inv l" and "m \<in> set (l # ls)"
  shows "log_inv m \<and> (\<exists>more. history u m = history u l @ more)"
  using assms
proof (induction ls arbitrary: l)
  case (Cons x ls)
  obtain ops where x: "x = fold log_step ops l" using Cons.prems(1) by (auto simp: log_later_def)
  have inv: "log_inv x" unfolding x by (rule log_inv_run [OF Cons.prems(2)])
  obtain new where new: "history u x = history u l @ new" unfolding x using history_run by blast
  show ?case
  proof (cases "m = l")
    case True
    then show ?thesis using Cons.prems(2) by simp
  next
    case False
    have "successively log_later (x # ls)" using Cons.prems(1) by simp
    then show ?thesis using Cons.IH [OF _ inv] Cons.prems(3) False new by auto
  qed
qed simp

text \<open>
  A socket the gateway closes because it fell behind: the client waits, connects again and
  resumes.
\<close>

definition after_lagging :: "connection \<Rightarrow> conn_command list \<times> connection" where
  "after_lagging c = handle_all [Closed (Some CLOSE_LAGGED), RetryDue, Opened] c"

lemma after_lagging_resumes:
  assumes "cn_state c = Live"
  shows "store_commands (fst (after_lagging c)) = [] \<and> last (fst (after_lagging c)) = Send (CResume (cn_last c))
    \<and> cn_state (snd (after_lagging c)) = Resuming \<and> cn_last (snd (after_lagging c)) = cn_last c
    \<and> cn_synced (snd (after_lagging c)) = cn_synced c"
  using assms
  by (simp add: after_lagging_def handle_def note_viewing_def conn_transition_def conn_closed_def conn_connect_def socket_open_def
    CLOSE_LAGGED_def CLIENT_SIGNED_OUT_def CLIENT_PROTOCOL_def Let_def store_commands_def)

lemma drop_take_join:
  assumes "a \<le> n" "n \<le> r"
  shows "drop a (take n xs) @ drop n (take r xs) = drop a (take r xs)"
proof -
  have "take n xs = take n (take r xs)" using assms(2) by (simp add: min_absorb1)
  moreover have "drop a (take n ys) @ drop n ys = drop a ys" for ys :: "'a list"
  proof (cases "n \<le> length ys")
    case True
    then show ?thesis using drop_append [of a "take n ys" "drop n ys"] assms(1) by (simp add: min_absorb2)
  qed simp
  ultimately show ?thesis by metis
qed

text \<open>The session as one run of the client.\<close>

lemma session_delivers:
  assumes inv: "log_inv l0" and chan: "broadcast_channel capacity recv"
    and chain: "successively log_later (l0 # l # l_earliest # ls @ polls @ [l_end])"
    and c: "cn_state c = Resuming" "cn_last c = None \<longrightarrow> \<not> cn_synced c"
    and reads: "length (history user l) - (case cn_last c of None \<Rightarrow> 0 | Some a \<Rightarrow> a) \<le> length ls"
  shows "\<exists>frames p up. session_frames user recv (cn_last c) l0 l l_earliest ls polls = Some (frames, p, up)
    \<and> Close \<notin> set (fst (take_frames frames c))
    \<and> at_seq {Live} (max (length (history user l)) p) True (snd (take_frames frames c))
    \<and> told_all (cn_last c) (cn_synced c) (length (history user l)) (take (max (length (history user l)) p) (history user l_end))
        (store_commands (fst (take_frames frames c)))
    \<and> (\<not> up \<longrightarrow> (\<exists>m \<in> set polls. capacity < length (history user m) - p))
    \<and> (up \<and> length (history user l_end) \<le> log_subscribe user l0 + length (filter (\<lambda>m. history user m = history user l_end) polls)
        \<longrightarrow> p = length (history user l_end))"
proof -
  let ?n = "length (history user l)" and ?H = "history user l_end" and ?polls = "map (history user) polls"
  have l: "log_inv l" "\<exists>more. history user l = history user l0 @ more"
    using later_chain [OF chain inv, of l user] by simp_all
  have chain_l: "successively log_later (l # l_earliest # ls @ polls @ [l_end])" using chain by simp
  have e: "log_inv l_end" "\<exists>more. ?H = history user l @ more"
    using later_chain [OF chain_l l(1), of l_end user] by simp_all
  have num: "numbered ?H" using e(1) by (simp add: log_inv_def)
  have n: "?n \<le> length ?H" using e(2) by auto
  have take_H: "take k (history user l) = take k ?H" if "k \<le> ?n" for k using e(2) that by auto
  have sub: "log_subscribe user l0 \<le> ?n" using l(2) by (auto simp: log_subscribe_def history_def)
  have seen: "\<forall>es \<in> set ?polls. es = take (length es) ?H"
  proof
    fix es assume "es \<in> set ?polls"
    then obtain m where m: "m \<in> set polls" "es = history user m" by auto
    obtain before after where split: "polls = before @ m # after" using split_list [OF m(1)] by blast
    have "log_inv m" using later_chain [OF chain_l l(1), of m] m(1) by simp
    moreover have "successively log_later (m # after @ [l_end])"
      using chain_l unfolding split by (simp add: successively_append_iff flip: append_Cons)
    ultimately obtain more where "?H = history user m @ more" using later_chain [of m "after @ [l_end]" l_end user] by auto
    then show "es = take (length es) ?H" using m(2) by simp
  qed
  have "log_subscribe user l0 \<le> length ?H" using sub n by simp
  from live_frames_numbered [OF num chan seen this n] sub obtain p up where
    lives: "live_frames recv (log_subscribe user l0) ?n ?polls = (map SEvent (drop ?n (take p ?H)), p, up)"
    and p: "p \<le> length ?H" "\<not> up \<longrightarrow> (\<exists>es \<in> set ?polls. capacity < length es - p)"
      "up \<and> length ?H \<le> log_subscribe user l0 + length (filter (\<lambda>es. es = ?H) ?polls) \<longrightarrow> p = length ?H"
    by (auto simp: max_absorb1)
  define r where "r = max ?n p"
  have r: "?n \<le> r" "r \<le> length ?H" using n p(1) by (simp_all add: r_def)
  have drop_r: "drop ?n (take p ?H) = drop ?n (take r ?H)" by (auto simp: r_def max_def)
  have "polls_seen": "length (filter (\<lambda>es. es = ?H) ?polls) = length (filter (\<lambda>m. history user m = ?H) polls)"
    by (simp add: filter_map comp_def)
  have finish: ?thesis
    if start: "serve_user_start user (cn_last c) l l_earliest ls = Some (first, ?n)"
      and first: "Close \<notin> set (fst (take_frames first c))" "at_seq {Live} ?n True (snd (take_frames first c))"
      and told: "told_all (cn_last c) (cn_synced c) ?n (take r ?H)
        (store_commands (fst (take_frames first c)) @ map Apply (drop ?n (take r ?H)))"
    for first
  proof (intro exI conjI)
    show "session_frames user recv (cn_last c) l0 l l_earliest ls polls = Some (first @ map SEvent (drop ?n (take r ?H)), p, up)"
      using lives unfolding drop_r by (simp add: session_frames_def start history_def [abs_def])
    show "\<not> up \<longrightarrow> (\<exists>m \<in> set polls. capacity < length (history user m) - p)" using p(2) by auto
    show "up \<and> length ?H \<le> log_subscribe user l0 + length (filter (\<lambda>m. history user m = ?H) polls) \<longrightarrow> p = length ?H"
      using p(3) unfolding polls_seen .
  qed (use first told take_lives [OF num r first(2)] in \<open>simp_all add: take_frames_append flip: r_def\<close>)
  show ?thesis
  proof (cases "cn_last c")
    case None
    have "fst (log_latest user l) = ?n" using events.latest_past [OF l(1)] .
    then have "serve_user_start user (cn_last c) l l_earliest ls = Some ([SLive ?n], ?n)"
      by (simp add: None serve_user_start_def serve_start_def Let_def)
    moreover have "store_commands (fst (take_frames [SLive ?n] c)) = [Reload] \<and> Close \<notin> set (fst (take_frames [SLive ?n] c))
        \<and> at_seq {Live} ?n True (snd (take_frames [SLive ?n] c))"
      using take_live [of c ?n] c None by simp
    ultimately show ?thesis by (intro finish) (auto simp: told_all_def None)
  next
    case (Some a)
    have chain3: "successively (\<lambda>l m. \<exists>ops. m = fold log_step ops l) (l # l_earliest # ls)"
      using chain_l unfolding log_later_def [abs_def] by (simp add: successively_append_iff flip: append_Cons)
    have "?n - a \<le> length ls" using reads Some by simp
    from events.serve_correct [OF l(1) chain3 this] obtain frames where
      start: "serve_user_start user (cn_last c) l l_earliest ls = Some (frames, ?n)" and
      frames: "frames = [SReset ?n, SLive ?n] \<and> a \<noteq> ?n \<or> (\<exists>k. a \<le> k \<and> k \<le> ?n
        \<and> frames = map SEvent (drop a (take k (history user l))) @ (if k = ?n then [] else [SReset ?n]) @ [SLive ?n])"
      unfolding serve_user_start_def Some by blast
    show ?thesis
    proof (cases "frames = [SReset ?n, SLive ?n]")
      case True
      have "store_commands (fst (take_frames frames c)) = [Reload] \<and> Close \<notin> set (fst (take_frames frames c))
        \<and> at_seq {Live} ?n True (snd (take_frames frames c))"
        unfolding True by (rule take_reset_live) (simp add: c(1))
      moreover have "told_all (cn_last c) (cn_synced c) ?n (take r ?H) ([Reload] @ map Apply (drop ?n (take r ?H)))"
        unfolding told_all_def by (rule disjI2, rule exI [of _ 0]) simp
      ultimately show ?thesis by (intro finish [OF start]) simp_all
    next
      case False
      then obtain k where k: "a \<le> k" "k \<le> ?n"
        "frames = map SEvent (drop a (take k ?H)) @ (if k = ?n then [] else [SReset ?n]) @ [SLive ?n]"
        using frames take_H by auto
      have opened: "store_commands (fst (take_frames frames c))
          = map Apply (drop a (take k ?H)) @ (if k = ?n \<and> cn_synced c then [] else [Reload])"
        "Close \<notin> set (fst (take_frames frames c))" "at_seq {Live} ?n True (snd (take_frames frames c))"
        using take_opening [OF num c(1) Some k(1,2) n] unfolding k(3) [symmetric] Let_def by simp_all
      have take_r: "take k (take r ?H) = take k ?H" using k(2) r(1) by (simp add: min_absorb1)
      have joined: "drop a (take ?n ?H) @ drop ?n (take r ?H) = drop a (take r ?H)" if "k = ?n"
        using drop_take_join k(1) r(1) that by simp
      have "told_all (cn_last c) (cn_synced c) ?n (take r ?H)
          (store_commands (fst (take_frames frames c)) @ map Apply (drop ?n (take r ?H)))"
        unfolding opened(1) told_all_def Some using k(1,2) joined take_r by (auto simp flip: map_append)
      then show ?thesis by (intro finish [OF start opened(2,3)])
    qed
  qed
qed

section \<open>Properties\<close>


text \<open>
  A log of two events and two that come while the socket is live, for a client at the first;
  the channel keeps as many as it must.
\<close>

definition example_recv :: "nat \<Rightarrow> nat \<Rightarrow> envelope list \<Rightarrow> received" where
  "example_recv capacity pos es =
     (if length es \<le> pos then RecvWaits else if capacity < length es - pos then RecvLagged (length es - pos - capacity)
      else RecvEvent (es ! pos))"

definition one_more :: "routine_id \<Rightarrow> event_log \<Rightarrow> event_log" where
  "one_more r = fold log_step [OpenBatch 7, Emit 5 (RoutineDeleted 1 r), CommitBatch]"

definition example_log :: "nat \<Rightarrow> event_log" where
  "example_log capacity = fold log_step (concat (map (\<lambda>r. [OpenBatch 7, Emit 5 (RoutineDeleted 1 r), CommitBatch]) [1, 2]))
     (with_limits 10 capacity)"

lemma example_lengths:
  "length (ul_live (el_users (example_log 1) 7)) = 2" "length (ul_live (el_users (one_more 4 (one_more 3 (example_log 1))) 7)) = 4"
  "el_capacity (example_log 1) = 1"
  by code_simp+

lemma example_later: "log_later m m" "log_later m (one_more r m)"
  unfolding log_later_def one_more_def by (rule exI [of _ "[]"], simp, blast)


end
