(* ===== verification/ClientStore.thy ===== *)
theory ClientStore
  imports Protocol
begin

text \<open>
  \<open>apps/bokkie-web/src/store.rs\<close>: the client's copy of the user's Bots, conversations and
  routines, merged from HTTP snapshots and the event log. A \<open>BTreeMap\<close> is a map with a finite
  domain, iterated in key order; a method that returns \<open>Applied\<close> returns it with the store.
\<close>

section \<open>Types\<close>

definition CLIENT_PREVIEW_CHARS :: nat where
  "CLIENT_PREVIEW_CHARS = 140"

definition MAX_HELD :: nat where
  "MAX_HELD = 5000"

datatype snapshot =
    SnapBots
  | SnapMessages bot_id
  | SnapOlder bot_id
  | SnapRoutines bot_id

record routines =
  rs_seq :: seq
  rs_routines :: "routine_id \<rightharpoonup> routine"

record applied =
  ap_changed :: bool
  ap_reload :: "snapshot set"

definition no_change :: applied where
  "no_change = \<lparr>ap_changed = False, ap_reload = {}\<rparr>"

definition changed :: "bool \<Rightarrow> applied" where
  "changed b = \<lparr>ap_changed = b, ap_reload = {}\<rparr>"

definition reload :: "snapshot \<Rightarrow> applied" where
  "reload s = \<lparr>ap_changed = False, ap_reload = {s}\<rparr>"

definition merge_applied :: "applied \<Rightarrow> applied \<Rightarrow> applied" where
  "merge_applied a b = \<lparr>ap_changed = (ap_changed a \<or> ap_changed b), ap_reload = ap_reload a \<union> ap_reload b\<rparr>"

record conversation =
  cv_seq :: seq
  cv_messages :: "message_id \<rightharpoonup> message"
  cv_older :: "message_id option"
  cv_requested_older :: "message_id option"

record store =
  st_bots :: "bot_id \<rightharpoonup> bot"
  st_bots_seq :: "seq option"
  st_newest :: "bot_id \<rightharpoonup> message_id"
  st_conversations :: "bot_id \<rightharpoonup> conversation"
  st_routines :: "bot_id \<rightharpoonup> routines"
  st_errors :: "bot_id \<rightharpoonup> utext"
  st_usage :: "usage option"
  st_usage_event_seen :: bool
  st_loading :: "snapshot set"
  st_held :: "envelope list"
  st_stale :: "snapshot set"

definition new_store :: store where
  "new_store = \<lparr>st_bots = Map.empty, st_bots_seq = None, st_newest = Map.empty,
     st_conversations = Map.empty, st_routines = Map.empty, st_errors = Map.empty,
     st_usage = None, st_usage_event_seen = False, st_loading = {}, st_held = [], st_stale = {}\<rparr>"

text \<open>Values in key order.\<close>

definition map_values :: "('k::linorder \<rightharpoonup> 'v) \<Rightarrow> 'v list" where
  "map_values m = map (\<lambda>k. the (m k)) (sorted_list_of_set (dom m))"

section \<open>The pure parts\<close>

text \<open>\<open>None\<close>: the delta starts beyond the text held.\<close>

definition append_delta :: "message \<Rightarrow> nat \<Rightarrow> utext \<Rightarrow> bool option \<times> message" where
  "append_delta m offset delta =
     (if m_state m \<noteq> Streaming then (Some False, m)
      else
        let held_chars = length (m_text m) in
        if offset > held_chars then (None, m)
        else
          let known = held_chars - offset; new = drop known delta in
          (Some (new \<noteq> []), m\<lparr>m_text := m_text m @ new\<rparr>))"

fun message_bot :: "event \<Rightarrow> bot_id option" where
  "message_bot (MessageCreated m) = Some (m_bot_id m)"
| "message_bot (MessageCompleted m) = Some (m_bot_id m)"
| "message_bot (MessageDelta b _ _ _) = Some b"
| "message_bot _ = None"

definition preview :: "message \<Rightarrow> message_preview" where
  "preview m = \<lparr>mp_author = m_author m, mp_text = take CLIENT_PREVIEW_CHARS (m_text m), mp_at = m_updated_at m\<rparr>"

section \<open>Reading\<close>

definition bot_activity :: "bot \<Rightarrow> timestamp" where
  "bot_activity b = (case b_last_message b of None \<Rightarrow> b_updated_at b | Some m \<Rightarrow> mp_at m)"

text \<open>Whether \<open>a\<close> comes before \<open>b\<close> in the list, or at the same place.\<close>

definition listed_before :: "bot \<Rightarrow> bot \<Rightarrow> bool" where
  "listed_before a b \<longleftrightarrow>
     (if b_pinned a \<noteq> b_pinned b then b_pinned a
      else if bot_activity a \<noteq> bot_activity b then bot_activity a > bot_activity b
      else b_id a \<le> b_id b)"

fun insert_bot :: "bot \<Rightarrow> bot list \<Rightarrow> bot list" where
  "insert_bot b [] = [b]"
| "insert_bot b (x # xs) = (if listed_before b x then b # x # xs else x # insert_bot b xs)"

definition sort_bots :: "bot list \<Rightarrow> bot list" where
  "sort_bots bs = foldr insert_bot bs []"

definition sorted_bots :: "(bot \<Rightarrow> bool) \<Rightarrow> store \<Rightarrow> bot list" where
  "sorted_bots keep st = sort_bots (filter keep (map_values (st_bots st)))"

definition visible_bots :: "store \<Rightarrow> bot list" where
  "visible_bots st = sorted_bots (\<lambda>b. \<not> b_hidden b) st"

definition listed_bots :: "store \<Rightarrow> bot list" where
  "listed_bots st = sorted_bots (\<lambda>_. True) st"

definition conversation_messages :: "conversation \<Rightarrow> message list" where
  "conversation_messages c = map_values (cv_messages c)"

definition clear_error :: "bot_id \<Rightarrow> store \<Rightarrow> bool \<times> store" where
  "clear_error b st = (st_errors st b \<noteq> None, st\<lparr>st_errors := (st_errors st)(b := None)\<rparr>)"

section \<open>The usage meter\<close>

definition request_usage :: "store \<Rightarrow> store" where
  "request_usage st = st\<lparr>st_usage_event_seen := False\<rparr>"

definition load_usage :: "usage \<Rightarrow> store \<Rightarrow> bool \<times> store" where
  "load_usage u st =
     (if st_usage_event_seen st then
        (case st_usage st of
           Some h \<Rightarrow>
             if us_subscription h = [] \<and> us_subscription u \<noteq> []
             then (True, st\<lparr>st_usage := Some (h\<lparr>us_subscription := us_subscription u\<rparr>)\<rparr>)
             else (False, st)
         | None \<Rightarrow> (False, st))
      else if st_usage st = Some u then (False, st)
      else (True, st\<lparr>st_usage := Some u\<rparr>))"

section \<open>Loading\<close>

definition request :: "snapshot \<Rightarrow> store \<Rightarrow> bool \<times> store" where
  "request s st = (s \<notin> st_loading st, st\<lparr>st_loading := insert s (st_loading st)\<rparr>)"

definition reload_all :: "store \<Rightarrow> snapshot set \<times> store" where
  "reload_all st =
     (let everything = insert SnapBots (SnapMessages ` dom (st_conversations st) \<union> SnapRoutines ` dom (st_routines st))
      in (everything, st\<lparr>st_loading := st_loading st \<union> everything\<rparr>))"

definition settle :: "store \<Rightarrow> store" where
  "settle st = (if st_loading st = {} then st\<lparr>st_held := []\<rparr> else st)"

definition stop_loading :: "snapshot \<Rightarrow> store \<Rightarrow> store" where
  "stop_loading s st = st\<lparr>st_loading := st_loading st - {s}, st_stale := st_stale st - {s}\<rparr>"

definition load_failed :: "snapshot \<Rightarrow> store \<Rightarrow> store" where
  "load_failed s st =
     (let st1 = stop_loading s st;
          st2 = (case s of
            SnapOlder b \<Rightarrow> st1\<lparr>st_conversations := (st_conversations st1)
              (b := map_option (\<lambda>c. c\<lparr>cv_requested_older := None\<rparr>) (st_conversations st1 b))\<rparr>
          | _ \<Rightarrow> st1)
      in settle st2)"

definition request_older :: "bot_id \<Rightarrow> store \<Rightarrow> message_id option \<times> store" where
  "request_older b st =
     (let st1 = st\<lparr>st_conversations := (st_conversations st)
            (b := map_option (\<lambda>c. c\<lparr>cv_requested_older := cv_older c\<rparr>) (st_conversations st b))\<rparr>;
          cursor = (case st_conversations st b of None \<Rightarrow> None | Some c \<Rightarrow> cv_older c)
      in (cursor,
          case cursor of
            Some _ \<Rightarrow> st1\<lparr>st_loading := insert (SnapOlder b) (st_loading st1)\<rparr>
          | None \<Rightarrow> load_failed (SnapOlder b) st1))"

definition close_conversation :: "bot_id \<Rightarrow> store \<Rightarrow> store" where
  "close_conversation b st =
     settle (stop_loading (SnapOlder b) (stop_loading (SnapMessages b)
       (st\<lparr>st_conversations := (st_conversations st)(b := None)\<rparr>)))"

definition close_routines :: "bot_id \<Rightarrow> store \<Rightarrow> store" where
  "close_routines b st =
     settle (stop_loading (SnapRoutines b) (st\<lparr>st_routines := (st_routines st)(b := None)\<rparr>))"

definition routine_changed :: "routine \<Rightarrow> store \<Rightarrow> bool \<times> store" where
  "routine_changed r st =
     (case st_routines st (r_bot_id r) of
        None \<Rightarrow> (False, st)
      | Some rs \<Rightarrow>
          (case rs_routines rs (r_id r) of
             Some h \<Rightarrow> if r_updated_at h > r_updated_at r \<or> h = r then (False, st)
               else (True, st\<lparr>st_routines := (st_routines st)(r_bot_id r \<mapsto>
                 rs\<lparr>rs_routines := (rs_routines rs)(r_id r \<mapsto> r)\<rparr>)\<rparr>)
           | None \<Rightarrow> (True, st\<lparr>st_routines := (st_routines st)(r_bot_id r \<mapsto>
                 rs\<lparr>rs_routines := (rs_routines rs)(r_id r \<mapsto> r)\<rparr>)\<rparr>)))"

definition routine_deleted :: "bot_id \<Rightarrow> routine_id \<Rightarrow> store \<Rightarrow> bool \<times> store" where
  "routine_deleted b r st =
     (case st_routines st b of
        None \<Rightarrow> (False, st)
      | Some rs \<Rightarrow> (rs_routines rs r \<noteq> None,
          st\<lparr>st_routines := (st_routines st)(b \<mapsto> rs\<lparr>rs_routines := (rs_routines rs)(r := None)\<rparr>)\<rparr>))"

text \<open>Only reloads that are not under way yet are reported, and count as loading.\<close>

definition finish :: "applied \<times> store \<Rightarrow> applied \<times> store" where
  "finish r = (case r of (a, st) \<Rightarrow>
     (a\<lparr>ap_reload := ap_reload a - st_loading st\<rparr>, st\<lparr>st_loading := st_loading st \<union> ap_reload a\<rparr>))"

definition reload_if_stale :: "snapshot \<Rightarrow> store \<Rightarrow> applied \<times> store" where
  "reload_if_stale s st =
     (if s \<in> st_stale st then (reload s, st\<lparr>st_stale := st_stale st - {s}\<rparr>) else (no_change, st))"

definition note_newest :: "bot_id \<Rightarrow> message_id \<Rightarrow> store \<Rightarrow> store" where
  "note_newest b m st =
     st\<lparr>st_newest := (st_newest st)(b \<mapsto> (case st_newest st b of None \<Rightarrow> m | Some n \<Rightarrow> max n m))\<rparr>"

section \<open>Events and the Bot list\<close>

definition held_preview :: "bot_id \<Rightarrow> message_id \<Rightarrow> store \<Rightarrow> message_preview option" where
  "held_preview b m st =
     (case st_conversations st b of None \<Rightarrow> None | Some c \<Rightarrow> map_option preview (cv_messages c m))"

definition set_preview :: "bot_id \<Rightarrow> message_preview \<Rightarrow> store \<Rightarrow> applied \<times> store" where
  "set_preview b p st =
     (case st_bots st b of
        Some e \<Rightarrow> (changed (b_last_message e \<noteq> Some p),
          st\<lparr>st_bots := (st_bots st)(b \<mapsto> e\<lparr>b_last_message := Some p\<rparr>)\<rparr>)
      | None \<Rightarrow> (reload SnapBots, st))"

definition note_unread :: "message \<Rightarrow> store \<Rightarrow> applied \<times> store" where
  "note_unread m st =
     (case st_bots st (m_bot_id m) of
        Some b \<Rightarrow>
          if \<not> b_unread b \<and> is_unread m (b_read_up_to b)
          then (changed True, st\<lparr>st_bots := (st_bots st)(m_bot_id m \<mapsto> b\<lparr>b_unread := True\<rparr>)\<rparr>)
          else (no_change, st)
      | None \<Rightarrow> (no_change, st))"

definition preview_created :: "message \<Rightarrow> store \<Rightarrow> applied \<times> store" where
  "preview_created m st =
     (let newest = st_newest st (m_bot_id m);
          st1 = note_newest (m_bot_id m) (m_id m) st;
          seen = held_preview (m_bot_id m) (m_id m) st1
      in if (case newest of Some n \<Rightarrow> n > m_id m | None \<Rightarrow> False) then (no_change, st1)
         else if newest = Some (m_id m) then
           (case seen of Some p \<Rightarrow> set_preview (m_bot_id m) p st1 | None \<Rightarrow> (no_change, st1))
         else set_preview (m_bot_id m) (case seen of Some p \<Rightarrow> p | None \<Rightarrow> preview m) st1)"

fun bots_event :: "event \<Rightarrow> store \<Rightarrow> applied \<times> store" where
  "bots_event (BotCreated b) st =
     (changed (st_bots st (b_id b) \<noteq> Some b), st\<lparr>st_bots := (st_bots st)(b_id b \<mapsto> b)\<rparr>)"
| "bots_event (BotUpdated b) st =
     (changed (st_bots st (b_id b) \<noteq> Some b), st\<lparr>st_bots := (st_bots st)(b_id b \<mapsto> b)\<rparr>)"
| "bots_event (BotStatusChanged i s) st =
     (case st_bots st i of
        Some b \<Rightarrow> (changed (b_status b \<noteq> s), st\<lparr>st_bots := (st_bots st)(i \<mapsto> b\<lparr>b_status := s\<rparr>)\<rparr>)
      | None \<Rightarrow> (reload SnapBots, st))"
| "bots_event (MessageCreated m) st =
     (let (a, st1) = note_unread m st; (a', st2) = preview_created m st1 in (merge_applied a a', st2))"
| "bots_event (MessageDelta i m offset delta) st =
     (if st_newest st i \<noteq> Some m then (no_change, st)
      else (case held_preview i m st of Some p \<Rightarrow> set_preview i p st | None \<Rightarrow> (no_change, st)))"
| "bots_event (MessageCompleted m) st =
     (case st_newest st (m_bot_id m) of
        Some n \<Rightarrow> if n > m_id m then (no_change, st)
          else set_preview (m_bot_id m) (preview m) (note_newest (m_bot_id m) (m_id m) st)
      | None \<Rightarrow> if st_bots st (m_bot_id m) \<noteq> None then (reload SnapBots, st) else (no_change, st))"
| "bots_event (BotError i e) st =
     (changed (st_errors st i \<noteq> Some e), st\<lparr>st_errors := (st_errors st)(i \<mapsto> e)\<rparr>)"
| "bots_event (ReadUpdated r) st =
     (case st_bots st (rs_bot_id r) of
        Some b \<Rightarrow> (changed (b_read_up_to b \<noteq> rs_read_up_to r \<or> b_unread b \<noteq> rs_unread r),
          st\<lparr>st_bots := (st_bots st)(rs_bot_id r \<mapsto> b\<lparr>b_read_up_to := rs_read_up_to r, b_unread := rs_unread r\<rparr>)\<rparr>)
      | None \<Rightarrow> (reload SnapBots, st))"
| "bots_event _ st = (no_change, st)"

definition apply_to_bots :: "envelope \<Rightarrow> store \<Rightarrow> applied \<times> store" where
  "apply_to_bots e st =
     (case st_bots_seq st of
        None \<Rightarrow> (no_change, st)
      | Some s \<Rightarrow> if e_seq e \<le> s then (no_change, st) else bots_event (e_event e) st)"

section \<open>Events and routines\<close>

fun event_routine_bot :: "event \<Rightarrow> bot_id option" where
  "event_routine_bot (RoutineCreated r) = Some (r_bot_id r)"
| "event_routine_bot (RoutineUpdated r) = Some (r_bot_id r)"
| "event_routine_bot (RoutineDeleted b _) = Some b"
| "event_routine_bot _ = None"

fun routines_event :: "event \<Rightarrow> routines \<Rightarrow> bool \<times> routines" where
  "routines_event (RoutineCreated r) rs =
     (rs_routines rs (r_id r) \<noteq> Some r, rs\<lparr>rs_routines := (rs_routines rs)(r_id r \<mapsto> r)\<rparr>)"
| "routines_event (RoutineUpdated r) rs =
     (rs_routines rs (r_id r) \<noteq> Some r, rs\<lparr>rs_routines := (rs_routines rs)(r_id r \<mapsto> r)\<rparr>)"
| "routines_event (RoutineDeleted b r) rs =
     (rs_routines rs r \<noteq> None, rs\<lparr>rs_routines := (rs_routines rs)(r := None)\<rparr>)"
| "routines_event _ rs = (False, rs)"

definition apply_to_routines :: "envelope \<Rightarrow> store \<Rightarrow> applied \<times> store" where
  "apply_to_routines e st =
     (case event_routine_bot (e_event e) of
        None \<Rightarrow> (no_change, st)
      | Some b \<Rightarrow>
          (case st_routines st b of
             None \<Rightarrow> (no_change, st)
           | Some rs \<Rightarrow>
               if e_seq e \<le> rs_seq rs then (no_change, st)
               else let (c, rs') = routines_event (e_event e) rs in
                 (changed c, st\<lparr>st_routines := (st_routines st)(b \<mapsto> rs')\<rparr>)))"

section \<open>Events and conversations\<close>

text \<open>\<open>None\<close>: the copy is incomplete, and the conversation is to be loaded again.\<close>

fun conversation_event :: "event \<Rightarrow> (message_id \<rightharpoonup> message) \<Rightarrow> bool option \<times> (message_id \<rightharpoonup> message)" where
  "conversation_event (MessageCreated m) ms =
     (if (case ms (m_id m) of
            None \<Rightarrow> False
          | Some h \<Rightarrow> m_state h \<noteq> Streaming \<or> take (length (m_text m)) (m_text h) = m_text m)
      then (Some False, ms)
      else (Some True, ms(m_id m \<mapsto> m)))"
| "conversation_event (MessageDelta b i offset delta) ms =
     (case ms i of
        None \<Rightarrow> (None, ms)
      | Some m \<Rightarrow> let (c, m') = append_delta m offset delta in (c, ms(i \<mapsto> m')))"
| "conversation_event (MessageCompleted m) ms = (Some (ms (m_id m) \<noteq> Some m), ms(m_id m \<mapsto> m))"
| "conversation_event _ ms = (Some False, ms)"

definition apply_to_conversation :: "bot_id \<Rightarrow> envelope \<Rightarrow> store \<Rightarrow> applied \<times> store" where
  "apply_to_conversation b e st =
     (case st_conversations st b of
        None \<Rightarrow> (no_change, st)
      | Some c \<Rightarrow>
          if e_seq e \<le> cv_seq c then (no_change, st)
          else let (r, ms) = conversation_event (e_event e) (cv_messages c) in
            ((case r of None \<Rightarrow> reload (SnapMessages b) | Some x \<Rightarrow> changed x),
             st\<lparr>st_conversations := (st_conversations st)(b \<mapsto> c\<lparr>cv_messages := ms\<rparr>)\<rparr>))"

section \<open>Applying and loading\<close>

definition hold :: "envelope \<Rightarrow> store \<Rightarrow> store" where
  "hold e st =
     (if st_loading st = {} then st
      else
        let st1 = (if length (st_held st) \<ge> MAX_HELD
                   then st\<lparr>st_held := [], st_stale := st_stale st \<union> st_loading st\<rparr> else st)
        in st1\<lparr>st_held := st_held st1 @ [e]\<rparr>)"

text \<open>Two steps one after the other, their results merged.\<close>

definition then_apply ::
  "applied \<times> store \<Rightarrow> (store \<Rightarrow> applied \<times> store) \<Rightarrow> applied \<times> store" where
  "then_apply r f = (case r of (a, st) \<Rightarrow> (case f st of (a', st') \<Rightarrow> (merge_applied a a', st')))"

definition apply_usage :: "event \<Rightarrow> store \<Rightarrow> applied \<times> store" where
  "apply_usage ev st =
     (case ev of
        UsageUpdated u \<Rightarrow> (changed (st_usage st \<noteq> Some u), st\<lparr>st_usage := Some u, st_usage_event_seen := True\<rparr>)
      | _ \<Rightarrow> (no_change, st))"

definition store_apply :: "envelope \<Rightarrow> store \<Rightarrow> applied \<times> store" where
  "store_apply e st =
     (let st1 = hold e st;
          r = (case message_bot (e_event e) of
                 Some b \<Rightarrow> apply_to_conversation b e st1 | None \<Rightarrow> (no_change, st1))
      in finish (then_apply (then_apply (then_apply r (apply_to_bots e)) (apply_to_routines e))
           (apply_usage (e_event e))))"

text \<open>The events held, each after the snapshot applied, all kept.\<close>

fun replay :: "seq \<Rightarrow> (envelope \<Rightarrow> store \<Rightarrow> applied \<times> store) \<Rightarrow> envelope list \<Rightarrow> applied \<times> store \<Rightarrow> applied \<times> store" where
  "replay s f [] r = r"
| "replay s f (e # es) r =
     (let (a, st) = (if e_seq e > s then then_apply r (f e) else r)
      in replay s f es (a, st\<lparr>st_held := st_held st @ [e]\<rparr>))"

definition replay_held :: "seq \<Rightarrow> (envelope \<Rightarrow> store \<Rightarrow> applied \<times> store) \<Rightarrow> applied \<times> store \<Rightarrow> applied \<times> store" where
  "replay_held s f r = (case r of (a, st) \<Rightarrow> replay s f (st_held st) (a, st\<lparr>st_held := []\<rparr>))"

definition loaded :: "snapshot \<Rightarrow> applied \<times> store \<Rightarrow> applied \<times> store" where
  "loaded s r = (case then_apply r (reload_if_stale s) of (a, st) \<Rightarrow> finish (a, settle st))"

definition load_bots :: "bot_list \<Rightarrow> store \<Rightarrow> applied \<times> store" where
  "load_bots l st =
     (let bots = map_of (rev (map (\<lambda>b. (b_id b, b)) (bl_bots l)));
          st1 = st\<lparr>st_bots := bots, st_bots_seq := Some (bl_seq l),
                   st_newest := st_newest st |` dom bots, st_errors := st_errors st |` dom bots,
                   st_loading := st_loading st - {SnapBots}\<rparr>
      in loaded SnapBots (replay_held (bl_seq l) apply_to_bots (changed True, st1)))"

definition load_messages :: "bot_id \<Rightarrow> message_page \<Rightarrow> store \<Rightarrow> applied \<times> store" where
  "load_messages b page st =
     (let ms = pg_messages page;
          st1 = (if ms = [] then st else note_newest b (Max (set (map m_id ms))) st);
          c = \<lparr>cv_seq = pg_seq page, cv_messages = map_of (rev (map (\<lambda>m. (m_id m, m)) ms)),
               cv_older = pg_older page, cv_requested_older = None\<rparr>;
          st2 = st1\<lparr>st_conversations := (st_conversations st1)(b \<mapsto> c),
                    st_loading := st_loading st1 - {SnapMessages b}\<rparr>
      in loaded (SnapMessages b) (replay_held (pg_seq page) (apply_to_conversation b) (changed True, st2)))"

definition load_routines :: "bot_id \<Rightarrow> routine_list \<Rightarrow> store \<Rightarrow> applied \<times> store" where
  "load_routines b l st =
     (let rs = \<lparr>rs_seq = rl_seq l,
            rs_routines = map_of (rev (map (\<lambda>r. (r_id r, r)) (filter (\<lambda>r. r_bot_id r = b) (rl_routines l))))\<rparr>;
          st1 = st\<lparr>st_routines := (st_routines st)(b \<mapsto> rs), st_loading := st_loading st - {SnapRoutines b}\<rparr>
      in loaded (SnapRoutines b) (replay_held (rl_seq l) apply_to_routines (changed True, st1)))"

text \<open>An older page: the held events after it, on the messages it adds alone.\<close>

fun earlier_event :: "event \<Rightarrow> bool \<times> (message_id \<rightharpoonup> message) \<Rightarrow> bool \<times> (message_id \<rightharpoonup> message)" where
  "earlier_event (MessageDelta b i offset delta) (complete, ms) =
     (case ms i of
        None \<Rightarrow> (complete, ms)
      | Some m \<Rightarrow> let (c, m') = append_delta m offset delta in (complete \<and> c \<noteq> None, ms(i \<mapsto> m')))"
| "earlier_event (MessageCompleted m) (complete, ms) =
     (if ms (m_id m) \<noteq> None then (complete, ms(m_id m \<mapsto> m)) else (complete, ms))"
| "earlier_event _ r = r"

definition earlier_messages :: "bot_id \<Rightarrow> message_id \<Rightarrow> conversation \<Rightarrow> message list \<Rightarrow> (message_id \<rightharpoonup> message)" where
  "earlier_messages b before c ms = map_of (rev (map (\<lambda>m. (m_id m, m))
     (filter (\<lambda>m. m_bot_id m = b \<and> m_id m < before \<and> cv_messages c (m_id m) = None) ms)))"

definition load_older :: "bot_id \<Rightarrow> message_id \<Rightarrow> message_page \<Rightarrow> store \<Rightarrow> applied \<times> store" where
  "load_older b before page st =
     (let s = SnapOlder b; stale = (s \<in> st_stale st); st1 = stop_loading s st;
          r = (case st_conversations st1 b of
            None \<Rightarrow> (no_change, st1)
          | Some c \<Rightarrow>
              if cv_requested_older c = Some before \<and> cv_older c = Some before then
                let (complete, earlier) = fold (\<lambda>e. earlier_event (e_event e))
                      (filter (\<lambda>e. e_seq e > pg_seq page) (st_held st1))
                      (\<not> stale, earlier_messages b before c (pg_messages page))
                in if complete
                   then (changed (earlier \<noteq> Map.empty \<or> cv_older c \<noteq> pg_older page),
                     st1\<lparr>st_conversations := (st_conversations st1)(b \<mapsto>
                       c\<lparr>cv_requested_older := None, cv_messages := cv_messages c ++ earlier,
                         cv_older := pg_older page\<rparr>)\<rparr>)
                   else (reload s, st1\<lparr>st_conversations := (st_conversations st1)(b \<mapsto>
                       c\<lparr>cv_requested_older := None\<rparr>)\<rparr>)
              else (no_change, st1))
      in finish (fst r, settle (snd r)))"

end
