(* ===== verification/ClientSync.thy ===== *)
theory ClientSync
  imports ClientStore EventLog
begin

text \<open>
  The client's store against the server it copies: a conversation on the server is the replay
  of the log, a page shows it as it was at or after the page's sequence number, and the store
  merges pages with events in whatever order they come.
\<close>

section \<open>The server's conversations\<close>

fun server_event :: "bot_id \<Rightarrow> event \<Rightarrow> (message_id \<rightharpoonup> message) \<Rightarrow> (message_id \<rightharpoonup> message)" where
  "server_event b (MessageCreated m) ms = (if m_bot_id m = b then ms(m_id m \<mapsto> m) else ms)"
| "server_event b (MessageCompleted m) ms = (if m_bot_id m = b then ms(m_id m \<mapsto> m) else ms)"
| "server_event b (MessageDelta b' i offset delta) ms =
     (if b' = b then
        (case ms i of
           Some m \<Rightarrow> if m_state m = Streaming then ms(i \<mapsto> m\<lparr>m_text := m_text m @ delta\<rparr>) else ms
         | None \<Rightarrow> ms)
      else ms)"
| "server_event b _ ms = ms"

definition server_at :: "bot_id \<Rightarrow> envelope list \<Rightarrow> nat \<Rightarrow> (message_id \<rightharpoonup> message)" where
  "server_at b L k = fold (\<lambda>e. server_event b (e_event e)) (take k L) Map.empty"

text \<open>
  What the gateway logs: a message is created once; a delta names a message there is, and
  while the message streams, starts where its text ends; a completed message is there and no
  longer streaming.
\<close>

fun event_fits :: "(bot_id \<Rightarrow> message_id \<rightharpoonup> message) \<Rightarrow> event \<Rightarrow> bool" where
  "event_fits S (MessageCreated m) \<longleftrightarrow> S (m_bot_id m) (m_id m) = None"
| "event_fits S (MessageDelta b i offset delta) \<longleftrightarrow>
     (case S b i of None \<Rightarrow> False | Some m \<Rightarrow> if m_state m = Streaming then offset = length (m_text m) else True)"
| "event_fits S (MessageCompleted m) \<longleftrightarrow> m_state m \<noteq> Streaming \<and> S (m_bot_id m) (m_id m) \<noteq> None"
| "event_fits S _ \<longleftrightarrow> True"

definition log_fits :: "envelope list \<Rightarrow> bool" where
  "log_fits L \<longleftrightarrow> numbered L \<and> (\<forall>k < length L. event_fits (\<lambda>b. server_at b L k) (e_event (L ! k)))"

lemma server_at_0 [simp]: "server_at b L 0 = Map.empty"
  by (simp add: server_at_def)

lemma server_at_Suc: "k < length L \<Longrightarrow> server_at b L (Suc k) = server_event b (e_event (L ! k)) (server_at b L k)"
  by (simp add: server_at_def take_Suc_conv_app_nth)

text \<open>The client does not learn when a streaming message was last written.\<close>

definition seen :: "message \<Rightarrow> message" where
  "seen m = (if m_state m = Streaming then m\<lparr>m_updated_at := 0\<rparr> else m)"

lemma seen_simps [simp]:
  "m_state (seen m) = m_state m" "m_text (seen m) = m_text m" "m_id (seen m) = m_id m"
  by (simp_all add: seen_def)

lemma seen_text: "m_state m = Streaming \<Longrightarrow> seen (m\<lparr>m_text := t\<rparr>) = (seen m)\<lparr>m_text := t\<rparr>"
  by (simp add: seen_def)

definition same :: "message option \<Rightarrow> message option \<Rightarrow> bool" where
  "same a b \<longleftrightarrow> map_option seen a = map_option seen b"

lemma same_refl [simp]: "same a a"
  by (simp add: same_def)

lemma same_Some:
  "same (Some m) v \<longleftrightarrow> (\<exists>m'. v = Some m' \<and> seen m = seen m')" "same v (Some m) \<longleftrightarrow> (\<exists>m'. v = Some m' \<and> seen m' = seen m)"
  by (auto simp: same_def map_option_case split: option.splits)

lemma same_None [simp]: "same None v \<longleftrightarrow> v = None" "same v None \<longleftrightarrow> v = None"
  by (auto simp: same_def)

lemma seen_eq_state: "seen m = seen m' \<Longrightarrow> m_state m = m_state m' \<and> m_text m = m_text m'"
  by (metis seen_simps)

section \<open>How a message grows\<close>

text \<open>\<open>m'\<close> is \<open>m\<close> some events later.\<close>

definition grown :: "message \<Rightarrow> message \<Rightarrow> bool" where
  "grown m m' \<longleftrightarrow>
     (if m_state m' = Streaming
      then m_state m = Streaming \<and> (\<exists>more. m_text m' = m_text m @ more)
      else True)"

lemma grown_refl [simp]: "grown m m"
  by (simp add: grown_def)

lemma grown_trans: "grown a b \<Longrightarrow> grown b c \<Longrightarrow> grown a c"
  by (auto simp: grown_def split: if_splits)

lemma server_step_grown:
  assumes "event_fits S e" and "S b = ms" and "ms i = Some m"
  shows "\<exists>m'. server_event b e ms i = Some m' \<and> grown m m'"
proof -
  have stays: "server_event b e ms i = ms i \<Longrightarrow> ?thesis" using assms(3) by simp
  show ?thesis
  proof (cases e)
    case (MessageCreated m')
    then show ?thesis using assms stays by (cases "m_bot_id m' = b \<and> m_id m' = i") auto
  next
    case (MessageCompleted m')
    then show ?thesis using assms by (cases "m_bot_id m' = b \<and> m_id m' = i") (auto simp: grown_def)
  next
    case (MessageDelta b' i' offset delta)
    show ?thesis
    proof (cases "b' = b \<and> i' = i \<and> m_state m = Streaming")
      case True
      then show ?thesis using MessageDelta assms(3) by (simp add: grown_def)
    next
      case False
      then have "server_event b e ms i = ms i" using MessageDelta assms(3) by (cases "b' = b") (auto split: option.split)
      then show ?thesis by (rule stays)
    qed
  qed (use stays in simp_all)
qed

lemma server_at_grown:
  assumes "log_fits L" and "server_at b L k i = Some m" and "k \<le> k'" and "k' \<le> length L"
  shows "\<exists>m'. server_at b L k' i = Some m' \<and> grown m m'"
  using assms(3,4)
proof (induction k' rule: dec_induct)
  case base
  then show ?case using assms(2) by simp
next
  case (step n)
  then obtain m' where m': "server_at b L n i = Some m'" "grown m m'" by auto
  have "event_fits (\<lambda>b. server_at b L n) (e_event (L ! n))" using assms(1) step.prems by (simp add: log_fits_def)
  from server_step_grown [OF this refl m'(1)] obtain m'' where
    "server_event b (e_event (L ! n)) (server_at b L n) i = Some m''" "grown m' m''" by blast
  then show ?case using step.prems m'(2) grown_trans by (auto simp: server_at_Suc)
qed

text \<open>After its event, a message is at least what the event says.\<close>

lemma delta_reflected:
  assumes L: "log_fits L" and n: "n < length L" and e: "e_event (L ! n) = MessageDelta b i offset delta"
    and k: "Suc n \<le> k" "k \<le> length L"
  shows "\<exists>m. server_at b L k i = Some m \<and> (m_state m = Streaming \<longrightarrow>
    offset + length delta \<le> length (m_text m))"
proof -
  have "event_fits (\<lambda>b. server_at b L n) (e_event (L ! n))" using L n by (simp add: log_fits_def)
  then obtain m where m: "server_at b L n i = Some m" "m_state m = Streaming \<Longrightarrow> offset = length (m_text m)"
    by (auto simp: e split: option.splits if_splits)
  define m1 where "m1 = (if m_state m = Streaming then m\<lparr>m_text := m_text m @ delta\<rparr> else m)"
  have "server_at b L (Suc n) i = Some m1" using n m by (simp add: server_at_Suc e m1_def)
  from server_at_grown [OF L this k] obtain m' where "server_at b L k i = Some m'" "grown m1 m'" by blast
  then show ?thesis using m by (auto simp: grown_def m1_def split: if_splits)
qed

lemma created_reflected:
  assumes L: "log_fits L" and n: "n < length L" and e: "e_event (L ! n) = MessageCreated m"
    and k: "Suc n \<le> k" "k \<le> length L"
  shows "\<exists>m'. server_at (m_bot_id m) L k (m_id m) = Some m' \<and> grown m m'"
proof -
  have "server_at (m_bot_id m) L (Suc n) (m_id m) = Some m" using n by (simp add: server_at_Suc e)
  from server_at_grown [OF L this k] show ?thesis .
qed

section \<open>A copy of a message\<close>

text \<open>\<open>v\<close> is the server's message \<open>i\<close> at some time not before \<open>p\<close>.\<close>

definition copied :: "envelope list \<Rightarrow> bot_id \<Rightarrow> nat \<Rightarrow> message_id \<Rightarrow> message option \<Rightarrow> bool" where
  "copied L b p i v \<longleftrightarrow> (\<exists>k. p \<le> k \<and> k \<le> length L \<and> same v (server_at b L k i))"

lemma copied_at: "copied L b p i v \<Longrightarrow> \<not> (\<exists>k. Suc p \<le> k \<and> k \<le> length L \<and> same v (server_at b L k i)) \<Longrightarrow>
  same v (server_at b L p i)"
  unfolding copied_def by (metis le_antisym not_less_eq_eq)

lemma copied_mono: "copied L b p i v \<Longrightarrow> q \<le> p \<Longrightarrow> copied L b q i v"
  unfolding copied_def using order.trans by blast

lemma copied_later: "same v (server_at b L k i) \<Longrightarrow> p \<le> k \<Longrightarrow> k \<le> length L \<Longrightarrow> copied L b p i v"
  unfolding copied_def by blast

text \<open>An event that says nothing of a message leaves its copy.\<close>

lemma copied_untouched:
  assumes "copied L b p i v" and "p < length L"
    and "server_event b (e_event (L ! p)) (server_at b L p) i = server_at b L p i"
  shows "copied L b (Suc p) i v"
proof (cases "\<exists>k. Suc p \<le> k \<and> k \<le> length L \<and> same v (server_at b L k i)")
  case False
  from copied_at [OF assms(1) this] show ?thesis
    using assms(2,3) by (intro copied_later [of _ _ _ "Suc p"]) (simp_all add: server_at_Suc)
qed (simp add: copied_def)

lemma seen_delta:
  "seen m = seen m' \<Longrightarrow> m_state m = Streaming \<Longrightarrow> seen (m\<lparr>m_text := m_text m @ d\<rparr>) = seen (m'\<lparr>m_text := m_text m' @ d\<rparr>)"
  using seen_eq_state [of m m'] by (simp add: seen_text)

lemma append_delta_seen: "m_state m = Streaming \<Longrightarrow> offset \<le> length (m_text m) \<Longrightarrow>
  append_delta m offset delta = (Some (drop (length (m_text m) - offset) delta \<noteq> []),
    m\<lparr>m_text := m_text m @ drop (length (m_text m) - offset) delta\<rparr>)"
  by (simp add: append_delta_def Let_def)

text \<open>A delta on a copy: never incomplete, and the copy stays one.\<close>

lemma copied_delta:
  assumes L: "log_fits L" and p: "p < length L" and e: "e_event (L ! p) = MessageDelta b i offset delta"
    and v: "copied L b p i (Some m)"
  shows "fst (append_delta m offset delta) \<noteq> None
    \<and> copied L b (Suc p) i (Some (snd (append_delta m offset delta)))"
proof (cases "\<exists>k. Suc p \<le> k \<and> k \<le> length L \<and> same (Some m) (server_at b L k i)")
  case True
  then obtain k m' where k: "Suc p \<le> k" "k \<le> length L" "server_at b L k i = Some m'" "seen m = seen m'"
    by (auto simp: same_Some)
  have eq: "m_state m = m_state m'" "m_text m = m_text m'" using seen_eq_state [OF k(4)] by simp_all
  have "append_delta m offset delta = (fst (append_delta m offset delta), m) \<and> fst (append_delta m offset delta) \<noteq> None"
  proof (cases "m_state m = Streaming")
    case True
    then have "offset + length delta \<le> length (m_text m)"
      using delta_reflected [OF L p e k(1,2)] k(3) eq by simp
    then show ?thesis using True by (simp add: append_delta_seen)
  qed (simp add: append_delta_def)
  then show ?thesis using k by (metis copied_later same_Some(1) snd_conv)
next
  case False
  from copied_at [OF v False] obtain m' where m': "server_at b L p i = Some m'" "seen m = seen m'"
    by (auto simp: same_Some)
  have eq: "m_state m = m_state m'" "m_text m = m_text m'" using seen_eq_state [OF m'(2)] by simp_all
  have fits: "event_fits (\<lambda>b. server_at b L p) (e_event (L ! p))" using L p by (simp add: log_fits_def)
  show ?thesis
  proof (cases "m_state m = Streaming")
    case True
    then have "offset = length (m_text m)" using fits m'(1) eq by (simp add: e)
    then have r: "append_delta m offset delta = (Some (delta \<noteq> []), m\<lparr>m_text := m_text m @ delta\<rparr>)"
      using True by (simp add: append_delta_seen)
    have "server_at b L (Suc p) i = Some (m'\<lparr>m_text := m_text m' @ delta\<rparr>)"
      using p m'(1) True eq by (simp add: server_at_Suc e)
    then have "copied L b (Suc p) i (Some (m\<lparr>m_text := m_text m @ delta\<rparr>))"
      using seen_delta [OF m'(2) True] p by (intro copied_later [of _ _ _ "Suc p"]) (simp_all add: same_Some)
    then show ?thesis unfolding r by simp
  next
    case no: False
    then have r: "append_delta m offset delta = (Some False, m)" by (simp add: append_delta_def)
    have "server_at b L (Suc p) i = Some m'" using p m'(1) no eq by (simp add: server_at_Suc e)
    then have "copied L b (Suc p) i (Some m)"
      using m'(2) p by (intro copied_later [of _ _ _ "Suc p"]) (simp_all add: same_Some)
    then show ?thesis unfolding r by simp
  qed
qed

section \<open>A copy of a conversation\<close>

text \<open>A message that no other Bot's conversation ever has.\<close>

definition own :: "envelope list \<Rightarrow> bot_id \<Rightarrow> message_id \<Rightarrow> bool" where
  "own L b i \<longleftrightarrow> (\<forall>b'. b' \<noteq> b \<longrightarrow> server_at b' L (length L) i = None)"

text \<open>
  Of its own messages that \<open>P\<close> covers, and of any other own one it holds, \<open>ms\<close> has a copy not
  older than \<open>p\<close>; a covered message it does not hold did not exist at some time not before
  \<open>p\<close>.
\<close>

definition copy_ok :: "envelope list \<Rightarrow> bot_id \<Rightarrow> nat \<Rightarrow> (message_id \<Rightarrow> bool) \<Rightarrow> (message_id \<rightharpoonup> message) \<Rightarrow> bool" where
  "copy_ok L b p P ms \<longleftrightarrow> (\<forall>i. own L b i \<and> (P i \<or> ms i \<noteq> None) \<longrightarrow> copied L b p i (ms i))"

lemma copy_okI:
  assumes "\<And>i. i \<noteq> j \<Longrightarrow> ms' i = ms i" and "copy_ok L b p P ms"
    and "\<And>i. i \<noteq> j \<Longrightarrow> copied L b p i (ms i) \<Longrightarrow> copied L b q i (ms i)"
    and "own L b j \<Longrightarrow> P j \<or> ms' j \<noteq> None \<Longrightarrow> copied L b q j (ms' j)"
  shows "copy_ok L b q P ms'"
  unfolding copy_ok_def
proof (intro allI impI)
  fix i assume i: "own L b i \<and> (P i \<or> ms' i \<noteq> None)"
  show "copied L b q i (ms' i)"
  proof (cases "i = j")
    case True
    then show ?thesis using assms(4) i by simp
  next
    case False
    then show ?thesis using assms(1-3) i unfolding copy_ok_def by metis
  qed
qed

lemma present_stays:
  assumes L: "log_fits L" and "server_at b L p i \<noteq> None" and "p \<le> k" and "k \<le> length L"
  shows "server_at b L k i \<noteq> None"
  using server_at_grown [OF L _ assms(3,4)] assms(2) by fastforce

lemma copy_ok_event:
  assumes L: "log_fits L" and p: "p < length L" and b: "message_bot (e_event (L ! p)) = Some b"
    and ok: "copy_ok L b p P ms"
  shows "copy_ok L b (Suc p) P (snd (conversation_event (e_event (L ! p)) ms))"
proof -
  have fits: "event_fits (\<lambda>b. server_at b L p) (e_event (L ! p))" using L p by (simp add: log_fits_def)
  have now: "copied L b (Suc p) i v" if "server_at b L (Suc p) i = v" for i v
    using that p by (intro copied_later [of _ _ _ "Suc p"]) simp_all
  show ?thesis
  proof (cases "e_event (L ! p)")
    case (MessageCreated m)
    then have bot: "m_bot_id m = b" using b by simp
    then have new: "server_at b L (Suc p) (m_id m) = Some m" using p by (simp add: server_at_Suc MessageCreated)
    have "copied L b (Suc p) (m_id m) (snd (conversation_event (MessageCreated m) ms) (m_id m))"
      if own: "own L b (m_id m)"
    proof (cases "ms (m_id m)")
      case None
      then show ?thesis using now [OF new] by simp
    next
      case (Some h)
      then have "copied L b p (m_id m) (Some h)" using ok own unfolding copy_ok_def by (metis option.distinct(1))
      then obtain k m' where k: "p \<le> k" "k \<le> length L" "server_at b L k (m_id m) = Some m'" "seen h = seen m'"
        unfolding copied_def same_Some by blast
      have "server_at b L p (m_id m) = None" using fits bot by (simp add: MessageCreated)
      then have "Suc p \<le> k" using k(1,3) by (metis le_antisym not_less_eq_eq option.distinct(1))
      moreover obtain m'' where "server_at b L k (m_id m) = Some m''" "grown m m''"
        using created_reflected [OF L p MessageCreated calculation k(2)] bot by blast
      then have "m_state h \<noteq> Streaming \<or> take (length (m_text m)) (m_text h) = m_text m"
        using k(3) seen_eq_state [OF k(4)] by (auto simp: grown_def split: if_splits)
      then have "snd (conversation_event (MessageCreated m) ms) (m_id m) = Some h" using Some by simp
      ultimately show ?thesis using k copied_later same_Some by metis
    qed
    then show ?thesis
      unfolding MessageCreated
      by (intro copy_okI [where j = "m_id m", OF _ ok])
        (auto intro: copied_untouched p simp: MessageCreated bot)
  next
    case (MessageCompleted m)
    then have bot: "m_bot_id m = b" using b by simp
    then have "server_at b L (Suc p) (m_id m) = Some m" using p by (simp add: server_at_Suc MessageCompleted)
    from now [OF this] show ?thesis
      unfolding MessageCompleted
      by (intro copy_okI [where j = "m_id m", OF _ ok]) (auto intro: copied_untouched p simp: MessageCompleted bot)
  next
    case (MessageDelta b' i offset delta)
    then have e: "e_event (L ! p) = MessageDelta b i offset delta" using b by simp
    have there: "server_at b L p i \<noteq> None" using fits by (auto simp: e split: option.splits)
    have "copied L b (Suc p) i (snd (conversation_event (MessageDelta b i offset delta) ms) i)"
      if own: "own L b i" and touched: "P i \<or> snd (conversation_event (MessageDelta b i offset delta) ms) i \<noteq> None"
    proof (cases "ms i")
      case None
      then have "P i" using touched by simp
      then have "copied L b p i None" using ok own None unfolding copy_ok_def by metis
      then have False using present_stays [OF L there] unfolding copied_def by fastforce
      then show ?thesis ..
    next
      case (Some m)
      then have "copied L b p i (Some m)" using ok own unfolding copy_ok_def by (metis option.distinct(1))
      from copied_delta [OF L p e this] show ?thesis using Some by (simp add: split_def Let_def)
    qed
    then show ?thesis
      unfolding e
      by (intro copy_okI [where j = i, OF _ ok])
        (auto intro: copied_untouched p simp: e split_def Let_def split: option.splits if_splits)
  qed (use b in simp_all)
qed

lemma server_event_other:
  "message_bot e \<noteq> Some b \<Longrightarrow> server_event b e ms = ms"
  by (cases e) auto

lemma copy_ok_other:
  assumes "copy_ok L b p P ms" and "p < length L" and "message_bot (e_event (L ! p)) \<noteq> Some b"
  shows "copy_ok L b (Suc p) P ms"
  using assms(1,2) copied_untouched server_event_other [OF assms(3)] unfolding copy_ok_def by simp

text \<open>The message an event names, if it names one.\<close>

fun event_message :: "event \<Rightarrow> message_id option" where
  "event_message (MessageCreated m) = Some (m_id m)"
| "event_message (MessageCompleted m) = Some (m_id m)"
| "event_message (MessageDelta b i offset delta) = Some i"
| "event_message _ = None"

lemma foreign_not_own:
  assumes L: "log_fits L" and p: "p < length L"
    and e: "message_bot (e_event (L ! p)) = Some b'" "b' \<noteq> b" "event_message (e_event (L ! p)) = Some i"
  shows "\<not> own L b i"
proof -
  have fits: "event_fits (\<lambda>b. server_at b L p) (e_event (L ! p))" using L p by (simp add: log_fits_def)
  have "server_at b' L (Suc p) i \<noteq> None"
  proof (cases "e_event (L ! p)")
    case (MessageDelta b'' i' offset delta)
    then show ?thesis using fits e p
      by (cases "server_at b' L p i") (simp_all add: server_at_Suc)
  qed (use fits e p in \<open>simp_all add: server_at_Suc\<close>)
  then have "server_at b' L (length L) i \<noteq> None" by (rule present_stays [OF L]) (use p in simp_all)
  then show ?thesis using e(2) by (auto simp: own_def)
qed

lemma conversation_event_elsewhere:
  "event_message e \<noteq> Some i \<Longrightarrow> snd (conversation_event e ms) i = ms i"
  by (cases e) (auto simp: split_def Let_def split: option.split)

text \<open>An event of another Bot does no harm to the copies of the conversation's own messages.\<close>

lemma copy_ok_foreign:
  assumes L: "log_fits L" and p: "p < length L" and ok: "copy_ok L b p P ms"
    and e: "message_bot (e_event (L ! p)) \<noteq> Some b"
  shows "copy_ok L b (Suc p) P (snd (conversation_event (e_event (L ! p)) ms))"
proof -
  have ok': "copy_ok L b (Suc p) P ms" by (rule copy_ok_other [OF ok p e])
  show ?thesis
    unfolding copy_ok_def
  proof (intro allI impI)
    fix i assume i: "own L b i \<and> (P i \<or> snd (conversation_event (e_event (L ! p)) ms) i \<noteq> None)"
    have "event_message (e_event (L ! p)) \<noteq> Some i"
    proof
      assume m: "event_message (e_event (L ! p)) = Some i"
      then obtain b' where "message_bot (e_event (L ! p)) = Some b'" "b' \<noteq> b"
        using e by (cases "e_event (L ! p)") auto
      from foreign_not_own [OF L p this m] show False using i by simp
    qed
    from conversation_event_elsewhere [OF this, of ms] show "copied L b (Suc p) i (snd (conversation_event (e_event (L ! p)) ms) i)"
      using ok' i unfolding copy_ok_def by simp
  qed
qed

lemma copy_ok_mono: "copy_ok L b p P ms \<Longrightarrow> q \<le> p \<Longrightarrow> copy_ok L b q P ms"
  unfolding copy_ok_def using copied_mono by blast

lemma copy_ok_end:
  assumes "copy_ok L b (length L) P ms" and "own L b i" and "P i \<or> ms i \<noteq> None"
  shows "same (ms i) (server_at b L (length L) i)"
  using assms unfolding copy_ok_def copied_def by (metis le_antisym)

section \<open>What the operations leave alone\<close>

text \<open>The parts of the store that the copies of conversations rest on.\<close>

definition core_of :: "store \<Rightarrow> (bot_id \<rightharpoonup> conversation) \<times> snapshot set \<times> envelope list \<times> snapshot set" where
  "core_of st = (st_conversations st, st_loading st, st_held st, st_stale st)"

lemma core_of_eq: "core_of st = core_of st' \<longleftrightarrow>
  st_conversations st = st_conversations st' \<and> st_loading st = st_loading st'
  \<and> st_held st = st_held st' \<and> st_stale st = st_stale st'"
  by (simp add: core_of_def)

lemma core_updates [simp]:
  "core_of (st\<lparr>st_bots := x\<rparr>) = core_of st" "core_of (st\<lparr>st_newest := y\<rparr>) = core_of st"
  "core_of (st\<lparr>st_errors := z\<rparr>) = core_of st" "core_of (st\<lparr>st_routines := w\<rparr>) = core_of st"
  "core_of (st\<lparr>st_usage := u, st_usage_event_seen := v\<rparr>) = core_of st"
  "core_of (st\<lparr>st_usage := u\<rparr>) = core_of st" "core_of (st\<lparr>st_usage_event_seen := v\<rparr>) = core_of st"
  by (simp_all add: core_of_def)

lemma core_note_newest [simp]: "core_of (note_newest b m st) = core_of st"
  by (simp add: note_newest_def)

lemma core_set_preview [simp]: "core_of (snd (set_preview b p st)) = core_of st"
  by (simp add: set_preview_def split: option.split)

lemma core_note_unread [simp]: "core_of (snd (note_unread m st)) = core_of st"
  by (simp add: note_unread_def split: option.split)

lemma core_preview_created [simp]: "core_of (snd (preview_created m st)) = core_of st"
  by (simp add: preview_created_def Let_def split: option.split)

lemma core_bots_event [simp]: "core_of (snd (bots_event e st)) = core_of st"
  by (induction e st rule: bots_event.induct) (simp_all add: split_def Let_def split: option.split)

lemma core_apply_to_bots [simp]: "core_of (snd (apply_to_bots e st)) = core_of st"
  by (simp add: apply_to_bots_def split: option.split)

lemma core_apply_to_routines [simp]: "core_of (snd (apply_to_routines e st)) = core_of st"
  by (simp add: apply_to_routines_def split_def Let_def split: option.split)

lemma core_apply_usage [simp]: "core_of (snd (apply_usage e st)) = core_of st"
  by (simp add: apply_usage_def split: event.split)

lemma then_apply_snd: "snd (then_apply r f) = snd (f (snd r))"
  by (simp add: then_apply_def split_def)

definition conv_after :: "envelope \<Rightarrow> conversation \<Rightarrow> conversation" where
  "conv_after e c = (if e_seq e \<le> cv_seq c then c
     else c\<lparr>cv_messages := snd (conversation_event (e_event e) (cv_messages c))\<rparr>)"

lemma core_apply_to_conversation:
  "core_of (snd (apply_to_conversation b e st)) =
     core_of (st\<lparr>st_conversations := (st_conversations st)(b := map_option (conv_after e) (st_conversations st b))\<rparr>)"
  by (auto simp: apply_to_conversation_def conv_after_def core_of_def split_def Let_def fun_upd_idem_iff
      split: option.split)

lemma conv_after_simps [simp]:
  "cv_seq (conv_after e c) = cv_seq c" "cv_older (conv_after e c) = cv_older c"
  "cv_requested_older (conv_after e c) = cv_requested_older c"
  by (simp_all add: conv_after_def)

lemma finish_core:
  "st_conversations (snd (finish r)) = st_conversations (snd r)" "st_held (snd (finish r)) = st_held (snd r)"
  "st_stale (snd (finish r)) = st_stale (snd r)"
  "st_loading (snd (finish r)) = st_loading (snd r) \<union> ap_reload (fst r)"
  by (simp_all add: finish_def split_def)

text \<open>A replay of held events keeps them held; each part of the store is replayed on its own.\<close>

lemma replay_held_core:
  assumes "\<And>e st. core_of (snd (f e st)) = core_of st"
  shows "core_of (snd (replay s f es r)) = core_of ((snd r)\<lparr>st_held := st_held (snd r) @ es\<rparr>)"
proof (induction es arbitrary: r)
  case (Cons e es)
  let ?r = "if e_seq e > s then then_apply r (f e) else r"
  have core: "core_of (snd ?r) = core_of (snd r)" by (simp add: then_apply_snd assms)
  have "core_of (snd (replay s f (e # es) r))
      = core_of ((snd ?r)\<lparr>st_held := (st_held (snd ?r) @ [e]) @ es\<rparr>)"
    by (simp add: Cons.IH split_def Let_def)
  then show ?case using core by (simp add: core_of_def)
qed (simp add: core_of_def)

lemma replay_conversation_core:
  "core_of (snd (replay s (apply_to_conversation b) es r)) =
     core_of ((snd r)\<lparr>st_held := st_held (snd r) @ es,
       st_conversations := (st_conversations (snd r))
         (b := map_option (\<lambda>c. fold conv_after (filter (\<lambda>e. e_seq e > s) es) c) (st_conversations (snd r) b))\<rparr>)"
proof (induction es arbitrary: r)
  case (Cons e es)
  let ?r = "if e_seq e > s then then_apply r (apply_to_conversation b e) else r"
  have core: "core_of (snd ?r) = core_of ((snd r)\<lparr>st_conversations := (st_conversations (snd r))
      (b := map_option (\<lambda>c. if e_seq e > s then conv_after e c else c) (st_conversations (snd r) b))\<rparr>)"
    using core_apply_to_conversation [of b e "snd r"] by (simp add: then_apply_snd core_of_def option.map_ident)
  have "core_of (snd (replay s (apply_to_conversation b) (e # es) r)) = core_of ((snd ?r)\<lparr>
      st_held := (st_held (snd ?r) @ [e]) @ es, st_conversations := (st_conversations (snd ?r))
        (b := map_option (\<lambda>c. fold conv_after (filter (\<lambda>e. e_seq e > s) es) c) (st_conversations (snd ?r) b))\<rparr>)"
    by (simp add: Cons.IH split_def Let_def fun_upd_def)
  then show ?case
    using core by (cases "e_seq e > s") (simp_all add: core_of_def option.map_comp comp_def option.map_ident fun_eq_iff)
qed (simp add: core_of_def option.map_id)

section \<open>The client and the server\<close>

text \<open>
  What the client does with its store, against a log that the server has or will have:
  \<open>cl_pos\<close> events have been applied, \<open>cl_known\<close> is the newest state of the server that the
  client has been shown, \<open>cl_floor\<close> what that was when a snapshot was asked for, and \<open>cl_failed\<close>
  holds the conversations of which the last load failed.
\<close>

record client =
  cl_store :: store
  cl_pos :: nat
  cl_known :: nat
  cl_floor :: "snapshot \<Rightarrow> nat"
  cl_failed :: "bot_id set"

definition new_client :: client where
  "new_client = \<lparr>cl_store = new_store, cl_pos = 0, cl_known = 0, cl_floor = (\<lambda>_. 0), cl_failed = {}\<rparr>"

datatype client_op =
    NextEvent
  | Ask snapshot
  | AskAll
  | AskOlder bot_id
  | GetBots bot_list
  | GetMessages bot_id message_page
  | GetOlder bot_id message_id message_page
  | GetRoutines bot_id routine_list
  | LoadFails snapshot
  | CloseChat bot_id
  | CloseSettings bot_id
  | RoutineSaved routine
  | RoutineGone bot_id routine_id
  | ErrorSeen bot_id
  | AskUsage
  | GetUsage usage

fun op_store :: "envelope list \<Rightarrow> nat \<Rightarrow> client_op \<Rightarrow> store \<Rightarrow> store" where
  "op_store L p NextEvent st = snd (store_apply (L ! p) st)"
| "op_store L p (Ask s) st = snd (request s st)"
| "op_store L p AskAll st = snd (reload_all st)"
| "op_store L p (AskOlder b) st = snd (request_older b st)"
| "op_store L p (GetBots l) st = snd (load_bots l st)"
| "op_store L p (GetMessages b page) st = snd (load_messages b page st)"
| "op_store L p (GetOlder b before page) st = snd (load_older b before page st)"
| "op_store L p (GetRoutines b l) st = snd (load_routines b l st)"
| "op_store L p (LoadFails s) st = load_failed s st"
| "op_store L p (CloseChat b) st = close_conversation b st"
| "op_store L p (CloseSettings b) st = close_routines b st"
| "op_store L p (RoutineSaved r) st = snd (routine_changed r st)"
| "op_store L p (RoutineGone b r) st = snd (routine_deleted b r st)"
| "op_store L p (ErrorSeen b) st = snd (clear_error b st)"
| "op_store L p AskUsage st = request_usage st"
| "op_store L p (GetUsage u) st = snd (load_usage u st)"

text \<open>The snapshot an operation answers, and the state of the server it shows.\<close>

fun answers :: "client_op \<Rightarrow> snapshot option" where
  "answers (GetBots l) = Some SnapBots"
| "answers (GetMessages b page) = Some (SnapMessages b)"
| "answers (GetOlder b before page) = Some (SnapOlder b)"
| "answers (GetRoutines b l) = Some (SnapRoutines b)"
| "answers _ = None"

fun shows_state :: "nat \<Rightarrow> client_op \<Rightarrow> nat" where
  "shows_state p NextEvent = Suc p"
| "shows_state p (GetMessages b page) = pg_seq page"
| "shows_state p (GetOlder b before page) = pg_seq page"
| "shows_state p _ = 0"

fun fails_now :: "client_op \<Rightarrow> bot_id set \<Rightarrow> bot_id set" where
  "fails_now (LoadFails (SnapMessages b)) fs = insert b fs"
| "fails_now (GetMessages b page) fs = fs - {b}"
| "fails_now _ fs = fs"

definition client_step :: "envelope list \<Rightarrow> client_op \<Rightarrow> client \<Rightarrow> client" where
  "client_step L opr c =
     (let st = op_store L (cl_pos c) opr (cl_store c);
          known = max (cl_known c) (shows_state (cl_pos c) opr)
      in \<lparr>cl_store = st, cl_pos = (if opr = NextEvent then Suc (cl_pos c) else cl_pos c), cl_known = known,
          cl_floor = (\<lambda>s. if s \<in> st_loading st \<and> (s \<notin> st_loading (cl_store c) \<or> answers opr = Some s)
                         then known else cl_floor c s),
          cl_failed = fails_now opr (cl_failed c)\<rparr>)"

definition covers :: "message_id option \<Rightarrow> message_id \<Rightarrow> bool" where
  "covers older i \<longleftrightarrow> (case older of None \<Rightarrow> True | Some o' \<Rightarrow> o' \<le> i)"

definition page_map :: "message list \<Rightarrow> (message_id \<rightharpoonup> message)" where
  "page_map ms = map_of (rev (map (\<lambda>m. (m_id m, m)) ms))"

text \<open>
  What the server answers: a page shows the conversation at one time not before its sequence
  number, all of it from its cursor on, and not before anything the client had been shown
  when it asked.
\<close>

definition page_shows :: "envelope list \<Rightarrow> bot_id \<Rightarrow> message_page \<Rightarrow> bool" where
  "page_shows L b page \<longleftrightarrow> (\<exists>j. pg_seq page \<le> j \<and> j \<le> length L
     \<and> (\<forall>i. if covers (pg_older page) i then same (page_map (pg_messages page) i) (server_at b L j i)
            else page_map (pg_messages page) i = None))"

text \<open>
  An older page shows the messages before the cursor it was asked with. Ids grow, so none of
  them is created later.
\<close>

definition older_page_shows :: "envelope list \<Rightarrow> bot_id \<Rightarrow> message_id \<Rightarrow> message_page \<Rightarrow> bool" where
  "older_page_shows L b before page \<longleftrightarrow> (\<exists>j. pg_seq page \<le> j \<and> j \<le> length L
     \<and> (\<forall>i. if i < before \<and> covers (pg_older page) i
            then same (page_map (pg_messages page) i) (server_at b L j i)
            else page_map (pg_messages page) i = None)
     \<and> (\<forall>i < before. \<forall>k \<le> length L. server_at b L k i \<noteq> None \<longrightarrow> server_at b L (pg_seq page) i \<noteq> None)
     \<and> (\<forall>m \<in> set (pg_messages page). m_bot_id m = b))"

fun op_allowed :: "envelope list \<Rightarrow> client_op \<Rightarrow> client \<Rightarrow> bool" where
  "op_allowed L NextEvent c \<longleftrightarrow> cl_pos c < length L"
| "op_allowed L (AskOlder b) c \<longleftrightarrow> SnapOlder b \<notin> st_loading (cl_store c)"
| "op_allowed L (GetMessages b page) c \<longleftrightarrow>
     SnapMessages b \<in> st_loading (cl_store c) \<and> cl_floor c (SnapMessages b) \<le> pg_seq page \<and> page_shows L b page"
| "op_allowed L (GetOlder b before page) c \<longleftrightarrow>
     SnapOlder b \<in> st_loading (cl_store c) \<and> cl_floor c (SnapOlder b) \<le> pg_seq page
     \<and> older_page_shows L b before page"
| "op_allowed L _ c \<longleftrightarrow> True"

fun run_allowed :: "envelope list \<Rightarrow> client_op list \<Rightarrow> client \<Rightarrow> bool" where
  "run_allowed L [] c \<longleftrightarrow> True"
| "run_allowed L (opr # ops) c \<longleftrightarrow> op_allowed L opr c \<and> run_allowed L ops (client_step L opr c)"

fun client_run :: "envelope list \<Rightarrow> client_op list \<Rightarrow> client \<Rightarrow> client" where
  "client_run L [] c = c"
| "client_run L (opr # ops) c = client_run L ops (client_step L opr c)"

text \<open>The invariant.\<close>

definition conv_ok :: "envelope list \<Rightarrow> bot_id \<Rightarrow> nat \<Rightarrow> conversation \<Rightarrow> bool" where
  "conv_ok L b p c \<longleftrightarrow> copy_ok L b (max p (cv_seq c)) (covers (cv_older c)) (cv_messages c)"

definition held_ok :: "envelope list \<Rightarrow> client \<Rightarrow> bool" where
  "held_ok L c \<longleftrightarrow> (\<exists>h \<le> cl_pos c. st_held (cl_store c) = drop h (take (cl_pos c) L)
     \<and> (\<forall>s \<in> st_loading (cl_store c) - st_stale (cl_store c). h \<le> cl_floor c s))
   \<and> (st_loading (cl_store c) = {} \<longrightarrow> st_held (cl_store c) = [])"

definition convs_ok :: "envelope list \<Rightarrow> client \<Rightarrow> bool" where
  "convs_ok L c \<longleftrightarrow> (\<forall>b v. st_conversations (cl_store c) b = Some v \<longrightarrow>
      cv_seq v \<le> cl_known c
      \<and> (SnapOlder b \<in> st_loading (cl_store c) \<and> cv_requested_older v \<noteq> None \<longrightarrow> cv_seq v \<le> cl_floor c (SnapOlder b))
      \<and> (SnapMessages b \<in> st_loading (cl_store c) \<or> b \<in> cl_failed c \<or> conv_ok L b (cl_pos c) v))"

definition sync_inv :: "envelope list \<Rightarrow> client \<Rightarrow> bool" where
  "sync_inv L c \<longleftrightarrow> cl_pos c \<le> length L \<and> cl_pos c \<le> cl_known c \<and> held_ok L c \<and> convs_ok L c"

section \<open>The effect of each operation\<close>

lemma settle_core [simp]:
  "st_conversations (settle st) = st_conversations st" "st_loading (settle st) = st_loading st"
  "st_stale (settle st) = st_stale st" "st_held (settle st) = (if st_loading st = {} then [] else st_held st)"
  by (simp_all add: settle_def)

lemma stop_loading_core [simp]:
  "st_conversations (stop_loading s st) = st_conversations st" "st_loading (stop_loading s st) = st_loading st - {s}"
  "st_stale (stop_loading s st) = st_stale st - {s}" "st_held (stop_loading s st) = st_held st"
  by (simp_all add: stop_loading_def)

lemma loaded_core:
  "st_conversations (snd (loaded s r)) = st_conversations (snd r)"
  "st_stale (snd (loaded s r)) = st_stale (snd r) - {s}"
  "st_held (snd (loaded s r)) = (if st_loading (snd r) = {} then [] else st_held (snd r))"
  "st_loading (snd r) \<subseteq> st_loading (snd (loaded s r))"
  "s \<in> st_stale (snd r) \<Longrightarrow> s \<in> st_loading (snd (loaded s r))"
  by (auto simp: loaded_def then_apply_def reload_if_stale_def finish_def split_def merge_applied_def reload_def)

lemma replay_held_frame:
  assumes "\<And>e st. core_of (snd (f e st)) = core_of st"
  shows "core_of (snd (replay_held s f r)) = core_of (snd r)"
  using replay_held_core [of f, OF assms] by (simp add: replay_held_def split_def core_of_def)

lemma replay_held_bots: "core_of (snd (replay_held s apply_to_bots r)) = core_of (snd r)"
  by (rule replay_held_frame) simp

lemma replay_held_routines: "core_of (snd (replay_held s apply_to_routines r)) = core_of (snd r)"
  by (rule replay_held_frame) simp

lemma replay_held_conversation:
  "core_of (snd (replay_held s (apply_to_conversation b) r)) = core_of ((snd r)\<lparr>st_conversations :=
     (st_conversations (snd r))(b := map_option (\<lambda>c. fold conv_after (filter (\<lambda>e. e_seq e > s) (st_held (snd r))) c)
       (st_conversations (snd r) b))\<rparr>)"
  using replay_conversation_core [of s b "st_held (snd r)" "(fst r, (snd r)\<lparr>st_held := []\<rparr>)"]
  by (simp add: replay_held_def split_def core_of_def)

text \<open>
  What every operation but an event does to the loading snapshots and the held events: it
  forgets no stale mark of a snapshot still awaited, and drops held events only when nothing
  that was awaited before still is.
\<close>

definition calm :: "snapshot option \<Rightarrow> store \<Rightarrow> store \<Rightarrow> bool" where
  "calm answered st st' \<longleftrightarrow>
     (\<forall>s \<in> st_loading st'. s \<in> st_loading st \<and> s \<in> st_stale st \<and> answered \<noteq> Some s \<longrightarrow> s \<in> st_stale st')
     \<and> (st_held st' = st_held st \<and> (st_loading st' = {} \<longrightarrow> st_loading st = {})
        \<or> st_held st' = [] \<and> (\<forall>s \<in> st_loading st'. s \<notin> st_loading st \<or> answered = Some s))"

lemma calm_core: "core_of st' = core_of st \<Longrightarrow> calm a st st'"
  by (simp add: calm_def core_of_def)

lemma calm_stop:
  assumes "st_loading st' = st_loading st - {s}" "st_stale st' = st_stale st - {s}"
    "st_held st' = (if st_loading st' = {} then [] else st_held st)"
  shows "calm a st st'"
  using assms by (auto simp: calm_def)

lemma calm_loaded:
  assumes "st_loading (snd r) = st_loading st - {s}" "st_stale (snd r) = st_stale st" "st_held (snd r) = st_held st"
  shows "calm (Some s) st (snd (loaded s r))"
proof -
  have new: "x \<notin> st_loading st \<or> Some s = Some x"
    if "st_loading (snd r) = {}" for x
    using that assms(1) by auto
  show ?thesis
    unfolding calm_def loaded_core(2,3) using assms new loaded_core(4) [of r s]
    by (cases "st_loading (snd r) = {}") auto
qed

lemma calm_ask: "st_loading st \<subseteq> st_loading st' \<Longrightarrow> st_stale st' = st_stale st \<Longrightarrow> st_held st' = st_held st \<Longrightarrow> calm a st st'"
  by (auto simp: calm_def)

lemma core_load_bots:
  "st_conversations (snd (load_bots l st)) = st_conversations st \<and> calm (Some SnapBots) st (snd (load_bots l st))
   \<and> st_loading st - {SnapBots} \<subseteq> st_loading (snd (load_bots l st))"
proof -
  obtain r where r: "load_bots l st = loaded SnapBots (replay_held (bl_seq l) apply_to_bots r)"
    "core_of (snd r) = core_of (st\<lparr>st_loading := st_loading st - {SnapBots}\<rparr>)"
    by (rule that, unfold load_bots_def Let_def, rule refl) (simp add: core_of_def)
  let ?r = "replay_held (bl_seq l) apply_to_bots r"
  have "core_of (snd ?r) = core_of (st\<lparr>st_loading := st_loading st - {SnapBots}\<rparr>)"
    using r(2) by (simp add: replay_held_bots)
  then show ?thesis
    unfolding r(1) using calm_loaded [of ?r st SnapBots]
    by (simp add: core_of_def loaded_core(1)) (metis loaded_core(4))
qed

lemma core_load_routines:
  "st_conversations (snd (load_routines b l st)) = st_conversations st \<and> calm (Some (SnapRoutines b)) st (snd (load_routines b l st))
   \<and> st_loading st - {SnapRoutines b} \<subseteq> st_loading (snd (load_routines b l st))"
proof -
  obtain r where r: "load_routines b l st = loaded (SnapRoutines b) (replay_held (rl_seq l) apply_to_routines r)"
    "core_of (snd r) = core_of (st\<lparr>st_loading := st_loading st - {SnapRoutines b}\<rparr>)"
    by (rule that, unfold load_routines_def Let_def, rule refl) (simp add: core_of_def)
  let ?r = "replay_held (rl_seq l) apply_to_routines r"
  have "core_of (snd ?r) = core_of (st\<lparr>st_loading := st_loading st - {SnapRoutines b}\<rparr>)"
    using r(2) by (simp add: replay_held_routines)
  then show ?thesis
    unfolding r(1) using calm_loaded [of ?r st "SnapRoutines b"]
    by (simp add: core_of_def loaded_core(1)) (metis loaded_core(4))
qed

section \<open>Loading a conversation\<close>

lemma copy_ok_any:
  assumes L: "log_fits L" and p: "p < length L" and ok: "copy_ok L b p P ms"
  shows "copy_ok L b (Suc p) P (snd (conversation_event (e_event (L ! p)) ms))"
  using copy_ok_event [OF L p _ ok] copy_ok_foreign [OF L p ok] by blast

lemma log_seq: "log_fits L \<Longrightarrow> p < length L \<Longrightarrow> e_seq (L ! p) = Suc p"
  using numbered_nth by (simp add: log_fits_def)

lemma conv_ok_after:
  assumes L: "log_fits L" and p: "p < length L" and ok: "conv_ok L b p c"
  shows "conv_ok L b (Suc p) (conv_after (L ! p) c)"
proof (cases "Suc p \<le> cv_seq c")
  case True
  then show ?thesis using ok by (simp add: conv_ok_def conv_after_def log_seq [OF L p] max_def)
next
  case False
  then have "max p (cv_seq c) = p" "max (Suc p) (cv_seq c) = Suc p" by simp_all
  then show ?thesis
    using False ok copy_ok_any [OF L p, of b "covers (cv_older c)"]
    by (simp add: conv_ok_def conv_after_def log_seq [OF L p])
qed

lemma conv_ok_unheard:
  assumes L: "log_fits L" and p: "p < length L" and ok: "conv_ok L b p c"
    and "message_bot (e_event (L ! p)) \<noteq> Some b"
  shows "conv_ok L b (Suc p) c"
proof (cases "Suc p \<le> cv_seq c")
  case True
  then show ?thesis using ok by (simp add: conv_ok_def max_def)
next
  case False
  then have "max p (cv_seq c) = p" "max (Suc p) (cv_seq c) = Suc p" by simp_all
  then show ?thesis
    using ok copy_ok_other [OF _ p assms(4), of "covers (cv_older c)"] by (simp add: conv_ok_def)
qed

text \<open>The held events after a snapshot are the log from there.\<close>

lemma held_after:
  assumes L: "log_fits L" and "p \<le> length L" and "h \<le> s"
  shows "filter (\<lambda>e. e_seq e > s) (drop h (take p L)) = drop s (take p L)"
proof -
  have num: "numbered (take p L)"
    using L numbered_append_left [of "take p L" "drop p L"] by (simp add: log_fits_def)
  have "numbered (take h (take p L))"
    by (rule numbered_append_left [where fs = "drop h (take p L)"]) (simp only: append_take_drop_id num)
  from numbered_seqs [OF this] have "e_seq e \<le> h" if "e \<in> set (take h (take p L))" for e
    using that by (metis atLeastAtMost_iff image_eqI le_trans length_take min.cobounded2 min.commute)
  then have "filter (\<lambda>e. s < e_seq e) (take h (take p L)) = []"
    using \<open>h \<le> s\<close> by (force simp: filter_empty_conv)
  then have "filter (\<lambda>e. e_seq e > s) (take p L) = filter (\<lambda>e. e_seq e > s) (drop h (take p L))"
    by (metis append_Nil append_take_drop_id filter_append)
  then show ?thesis using numbered_filter_after [OF num, of s] by simp
qed

lemma conv_ok_replayed:
  assumes L: "log_fits L" and "p \<le> length L" and ok: "conv_ok L b (cv_seq c) c"
  shows "conv_ok L b p (fold conv_after (drop (cv_seq c) (take p L)) c)
    \<and> cv_seq (fold conv_after (drop (cv_seq c) (take p L)) c) = cv_seq c
    \<and> cv_requested_older (fold conv_after (drop (cv_seq c) (take p L)) c) = cv_requested_older c"
  using assms(2)
proof (induction p)
  case 0
  then show ?case using ok by (simp add: conv_ok_def)
next
  case (Suc p)
  show ?case
  proof (cases "cv_seq c \<le> p")
    case True
    then have "drop (cv_seq c) (take (Suc p) L) = drop (cv_seq c) (take p L) @ [L ! p]"
      using Suc.prems by (simp add: take_Suc_conv_app_nth)
    then show ?thesis using Suc conv_ok_after [OF L] by simp
  next
    case False
    then have "drop (cv_seq c) (take (Suc p) L) = []" by simp
    then show ?thesis using False ok by (simp add: conv_ok_def max_def)
  qed
qed

lemma core_load_messages:
  fixes b page
  defines "c0 \<equiv> \<lparr>cv_seq = pg_seq page, cv_messages = page_map (pg_messages page),
    cv_older = pg_older page, cv_requested_older = None\<rparr>"
  shows "st_conversations (snd (load_messages b page st)) = (st_conversations st)
      (b \<mapsto> fold conv_after (filter (\<lambda>e. e_seq e > pg_seq page) (st_held st)) c0)
    \<and> calm (Some (SnapMessages b)) st (snd (load_messages b page st))
    \<and> st_loading st - {SnapMessages b} \<subseteq> st_loading (snd (load_messages b page st))
    \<and> (SnapMessages b \<in> st_stale st \<longrightarrow> SnapMessages b \<in> st_loading (snd (load_messages b page st)))"
proof -
  define st1 where "st1 = (if pg_messages page = [] then st else note_newest b (Max (set (map m_id (pg_messages page)))) st)"
  define r where "r = (changed True, st1\<lparr>st_conversations := (st_conversations st1)(b \<mapsto> c0),
    st_loading := st_loading st1 - {SnapMessages b}\<rparr>)"
  have st1: "core_of st1 = core_of st" by (simp add: st1_def)
  have eq: "load_messages b page st = loaded (SnapMessages b) (replay_held (pg_seq page) (apply_to_conversation b) r)"
    by (simp add: load_messages_def Let_def r_def st1_def c0_def page_map_def)
  let ?r = "replay_held (pg_seq page) (apply_to_conversation b) r"
  have core: "core_of (snd ?r) = core_of (st\<lparr>st_loading := st_loading st - {SnapMessages b},
      st_conversations := (st_conversations st)(b \<mapsto> fold conv_after (filter (\<lambda>e. e_seq e > pg_seq page) (st_held st)) c0)\<rparr>)"
    using st1 by (simp add: replay_held_conversation) (simp add: r_def core_of_def)
  then show ?thesis
    unfolding eq using calm_loaded [of ?r st "SnapMessages b"]
    by (simp add: core_of_def loaded_core(1)) (metis loaded_core(4,5))
qed

section \<open>Loading older messages\<close>

lemma server_event_elsewhere: "event_message e \<noteq> Some i \<Longrightarrow> server_event b e ms i = ms i"
  by (cases e) (simp_all split: option.split)

lemma earlier_event_elsewhere: "event_message e \<noteq> Some i \<Longrightarrow> snd (earlier_event e (cm, ms)) i = ms i"
  by (cases e) (simp_all add: split_def Let_def split: option.split)

lemma earlier_event_dom: "dom (snd (earlier_event e (cm, ms))) = dom ms"
  by (cases e) (auto simp: split_def Let_def split: option.split)

text \<open>The messages the page adds, \<open>Q\<close> of them covered: none is created any more.\<close>

lemma copied_earlier:
  assumes L: "log_fits L" and q: "q < length L" and own: "own L b i" and there: "\<And>k. k \<le> length L \<Longrightarrow> server_at b L k i \<noteq> None \<Longrightarrow> server_at b L q i \<noteq> None"
    and v: "copied L b q i (ms i)"
  shows "copied L b (Suc q) i (snd (earlier_event (e_event (L ! q)) (cm, ms)) i)"
proof (cases "event_message (e_event (L ! q)) = Some i")
  case False
  have "copied L b (Suc q) i (ms i)"
    by (rule copied_untouched [OF v q]) (rule server_event_elsewhere [OF False])
  then show ?thesis using earlier_event_elsewhere [OF False] by simp
next
  case True
  have bot: "message_bot (e_event (L ! q)) = Some b"
  proof -
    obtain b' where b': "message_bot (e_event (L ! q)) = Some b'" using True by (cases "e_event (L ! q)") simp_all
    then show ?thesis using foreign_not_own [OF L q b' _ True] own by (cases "b' = b") simp_all
  qed
  have fits: "event_fits (\<lambda>b. server_at b L q) (e_event (L ! q))" using L q by (simp add: log_fits_def)
  have absent: False if "server_at b L q i \<noteq> None" "ms i = None"
  proof -
    obtain k where "q \<le> k" "k \<le> length L" "server_at b L k i = None"
      using v \<open>ms i = None\<close> unfolding copied_def by auto
    then show False using present_stays [OF L \<open>server_at b L q i \<noteq> None\<close>] by blast
  qed
  show ?thesis
  proof (cases "e_event (L ! q)")
    case (MessageCreated m)
    then have m: "m_bot_id m = b" "m_id m = i" using bot True by simp_all
    then have "server_at b L (Suc q) i \<noteq> None" using q by (simp add: server_at_Suc MessageCreated)
    from there [OF _ this] have "server_at b L q i \<noteq> None" using q by simp
    then show ?thesis using fits m by (simp add: MessageCreated)
  next
    case (MessageCompleted m)
    then have m: "m_bot_id m = b" "m_id m = i" using bot True by simp_all
    then have "server_at b L (Suc q) i = Some m" using q by (simp add: server_at_Suc MessageCompleted)
    then have "copied L b (Suc q) i (Some m)" using q by (intro copied_later [of _ _ _ "Suc q"]) simp_all
    moreover have "ms i \<noteq> None" using absent fits m by (auto simp: MessageCompleted)
    ultimately show ?thesis using m by (simp add: MessageCompleted)
  next
    case (MessageDelta b' i' offset delta)
    then have e: "e_event (L ! q) = MessageDelta b i offset delta" using bot True by simp
    have "server_at b L q i \<noteq> None" using fits unfolding e by (cases "server_at b L q i") simp_all
    then obtain m where m: "ms i = Some m" using absent by blast
    then have "copied L b q i (Some m)" using v by simp
    from copied_delta [OF L q e this] show ?thesis using m by (simp add: e split_def Let_def)
  qed (use True in simp_all)
qed

lemma fold_earlier:
  assumes L: "log_fits L" and s: "s \<le> p" "p \<le> length L"
    and Q: "\<And>i. i \<in> Q \<Longrightarrow> own L b i" "\<And>i k. i \<in> Q \<Longrightarrow> k \<le> length L \<Longrightarrow> server_at b L k i \<noteq> None \<Longrightarrow> server_at b L s i \<noteq> None"
    and start: "\<And>i. i \<in> Q \<Longrightarrow> copied L b s i (ms i)"
  shows "(\<forall>i \<in> Q. copied L b p i (snd (fold (\<lambda>e. earlier_event (e_event e)) (drop s (take p L)) (cm, ms)) i))
    \<and> dom (snd (fold (\<lambda>e. earlier_event (e_event e)) (drop s (take p L)) (cm, ms))) = dom ms"
  using s
proof (induction p rule: dec_induct)
  case base
  then show ?case using start by simp
next
  case (step q)
  define r where "r = fold (\<lambda>e. earlier_event (e_event e)) (drop s (take q L)) (cm, ms)"
  have q: "q < length L" using step.prems by simp
  have IH: "\<forall>i \<in> Q. copied L b q i (snd r i)" "dom (snd r) = dom ms" using step q by (simp_all add: r_def)
  have "drop s (take (Suc q) L) = drop s (take q L) @ [L ! q]"
    using q step.hyps by (simp add: take_Suc_conv_app_nth)
  then have eq: "fold (\<lambda>e. earlier_event (e_event e)) (drop s (take (Suc q) L)) (cm, ms)
      = earlier_event (e_event (L ! q)) (fst r, snd r)"
    by (simp add: r_def)
  have "copied L b (Suc q) i (snd (earlier_event (e_event (L ! q)) (fst r, snd r)) i)" if i: "i \<in> Q" for i
  proof (rule copied_earlier [OF L q Q(1) [OF i]])
    show "copied L b q i (snd r i)" using IH(1) i by blast
    show "server_at b L q i \<noteq> None" if "k \<le> length L" "server_at b L k i \<noteq> None" for k
      by (rule present_stays [OF L Q(2) [OF i that]]) (use step.hyps q in simp_all)
  qed
  moreover have "dom (snd (earlier_event (e_event (L ! q)) (fst r, snd r))) = dom ms"
    unfolding earlier_event_dom by (rule IH(2))
  ultimately show ?case unfolding eq by blast
qed

lemma map_of_filtered:
  "map_of (rev (map (\<lambda>m. (k m, m)) (filter (\<lambda>m. P (k m)) ms))) i = (if P i then map_of (rev (map (\<lambda>m. (k m, m)) ms)) i else None)"
  by (induction ms rule: rev_induct) auto

lemma earlier_messages_eq:
  assumes "\<forall>m \<in> set ms. m_bot_id m = b"
  shows "earlier_messages b before c ms i
    = (if i < before \<and> cv_messages c i = None then page_map ms i else None)"
proof -
  have "filter (\<lambda>m. m_bot_id m = b \<and> m_id m < before \<and> cv_messages c (m_id m) = None) ms
      = filter (\<lambda>m. m_id m < before \<and> cv_messages c (m_id m) = None) ms"
    using assms by (intro filter_cong) simp_all
  then show ?thesis
    using map_of_filtered [of m_id "\<lambda>i. i < before \<and> cv_messages c i = None" ms i]
    by (simp add: earlier_messages_def page_map_def)
qed

lemma conv_ok_older:
  assumes L: "log_fits L" and p: "p \<le> length L" and h: "h \<le> pg_seq page"
    and page: "older_page_shows L b before page" and seq: "cv_seq c \<le> pg_seq page"
    and c: "conv_ok L b p c" "cv_older c = Some before"
    and r: "earlier = snd (fold (\<lambda>e. earlier_event (e_event e)) (filter (\<lambda>e. e_seq e > pg_seq page) (drop h (take p L)))
      (cm, earlier_messages b before c (pg_messages page)))"
  shows "conv_ok L b p (c\<lparr>cv_requested_older := None, cv_messages := cv_messages c ++ earlier, cv_older := pg_older page\<rparr>)"
proof -
  let ?s = "pg_seq page" and ?ms = "earlier_messages b before c (pg_messages page)"
  obtain j where j: "?s \<le> j" "j \<le> length L"
    "\<And>i. if i < before \<and> covers (pg_older page) i then same (page_map (pg_messages page) i) (server_at b L j i)
         else page_map (pg_messages page) i = None"
    and old: "\<And>i k. i < before \<Longrightarrow> k \<le> length L \<Longrightarrow> server_at b L k i \<noteq> None \<Longrightarrow> server_at b L ?s i \<noteq> None"
    and bots: "\<forall>m \<in> set (pg_messages page). m_bot_id m = b"
    using page unfolding older_page_shows_def by blast
  define Q where "Q = {i. own L b i \<and> i < before \<and> covers (pg_older page) i \<and> cv_messages c i = None}"
  have start: "copied L b ?s i (?ms i)" if "i \<in> Q" for i
  proof -
    have "?ms i = page_map (pg_messages page) i" using that earlier_messages_eq [OF bots, of before c i] by (simp add: Q_def)
    moreover have "same (page_map (pg_messages page) i) (server_at b L j i)" using j(3) [of i] that by (simp add: Q_def)
    ultimately show ?thesis using copied_later [OF _ j(1,2)] by simp
  qed
  have dom0: "own L b i \<Longrightarrow> i \<in> dom ?ms \<Longrightarrow> i \<in> Q" for i
    using j(3) [of i] earlier_messages_eq [OF bots, of before c i] by (auto simp: Q_def split: if_splits)
  have held: "filter (\<lambda>e. e_seq e > ?s) (drop h (take p L)) = drop ?s (take p L)" by (rule held_after [OF L p h])
  have earlier: "(\<forall>i \<in> Q. copied L b (max p (cv_seq c)) i (earlier i)) \<and> dom earlier = dom ?ms"
  proof (cases "?s \<le> p")
    case True
    have "max p (cv_seq c) = p" using True seq by simp
    then show ?thesis unfolding r held
      using fold_earlier [OF L True p _ _ start, of Q] old by (simp add: Q_def)
  next
    case False
    have "earlier = ?ms" unfolding r held using False by simp
    then show ?thesis using False seq start copied_mono [of L b ?s _ _ "max p (cv_seq c)"] by simp
  qed
  have ok: "own L b i \<Longrightarrow> before \<le> i \<or> cv_messages c i \<noteq> None \<Longrightarrow> copied L b (max p (cv_seq c)) i (cv_messages c i)" for i
    using c unfolding conv_ok_def copy_ok_def covers_def by simp
  have "copied L b (max p (cv_seq c)) i ((cv_messages c ++ earlier) i)"
    if i: "own L b i" "covers (pg_older page) i \<or> (cv_messages c ++ earlier) i \<noteq> None" for i
  proof (cases "earlier i")
    case None
    then have v: "(cv_messages c ++ earlier) i = cv_messages c i" by (simp add: map_add_def)
    show ?thesis
    proof (cases "before \<le> i \<or> cv_messages c i \<noteq> None")
      case True
      then show ?thesis using ok [OF i(1)] v by simp
    next
      case False
      then have "i \<in> Q" using i v by (simp add: Q_def)
      then have "copied L b (max p (cv_seq c)) i (earlier i)" using earlier by blast
      then show ?thesis unfolding v using None False by simp
    qed
  next
    case (Some m)
    then have "i \<in> Q" using earlier dom0 [OF i(1)] by blast
    then have "copied L b (max p (cv_seq c)) i (earlier i)" using earlier by blast
    then show ?thesis using Some by simp
  qed
  then show ?thesis by (simp add: conv_ok_def copy_ok_def)
qed

text \<open>What an older page does to its conversation.\<close>

definition older_result :: "bot_id \<Rightarrow> message_id \<Rightarrow> message_page \<Rightarrow> store \<Rightarrow> conversation \<Rightarrow> conversation" where
  "older_result b before page st c =
     (if cv_requested_older c = Some before \<and> cv_older c = Some before then
        (case fold (\<lambda>e. earlier_event (e_event e)) (filter (\<lambda>e. e_seq e > pg_seq page) (st_held st))
            (SnapOlder b \<notin> st_stale st, earlier_messages b before c (pg_messages page)) of
           (complete, earlier) \<Rightarrow>
             if complete then c\<lparr>cv_requested_older := None, cv_messages := cv_messages c ++ earlier, cv_older := pg_older page\<rparr>
             else c\<lparr>cv_requested_older := None\<rparr>)
      else c)"

lemma core_load_older:
  "st_conversations (snd (load_older b before page st)) = (st_conversations st)
      (b := map_option (older_result b before page st) (st_conversations st b))
   \<and> calm (Some (SnapOlder b)) st (snd (load_older b before page st))
   \<and> st_loading st - {SnapOlder b} \<subseteq> st_loading (snd (load_older b before page st))"
proof -
  have "\<exists>r. load_older b before page st = finish (fst r, settle (snd r))
    \<and> st_conversations (snd r) = (st_conversations st)(b := map_option (older_result b before page st) (st_conversations st b))
    \<and> st_loading (snd r) = st_loading st - {SnapOlder b} \<and> st_stale (snd r) = st_stale st - {SnapOlder b}
    \<and> st_held (snd r) = st_held st"
    unfolding load_older_def Let_def
    by (rule exI, rule conjI, rule refl)
      (cases "st_conversations st b"; simp add: older_result_def split_def fun_upd_idem)
  then obtain r where r: "load_older b before page st = finish (fst r, settle (snd r))"
    "st_conversations (snd r) = (st_conversations st)(b := map_option (older_result b before page st) (st_conversations st b))"
    "st_loading (snd r) = st_loading st - {SnapOlder b}" "st_stale (snd r) = st_stale st - {SnapOlder b}"
    "st_held (snd r) = st_held st" by blast
  have "calm (Some (SnapOlder b)) st (snd (finish (fst r, settle (snd r))))"
    unfolding calm_def finish_core snd_conv settle_core r(3-5)
    by (cases "st_loading st - {SnapOlder b} = {}") auto
  then show ?thesis unfolding r(1) using r(2,3) by (simp add: finish_core)
qed

lemma older_result_simps:
  "cv_seq (older_result b before page st c) = cv_seq c"
  "cv_requested_older (older_result b before page st c) \<noteq> None \<Longrightarrow> older_result b before page st c = c"
  by (auto simp: older_result_def split: prod.splits if_splits)

section \<open>Every operation keeps the copies\<close>

text \<open>All operations but an event: the held events stay the log from some point on.\<close>

lemma held_ok_calm:
  assumes inv: "sync_inv L c" and "opr \<noteq> NextEvent" and calm: "calm (answers opr) (cl_store c) (op_store L (cl_pos c) opr (cl_store c))"
  shows "held_ok L (client_step L opr c)"
proof -
  let ?st = "cl_store c" and ?st' = "op_store L (cl_pos c) opr (cl_store c)" and ?c = "client_step L opr c"
  have known: "cl_pos c \<le> max (cl_known c) (shows_state (cl_pos c) opr)" using inv by (auto simp: sync_inv_def)
  obtain h where h: "h \<le> cl_pos c" "st_held ?st = drop h (take (cl_pos c) L)"
    "\<forall>s \<in> st_loading ?st - st_stale ?st. h \<le> cl_floor c s"
    using inv unfolding sync_inv_def held_ok_def by blast
  have empty: "st_loading ?st = {} \<longrightarrow> st_held ?st = []" using inv unfolding sync_inv_def held_ok_def by blast
  have c': "cl_store ?c = ?st'" "cl_pos ?c = cl_pos c" using assms(2) by (simp_all add: client_step_def Let_def)
  have floor: "cl_floor ?c s = (if s \<notin> st_loading ?st \<or> answers opr = Some s
      then max (cl_known c) (shows_state (cl_pos c) opr) else cl_floor c s)" if "s \<in> st_loading ?st'" for s
    using that by (simp add: client_step_def Let_def)
  consider (kept) "st_held ?st' = st_held ?st" "st_loading ?st' = {} \<longrightarrow> st_loading ?st = {}"
    | (dropped) "st_held ?st' = []" "\<forall>s \<in> st_loading ?st'. s \<notin> st_loading ?st \<or> answers opr = Some s"
    using calm unfolding calm_def by blast
  then show ?thesis
  proof cases
    case kept
    have "h \<le> cl_floor ?c s" if s: "s \<in> st_loading ?st' - st_stale ?st'" for s
    proof (cases "s \<notin> st_loading ?st \<or> answers opr = Some s")
      case True
      then show ?thesis using floor s known h(1) by simp
    next
      case False
      then have "s \<in> st_loading ?st - st_stale ?st" using calm s unfolding calm_def by blast
      then show ?thesis using floor s False h(3) by simp
    qed
    then show ?thesis unfolding held_ok_def c' using kept h(1,2) empty by auto
  next
    case dropped
    have "\<forall>s \<in> st_loading ?st' - st_stale ?st'. cl_pos c \<le> cl_floor ?c s"
      using dropped(2) floor known by simp
    then have "cl_pos c \<le> cl_pos c \<and> [] = drop (cl_pos c) (take (cl_pos c) L)
        \<and> (\<forall>s \<in> st_loading ?st' - st_stale ?st'. cl_pos c \<le> cl_floor ?c s)" by simp
    then show ?thesis unfolding held_ok_def c' dropped(1) by blast
  qed
qed

text \<open>What an operation has to do for one conversation.\<close>

definition conv_fine :: "envelope list \<Rightarrow> client \<Rightarrow> bot_id \<Rightarrow> conversation \<Rightarrow> bool" where
  "conv_fine L c b v \<longleftrightarrow> cv_seq v \<le> cl_known c
      \<and> (SnapOlder b \<in> st_loading (cl_store c) \<and> cv_requested_older v \<noteq> None \<longrightarrow> cv_seq v \<le> cl_floor c (SnapOlder b))
      \<and> (SnapMessages b \<in> st_loading (cl_store c) \<or> b \<in> cl_failed c \<or> conv_ok L b (cl_pos c) v)"

lemma convs_ok_fine: "convs_ok L c \<longleftrightarrow> (\<forall>b v. st_conversations (cl_store c) b = Some v \<longrightarrow> conv_fine L c b v)"
  by (simp add: convs_ok_def conv_fine_def)

lemma conv_fine_kept:
  assumes fine: "conv_fine L c b v" and "opr \<noteq> NextEvent"
    and older: "cv_requested_older v' \<noteq> None \<longrightarrow> cv_requested_older v = cv_requested_older v' \<or> SnapOlder b \<notin> st_loading (cl_store c)"
    and same: "cv_seq v' = cv_seq v" "cv_older v' = cv_older v" "cv_messages v' = cv_messages v"
    and awaited: "SnapMessages b \<in> st_loading (cl_store c) \<Longrightarrow>
      SnapMessages b \<in> st_loading (op_store L (cl_pos c) opr (cl_store c)) \<or> b \<in> fails_now opr (cl_failed c)"
    and failed: "b \<in> cl_failed c \<Longrightarrow> b \<in> fails_now opr (cl_failed c)"
  shows "conv_fine L (client_step L opr c) b v'"
  using assms by (auto simp: conv_fine_def client_step_def Let_def conv_ok_def)

lemma store_apply_core:
  "st_conversations (snd (store_apply e st)) = (case message_bot (e_event e) of
      None \<Rightarrow> st_conversations st
    | Some b \<Rightarrow> (st_conversations st)(b := map_option (conv_after e) (st_conversations st b)))
   \<and> st_held (snd (store_apply e st)) = st_held (hold e st)
   \<and> st_stale (snd (store_apply e st)) = st_stale (hold e st)
   \<and> st_loading st \<subseteq> st_loading (snd (store_apply e st))"
proof -
  define r where "r = (case message_bot (e_event e) of
    Some b \<Rightarrow> apply_to_conversation b e (hold e st) | None \<Rightarrow> (no_change, hold e st))"
  define r' where "r' = then_apply (then_apply (then_apply r (apply_to_bots e)) (apply_to_routines e)) (apply_usage (e_event e))"
  have hold: "st_conversations (hold e st) = st_conversations st" "st_loading (hold e st) = st_loading st"
    by (simp_all add: hold_def Let_def)
  have "core_of (snd r') = core_of (snd r)" by (simp add: r'_def then_apply_snd)
  moreover have "core_of (snd r) = core_of ((hold e st)\<lparr>st_conversations := (case message_bot (e_event e) of
      None \<Rightarrow> st_conversations st
    | Some b \<Rightarrow> (st_conversations st)(b := map_option (conv_after e) (st_conversations st b)))\<rparr>)"
  proof (cases "message_bot (e_event e)")
    case None
    then show ?thesis by (simp add: r_def core_of_def hold)
  next
    case (Some b)
    then show ?thesis using core_apply_to_conversation [of b e "hold e st"] by (simp add: r_def core_of_def hold)
  qed
  moreover have "store_apply e st = finish r'" by (simp add: store_apply_def Let_def r'_def r_def)
  ultimately show ?thesis using hold(2) by (auto simp: core_of_def finish_core)
qed

lemma sync_inv_event:
  assumes L: "log_fits L" and inv: "sync_inv L c" and p: "cl_pos c < length L"
  shows "sync_inv L (client_step L NextEvent c)"
proof -
  let ?p = "cl_pos c" and ?st = "cl_store c" and ?c = "client_step L NextEvent c"
  define e where "e = L ! ?p"
  define st' where "st' = snd (store_apply e ?st)"
  have c': "cl_store ?c = st'" "cl_pos ?c = Suc ?p" "cl_known ?c = max (cl_known c) (Suc ?p)" "cl_failed ?c = cl_failed c"
    by (simp_all add: client_step_def Let_def st'_def e_def)
  have floor: "cl_floor ?c s = (if s \<notin> st_loading ?st then max (cl_known c) (Suc ?p) else cl_floor c s)"
    if "s \<in> st_loading st'" for s
    using that by (simp add: client_step_def Let_def st'_def e_def)
  have core: "st_conversations st' = (case message_bot (e_event e) of None \<Rightarrow> st_conversations ?st
      | Some b \<Rightarrow> (st_conversations ?st)(b := map_option (conv_after e) (st_conversations ?st b)))"
    "st_held st' = st_held (hold e ?st)" "st_stale st' = st_stale (hold e ?st)" "st_loading ?st \<subseteq> st_loading st'"
    using store_apply_core [of e ?st] by (simp_all add: st'_def)
  have longer: "drop h (take (Suc ?p) L) = drop h (take ?p L) @ [e]" if "h \<le> ?p" for h
    using p that by (simp add: take_Suc_conv_app_nth e_def)
  obtain h where h: "h \<le> ?p" "st_held ?st = drop h (take ?p L)"
    "\<forall>s \<in> st_loading ?st - st_stale ?st. h \<le> cl_floor c s"
    using inv unfolding sync_inv_def held_ok_def by blast
  have held: "held_ok L ?c"
  proof (cases "st_loading ?st = {}")
    case True
    then have "st_held st' = []" using inv core(2) by (simp add: sync_inv_def held_ok_def hold_def)
    moreover have "Suc ?p \<le> cl_floor ?c s" if "s \<in> st_loading st'" for s using floor [OF that] True by simp
    ultimately show ?thesis unfolding held_ok_def c' by (intro conjI exI [of _ "Suc ?p"]) auto
  next
    case loading: False
    then have some: "st_loading st' \<noteq> {}" using core(4) by blast
    show ?thesis
    proof (cases "length (st_held ?st) \<ge> MAX_HELD")
      case True
      then have st: "st_held st' = [e]" "st_stale st' = st_stale ?st \<union> st_loading ?st"
        using loading core(2,3) by (simp_all add: hold_def Let_def)
      have "?p \<le> cl_floor ?c s" if "s \<in> st_loading st' - st_stale st'" for s
        using floor [of s] that st(2) by auto
      then show ?thesis unfolding held_ok_def c' using st(1) longer [of ?p] some by (intro conjI exI [of _ ?p]) simp_all
    next
      case False
      then have st: "st_held st' = st_held ?st @ [e]" "st_stale st' = st_stale ?st"
        using loading core(2,3) by (simp_all add: hold_def Let_def)
      have "h \<le> cl_floor ?c s" if "s \<in> st_loading st' - st_stale st'" for s
        using floor [of s] that st(2) h(1,3) by auto
      then show ?thesis unfolding held_ok_def c' using st(1) longer [OF h(1)] some h by (intro conjI exI [of _ h]) simp_all
    qed
  qed
  have "conv_fine L ?c b v'" if v': "st_conversations st' b = Some v'" for b v'
  proof -
    obtain v where v: "st_conversations ?st b = Some v"
      and eq: "v' = (if message_bot (e_event e) = Some b then conv_after e v else v)"
      using v' unfolding core(1) by (auto split: option.splits if_splits)
    have fine: "conv_fine L c b v" using inv v by (simp add: sync_inv_def convs_ok_fine)
    have simps: "cv_seq v' = cv_seq v" "cv_requested_older v' = cv_requested_older v" by (simp_all add: eq)
    have "conv_ok L b (Suc ?p) v'" if ok: "conv_ok L b ?p v"
    proof (cases "message_bot (e_event e) = Some b")
      case True
      then show ?thesis using conv_ok_after [OF L p ok] by (simp add: eq e_def)
    next
      case False
      then show ?thesis using conv_ok_unheard [OF L p ok] by (simp add: eq e_def)
    qed
    then show ?thesis
      using fine floor [of "SnapOlder b"] core(4) by (auto simp: conv_fine_def c' simps)
  qed
  then show ?thesis
    using held inv p by (simp add: sync_inv_def convs_ok_fine c')
qed

lemma step_calm:
  "opr \<noteq> NextEvent \<Longrightarrow> calm (answers opr) st (op_store L p opr st)"
proof (induction L p opr st rule: op_store.induct)
  case (4 L p b st)
  show ?case
    by (cases "st_conversations st b"; cases "case st_conversations st b of None \<Rightarrow> None | Some c \<Rightarrow> cv_older c")
      (auto simp: request_older_def Let_def load_failed_def calm_def)
next
  case (5 L p l st)
  then show ?case using core_load_bots [of l st] by simp
next
  case (6 L p b page st)
  then show ?case using core_load_messages [of b page st] by simp
next
  case (7 L p b before page st)
  then show ?case using core_load_older [of b before page st] by simp
next
  case (8 L p b l st)
  then show ?case using core_load_routines [of b l st] by simp
next
  case (9 L p s st)
  then show ?case by (auto simp: load_failed_def Let_def calm_def split: snapshot.split)
next
  case (12 L p r st)
  then show ?case by (auto simp: routine_changed_def calm_def split: option.split)
next
  case (13 L p b r st)
  then show ?case by (auto simp: routine_deleted_def calm_def split: option.split)
next
  case (16 L p u st)
  then show ?case by (auto simp: load_usage_def calm_def split: option.split)
qed (auto simp: request_def reload_all_def Let_def close_conversation_def close_routines_def clear_error_def
    request_usage_def calm_def)

text \<open>All operations but an event and the two that bring messages.\<close>

lemma step_keeps_convs:
  assumes "opr \<noteq> NextEvent" "\<And>b page. opr \<noteq> GetMessages b page" "\<And>b before page. opr \<noteq> GetOlder b before page"
    and allowed: "op_allowed L opr c" and v': "st_conversations (op_store L (cl_pos c) opr (cl_store c)) b = Some v'"
  shows "\<exists>v. st_conversations (cl_store c) b = Some v
    \<and> (cv_requested_older v' \<noteq> None \<longrightarrow> cv_requested_older v = cv_requested_older v' \<or> SnapOlder b \<notin> st_loading (cl_store c))
    \<and> cv_seq v' = cv_seq v \<and> cv_older v' = cv_older v \<and> cv_messages v' = cv_messages v
    \<and> (SnapMessages b \<in> st_loading (cl_store c) \<longrightarrow>
        SnapMessages b \<in> st_loading (op_store L (cl_pos c) opr (cl_store c)) \<or> b \<in> fails_now opr (cl_failed c))
    \<and> (b \<in> cl_failed c \<longrightarrow> b \<in> fails_now opr (cl_failed c))"
proof (cases opr)
  case (AskOlder a)
  then show ?thesis using v' allowed
    by (cases "st_conversations (cl_store c) a"; cases "case st_conversations (cl_store c) a of None \<Rightarrow> None | Some c \<Rightarrow> cv_older c")
      (auto simp: request_older_def Let_def load_failed_def split: if_splits)
next
  case (GetBots l)
  then show ?thesis using v' core_load_bots [of l "cl_store c"] by auto
next
  case (GetRoutines a l)
  then show ?thesis using v' core_load_routines [of a l "cl_store c"] by auto
next
  case (LoadFails s)
  then show ?thesis using v' by (cases s) (auto simp: load_failed_def Let_def split: if_splits)
next
  case (CloseChat a)
  then show ?thesis using v' by (auto simp: close_conversation_def split: if_splits)
qed (use assms in \<open>auto simp: request_def reload_all_def Let_def close_routines_def routine_changed_def
    routine_deleted_def clear_error_def request_usage_def load_usage_def split: option.splits if_splits\<close>)

lemma sync_inv_page:
  assumes L: "log_fits L" and inv: "sync_inv L c" and allowed: "op_allowed L (GetMessages b page) c"
  shows "convs_ok L (client_step L (GetMessages b page) c)"
proof -
  let ?p = "cl_pos c" and ?st = "cl_store c" and ?c = "client_step L (GetMessages b page) c"
  let ?st' = "snd (load_messages b page ?st)" and ?s = "pg_seq page"
  define c0 where "c0 = \<lparr>cv_seq = ?s, cv_messages = page_map (pg_messages page), cv_older = pg_older page,
    cv_requested_older = None\<rparr>"
  have c': "cl_store ?c = ?st'" "cl_pos ?c = ?p" "cl_known ?c = max (cl_known c) ?s" "cl_failed ?c = cl_failed c - {b}"
    by (simp_all add: client_step_def Let_def)
  have floor: "cl_floor ?c s = (if s \<notin> st_loading ?st \<or> s = SnapMessages b then max (cl_known c) ?s else cl_floor c s)"
    if "s \<in> st_loading ?st'" for s
    using that by (auto simp: client_step_def Let_def)
  have core: "st_conversations ?st' = (st_conversations ?st)
      (b \<mapsto> fold conv_after (filter (\<lambda>e. e_seq e > ?s) (st_held ?st)) c0)"
    "st_loading ?st - {SnapMessages b} \<subseteq> st_loading ?st'"
    "SnapMessages b \<in> st_stale ?st \<Longrightarrow> SnapMessages b \<in> st_loading ?st'"
    using core_load_messages [of b page ?st] by (simp_all add: c0_def)
  have p: "?p \<le> length L" using inv by (simp add: sync_inv_def)
  have fine: "conv_fine L c a v" if "st_conversations ?st a = Some v" for a v
    using inv that by (simp add: sync_inv_def convs_ok_fine)
  have "conv_fine L ?c a v'" if v': "st_conversations ?st' a = Some v'" for a v'
  proof (cases "a = b")
    case False
    then have v: "conv_fine L c a v'" using fine v' core(1) by simp
    then show ?thesis using False floor [of "SnapOlder a"] core(2) unfolding conv_fine_def c' by auto
  next
    case True
    obtain h where h: "st_held ?st = drop h (take ?p L)"
      "\<forall>s \<in> st_loading ?st - st_stale ?st. h \<le> cl_floor c s"
      using inv unfolding sync_inv_def held_ok_def by blast
    have v'_eq: "v' = fold conv_after (filter (\<lambda>e. e_seq e > ?s) (st_held ?st)) c0" using v' True core(1) by simp
    have keep: "cv_seq (fold conv_after es d) = cv_seq d"
      "cv_requested_older (fold conv_after es d) = cv_requested_older d" for es d
      by (induction es arbitrary: d) simp_all
    have "conv_ok L b ?p v'" if fresh: "SnapMessages b \<notin> st_stale ?st"
    proof -
      have "h \<le> cl_floor c (SnapMessages b)" using h(2) allowed fresh by simp
      then have "h \<le> ?s" using allowed by simp
      from held_after [OF L p this] have v'': "v' = fold conv_after (drop (cv_seq c0) (take ?p L)) c0"
        unfolding v'_eq h(1) by (simp add: c0_def)
      obtain j where j: "?s \<le> j" "j \<le> length L"
        "\<And>i. if covers (pg_older page) i then same (page_map (pg_messages page) i) (server_at b L j i)
              else page_map (pg_messages page) i = None"
        using allowed by (auto simp: page_shows_def)
      have "copied L b ?s i (page_map (pg_messages page) i)"
        if "covers (pg_older page) i \<or> page_map (pg_messages page) i \<noteq> None" for i
        using j(3) [of i] that copied_later [OF _ j(1,2)] by (auto split: if_splits)
      then have "conv_ok L b (cv_seq c0) c0" by (simp add: conv_ok_def copy_ok_def c0_def)
      from conv_ok_replayed [OF L p this] show ?thesis unfolding v'' by simp
    qed
    then show ?thesis
      using core(3) True v'_eq keep unfolding conv_fine_def c' by (auto simp: c0_def)
  qed
  then show ?thesis by (simp add: convs_ok_fine c')
qed

lemma stale_page_incomplete: "\<not> fst (fold (\<lambda>e. earlier_event (e_event e)) es (False, ms))"
proof (induction es arbitrary: ms)
  case (Cons e es)
  have "fst (earlier_event (e_event e) (False, ms)) = False"
    by (cases "e_event e") (auto simp: split_def Let_def split: option.split)
  then show ?case using Cons by (cases "earlier_event (e_event e) (False, ms)") simp
qed simp

lemma sync_inv_older_page:
  assumes L: "log_fits L" and inv: "sync_inv L c" and allowed: "op_allowed L (GetOlder b before page) c"
  shows "convs_ok L (client_step L (GetOlder b before page) c)"
proof -
  let ?p = "cl_pos c" and ?st = "cl_store c" and ?c = "client_step L (GetOlder b before page) c"
  let ?st' = "snd (load_older b before page ?st)"
  have c': "cl_store ?c = ?st'" "cl_pos ?c = ?p" "cl_known ?c = max (cl_known c) (pg_seq page)" "cl_failed ?c = cl_failed c"
    by (simp_all add: client_step_def Let_def)
  have floor: "cl_floor ?c s = (if s \<notin> st_loading ?st \<or> s = SnapOlder b then max (cl_known c) (pg_seq page) else cl_floor c s)"
    if "s \<in> st_loading ?st'" for s
    using that by (auto simp: client_step_def Let_def)
  have core: "st_conversations ?st' = (st_conversations ?st)(b := map_option (older_result b before page ?st) (st_conversations ?st b))"
    "st_loading ?st - {SnapOlder b} \<subseteq> st_loading ?st'"
    using core_load_older [of b before page ?st] by simp_all
  have p: "?p \<le> length L" using inv by (simp add: sync_inv_def)
  have "conv_fine L ?c a v'" if v': "st_conversations ?st' a = Some v'" for a v'
  proof -
    obtain v where v: "st_conversations ?st a = Some v" "v' = (if a = b then older_result b before page ?st v else v)"
      using v' unfolding core(1) by (auto split: if_splits)
    have fine: "conv_fine L c a v" using inv v(1) by (simp add: sync_inv_def convs_ok_fine)
    have "conv_ok L b ?p v'" if a: "a = b" and ok: "conv_ok L b ?p v"
    proof (cases "cv_requested_older v = Some before \<and> cv_older v = Some before")
      case False
      then have "older_result b before page ?st v = v" unfolding older_result_def by (rule if_not_P)
      then show ?thesis using v(2) a ok by simp
    next
      case asked: True
      define r where "r = fold (\<lambda>e. earlier_event (e_event e)) (filter (\<lambda>e. e_seq e > pg_seq page) (st_held ?st))
            (SnapOlder b \<notin> st_stale ?st, earlier_messages b before v (pg_messages page))"
      have eq: "v' = (if fst r then v\<lparr>cv_requested_older := None, cv_messages := cv_messages v ++ snd r, cv_older := pg_older page\<rparr>
          else v\<lparr>cv_requested_older := None\<rparr>)"
        using v(2) a asked by (simp add: older_result_def r_def split_def)
      show ?thesis
      proof (cases "fst r")
        case False
        then show ?thesis using ok by (simp add: eq conv_ok_def)
      next
        case True
        obtain h where h: "st_held ?st = drop h (take ?p L)"
          "\<forall>s \<in> st_loading ?st - st_stale ?st. h \<le> cl_floor c s"
          using inv unfolding sync_inv_def held_ok_def by blast
        have "SnapOlder b \<notin> st_stale ?st"
        proof
          assume "SnapOlder b \<in> st_stale ?st"
          then have "fst (fold (\<lambda>e. earlier_event (e_event e)) (filter (\<lambda>e. e_seq e > pg_seq page) (st_held ?st))
              (False, earlier_messages b before v (pg_messages page)))"
            using True by (simp add: r_def)
          then show False by (rule stale_page_incomplete [THEN notE])
        qed
        then have "h \<le> cl_floor c (SnapOlder b)" using h(2) allowed by simp
        then have "h \<le> pg_seq page" using allowed by simp
        moreover have "cv_seq v \<le> pg_seq page"
          using fine allowed asked a unfolding conv_fine_def by simp
        moreover have "snd r = snd (fold (\<lambda>e. earlier_event (e_event e))
            (filter (\<lambda>e. e_seq e > pg_seq page) (drop h (take ?p L)))
            (SnapOlder b \<notin> st_stale ?st, earlier_messages b before v (pg_messages page)))"
          by (simp add: r_def h(1))
        ultimately show ?thesis
          unfolding eq using True conv_ok_older [OF L p _ _ _ ok] allowed asked by simp
      qed
    qed
    then show ?thesis
      using fine v(2) core(2) floor [of "SnapOlder a"] older_result_simps [of b before page ?st v]
      unfolding conv_fine_def c' by (auto split: if_splits)
  qed
  then show ?thesis by (simp add: convs_ok_fine c')
qed

lemma sync_inv_step:
  assumes L: "log_fits L" and inv: "sync_inv L c" and allowed: "op_allowed L opr c"
  shows "sync_inv L (client_step L opr c)"
proof (cases "opr = NextEvent")
  case True
  then show ?thesis using sync_inv_event [OF L inv] allowed by simp
next
  case False
  have "convs_ok L (client_step L opr c)"
  proof (cases "(\<exists>b page. opr = GetMessages b page) \<or> (\<exists>b before page. opr = GetOlder b before page)")
    case True
    then show ?thesis using sync_inv_page [OF L inv] sync_inv_older_page [OF L inv] allowed by blast
  next
    case other: False
    have "conv_fine L (client_step L opr c) b v'"
      if v': "st_conversations (op_store L (cl_pos c) opr (cl_store c)) b = Some v'" for b v'
    proof -
      obtain v where v: "st_conversations (cl_store c) b = Some v"
        "cv_requested_older v' \<noteq> None \<longrightarrow> cv_requested_older v = cv_requested_older v' \<or> SnapOlder b \<notin> st_loading (cl_store c)"
        "cv_seq v' = cv_seq v" "cv_older v' = cv_older v" "cv_messages v' = cv_messages v"
        "SnapMessages b \<in> st_loading (cl_store c) \<Longrightarrow>
          SnapMessages b \<in> st_loading (op_store L (cl_pos c) opr (cl_store c)) \<or> b \<in> fails_now opr (cl_failed c)"
        "b \<in> cl_failed c \<Longrightarrow> b \<in> fails_now opr (cl_failed c)"
        using step_keeps_convs [OF False _ _ allowed v'] other by blast
      have "conv_fine L c b v" using inv v(1) by (simp add: sync_inv_def convs_ok_fine)
      from conv_fine_kept [OF this False v(2-7)] show ?thesis .
    qed
    then show ?thesis by (simp add: convs_ok_fine client_step_def Let_def)
  qed
  moreover have "held_ok L (client_step L opr c)" by (rule held_ok_calm [OF inv False step_calm [OF False]])
  ultimately show ?thesis
    using inv False by (auto simp: sync_inv_def client_step_def Let_def)
qed

lemma sync_inv_run: "log_fits L \<Longrightarrow> sync_inv L c \<Longrightarrow> run_allowed L ops c \<Longrightarrow> sync_inv L (client_run L ops c)"
  by (induction ops arbitrary: c) (simp_all add: sync_inv_step)

lemma sync_inv_new: "sync_inv L new_client"
  by (simp add: sync_inv_def held_ok_def convs_ok_def new_client_def new_store_def)

text \<open>A settled conversation shows the server's messages as they were at the client's position or later.\<close>

lemma open_conversation_shows:
  assumes L: "log_fits L" and run: "run_allowed L ops new_client"
    and c: "c = client_run L ops new_client"
    and v: "st_conversations (cl_store c) b = Some v"
    and settled: "SnapMessages b \<notin> st_loading (cl_store c)" "b \<notin> cl_failed c"
    and i: "own L b i" "covers (cv_older v) i"
  shows "(\<exists>k. cl_pos c \<le> k \<and> k \<le> length L \<and> same (cv_messages v i) (server_at b L k i))
    \<and> (cl_pos c = length L \<longrightarrow> same (cv_messages v i) (server_at b L (length L) i))"
proof -
  have inv: "sync_inv L c" unfolding c by (rule sync_inv_run [OF L sync_inv_new run])
  then have "conv_fine L c b v" using v by (simp add: sync_inv_def convs_ok_fine)
  then have "conv_ok L b (cl_pos c) v" using settled by (simp add: conv_fine_def)
  then have "copied L b (max (cl_pos c) (cv_seq v)) i (cv_messages v i)"
    using i by (simp add: conv_ok_def copy_ok_def)
  then obtain k where k: "cl_pos c \<le> k" "k \<le> length L" "same (cv_messages v i) (server_at b L k i)"
    by (auto simp: copied_def)
  moreover have "k = length L" if "cl_pos c = length L" using k that by simp
  ultimately show ?thesis by blast
qed

section \<open>Properties\<close>

text \<open>C1: the client's copy of a Bot's own messages converges to the server's, for a client that
  takes the events of the log one after the other (no reset makes it skip any). Whatever
  snapshots it asks for, fail, arrive late or show a later state, whatever events come meanwhile,
  and whether or not too many of them had to be dropped: in an open conversation whose load is
  neither awaited nor failed, each message of that Bot from the cursor on is as the server had
  it at some time not before the last event applied, and just as the server has it once the
  whole log is applied. Messages before the cursor are not loaded, and messages of other Bots
  are not covered: they can get in while a conversation loads. (A message's time of writing is
  left out while it streams.)\<close>

theorem open_conversations_converge:
  assumes L: "log_fits L" and run: "run_allowed L ops new_client"
    and c: "c = client_run L ops new_client"
    and v: "st_conversations (cl_store c) b = Some v"
    and settled: "SnapMessages b \<notin> st_loading (cl_store c)" "b \<notin> cl_failed c"
    and i: "own L b i" "covers (cv_older v) i"
  shows "(\<exists>k. cl_pos c \<le> k \<and> k \<le> length L \<and> same (cv_messages v i) (server_at b L k i))
    \<and> (cl_pos c = length L \<longrightarrow> same (cv_messages v i) (server_at b L (length L) i))"
  by (rule open_conversation_shows [OF assms])

text \<open>A reply is written while its conversation loads; the page shows a later state of it.\<close>

definition example_reply :: "utext \<Rightarrow> message_state \<Rightarrow> timestamp \<Rightarrow> message" where
  "example_reply t s updated = \<lparr>m_id = 4, m_bot_id = 1, m_author = AuthorBot, m_text = t, m_state = s,
     m_created_at = 10, m_updated_at = updated, m_kind = TextMessage, m_routine = None, m_notification = None\<rparr>"

definition example_events :: "envelope list" where
  "example_events = [\<lparr>e_seq = 1, e_at = 10, e_event = MessageCreated (example_reply [104] Streaming 10)\<rparr>,
     \<lparr>e_seq = 2, e_at = 11, e_event = MessageDelta 1 4 1 [105]\<rparr>,
     \<lparr>e_seq = 3, e_at = 12, e_event = MessageCompleted (example_reply [104, 105, 33] Complete 12)\<rparr>]"

definition example_page :: message_page where
  "example_page = \<lparr>pg_messages = [example_reply [104, 105] Streaming 11], pg_older = None, pg_seq = 1\<rparr>"

lemmas example_sync_defs = example_events_def example_page_def example_reply_def client_step_def Let_def request_def
  store_apply_def hold_def MAX_HELD_def then_apply_def apply_to_conversation_def apply_to_bots_def apply_to_routines_def
  apply_usage_def finish_def new_client_def new_store_def no_change_def merge_applied_def load_messages_def
  note_newest_def replay_held_def loaded_def reload_if_stale_def settle_def append_delta_def changed_def

lemma example_server:
  "server_at b example_events 0 = Map.empty"
  "server_at b example_events 1 = (if b = 1 then [4 \<mapsto> example_reply [104] Streaming 10] else Map.empty)"
  "server_at b example_events 2 = (if b = 1 then [4 \<mapsto> example_reply [104, 105] Streaming 10] else Map.empty)"
  "server_at b example_events 3 = (if b = 1 then [4 \<mapsto> example_reply [104, 105, 33] Complete 12] else Map.empty)"
  by (auto simp: server_at_def example_events_def example_reply_def eval_nat_numeral fun_eq_iff)

lemma example_events_fit: "log_fits example_events"
proof -
  have len: "length example_events = 3" by (simp add: example_events_def)
  have "event_fits (\<lambda>b. server_at b example_events k) (e_event (example_events ! k))" if k: "k < 3" for k
  proof -
    consider "k = 0" | "k = 1" | "k = 2" using k by linarith
    then show ?thesis
      by cases (simp_all only: example_server, simp_all add: example_events_def example_reply_def)
  qed
  then show ?thesis by (simp add: log_fits_def len) (simp add: numbered_def example_events_def eval_nat_numeral)
qed

definition example_ops :: "client_op list" where
  "example_ops = [Ask (SnapMessages 1), NextEvent, GetMessages 1 example_page, NextEvent, NextEvent]"

lemma example_run_allowed: "run_allowed example_events example_ops new_client"
proof -
  have "page_shows example_events 1 example_page"
    unfolding page_shows_def
    by (rule exI [of _ 2]) (simp only: example_server, simp add: example_page_def page_map_def covers_def same_def
      seen_def example_reply_def example_events_def)
  then show ?thesis
    by (simp add: example_ops_def) (simp add: example_sync_defs)
qed

theorem open_conversations_converge_witness:
  "\<exists>v. st_conversations (cl_store (client_run example_events example_ops new_client)) 1 = Some v
    \<and> same (cv_messages v 4) (Some (example_reply [104, 105, 33] Complete 12))"
proof -
  let ?c = "client_run example_events example_ops new_client"
  have own: "own example_events 1 4"
    unfolding own_def by (simp add: example_events_def server_at_def eval_nat_numeral example_reply_def)
  have end_state: "SnapMessages 1 \<notin> st_loading (cl_store ?c)" "1 \<notin> cl_failed ?c" "cl_pos ?c = length example_events"
    "\<exists>v. st_conversations (cl_store ?c) 1 = Some v \<and> cv_older v = None"
    by (simp_all add: example_ops_def example_sync_defs)
  then obtain v where v: "st_conversations (cl_store ?c) 1 = Some v" "cv_older v = None" by blast
  have "covers (cv_older v) 4" using v(2) by (simp add: covers_def)
  from open_conversations_converge [OF example_events_fit example_run_allowed refl v(1) end_state(1,2) own this]
  have "same (cv_messages v 4) (server_at 1 example_events (length example_events) 4)" using end_state(3) by simp
  moreover have "server_at 1 example_events (length example_events) 4 = Some (example_reply [104, 105, 33] Complete 12)"
    by (simp add: server_at_def example_events_def example_reply_def)
  ultimately show ?thesis using v(1) by auto
qed

text \<open>C39: a message of another Bot that is created while a conversation loads is put into that
  conversation too, when the page that arrives is older: the held events are replayed onto
  the page without a look at the Bot they are of.\<close>

theorem messages_of_other_bots_leak_in:
  assumes "SnapMessages b \<in> st_loading st" and "st_held st = []"
    and "e_event e = MessageCreated m" and "m_bot_id m \<noteq> b"
    and "pg_seq page < e_seq e" and "page_map (pg_messages page) (m_id m) = None"
  shows "\<exists>c. st_conversations (snd (load_messages b page (snd (store_apply e st)))) b = Some c
    \<and> cv_messages c (m_id m) = Some m"
proof -
  have "st_held (snd (store_apply e st)) = [e]"
    using store_apply_core [of e st] assms(1,2) by (auto simp: hold_def MAX_HELD_def)
  then show ?thesis
    using core_load_messages [of b page "snd (store_apply e st)"] assms by (simp add: conv_after_def)
qed

theorem messages_of_other_bots_leak_in_witness:
  "\<exists>c. st_conversations (snd (load_messages 2 \<lparr>pg_messages = [], pg_older = None, pg_seq = 0\<rparr>
      (snd (store_apply \<lparr>e_seq = 1, e_at = 10, e_event = MessageCreated (example_reply [104] Streaming 10)\<rparr>
        (new_store\<lparr>st_loading := {SnapMessages 2}\<rparr>))))) 2 = Some c
    \<and> cv_messages c 4 = Some (example_reply [104] Streaming 10)"
  using messages_of_other_bots_leak_in [of 2 "new_store\<lparr>st_loading := {SnapMessages 2}\<rparr>"
    "\<lparr>e_seq = 1, e_at = 10, e_event = MessageCreated (example_reply [104] Streaming 10)\<rparr>"
    "example_reply [104] Streaming 10" "\<lparr>pg_messages = [], pg_older = None, pg_seq = 0\<rparr>"]
  by (simp add: new_store_def page_map_def example_reply_def)

end
