(* ===== verification/BotStore.thy ===== *)
theory BotStore
  imports Grants "HOL-Library.Product_Lexorder"
begin

text \<open>
  \<open>crates/bokkie-gateway/src/bots/store.rs\<close> over the tables of migrations 0002, 0008 and 0011:
  Bots, their threads, messages and read markers. A column that holds a name or a list of
  grants holds its text. Each operation is one statement.
\<close>

section \<open>Names in columns\<close>

fun author_name :: "author \<Rightarrow> utext" where
  "author_name AuthorUser = lit ''user''"
| "author_name AuthorBot = lit ''bot''"

definition author_from :: "utext \<Rightarrow> author" where
  "author_from n = (if n = lit ''user'' then AuthorUser else AuthorBot)"

fun state_name :: "message_state \<Rightarrow> utext" where
  "state_name Streaming = lit ''streaming''"
| "state_name Complete = lit ''complete''"
| "state_name Interrupted = lit ''interrupted''"
| "state_name Failed = lit ''failed''"

definition state_from :: "utext \<Rightarrow> message_state" where
  "state_from n =
     (if n = lit ''streaming'' then Streaming
      else if n = lit ''complete'' then Complete
      else if n = lit ''interrupted'' then Interrupted
      else Failed)"

fun kind_name :: "message_kind \<Rightarrow> utext" where
  "kind_name TextMessage = lit ''text''"
| "kind_name Marker = lit ''marker''"

definition kind_from :: "utext \<Rightarrow> message_kind" where
  "kind_from n = (if n = lit ''marker'' then Marker else TextMessage)"

fun notification_kind_name :: "notification_kind \<Rightarrow> utext" where
  "notification_kind_name ResultNotice = lit ''result''"
| "notification_kind_name Question = lit ''question''"

definition notification_kind_from :: "utext \<Rightarrow> notification_kind" where
  "notification_kind_from n = (if n = lit ''question'' then Question else ResultNotice)"

interpretation authors: stored_name author_name author_from
proof unfold_locales
  show "author_from (author_name a) = a" for a by (cases a) (simp_all add: author_from_def)
qed

interpretation states: stored_name state_name state_from
proof unfold_locales
  show "state_from (state_name a) = a" for a by (cases a) (simp_all add: state_from_def)
qed

interpretation kinds: stored_name kind_name kind_from
proof unfold_locales
  show "kind_from (kind_name a) = a" for a by (cases a) (simp_all add: kind_from_def)
qed

interpretation notices: stored_name notification_kind_name notification_kind_from
proof unfold_locales
  show "notification_kind_from (notification_kind_name a) = a" for a
    by (cases a) (simp_all add: notification_kind_from_def)
qed

section \<open>Tables\<close>

definition MAX_MESSAGE_CHARS :: nat where
  "MAX_MESSAGE_CHARS = 20000"

definition PREVIEW_CHARS :: nat where
  "PREVIEW_CHARS = 140"

record bot_row =
  br_id :: bot_id
  br_user :: user_id
  br_name :: utext
  br_label :: utext
  br_description :: utext
  br_avatar :: "utext option"
  br_pinned :: bool
  br_hidden :: bool
  br_thread_id :: "utext option"
  br_profile_revision :: int
  br_profile_sent_revision :: int
  br_refused_reason :: "utext option"
  br_made_by :: "user_id option"
  br_created_at :: timestamp
  br_updated_at :: timestamp
  br_grants :: utext
  br_thread_grants :: utext
  br_carryover_marker :: "message_id option"

record message_row =
  ms_id :: message_id
  ms_bot_id :: bot_id
  ms_user_id :: user_id
  ms_author :: utext
  ms_text :: utext
  ms_state :: utext
  ms_turn_id :: "utext option"
  ms_item_id :: "utext option"
  ms_created_at :: timestamp
  ms_updated_at :: timestamp
  ms_kind :: utext
  ms_routine_id :: "routine_id option"
  ms_routine_run_id :: "routine_run_id option"
  ms_detail :: "utext option"
  ms_notification_kind :: "utext option"

record marker_row =
  mk_bot_id :: bot_id
  mk_user_id :: user_id
  mk_message_id :: message_id
  mk_updated_at :: timestamp

text \<open>Of a Bot's threads only whose they are matters here: user, thread and Bot.\<close>

record bots_db =
  bd_bots :: "bot_row list"
  bd_threads :: "(user_id \<times> utext \<times> bot_id) list"
  bd_messages :: "message_row list"
  bd_markers :: "marker_row list"

definition bot_grants :: "bot_row \<Rightarrow> grant_set" where
  "bot_grants r = grants_from_stored (br_grants r)"

definition is_current :: "bot_row \<Rightarrow> utext \<Rightarrow> bool" where
  "is_current r thread \<longleftrightarrow> br_thread_id r = Some thread"

record activity =
  av_last_message :: "message_preview option"
  av_read_up_to :: "message_id option"
  av_unread :: bool

definition default_activity :: activity where
  "default_activity = \<lparr>av_last_message = None, av_read_up_to = None, av_unread = False\<rparr>"

definition to_api :: "bot_row \<Rightarrow> bool \<Rightarrow> activity \<Rightarrow> bot" where
  "to_api r working av = \<lparr>b_id = br_id r, b_name = br_name r, b_label = br_label r,
     b_description = br_description r, b_avatar = br_avatar r, b_pinned = br_pinned r, b_hidden = br_hidden r,
     b_status = (if br_refused_reason r \<noteq> None then Refused else if working then Working else Idle),
     b_created_at = br_created_at r, b_updated_at = br_updated_at r, b_last_message = av_last_message av,
     b_grants = filter (\<lambda>g. g \<in> bot_grants r) GRANT_ALL, b_read_up_to = av_read_up_to av,
     b_unread = av_unread av\<rparr>"

definition message_from :: "message_row \<Rightarrow> message" where
  "message_from r = \<lparr>m_id = ms_id r, m_bot_id = ms_bot_id r, m_author = author_from (ms_author r),
     m_text = ms_text r, m_state = state_from (ms_state r), m_created_at = ms_created_at r,
     m_updated_at = ms_updated_at r, m_kind = kind_from (ms_kind r),
     m_routine = (case (ms_routine_id r, ms_routine_run_id r, ms_detail r) of
        (Some routine, Some run, Some prompt) \<Rightarrow>
          Some \<lparr>mr_routine_id = routine, mr_run_id = run, mr_prompt = prompt\<rparr>
      | _ \<Rightarrow> None),
     m_notification = map_option (\<lambda>k. \<lparr>mn_kind = notification_kind_from k,
        mn_body = (case ms_detail r of None \<Rightarrow> [] | Some d \<Rightarrow> d)\<rparr>) (ms_notification_kind r)\<rparr>"

section \<open>Validation\<close>

definition check_text :: "utext \<Rightarrow> utext \<Rightarrow> nat \<Rightarrow> nat \<Rightarrow> failure + utext" where
  "check_text field v lo hi =
     (let t = trim v in
      if length t < lo \<or> length t > hi
      then Inl (invalid (field @ lit '' needs '' @ decimal lo @ lit '' to '' @ decimal hi @ lit '' characters''))
      else if list_ex (\<lambda>c. is_control c \<and> c \<noteq> 10 \<and> c \<noteq> 9) t
      then Inl (invalid (field @ lit '' has control characters''))
      else Inr t)"

definition one_line :: "utext \<Rightarrow> failure + utext \<Rightarrow> failure + utext" where
  "one_line complaint r = and_then r (\<lambda>t. if 10 \<in> set t then Inl (invalid complaint) else Inr t)"

definition check_name :: "utext \<Rightarrow> failure + utext" where
  "check_name name = one_line (lit ''A name is one line'') (check_text (lit ''A name'') name 1 40)"

definition check_label :: "utext \<Rightarrow> failure + utext" where
  "check_label label = one_line (lit ''A label is one line'') (check_text (lit ''A label'') label 0 60)"

definition check_description :: "utext \<Rightarrow> failure + utext" where
  "check_description d = check_text (lit ''A description'') d 0 4000"

definition check_avatar :: "utext \<Rightarrow> failure + utext" where
  "check_avatar a = one_line (lit ''An avatar is one line'') (check_text (lit ''An avatar'') a 1 8)"

definition check_message :: "utext \<Rightarrow> failure + utext" where
  "check_message t = check_text (lit ''A message'') t 1 MAX_MESSAGE_CHARS"

section \<open>Bots\<close>

definition name_taken :: "user_id \<Rightarrow> utext \<Rightarrow> bot_id option \<Rightarrow> bots_db \<Rightarrow> bool" where
  "name_taken user name except db \<longleftrightarrow>
     list_ex (\<lambda>r. br_user r = user \<and> to_ascii_lowercase (br_name r) = to_ascii_lowercase name
       \<and> Some (br_id r) \<noteq> except) (bd_bots db)"

definition name_conflict :: failure where
  "name_conflict = conflict (lit ''You already have a Bot with that name'')"

definition create_bot ::
  "timestamp \<Rightarrow> user_id \<Rightarrow> user_id option \<Rightarrow> utext \<Rightarrow> utext \<Rightarrow> utext \<Rightarrow> utext option \<Rightarrow> bots_db
   \<Rightarrow> failure + bot_row \<times> bots_db" where
  "create_bot now user made_by name label description avatar db =
     and_then (check_name name) (\<lambda>n.
     and_then (check_label label) (\<lambda>l.
     and_then (check_description description) (\<lambda>d.
     and_then (check_opt check_avatar avatar) (\<lambda>a.
       if name_taken user n None db then Inl name_conflict
       else
         let r = \<lparr>br_id = next_rowid (map br_id (bd_bots db)), br_user = user, br_name = n, br_label = l,
               br_description = d, br_avatar = a, br_pinned = False, br_hidden = False, br_thread_id = None,
               br_profile_revision = 1, br_profile_sent_revision = 0, br_refused_reason = None,
               br_made_by = made_by, br_created_at = now, br_updated_at = now, br_grants = [],
               br_thread_grants = [], br_carryover_marker = None\<rparr>
         in Inr (r, db\<lparr>bd_bots := bd_bots db @ [r]\<rparr>)))))"

definition find_bot :: "user_id \<Rightarrow> bot_id \<Rightarrow> bots_db \<Rightarrow> bot_row option" where
  "find_bot user b db = find (\<lambda>r. br_id r = b \<and> br_user r = user) (bd_bots db)"

definition bot_by_name :: "user_id \<Rightarrow> utext \<Rightarrow> bots_db \<Rightarrow> bot_row option" where
  "bot_by_name user name db =
     find (\<lambda>r. br_user r = user \<and> to_ascii_lowercase (br_name r) = to_ascii_lowercase name) (bd_bots db)"

definition thread_bot :: "user_id \<Rightarrow> utext \<Rightarrow> bots_db \<Rightarrow> bot_id option" where
  "thread_bot user thread db =
     map_option (\<lambda>(_, _, b). b) (find (\<lambda>(u, t, _). u = user \<and> t = thread) (bd_threads db))"

definition bot_by_thread :: "user_id \<Rightarrow> utext \<Rightarrow> bots_db \<Rightarrow> bot_row option" where
  "bot_by_thread user thread db =
     (case thread_bot user thread db of None \<Rightarrow> None | Some b \<Rightarrow> find_bot user b db)"

definition list_activity :: "bots_db \<Rightarrow> bot_row \<Rightarrow> timestamp" where
  "list_activity db r =
     (case map ms_updated_at (filter (\<lambda>m. ms_bot_id m = br_id r) (bd_messages db)) of
        [] \<Rightarrow> br_updated_at r | t # ts \<Rightarrow> fold max ts t)"

definition list_bots :: "user_id \<Rightarrow> bots_db \<Rightarrow> bot_row list" where
  "list_bots user db =
     sort_key (\<lambda>r. (\<not> br_pinned r, - list_activity db r, br_id r)) (filter (\<lambda>r. br_user r = user) (bd_bots db))"

record bot_changes =
  bc_name :: "utext option"
  bc_label :: "utext option"
  bc_description :: "utext option"
  bc_avatar :: "utext option option"
  bc_pinned :: "bool option"
  bc_hidden :: "bool option"

definition no_bot_changes :: bot_changes where
  "no_bot_changes = \<lparr>bc_name = None, bc_label = None, bc_description = None, bc_avatar = None,
     bc_pinned = None, bc_hidden = None\<rparr>"

definition coalesce :: "'a option \<Rightarrow> 'a \<Rightarrow> 'a" where
  "coalesce x d = (case x of None \<Rightarrow> d | Some v \<Rightarrow> v)"

definition differs :: "'a option \<Rightarrow> 'a \<Rightarrow> bool" where
  "differs x v \<longleftrightarrow> (case x of None \<Rightarrow> False | Some y \<Rightarrow> y \<noteq> v)"

definition updated_bot ::
  "timestamp \<Rightarrow> utext option \<Rightarrow> utext option \<Rightarrow> utext option \<Rightarrow> utext option option \<Rightarrow> bot_changes \<Rightarrow> bot_row \<Rightarrow> bot_row" where
  "updated_bot now n l d a ch r =
     r\<lparr>br_profile_revision := br_profile_revision r
         + (if differs n (br_name r) \<or> differs l (br_label r) \<or> differs d (br_description r) then 1 else 0),
       br_name := coalesce n (br_name r), br_label := coalesce l (br_label r),
       br_description := coalesce d (br_description r), br_avatar := coalesce a (br_avatar r),
       br_pinned := coalesce (bc_pinned ch) (br_pinned r), br_hidden := coalesce (bc_hidden ch) (br_hidden r),
       br_updated_at := now\<rparr>"

text \<open>Replaces the row of one of the user's Bots, and gives the new row.\<close>

definition update_bot_row ::
  "user_id \<Rightarrow> bot_id \<Rightarrow> (bot_row \<Rightarrow> bot_row) \<Rightarrow> bots_db \<Rightarrow> failure + bot_row \<times> bots_db" where
  "update_bot_row user b f db =
     (case find_bot user b db of
        None \<Rightarrow> Inl not_found
      | Some r \<Rightarrow> Inr (f r, db\<lparr>bd_bots := update_where (\<lambda>r. br_id r = b \<and> br_user r = user) f (bd_bots db)\<rparr>))"

definition update_bot ::
  "timestamp \<Rightarrow> user_id \<Rightarrow> bot_id \<Rightarrow> bot_changes \<Rightarrow> bots_db \<Rightarrow> failure + bot_row \<times> bots_db" where
  "update_bot now user b ch db =
     and_then (check_opt check_name (bc_name ch)) (\<lambda>n.
     and_then (check_opt check_label (bc_label ch)) (\<lambda>l.
     and_then (check_opt check_description (bc_description ch)) (\<lambda>d.
     and_then (case bc_avatar ch of
         Some (Some avatar) \<Rightarrow> and_then (check_avatar avatar) (\<lambda>t. Inr (Some (Some t)))
       | other \<Rightarrow> Inr other) (\<lambda>a.
       if find_bot user b db \<noteq> None \<and> (case n of None \<Rightarrow> False | Some t \<Rightarrow> name_taken user t (Some b) db)
       then Inl name_conflict
       else update_bot_row user b (updated_bot now n l d a ch) db))))"

section \<open>Threads\<close>

text \<open>The trigger \<open>bots_record_thread\<close>: \<open>INSERT OR IGNORE\<close> keyed by user and thread.\<close>

definition record_thread :: "user_id \<Rightarrow> utext \<Rightarrow> bot_id \<Rightarrow> bots_db \<Rightarrow> bots_db" where
  "record_thread user thread b db =
     (if list_ex (\<lambda>(u, t, _). u = user \<and> t = thread) (bd_threads db) then db
      else db\<lparr>bd_threads := bd_threads db @ [(user, thread, b)]\<rparr>)"

text \<open>A thread belongs to one Bot: \<open>thread_id\<close> is unique.\<close>

definition thread_taken :: "utext \<Rightarrow> bot_id \<Rightarrow> bots_db \<Rightarrow> bool" where
  "thread_taken thread b db \<longleftrightarrow> list_ex (\<lambda>r. br_thread_id r = Some thread \<and> br_id r \<noteq> b) (bd_bots db)"

definition set_thread :: "user_id \<Rightarrow> bot_id \<Rightarrow> utext \<Rightarrow> int \<Rightarrow> grant_set \<Rightarrow> bots_db \<Rightarrow> failure + bots_db" where
  "set_thread user b thread revision grants db =
     (if list_ex (\<lambda>r. br_id r = b \<and> br_user r = user \<and> br_thread_id r = None) (bd_bots db) then
        if thread_taken thread b db then Inl (internal (lit ''UNIQUE constraint failed: bots.thread_id''))
        else Inr (record_thread user thread b (db\<lparr>bd_bots :=
          update_where (\<lambda>r. br_id r = b \<and> br_user r = user \<and> br_thread_id r = None)
            (\<lambda>r. r\<lparr>br_thread_id := Some thread, br_profile_sent_revision := revision,
              br_thread_grants := grants_to_stored grants\<rparr>) (bd_bots db)\<rparr>))
      else Inr db)"

definition replace_thread ::
  "user_id \<Rightarrow> bot_id \<Rightarrow> utext \<Rightarrow> utext \<Rightarrow> int \<Rightarrow> grant_set \<Rightarrow> message_id \<Rightarrow> bots_db \<Rightarrow> failure + bool \<times> bots_db" where
  "replace_thread user b old new revision grants marker db =
     (if list_ex (\<lambda>r. br_id r = b \<and> br_user r = user \<and> br_thread_id r = Some old) (bd_bots db) then
        if thread_taken new b db then Inl (internal (lit ''UNIQUE constraint failed: bots.thread_id''))
        else Inr (True, record_thread user new b (db\<lparr>bd_bots :=
          update_where (\<lambda>r. br_id r = b \<and> br_user r = user \<and> br_thread_id r = Some old)
            (\<lambda>r. r\<lparr>br_thread_id := Some new, br_profile_sent_revision := revision,
              br_thread_grants := grants_to_stored grants, br_carryover_marker := Some marker\<rparr>) (bd_bots db)\<rparr>))
      else Inr (False, db))"

definition clear_carryover :: "user_id \<Rightarrow> bot_id \<Rightarrow> message_id \<Rightarrow> bots_db \<Rightarrow> bots_db" where
  "clear_carryover user b marker db = db\<lparr>bd_bots :=
     update_where (\<lambda>r. br_id r = b \<and> br_user r = user \<and> br_carryover_marker r = Some marker)
       (\<lambda>r. r\<lparr>br_carryover_marker := None\<rparr>) (bd_bots db)\<rparr>"

definition set_grants ::
  "timestamp \<Rightarrow> user_id \<Rightarrow> bot_id \<Rightarrow> grant_set \<Rightarrow> bots_db \<Rightarrow> failure + bot_row \<times> bots_db" where
  "set_grants now user b grants db =
     update_bot_row user b (\<lambda>r. r\<lparr>br_grants := grants_to_stored grants, br_updated_at := now\<rparr>) db"

definition set_profile_sent :: "user_id \<Rightarrow> bot_id \<Rightarrow> int \<Rightarrow> bots_db \<Rightarrow> bots_db" where
  "set_profile_sent user b revision db = db\<lparr>bd_bots :=
     update_where (\<lambda>r. br_id r = b \<and> br_user r = user)
       (\<lambda>r. r\<lparr>br_profile_sent_revision := max (br_profile_sent_revision r) revision\<rparr>) (bd_bots db)\<rparr>"

definition set_refused :: "timestamp \<Rightarrow> user_id \<Rightarrow> bot_id \<Rightarrow> utext \<Rightarrow> bots_db \<Rightarrow> bots_db" where
  "set_refused now user b reason db = db\<lparr>bd_bots :=
     update_where (\<lambda>r. br_id r = b \<and> br_user r = user)
       (\<lambda>r. r\<lparr>br_refused_reason := Some reason, br_updated_at := now\<rparr>) (bd_bots db)\<rparr>"

section \<open>Messages\<close>

record new_message =
  nm_bot :: bot_id
  nm_author :: author
  nm_text :: utext
  nm_state :: message_state
  nm_turn :: "(utext \<times> utext) option"
  nm_kind :: message_kind
  nm_routine :: "(routine_id \<times> routine_run_id \<times> utext) option"
  nm_notification :: "(notification_kind \<times> utext) option"

definition new_message_row :: "timestamp \<Rightarrow> user_id \<Rightarrow> message_id \<Rightarrow> new_message \<Rightarrow> message_row" where
  "new_message_row now user i n = \<lparr>ms_id = i, ms_bot_id = nm_bot n, ms_user_id = user,
     ms_author = author_name (nm_author n), ms_text = nm_text n, ms_state = state_name (nm_state n),
     ms_turn_id = map_option fst (nm_turn n), ms_item_id = map_option snd (nm_turn n),
     ms_created_at = now, ms_updated_at = now, ms_kind = kind_name (nm_kind n),
     ms_routine_id = map_option fst (nm_routine n), ms_routine_run_id = map_option (fst \<circ> snd) (nm_routine n),
     ms_detail = (case nm_routine n of Some (_, _, prompt) \<Rightarrow> Some prompt | None \<Rightarrow> map_option snd (nm_notification n)),
     ms_notification_kind = map_option (notification_kind_name \<circ> fst) (nm_notification n)\<rparr>"

definition insert_message ::
  "timestamp \<Rightarrow> user_id \<Rightarrow> new_message \<Rightarrow> bots_db \<Rightarrow> failure + message \<times> bots_db" where
  "insert_message now user n db =
     (case find_bot user (nm_bot n) db of
        None \<Rightarrow> Inl not_found
      | Some _ \<Rightarrow>
          let r = new_message_row now user (next_rowid (map ms_id (bd_messages db))) n
          in Inr (message_from r, db\<lparr>bd_messages := bd_messages db @ [r]\<rparr>))"

text \<open>\<open>ORDER BY id DESC LIMIT\<close>.\<close>

definition newest_first :: "nat \<Rightarrow> message_row list \<Rightarrow> message_row list" where
  "newest_first limit rows = take limit (rev (sort_key ms_id rows))"

definition recent_text ::
  "user_id \<Rightarrow> bot_id \<Rightarrow> message_id \<Rightarrow> message_id option \<Rightarrow> nat \<Rightarrow> bots_db \<Rightarrow> message list" where
  "recent_text user b before except limit db =
     rev (map message_from (newest_first limit (filter (\<lambda>m. ms_bot_id m = b \<and> ms_user_id m = user \<and> ms_id m < before
       \<and> ms_kind m = lit ''text'' \<and> Some (ms_id m) \<noteq> except) (bd_messages db))))"

definition find_message :: "user_id \<Rightarrow> message_id \<Rightarrow> bots_db \<Rightarrow> message option" where
  "find_message user i db = map_option message_from (find (\<lambda>m. ms_id m = i \<and> ms_user_id m = user) (bd_messages db))"

definition append_text :: "timestamp \<Rightarrow> user_id \<Rightarrow> message_id \<Rightarrow> utext \<Rightarrow> bots_db \<Rightarrow> bots_db" where
  "append_text now user i t db = db\<lparr>bd_messages :=
     update_where (\<lambda>m. ms_id m = i \<and> ms_user_id m = user \<and> ms_state m = lit ''streaming'')
       (\<lambda>m. m\<lparr>ms_text := ms_text m @ t, ms_updated_at := now\<rparr>) (bd_messages db)\<rparr>"

definition finish_message ::
  "timestamp \<Rightarrow> user_id \<Rightarrow> message_id \<Rightarrow> utext option \<Rightarrow> message_state \<Rightarrow> bots_db \<Rightarrow> message option \<times> bots_db" where
  "finish_message now user i t state db =
     (let hit = (\<lambda>m. ms_id m = i \<and> ms_user_id m = user \<and> ms_state m = lit ''streaming'');
          f = (\<lambda>m. m\<lparr>ms_text := coalesce t (ms_text m), ms_state := state_name state, ms_updated_at := now\<rparr>)
      in (map_option (\<lambda>m. message_from (f m)) (find hit (bd_messages db)),
          db\<lparr>bd_messages := update_where hit f (bd_messages db)\<rparr>))"

definition streaming_messages :: "user_id \<Rightarrow> bot_id option \<Rightarrow> utext option \<Rightarrow> bots_db \<Rightarrow> message_id list" where
  "streaming_messages user b turn db =
     map ms_id (filter (\<lambda>m. ms_user_id m = user \<and> ms_state m = lit ''streaming''
       \<and> (b = None \<or> Some (ms_bot_id m) = b) \<and> (turn = None \<or> ms_turn_id m = turn)) (bd_messages db))"

definition clamp :: "nat \<Rightarrow> nat \<Rightarrow> nat \<Rightarrow> nat" where
  "clamp lo hi n = max lo (min hi n)"

definition messages_page ::
  "user_id \<Rightarrow> bot_id \<Rightarrow> message_id option \<Rightarrow> nat \<Rightarrow> bots_db \<Rightarrow> message list \<times> message_id option" where
  "messages_page user b before limit db =
     (let n = clamp 1 200 limit;
          rows = newest_first (n + 1) (filter (\<lambda>m. ms_bot_id m = b \<and> ms_user_id m = user
            \<and> (case before of None \<Rightarrow> True | Some i \<Rightarrow> ms_id m < i)) (bd_messages db));
          ms = map message_from rows
      in if length ms > n then (rev (take n ms), Some (m_id (last (take n ms)))) else (rev ms, None))"

section \<open>Activity and read markers\<close>

text \<open>The newest message of the Bot's own, and the user's marker.\<close>

definition newest_own :: "bot_id \<Rightarrow> bots_db \<Rightarrow> message_id option" where
  "newest_own b db =
     (case map ms_id (filter (\<lambda>m. ms_bot_id m = b \<and> ms_author m = lit ''bot'') (bd_messages db)) of
        [] \<Rightarrow> None | i # is \<Rightarrow> Some (fold max is i))"

definition marker_of :: "bot_row \<Rightarrow> bots_db \<Rightarrow> message_id option" where
  "marker_of r db =
     map_option mk_message_id (find (\<lambda>k. mk_bot_id k = br_id r \<and> mk_user_id k = br_user r) (bd_markers db))"

definition newest_unread :: "message_id option \<Rightarrow> message_id option \<Rightarrow> bool" where
  "newest_unread newest read_up_to \<longleftrightarrow>
     (case newest of None \<Rightarrow> False | Some n \<Rightarrow> (case read_up_to of None \<Rightarrow> True | Some r \<Rightarrow> n > r))"

definition last_message_row :: "bot_row \<Rightarrow> bots_db \<Rightarrow> message_row option" where
  "last_message_row r db =
     (case map ms_id (filter (\<lambda>m. ms_bot_id m = br_id r) (bd_messages db)) of
        [] \<Rightarrow> None
      | i # is \<Rightarrow> find (\<lambda>m. ms_id m = fold max is i \<and> ms_user_id m = br_user r) (bd_messages db))"

definition bot_activity_of :: "bot_row \<Rightarrow> bots_db \<Rightarrow> activity" where
  "bot_activity_of r db = \<lparr>
     av_last_message = map_option (\<lambda>m. \<lparr>mp_author = author_from (ms_author m),
       mp_text = take PREVIEW_CHARS (ms_text m), mp_at = ms_updated_at m\<rparr>) (last_message_row r db),
     av_read_up_to = marker_of r db,
     av_unread = newest_unread (newest_own (br_id r) db) (marker_of r db)\<rparr>"

definition activity_map :: "user_id \<Rightarrow> bot_id option \<Rightarrow> bots_db \<Rightarrow> bot_id \<rightharpoonup> activity" where
  "activity_map user only db =
     map_of (rev (map (\<lambda>r. (br_id r, bot_activity_of r db))
       (filter (\<lambda>r. br_user r = user \<and> (only = None \<or> Some (br_id r) = only)) (bd_bots db))))"

text \<open>\<open>u32::MAX\<close> caps the count.\<close>

definition unread_count :: "bool list \<Rightarrow> nat" where
  "unread_count us = min (length (filter (\<lambda>u. u) us)) (2 ^ 32 - 1)"

definition read_state_of :: "user_id \<Rightarrow> bot_id \<Rightarrow> bots_db \<Rightarrow> read_state option" where
  "read_state_of user b db = map_option (\<lambda>r. \<lparr>rs_bot_id = b, rs_read_up_to = marker_of r db,
     rs_unread = newest_unread (newest_own (br_id r) db) (marker_of r db)\<rparr>) (find_bot user b db)"

definition mark_read ::
  "timestamp \<Rightarrow> user_id \<Rightarrow> bot_id \<Rightarrow> message_id \<Rightarrow> bots_db \<Rightarrow> bool \<times> bots_db" where
  "mark_read now user b i db =
     (if list_ex (\<lambda>m. ms_id m = i \<and> ms_bot_id m = b \<and> ms_user_id m = user) (bd_messages db)
         \<and> list_ex (\<lambda>r. br_id r = b \<and> br_user r = user) (bd_bots db) then
        (case find (\<lambda>k. mk_bot_id k = b) (bd_markers db) of
           None \<Rightarrow> (True, db\<lparr>bd_markers := bd_markers db @
             [\<lparr>mk_bot_id = b, mk_user_id = user, mk_message_id = i, mk_updated_at = now\<rparr>]\<rparr>)
         | Some k \<Rightarrow>
             if i > mk_message_id k \<and> mk_user_id k = user
             then (True, db\<lparr>bd_markers := update_where (\<lambda>k. mk_bot_id k = b)
               (\<lambda>k. k\<lparr>mk_message_id := i, mk_updated_at := now\<rparr>) (bd_markers db)\<rparr>)
             else (False, db))
      else (False, db))"

definition unread_bots :: "user_id \<Rightarrow> bots_db \<Rightarrow> nat" where
  "unread_bots user db = unread_count
     (map (\<lambda>r. newest_unread (newest_own (br_id r) db) (marker_of r db)) (filter (\<lambda>r. br_user r = user) (bd_bots db)))"

end
