(* ===== verification/BotTables.thy ===== *)
theory BotTables
  imports BotStore
begin

text \<open>
  What holds of the tables of \<open>bots/store.rs\<close> whatever operations ran: keys, owners, unique
  names and threads, values of columns and markers; the pages of a conversation; and unread
  state, as the aggregate queries compute it, against the rule of \<open>Message::is_unread\<close>.
\<close>

section \<open>Runs\<close>

datatype bots_op =
    CreateBot timestamp user_id "user_id option" utext utext utext "utext option"
  | UpdateBot timestamp user_id bot_id bot_changes
  | SetThread user_id bot_id utext int grant_set
  | ReplaceThread user_id bot_id utext utext int grant_set message_id
  | ClearCarryover user_id bot_id message_id
  | SetGrants timestamp user_id bot_id grant_set
  | SetProfileSent user_id bot_id int
  | SetRefused timestamp user_id bot_id utext
  | InsertMessage timestamp user_id new_message
  | AppendText timestamp user_id message_id utext
  | FinishMessage timestamp user_id message_id "utext option" message_state
  | MarkRead timestamp user_id bot_id message_id

text \<open>The tables after an operation; one that fails changes nothing.\<close>

definition db_after :: "bots_db \<Rightarrow> failure + 'a \<times> bots_db \<Rightarrow> bots_db" where
  "db_after db r = (case r of Inl _ \<Rightarrow> db | Inr (_, db') \<Rightarrow> db')"

fun bots_do :: "bots_op \<Rightarrow> bots_db \<Rightarrow> bots_db" where
  "bots_do (CreateBot now u by n l d a) db = db_after db (create_bot now u by n l d a db)"
| "bots_do (UpdateBot now u b ch) db = db_after db (update_bot now u b ch db)"
| "bots_do (SetThread u b t n g) db = (case set_thread u b t n g db of Inl _ \<Rightarrow> db | Inr db' \<Rightarrow> db')"
| "bots_do (ReplaceThread u b old t n g m) db = db_after db (replace_thread u b old t n g m db)"
| "bots_do (ClearCarryover u b m) db = clear_carryover u b m db"
| "bots_do (SetGrants now u b g) db = db_after db (set_grants now u b g db)"
| "bots_do (SetProfileSent u b n) db = set_profile_sent u b n db"
| "bots_do (SetRefused now u b reason) db = set_refused now u b reason db"
| "bots_do (InsertMessage now u n) db = db_after db (insert_message now u n db)"
| "bots_do (AppendText now u i t) db = append_text now u i t db"
| "bots_do (FinishMessage now u i t s) db = snd (finish_message now u i t s db)"
| "bots_do (MarkRead now u b i) db = snd (mark_read now u b i db)"

definition empty_bots :: bots_db where
  "empty_bots = \<lparr>bd_bots = [], bd_threads = [], bd_messages = [], bd_markers = []\<rparr>"

definition bots_after :: "bots_op list \<Rightarrow> bots_db" where
  "bots_after ops = fold bots_do ops empty_bots"

section \<open>The invariant\<close>

definition bot_key :: "bot_row \<Rightarrow> bot_id \<times> user_id" where
  "bot_key r = (br_id r, br_user r)"

definition message_key :: "message_row \<Rightarrow> message_id \<times> bot_id \<times> user_id" where
  "message_key m = (ms_id m, ms_bot_id m, ms_user_id m)"

definition names_unique :: "bot_row list \<Rightarrow> bool" where
  "names_unique rows \<longleftrightarrow> (\<forall>r \<in> set rows. \<forall>s \<in> set rows. br_user r = br_user s
     \<and> to_ascii_lowercase (br_name r) = to_ascii_lowercase (br_name s) \<longrightarrow> br_id r = br_id s)"

definition threads_unique :: "bot_row list \<Rightarrow> bool" where
  "threads_unique rows \<longleftrightarrow> (\<forall>r \<in> set rows. \<forall>s \<in> set rows.
     br_thread_id r \<noteq> None \<and> br_thread_id r = br_thread_id s \<longrightarrow> br_id r = br_id s)"

definition threads_recorded :: "bots_db \<Rightarrow> bool" where
  "threads_recorded db \<longleftrightarrow> (\<forall>r \<in> set (bd_bots db). \<forall>t. br_thread_id r = Some t
     \<longrightarrow> (\<exists>b. (br_user r, t, b) \<in> set (bd_threads db)))"

definition columns_ok :: "message_row \<Rightarrow> bool" where
  "columns_ok m \<longleftrightarrow> ms_author m \<in> range author_name \<and> ms_state m \<in> range state_name
     \<and> ms_kind m \<in> range kind_name \<and> (\<forall>k. ms_notification_kind m = Some k \<longrightarrow> k \<in> range notification_kind_name)"

definition markers_ok :: "bots_db \<Rightarrow> bool" where
  "markers_ok db \<longleftrightarrow> distinct (map mk_bot_id (bd_markers db))
     \<and> (\<forall>k \<in> set (bd_markers db). (mk_message_id k, mk_bot_id k, mk_user_id k) \<in> message_key ` set (bd_messages db))"

definition bots_ok :: "bots_db \<Rightarrow> bool" where
  "bots_ok db \<longleftrightarrow> ascending br_id (bd_bots db) \<and> ascending ms_id (bd_messages db)
     \<and> names_unique (bd_bots db) \<and> threads_unique (bd_bots db) \<and> threads_recorded db
     \<and> (\<forall>m \<in> set (bd_messages db). columns_ok m \<and> (ms_bot_id m, ms_user_id m) \<in> bot_key ` set (bd_bots db))
     \<and> markers_ok db"

section \<open>Every operation keeps it\<close>

text \<open>A change of one Bot's row that keeps who it is, its name and its thread.\<close>

lemma bots_ok_row:
  assumes ok: "bots_ok db"
    and f: "\<And>r. br_id (f r) = br_id r" "\<And>r. br_user (f r) = br_user r" "\<And>r. br_name (f r) = br_name r"
      "\<And>r. br_thread_id (f r) = br_thread_id r"
  shows "bots_ok (db\<lparr>bd_bots := update_where p f (bd_bots db)\<rparr>)"
proof -
  have same: "\<exists>s \<in> set (bd_bots db). br_id s = br_id r \<and> br_user s = br_user r \<and> br_name s = br_name r
      \<and> br_thread_id s = br_thread_id r" if "r \<in> set (update_where p f (bd_bots db))" for r
    using that by (auto simp: table_simps f)
  have names: "names_unique (bd_bots db)" and threads: "threads_unique (bd_bots db)" and rec: "threads_recorded db"
    using ok by (simp_all add: bots_ok_def)
  have "names_unique (update_where p f (bd_bots db))"
    unfolding names_unique_def
  proof (intro ballI impI)
    fix r s assume "r \<in> set (update_where p f (bd_bots db))" "s \<in> set (update_where p f (bd_bots db))"
      "br_user r = br_user s \<and> to_ascii_lowercase (br_name r) = to_ascii_lowercase (br_name s)"
    then show "br_id r = br_id s" using same [of r] same [of s] names unfolding names_unique_def by metis
  qed
  moreover have "threads_unique (update_where p f (bd_bots db))"
    unfolding threads_unique_def
  proof (intro ballI impI)
    fix r s assume "r \<in> set (update_where p f (bd_bots db))" "s \<in> set (update_where p f (bd_bots db))"
      "br_thread_id r \<noteq> None \<and> br_thread_id r = br_thread_id s"
    then show "br_id r = br_id s" using same [of r] same [of s] threads unfolding threads_unique_def by metis
  qed
  moreover have "threads_recorded (db\<lparr>bd_bots := update_where p f (bd_bots db)\<rparr>)"
    using rec same by (fastforce simp: threads_recorded_def)
  moreover have "bot_key ` set (update_where p f (bd_bots db)) = bot_key ` set (bd_bots db)"
    by (rule keys_updated) (simp add: bot_key_def f)
  ultimately show ?thesis
    using ok by (simp add: bots_ok_def ascending_update f markers_ok_def)
qed

text \<open>A change of one message that keeps what it is of and the values of its columns.\<close>

lemma bots_ok_message:
  assumes ok: "bots_ok db"
    and f: "\<And>m. message_key (f m) = message_key m" "\<And>m. columns_ok m \<Longrightarrow> columns_ok (f m)"
  shows "bots_ok (db\<lparr>bd_messages := update_where p f (bd_messages db)\<rparr>)"
proof -
  have "ms_id (f m) = ms_id m" "ms_bot_id (f m) = ms_bot_id m" "ms_user_id (f m) = ms_user_id m" for m
    using f(1) [of m] by (simp_all add: message_key_def)
  then show ?thesis
    using ok f(2) keys_updated [of message_key f, OF f(1), of p "bd_messages db"]
    by (auto simp: bots_ok_def ascending_update markers_ok_def threads_recorded_def table_simps)
qed

lemma names_unique_snoc:
  assumes "names_unique rows"
    and new: "\<And>s. s \<in> set rows \<Longrightarrow> br_user s \<noteq> br_user r
      \<or> to_ascii_lowercase (br_name s) \<noteq> to_ascii_lowercase (br_name r)"
  shows "names_unique (rows @ [r])"
  unfolding names_unique_def
proof (intro ballI impI)
  fix a c assume "a \<in> set (rows @ [r])" "c \<in> set (rows @ [r])" and eq: "br_user a = br_user c
    \<and> to_ascii_lowercase (br_name a) = to_ascii_lowercase (br_name c)"
  then consider "a \<in> set rows" "c \<in> set rows" | "a = r" "c = r" | "a \<in> set rows" "c = r" | "a = r" "c \<in> set rows"
    by auto
  then show "br_id a = br_id c"
  proof cases
    case 1
    then show ?thesis using assms(1) eq unfolding names_unique_def by blast
  next
    case 3
    then show ?thesis using new [of a] eq by simp
  next
    case 4
    then show ?thesis using new [of c] eq by simp
  qed simp
qed

lemma bots_ok_new_bot:
  assumes ok: "bots_ok db" and r: "br_id r = next_rowid (map br_id (bd_bots db))" "br_thread_id r = None"
    and free: "\<not> name_taken (br_user r) (br_name r) None db"
  shows "bots_ok (db\<lparr>bd_bots := bd_bots db @ [r]\<rparr>)"
proof -
  have "br_user s \<noteq> br_user r \<or> to_ascii_lowercase (br_name s) \<noteq> to_ascii_lowercase (br_name r)"
    if "s \<in> set (bd_bots db)" for s
    using free that by (auto simp: name_taken_def list_ex_iff)
  then have "names_unique (bd_bots db @ [r])"
    using ok names_unique_snoc [of "bd_bots db" r] by (simp add: bots_ok_def)
  moreover have "threads_unique (bd_bots db @ [r])"
    unfolding threads_unique_def
  proof (intro ballI impI)
    fix a c assume *: "a \<in> set (bd_bots db @ [r])" "c \<in> set (bd_bots db @ [r])"
      "br_thread_id a \<noteq> None \<and> br_thread_id a = br_thread_id c"
    then have "a \<in> set (bd_bots db)" "c \<in> set (bd_bots db)" using r(2) by auto
    then show "br_id a = br_id c" using ok *(3) unfolding bots_ok_def threads_unique_def by blast
  qed
  moreover have "threads_recorded (db\<lparr>bd_bots := bd_bots db @ [r]\<rparr>)"
  proof -
    have "threads_recorded db" using ok by (simp add: bots_ok_def)
    then show ?thesis using r(2) by (simp add: threads_recorded_def)
  qed
  ultimately show ?thesis
    using ok ascending_new [of br_id "bd_bots db" r, OF _ r(1)] by (auto simp: bots_ok_def markers_ok_def)
qed

lemma create_bot_Inr:
  "create_bot now u by n l d a db = Inr (r, db') \<Longrightarrow>
   br_id r = next_rowid (map br_id (bd_bots db)) \<and> br_thread_id r = None
   \<and> \<not> name_taken (br_user r) (br_name r) None db \<and> db' = db\<lparr>bd_bots := bd_bots db @ [r]\<rparr>"
  by (auto simp: create_bot_def and_then_Inr Let_def split: if_splits)

lemma bots_ok_create: "bots_ok db \<Longrightarrow> bots_ok (db_after db (create_bot now u by n l d a db))"
  using create_bot_Inr [of now u "by" n l d a db] bots_ok_new_bot [of db]
  by (auto simp: db_after_def split: sum.split)

text \<open>A change of the row of one Bot.\<close>

lemma bots_ok_one_row:
  assumes ok: "bots_ok db" and p: "\<And>r. p r \<Longrightarrow> br_id r = b \<and> br_user r = u"
    and f: "\<And>r. br_id (f r) = br_id r" "\<And>r. br_user (f r) = br_user r"
    and name: "\<And>r. r \<in> set (bd_bots db) \<Longrightarrow> p r \<Longrightarrow>
      br_name (f r) = br_name r \<or> \<not> name_taken u (br_name (f r)) (Some b) db"
    and thread: "\<And>r t. r \<in> set (bd_bots db) \<Longrightarrow> p r \<Longrightarrow> br_thread_id (f r) = Some t \<Longrightarrow>
      br_thread_id r = Some t \<or> (\<not> thread_taken t b db \<and> (\<exists>c. (u, t, c) \<in> set threads))"
    and more: "set (bd_threads db) \<subseteq> set threads"
  shows "bots_ok (db\<lparr>bd_bots := update_where p f (bd_bots db), bd_threads := threads\<rparr>)"
proof -
  let ?g = "\<lambda>r. if p r then f r else r" and ?R = "set (bd_bots db)"
  have names: "names_unique (bd_bots db)" and threads: "threads_unique (bd_bots db)" and rec: "threads_recorded db"
    using ok by (simp_all add: bots_ok_def)
  have g: "br_id (?g r) = br_id r" "br_user (?g r) = br_user r" for r by (simp_all add: f)
  have name_g: "br_id r = br_id s" if rs: "r \<in> ?R" "s \<in> ?R" "br_user r = br_user s"
    "to_ascii_lowercase (br_name (?g r)) = to_ascii_lowercase (br_name (?g s))" for r s
  proof (rule ccontr)
    assume ne: "br_id r \<noteq> br_id s"
    have taken: False if "r \<in> ?R" "p r" "s \<in> ?R" "br_user s = u" "br_id s \<noteq> b" "br_name (f r) \<noteq> br_name r"
      "to_ascii_lowercase (br_name (f r)) = to_ascii_lowercase (br_name s)" for r s
      using name [OF that(1,2)] that by (auto simp: name_taken_def list_ex_iff)
    have "\<not> (p r \<and> p s)" using p [of r] p [of s] ne by auto
    moreover have "br_name (?g r) = br_name r" if "\<not> p s"
      using taken [of r s] p [of r] that rs ne by (cases "br_name (f r) = br_name r") auto
    moreover have "br_name (?g s) = br_name s" if "\<not> p r"
      using taken [of s r] p [of s] that rs ne by (cases "br_name (f s) = br_name s") auto
    ultimately have "to_ascii_lowercase (br_name r) = to_ascii_lowercase (br_name s)" using rs(4) by (auto split: if_splits)
    then show False using names rs ne unfolding names_unique_def by blast
  qed
  have thread_g: "br_id r = br_id s" if rs: "r \<in> ?R" "s \<in> ?R" "br_thread_id (?g r) = Some t" "br_thread_id (?g s) = Some t" for r s t
  proof (rule ccontr)
    assume ne: "br_id r \<noteq> br_id s"
    have taken: False if "r \<in> ?R" "p r" "s \<in> ?R" "br_id s \<noteq> b" "br_thread_id (f r) = Some t" "br_thread_id r \<noteq> Some t"
      "br_thread_id s = Some t" for r s
      using thread [OF that(1,2,5)] that by (auto simp: thread_taken_def list_ex_iff)
    have "\<not> (p r \<and> p s)" using p [of r] p [of s] ne by auto
    moreover have "br_thread_id r = Some t" if "\<not> p s"
      using taken [of r s] p [of r] that rs ne by (cases "br_thread_id r = Some t") (auto split: if_splits)
    moreover have "br_thread_id s = Some t" if "\<not> p r"
      using taken [of s r] p [of s] that rs ne by (cases "br_thread_id s = Some t") (auto split: if_splits)
    ultimately have "br_thread_id r = Some t \<and> br_thread_id s = Some t" using rs(3,4) by (auto split: if_splits)
    then show False using threads rs(1,2) ne unfolding threads_unique_def by fastforce
  qed
  have "names_unique (update_where p f (bd_bots db))"
    unfolding names_unique_def set_update_where
  proof (intro ballI impI)
    fix a c assume "a \<in> ?g ` ?R" "c \<in> ?g ` ?R" and eq: "br_user a = br_user c
      \<and> to_ascii_lowercase (br_name a) = to_ascii_lowercase (br_name c)"
    then obtain r s where "r \<in> ?R" "s \<in> ?R" "a = ?g r" "c = ?g s" by blast
    then show "br_id a = br_id c" using name_g [of r s] eq by (simp add: g)
  qed
  moreover have "threads_unique (update_where p f (bd_bots db))"
    unfolding threads_unique_def set_update_where
  proof (intro ballI impI)
    fix a c assume "a \<in> ?g ` ?R" "c \<in> ?g ` ?R" and eq: "br_thread_id a \<noteq> None \<and> br_thread_id a = br_thread_id c"
    then obtain r s t where "r \<in> ?R" "s \<in> ?R" "a = ?g r" "c = ?g s" "br_thread_id a = Some t" by blast
    then show "br_id a = br_id c" using thread_g [of r s t] eq by (simp add: g)
  qed
  moreover have "threads_recorded (db\<lparr>bd_bots := update_where p f (bd_bots db), bd_threads := threads\<rparr>)"
  proof -
    have "\<exists>c. (br_user r, t, c) \<in> set threads" if "r \<in> ?R" "br_thread_id (?g r) = Some t" for r t
    proof (cases "br_thread_id r = Some t")
      case True
      then show ?thesis using rec that more unfolding threads_recorded_def by blast
    next
      case False
      then show ?thesis using thread [of r t] p [of r] that by (auto split: if_splits)
    qed
    then have "\<forall>t. br_thread_id (?g r) = Some t \<longrightarrow> (\<exists>c. (br_user (?g r), t, c) \<in> set threads)" if "r \<in> ?R" for r
      using that g(2) by simp
    then have "\<forall>x \<in> ?g ` ?R. \<forall>t. br_thread_id x = Some t \<longrightarrow> (\<exists>c. (br_user x, t, c) \<in> set threads)" by blast
    then have "\<forall>x \<in> set (update_where p f (bd_bots db)). \<forall>t. br_thread_id x = Some t \<longrightarrow> (\<exists>c. (br_user x, t, c) \<in> set threads)"
      by (simp only: set_update_where)
    then show ?thesis by (simp add: threads_recorded_def)
  qed
  moreover have "bot_key ` set (update_where p f (bd_bots db)) = bot_key ` ?R"
    by (rule keys_updated) (simp add: bot_key_def f)
  ultimately show ?thesis using ok by (simp add: bots_ok_def ascending_update f markers_ok_def)
qed

lemma find_bot_Some: "find_bot u b db = Some r \<Longrightarrow> r \<in> set (bd_bots db) \<and> br_id r = b \<and> br_user r = u"
  by (auto simp: find_bot_def dest: find_Some_in)

lemma update_bot_Inr:
  assumes "update_bot now u b ch db = Inr (r, db')"
  obtains n l d a where "db' = db\<lparr>bd_bots := update_where (\<lambda>r. br_id r = b \<and> br_user r = u) (updated_bot now n l d a ch) (bd_bots db)\<rparr>"
    "\<And>t. n = Some t \<Longrightarrow> \<not> name_taken u t (Some b) db"
  using assms by (auto simp: update_bot_def update_bot_row_def and_then_Inr split: if_splits option.splits)

lemma updated_bot_keeps [simp]:
  "br_id (updated_bot now n l d a ch r) = br_id r" "br_user (updated_bot now n l d a ch r) = br_user r"
  "br_thread_id (updated_bot now n l d a ch r) = br_thread_id r"
  "br_name (updated_bot now n l d a ch r) = coalesce n (br_name r)"
  by (simp_all add: updated_bot_def)

lemma bots_ok_update_bot: "bots_ok db \<Longrightarrow> bots_ok (db_after db (update_bot now u b ch db))"
proof (cases "update_bot now u b ch db")
  case (Inr x)
  assume ok: "bots_ok db"
  obtain r db' where x: "x = (r, db')" by (cases x) simp
  from Inr x obtain n l d a where
    db': "db' = db\<lparr>bd_bots := update_where (\<lambda>r. br_id r = b \<and> br_user r = u) (updated_bot now n l d a ch) (bd_bots db)\<rparr>"
    and free: "\<And>t. n = Some t \<Longrightarrow> \<not> name_taken u t (Some b) db"
    using update_bot_Inr [of now u b ch db r db'] by metis
  have "bots_ok (db\<lparr>bd_bots := update_where (\<lambda>r. br_id r = b \<and> br_user r = u) (updated_bot now n l d a ch) (bd_bots db),
      bd_threads := bd_threads db\<rparr>)"
    by (rule bots_ok_one_row [OF ok, where b = b and u = u])
      (use free in \<open>auto simp: coalesce_def split: option.split\<close>)
  then show ?thesis by (simp add: db_after_def Inr x db')
qed (simp add: db_after_def)

lemma record_thread_has: "\<exists>c. (u, t, c) \<in> set (bd_threads (record_thread u t b db))"
  by (auto simp: record_thread_def list_ex_iff)

lemma record_thread_eq: "record_thread u t b db = db\<lparr>bd_threads := bd_threads (record_thread u t b db)\<rparr>"
  by (simp add: record_thread_def)

lemma bots_ok_thread:
  assumes ok: "bots_ok db" and p: "\<And>r. p r \<Longrightarrow> br_id r = b \<and> br_user r = u"
    and f: "\<And>r. br_id (f r) = br_id r" "\<And>r. br_user (f r) = br_user r" "\<And>r. br_name (f r) = br_name r"
      "\<And>r. br_thread_id (f r) = Some t"
    and free: "\<not> thread_taken t b db"
  shows "bots_ok (record_thread u t b (db\<lparr>bd_bots := update_where p f (bd_bots db)\<rparr>))"
proof -
  let ?db = "db\<lparr>bd_bots := update_where p f (bd_bots db)\<rparr>"
  have eq: "record_thread u t b ?db = ?db\<lparr>bd_threads := bd_threads (record_thread u t b ?db)\<rparr>"
    by (rule record_thread_eq)
  have "set (bd_threads db) \<subseteq> set (bd_threads (record_thread u t b ?db))" by (auto simp: record_thread_def)
  then have "bots_ok (db\<lparr>bd_bots := update_where p f (bd_bots db),
      bd_threads := bd_threads (record_thread u t b ?db)\<rparr>)"
    using record_thread_has [of u t b ?db]
    by (intro bots_ok_one_row [OF ok p]) (use free in \<open>auto simp: f\<close>)
  then show ?thesis by (subst eq) simp
qed

lemma bots_ok_set_thread: "bots_ok db \<Longrightarrow> set_thread u b t n g db = Inr db' \<Longrightarrow> bots_ok db'"
  by (auto simp: set_thread_def split: if_splits intro!: bots_ok_thread)

lemma bots_ok_replace_thread: "bots_ok db \<Longrightarrow> replace_thread u b old t n g m db = Inr (x, db') \<Longrightarrow> bots_ok db'"
  by (auto simp: replace_thread_def split: if_splits intro!: bots_ok_thread)

lemma new_message_row_simps [simp]:
  "ms_id (new_message_row now u i n) = i" "ms_bot_id (new_message_row now u i n) = nm_bot n"
  "ms_user_id (new_message_row now u i n) = u" "columns_ok (new_message_row now u i n)"
  "ms_author (new_message_row now u i n) = author_name (nm_author n)"
  "ms_state (new_message_row now u i n) = state_name (nm_state n)"
  "ms_text (new_message_row now u i n) = nm_text n"
  by (auto simp: new_message_row_def columns_ok_def)

lemma insert_message_Inr:
  "insert_message now u n db = Inr (m, db') \<Longrightarrow> (\<exists>r. find_bot u (nm_bot n) db = Some r)
   \<and> m = message_from (new_message_row now u (next_rowid (map ms_id (bd_messages db))) n)
   \<and> db' = db\<lparr>bd_messages := bd_messages db @ [new_message_row now u (next_rowid (map ms_id (bd_messages db))) n]\<rparr>"
  by (auto simp: insert_message_def Let_def split: option.splits)

lemma bots_ok_insert_message: "bots_ok db \<Longrightarrow> insert_message now u n db = Inr (m, db') \<Longrightarrow> bots_ok db'"
proof -
  assume ok: "bots_ok db" and ins: "insert_message now u n db = Inr (m, db')"
  let ?r = "new_message_row now u (next_rowid (map ms_id (bd_messages db))) n"
  have db': "db' = db\<lparr>bd_messages := bd_messages db @ [?r]\<rparr>" and ex: "\<exists>r. find_bot u (nm_bot n) db = Some r"
    using insert_message_Inr [OF ins] by blast+
  then obtain r where r: "r \<in> set (bd_bots db)" "br_id r = nm_bot n" "br_user r = u" using find_bot_Some by blast
  then have "(nm_bot n, u) \<in> bot_key ` set (bd_bots db)" by (force simp: bot_key_def)
  moreover have "ascending ms_id (bd_messages db @ [?r])"
    by (rule ascending_new) (use ok in \<open>simp_all add: bots_ok_def\<close>)
  moreover have "markers_ok db'" using ok by (auto simp: bots_ok_def markers_ok_def db')
  moreover have "threads_recorded db'" using ok by (simp add: bots_ok_def threads_recorded_def db')
  ultimately show "bots_ok db'" using ok by (simp add: bots_ok_def db')
qed

lemma bots_ok_mark_read: "bots_ok db \<Longrightarrow> bots_ok (snd (mark_read now u b i db))"
proof -
  assume ok: "bots_ok db"
  have m: "markers_ok db" and t: "threads_recorded db" using ok by (simp_all add: bots_ok_def)
  have ok': "bots_ok (db\<lparr>bd_markers := ks\<rparr>)" if "markers_ok (db\<lparr>bd_markers := ks\<rparr>)" for ks
    using ok that by (simp add: bots_ok_def threads_recorded_def)
  show ?thesis
  proof (cases "list_ex (\<lambda>m. ms_id m = i \<and> ms_bot_id m = b \<and> ms_user_id m = u) (bd_messages db)")
    case True
    then have key: "(i, b, u) \<in> message_key ` set (bd_messages db)"
      by (force simp: list_ex_iff message_key_def)
    have "markers_ok (db\<lparr>bd_markers := bd_markers db @ [\<lparr>mk_bot_id = b, mk_user_id = u, mk_message_id = i, mk_updated_at = now\<rparr>]\<rparr>)"
      if "find (\<lambda>k. mk_bot_id k = b) (bd_markers db) = None"
      using m key that by (auto simp: markers_ok_def find_None_iff)
    moreover have "markers_ok (db\<lparr>bd_markers := update_where (\<lambda>k. mk_bot_id k = b)
        (\<lambda>k. k\<lparr>mk_message_id := i, mk_updated_at := now\<rparr>) (bd_markers db)\<rparr>)"
      if "find (\<lambda>k. mk_bot_id k = b) (bd_markers db) = Some k" "mk_user_id k = u" for k
    proof -
      have "mk_user_id k' = u" if "k' \<in> set (bd_markers db)" "mk_bot_id k' = b" for k'
        using m that find_distinct_key [of mk_bot_id "bd_markers db" k'] \<open>find _ _ = Some k\<close> \<open>mk_user_id k = u\<close>
        by (simp add: markers_ok_def)
      then show ?thesis using m key by (auto simp: markers_ok_def table_simps)
    qed
    ultimately show ?thesis using ok ok' by (auto simp: mark_read_def split: option.split)
  qed (use ok in \<open>simp add: mark_read_def\<close>)
qed

lemma columns_kept:
  "columns_ok m \<Longrightarrow> columns_ok (m\<lparr>ms_text := t, ms_updated_at := now\<rparr>)"
  "columns_ok m \<Longrightarrow> columns_ok (m\<lparr>ms_text := t, ms_state := state_name s, ms_updated_at := now\<rparr>)"
  by (auto simp: columns_ok_def)

lemma bots_ok_append_text: "bots_ok db \<Longrightarrow> bots_ok (append_text now u i t db)"
  unfolding append_text_def by (rule bots_ok_message) (simp_all add: message_key_def columns_kept)

lemma bots_ok_finish: "bots_ok db \<Longrightarrow> bots_ok (snd (finish_message now u i t s db))"
  unfolding finish_message_def Let_def snd_conv
  by (rule bots_ok_message) (simp_all add: message_key_def columns_kept)

lemma bots_ok_do: "bots_ok db \<Longrightarrow> bots_ok (bots_do op db)"
proof (induction op db rule: bots_do.induct)
  case (3 u b t n g db)
  then show ?case using bots_ok_set_thread [of db u b t n g] by (auto split: sum.split)
next
  case (4 u b old t n g m db)
  then show ?case using bots_ok_replace_thread [of db u b old t n g m] by (auto simp: db_after_def split: sum.split)
next
  case (6 now u b g db)
  then show ?case
    by (auto simp: db_after_def set_grants_def update_bot_row_def intro: bots_ok_row split: sum.split option.split)
next
  case (9 now u n db)
  then show ?case using bots_ok_insert_message [of db now u n] by (auto simp: db_after_def split: sum.split)
qed (simp_all add: bots_ok_create bots_ok_update_bot bots_ok_append_text bots_ok_finish bots_ok_mark_read
    clear_carryover_def set_profile_sent_def set_refused_def bots_ok_row)

lemma bots_ok_empty: "bots_ok empty_bots"
  by (simp add: bots_ok_def empty_bots_def ascending_def names_unique_def threads_unique_def
      threads_recorded_def markers_ok_def)

lemma bots_ok_after: "bots_ok (bots_after ops)"
proof -
  have "bots_ok db \<Longrightarrow> bots_ok (fold bots_do ops db)" for db
    by (induction ops arbitrary: db) (simp_all add: bots_ok_do)
  then show ?thesis using bots_ok_empty by (simp add: bots_after_def)
qed

lemma bots_ok_run: "bots_ok db \<Longrightarrow> bots_ok (fold bots_do ops db)"
  by (induction ops arbitrary: db) (simp_all add: bots_ok_do)

section \<open>Pages of a conversation\<close>

definition conversation_rows :: "user_id \<Rightarrow> bot_id \<Rightarrow> message_id option \<Rightarrow> bots_db \<Rightarrow> message_row list" where
  "conversation_rows u b before db = filter (\<lambda>m. ms_bot_id m = b \<and> ms_user_id m = u
     \<and> (case before of None \<Rightarrow> True | Some i \<Rightarrow> ms_id m < i)) (bd_messages db)"

definition conversation_of :: "user_id \<Rightarrow> bot_id \<Rightarrow> bots_db \<Rightarrow> message list" where
  "conversation_of u b db = map message_from (conversation_rows u b None db)"

lemma message_from_id [simp]: "m_id (message_from m) = ms_id m"
  by (simp add: message_from_def)

lemma newest_first_rows: "ascending ms_id rows \<Longrightarrow> newest_first n rows = take n (rev rows)"
  by (simp add: newest_first_def ascending_sorted)

lemma rows_ascend: "bots_ok db \<Longrightarrow> ascending ms_id (conversation_rows u b before db)"
  by (simp add: conversation_rows_def bots_ok_def ascending_filter)

lemma page_rows:
  assumes "bots_ok db" and n: "n = clamp 1 200 limit" and rows: "rows = conversation_rows u b before db"
  shows "messages_page u b before limit db =
    (map message_from (drop (length rows - n) rows),
     if length rows > n then Some (ms_id (rows ! (length rows - n))) else None)"
proof -
  have "n \<ge> 1" by (simp add: n clamp_def)
  have nf: "newest_first (n + 1) rows = take (n + 1) (rev rows)"
    by (rule newest_first_rows) (simp add: rows rows_ascend assms(1))
  show ?thesis
  proof (cases "length rows > n")
    case True
    then have "take n (take (n + 1) (rev rows)) = rev (drop (length rows - n) rows)"
      by (simp add: take_rev min_def Suc_diff_Suc)
    moreover have "last (rev (drop (length rows - n) rows)) = rows ! (length rows - n)"
      using True \<open>n \<ge> 1\<close> by (simp add: last_rev hd_drop_conv_nth)
    moreover have "drop (length rows - n) rows \<noteq> []" using True \<open>n \<ge> 1\<close> by simp
    ultimately show ?thesis
      using True unfolding messages_page_def Let_def conversation_rows_def [symmetric] rows [symmetric] n [symmetric] nf
      by (simp add: take_map last_map rev_map)
  next
    case False
    then have "take (n + 1) (rev rows) = rev rows" by simp
    then show ?thesis
      using False unfolding messages_page_def Let_def conversation_rows_def [symmetric] rows [symmetric] n [symmetric] nf
      by (simp add: rev_map)
  qed
qed

text \<open>A client that reads back from the newest page, following the cursors.\<close>

fun read_back :: "nat \<Rightarrow> user_id \<Rightarrow> bot_id \<Rightarrow> message_id option \<Rightarrow> nat \<Rightarrow> bots_db \<Rightarrow> message list option" where
  "read_back 0 u b before limit db = None"
| "read_back (Suc n) u b before limit db =
     (case messages_page u b before limit db of
        (ms, None) \<Rightarrow> Some ms
      | (ms, Some cursor) \<Rightarrow> map_option (\<lambda>earlier. earlier @ ms) (read_back n u b (Some cursor) limit db))"

lemma filter_below_nth:
  assumes "ascending key rows" and "k < length rows"
  shows "filter (\<lambda>m. key m < key (rows ! k)) rows = take k rows"
proof -
  have below: "key (rows ! i) < key (rows ! j) \<longleftrightarrow> i < j" if "i < length rows" "j < length rows" for i j
    using assms(1) that unfolding ascending_def sorted_wrt_iff_nth_less
    by (metis length_map less_asym' linorder_neqE_nat nth_map)
  have "filter (\<lambda>m. key m < key (rows ! k)) (take k rows) = take k rows"
    by (rule filter_True) (use below assms(2) in \<open>auto simp: in_set_conv_nth\<close>)
  moreover have "filter (\<lambda>m. key m < key (rows ! k)) (drop k rows) = []"
    by (rule filter_False) (use below assms(2) in \<open>auto simp: in_set_conv_nth\<close>)
  ultimately show ?thesis by (metis append_Nil2 append_take_drop_id filter_append)
qed

lemma conversation_rows_below:
  "(\<And>i. before = Some i \<Longrightarrow> j < i) \<Longrightarrow>
   conversation_rows u b (Some j) db = filter (\<lambda>m. ms_id m < j) (conversation_rows u b before db)"
  unfolding conversation_rows_def filter_filter by (rule filter_cong) (auto split: option.split)

lemma read_back_rows:
  assumes ok: "bots_ok db"
  shows "length (conversation_rows u b before db) < fuel \<Longrightarrow>
    read_back fuel u b before limit db = Some (map message_from (conversation_rows u b before db))"
proof (induction fuel arbitrary: before)
  case (Suc fuel)
  let ?n = "clamp 1 200 limit" and ?rows = "conversation_rows u b before db"
  let ?k = "length ?rows - ?n"
  have n1: "?n \<ge> 1" by (simp add: clamp_def)
  show ?case
  proof (cases "length ?rows > ?n")
    case True
    have k: "?k < length ?rows" using True n1 by simp
    have bound: "ms_id (?rows ! ?k) < i" if "before = Some i" for i
      using nth_mem [OF k] that unfolding conversation_rows_def by simp
    have rest: "conversation_rows u b (Some (ms_id (?rows ! ?k))) db = take ?k ?rows"
      using conversation_rows_below [of before "ms_id (?rows ! ?k)" u b db] bound
        filter_below_nth [OF rows_ascend [OF ok] k] by simp
    have "length (take ?k ?rows) < fuel" using Suc.prems k by simp
    then have "read_back fuel u b (Some (ms_id (?rows ! ?k))) limit db = Some (map message_from (take ?k ?rows))"
      using Suc.IH [of "Some (ms_id (?rows ! ?k))", unfolded rest] by blast
    then show ?thesis
      using True page_rows [OF ok refl refl, of u b before limit]
      by (simp flip: map_append)
  qed (use page_rows [OF ok refl refl, of u b before limit] in simp)
qed simp

section \<open>Unread state\<close>

lemma fold_max_Max: "fold max is i = Max (set ((i::int) # is))"
  by (rule Max.set_eq_fold [symmetric])

lemma newest_own_unread:
  "newest_unread (newest_own b db) read_to \<longleftrightarrow> (\<exists>m \<in> set (bd_messages db). ms_bot_id m = b \<and> ms_author m = lit ''bot''
     \<and> (case read_to of None \<Rightarrow> True | Some i \<Rightarrow> ms_id m > i))"
proof -
  let ?ms = "filter (\<lambda>m. ms_bot_id m = b \<and> ms_author m = lit ''bot'') (bd_messages db)"
  show ?thesis
  proof (cases "map ms_id ?ms")
    case Nil
    then show ?thesis by (auto simp: newest_own_def newest_unread_def filter_empty_conv simp del: lit_Cons)
  next
    case (Cons i "is")
    then have ids: "ms_id ` set ?ms = set (i # is)" by (metis list.set_map)
    have newest: "newest_own b db = Some (Max (ms_id ` set ?ms))"
      unfolding newest_own_def Cons ids by (simp add: fold_max_Max)
    have ne: "set ?ms \<noteq> {}" using ids by auto
    have "(Max (ms_id ` set ?ms) > j) \<longleftrightarrow> (\<exists>m \<in> set ?ms. ms_id m > j)" for j
      using ne by (simp add: Max_gr_iff)
    then show ?thesis unfolding newest_unread_def newest using ne by (auto split: option.split)
  qed
qed

lemma find_bot_ok: "bots_ok db \<Longrightarrow> r \<in> set (bd_bots db) \<Longrightarrow> find_bot (br_user r) (br_id r) db = Some r"
proof -
  assume ok: "bots_ok db" and r: "r \<in> set (bd_bots db)"
  have "find (\<lambda>s. br_id s = br_id r \<and> br_user s = br_user r) (bd_bots db) \<noteq> None"
    using r by (auto simp: find_None_iff)
  then obtain s where s: "find (\<lambda>s. br_id s = br_id r \<and> br_user s = br_user r) (bd_bots db) = Some s" by blast
  then have "s \<in> set (bd_bots db)" "br_id s = br_id r" by (auto dest: find_Some_in)
  then have "s = r" using ascending_inj [of br_id "bd_bots db" s r] ok r by (simp add: bots_ok_def)
  then show ?thesis using s by (simp add: find_bot_def)
qed

lemma message_owner:
  assumes ok: "bots_ok db" and r: "r \<in> set (bd_bots db)" and m: "m \<in> set (bd_messages db)" "ms_bot_id m = br_id r"
  shows "ms_user_id m = br_user r"
proof -
  have "(ms_bot_id m, ms_user_id m) \<in> bot_key ` set (bd_bots db)" using ok m(1) by (simp add: bots_ok_def)
  then obtain s where "s \<in> set (bd_bots db)" "br_id s = br_id r" "br_user s = ms_user_id m"
    using m(2) by (auto simp: bot_key_def)
  then show ?thesis using ascending_inj [of br_id "bd_bots db" s r] ok r by (simp add: bots_ok_def)
qed

lemma message_from_own: "columns_ok m \<Longrightarrow> m_author (message_from m) = AuthorBot \<longleftrightarrow> ms_author m = lit ''bot''"
proof -
  assume "columns_ok m"
  then obtain a where "ms_author m = author_name a" by (auto simp: columns_ok_def)
  then show ?thesis by (cases a) (simp_all add: message_from_def author_from_def)
qed

lemma conversation_of_set: "set (conversation_of u b db) = message_from ` {m \<in> set (bd_messages db). ms_bot_id m = b \<and> ms_user_id m = u}"
  by (auto simp: conversation_of_def conversation_rows_def)

lemma unread_conversation:
  assumes ok: "bots_ok db" and r: "r \<in> set (bd_bots db)"
  shows "newest_unread (newest_own (br_id r) db) read_to \<longleftrightarrow>
    (\<exists>m \<in> set (conversation_of (br_user r) (br_id r) db). is_unread m read_to)"
proof -
  have "columns_ok m" if "m \<in> set (bd_messages db)" for m using ok that by (simp add: bots_ok_def)
  then show ?thesis
    using message_owner [OF ok r] message_from_own
    by (auto simp: newest_own_unread conversation_of_set is_unread_def simp del: lit_Cons split: option.split_asm)
qed

lemma activity_map_row:
  assumes ok: "bots_ok db" and r: "r \<in> set (bd_bots db)"
  shows "activity_map (br_user r) None db (br_id r) = Some (bot_activity_of r db)"
proof -
  let ?rows = "filter (\<lambda>s. br_user s = br_user r) (bd_bots db)"
  let ?pairs = "map (\<lambda>s. (br_id s, bot_activity_of s db)) ?rows"
  have "ascending br_id ?rows" using ok by (simp add: bots_ok_def ascending_filter)
  then have "distinct (map fst ?pairs)" using ascending_distinct [of br_id ?rows] by (simp add: comp_def)
  then have "distinct (map fst (rev ?pairs))" by (simp only: rev_map [symmetric] distinct_rev)
  moreover have "(br_id r, bot_activity_of r db) \<in> set (rev ?pairs)" using r by force
  ultimately have "map_of (rev ?pairs) (br_id r) = Some (bot_activity_of r db)" by (rule map_of_is_SomeI)
  then show ?thesis by (simp add: activity_map_def)
qed

section \<open>Read markers\<close>

definition marker_for :: "user_id \<Rightarrow> bot_id \<Rightarrow> bots_db \<Rightarrow> message_id option" where
  "marker_for u b db = map_option mk_message_id (find (\<lambda>k. mk_bot_id k = b \<and> mk_user_id k = u) (bd_markers db))"

lemma marker_of_for: "marker_of r db = marker_for (br_user r) (br_id r) db"
  by (simp add: marker_of_def marker_for_def)

definition has_message :: "user_id \<Rightarrow> bot_id \<Rightarrow> message_id \<Rightarrow> bots_db \<Rightarrow> bool" where
  "has_message u b i db \<longleftrightarrow> (\<exists>m \<in> set (conversation_of u b db). m_id m = i)"

lemma has_message_row:
  "has_message u b i db \<longleftrightarrow> list_ex (\<lambda>m. ms_id m = i \<and> ms_bot_id m = b \<and> ms_user_id m = u) (bd_messages db)"
  by (auto simp: has_message_def conversation_of_set list_ex_iff)

lemma has_message_owner: "bots_ok db \<Longrightarrow> has_message u b i db \<Longrightarrow> list_ex (\<lambda>r. br_id r = b \<and> br_user r = u) (bd_bots db)"
proof -
  assume ok: "bots_ok db" and "has_message u b i db"
  then obtain m where "m \<in> set (bd_messages db)" "ms_bot_id m = b" "ms_user_id m = u"
    by (auto simp: has_message_row list_ex_iff)
  then have "(b, u) \<in> bot_key ` set (bd_bots db)" using ok by (auto simp: bots_ok_def)
  then show ?thesis by (auto simp: list_ex_iff bot_key_def)
qed

lemma markers_find:
  assumes "bots_ok db" and "k \<in> set (bd_markers db)"
  shows "find (\<lambda>k'. mk_bot_id k' = mk_bot_id k) (bd_markers db) = Some k"
  using assms find_distinct_key [of mk_bot_id "bd_markers db" k] by (simp add: bots_ok_def markers_ok_def)

text \<open>A marker's user is its Bot's.\<close>

lemma marker_user:
  assumes ok: "bots_ok db" and k: "k \<in> set (bd_markers db)" and has: "has_message u (mk_bot_id k) i db"
  shows "mk_user_id k = u"
proof -
  have "(mk_message_id k, mk_bot_id k, mk_user_id k) \<in> message_key ` set (bd_messages db)"
    using ok k by (simp add: bots_ok_def markers_ok_def)
  then obtain m where m: "m \<in> set (bd_messages db)" "ms_bot_id m = mk_bot_id k" "ms_user_id m = mk_user_id k"
    by (auto simp: message_key_def)
  obtain r where r: "r \<in> set (bd_bots db)" "br_id r = mk_bot_id k" "br_user r = u"
    using has_message_owner [OF ok has] by (auto simp: list_ex_iff)
  show ?thesis using message_owner [OF ok r(1) m(1)] m r by simp
qed

lemma marker_for_row:
  assumes ok: "bots_ok db"
  shows "marker_for v c db = (case find (\<lambda>k. mk_bot_id k = c) (bd_markers db) of
     None \<Rightarrow> None | Some k \<Rightarrow> if mk_user_id k = v then Some (mk_message_id k) else None)"
proof (cases "find (\<lambda>k. mk_bot_id k = c \<and> mk_user_id k = v) (bd_markers db)")
  case None
  then have "mk_user_id k \<noteq> v" if "find (\<lambda>k. mk_bot_id k = c) (bd_markers db) = Some k" for k
    using find_Some_in [OF that] by (auto simp: find_None_iff)
  then show ?thesis using None by (simp add: marker_for_def split: option.split)
next
  case (Some k)
  then have "k \<in> set (bd_markers db)" "mk_bot_id k = c" "mk_user_id k = v" by (auto dest: find_Some_in)
  then show ?thesis using Some markers_find [OF ok, of k] by (simp add: marker_for_def)
qed

lemma mark_read_moves:
  assumes ok: "bots_ok db"
  shows "fst (mark_read now u b i db) \<longleftrightarrow>
      has_message u b i db \<and> (case marker_for u b db of None \<Rightarrow> True | Some j \<Rightarrow> i > j)"
proof (cases "has_message u b i db")
  case True
  then have owner: "list_ex (\<lambda>r. br_id r = b \<and> br_user r = u) (bd_bots db)" by (rule has_message_owner [OF ok])
  have "mk_user_id k = u" if "find (\<lambda>k. mk_bot_id k = b) (bd_markers db) = Some k" for k
    using marker_user [OF ok, of k u i] find_Some_in [OF that] True by simp
  then show ?thesis
    using True owner by (auto simp: mark_read_def has_message_row marker_for_row [OF ok] split: option.split)
next
  case False
  then show ?thesis by (auto simp: mark_read_def has_message_row)
qed

lemma mark_read_marker:
  assumes ok: "bots_ok db"
  shows "marker_for v c (snd (mark_read now u b i db)) =
      (if fst (mark_read now u b i db) \<and> c = b \<and> v = u then Some i else marker_for v c db)"
proof -
  let ?db' = "snd (mark_read now u b i db)"
  show ?thesis
  proof (cases "fst (mark_read now u b i db)")
    case False
    then have "?db' = db" by (auto simp: mark_read_def split: if_splits option.splits)
    then show ?thesis using False by simp
  next
    case True
    show ?thesis
    proof (cases "find (\<lambda>k. mk_bot_id k = b) (bd_markers db)")
      case None
      have db': "bd_markers ?db' = bd_markers db @ [\<lparr>mk_bot_id = b, mk_user_id = u, mk_message_id = i, mk_updated_at = now\<rparr>]"
        using True None by (auto simp: mark_read_def split: if_splits)
      show ?thesis
        using None True
        unfolding marker_for_row [OF bots_ok_mark_read [OF ok]] marker_for_row [OF ok] db'
        by (auto simp: find_append split: option.split)
    next
      case (Some k)
      then have k: "mk_bot_id k = b" by (auto dest: find_Some_in)
      have db': "bd_markers ?db' = update_where (\<lambda>k. mk_bot_id k = b) (\<lambda>k. k\<lparr>mk_message_id := i, mk_updated_at := now\<rparr>) (bd_markers db)"
        and u: "mk_user_id k = u"
        using True Some by (auto simp: mark_read_def split: if_splits)
      have "find (\<lambda>k. mk_bot_id k = c) (bd_markers ?db') = map_option
          (\<lambda>k. if mk_bot_id k = b then k\<lparr>mk_message_id := i, mk_updated_at := now\<rparr> else k) (find (\<lambda>k. mk_bot_id k = c) (bd_markers db))"
        unfolding db' by (rule find_update_where_key) simp
      then show ?thesis
        using Some True k u
        unfolding marker_for_row [OF bots_ok_mark_read [OF ok]] marker_for_row [OF ok]
        by (cases "c = b") (auto split: option.split dest: find_Some_in)
    qed
  qed
qed

text \<open>Nothing else moves a marker.\<close>

lemma markers_kept [simp]:
  "marker_for v c (db\<lparr>bd_bots := x\<rparr>) = marker_for v c db" "marker_for v c (db\<lparr>bd_threads := y\<rparr>) = marker_for v c db"
  "marker_for v c (db\<lparr>bd_messages := z\<rparr>) = marker_for v c db"
  by (simp_all add: marker_for_def)

lemma markers_kept_do:
  assumes "\<And>now u b i. opr \<noteq> MarkRead now u b i"
  shows "marker_for v c (bots_do opr db) = marker_for v c db"
proof (cases opr)
  case (SetThread u b t n g)
  then show ?thesis by (auto simp: set_thread_def record_thread_def)
next
  case (UpdateBot now u b ch)
  then show ?thesis
    using update_bot_Inr [of now u b ch db]
    by (cases "update_bot now u b ch db") (auto simp: db_after_def elim: update_bot_Inr)
qed (use assms in \<open>auto simp: db_after_def create_bot_def replace_thread_def record_thread_def clear_carryover_def
    set_grants_def update_bot_row_def set_profile_sent_def set_refused_def insert_message_def append_text_def
    finish_message_def and_then_Inr Let_def split: sum.split option.splits if_splits\<close>)

definition not_after :: "message_id option \<Rightarrow> message_id option \<Rightarrow> bool" where
  "not_after a c \<longleftrightarrow> (case a of None \<Rightarrow> True | Some i \<Rightarrow> (case c of None \<Rightarrow> False | Some j \<Rightarrow> i \<le> j))"

lemma not_after_simps [simp]: "not_after a a" "not_after None c"
  by (simp_all add: not_after_def split: option.split)

lemma not_after_trans: "not_after a c \<Longrightarrow> not_after c d \<Longrightarrow> not_after a d"
  by (auto simp: not_after_def split: option.splits)

lemma marker_do:
  assumes ok: "bots_ok db"
  shows "not_after (marker_for v c db) (marker_for v c (bots_do opr db))"
proof (cases "\<exists>now u b i. opr = MarkRead now u b i")
  case True
  then obtain now u b i where "opr = MarkRead now u b i" by blast
  then show ?thesis
    using mark_read_moves [OF ok, of now u b i] mark_read_marker [OF ok, of v c now u b i]
    by (auto simp: not_after_def split: option.splits)
next
  case False
  then have "marker_for v c (bots_do opr db) = marker_for v c db" by (intro markers_kept_do) blast
  then show ?thesis by simp
qed

lemma marker_run: "bots_ok db \<Longrightarrow> not_after (marker_for v c db) (marker_for v c (fold bots_do ops db))"
proof (induction ops arbitrary: db)
  case (Cons a ops)
  show ?case
    using not_after_trans [OF marker_do [OF Cons.prems] Cons.IH [OF bots_ok_do [OF Cons.prems]]] by simp
qed simp

section \<open>Threads\<close>

lemma thread_bot_record: "thread_bot v s db = Some c \<Longrightarrow> thread_bot v s (record_thread u t b db) = Some c"
  by (auto simp: thread_bot_def record_thread_def find_append split: option.splits)

lemma thread_bot_kept [simp]:
  "thread_bot v c (db\<lparr>bd_bots := x\<rparr>) = thread_bot v c db" "thread_bot v c (db\<lparr>bd_markers := y\<rparr>) = thread_bot v c db"
  "thread_bot v c (db\<lparr>bd_messages := z\<rparr>) = thread_bot v c db"
  by (simp_all add: thread_bot_def)

lemma thread_bot_do: "thread_bot v s db = Some c \<Longrightarrow> thread_bot v s (bots_do opr db) = Some c"
proof (cases opr)
  case (UpdateBot now u b ch)
  assume "thread_bot v s db = Some c"
  then show ?thesis using UpdateBot
    by (cases "update_bot now u b ch db") (auto simp: db_after_def elim: update_bot_Inr)
qed (auto simp: db_after_def create_bot_def set_thread_def replace_thread_def clear_carryover_def
    set_grants_def update_bot_row_def set_profile_sent_def set_refused_def insert_message_def append_text_def
    finish_message_def mark_read_def and_then_Inr Let_def intro!: thread_bot_record split: sum.split option.splits if_splits)

lemma thread_bot_run: "thread_bot v s db = Some c \<Longrightarrow> thread_bot v s (fold bots_do ops db) = Some c"
  by (induction ops arbitrary: db) (simp_all add: thread_bot_do)

section \<open>Properties\<close>

text \<open>C38: the tables stay consistent whatever operations run in whatever order: ids ascend, a
  user's Bots have different names whatever their case, no two Bots have the same thread, each
  thread is recorded, each message is of a Bot of its user and has values in its columns that
  read back, and each read marker is the only one of its Bot and names one of its messages.\<close>

theorem bot_tables_stay_consistent: "bots_ok (bots_after ops)"
  by (rule bots_ok_after)

text \<open>C37: reading a conversation back page by page ends, and gives each of its messages once,
  oldest first, whatever the size asked for.\<close>

theorem pages_cover_the_conversation:
  assumes "db = bots_after ops" and "length (conversation_of u b db) < fuel"
  shows "read_back fuel u b None limit db = Some (conversation_of u b db)"
  using read_back_rows [OF bots_ok_after, of u b None ops fuel limit] assms
  by (simp add: conversation_of_def)

definition example_bot_ops :: "bots_op list" where
  "example_bot_ops = [CreateBot 5 1 None (lit ''Ada'') [] [] None,
     InsertMessage 6 1 \<lparr>nm_bot = 1, nm_author = AuthorUser, nm_text = lit ''hi'', nm_state = Complete, nm_turn = None,
       nm_kind = TextMessage, nm_routine = None, nm_notification = None\<rparr>,
     InsertMessage 7 1 \<lparr>nm_bot = 1, nm_author = AuthorBot, nm_text = lit ''hello'', nm_state = Complete,
       nm_turn = Some (lit ''t'', lit ''i''), nm_kind = TextMessage, nm_routine = None, nm_notification = None\<rparr>]"

definition example_bots :: bots_db where
  "example_bots = bots_after example_bot_ops"

lemmas example_bots_eval = example_bots_def bots_after_def example_bot_ops_def empty_bots_def db_after_def create_bot_def check_name_def
  check_label_def check_description_def check_text_def one_line_def trim_def trim_start_def trim_end_def is_white_def
  is_control_def name_taken_def next_rowid_def insert_message_def find_bot_def new_message_row_def Let_def
  to_ascii_lowercase_def

lemma example_bots_tables:
  "map br_id (bd_bots example_bots) = [1]" "map br_user (bd_bots example_bots) = [1]"
  "map ms_id (bd_messages example_bots) = [1, 2]" "bd_markers example_bots = []"
  "map ms_author (bd_messages example_bots) = [lit ''user'', lit ''bot'']"
  "map ms_bot_id (bd_messages example_bots) = [1, 1]" "map ms_user_id (bd_messages example_bots) = [1, 1]"
  by (simp_all add: example_bots_eval)

theorem pages_cover_the_conversation_witness:
  "read_back 3 1 1 None 1 example_bots = Some (conversation_of 1 1 example_bots)
    \<and> map m_id (conversation_of 1 1 example_bots) = [1, 2]"
proof -
  have ids: "map m_id (conversation_of 1 1 example_bots) = [1, 2]"
    by (simp add: conversation_of_def conversation_rows_def example_bots_eval)
  then have "length (conversation_of 1 1 example_bots) < 3" by (metis One_nat_def add_2_eq_Suc' length_Cons length_map less_add_same_cancel1 list.size(3) numeral_3_eq_3 lessI)
  then show ?thesis using ids pages_cover_the_conversation [OF example_bots_def, of 1 1 3 1] by simp
qed

text \<open>C36: the gateway's unread flags, which its queries compute from the newest message of the Bot's
  own and the read marker, say just what the client computes message by message: a Bot is
  unread when some message of its conversation is. The Bot list, the read state and the
  badge's count agree.\<close>

theorem unread_flags_agree:
  assumes db: "db = bots_after ops" and r: "find_bot u b db = Some r"
  shows "read_state_of u b db = Some \<lparr>rs_bot_id = b, rs_read_up_to = marker_of r db,
      rs_unread = (\<exists>m \<in> set (conversation_of u b db). is_unread m (marker_of r db))\<rparr>
    \<and> map_option (\<lambda>a. (av_read_up_to a, av_unread a)) (activity_map u None db b)
      = map_option (\<lambda>s. (rs_read_up_to s, rs_unread s)) (read_state_of u b db)
    \<and> unread_bots u db = min (length (filter (\<lambda>r. case read_state_of u (br_id r) db of None \<Rightarrow> False | Some s \<Rightarrow> rs_unread s)
        (filter (\<lambda>r. br_user r = u) (bd_bots db)))) (2 ^ 32 - 1)"
proof -
  have ok: "bots_ok db" unfolding db by (rule bots_ok_after)
  have r': "r \<in> set (bd_bots db)" "br_id r = b" "br_user r = u" using find_bot_Some [OF r] by simp_all
  have "read_state_of u b db = Some \<lparr>rs_bot_id = b, rs_read_up_to = marker_of r db,
      rs_unread = (\<exists>m \<in> set (conversation_of u b db). is_unread m (marker_of r db))\<rparr>"
    using unread_conversation [OF ok r'(1)] r r' by (simp add: read_state_of_def)
  moreover have "map_option (\<lambda>a. (av_read_up_to a, av_unread a)) (activity_map u None db b)
      = map_option (\<lambda>s. (rs_read_up_to s, rs_unread s)) (read_state_of u b db)"
    using activity_map_row [OF ok r'(1)] r r' by (simp add: read_state_of_def bot_activity_of_def)
  moreover
  have "(case read_state_of u (br_id s) db of None \<Rightarrow> False | Some s \<Rightarrow> rs_unread s)
      = newest_unread (newest_own (br_id s) db) (marker_of s db)"
    if "s \<in> set (filter (\<lambda>r. br_user r = u) (bd_bots db))" for s
    using find_bot_ok [OF ok, of s] that by (auto simp: read_state_of_def)
  then have "filter (\<lambda>r. newest_unread (newest_own (br_id r) db) (marker_of r db)) (filter (\<lambda>r. br_user r = u) (bd_bots db))
      = filter (\<lambda>r. case read_state_of u (br_id r) db of None \<Rightarrow> False | Some s \<Rightarrow> rs_unread s)
        (filter (\<lambda>r. br_user r = u) (bd_bots db))"
    by (intro filter_cong refl) simp
  then have "unread_bots u db = min (length (filter (\<lambda>r. case read_state_of u (br_id r) db of None \<Rightarrow> False | Some s \<Rightarrow> rs_unread s)
        (filter (\<lambda>r. br_user r = u) (bd_bots db)))) (2 ^ 32 - 1)"
    by (simp only: unread_bots_def unread_count_def filter_map comp_def length_map)
  ultimately show ?thesis by blast
qed

theorem unread_flags_agree_witness:
  "map_option rs_unread (read_state_of 1 1 example_bots) = Some True \<and> unread_bots 1 example_bots = 1"
proof -
  obtain r where r: "find_bot 1 1 example_bots = Some r" "marker_of r example_bots = None" "br_id r = 1" "br_user r = 1"
    by (simp add: marker_of_def example_bots_tables) (simp add: example_bots_eval)
  have "\<exists>m \<in> set (conversation_of 1 1 example_bots). is_unread m None"
    by (simp add: conversation_of_def conversation_rows_def example_bots_eval message_from_def is_unread_def author_from_def)
  then have read: "read_state_of 1 1 example_bots = Some \<lparr>rs_bot_id = 1, rs_read_up_to = None, rs_unread = True\<rparr>"
    using unread_flags_agree [OF example_bots_def r(1), THEN conjunct1] r(2) by simp
  have "map br_id (filter (\<lambda>r. br_user r = 1) (bd_bots example_bots)) = [1]" by (simp add: example_bots_eval)
  then obtain s where "filter (\<lambda>r. br_user r = 1) (bd_bots example_bots) = [s]" "br_id s = 1"
    by (auto simp only: map_eq_Cons_conv list.map_disc_iff)
  then show ?thesis
    using read unread_flags_agree [OF example_bots_def r(1), THEN conjunct2, THEN conjunct2] by simp
qed

text \<open>Read markers only move forward, whatever runs; a mark is taken exactly when it names a
  message of the user's conversation with that Bot that is newer than the marker; then the
  marker is that message, and no other marker moves.\<close>

lemma read_markers_move_forward:
  "not_after (marker_for v c (bots_after ops)) (marker_for v c (bots_after (ops @ more_ops)))
    \<and> fst (mark_read now u b i (bots_after ops)) = (has_message u b i (bots_after ops)
      \<and> (case marker_for u b (bots_after ops) of None \<Rightarrow> True | Some j \<Rightarrow> i > j))
    \<and> marker_for v c (snd (mark_read now u b i (bots_after ops))) =
      (if fst (mark_read now u b i (bots_after ops)) \<and> c = b \<and> v = u then Some i else marker_for v c (bots_after ops))"
  using marker_run [OF bots_ok_after, of v c ops more_ops] mark_read_moves [OF bots_ok_after, of now u b i ops]
    mark_read_marker [OF bots_ok_after, of v c now u b i ops]
  by (simp_all add: bots_after_def)

end
