(* ===== verification/Schedule.thy ===== *)
theory Schedule
  imports Failures "HOL-Library.Product_Lexorder"
begin

text \<open>
  \<open>crates/bokkie-gateway/src/routines/schedule.rs\<close>: when a routine's schedule falls due in its
  owner's time zone. The time-zone library (jiff) is a parameter: a zone is the record of the
  calls the code makes of it. A civil date is its day number; dates have a first and a last.
\<close>

section \<open>Time zones\<close>

definition MAX_ZONE_CHARS :: nat where
  "MAX_ZONE_CHARS = 64"

text \<open>What \<open>to_ambiguous_timestamp(dt).offset()\<close> gives.\<close>

datatype ambiguous_offset =
    Unambiguous int
  | Fold int int
  | Gap int int

text \<open>
  \<open>tz_ambiguous date minutes\<close>; \<open>tz_instant offset date minutes\<close> is \<open>offset.to_timestamp(dt)\<close>
  in milliseconds; \<open>tz_following\<close> the next transition; \<open>tz_date\<close>, \<open>tz_clock\<close> and \<open>tz_describe\<close>
  read an instant in the zone (\<open>None\<close> out of range).
\<close>

record tz =
  tz_iana :: "utext option"
  tz_ambiguous :: "int \<Rightarrow> nat \<Rightarrow> ambiguous_offset"
  tz_instant :: "int \<Rightarrow> int \<Rightarrow> nat \<Rightarrow> int option"
  tz_following :: "int \<Rightarrow> int option"
  tz_date :: "int \<Rightarrow> int option"
  tz_clock :: "int \<Rightarrow> (nat \<times> nat) option"
  tz_describe :: "int \<Rightarrow> utext option"
  tz_weekday :: "int \<Rightarrow> weekday"
  tz_first_date :: int
  tz_last_date :: int

definition zone_named :: "(utext \<Rightarrow> tz option) \<Rightarrow> utext \<Rightarrow> tz option" where
  "zone_named db name = (if name = [] \<or> byte_len name > MAX_ZONE_CHARS then None else db name)"

definition check_time_zone :: "(utext \<Rightarrow> tz option) \<Rightarrow> utext \<Rightarrow> failure + utext" where
  "check_time_zone db given =
     (let name = trim given in
      case zone_named db name of
        None \<Rightarrow> Inl (invalid (lit ''A time zone is an IANA name such as \"Australia/Adelaide\"''))
      | Some z \<Rightarrow> Inr (case tz_iana z of None \<Rightarrow> name | Some n \<Rightarrow> n))"

definition stored_zone :: "(utext \<Rightarrow> tz option) \<Rightarrow> tz \<Rightarrow> utext \<Rightarrow> tz" where
  "stored_zone db utc name =
     (case zone_named db name of
        Some z \<Rightarrow> z
      | None \<Rightarrow> (case zone_named db DEFAULT_TIME_ZONE of Some z \<Rightarrow> z | None \<Rightarrow> utc))"

section \<open>Schedules\<close>

fun check_schedule :: "schedule \<Rightarrow> failure + unit" where
  "check_schedule (Daily t) = Inr ()"
| "check_schedule (Weekdays t) = Inr ()"
| "check_schedule (Days days t) =
     (if days = [] then Inl (invalid (lit ''Choose at least one day''))
      else if \<not> distinct days then Inl (invalid (lit ''Each day is chosen once''))
      else Inr ())"
| "check_schedule (Hours every t) =
     (if every \<in> set EVERY_HOURS then Inr ()
      else Inl (invalid (lit ''A routine repeats every 1, 2, 3, 4, 6, 8 or 12 hours'')))"

fun runs_on :: "schedule \<Rightarrow> weekday \<Rightarrow> bool" where
  "runs_on (Daily t) day = True"
| "runs_on (Hours every t) day = True"
| "runs_on (Weekdays t) day = (day \<noteq> Sat \<and> day \<noteq> Sun)"
| "runs_on (Days days t) day = (day \<in> set days)"

definition minutes_of :: "time_of_day \<Rightarrow> nat" where
  "minutes_of t = hour t * 60 + minute t"

text \<open>\<open>(0..).map(...).take_while(...)\<close> for the hours.\<close>

function times_from :: "nat \<Rightarrow> nat \<Rightarrow> nat list" where
  "times_from step m = (if m < 24 * 60 \<and> step > 0 then m # times_from step (m + step) else [])"
  by pat_completeness auto
termination by (relation "measure (\<lambda>(step, m). 24 * 60 - m)") auto

declare times_from.simps [simp del]

fun schedule_times :: "schedule \<Rightarrow> nat list" where
  "schedule_times (Daily t) = [minutes_of t]"
| "schedule_times (Weekdays t) = [minutes_of t]"
| "schedule_times (Days days t) = [minutes_of t]"
| "schedule_times (Hours every t) =
     (let step = max every 1 * 60 in times_from step (minutes_of t mod step))"

section \<open>Occurrences\<close>

record candidate =
  cn_at :: int
  cn_moved :: bool

definition resolve :: "tz \<Rightarrow> int \<Rightarrow> nat \<Rightarrow> candidate option" where
  "resolve z date minutes =
     (case tz_ambiguous z date minutes of
        Unambiguous off \<Rightarrow> map_option (\<lambda>t. \<lparr>cn_at = t, cn_moved = False\<rparr>) (tz_instant z off date minutes)
      | Fold before after \<Rightarrow> map_option (\<lambda>t. \<lparr>cn_at = t, cn_moved = False\<rparr>) (tz_instant z before date minutes)
      | Gap before after \<Rightarrow>
          (case tz_instant z after date minutes of
             None \<Rightarrow> None
           | Some before_gap \<Rightarrow> map_option (\<lambda>t. \<lparr>cn_at = t, cn_moved = True\<rparr>) (tz_following z before_gap)))"

text \<open>The candidates of the dates \<open>from\<close> to \<open>to\<close>, date by date; \<open>tomorrow\<close> fails on the last date.\<close>

function candidates_on :: "schedule \<Rightarrow> tz \<Rightarrow> int \<Rightarrow> int \<Rightarrow> candidate list" where
  "candidates_on s z date to =
     (if date \<le> to then
        (if runs_on s (tz_weekday z date) then List.map_filter (resolve z date) (schedule_times s) else [])
        @ (if date < tz_last_date z then candidates_on s z (date + 1) to else [])
      else [])"
  by pat_completeness auto
termination by (relation "measure (\<lambda>(s, z, date, to). nat (to + 1 - date))") auto

declare candidates_on.simps [simp del]

text \<open>\<open>dedup_by_key\<close>: of neighbours with the same key, the first stays.\<close>

fun dedup_by :: "('a \<Rightarrow> 'k) \<Rightarrow> 'a list \<Rightarrow> 'a list" where
  "dedup_by f [] = []"
| "dedup_by f [x] = [x]"
| "dedup_by f (x # y # ys) = (if f x = f y then dedup_by f (x # ys) else x # dedup_by f (y # ys))"

text \<open>Whether another candidate is within an hour of the one at \<open>i\<close>.\<close>

definition crowded :: "candidate list \<Rightarrow> nat \<Rightarrow> bool" where
  "crowded cs i \<longleftrightarrow>
     list_ex (\<lambda>j. j \<noteq> i \<and> \<bar>cn_at (cs ! j) - cn_at (cs ! i)\<bar> < HOUR_MS) [0..<length cs]"

definition sorted_candidates :: "schedule \<Rightarrow> tz \<Rightarrow> int \<Rightarrow> int \<Rightarrow> candidate list" where
  "sorted_candidates s z from to =
     dedup_by cn_at (sort_key (\<lambda>c. (cn_at c, cn_moved c)) (candidates_on s z from to))"

definition occurrences :: "schedule \<Rightarrow> tz \<Rightarrow> int \<Rightarrow> int \<Rightarrow> int list" where
  "occurrences s z from to =
     (let cs = sorted_candidates s z from to
      in map (\<lambda>i. cn_at (cs ! i)) (filter (\<lambda>i. \<not> cn_moved (cs ! i) \<or> \<not> crowded cs i) [0..<length cs]))"

definition shift_date :: "tz \<Rightarrow> int \<Rightarrow> int \<Rightarrow> int" where
  "shift_date z date days =
     (if tz_first_date z \<le> date + days \<and> date + days \<le> tz_last_date z then date + days else date)"

definition around :: "tz \<Rightarrow> int \<Rightarrow> int \<Rightarrow> int \<Rightarrow> int \<times> int" where
  "around z date before after = (shift_date z date (- before), shift_date z date after)"

definition next_after :: "schedule \<Rightarrow> tz \<Rightarrow> timestamp \<Rightarrow> timestamp option" where
  "next_after s z after =
     (case tz_date z after of
        None \<Rightarrow> None
      | Some today \<Rightarrow>
          (let (from, to) = around z today 1 8 in find (\<lambda>t. t > after) (occurrences s z from to)))"

definition latest_at_or_before :: "schedule \<Rightarrow> tz \<Rightarrow> timestamp \<Rightarrow> timestamp option" where
  "latest_at_or_before s z now =
     (case tz_date z now of
        None \<Rightarrow> None
      | Some today \<Rightarrow>
          (let (from, to) = around z today 8 1 in find (\<lambda>t. t \<le> now) (rev (occurrences s z from to))))"

section \<open>How a time reads\<close>

definition local_time :: "tz \<Rightarrow> timestamp \<Rightarrow> utext" where
  "local_time z at = (case tz_clock z at of None \<Rightarrow> [] | Some (h, m) \<Rightarrow> decimal h @ 58 # pad2 m)"

definition local_description :: "tz \<Rightarrow> timestamp \<Rightarrow> utext" where
  "local_description z at =
     (case tz_describe z at of
        None \<Rightarrow> []
      | Some text \<Rightarrow> text @ lit '' ('' @ (case tz_iana z of None \<Rightarrow> lit ''UTC'' | Some n \<Rightarrow> n) @ lit '')'')"

section \<open>Which times are occurrences\<close>

lemma dedup_by_keys: "f ` set (dedup_by f xs) = f ` set xs"
  by (induction f xs rule: dedup_by.induct) auto

lemma dedup_by_subset: "set (dedup_by f xs) \<subseteq> set xs"
  by (induction f xs rule: dedup_by.induct) auto

lemma dedup_by_hd: "xs \<noteq> [] \<Longrightarrow> dedup_by f xs \<noteq> [] \<and> f (hd (dedup_by f xs)) = f (hd xs)"
  by (induction f xs rule: dedup_by.induct) auto

lemma dedup_by_sorted:
  "sorted (map f (xs :: 'a list)) \<Longrightarrow> sorted_wrt (<) (map (f :: 'a \<Rightarrow> 'k::linorder) (dedup_by f xs))"
proof (induction f xs rule: dedup_by.induct)
  case (3 f x y ys)
  show ?case
  proof (cases "f x = f y")
    case True
    then show ?thesis using 3 by simp
  next
    case False
    have "\<forall>k \<in> f ` set (dedup_by f (y # ys)). f x < k"
    proof
      fix k assume "k \<in> f ` set (dedup_by f (y # ys))"
      then have "k \<in> f ` set (y # ys)" by (simp only: dedup_by_keys)
      then have "f y \<le> k" using 3(3) by auto
      then show "f x < k" using 3(3) False by auto
    qed
    then show ?thesis using False 3(2,3) by simp
  qed
qed simp_all

text \<open>Of candidates at the same instant, one that the clock shows comes first and is kept.\<close>

lemma dedup_by_least:
  assumes "sorted (map (\<lambda>c. (f c :: int, g c :: bool)) xs)" and "c \<in> set xs" and "\<not> g c"
  shows "\<exists>d \<in> set (dedup_by f xs). f d = f c \<and> \<not> g d"
  using assms
proof (induction f xs arbitrary: c rule: dedup_by.induct)
  case (3 f x y ys)
  show ?case
  proof (cases "f x = f y")
    case True
    have s: "sorted (map (\<lambda>c. (f c, g c)) (x # ys))" using 3(3) by simp
    show ?thesis
    proof (cases "c = y")
      case True
      then have "\<not> g x" using 3(3,5) \<open>f x = f y\<close> by auto
      then show ?thesis using 3(1) [OF \<open>f x = f y\<close> s, of x] True \<open>f x = f y\<close> by auto
    next
      case False
      then show ?thesis using 3(1) [OF \<open>f x = f y\<close> s, of c] 3(4,5) \<open>f x = f y\<close> by auto
    qed
  next
    case False
    show ?thesis
    proof (cases "c = x")
      case True
      then show ?thesis using False 3(5) by auto
    next
      case ne: False
      have "sorted (map (\<lambda>c. (f c, g c)) (y # ys))" using 3(3) by simp
      then show ?thesis using 3(2) [OF False, of c] ne 3(4,5) False by auto
    qed
  qed
qed auto

lemma sorted_candidates_facts:
  "set (sorted_candidates s z from to) \<subseteq> set (candidates_on s z from to)"
  "cn_at ` set (sorted_candidates s z from to) = cn_at ` set (candidates_on s z from to)"
  "sorted_wrt (<) (map cn_at (sorted_candidates s z from to))"
  "c \<in> set (candidates_on s z from to) \<Longrightarrow> \<not> cn_moved c \<Longrightarrow>
     \<exists>d \<in> set (sorted_candidates s z from to). cn_at d = cn_at c \<and> \<not> cn_moved d"
proof -
  let ?sorted = "sort_key (\<lambda>c. (cn_at c, cn_moved c)) (candidates_on s z from to)"
  have both: "sorted (map (\<lambda>c. (cn_at c, cn_moved c)) ?sorted)" by simp
  have "sorted_wrt (\<lambda>c d. cn_at c \<le> cn_at d) ?sorted"
    by (rule sorted_wrt_mono_rel [OF _ both [unfolded sorted_map]]) auto
  then have at: "sorted (map cn_at ?sorted)" by (simp only: sorted_map)
  show "set (sorted_candidates s z from to) \<subseteq> set (candidates_on s z from to)"
    using dedup_by_subset [of cn_at ?sorted] by (simp add: sorted_candidates_def)
  show "cn_at ` set (sorted_candidates s z from to) = cn_at ` set (candidates_on s z from to)"
    by (simp add: sorted_candidates_def dedup_by_keys)
  show "sorted_wrt (<) (map cn_at (sorted_candidates s z from to))"
    unfolding sorted_candidates_def by (rule dedup_by_sorted [OF at])
  show "c \<in> set (candidates_on s z from to) \<Longrightarrow> \<not> cn_moved c \<Longrightarrow>
     \<exists>d \<in> set (sorted_candidates s z from to). cn_at d = cn_at c \<and> \<not> cn_moved d"
    using dedup_by_least [OF both, of c] by (simp add: sorted_candidates_def)
qed

lemma sorted_at_indices:
  assumes "sorted_wrt (<) (map key cs)"
  shows "sorted_wrt (\<lambda>i j. key (cs ! i) < key (cs ! j)) (filter P [0..<length cs])"
proof (rule sorted_wrt_filter)
  have "sorted_wrt (<) [0..<length cs]" by simp
  then show "sorted_wrt (\<lambda>i j. key (cs ! i) < key (cs ! j)) [0..<length cs]"
    using assms by (auto simp: sorted_wrt_iff_nth_less)
qed

lemma occurrences_sorted: "sorted_wrt (<) (occurrences s z from to)"
  using sorted_at_indices [OF sorted_candidates_facts(3)] by (simp add: occurrences_def Let_def sorted_wrt_map)

lemma occurrences_iff:
  "t \<in> set (occurrences s z from to) \<longleftrightarrow>
     (\<exists>c \<in> set (candidates_on s z from to). cn_at c = t \<and> \<not> cn_moved c)
     \<or> (t \<in> cn_at ` set (candidates_on s z from to)
        \<and> (\<forall>c \<in> set (candidates_on s z from to). cn_at c = t \<or> HOUR_MS \<le> \<bar>cn_at c - t\<bar>))"
  (is "?l \<longleftrightarrow> ?named \<or> ?moved")
proof -
  define cs where "cs = sorted_candidates s z from to"
  have facts: "set cs \<subseteq> set (candidates_on s z from to)" "cn_at ` set cs = cn_at ` set (candidates_on s z from to)"
    "sorted_wrt (<) (map cn_at cs)"
    "\<And>c. c \<in> set (candidates_on s z from to) \<Longrightarrow> \<not> cn_moved c \<Longrightarrow> \<exists>d \<in> set cs. cn_at d = cn_at c \<and> \<not> cn_moved d"
    unfolding cs_def by (rule sorted_candidates_facts; assumption)+
  have ne: "cn_at (cs ! i) \<noteq> cn_at (cs ! j)" if "i \<noteq> j" "i < length cs" "j < length cs" for i j
    using facts(3) that by (metis distinct_map inj_on_eq_iff nth_eq_iff_index_eq nth_mem strict_sorted_iff)
  have l: "?l \<longleftrightarrow> (\<exists>i < length cs. cn_at (cs ! i) = t \<and> (\<not> cn_moved (cs ! i) \<or> \<not> crowded cs i))"
    by (auto simp: occurrences_def Let_def cs_def)
  have uncrowded: "\<not> crowded cs i \<longleftrightarrow> (\<forall>c \<in> set (candidates_on s z from to). cn_at c = t \<or> HOUR_MS \<le> \<bar>cn_at c - t\<bar>)"
    if i: "i < length cs" "cn_at (cs ! i) = t" for i
  proof -
    have "\<not> crowded cs i \<longleftrightarrow> (\<forall>j < length cs. j = i \<or> HOUR_MS \<le> \<bar>cn_at (cs ! j) - t\<bar>)"
      using i(2) by (auto simp: crowded_def list_ex_iff)
    also have "\<dots> \<longleftrightarrow> (\<forall>j < length cs. cn_at (cs ! j) = t \<or> HOUR_MS \<le> \<bar>cn_at (cs ! j) - t\<bar>)"
      using ne i by metis
    also have "\<dots> \<longleftrightarrow> (\<forall>x \<in> cn_at ` set cs. x = t \<or> HOUR_MS \<le> \<bar>x - t\<bar>)"
      by (simp add: all_set_conv_all_nth)
    finally show ?thesis unfolding facts(2) by simp
  qed
  show ?thesis
  proof
    assume ?l
    then obtain i where i: "i < length cs" "cn_at (cs ! i) = t" "\<not> cn_moved (cs ! i) \<or> \<not> crowded cs i"
      unfolding l by blast
    have mem: "cs ! i \<in> set (candidates_on s z from to)" using i(1) facts(1) nth_mem by blast
    show "?named \<or> ?moved" using i mem uncrowded [OF i(1,2)] by blast
  next
    assume "?named \<or> ?moved"
    then show ?l
    proof
      assume ?named
      then obtain d where "d \<in> set cs" "cn_at d = t" "\<not> cn_moved d" using facts(4) by blast
      then show ?l unfolding l by (metis in_set_conv_nth)
    next
      assume moved: ?moved
      then obtain i where "i < length cs" "cn_at (cs ! i) = t" unfolding facts(2) [symmetric]
        by (auto simp: in_set_conv_nth)
      then show ?l using uncrowded moved unfolding l by blast
    qed
  qed
qed

section \<open>The next and the latest\<close>

lemma find_sorted:
  assumes "sorted_wrt (<) (ts :: int list)"
  shows "find (\<lambda>t. t > a) ts = Some t \<longleftrightarrow> t \<in> set ts \<and> a < t \<and> (\<forall>x \<in> set ts. a < x \<longrightarrow> t \<le> x)"
  using assms by (induction ts) (auto intro: order.strict_implies_order)

lemma find_rev_sorted:
  assumes "sorted_wrt (<) (ts :: int list)"
  shows "find (\<lambda>t. t \<le> a) (rev ts) = Some t \<longleftrightarrow> t \<in> set ts \<and> t \<le> a \<and> (\<forall>x \<in> set ts. x \<le> a \<longrightarrow> x \<le> t)"
  using assms by (induction ts rule: rev_induct) (auto simp: sorted_wrt_append intro: order.strict_implies_order)

lemma next_after_iff:
  assumes "tz_date z after = Some today" and "around z today 1 8 = (from, to)"
  shows "next_after s z after = Some t \<longleftrightarrow> t \<in> set (occurrences s z from to) \<and> after < t
    \<and> (\<forall>x \<in> set (occurrences s z from to). after < x \<longrightarrow> t \<le> x)"
  using assms find_sorted [OF occurrences_sorted] by (simp add: next_after_def)

lemma latest_iff:
  assumes "tz_date z now = Some today" and "around z today 8 1 = (from, to)"
  shows "latest_at_or_before s z now = Some t \<longleftrightarrow> t \<in> set (occurrences s z from to) \<and> t \<le> now
    \<and> (\<forall>x \<in> set (occurrences s z from to). x \<le> now \<longrightarrow> x \<le> t)"
  using assms find_rev_sorted [OF occurrences_sorted] by (simp add: latest_at_or_before_def)

lemma next_after_later: "next_after s z after = Some t \<Longrightarrow> after < t"
  by (auto simp: next_after_def split_def Let_def find_Some_iff split: option.splits)

lemma latest_not_later: "latest_at_or_before s z now = Some t \<Longrightarrow> t \<le> now"
  by (auto simp: latest_at_or_before_def split_def Let_def find_Some_iff split: option.splits)

section \<open>The times a schedule names\<close>

lemma candidates_on_named:
  "c \<in> set (candidates_on s z from to) \<Longrightarrow>
   \<exists>d m. from \<le> d \<and> d \<le> to \<and> runs_on s (tz_weekday z d) \<and> m \<in> set (schedule_times s) \<and> resolve z d m = Some c"
proof (induction s z "from" to rule: candidates_on.induct)
  case (1 s z date to)
  from 1(2) consider "date \<le> to" "date < tz_last_date z" "c \<in> set (candidates_on s z (date + 1) to)"
    | "date \<le> to" "runs_on s (tz_weekday z date)" "c \<in> set (List.map_filter (resolve z date) (schedule_times s))"
    by (auto simp: candidates_on.simps [of s z date to] split: if_splits)
  then show ?case
  proof cases
    case 1
    then obtain d m where "date + 1 \<le> d" "d \<le> to" "runs_on s (tz_weekday z d)" "m \<in> set (schedule_times s)" "resolve z d m = Some c"
      using "1.IH" by blast
    then show ?thesis by (intro exI [of _ d] exI [of _ m]) simp
  next
    case 2
    then show ?thesis by (force simp: List.map_filter_def)
  qed
qed

lemma candidates_on_first:
  "date \<le> to \<Longrightarrow> runs_on s (tz_weekday z date) \<Longrightarrow> m \<in> set (schedule_times s) \<Longrightarrow> resolve z date m = Some c \<Longrightarrow>
   c \<in> set (candidates_on s z date to)"
  by (subst candidates_on.simps) (force simp: List.map_filter_def)

lemma times_from_mod: "x \<in> set (times_from step m) \<Longrightarrow> x < 24 * 60 \<and> x mod step = m mod step"
proof (induction step m rule: times_from.induct)
  case (1 step m)
  then show ?case by (subst (asm) (2) times_from.simps) (auto split: if_splits)
qed

text \<open>How far apart the schedule's local times are: a day, or its hours.\<close>

fun schedule_step :: "schedule \<Rightarrow> nat" where
  "schedule_step (Hours every t) = every * 60"
| "schedule_step _ = 24 * 60"

definition valid_time :: "time_of_day \<Rightarrow> bool" where
  "valid_time t \<longleftrightarrow> hour t < 24 \<and> minute t < 60"

fun schedule_at :: "schedule \<Rightarrow> time_of_day" where
  "schedule_at (Daily t) = t"
| "schedule_at (Weekdays t) = t"
| "schedule_at (Days days t) = t"
| "schedule_at (Hours every t) = t"

lemma schedule_times_mod:
  assumes "check_schedule s = Inr ()" and "valid_time (schedule_at s)" and "m \<in> set (schedule_times s)"
  shows "m < 24 * 60 \<and> m mod schedule_step s = minutes_of (schedule_at s) mod schedule_step s"
proof (cases s)
  case (Hours every t)
  then have "every \<ge> 1" using assms(1) by (auto simp: EVERY_HOURS_def split: if_splits)
  then show ?thesis
    using assms(3) Hours times_from_mod [of m "every * 60" "minutes_of t mod (every * 60)"]
    by (simp add: Let_def max_def split: if_splits)
qed (use assms in \<open>auto simp: minutes_of_def valid_time_def\<close>)

lemma schedule_step_divides:
  assumes "check_schedule s = Inr ()"
  shows "schedule_step s dvd 24 * 60" and "60 dvd schedule_step s" and "schedule_step s > 0"
  using assms by (cases s; auto simp: EVERY_HOURS_def split: if_splits)+

definition local_minutes :: "int \<Rightarrow> nat \<Rightarrow> int" where
  "local_minutes d m = d * (24 * 60) + int m"

lemma local_minutes_apart:
  assumes "check_schedule s = Inr ()" and "valid_time (schedule_at s)"
    and "m \<in> set (schedule_times s)" and "m' \<in> set (schedule_times s)"
  shows "60 dvd local_minutes d' m' - local_minutes d m"
    and "(d, m) \<noteq> (d', m') \<Longrightarrow> local_minutes d m \<noteq> local_minutes d' m'"
proof -
  have m: "m < 24 * 60" "m' < 24 * 60" "m mod schedule_step s = m' mod schedule_step s"
    using schedule_times_mod [OF assms(1,2)] assms(3,4) by metis+
  have "int (schedule_step s) dvd int m' - int m"
    using m(3) by (metis mod_eq_dvd_iff of_nat_mod)
  moreover have "int (schedule_step s) dvd 24 * 60"
    using schedule_step_divides(1) [OF assms(1)] by (metis of_nat_dvd_iff of_nat_mult of_nat_numeral)
  moreover have "local_minutes d' m' - local_minutes d m = (d' - d) * (24 * 60) + (int m' - int m)"
    by (simp add: local_minutes_def algebra_simps)
  ultimately have "int (schedule_step s) dvd local_minutes d' m' - local_minutes d m"
    by (simp only: dvd_add dvd_mult)
  moreover have "(60 :: int) dvd int (schedule_step s)"
    using schedule_step_divides(2) [OF assms(1)] by (metis of_nat_dvd_iff of_nat_numeral)
  ultimately show "60 dvd local_minutes d' m' - local_minutes d m" by (rule dvd_trans [rotated])
  show "(d, m) \<noteq> (d', m') \<Longrightarrow> local_minutes d m \<noteq> local_minutes d' m'"
  proof
    assume ne: "(d, m) \<noteq> (d', m')" and eq: "local_minutes d m = local_minutes d' m'"
    have "local_minutes d m div (24 * 60) = d" "local_minutes d' m' div (24 * 60) = d'"
      using m(1,2) by (simp_all add: local_minutes_def)
    then have "d = d'" using eq by simp
    then show False using ne eq by (simp add: local_minutes_def)
  qed
qed

section \<open>Runs are an hour apart\<close>

text \<open>
  A zone whose clock changes are whole hours: instants that its clock shows come in the order
  of their local times, and local times whole hours apart are whole hours apart.
\<close>

definition whole_hours :: "tz \<Rightarrow> bool" where
  "whole_hours z \<longleftrightarrow> (\<forall>d m c d' m' c'. resolve z d m = Some c \<and> \<not> cn_moved c \<and> resolve z d' m' = Some c' \<and> \<not> cn_moved c' \<longrightarrow>
     (local_minutes d m < local_minutes d' m' \<longrightarrow> cn_at c < cn_at c')
     \<and> (60 dvd local_minutes d' m' - local_minutes d m \<longrightarrow> HOUR_MS dvd cn_at c' - cn_at c))"

lemma occurrences_hour_apart:
  assumes z: "whole_hours z" and s: "check_schedule s = Inr ()" "valid_time (schedule_at s)"
    and x: "x \<in> set (occurrences s z from to)" and y: "y \<in> set (occurrences s z from to)" and ne: "x \<noteq> y"
  shows "HOUR_MS \<le> \<bar>x - y\<bar>"
proof -
  let ?C = "set (candidates_on s z from to)"
  have in_C: "x \<in> cn_at ` ?C" "y \<in> cn_at ` ?C" using x y unfolding occurrences_iff by auto
  show ?thesis
  proof (cases "(\<exists>c \<in> ?C. cn_at c = x \<and> \<not> cn_moved c) \<and> (\<exists>c \<in> ?C. cn_at c = y \<and> \<not> cn_moved c)")
    case True
    then obtain c c' where c: "c \<in> ?C" "cn_at c = x" "\<not> cn_moved c" "c' \<in> ?C" "cn_at c' = y" "\<not> cn_moved c'" by blast
    obtain d m where dm: "m \<in> set (schedule_times s)" "resolve z d m = Some c"
      using candidates_on_named [OF c(1)] by blast
    obtain d' m' where dm': "m' \<in> set (schedule_times s)" "resolve z d' m' = Some c'"
      using candidates_on_named [OF c(4)] by blast
    have "60 dvd local_minutes d' m' - local_minutes d m" by (rule local_minutes_apart(1) [OF s dm(1) dm'(1)])
    then have "HOUR_MS dvd y - x" using z dm(2) dm'(2) c unfolding whole_hours_def by blast
    then have "HOUR_MS dvd \<bar>x - y\<bar>" by (metis abs_minus_commute dvd_abs_iff)
    then show ?thesis using ne by (intro zdvd_imp_le) simp_all
  next
    case False
    then have "(\<forall>c \<in> ?C. cn_at c = x \<or> HOUR_MS \<le> \<bar>cn_at c - x\<bar>) \<or> (\<forall>c \<in> ?C. cn_at c = y \<or> HOUR_MS \<le> \<bar>cn_at c - y\<bar>)"
      using x y unfolding occurrences_iff by blast
    then show ?thesis using in_C ne by (auto simp: abs_minus_commute)
  qed
qed

text \<open>UTC, and a zone whose clock goes forward half an hour at 2:00 on the date 0, as Lord Howe's does.\<close>

definition fixed_instant :: "int \<Rightarrow> int \<Rightarrow> nat \<Rightarrow> int option" where
  "fixed_instant off d m = Some (local_minutes d m * 60000 - off * 1000)"

definition example_weekday :: "int \<Rightarrow> weekday" where
  "example_weekday d = WEEKDAY_ALL ! nat (d mod 7)"

definition utc_zone :: tz where
  "utc_zone = \<lparr>tz_iana = Some (lit ''UTC''), tz_ambiguous = (\<lambda>d m. Unambiguous 0), tz_instant = fixed_instant,
     tz_following = (\<lambda>t. None), tz_date = (\<lambda>t. Some (t div DAY_MS)),
     tz_clock = (\<lambda>t. Some (nat (t mod DAY_MS div HOUR_MS), nat (t mod HOUR_MS div MINUTE_MS))),
     tz_describe = (\<lambda>t. None), tz_weekday = example_weekday, tz_first_date = -4371587, tz_last_date = 2932896\<rparr>"

definition half_hour_zone :: tz where
  "half_hour_zone = utc_zone\<lparr>
     tz_ambiguous := (\<lambda>d m. if local_minutes d m < 120 then Unambiguous 37800
       else if local_minutes d m < 150 then Gap 37800 39600 else Unambiguous 39600),
     tz_following := (\<lambda>t. if t < 120 * 60000 - 37800 * 1000 then Some (120 * 60000 - 37800 * 1000) else None),
     tz_date := (\<lambda>t. Some ((t + 39600 * 1000) div DAY_MS))\<rparr>"

section \<open>When the candidates fall\<close>

definition falls_on :: "candidate list \<Rightarrow> timestamp \<Rightarrow> bool" where
  "falls_on cs t \<longleftrightarrow> list_ex (\<lambda>c. cn_at c = t \<and> \<not> cn_moved c) cs
     \<or> (t \<in> cn_at ` set cs \<and> list_all (\<lambda>c. cn_at c = t \<or> HOUR_MS \<le> \<bar>cn_at c - t\<bar>) cs)"

lemma utc_facts:
  "resolve utc_zone d m = Some c \<longleftrightarrow> c = \<lparr>cn_at = local_minutes d m * 60000, cn_moved = False\<rparr>"
  by (auto simp: resolve_def utc_zone_def fixed_instant_def)

text \<open>The runs of a routine are at least an hour apart, in a zone whose clock changes are whole
  hours.\<close>

lemma routine_runs_an_hour_apart:
  assumes "whole_hours z" and "check_schedule s = Inr ()" and "valid_time (schedule_at s)"
    and "x \<in> set (occurrences s z from to)" and "y \<in> set (occurrences s z from to)" and "x \<noteq> y"
  shows "HOUR_MS \<le> \<bar>x - y\<bar>"
  using assms by (rule occurrences_hour_apart)

lemma utc_whole_hours: "whole_hours utc_zone"
proof -
  have "HOUR_MS dvd local_minutes d' m' * 60000 - local_minutes d m * 60000"
    if h: "60 dvd local_minutes d' m' - local_minutes d m" for d m d' m'
  proof -
    have "(60 * 60000 :: int) dvd (local_minutes d' m' - local_minutes d m) * 60000" using h by (rule mult_dvd_mono) simp
    then show ?thesis by (simp add: left_diff_distrib HOUR_MS_def MINUTE_MS_def)
  qed
  then show ?thesis by (simp add: whole_hours_def utc_facts)
qed

lemma named_occurrence:
  assumes "date \<le> to" and "runs_on s (tz_weekday z date)" and "m \<in> set (schedule_times s)"
    and "resolve z date m = Some \<lparr>cn_at = t, cn_moved = False\<rparr>"
  shows "t \<in> set (occurrences s z date to)"
proof -
  have "\<lparr>cn_at = t, cn_moved = False\<rparr> \<in> set (candidates_on s z date to)" by (rule candidates_on_first [OF assms])
  then have "\<exists>c \<in> set (candidates_on s z date to). cn_at c = t \<and> \<not> cn_moved c" by (rule rev_bexI) simp
  then show ?thesis unfolding occurrences_iff by (rule disjI1)
qed

lemma times_from_reaches: "k + 60 * j < 24 * 60 \<Longrightarrow> k + 60 * j \<in> set (times_from 60 k)"
proof (induction j arbitrary: k)
  case 0
  then show ?case by (subst times_from.simps) simp
next
  case (Suc j)
  then have "k + 60 * Suc j \<in> set (times_from 60 (k + 60))" using Suc.IH [of "k + 60"] by (simp add: algebra_simps)
  then show ?case using Suc.prems by (subst times_from.simps) simp
qed

lemma hourly_times: "45 + 60 * j < 24 * 60 \<Longrightarrow> 45 + 60 * j \<in> set (schedule_times (Hours 1 (TimeOfDay 0 45)))"
  using times_from_reaches [of 45 j] by (simp add: minutes_of_def)

lemma routine_runs_an_hour_apart_witness:
  "HOUR_MS \<le> \<bar>(2700000 :: int) - 6300000\<bar> \<and> 2700000 \<in> set (occurrences (Hours 1 (TimeOfDay 0 45)) utc_zone 0 0)"
proof -
  let ?s = "Hours 1 (TimeOfDay 0 45)"
  have at: "2700000 \<in> set (occurrences ?s utc_zone 0 0)" "6300000 \<in> set (occurrences ?s utc_zone 0 0)"
    by (rule named_occurrence [where m = 45], simp, simp, simp add: hourly_times [of 0, simplified], simp add: utc_facts local_minutes_def,
        rule named_occurrence [where m = 105], simp, simp, simp add: hourly_times [of 1, simplified], simp add: utc_facts local_minutes_def)
  have "HOUR_MS \<le> \<bar>(2700000 :: int) - 6300000\<bar>"
    by (rule routine_runs_an_hour_apart [OF utc_whole_hours _ _ at]) (simp_all add: EVERY_HOURS_def valid_time_def)
  then show ?thesis using at by simp
qed

text \<open>Where the clock goes forward half an hour, as on Lord Howe Island, an hourly routine can
  run twice within half an hour: both times are on the clock, so neither is dropped.\<close>

lemma half_hour_change_crowds_runs:
  "\<exists>x y. x \<in> set (occurrences (Hours 1 (TimeOfDay 0 45)) half_hour_zone 0 0)
    \<and> y \<in> set (occurrences (Hours 1 (TimeOfDay 0 45)) half_hour_zone 0 0) \<and> y - x = 30 * MINUTE_MS"
proof (intro exI conjI)
  show "105 * 60000 - 37800 * 1000 \<in> set (occurrences (Hours 1 (TimeOfDay 0 45)) half_hour_zone 0 0)"
    by (rule named_occurrence [where m = 105], simp, simp, simp add: hourly_times [of 1, simplified])
      (simp add: resolve_def half_hour_zone_def utc_zone_def fixed_instant_def local_minutes_def)
  show "165 * 60000 - 39600 * 1000 \<in> set (occurrences (Hours 1 (TimeOfDay 0 45)) half_hour_zone 0 0)"
    by (rule named_occurrence [where m = 165], simp, simp, simp add: hourly_times [of 2, simplified])
      (simp add: resolve_def half_hour_zone_def utc_zone_def fixed_instant_def local_minutes_def)
  show "(165 * 60000 - 39600 * 1000) - (105 * 60000 - 37800 * 1000) = 30 * MINUTE_MS"
    by (simp add: MINUTE_MS_def)
qed

end
