(* ===== verification/ScheduleMeaning.thy ===== *)
theory ScheduleMeaning
  imports Schedule
begin

text \<open>
  What a schedule means, apart from how \<open>schedule.rs\<close> computes it: a clock gives the local time
  of each instant, and a routine is due when the clock shows one of the times the schedule asks
  for, the first time it shows it, or, for a time that a change of the clock skips, at the
  change. The next and the latest run are the ones this meaning gives, over all dates.
\<close>

lemma runs_in_window:
  assumes "tz_date z after = Some today"
  shows "next_after s z after = Some t \<longleftrightarrow>
      (let cs = candidates_on s z (shift_date z today (- 1)) (shift_date z today 8)
       in falls_on cs t \<and> after < t \<and> (\<forall>x. falls_on cs x \<and> after < x \<longrightarrow> t \<le> x))"
    and "latest_at_or_before s z after = Some t \<longleftrightarrow>
      (let cs = candidates_on s z (shift_date z today (- 8)) (shift_date z today 1)
       in falls_on cs t \<and> t \<le> after \<and> (\<forall>x. falls_on cs x \<and> x \<le> after \<longrightarrow> x \<le> t))"
proof -
  have "x \<in> set (occurrences s z from to) \<longleftrightarrow> falls_on (candidates_on s z from to) x" for x "from" to
    unfolding occurrences_iff falls_on_def by (simp add: list_ex_iff list_all_iff)
  note facts = this next_after_iff [OF assms, of "shift_date z today (- 1)" "shift_date z today 8" s t]
    latest_iff [OF assms, of "shift_date z today (- 8)" "shift_date z today 1" s t]
  show "next_after s z after = Some t \<longleftrightarrow>
      (let cs = candidates_on s z (shift_date z today (- 1)) (shift_date z today 8)
       in falls_on cs t \<and> after < t \<and> (\<forall>x. falls_on cs x \<and> after < x \<longrightarrow> t \<le> x))"
    "latest_at_or_before s z after = Some t \<longleftrightarrow>
      (let cs = candidates_on s z (shift_date z today (- 8)) (shift_date z today 1)
       in falls_on cs t \<and> t \<le> after \<and> (\<forall>x. falls_on cs x \<and> x \<le> after \<longrightarrow> x \<le> t))"
    using facts by (simp_all add: around_def Let_def Ball_def imp_conjL)
qed

section \<open>What is asked for\<close>

text \<open>Dates are counted from 1 January 1970, a Thursday; local times in milliseconds from its start.\<close>

definition civil_weekday :: "int \<Rightarrow> weekday" where
  "civil_weekday d = WEEKDAY_ALL ! nat ((d + 3) mod 7)"

definition local_ms :: "int \<Rightarrow> nat \<Rightarrow> int" where
  "local_ms d m = d * DAY_MS + int m * MINUTE_MS"

text \<open>Whether the schedule asks for the minute \<open>m\<close> of the date \<open>d\<close>.\<close>

fun asks :: "schedule \<Rightarrow> int \<Rightarrow> nat \<Rightarrow> bool" where
  "asks (Daily t) d m \<longleftrightarrow> m = hour t * 60 + minute t"
| "asks (Weekdays t) d m \<longleftrightarrow> civil_weekday d \<in> {Mon, Tue, Wed, Thu, Fri} \<and> m = hour t * 60 + minute t"
| "asks (Days days t) d m \<longleftrightarrow> civil_weekday d \<in> set days \<and> m = hour t * 60 + minute t"
| "asks (Hours every t) d m \<longleftrightarrow> m < 24 * 60 \<and> m mod (every * 60) = (hour t * 60 + minute t) mod (every * 60)"

text \<open>The clock shows the local time \<open>L\<close> first at \<open>t\<close>; or it never does, and passes over it at \<open>t\<close>.\<close>

definition shows_first :: "(int \<Rightarrow> int) \<Rightarrow> int \<Rightarrow> int \<Rightarrow> bool" where
  "shows_first clock L t \<longleftrightarrow> clock t = L \<and> (\<forall>x. clock x = L \<longrightarrow> t \<le> x)"

definition skips_at :: "(int \<Rightarrow> int) \<Rightarrow> int \<Rightarrow> int \<Rightarrow> bool" where
  "skips_at clock L t \<longleftrightarrow> (\<forall>x. clock x \<noteq> L) \<and> clock (t - 1) < L \<and> L < clock t"

definition falls :: "(int \<Rightarrow> int) \<Rightarrow> int \<Rightarrow> bool \<Rightarrow> int \<Rightarrow> bool" where
  "falls clock L moved t \<longleftrightarrow> (if moved then skips_at clock L t else shows_first clock L t)"

definition asked_at :: "int set \<Rightarrow> schedule \<Rightarrow> (int \<Rightarrow> int) \<Rightarrow> bool \<Rightarrow> int \<Rightarrow> bool" where
  "asked_at dates s clock moved t \<longleftrightarrow> (\<exists>d \<in> dates. \<exists>m. asks s d m \<and> falls clock (local_ms d m) moved t)"

text \<open>A skipped time falls away when another of the schedule's times is within an hour of the change.\<close>

definition due_on :: "int set \<Rightarrow> schedule \<Rightarrow> (int \<Rightarrow> int) \<Rightarrow> int \<Rightarrow> bool" where
  "due_on dates s clock t \<longleftrightarrow> asked_at dates s clock False t
     \<or> (asked_at dates s clock True t \<and> (\<forall>moved x. asked_at dates s clock moved x \<longrightarrow> x = t \<or> HOUR_MS \<le> \<bar>x - t\<bar>))"

abbreviation due :: "schedule \<Rightarrow> (int \<Rightarrow> int) \<Rightarrow> int \<Rightarrow> bool" where
  "due \<equiv> due_on UNIV"

section \<open>Zones and their clocks\<close>

text \<open>
  What jiff documents of its calls, for the zone of a clock: an unambiguous local time is shown
  once; one in a fold twice, the first time at the offset before the change; one in a gap
  never, and the change that skips it follows the instant read with the offset after it.
\<close>

definition reads_clock :: "(int \<Rightarrow> int) \<Rightarrow> tz \<Rightarrow> int \<Rightarrow> nat \<Rightarrow> bool" where
  "reads_clock clock z d m \<longleftrightarrow>
     (case tz_ambiguous z d m of
        Unambiguous off \<Rightarrow> \<exists>t. tz_instant z off d m = Some t \<and> (\<forall>x. clock x = local_ms d m \<longleftrightarrow> x = t)
      | Fold before after \<Rightarrow> \<exists>t t'. tz_instant z before d m = Some t \<and> tz_instant z after d m = Some t' \<and> t < t'
          \<and> (\<forall>x. clock x = local_ms d m \<longleftrightarrow> x = t \<or> x = t')
      | Gap before after \<Rightarrow> (\<forall>x. clock x \<noteq> local_ms d m)
          \<and> (\<exists>t c. tz_instant z after d m = Some t \<and> tz_following z t = Some c
              \<and> (\<forall>x. clock (x - 1) < local_ms d m \<and> local_ms d m < clock x \<longleftrightarrow> x = c)))"

definition zone_of_clock :: "(int \<Rightarrow> int) \<Rightarrow> tz \<Rightarrow> int set \<Rightarrow> bool" where
  "zone_of_clock clock z dates \<longleftrightarrow> (\<forall>d \<in> dates. tz_weekday z d = civil_weekday d \<and> (\<forall>m < 24 * 60. reads_clock clock z d m))"

text \<open>The offset stays within six hours, and no two changes that skip times are within an hour.\<close>

definition steady_offset :: "(int \<Rightarrow> int) \<Rightarrow> bool" where
  "steady_offset clock \<longleftrightarrow> (\<forall>x y. \<bar>(clock y - y) - (clock x - x)\<bar> \<le> 6 * HOUR_MS)"

definition changes_apart :: "(int \<Rightarrow> int) \<Rightarrow> bool" where
  "changes_apart clock \<longleftrightarrow> (\<forall>L L' x y. skips_at clock L x \<and> skips_at clock L' y \<longrightarrow> x = y \<or> HOUR_MS \<le> \<bar>x - y\<bar>)"

section \<open>The candidates are the times asked for\<close>

lemma times_from_iff:
  "0 < step \<Longrightarrow> x \<in> set (times_from step m) \<longleftrightarrow> x < 24 * 60 \<and> m \<le> x \<and> x mod step = m mod step"
proof (induction step m rule: times_from.induct)
  case (1 step m)
  show ?case
  proof (cases "m < 24 * 60")
    case True
    have later: "m + step \<le> x" if "m \<le> x" "x mod step = m mod step" "x \<noteq> m"
    proof -
      have "step dvd x - m" using that(1,2) by (simp add: mod_eq_dvd_iff_nat)
      then have "step \<le> x - m" using that(1,3) by (intro dvd_imp_le) auto
      then show ?thesis using that(1) by simp
    qed
    have "x \<in> set (times_from step (m + step)) \<longleftrightarrow> x < 24 * 60 \<and> m + step \<le> x \<and> x mod step = m mod step"
      using 1 True by simp
    then show ?thesis using True 1(2) later by (subst times_from.simps) auto
  qed (subst times_from.simps, auto)
qed

lemma asks_iff:
  assumes "check_schedule s = Inr ()" and "valid_time (schedule_at s)"
  shows "runs_on s (civil_weekday d) \<and> m \<in> set (schedule_times s) \<longleftrightarrow> asks s d m" "asks s d m \<Longrightarrow> m < 24 * 60"
proof -
  have week: "w \<in> {Mon, Tue, Wed, Thu, Fri} \<longleftrightarrow> w \<noteq> Sat \<and> w \<noteq> Sun" for w by (cases w) simp_all
  show "runs_on s (civil_weekday d) \<and> m \<in> set (schedule_times s) \<longleftrightarrow> asks s d m"
  proof (cases s)
    case (Hours every t)
    then have "every \<ge> 1" using assms(1) by (auto simp: EVERY_HOURS_def split: if_splits)
    moreover have "x mod n \<le> m" if "m mod n = x mod n" for x n :: nat using that by (metis mod_less_eq_dividend)
    ultimately show ?thesis using Hours by (auto simp: Let_def max_def minutes_of_def times_from_iff)
  qed (use week in \<open>auto simp: minutes_of_def\<close>)
  show "m < 24 * 60" if "asks s d m"
    using that assms(2) by (cases s) (auto simp: valid_time_def)
qed

lemma asks_weekly: "asks s d m \<Longrightarrow> asks s (d + 7 * k) m"
proof -
  have "civil_weekday (d + 7 * k) = civil_weekday d"
    unfolding civil_weekday_def by (metis add.assoc add.commute mod_mult_self2)
  then show "asks s d m \<Longrightarrow> asks s (d + 7 * k) m" by (cases s) simp_all
qed

lemma resolve_falls:
  assumes "reads_clock clock z d m"
  shows "resolve z d m = Some c \<longleftrightarrow> falls clock (local_ms d m) (cn_moved c) (cn_at c)"
    and "\<exists>moved t. falls clock (local_ms d m) moved t"
proof -
  show *: "resolve z d m = Some c \<longleftrightarrow> falls clock (local_ms d m) (cn_moved c) (cn_at c)" for c
  proof (cases "tz_ambiguous z d m")
    case (Unambiguous off)
    then obtain t where "tz_instant z off d m = Some t" "\<forall>x. clock x = local_ms d m \<longleftrightarrow> x = t"
      using assms by (auto simp: reads_clock_def)
    then show ?thesis
      using Unambiguous by (cases c) (auto simp: resolve_def falls_def shows_first_def skips_at_def)
  next
    case (Fold before after)
    then obtain t t' where "tz_instant z before d m = Some t" "t < t'" "\<forall>x. clock x = local_ms d m \<longleftrightarrow> x = t \<or> x = t'"
      using assms by (auto simp: reads_clock_def)
    then show ?thesis
      using Fold by (cases c) (auto simp: resolve_def falls_def shows_first_def skips_at_def)
  next
    case (Gap before after)
    then obtain t ch where "tz_instant z after d m = Some t" "tz_following z t = Some ch" "\<forall>x. clock x \<noteq> local_ms d m"
      "\<forall>x. clock (x - 1) < local_ms d m \<and> local_ms d m < clock x \<longleftrightarrow> x = ch"
      using assms by (auto simp: reads_clock_def)
    then show ?thesis
      using Gap by (cases c) (auto simp: resolve_def falls_def shows_first_def skips_at_def)
  qed
  have "\<exists>c. resolve z d m = Some c"
    using assms by (auto simp: reads_clock_def resolve_def split: ambiguous_offset.splits)
  then show "\<exists>moved t. falls clock (local_ms d m) moved t" using * by blast
qed

lemma candidates_on_set:
  assumes "to \<le> tz_last_date z"
  shows "c \<in> set (candidates_on s z from to) \<longleftrightarrow>
    (\<exists>d \<in> {from..to}. \<exists>m \<in> set (schedule_times s). runs_on s (tz_weekday z d) \<and> resolve z d m = Some c)"
  using assms
proof (induction s z "from" to rule: candidates_on.induct)
  case (1 s z date to)
  show ?case
  proof (cases "date \<le> to")
    case le: True
    have here: "c \<in> set (List.map_filter f xs) \<longleftrightarrow> (\<exists>x \<in> set xs. f x = Some c)" for f and xs :: "nat list"
      by (induction xs) (auto simp: List.map_filter_simps split: option.split)
    show ?thesis
    proof (cases "date < tz_last_date z")
      case True
      have "{date..to} = insert date {date + 1..to}" using le by auto
      then show ?thesis using 1 le True by (subst candidates_on.simps) (auto simp: here)
    next
      case False
      then have "to = date" using le 1(2) by simp
      then show ?thesis using False by (subst candidates_on.simps) (auto simp: here)
    qed
  qed (subst candidates_on.simps, simp)
qed

lemma falls_on_due:
  assumes s: "check_schedule s = Inr ()" "valid_time (schedule_at s)"
    and z: "zone_of_clock clock z {from..to}" "to \<le> tz_last_date z"
  shows "falls_on (candidates_on s z from to) t \<longleftrightarrow> due_on {from..to} s clock t"
proof -
  have c: "c \<in> set (candidates_on s z from to) \<longleftrightarrow> asked_at {from..to} s clock (cn_moved c) (cn_at c)" for c :: candidate
    unfolding candidates_on_set [OF z(2)] asked_at_def
  proof (rule bex_cong [OF refl])
    fix d assume d: "d \<in> {from..to}"
    have "resolve z d m = Some c \<longleftrightarrow> falls clock (local_ms d m) (cn_moved c) (cn_at c)" if "asks s d m" for m
      using resolve_falls(1) z(1) d asks_iff(2) [OF s that] by (simp add: zone_of_clock_def)
    moreover have "tz_weekday z d = civil_weekday d" using z(1) d by (simp add: zone_of_clock_def)
    ultimately show "(\<exists>m \<in> set (schedule_times s). runs_on s (tz_weekday z d) \<and> resolve z d m = Some c)
        \<longleftrightarrow> (\<exists>m. asks s d m \<and> falls clock (local_ms d m) (cn_moved c) (cn_at c))"
      using asks_iff(1) [OF s, of d] by metis
  qed
  have ex: "(\<exists>c :: candidate. P (cn_moved c) (cn_at c)) \<longleftrightarrow> (\<exists>moved x. P moved x)" for P
  proof
    assume "\<exists>moved x. P moved x"
    then obtain moved x where "P (cn_moved \<lparr>cn_at = x, cn_moved = moved\<rparr>) (cn_at \<lparr>cn_at = x, cn_moved = moved\<rparr>)" by auto
    then show "\<exists>c :: candidate. P (cn_moved c) (cn_at c)" by (rule exI)
  qed blast
  have all: "(\<forall>c :: candidate. P (cn_moved c) (cn_at c)) \<longleftrightarrow> (\<forall>moved x. P moved x)" for P
    using ex [of "\<lambda>mv x. \<not> P mv x"] by blast
  have "falls_on (candidates_on s z from to) t \<longleftrightarrow>
      (\<exists>c :: candidate. asked_at {from..to} s clock (cn_moved c) (cn_at c) \<and> cn_at c = t \<and> \<not> cn_moved c)
      \<or> ((\<exists>c :: candidate. asked_at {from..to} s clock (cn_moved c) (cn_at c) \<and> t = cn_at c)
         \<and> (\<forall>c :: candidate. asked_at {from..to} s clock (cn_moved c) (cn_at c) \<longrightarrow> cn_at c = t \<or> HOUR_MS \<le> \<bar>cn_at c - t\<bar>))"
    unfolding falls_on_def list_ex_iff list_all_iff image_iff Bex_def Ball_def c by blast
  also have "\<dots> \<longleftrightarrow> due_on {from..to} s clock t"
    unfolding ex [of "\<lambda>mv x. asked_at {from..to} s clock mv x \<and> x = t \<and> \<not> mv"]
      ex [of "\<lambda>mv x. asked_at {from..to} s clock mv x \<and> t = x"]
      all [of "\<lambda>mv x. asked_at {from..to} s clock mv x \<longrightarrow> x = t \<or> HOUR_MS \<le> \<bar>x - t\<bar>"] due_on_def
    by (metis (full_types))
  finally show ?thesis .
qed

section \<open>Nine days are enough\<close>

lemma falls_near:
  assumes "steady_offset clock" and "falls clock L moved t"
  shows "\<bar>(L - clock a) - (t - a)\<bar> \<le> 6 * HOUR_MS"
proof (cases moved)
  case moved: True
  then have "clock (t - 1) < L" "L < clock t" using assms(2) by (simp_all add: falls_def skips_at_def)
  moreover have "\<bar>(clock t - t) - (clock a - a)\<bar> \<le> 6 * HOUR_MS" "\<bar>(clock (t - 1) - (t - 1)) - (clock a - a)\<bar> \<le> 6 * HOUR_MS"
    using assms(1) by (simp_all add: steady_offset_def)
  ultimately show ?thesis by linarith
next
  case False
  then have "clock t = L" using assms(2) by (simp add: falls_def shows_first_def)
  moreover have "\<bar>(clock t - t) - (clock a - a)\<bar> \<le> 6 * HOUR_MS" using assms(1) by (simp add: steady_offset_def)
  ultimately show ?thesis by linarith
qed

lemma near_due:
  assumes "changes_apart clock" and "asked_at D s clock moved t"
  shows "\<exists>x. due_on D s clock x \<and> \<bar>x - t\<bar> < HOUR_MS"
proof (cases "due_on D s clock t")
  case True
  then show ?thesis by (intro exI [of _ t]) (simp add: ms_values)
next
  case False
  then have t: "asked_at D s clock True t" using assms(2) by (cases moved) (auto simp: due_on_def)
  then obtain mv x where x: "asked_at D s clock mv x" "x \<noteq> t" "\<not> HOUR_MS \<le> \<bar>x - t\<bar>"
    using False by (auto simp: due_on_def)
  have "\<not> mv"
  proof
    assume mv
    then have "x = t \<or> HOUR_MS \<le> \<bar>x - t\<bar>"
      using x(1) t assms(1) unfolding asked_at_def falls_def changes_apart_def by (metis (full_types))
    then show False using x by simp
  qed
  then have "due_on D s clock x" using x(1) by (simp add: due_on_def)
  then show ?thesis using x(3) by auto
qed

text \<open>
  A window of dates gives the due times with the property \<open>P\<close> when each time asked for at a
  date outside it, within an hour of one with \<open>P\<close>, has a better one at a date inside it.
\<close>

lemma window_suffices:
  assumes apart: "changes_apart clock"
    and copy: "\<And>d m moved x y. asks s d m \<Longrightarrow> falls clock (local_ms d m) moved x \<Longrightarrow> d \<notin> W \<Longrightarrow> P y \<Longrightarrow> \<bar>x - y\<bar> < HOUR_MS \<Longrightarrow>
      \<exists>d' \<in> W. \<exists>mv t. asks s d' m \<and> falls clock (local_ms d' m) mv t \<and> (\<forall>x'. \<bar>x' - t\<bar> < HOUR_MS \<longrightarrow> P x' \<and> better x' y)"
    and refl: "better x x" and P: "P x"
  shows "due_on W s clock x \<Longrightarrow> \<exists>y. P y \<and> better y x \<and> due_on UNIV s clock y"
    and "due_on UNIV s clock x \<Longrightarrow> \<exists>y. P y \<and> better y x \<and> due_on W s clock y"
proof -
  have mono: "asked_at W s clock mv y \<Longrightarrow> asked_at UNIV s clock mv y" for mv y by (auto simp: asked_at_def)
  have outside: "\<exists>mv t. asked_at W s clock mv t \<and> (\<forall>x'. \<bar>x' - t\<bar> < HOUR_MS \<longrightarrow> P x' \<and> better x' x)"
    if y: "asked_at UNIV s clock mv y" "\<not> asked_at W s clock mv y" "\<bar>y - x\<bar> < HOUR_MS" for mv y
  proof -
    obtain d m where "asks s d m" "falls clock (local_ms d m) mv y" "d \<notin> W" using y(1,2) by (auto simp: asked_at_def)
    from copy [OF this P y(3)] show ?thesis by (auto simp: asked_at_def)
  qed
  show "\<exists>y. P y \<and> better y x \<and> due_on UNIV s clock y" if due: "due_on W s clock x"
  proof (cases "due_on UNIV s clock x")
    case True
    then show ?thesis using refl P by blast
  next
    case False
    then obtain mv y where "asked_at UNIV s clock mv y" "\<not> (y = x \<or> HOUR_MS \<le> \<bar>y - x\<bar>)" "\<not> asked_at W s clock mv y"
      using due mono unfolding due_on_def by metis
    from outside [OF this(1,3)] this(2) obtain mv' t where
      t: "asked_at W s clock mv' t" "\<forall>x'. \<bar>x' - t\<bar> < HOUR_MS \<longrightarrow> P x' \<and> better x' x" by auto
    from near_due [OF apart mono [OF t(1)]] t(2) show ?thesis by blast
  qed
  show "\<exists>y. P y \<and> better y x \<and> due_on W s clock y" if due: "due_on UNIV s clock x"
  proof (cases "due_on W s clock x")
    case True
    then show ?thesis using refl P by blast
  next
    case False
    then obtain mv where "asked_at UNIV s clock mv x" "\<not> asked_at W s clock mv x"
      using due mono unfolding due_on_def by metis
    from outside [OF this] obtain mv' t where
      t: "asked_at W s clock mv' t" "\<forall>x'. \<bar>x' - t\<bar> < HOUR_MS \<longrightarrow> P x' \<and> better x' x" by (auto simp: ms_values)
    from near_due [OF apart t(1)] t(2) show ?thesis by blast
  qed
qed

text \<open>The date of the same weekday in the week that starts at \<open>first\<close>.\<close>

lemma same_weekday:
  assumes "asks s d m"
  shows "\<exists>d' \<in> {first..first + 6}. \<exists>k. d' = d + 7 * k \<and> asks s d' m"
proof -
  let ?d = "first + (d - first) mod 7"
  have "?d = d + 7 * (- ((d - first) div 7))" using mult_div_mod_eq [of 7 "d - first"] by linarith
  moreover have "?d \<in> {first..first + 6}" using pos_mod_bound [of 7 "d - first"] by simp
  ultimately show ?thesis using asks_weekly [OF assms] by metis
qed

lemma local_ms_between: "m < 24 * 60 \<Longrightarrow> d * DAY_MS \<le> local_ms d m \<and> local_ms d m < (d + 1) * DAY_MS"
  by (simp add: local_ms_def ms_values)

lemma today_between: "clock a div DAY_MS = today \<Longrightarrow> today * DAY_MS \<le> clock a \<and> clock a < (today + 1) * DAY_MS"
  by (simp add: ms_values) linarith

lemma moved_a_week:
  assumes "steady_offset clock" "falls clock (local_ms d m) mv x" "falls clock (local_ms (d + 7 * k) m) mv' t"
  shows "\<bar>(t - x) - 7 * k * DAY_MS\<bar> \<le> 12 * HOUR_MS"
  using falls_near [OF assms(1,2), of 0] falls_near [OF assms(1,3), of 0] by (simp add: local_ms_def algebra_simps)

lemma zone_falls:
  assumes "zone_of_clock clock z W" and "d \<in> W" and "m < 24 * 60"
  shows "\<exists>mv t. falls clock (local_ms d m) mv t"
  using resolve_falls(2) [of clock z d m] assms by (simp add: zone_of_clock_def)

text \<open>The dates of \<open>next_after\<close>, and of \<open>latest_at_or_before\<close>.\<close>

lemma next_window:
  assumes s: "check_schedule s = Inr ()" "valid_time (schedule_at s)"
    and clock: "steady_offset clock" "changes_apart clock" "clock a div DAY_MS = today"
    and z: "zone_of_clock clock z {today - 1..today + 8}" and x: "a < x"
  shows "due_on {today - 1..today + 8} s clock x \<Longrightarrow> \<exists>y. a < y \<and> y \<le> x \<and> due s clock y"
    and "due s clock x \<Longrightarrow> \<exists>y. a < y \<and> y \<le> x \<and> due_on {today - 1..today + 8} s clock y"
proof -
  have copy: "\<exists>d' \<in> {today - 1..today + 8}. \<exists>mv t. asks s d' m \<and> falls clock (local_ms d' m) mv t
      \<and> (\<forall>x'. \<bar>x' - t\<bar> < HOUR_MS \<longrightarrow> a < x' \<and> x' \<le> y)"
    if d: "asks s d m" "falls clock (local_ms d m) moved x" "d \<notin> {today - 1..today + 8}" "a < y" "\<bar>x - y\<bar> < HOUR_MS"
    for d m moved x y
  proof -
    have m: "m < 24 * 60" by (rule asks_iff(2) [OF s d(1)])
    have "\<not> d < today - 1"
      using falls_near [OF clock(1) d(2), of a] local_ms_between [OF m, of d] today_between [where clock = clock and a = a, OF clock(3)] d(4,5)
      by (auto simp: ms_values abs_less_iff abs_le_iff)
    then have late: "today + 9 \<le> d" using d(3) by auto
    have "\<exists>d' \<in> {today + 2..today + 8}. \<exists>k. d' = d + 7 * k \<and> asks s d' m"
      using same_weekday [OF d(1), of "today + 2"] by (simp add: add.commute)
    then obtain d' k where d': "d' \<in> {today + 2..today + 8}" "d' = d + 7 * k" "asks s d' m" by blast
    from d'(1,2) have k: "k \<le> - 1" using late by auto
    obtain mv t where t: "falls clock (local_ms d' m) mv t" using zone_falls [OF z _ m, of d'] d'(1) by auto
    have "\<bar>(t - x) - 7 * k * DAY_MS\<bar> \<le> 12 * HOUR_MS" using moved_a_week [OF clock(1) d(2)] t d'(2) by blast
    then have before: "t + HOUR_MS \<le> y" using k d(5) by (simp add: ms_values abs_le_iff abs_less_iff)
    have after: "a + HOUR_MS < t"
      using falls_near [OF clock(1) t, of a] local_ms_between [OF m, of d'] today_between [where clock = clock and a = a, OF clock(3)] d'(1)
      by (auto simp: ms_values abs_le_iff)
    show ?thesis
    proof (rule bexI [of _ d'], rule exI, rule exI, intro conjI allI impI)
      show "asks s d' m" "falls clock (local_ms d' m) mv t" by (fact d'(3), fact t)
      show "a < x'" "x' \<le> y" if "\<bar>x' - t\<bar> < HOUR_MS" for x' using that before after by (simp_all add: abs_less_iff)
    qed (use d'(1) in auto)
  qed
  note suffices = window_suffices [where P = "\<lambda>y. a < y" and better = "(\<le>)" and W = "{today - 1..today + 8}" and s = s and clock = clock and x = x]
  show "\<exists>y. a < y \<and> y \<le> x \<and> due s clock y" if "due_on {today - 1..today + 8} s clock x"
    using suffices(1) [OF clock(2) _ order.refl x that] copy by fast
  show "\<exists>y. a < y \<and> y \<le> x \<and> due_on {today - 1..today + 8} s clock y" if "due s clock x"
    using suffices(2) [OF clock(2) _ order.refl x that] copy by fast
qed

lemma latest_window:
  assumes s: "check_schedule s = Inr ()" "valid_time (schedule_at s)"
    and clock: "steady_offset clock" "changes_apart clock" "clock a div DAY_MS = today"
    and z: "zone_of_clock clock z {today - 8..today + 1}" and x: "x \<le> a"
  shows "due_on {today - 8..today + 1} s clock x \<Longrightarrow> \<exists>y. y \<le> a \<and> x \<le> y \<and> due s clock y"
    and "due s clock x \<Longrightarrow> \<exists>y. y \<le> a \<and> x \<le> y \<and> due_on {today - 8..today + 1} s clock y"
proof -
  have copy: "\<exists>d' \<in> {today - 8..today + 1}. \<exists>mv t. asks s d' m \<and> falls clock (local_ms d' m) mv t
      \<and> (\<forall>x'. \<bar>x' - t\<bar> < HOUR_MS \<longrightarrow> x' \<le> a \<and> y \<le> x')"
    if d: "asks s d m" "falls clock (local_ms d m) moved x" "d \<notin> {today - 8..today + 1}" "y \<le> a" "\<bar>x - y\<bar> < HOUR_MS"
    for d m moved x y
  proof -
    have m: "m < 24 * 60" by (rule asks_iff(2) [OF s d(1)])
    have "\<not> today + 1 < d"
      using falls_near [OF clock(1) d(2), of a] local_ms_between [OF m, of d] today_between [where clock = clock and a = a, OF clock(3)] d(4,5)
      by (auto simp: ms_values abs_less_iff abs_le_iff)
    then have early: "d \<le> today - 9" using d(3) by auto
    have "\<exists>d' \<in> {today - 8..today - 2}. \<exists>k. d' = d + 7 * k \<and> asks s d' m"
      using same_weekday [OF d(1), of "today - 8"] by simp
    then obtain d' k where d': "d' \<in> {today - 8..today - 2}" "d' = d + 7 * k" "asks s d' m" by blast
    from d'(1,2) have k: "1 \<le> k" using early by auto
    obtain mv t where t: "falls clock (local_ms d' m) mv t" using zone_falls [OF z _ m, of d'] d'(1) by auto
    have "\<bar>(t - x) - 7 * k * DAY_MS\<bar> \<le> 12 * HOUR_MS" using moved_a_week [OF clock(1) d(2)] t d'(2) by blast
    then have after: "y + HOUR_MS \<le> t" using k d(5) by (simp add: ms_values abs_le_iff abs_less_iff)
    have before: "t + HOUR_MS \<le> a"
      using falls_near [OF clock(1) t, of a] local_ms_between [OF m, of d'] today_between [where clock = clock and a = a, OF clock(3)] d'(1)
      by (auto simp: ms_values abs_le_iff)
    show ?thesis
    proof (rule bexI [of _ d'], rule exI, rule exI, intro conjI allI impI)
      show "asks s d' m" "falls clock (local_ms d' m) mv t" by (fact d'(3), fact t)
      show "x' \<le> a" "y \<le> x'" if "\<bar>x' - t\<bar> < HOUR_MS" for x' using that before after by (simp_all add: abs_less_iff)
    qed (use d'(1) in auto)
  qed
  note suffices = window_suffices [where P = "\<lambda>y. y \<le> a" and better = "\<lambda>y z. z \<le> y" and W = "{today - 8..today + 1}" and s = s and clock = clock and x = x]
  show "\<exists>y. y \<le> a \<and> x \<le> y \<and> due s clock y" if "due_on {today - 8..today + 1} s clock x"
    using suffices(1) [OF clock(2) _ order.refl x that] copy by fast
  show "\<exists>y. y \<le> a \<and> x \<le> y \<and> due_on {today - 8..today + 1} s clock y" if "due s clock x"
    using suffices(2) [OF clock(2) _ order.refl x that] copy by fast
qed

lemma first_shared:
  fixes t :: int
  assumes t: "P t \<and> a < t \<and> (\<forall>x. P x \<and> a < x \<longrightarrow> t \<le> x)"
    and PQ: "\<And>x. a < x \<Longrightarrow> P x \<Longrightarrow> \<exists>y. a < y \<and> y \<le> x \<and> Q y" and QP: "\<And>x. a < x \<Longrightarrow> Q x \<Longrightarrow> \<exists>y. a < y \<and> y \<le> x \<and> P y"
  shows "Q t \<and> a < t \<and> (\<forall>x. Q x \<and> a < x \<longrightarrow> t \<le> x)"
proof -
  have first: "t \<le> x" if "Q x" "a < x" for x using QP [OF that(2,1)] t by fastforce
  obtain y where "a < y" "y \<le> t" "Q y" using PQ t by blast
  moreover from this have "t = y" using first by (simp add: order.antisym)
  ultimately show ?thesis using first t by blast
qed

lemma last_shared:
  fixes t :: int
  assumes t: "P t \<and> t \<le> a \<and> (\<forall>x. P x \<and> x \<le> a \<longrightarrow> x \<le> t)"
    and PQ: "\<And>x. x \<le> a \<Longrightarrow> P x \<Longrightarrow> \<exists>y. y \<le> a \<and> x \<le> y \<and> Q y" and QP: "\<And>x. x \<le> a \<Longrightarrow> Q x \<Longrightarrow> \<exists>y. y \<le> a \<and> x \<le> y \<and> P y"
  shows "Q t \<and> t \<le> a \<and> (\<forall>x. Q x \<and> x \<le> a \<longrightarrow> x \<le> t)"
proof -
  have latest: "x \<le> t" if "Q x" "x \<le> a" for x using QP [OF that(2,1)] t by fastforce
  obtain y where "y \<le> a" "t \<le> y" "Q y" using PQ t by blast
  moreover from this have "t = y" using latest by (simp add: order.antisym)
  ultimately show ?thesis using latest t by blast
qed

section \<open>The next run and the latest\<close>

text \<open>C31: the next run after an instant is the first later instant at which the routine is due, and the
  latest run the last one not later, over all dates, also across changes of the clock: due is each instant
  at which the clock of the owner's zone first shows a time the schedule asks for, and each change
  of the clock that skips such a time, unless another of them is within an hour. It holds in
  zones whose offset stays within six hours and whose clock does not skip times twice
  within an hour, for dates at least eight days from the ends of the calendar.\<close>

theorem next_run_exactly:
  assumes s: "check_schedule s = Inr ()" "valid_time (schedule_at s)"
    and z: "tz_date z now = Some (clock now div DAY_MS)" "zone_of_clock clock z {clock now div DAY_MS - 8..clock now div DAY_MS + 8}"
    and range: "tz_first_date z \<le> clock now div DAY_MS - 8" "clock now div DAY_MS + 8 \<le> tz_last_date z"
    and clock: "steady_offset clock" "changes_apart clock"
  shows "(next_after s z now = Some t \<longleftrightarrow> due s clock t \<and> now < t \<and> (\<forall>x. due s clock x \<and> now < x \<longrightarrow> t \<le> x))
    \<and> (latest_at_or_before s z now = Some t \<longleftrightarrow> due s clock t \<and> t \<le> now \<and> (\<forall>x. due s clock x \<and> x \<le> now \<longrightarrow> x \<le> t))"
proof (rule conjI)
  let ?today = "clock now div DAY_MS"
  have shift: "shift_date z ?today (- 1) = ?today - 1" "shift_date z ?today 8 = ?today + 8"
    "shift_date z ?today (- 8) = ?today - 8" "shift_date z ?today 1 = ?today + 1"
    using range by (simp_all add: shift_date_def)
  have part: "zone_of_clock clock z {?today - 1..?today + 8}" "zone_of_clock clock z {?today - 8..?today + 1}"
    using z(2) by (simp_all add: zone_of_clock_def)
  have last: "?today + 1 \<le> tz_last_date z" using range(2) by simp
  have next_run: "next_after s z now = Some t \<longleftrightarrow> due_on {?today - 1..?today + 8} s clock t \<and> now < t
      \<and> (\<forall>x. due_on {?today - 1..?today + 8} s clock x \<and> now < x \<longrightarrow> t \<le> x)"
    using runs_in_window(1) [OF z(1), of s t] unfolding shift Let_def falls_on_due [OF s part(1) range(2)] .
  have latest_run: "latest_at_or_before s z now = Some t \<longleftrightarrow> due_on {?today - 8..?today + 1} s clock t \<and> t \<le> now
      \<and> (\<forall>x. due_on {?today - 8..?today + 1} s clock x \<and> x \<le> now \<longrightarrow> x \<le> t)"
    using runs_in_window(2) [OF z(1), of s t] unfolding shift Let_def falls_on_due [OF s part(2) last] .
  show "next_after s z now = Some t \<longleftrightarrow> due s clock t \<and> now < t \<and> (\<forall>x. due s clock x \<and> now < x \<longrightarrow> t \<le> x)"
    unfolding next_run
    by (rule iffI; rule first_shared; (assumption | erule (1) next_window [OF s clock refl part(1)]))
  show "latest_at_or_before s z now = Some t \<longleftrightarrow> due s clock t \<and> t \<le> now \<and> (\<forall>x. due s clock x \<and> x \<le> now \<longrightarrow> x \<le> t)"
    unfolding latest_run
    by (rule iffI; rule last_shared; (assumption | erule (1) latest_window [OF s clock refl part(2)]))
qed

text \<open>
  Lord Howe's clock goes from 2:00 to 2:30 at \<open>half_hour_change\<close>. A weekday routine of 2:10
  runs at the change.
\<close>

definition half_hour_change :: int where
  "half_hour_change = 120 * MINUTE_MS - 37800 * 1000"

definition half_hour_clock :: "int \<Rightarrow> int" where
  "half_hour_clock t = t + (if t < half_hour_change then 37800 * 1000 else 39600 * 1000)"

definition half_hour_days :: tz where
  "half_hour_days = half_hour_zone\<lparr>tz_weekday := civil_weekday, tz_date := (\<lambda>t. Some (half_hour_clock t div DAY_MS))\<rparr>"

lemmas half_hour_defs = half_hour_change_def half_hour_clock_def ms_values local_ms_def

lemma half_hour_reads: "zone_of_clock half_hour_clock half_hour_days dates"
proof -
  have "reads_clock half_hour_clock half_hour_days d m" for d m
    unfolding reads_clock_def half_hour_days_def half_hour_zone_def utc_zone_def
    by (auto simp: half_hour_defs local_minutes_def fixed_instant_def split: if_splits)
  then show ?thesis by (simp add: zone_of_clock_def half_hour_days_def)
qed

lemma half_hour_steady: "steady_offset half_hour_clock" "changes_apart half_hour_clock"
  by (auto simp: steady_offset_def changes_apart_def skips_at_def half_hour_defs split: if_splits)

lemma half_hour_due: "due (Weekdays (TimeOfDay 2 10)) half_hour_clock half_hour_change"
proof -
  have falls: "falls half_hour_clock (local_ms d 130) moved x \<longleftrightarrow>
      (if d = 0 then moved \<and> x = half_hour_change else \<not> moved \<and> half_hour_clock x = local_ms d 130)" for d moved x
    by (auto simp: falls_def shows_first_def skips_at_def half_hour_defs split: if_splits)
  have "asked_at UNIV (Weekdays (TimeOfDay 2 10)) half_hour_clock True half_hour_change"
    unfolding asked_at_def by (rule bexI [of _ 0]) (auto simp: falls civil_weekday_def WEEKDAY_ALL_def)
  moreover have "x = half_hour_change \<or> HOUR_MS \<le> \<bar>x - half_hour_change\<bar>"
    if "asked_at UNIV (Weekdays (TimeOfDay 2 10)) half_hour_clock moved x" for moved x
  proof -
    from that obtain d where "falls half_hour_clock (local_ms d 130) moved x" by (auto simp: asked_at_def)
    then have "if d = 0 then x = half_hour_change else half_hour_clock x = local_ms d 130" by (simp add: falls split: if_splits)
    then consider "x = half_hour_change" | "half_hour_clock x = local_ms d 130" "1 \<le> d" | "half_hour_clock x = local_ms d 130" "d \<le> -1"
      by (cases "d = 0") (auto split: if_splits, linarith)
    then show ?thesis
    proof cases
      case 2
      then have "HOUR_MS \<le> \<bar>x - half_hour_change\<bar>"
        by (simp only: half_hour_defs split: if_splits)
      then show ?thesis ..
    next
      case 3
      then have "HOUR_MS \<le> \<bar>x - half_hour_change\<bar>"
        by (simp only: half_hour_defs split: if_splits)
      then show ?thesis ..
    qed simp
  qed
  ultimately show ?thesis unfolding due_on_def by blast
qed

theorem next_run_exactly_witness:
  "next_after (Weekdays (TimeOfDay 2 10)) half_hour_days (half_hour_change - 1) = Some half_hour_change"
proof -
  have "half_hour_clock (half_hour_change - 1) div DAY_MS = 0" by (simp add: half_hour_defs)
  then have "next_after (Weekdays (TimeOfDay 2 10)) half_hour_days (half_hour_change - 1) = Some half_hour_change
    \<longleftrightarrow> due (Weekdays (TimeOfDay 2 10)) half_hour_clock half_hour_change \<and> half_hour_change - 1 < half_hour_change
      \<and> (\<forall>x. due (Weekdays (TimeOfDay 2 10)) half_hour_clock x \<and> half_hour_change - 1 < x \<longrightarrow> half_hour_change \<le> x)"
    by (intro next_run_exactly [OF _ _ _ half_hour_reads _ _ half_hour_steady, THEN conjunct1])
      (simp_all add: valid_time_def half_hour_days_def half_hour_zone_def utc_zone_def)
  then show ?thesis using half_hour_due by simp
qed

end
