(* ===== verification/RoutineStore.thy ===== *)
theory RoutineStore
  imports Schedule BotStore UsageMeter
begin

text \<open>
  \<open>crates/bokkie-gateway/src/routines/store.rs\<close> over the tables of migration 0009: routines and
  their runs. A column that holds a name (or a schedule's JSON) is the value itself; that the
  names read back is shown below.
\<close>

section \<open>Names in columns\<close>

definition MAX_ROUTINES :: nat where
  "MAX_ROUTINES = 20"

definition MAX_NAME_CHARS :: nat where
  "MAX_NAME_CHARS = 60"

definition MAX_PROMPT_CHARS :: nat where
  "MAX_PROMPT_CHARS = 8000"

definition RUN_RETENTION_MS :: int where
  "RUN_RETENTION_MS = 90 * DAY_MS"

definition FAILURES_TO_PAUSE :: nat where
  "FAILURES_TO_PAUSE = 3"

fun push_name :: "routine_push \<Rightarrow> utext" where
  "push_name EveryRun = lit ''every_run''"
| "push_name NotifyOnly = lit ''notify_only''"

definition push_from :: "utext \<Rightarrow> routine_push" where
  "push_from n = (if n = lit ''notify_only'' then NotifyOnly else EveryRun)"

fun run_state_name :: "run_state \<Rightarrow> utext" where
  "run_state_name RunWaiting = lit ''waiting''"
| "run_state_name RunRunning = lit ''running''"
| "run_state_name RunSucceeded = lit ''succeeded''"
| "run_state_name RunFailed = lit ''failed''"
| "run_state_name RunMissed = lit ''missed''"
| "run_state_name RunSkipped = lit ''skipped''"
| "run_state_name RunInterrupted = lit ''interrupted''"

definition run_state_from :: "utext \<Rightarrow> run_state" where
  "run_state_from n =
     (if n = lit ''waiting'' then RunWaiting else if n = lit ''running'' then RunRunning
      else if n = lit ''succeeded'' then RunSucceeded else if n = lit ''missed'' then RunMissed
      else if n = lit ''skipped'' then RunSkipped else if n = lit ''interrupted'' then RunInterrupted
      else RunFailed)"

fun trigger_name :: "run_trigger \<Rightarrow> utext" where
  "trigger_name ScheduleTrigger = lit ''schedule''"
| "trigger_name ManualTrigger = lit ''manual''"

definition trigger_from :: "utext \<Rightarrow> run_trigger" where
  "trigger_from n = (if n = lit ''manual'' then ManualTrigger else ScheduleTrigger)"

text \<open>What a waiting run last waited for.\<close>

datatype waiting = WaitingBusy | WaitingSignedOut

fun waiting_name :: "waiting \<Rightarrow> utext" where
  "waiting_name WaitingBusy = lit ''busy''"
| "waiting_name WaitingSignedOut = lit ''signed_out''"

definition waiting_from :: "utext \<Rightarrow> waiting option" where
  "waiting_from n = (if n = lit ''busy'' then Some WaitingBusy
     else if n = lit ''signed_out'' then Some WaitingSignedOut else None)"

interpretation pushes: stored_name push_name push_from
  by unfold_locales (case_tac a; simp add: push_from_def)

interpretation run_states: stored_name run_state_name run_state_from
  by unfold_locales (case_tac a; simp add: run_state_from_def)

interpretation triggers: stored_name trigger_name trigger_from
  by unfold_locales (case_tac a; simp add: trigger_from_def)

interpretation waits: catalogue waiting_name waiting_from
proof unfold_locales
  show of_to: "waiting_from (waiting_name a) = Some a" for a by (cases a) (simp_all add: waiting_from_def)
  show "the (waiting_from (waiting_name a)) = a" for a by (simp add: of_to)
  show "waiting_from n = Some a \<Longrightarrow> n = waiting_name a" for n a by (auto simp: waiting_from_def split: if_splits)
qed

section \<open>Tables\<close>

record routine_row =
  ro_id :: routine_id
  ro_user :: user_id
  ro_bot :: bot_id
  ro_name :: utext
  ro_prompt :: utext
  ro_schedule :: schedule
  ro_push :: routine_push
  ro_paused :: bool
  ro_failures :: nat
  ro_next_run_at :: "timestamp option"
  ro_created_at :: timestamp
  ro_updated_at :: timestamp

record run_row =
  ru_id :: routine_run_id
  ru_user :: user_id
  ru_bot :: bot_id
  ru_routine :: routine_id
  ru_trigger :: run_trigger
  ru_scheduled_for :: timestamp
  ru_queued_at :: timestamp
  ru_started_at :: "timestamp option"
  ru_finished_at :: "timestamp option"
  ru_state :: run_state
  ru_reason :: "utext option"
  ru_waiting_for :: "waiting option"
  ru_thread_id :: "utext option"
  ru_turn_id :: "utext option"
  ru_deadline_passed_at :: "timestamp option"
  ru_tokens :: "nat option"

record routines_db =
  rd_routines :: "routine_row list"
  rd_runs :: "run_row list"

definition routine_to_api :: "routine_row \<Rightarrow> routine" where
  "routine_to_api r = \<lparr>r_id = ro_id r, r_bot_id = ro_bot r, r_name = ro_name r, r_prompt = ro_prompt r,
     r_schedule = ro_schedule r, r_push = ro_push r, r_paused = ro_paused r, r_failures = ro_failures r,
     r_next_run_at = ro_next_run_at r, r_created_at = ro_created_at r, r_updated_at = ro_updated_at r\<rparr>"

definition run_to_api :: "run_row \<Rightarrow> message_id list \<Rightarrow> routine_run" where
  "run_to_api r ms = \<lparr>rr_id = ru_id r, rr_routine_id = ru_routine r, rr_bot_id = ru_bot r, rr_trigger = ru_trigger r,
     rr_scheduled_for = ru_scheduled_for r, rr_started_at = ru_started_at r, rr_finished_at = ru_finished_at r,
     rr_state = ru_state r, rr_reason = ru_reason r, rr_messages = ms, rr_tokens = ru_tokens r\<rparr>"

section \<open>Validation\<close>

definition check_routine_text :: "utext \<Rightarrow> utext \<Rightarrow> nat \<Rightarrow> bool \<Rightarrow> failure + utext" where
  "check_routine_text field v most single =
     (let t = trim v in
      if t = [] \<or> length t > most
      then Inl (invalid (field @ lit '' needs 1 to '' @ decimal most @ lit '' characters''))
      else if single \<and> 10 \<in> set t then Inl (invalid (field @ lit '' is one line''))
      else if list_ex (\<lambda>c. is_control c \<and> c \<noteq> 10 \<and> c \<noteq> 9) t
      then Inl (invalid (field @ lit '' has control characters''))
      else Inr t)"

definition check_routine_name :: "utext \<Rightarrow> failure + utext" where
  "check_routine_name name = check_routine_text (lit ''A routine's name'') name MAX_NAME_CHARS True"

definition check_prompt :: "utext \<Rightarrow> failure + utext" where
  "check_prompt prompt = check_routine_text (lit ''A routine's prompt'') prompt MAX_PROMPT_CHARS False"

definition routine_conflict :: failure where
  "routine_conflict = conflict (lit ''This Bot already has a routine with that name'')"

section \<open>Routines\<close>

definition count_routines :: "user_id \<Rightarrow> routines_db \<Rightarrow> nat" where
  "count_routines u db = length (filter (\<lambda>r. ro_user r = u) (rd_routines db))"

record new_routine =
  nr_bot :: bot_id
  nr_name :: utext
  nr_prompt :: utext
  nr_schedule :: schedule
  nr_push :: routine_push
  nr_paused :: bool
  nr_next_run_at :: "timestamp option"

text \<open>The unique index on the Bot and the name, whatever its case.\<close>

definition routine_name_taken :: "bot_id \<Rightarrow> utext \<Rightarrow> routine_id option \<Rightarrow> routines_db \<Rightarrow> bool" where
  "routine_name_taken b name except db \<longleftrightarrow>
     list_ex (\<lambda>r. ro_bot r = b \<and> to_ascii_lowercase (ro_name r) = to_ascii_lowercase name
       \<and> Some (ro_id r) \<noteq> except) (rd_routines db)"

definition create_routine ::
  "timestamp \<Rightarrow> user_id \<Rightarrow> new_routine \<Rightarrow> bots_db \<Rightarrow> routines_db \<Rightarrow> failure + routine_row \<times> routines_db" where
  "create_routine now u n bdb db =
     (case find_bot u (nr_bot n) bdb of
        None \<Rightarrow> Inl not_found
      | Some _ \<Rightarrow>
          if routine_name_taken (nr_bot n) (nr_name n) None db then Inl routine_conflict
          else
            let r = \<lparr>ro_id = next_rowid (map ro_id (rd_routines db)), ro_user = u, ro_bot = nr_bot n,
                  ro_name = nr_name n, ro_prompt = nr_prompt n, ro_schedule = nr_schedule n, ro_push = nr_push n,
                  ro_paused = nr_paused n, ro_failures = 0, ro_next_run_at = nr_next_run_at n,
                  ro_created_at = now, ro_updated_at = now\<rparr>
            in Inr (r, db\<lparr>rd_routines := rd_routines db @ [r]\<rparr>))"

definition find_routine :: "user_id \<Rightarrow> bot_id \<Rightarrow> routine_id \<Rightarrow> routines_db \<Rightarrow> routine_row option" where
  "find_routine u b i db = find (\<lambda>r. ro_id r = i \<and> ro_bot r = b \<and> ro_user r = u) (rd_routines db)"

definition routine_of_user :: "user_id \<Rightarrow> routine_id \<Rightarrow> routines_db \<Rightarrow> routine_row option" where
  "routine_of_user u i db = find (\<lambda>r. ro_id r = i \<and> ro_user r = u) (rd_routines db)"

definition routines_of_bot :: "user_id \<Rightarrow> bot_id \<Rightarrow> routines_db \<Rightarrow> routine_row list" where
  "routines_of_bot u b db = sort_key ro_id (filter (\<lambda>r. ro_bot r = b \<and> ro_user r = u) (rd_routines db))"

definition routines_of_user :: "user_id \<Rightarrow> routines_db \<Rightarrow> routine_row list" where
  "routines_of_user u db = sort_key ro_id (filter (\<lambda>r. ro_user r = u) (rd_routines db))"

definition save_routine :: "timestamp \<Rightarrow> routine_row \<Rightarrow> routines_db \<Rightarrow> failure + routine_row \<times> routines_db" where
  "save_routine now r db =
     (case find_routine (ro_user r) (ro_bot r) (ro_id r) db of
        None \<Rightarrow> Inl not_found
      | Some old \<Rightarrow>
          if routine_name_taken (ro_bot r) (ro_name r) (Some (ro_id r)) db then Inl routine_conflict
          else
            let f = (\<lambda>x. x\<lparr>ro_name := ro_name r, ro_prompt := ro_prompt r, ro_schedule := ro_schedule r,
                  ro_push := ro_push r, ro_paused := ro_paused r, ro_failures := ro_failures r,
                  ro_next_run_at := ro_next_run_at r, ro_updated_at := now\<rparr>)
            in Inr (f old, db\<lparr>rd_routines :=
                 update_where (\<lambda>x. ro_id x = ro_id r \<and> ro_bot x = ro_bot r \<and> ro_user x = ro_user r) f (rd_routines db)\<rparr>))"

text \<open>A routine's runs go with it.\<close>

definition delete_routine :: "user_id \<Rightarrow> bot_id \<Rightarrow> routine_id \<Rightarrow> routines_db \<Rightarrow> bool \<times> routines_db" where
  "delete_routine u b i db =
     (if find_routine u b i db = None then (False, db)
      else (True, db\<lparr>rd_routines := filter (\<lambda>r. \<not> (ro_id r = i \<and> ro_bot r = b \<and> ro_user r = u)) (rd_routines db),
        rd_runs := filter (\<lambda>r. ru_routine r \<noteq> i) (rd_runs db)\<rparr>))"

definition due_routines :: "timestamp \<Rightarrow> routines_db \<Rightarrow> routine_row list" where
  "due_routines now db = sort_key (\<lambda>r. (the (ro_next_run_at r), ro_id r))
     (filter (\<lambda>r. \<not> ro_paused r \<and> (case ro_next_run_at r of None \<Rightarrow> False | Some t \<Rightarrow> t \<le> now)) (rd_routines db))"

definition saturating_add_u32 :: "nat \<Rightarrow> nat \<Rightarrow> nat" where
  "saturating_add_u32 a c = min (a + c) (2 ^ 32 - 1)"

definition count_outcome ::
  "timestamp \<Rightarrow> run_row \<Rightarrow> bool \<Rightarrow> routines_db \<Rightarrow> failure + (routine_row \<times> bool) option \<times> routines_db" where
  "count_outcome now run failed db =
     (case routine_of_user (ru_user run) (ru_routine run) db of
        None \<Rightarrow> Inr (None, db)
      | Some r \<Rightarrow>
          if failed then
            let r1 = r\<lparr>ro_failures := saturating_add_u32 (ro_failures r) 1\<rparr>;
                paused = (ro_failures r1 \<ge> FAILURES_TO_PAUSE \<and> \<not> ro_paused r1);
                r2 = (if paused then r1\<lparr>ro_paused := True, ro_next_run_at := None\<rparr> else r1)
            in and_then (save_routine now r2 db) (\<lambda>(r3, db'). Inr (Some (r3, paused), db'))
          else if ro_failures r > 0
          then and_then (save_routine now (r\<lparr>ro_failures := 0\<rparr>) db) (\<lambda>(r3, db'). Inr (Some (r3, False), db'))
          else Inr (None, db))"

section \<open>Runs\<close>

record new_run =
  nn_trigger :: run_trigger
  nn_scheduled_for :: timestamp
  nn_state :: run_state
  nn_reason :: "utext option"

definition insert_run :: "timestamp \<Rightarrow> routine_row \<Rightarrow> new_run \<Rightarrow> routines_db \<Rightarrow> failure + run_row \<times> routines_db" where
  "insert_run now r n db =
     (case routine_of_user (ro_user r) (ro_id r) db of
        None \<Rightarrow> Inl not_found
      | Some stored \<Rightarrow>
          let run = \<lparr>ru_id = next_rowid (map ru_id (rd_runs db)), ru_user = ro_user stored, ru_bot = ro_bot stored,
                ru_routine = ro_id stored, ru_trigger = nn_trigger n, ru_scheduled_for = nn_scheduled_for n,
                ru_queued_at = now, ru_started_at = None,
                ru_finished_at = (if run_finished (nn_state n) then Some now else None), ru_state = nn_state n,
                ru_reason = nn_reason n, ru_waiting_for = None, ru_thread_id = None, ru_turn_id = None,
                ru_deadline_passed_at = None, ru_tokens = None\<rparr>
          in Inr (run, db\<lparr>rd_runs := rd_runs db @ [run]\<rparr>))"

definition find_run :: "user_id \<Rightarrow> routine_run_id \<Rightarrow> routines_db \<Rightarrow> run_row option" where
  "find_run u i db = find (\<lambda>r. ru_id r = i \<and> ru_user r = u) (rd_runs db)"

definition run_active :: "run_row \<Rightarrow> bool" where
  "run_active r \<longleftrightarrow> ru_state r = RunWaiting \<or> ru_state r = RunRunning"

definition active_run :: "user_id \<Rightarrow> routine_id \<Rightarrow> routines_db \<Rightarrow> run_row option" where
  "active_run u i db =
     (case sort_key ru_id (filter (\<lambda>r. ru_routine r = i \<and> ru_user r = u \<and> run_active r) (rd_runs db)) of
        [] \<Rightarrow> None | r # _ \<Rightarrow> Some r)"

definition active_runs :: "run_state \<Rightarrow> routines_db \<Rightarrow> run_row list" where
  "active_runs s db = sort_key ru_id (filter (\<lambda>r. ru_state r = s) (rd_runs db))"

definition running_runs_of :: "user_id \<Rightarrow> bot_id option \<Rightarrow> routines_db \<Rightarrow> run_row list" where
  "running_runs_of u b db = sort_key ru_id
     (filter (\<lambda>r. ru_user r = u \<and> ru_state r = RunRunning \<and> (b = None \<or> Some (ru_bot r) = b)) (rd_runs db))"

text \<open>\<open>ORDER BY id DESC LIMIT 1\<close>.\<close>

definition run_of_turn :: "user_id \<Rightarrow> utext \<Rightarrow> routines_db \<Rightarrow> run_row option" where
  "run_of_turn u turn db =
     (case rev (sort_key ru_id (filter (\<lambda>r. ru_user r = u \<and> ru_turn_id r = Some turn) (rd_runs db))) of
        [] \<Rightarrow> None | r # _ \<Rightarrow> Some r)"

text \<open>\<open>UPDATE ... WHERE ... RETURNING\<close>, of at most one run: ids are unique.\<close>

definition update_run ::
  "(run_row \<Rightarrow> bool) \<Rightarrow> (run_row \<Rightarrow> run_row) \<Rightarrow> routines_db \<Rightarrow> run_row option \<times> routines_db" where
  "update_run p f db =
     (map_option f (find p (rd_runs db)), db\<lparr>rd_runs := update_where p f (rd_runs db)\<rparr>)"

definition set_waiting ::
  "user_id \<Rightarrow> routine_run_id \<Rightarrow> waiting \<Rightarrow> utext \<Rightarrow> routines_db \<Rightarrow> run_row option \<times> routines_db" where
  "set_waiting u i w reason db = update_run
     (\<lambda>r. ru_id r = i \<and> ru_user r = u \<and> ru_state r = RunWaiting \<and> (ru_waiting_for r \<noteq> Some w \<or> ru_reason r \<noteq> Some reason))
     (\<lambda>r. r\<lparr>ru_waiting_for := Some w, ru_reason := Some reason\<rparr>) db"

definition reschedule_waiting ::
  "user_id \<Rightarrow> routine_run_id \<Rightarrow> timestamp \<Rightarrow> routines_db \<Rightarrow> run_row option \<times> routines_db" where
  "reschedule_waiting u i t db = update_run
     (\<lambda>r. ru_id r = i \<and> ru_user r = u \<and> ru_state r = RunWaiting \<and> ru_scheduled_for r < t)
     (\<lambda>r. r\<lparr>ru_scheduled_for := t\<rparr>) db"

definition set_running ::
  "timestamp \<Rightarrow> user_id \<Rightarrow> routine_run_id \<Rightarrow> utext \<Rightarrow> utext \<Rightarrow> routines_db \<Rightarrow> run_row option \<times> routines_db" where
  "set_running now u i thread turn db = update_run
     (\<lambda>r. ru_id r = i \<and> ru_user r = u \<and> ru_state r = RunWaiting)
     (\<lambda>r. r\<lparr>ru_state := RunRunning, ru_started_at := Some now, ru_thread_id := Some thread, ru_turn_id := Some turn,
        ru_waiting_for := None, ru_reason := None\<rparr>) db"

text \<open>\<open>SELECT sum\<close>: null without rows.\<close>

definition turn_tokens :: "user_id \<Rightarrow> utext option \<Rightarrow> token_row list \<Rightarrow> nat option" where
  "turn_tokens u turn rows =
     (case filter (\<lambda>t. tk_user_id t = u \<and> turn \<noteq> None \<and> tk_turn_id t = turn) rows of
        [] \<Rightarrow> None | ts \<Rightarrow> Some (nat (sum_list (map tk_tokens ts))))"

definition finish_from ::
  "timestamp \<Rightarrow> user_id \<Rightarrow> routine_run_id \<Rightarrow> run_state \<Rightarrow> utext option \<Rightarrow> run_state list \<Rightarrow> token_row list
   \<Rightarrow> routines_db \<Rightarrow> run_row option \<times> routines_db" where
  "finish_from now u i state reason from rows db = update_run
     (\<lambda>r. ru_id r = i \<and> ru_user r = u \<and> ru_state r \<in> set from)
     (\<lambda>r. r\<lparr>ru_state := state, ru_reason := reason, ru_finished_at := Some now, ru_waiting_for := None,
        ru_tokens := turn_tokens (ru_user r) (ru_turn_id r) rows\<rparr>) db"

definition finish_run where
  "finish_run now u i state reason rows db = finish_from now u i state reason [RunWaiting, RunRunning] rows db"

definition finish_waiting where
  "finish_waiting now u i state reason rows db = finish_from now u i state reason [RunWaiting] rows db"

definition set_deadline_passed :: "timestamp \<Rightarrow> user_id \<Rightarrow> routine_run_id \<Rightarrow> routines_db \<Rightarrow> routines_db" where
  "set_deadline_passed now u i db = db\<lparr>rd_runs := update_where
     (\<lambda>r. ru_id r = i \<and> ru_user r = u \<and> ru_state r = RunRunning \<and> ru_deadline_passed_at r = None)
     (\<lambda>r. r\<lparr>ru_deadline_passed_at := Some now\<rparr>) (rd_runs db)\<rparr>"

definition run_messages :: "run_row \<Rightarrow> message_row list \<Rightarrow> message_id list" where
  "run_messages r rows = map ms_id (sort_key ms_id (filter (\<lambda>m. ms_user_id m = ru_user r \<and> ms_bot_id m = ru_bot r
     \<and> (ms_routine_run_id m = Some (ru_id r) \<or> (ru_turn_id r \<noteq> None \<and> ms_turn_id m = ru_turn_id r))) rows))"

definition runs_page ::
  "user_id \<Rightarrow> routine_id \<Rightarrow> routine_run_id option \<Rightarrow> nat \<Rightarrow> message_row list \<Rightarrow> routines_db
   \<Rightarrow> routine_run list \<times> routine_run_id option" where
  "runs_page u i before limit rows db =
     (let n = clamp 1 200 limit;
          found = take (n + 1) (rev (sort_key ru_id (filter (\<lambda>r. ru_routine r = i \<and> ru_user r = u
            \<and> (case before of None \<Rightarrow> True | Some k \<Rightarrow> ru_id r < k)) (rd_runs db))));
          kept = (if length found > n then take n found else found)
      in (map (\<lambda>r. run_to_api r (run_messages r rows)) kept,
          if length found > n then Some (ru_id (last kept)) else None))"

definition prune_runs :: "timestamp \<Rightarrow> routines_db \<Rightarrow> routines_db" where
  "prune_runs now db = db\<lparr>rd_runs := filter (\<lambda>r. \<not> (ru_queued_at r \<le> now - RUN_RETENTION_MS \<and> \<not> run_active r)) (rd_runs db)\<rparr>"

end
