(* ===== verification/Database.thy ===== *)
theory Database
  imports RoutineStore
begin

text \<open>
  The gateway's database as one record, the rows of the tables that migrations 0007, 0011 and
  0012 add for tools, notifications and pushes, and a write transaction on it: the changed
  tables with the events to be announced when it commits. An operation that fails gives no
  transaction, since dropping a batch rolls it back.
\<close>

section \<open>Rows\<close>

text \<open>Outcomes of tool calls, as the log keeps them.\<close>

datatype tool_outcome = CallOk | CallFailed | CallRefused | CallTimedOut

record call_row =
  tc_id :: int
  tc_bot :: bot_id
  tc_user :: user_id
  tc_thread :: utext
  tc_turn :: utext
  tc_call :: utext
  tc_run :: "routine_run_id option"
  tc_tool :: utext
  tc_summary :: utext
  tc_outcome :: utext
  tc_duration_ms :: int
  tc_at :: timestamp

record notes_row =
  no_bot :: bot_id
  no_user :: user_id
  no_text :: utext
  no_updated_at :: timestamp

record notification_row =
  nt_id :: notification_id
  nt_user :: user_id
  nt_bot :: bot_id
  nt_message :: message_id
  nt_thread :: utext
  nt_turn :: utext
  nt_call :: utext
  nt_run :: "routine_run_id option"
  nt_kind :: notification_kind
  nt_title :: utext
  nt_body :: utext
  nt_created_at :: timestamp

text \<open>What caused a push, how urgent it is, and where it stands.\<close>

datatype push_cause = NotifyCause | RunCause | FailureCause | MissCause | PauseCause

datatype urgency = NormalUrgency | HighUrgency

datatype push_state =
    PushQueued | PushSending | PushSent | PushFailed
  | PushShown | PushLimited | PushUnsubscribed | PushUnconfigured | PushDisabled | PushExpired | PushMerged

record push_row =
  pu_id :: int
  pu_user :: user_id
  pu_bot :: bot_id
  pu_cause :: push_cause
  pu_notification :: "notification_id option"
  pu_run :: "routine_run_id option"
  pu_urgency :: urgency
  pu_title :: utext
  pu_body :: utext
  pu_state :: push_state
  pu_created_at :: timestamp
  pu_sent_at :: "timestamp option"
  pu_settled_at :: "timestamp option"

record subscription_row =
  sb_id :: int
  sb_user :: user_id
  sb_session :: int
  sb_endpoint :: utext
  sb_p256dh :: "nat list"
  sb_auth :: "nat list"
  sb_created_at :: timestamp
  sb_updated_at :: timestamp

record seen_row =
  sn_bot :: bot_id
  sn_user :: user_id
  sn_item :: utext
  sn_title :: utext
  sn_url :: "utext option"
  sn_shown_at :: timestamp

section \<open>The database\<close>

text \<open>Of \<open>bot_threads\<close> the Bots' tables hold whose a thread is; its token total is apart, by user and thread.\<close>

record gateway_db =
  g_accounts :: accounts_db
  g_bots :: bots_db
  g_routines :: routines_db
  g_turns :: "turn_row list"
  g_tokens :: "token_row list"
  g_notes :: "notes_row list"
  g_calls :: "call_row list"
  g_notifications :: "notification_row list"
  g_subscriptions :: "subscription_row list"
  g_pushes :: "push_row list"
  g_seen :: "seen_row list"
  g_reported :: "user_id \<Rightarrow> utext \<Rightarrow> int"

text \<open>A batch: its tables, the events it will announce, and whether it wakes the sender of pushes.\<close>

record tx =
  t_db :: gateway_db
  t_events :: "event list"
  t_wakes :: bool

definition tx_open :: "gateway_db \<Rightarrow> tx" where
  "tx_open db = \<lparr>t_db = db, t_events = [], t_wakes = False\<rparr>"

definition emit :: "event \<Rightarrow> tx \<Rightarrow> tx" where
  "emit ev t = t\<lparr>t_events := t_events t @ [ev]\<rparr>"

definition wake_sender :: "tx \<Rightarrow> tx" where
  "wake_sender t = t\<lparr>t_wakes := True\<rparr>"

text \<open>A statement on one group of tables.\<close>

definition on_bots :: "(bots_db \<Rightarrow> bots_db) \<Rightarrow> tx \<Rightarrow> tx" where
  "on_bots f t = t\<lparr>t_db := (t_db t)\<lparr>g_bots := f (g_bots (t_db t))\<rparr>\<rparr>"

definition on_routines :: "(routines_db \<Rightarrow> routines_db) \<Rightarrow> tx \<Rightarrow> tx" where
  "on_routines f t = t\<lparr>t_db := (t_db t)\<lparr>g_routines := f (g_routines (t_db t))\<rparr>\<rparr>"

definition on_pushes :: "(push_row list \<Rightarrow> push_row list) \<Rightarrow> tx \<Rightarrow> tx" where
  "on_pushes f t = t\<lparr>t_db := (t_db t)\<lparr>g_pushes := f (g_pushes (t_db t))\<rparr>\<rparr>"

definition on_notifications :: "(notification_row list \<Rightarrow> notification_row list) \<Rightarrow> tx \<Rightarrow> tx" where
  "on_notifications f t = t\<lparr>t_db := (t_db t)\<lparr>g_notifications := f (g_notifications (t_db t))\<rparr>\<rparr>"

definition on_calls :: "(call_row list \<Rightarrow> call_row list) \<Rightarrow> tx \<Rightarrow> tx" where
  "on_calls f t = t\<lparr>t_db := (t_db t)\<lparr>g_calls := f (g_calls (t_db t))\<rparr>\<rparr>"

definition on_accounts :: "(accounts_db \<Rightarrow> accounts_db) \<Rightarrow> tx \<Rightarrow> tx" where
  "on_accounts f t = t\<lparr>t_db := (t_db t)\<lparr>g_accounts := f (g_accounts (t_db t))\<rparr>\<rparr>"

lemma tx_open_simps [simp]: "t_db (tx_open db) = db" "t_events (tx_open db) = []" "t_wakes (tx_open db) = False"
  by (simp_all add: tx_open_def)

lemma emit_simps [simp]:
  "t_db (emit ev t) = t_db t" "t_events (emit ev t) = t_events t @ [ev]" "t_wakes (emit ev t) = t_wakes t"
  by (simp_all add: emit_def)

lemma wake_sender_simps [simp]:
  "t_db (wake_sender t) = t_db t" "t_events (wake_sender t) = t_events t" "t_wakes (wake_sender t) = True"
  by (simp_all add: wake_sender_def)

lemma on_bots_simps [simp]:
  "t_db (on_bots f t) = (t_db t)\<lparr>g_bots := f (g_bots (t_db t))\<rparr>" "t_events (on_bots f t) = t_events t"
  "t_wakes (on_bots f t) = t_wakes t"
  by (simp_all add: on_bots_def)

lemma on_routines_simps [simp]:
  "t_db (on_routines f t) = (t_db t)\<lparr>g_routines := f (g_routines (t_db t))\<rparr>"
  "t_events (on_routines f t) = t_events t" "t_wakes (on_routines f t) = t_wakes t"
  by (simp_all add: on_routines_def)

lemma on_pushes_simps [simp]:
  "t_db (on_pushes f t) = (t_db t)\<lparr>g_pushes := f (g_pushes (t_db t))\<rparr>" "t_events (on_pushes f t) = t_events t"
  "t_wakes (on_pushes f t) = t_wakes t"
  by (simp_all add: on_pushes_def)

lemma on_notifications_simps [simp]:
  "t_db (on_notifications f t) = (t_db t)\<lparr>g_notifications := f (g_notifications (t_db t))\<rparr>"
  "t_events (on_notifications f t) = t_events t" "t_wakes (on_notifications f t) = t_wakes t"
  by (simp_all add: on_notifications_def)

lemma on_calls_simps [simp]:
  "t_db (on_calls f t) = (t_db t)\<lparr>g_calls := f (g_calls (t_db t))\<rparr>" "t_events (on_calls f t) = t_events t"
  "t_wakes (on_calls f t) = t_wakes t"
  by (simp_all add: on_calls_def)

lemma on_accounts_simps [simp]:
  "t_db (on_accounts f t) = (t_db t)\<lparr>g_accounts := f (g_accounts (t_db t))\<rparr>" "t_events (on_accounts f t) = t_events t"
  "t_wakes (on_accounts f t) = t_wakes t"
  by (simp_all add: on_accounts_def)

text \<open>An account the gateway serves, by its owner's id.\<close>

definition user_enabled :: "user_id \<Rightarrow> gateway_db \<Rightarrow> bool" where
  "user_enabled u db \<longleftrightarrow> (case find_user (g_accounts db) u of None \<Rightarrow> False | Some r \<Rightarrow> \<not> ur_disabled r)"

end
