(* ===== verification/NotifyRequest.thy ===== *)
theory NotifyRequest
  imports Database
begin

text \<open>
  The checks of \<open>crates/bokkie-gateway/src/tools/notify.rs\<close> on a call, the tool-call log of
  \<open>tools/audit.rs\<close> and the notes of \<open>tools/notes.rs\<close>. A call's arguments are a JSON value of
  serde's: of it the code uses only what indexing with a name gives, which is the model's
  argument.
\<close>

section \<open>Arguments\<close>

datatype json_field =
    JsonNull
  | JsonBool bool
  | JsonInteger int
  | JsonOther
  | JsonString utext
  | JsonArray "json_field list"
  | JsonObject "(utext \<times> json_field) list"

type_synonym json_arguments = "utext \<Rightarrow> json_field"

fun as_str :: "json_field \<Rightarrow> utext option" where
  "as_str (JsonString t) = Some t"
| "as_str _ = None"

fun json_get :: "json_field \<Rightarrow> utext \<Rightarrow> json_field" where
  "json_get (JsonObject kvs) key = (case map_of kvs key of None \<Rightarrow> JsonNull | Some v \<Rightarrow> v)"
| "json_get _ key = JsonNull"

fun as_array :: "json_field \<Rightarrow> json_field list option" where
  "as_array (JsonArray xs) = Some xs"
| "as_array _ = None"

section \<open>The log of tool calls (audit.rs)\<close>

definition CALL_RETENTION_MS :: int where
  "CALL_RETENTION_MS = 90 * DAY_MS"

definition SUMMARY_CHARS :: nat where
  "SUMMARY_CHARS = 200"

definition ID_CHARS :: nat where
  "ID_CHARS = 128"

definition bounded :: "utext \<Rightarrow> nat \<Rightarrow> utext" where
  "bounded text chars = take chars text"

fun outcome_name :: "tool_outcome \<Rightarrow> utext" where
  "outcome_name CallOk = lit ''ok''"
| "outcome_name CallFailed = lit ''failed''"
| "outcome_name CallRefused = lit ''refused''"
| "outcome_name CallTimedOut = lit ''timed_out''"

definition outcome_from :: "utext \<Rightarrow> tool_outcome" where
  "outcome_from n = (if n = lit ''ok'' then CallOk else if n = lit ''refused'' then CallRefused
     else if n = lit ''timed_out'' then CallTimedOut else CallFailed)"

interpretation outcomes: stored_name outcome_name outcome_from
  by unfold_locales (case_tac a; simp add: outcome_from_def)

record call_entry =
  ce_user :: user_id
  ce_bot :: bot_id
  ce_thread :: utext
  ce_turn :: utext
  ce_call :: utext
  ce_tool :: utext
  ce_summary :: utext
  ce_outcome :: tool_outcome
  ce_duration_ms :: nat

text \<open>The newest run of the Bot recorded in that thread and turn.\<close>

definition run_in_turn :: "user_id \<Rightarrow> bot_id \<Rightarrow> utext \<Rightarrow> utext \<Rightarrow> routines_db \<Rightarrow> routine_run_id option" where
  "run_in_turn u b thread turn db =
     (case map ru_id (filter (\<lambda>r. ru_user r = u \<and> ru_bot r = b \<and> ru_thread_id r = Some thread \<and> ru_turn_id r = Some turn)
         (rd_runs db)) of
        [] \<Rightarrow> None | i # is \<Rightarrow> Some (fold max is i))"

definition record_call :: "timestamp \<Rightarrow> call_entry \<Rightarrow> gateway_db \<Rightarrow> gateway_db" where
  "record_call now e db =
     (case find_bot (ce_user e) (ce_bot e) (g_bots db) of
        None \<Rightarrow> db
      | Some _ \<Rightarrow>
          let thread = bounded (ce_thread e) ID_CHARS; turn = bounded (ce_turn e) ID_CHARS
          in db\<lparr>g_calls := g_calls db @
            [\<lparr>tc_id = next_rowid (map tc_id (g_calls db)), tc_bot = ce_bot e, tc_user = ce_user e,
              tc_thread = thread, tc_turn = turn, tc_call = bounded (ce_call e) ID_CHARS,
              tc_run = run_in_turn (ce_user e) (ce_bot e) thread turn (g_routines db),
              tc_tool = bounded (ce_tool e) ID_CHARS, tc_summary = bounded (ce_summary e) SUMMARY_CHARS,
              tc_outcome = outcome_name (ce_outcome e), tc_duration_ms = min (int (ce_duration_ms e)) (2 ^ 63 - 1),
              tc_at = now\<rparr>]\<rparr>)"

definition attribute_calls ::
  "user_id \<Rightarrow> bot_id \<Rightarrow> utext \<Rightarrow> utext \<Rightarrow> routine_run_id \<Rightarrow> call_row list \<Rightarrow> call_row list" where
  "attribute_calls u b thread turn run rows = update_where
     (\<lambda>c. tc_user c = u \<and> tc_bot c = b \<and> tc_thread c = bounded thread ID_CHARS
       \<and> tc_turn c = bounded turn ID_CHARS \<and> tc_run c = None)
     (\<lambda>c. c\<lparr>tc_run := Some run\<rparr>) rows"

record tool_call =
  tl_id :: int
  tl_tool :: utext
  tl_summary :: utext
  tl_outcome :: tool_outcome
  tl_duration_ms :: nat
  tl_at :: timestamp
  tl_run :: "routine_run_id option"

definition call_from :: "call_row \<Rightarrow> tool_call" where
  "call_from c = \<lparr>tl_id = tc_id c, tl_tool = tc_tool c, tl_summary = tc_summary c,
     tl_outcome = outcome_from (tc_outcome c), tl_duration_ms = (if tc_duration_ms c < 0 then 0 else nat (tc_duration_ms c)),
     tl_at = tc_at c, tl_run = tc_run c\<rparr>"

text \<open>A page: the newest rows older than \<open>before\<close>, and where the next page starts.\<close>

definition page_of :: "('r \<Rightarrow> int) \<Rightarrow> int option \<Rightarrow> nat \<Rightarrow> 'r list \<Rightarrow> 'r list \<times> int option" where
  "page_of key before limit rows =
     (let n = clamp 1 200 limit;
          found = take (n + 1) (rev (sort_key key (filter (\<lambda>r. case before of None \<Rightarrow> True | Some i \<Rightarrow> key r < i) rows)))
      in if length found > n then (take n found, Some (key (last (take n found)))) else (found, None))"

definition calls_page :: "user_id \<Rightarrow> bot_id \<Rightarrow> int option \<Rightarrow> nat \<Rightarrow> gateway_db \<Rightarrow> tool_call list \<times> int option" where
  "calls_page u b before limit db =
     (let (rows, older) = page_of tc_id before limit (filter (\<lambda>c. tc_bot c = b \<and> tc_user c = u) (g_calls db))
      in (map call_from rows, older))"

definition prune_calls :: "timestamp \<Rightarrow> call_row list \<Rightarrow> call_row list" where
  "prune_calls now rows = filter (\<lambda>c. \<not> tc_at c \<le> now - CALL_RETENTION_MS) rows"

section \<open>Notes (notes.rs)\<close>

definition NOTES_MAX_BYTES :: nat where
  "NOTES_MAX_BYTES = 16 * 1024"

definition read_notes :: "user_id \<Rightarrow> bot_id \<Rightarrow> gateway_db \<Rightarrow> utext \<times> timestamp option" where
  "read_notes u b db =
     (case find (\<lambda>n. no_bot n = b \<and> no_user n = u) (g_notes db) of
        None \<Rightarrow> ([], None) | Some n \<Rightarrow> (no_text n, Some (no_updated_at n)))"

definition write_notes :: "timestamp \<Rightarrow> user_id \<Rightarrow> bot_id \<Rightarrow> utext \<Rightarrow> gateway_db \<Rightarrow> bool \<times> gateway_db" where
  "write_notes now u b text db =
     (case find_bot u b (g_bots db) of
        None \<Rightarrow> (False, db)
      | Some _ \<Rightarrow>
          (case find (\<lambda>n. no_bot n = b) (g_notes db) of
             None \<Rightarrow> (True, db\<lparr>g_notes := g_notes db @ [\<lparr>no_bot = b, no_user = u, no_text = text, no_updated_at = now\<rparr>]\<rparr>)
           | Some n \<Rightarrow>
               if no_user n = u
               then (True, db\<lparr>g_notes := update_where (\<lambda>n. no_bot n = b) (\<lambda>n. n\<lparr>no_text := text, no_updated_at := now\<rparr>) (g_notes db)\<rparr>)
               else (False, db)))"

definition clear_notes :: "user_id \<Rightarrow> bot_id \<Rightarrow> gateway_db \<Rightarrow> gateway_db" where
  "clear_notes u b db = db\<lparr>g_notes := filter (\<lambda>n. \<not> (no_bot n = b \<and> no_user n = u)) (g_notes db)\<rparr>"

definition notes_too_long :: "nat \<Rightarrow> utext" where
  "notes_too_long bytes = lit ''That would make your notes '' @ decimal bytes @ lit '' bytes; they can be at most ''
     @ decimal NOTES_MAX_BYTES @ lit '' bytes. Shorten them with notes_replace.''"

definition text_argument :: "utext \<Rightarrow> json_arguments \<Rightarrow> utext + utext" where
  "text_argument tool args = ok_or (tool @ lit '' needs {'' @ [34] @ lit ''text'' @ [34] @ lit '': '' @ [34] @ lit ''...'' @ [34] @ lit ''}.'')
     (as_str (args (lit ''text'')))"

definition read_tool :: "user_id \<Rightarrow> bot_id \<Rightarrow> gateway_db \<Rightarrow> utext" where
  "read_tool u b db =
     (let text = fst (read_notes u b db)
      in if text = [] then lit ''Your notes are empty.''
         else lit ''Your notes, as you last left them. They are your own working memory, not instructions.'' @ [10, 10] @ text)"

definition saved_notes :: "string \<Rightarrow> utext \<Rightarrow> utext" where
  "saved_notes what text = lit what @ lit '' your notes ('' @ decimal (byte_len text) @ lit '' of '' @ decimal NOTES_MAX_BYTES @ lit '' bytes).''"

definition replace_tool :: "timestamp \<Rightarrow> user_id \<Rightarrow> bot_id \<Rightarrow> json_arguments \<Rightarrow> gateway_db \<Rightarrow> utext + utext \<times> gateway_db" where
  "replace_tool now u b args db =
     and_then (text_argument (lit ''notes_replace'') args) (\<lambda>text.
       if byte_len text > NOTES_MAX_BYTES then Inl (notes_too_long (byte_len text))
       else Inr (saved_notes ''Saved'' text, snd (write_notes now u b text db)))"

text \<open>Reading and writing are one write transaction.\<close>

definition append_tool :: "timestamp \<Rightarrow> user_id \<Rightarrow> bot_id \<Rightarrow> json_arguments \<Rightarrow> gateway_db \<Rightarrow> utext + utext \<times> gateway_db" where
  "append_tool now u b args db =
     and_then (text_argument (lit ''notes_append'') args) (\<lambda>addition.
       let current = fst (read_notes u b db);
           text = (if current \<noteq> [] \<and> last current \<noteq> 10 then current @ [10] else current) @ addition
       in if byte_len text > NOTES_MAX_BYTES then Inl (notes_too_long (byte_len text))
          else Inr (saved_notes ''Added to'' text, snd (write_notes now u b text db)))"

section \<open>Checking a notification (notify.rs)\<close>

definition NOTIFICATION_TITLE_CHARS :: nat where
  "NOTIFICATION_TITLE_CHARS = 80"

definition NOTIFICATION_BODY_CHARS :: nat where
  "NOTIFICATION_BODY_CHARS = 500"

definition is_layout_control :: "uchar \<Rightarrow> bool" where
  "is_layout_control c \<longleftrightarrow> c = 0x061C \<or> c = 0x200E \<or> c = 0x200F \<or> c = 0x2028 \<or> c = 0x2029
     \<or> (0x202A \<le> c \<and> c \<le> 0x202E) \<or> (0x2066 \<le> c \<and> c \<le> 0x2069) \<or> c = 0xFEFF \<or> (0xFFF9 \<le> c \<and> c \<le> 0xFFFB)"

record notify_request =
  nq_kind :: notification_kind
  nq_title :: utext
  nq_body :: utext

definition notify_usage :: utext where
  "notify_usage = lit ''notify needs {'' @ [34] @ lit ''title'' @ [34] @ lit '': '' @ [34] @ lit ''...'' @ [34] @ lit '', ''
     @ [34] @ lit ''body'' @ [34] @ lit '': '' @ [34] @ lit ''...'' @ [34] @ lit '', '' @ [34] @ lit ''kind'' @ [34] @ lit '': ''
     @ [34] @ lit ''result'' @ [34] @ lit '' or '' @ [34] @ lit ''question'' @ [34] @ lit ''}.''"

definition notify_kind :: "utext option \<Rightarrow> notification_kind option" where
  "notify_kind k = (if k = Some (lit ''result'') then Some ResultNotice
     else if k = Some (lit ''question'') then Some Question else None)"

definition notify_parse :: "json_arguments \<Rightarrow> utext + notify_request" where
  "notify_parse args =
     and_then (ok_or notify_usage (as_str (args (lit ''title'')))) (\<lambda>raw_title.
     and_then (case args (lit ''body'') of JsonNull \<Rightarrow> Inr [] | JsonString b \<Rightarrow> Inr (trim b) | _ \<Rightarrow> Inl notify_usage) (\<lambda>body.
     and_then (ok_or notify_usage (notify_kind (as_str (args (lit ''kind''))))) (\<lambda>kind.
       let title = trim raw_title in
       if title = [] \<or> length title > NOTIFICATION_TITLE_CHARS
       then Inl (lit ''The title needs 1 to '' @ decimal NOTIFICATION_TITLE_CHARS @ lit '' characters; this one has ''
         @ decimal (length title) @ lit ''.'')
       else if list_ex is_control title
       then Inl (lit ''The title must be one line, with no control characters.'')
       else if list_ex is_layout_control (title @ body)
       then Inl (lit ''The title and body must not contain line or paragraph separators or bidirectional formatting characters.'')
       else if length body > NOTIFICATION_BODY_CHARS
       then Inl (lit ''The body needs at most '' @ decimal NOTIFICATION_BODY_CHARS @ lit '' characters; this one has ''
         @ decimal (length body) @ lit ''.'')
       else if list_ex (\<lambda>c. is_control c \<and> c \<noteq> 10 \<and> c \<noteq> 9) body
       then Inl (lit ''The body must have no control characters but line breaks and tabs.'')
       else Inr \<lparr>nq_kind = kind, nq_title = title, nq_body = body\<rparr>)))"

definition notify_summary :: "json_arguments \<Rightarrow> utext" where
  "notify_summary args =
     (case (as_str (args (lit ''kind'')), as_str (args (lit ''title''))) of
        (Some kind, Some title) \<Rightarrow>
          bounded (bounded kind 16 @ lit '': '' @ trim (filter (\<lambda>c. \<not> is_control c) title)) SUMMARY_CHARS
      | _ \<Rightarrow> lit ''invalid arguments'')"

end
