(* ===== verification/PushQueue.thy ===== *)
theory PushQueue
  imports NotifyRequest Presence
begin

text \<open>
  \<open>crates/bokkie-gateway/src/push/mod.rs\<close> and \<open>push/subscription.rs\<close>: the queue of pushes, what
  a run's end pushes, and the sender. Encryption, VAPID tokens, JSON and HTTP are calls of
  libraries: what a delivery came to is an argument.
\<close>

section \<open>Limits and names\<close>

definition HOURLY_LIMIT :: nat where
  "HOURLY_LIMIT = 20"

definition QUEUE_EXPIRY_MS :: int where
  "QUEUE_EXPIRY_MS = HOUR_MS"

definition PUSH_RETENTION_MS :: int where
  "PUSH_RETENTION_MS = DAY_MS"

definition PAYLOAD_BYTES :: nat where
  "PAYLOAD_BYTES = 3000"

definition TITLE_CHARS :: nat where
  "TITLE_CHARS = 80"

definition FALLBACK_TITLE :: utext where
  "FALLBACK_TITLE = lit ''Your Bot''"

definition LINE_CHARS :: nat where
  "LINE_CHARS = 200"

definition USIZE_MAX :: nat where
  "USIZE_MAX = 2 ^ 64 - 1"

fun urgency_of :: "notification_kind \<Rightarrow> urgency" where
  "urgency_of Question = HighUrgency"
| "urgency_of ResultNotice = NormalUrgency"

section \<open>Text of notifications\<close>

text \<open>The ellipsis, and the middle dot between a Bot's name and its routine's.\<close>

definition ELLIPSIS :: uchar where
  "ELLIPSIS = 0x2026"

definition MIDDLE_DOT :: utext where
  "MIDDLE_DOT = [32, 0xB7, 32]"

definition clean :: "utext \<Rightarrow> nat \<Rightarrow> utext" where
  "clean text chars =
     (let kept = trim (filter (\<lambda>c. c = 10 \<or> \<not> (is_control c \<or> is_layout_control c)) text)
      in if length kept \<le> chars then kept else trim_end (take (chars - 1) kept) @ [ELLIPSIS])"

text \<open>Default-ignorable code points.\<close>

definition not_drawn :: "uchar \<Rightarrow> bool" where
  "not_drawn c \<longleftrightarrow> c = 0xAD \<or> c = 0x34F \<or> c = 0x61C \<or> (0x115F \<le> c \<and> c \<le> 0x1160) \<or> (0x17B4 \<le> c \<and> c \<le> 0x17B5)
     \<or> (0x180B \<le> c \<and> c \<le> 0x180F) \<or> (0x200B \<le> c \<and> c \<le> 0x200F) \<or> (0x202A \<le> c \<and> c \<le> 0x202E)
     \<or> (0x2060 \<le> c \<and> c \<le> 0x206F) \<or> c = 0x3164 \<or> (0xFE00 \<le> c \<and> c \<le> 0xFE0F) \<or> c = 0xFEFF \<or> c = 0xFFA0
     \<or> (0xFFF0 \<le> c \<and> c \<le> 0xFFF8) \<or> (0x1BCA0 \<le> c \<and> c \<le> 0x1BCA3) \<or> (0x1D173 \<le> c \<and> c \<le> 0x1D17A)
     \<or> (0xE0000 \<le> c \<and> c \<le> 0xE0FFF)"

definition shown_text :: "utext \<Rightarrow> utext option" where
  "shown_text text = (if list_ex (\<lambda>c. \<not> (is_white c \<or> not_drawn c)) text then Some text else None)"

definition bot_title :: "utext \<Rightarrow> utext" where
  "bot_title name = (case shown_text (clean name TITLE_CHARS) of None \<Rightarrow> FALLBACK_TITLE | Some t \<Rightarrow> t)"

definition notification_text :: "utext \<Rightarrow> utext \<Rightarrow> utext" where
  "notification_text title body = (if body = [] then title else title @ 10 # body)"

definition sentence :: "utext \<Rightarrow> utext" where
  "sentence text = (let t = trim text in if t \<noteq> [] \<and> last t \<in> set (lit ''.!?'') then t else t @ lit ''.'')"

text \<open>\<open>lines()\<close>: a line ends with a line feed, or a carriage return and a line feed.\<close>

definition strip_cr :: "utext \<Rightarrow> utext" where
  "strip_cr t = (if t \<noteq> [] \<and> last t = 13 then butlast t else t)"

definition text_lines :: "utext \<Rightarrow> utext list" where
  "text_lines t = (let ps = split_on 10 t in map strip_cr (butlast ps) @ (if last ps = [] then [] else [last ps]))"

definition marker_ends :: "utext \<Rightarrow> bool" where
  "marker_ends rest \<longleftrightarrow> rest = [] \<or> hd rest = 32 \<or> hd rest = 9"

text \<open>The loop takes one marker off the line each time round.\<close>

definition hashes :: "utext \<Rightarrow> nat" where
  "hashes l = length (takeWhile (\<lambda>c. c = 35) l)"

function without_block_markers :: "utext \<Rightarrow> utext" where
  "without_block_markers text =
     (let l = trim_start text in
      if l \<noteq> [] \<and> hd l = 62 then without_block_markers (tl l)
      else if 1 \<le> hashes l \<and> hashes l \<le> 6 \<and> marker_ends (drop (hashes l) l)
      then without_block_markers (drop (hashes l) l)
      else if l \<noteq> [] \<and> hd l \<in> set (lit ''-*+'') \<and> marker_ends (tl l) then without_block_markers (tl l)
      else l)"
  by pat_completeness auto

lemma length_trim_start: "length (trim_start t) \<le> length t"
  by (simp add: trim_start_def length_dropWhile_le)

termination without_block_markers
proof (relation "measure length")
  have shorter: "(y, u) \<in> measure length" if "x = trim_start u" "length y < length x" for u x y :: utext
    using that length_trim_start [of u] by simp
  have tl: "length (tl x) < length x" if "x \<noteq> []" for x :: utext using that by (cases x) simp_all
  show "wf (measure (length :: utext \<Rightarrow> nat))" by simp
  show "(tl x, u) \<in> measure length" if "x = trim_start u" "x \<noteq> [] \<and> hd x = 62" for u x :: utext
    using that tl shorter by blast
  show "(drop (hashes x) x, u) \<in> measure length"
    if "x = trim_start u" "1 \<le> hashes x \<and> hashes x \<le> 6 \<and> marker_ends (drop (hashes x) x)" for u x :: utext
  proof (rule shorter [OF that(1)])
    show "length (drop (hashes x) x) < length x" using that(2) by (cases x) (auto simp: hashes_def split: if_splits)
  qed
  show "(tl x, u) \<in> measure length"
    if "x = trim_start u" "x \<noteq> [] \<and> hd x \<in> set (lit ''-*+'') \<and> marker_ends (tl x)" for u x :: utext
    using that tl shorter by blast
qed

declare without_block_markers.simps [simp del]

definition thematic_break :: "utext \<Rightarrow> bool" where
  "thematic_break l =
     (case filter (\<lambda>c. c \<noteq> 32 \<and> c \<noteq> 9) l of
        [] \<Rightarrow> False
      | m # marks \<Rightarrow> m \<in> set (lit ''-*_'') \<and> list_all (\<lambda>c. c = m) marks \<and> length marks \<ge> 2)"

text \<open>\<open>replace\<close> of a doubled character with nothing.\<close>

fun remove_pairs :: "uchar \<Rightarrow> utext \<Rightarrow> utext" where
  "remove_pairs c (a # b # t) = (if a = c \<and> b = c then remove_pairs c t else a # remove_pairs c (b # t))"
| "remove_pairs c t = t"

definition line_words :: "utext \<Rightarrow> utext option" where
  "line_words raw =
     (let l = without_block_markers raw in
      if thematic_break l then None
      else
        let t = clean (trim (filter (\<lambda>c. c \<noteq> 96) (remove_pairs 95 (remove_pairs 42 l)))) LINE_CHARS
        in if t = [] then None else Some t)"

fun find_map :: "('a \<Rightarrow> 'b option) \<Rightarrow> 'a list \<Rightarrow> 'b option" where
  "find_map f [] = None"
| "find_map f (x # xs) = (case f x of None \<Rightarrow> find_map f xs | Some y \<Rightarrow> Some y)"

definition first_line :: "utext \<Rightarrow> utext option" where
  "first_line text = find_map line_words (text_lines text)"

section \<open>Queueing\<close>

record new_push =
  np_user :: user_id
  np_bot :: bot_id
  np_cause :: push_cause
  np_notification :: "notification_id option"
  np_run :: "routine_run_id option"
  np_urgency :: urgency
  np_title :: utext
  np_body :: utext

definition bot_name :: "user_id \<Rightarrow> bot_id \<Rightarrow> gateway_db \<Rightarrow> utext option" where
  "bot_name u b db =
     (if user_enabled u db then map_option br_name (find_bot u b (g_bots db)) else None)"

definition queue_push :: "timestamp \<Rightarrow> new_push \<Rightarrow> tx \<Rightarrow> tx" where
  "queue_push now p t =
     (case bot_name (np_user p) (np_bot p) (t_db t) of
        None \<Rightarrow> t
      | Some _ \<Rightarrow> wake_sender (on_pushes (\<lambda>rows. rows @
          [\<lparr>pu_id = next_rowid (map pu_id rows), pu_user = np_user p, pu_bot = np_bot p, pu_cause = np_cause p,
            pu_notification = np_notification p, pu_run = np_run p, pu_urgency = np_urgency p,
            pu_title = (case shown_text (clean (np_title p) TITLE_CHARS) of None \<Rightarrow> FALLBACK_TITLE | Some s \<Rightarrow> s),
            pu_body = clean (np_body p) USIZE_MAX, pu_state = PushQueued, pu_created_at = now,
            pu_sent_at = None, pu_settled_at = None\<rparr>]) t))"

definition notified :: "timestamp \<Rightarrow> user_id \<Rightarrow> bot_id \<Rightarrow> notification_id \<Rightarrow> notify_request \<Rightarrow> tx \<Rightarrow> tx" where
  "notified now u b n q t =
     (case bot_name u b (t_db t) of
        None \<Rightarrow> t
      | Some name \<Rightarrow> queue_push now \<lparr>np_user = u, np_bot = b, np_cause = NotifyCause, np_notification = Some n,
          np_run = None, np_urgency = urgency_of (nq_kind q), np_title = bot_title name,
          np_body = notification_text (nq_title q) (nq_body q)\<rparr> t)"

section \<open>What a run's end pushes\<close>

text \<open>The newest question of the run's turn, or else its newest notification.\<close>

definition run_notification :: "run_row \<Rightarrow> gateway_db \<Rightarrow> notification_row option" where
  "run_notification run db =
     (let rows = filter (\<lambda>n. nt_user n = ru_user run \<and> nt_run n = Some (ru_id run)) (g_notifications db)
      in case sort_key (\<lambda>n. (nt_kind n \<noteq> Question, - nt_id n)) rows of [] \<Rightarrow> None | n # _ \<Rightarrow> Some n)"

definition reply_line :: "run_row \<Rightarrow> gateway_db \<Rightarrow> utext option" where
  "reply_line run db =
     (case ru_turn_id run of
        None \<Rightarrow> None
      | Some turn \<Rightarrow>
          (case rev (sort_key ms_id (filter (\<lambda>m. ms_user_id m = ru_user run \<and> ms_bot_id m = ru_bot run
               \<and> ms_turn_id m = Some turn \<and> ms_author m = lit ''bot'' \<and> ms_kind m = lit ''text''
               \<and> list_ex (\<lambda>c. c \<noteq> 32) (ms_text m)) (bd_messages (g_bots db)))) of
             [] \<Rightarrow> None
           | m # _ \<Rightarrow> first_line (ms_text m)))"

text \<open>A notification of the run whose own push still waits is merged into the run's push.\<close>

definition merge_pushes :: "timestamp \<Rightarrow> run_row \<Rightarrow> tx \<Rightarrow> tx" where
  "merge_pushes now run t =
     (let own = map nt_id (filter (\<lambda>n. nt_user n = ru_user run \<and> nt_run n = Some (ru_id run)) (g_notifications (t_db t)))
      in on_pushes (update_where
           (\<lambda>p. pu_user p = ru_user run \<and> pu_state p = PushQueued \<and> pu_cause p = NotifyCause
             \<and> list_ex (\<lambda>n. pu_notification p = Some n) own)
           (\<lambda>p. p\<lparr>pu_state := PushMerged, pu_settled_at := Some now\<rparr>)) t)"

definition already_sent :: "user_id \<Rightarrow> notification_id \<Rightarrow> gateway_db \<Rightarrow> bool" where
  "already_sent u n db \<longleftrightarrow> list_ex (\<lambda>p. pu_user p = u \<and> pu_notification p = Some n \<and> pu_cause p = NotifyCause
     \<and> pu_state p \<noteq> PushMerged) (g_pushes db)"

definition carried_notification :: "run_row \<Rightarrow> run_state \<Rightarrow> gateway_db \<Rightarrow> notification_row option" where
  "carried_notification run state db =
     (if state = RunMissed then None
      else case run_notification run db of
          None \<Rightarrow> None
        | Some n \<Rightarrow> if already_sent (ru_user run) (nt_id n) db then None else Some n)"

definition STOPPED :: utext where
  "STOPPED = lit ''Stopped before it finished''"

definition DISABLED :: utext where
  "DISABLED = lit ''Your account is disabled''"

text \<open>The cause, urgency, body and notification of the run's push, if it pushes.\<close>

type_synonym push_content = "push_cause \<times> urgency \<times> utext \<times> notification_id option"

definition with_carried :: "notification_row option \<Rightarrow> push_cause \<Rightarrow> utext \<Rightarrow> push_content" where
  "with_carried carried cause text =
     (case carried of
        Some n \<Rightarrow> (cause, urgency_of (nt_kind n), notification_text (nt_title n) (nt_body n) @ 10 # text, Some (nt_id n))
      | None \<Rightarrow> (cause, NormalUrgency, text, None))"

definition carried_alone :: "notification_row option \<Rightarrow> push_content option" where
  "carried_alone carried =
     map_option (\<lambda>n. (RunCause, urgency_of (nt_kind n), notification_text (nt_title n) (nt_body n), Some (nt_id n))) carried"

definition run_push ::
  "run_row \<Rightarrow> run_state \<Rightarrow> bool \<Rightarrow> routine_row \<Rightarrow> gateway_db \<Rightarrow> push_content option" where
  "run_push run state paused routine db =
     (let carried = carried_notification run state db; reason = ru_reason run;
          why = sentence (coalesce reason (lit ''The run did not finish'')) in
      if state = RunSucceeded then
        if carried \<noteq> None then carried_alone carried
        else if ro_push routine = EveryRun \<and> run_notification run db = None
        then Some (RunCause, NormalUrgency, coalesce (reply_line run db) (lit ''Finished, with no reply.''), None)
        else None
      else if state = RunInterrupted \<and> reason = Some STOPPED then carried_alone carried
      else if (state = RunFailed \<or> state = RunInterrupted) \<and> paused
      then Some (with_carried carried PauseCause
        (why @ lit '' Paused after '' @ decimal (ro_failures routine) @ lit '' failed runs in a row.''))
      else if state = RunFailed \<or> state = RunInterrupted then Some (with_carried carried FailureCause why)
      else if state = RunMissed \<and> reason \<noteq> Some DISABLED
      then Some (MissCause, NormalUrgency, lit ''Missed a run. '' @ sentence (coalesce reason (lit ''It did not run'')), None)
      else None)"

definition push_title :: "utext \<Rightarrow> routine_row \<Rightarrow> utext" where
  "push_title name routine =
     (case shown_text (clean (ro_name routine) TITLE_CHARS) of
        Some r \<Rightarrow> bot_title name @ MIDDLE_DOT @ r
      | None \<Rightarrow> bot_title name)"

definition run_ended :: "timestamp \<Rightarrow> run_row \<Rightarrow> run_state \<Rightarrow> bool \<Rightarrow> tx \<Rightarrow> tx" where
  "run_ended now run state paused t0 =
     (let t = merge_pushes now run t0 in
      case bot_name (ru_user run) (ru_bot run) (t_db t) of
        None \<Rightarrow> t
      | Some name \<Rightarrow>
          (case routine_of_user (ru_user run) (ru_routine run) (g_routines (t_db t)) of
             None \<Rightarrow> t
           | Some routine \<Rightarrow>
               (case run_push run state paused routine (t_db t) of
                  None \<Rightarrow> t
                | Some (cause, urg, body, notification) \<Rightarrow>
                    queue_push now \<lparr>np_user = ru_user run, np_bot = ru_bot run, np_cause = cause,
                      np_notification = notification, np_run = Some (ru_id run), np_urgency = urg,
                      np_title = push_title name routine, np_body = body\<rparr> t)))"

end
