(* ===== verification/PushSender.thy ===== *)
theory PushSender
  imports PushQueue
begin

text \<open>
  The sender of \<open>crates/bokkie-gateway/src/push/mod.rs\<close> and the subscriptions of
  \<open>push/subscription.rs\<close>: what becomes of each queued push, how a delivery is retried and how a
  payload is cut to fit.
\<close>

section \<open>Subscriptions (subscription.rs)\<close>

definition PUSH_ENDPOINT_BYTES :: nat where
  "PUSH_ENDPOINT_BYTES = 1024"

text \<open>What the \<open>url\<close> library says of an endpoint.\<close>

record endpoint_url =
  ep_text :: utext
  ep_scheme :: utext
  ep_named_host :: bool
  ep_username :: utext
  ep_password :: "utext option"
  ep_fragment :: "utext option"

record subscription =
  sp_endpoint :: utext
  sp_p256dh :: "nat list"
  sp_auth :: "nat list"

text \<open>\<open>url\<close>, \<open>base64\<close> and \<open>on_curve\<close> are what the libraries make of an endpoint, a key's text and a key.\<close>

definition parse_subscription ::
  "(utext \<Rightarrow> endpoint_url option) \<Rightarrow> (utext \<Rightarrow> nat list option) \<Rightarrow> (nat list \<Rightarrow> bool) \<Rightarrow> utext \<Rightarrow> utext \<Rightarrow> utext
   \<Rightarrow> utext + subscription" where
  "parse_subscription url base64 on_curve endpoint p256dh auth =
     (let unpadded = (\<lambda>t. rev (dropWhile (\<lambda>c. c = 61) (rev t))) in
      if byte_len endpoint > PUSH_ENDPOINT_BYTES
      then Inl (lit ''The endpoint must be at most '' @ decimal PUSH_ENDPOINT_BYTES @ lit '' bytes.'')
      else and_then (ok_or (lit ''The endpoint is not a URL.'') (url endpoint)) (\<lambda>e.
        if ep_scheme e \<noteq> lit ''https'' then Inl (lit ''The endpoint must be an https URL.'')
        else if \<not> ep_named_host e then Inl (lit ''The endpoint must name its host.'')
        else if ep_username e \<noteq> [] \<or> ep_password e \<noteq> None
        then Inl (lit ''The endpoint must not carry a user name or password.'')
        else if ep_fragment e \<noteq> None then Inl (lit ''The endpoint must not have a fragment.'')
        else and_then (case base64 (unpadded p256dh) of
             Some key \<Rightarrow> if length key = 65 \<and> key ! 0 = 4 \<and> on_curve key then Inr key
               else Inl (lit ''keys.p256dh must be an uncompressed P-256 public key.'')
           | None \<Rightarrow> Inl (lit ''keys.p256dh must be an uncompressed P-256 public key.'')) (\<lambda>key.
        and_then (case base64 (unpadded auth) of
             Some secret \<Rightarrow> if length secret = 16 then Inr secret else Inl (lit ''keys.auth must be 16 bytes.'')
           | None \<Rightarrow> Inl (lit ''keys.auth must be 16 bytes.'')) (\<lambda>secret.
          Inr \<lparr>sp_endpoint = ep_text e, sp_p256dh = key, sp_auth = secret\<rparr>))))"

definition session_lives :: "timestamp \<Rightarrow> user_id \<Rightarrow> int \<Rightarrow> accounts_db \<Rightarrow> bool" where
  "session_lives now u session db \<longleftrightarrow> list_ex (\<lambda>s. se_id s = session \<and> se_user_id s = u
     \<and> se_revoked_at s = None \<and> se_expires_at s > now) (db_sessions db)"

definition put_subscription ::
  "timestamp \<Rightarrow> user_id \<Rightarrow> int \<Rightarrow> subscription \<Rightarrow> gateway_db \<Rightarrow> bool \<times> gateway_db" where
  "put_subscription now u session s db =
     (let rows = filter (\<lambda>r. \<not> (sb_endpoint r = sp_endpoint s \<and> sb_session r \<noteq> session)) (g_subscriptions db) in
      if \<not> session_lives now u session (g_accounts db) then (False, db\<lparr>g_subscriptions := rows\<rparr>)
      else if list_ex (\<lambda>r. sb_session r = session) rows
      then (True, db\<lparr>g_subscriptions := update_where (\<lambda>r. sb_session r = session)
        (\<lambda>r. r\<lparr>sb_endpoint := sp_endpoint s, sb_p256dh := sp_p256dh s, sb_auth := sp_auth s, sb_updated_at := now\<rparr>) rows\<rparr>)
      else (True, db\<lparr>g_subscriptions := rows @
        [\<lparr>sb_id = next_rowid (map sb_id rows), sb_user = u, sb_session = session, sb_endpoint = sp_endpoint s,
          sb_p256dh = sp_p256dh s, sb_auth = sp_auth s, sb_created_at = now, sb_updated_at = now\<rparr>]\<rparr>))"

text \<open>The route: a session that ended meanwhile changes nothing, since the transaction is dropped.\<close>

definition subscribe_route ::
  "timestamp \<Rightarrow> user_id \<Rightarrow> int \<Rightarrow> utext + subscription \<Rightarrow> gateway_db \<Rightarrow> failure + gateway_db" where
  "subscribe_route now u session parsed db =
     (case parsed of
        Inl e \<Rightarrow> Inl (invalid e)
      | Inr s \<Rightarrow>
          let (saved, db') = put_subscription now u session s db
          in if saved then Inr db' else Inl unauthenticated)"

definition subscription_exists :: "user_id \<Rightarrow> int \<Rightarrow> gateway_db \<Rightarrow> bool" where
  "subscription_exists u session db \<longleftrightarrow> list_ex (\<lambda>r. sb_session r = session \<and> sb_user r = u) (g_subscriptions db)"

definition delete_subscription :: "user_id \<Rightarrow> int \<Rightarrow> gateway_db \<Rightarrow> bool \<times> gateway_db" where
  "delete_subscription u session db =
     (subscription_exists u session db,
      db\<lparr>g_subscriptions := filter (\<lambda>r. \<not> (sb_session r = session \<and> sb_user r = u)) (g_subscriptions db)\<rparr>)"

definition live_subscriptions :: "timestamp \<Rightarrow> user_id \<Rightarrow> gateway_db \<Rightarrow> subscription_row list" where
  "live_subscriptions now u db =
     (if user_enabled u db
      then sort_key sb_id (filter (\<lambda>r. sb_user r = u \<and> session_lives now u (sb_session r) (g_accounts db)) (g_subscriptions db))
      else [])"

definition remove_subscription :: "subscription_row \<Rightarrow> gateway_db \<Rightarrow> gateway_db" where
  "remove_subscription r db =
     db\<lparr>g_subscriptions := filter (\<lambda>x. \<not> (sb_id x = sb_id r \<and> sb_endpoint x = sb_endpoint r)) (g_subscriptions db)\<rparr>"

definition prune_subscriptions :: "timestamp \<Rightarrow> gateway_db \<Rightarrow> gateway_db" where
  "prune_subscriptions now db = db\<lparr>g_subscriptions := filter (\<lambda>r. \<not> list_ex (\<lambda>s. se_id s = sb_session r
     \<and> (se_expires_at s \<le> now \<or> se_revoked_at s \<noteq> None)) (db_sessions (g_accounts db))) (g_subscriptions db)\<rparr>"

section \<open>The payload\<close>

definition cut_body :: "utext \<Rightarrow> nat \<Rightarrow> utext" where
  "cut_body body n = trim_end (take n body) @ [ELLIPSIS]"

text \<open>\<open>encode b\<close> is the length of the message encoded with the body \<open>b\<close>.\<close>

function longest_fit :: "(utext \<Rightarrow> nat) \<Rightarrow> utext \<Rightarrow> nat \<Rightarrow> nat \<Rightarrow> nat" where
  "longest_fit encode body fits too_long =
     (if too_long - fits > 1 then
        let middle = (fits + too_long) div 2 in
        if encode (cut_body body middle) \<le> PAYLOAD_BYTES then longest_fit encode body middle too_long
        else longest_fit encode body fits middle
      else fits)"
  by pat_completeness auto
termination by (relation "measure (\<lambda>(encode, body, fits, too_long). too_long - fits)") auto

declare longest_fit.simps [simp del]

definition payload_body :: "(utext \<Rightarrow> nat) \<Rightarrow> utext \<Rightarrow> utext" where
  "payload_body encode body =
     (if encode body \<le> PAYLOAD_BYTES then body else cut_body body (longest_fit encode body 0 (length body)))"

section \<open>Deciding\<close>

datatype decision = SendTo "subscription_row list" | DropPush push_state

definition counts_as_sent :: "push_row \<Rightarrow> bool" where
  "counts_as_sent p \<longleftrightarrow> pu_state p = PushSending \<or> pu_state p = PushSent \<or> pu_state p = PushFailed"

definition sent_since :: "timestamp \<Rightarrow> user_id \<Rightarrow> push_row list \<Rightarrow> nat" where
  "sent_since t u rows = length (filter (\<lambda>p. pu_user p = u \<and> counts_as_sent p
     \<and> (case pu_sent_at p of None \<Rightarrow> False | Some s \<Rightarrow> s > t)) rows)"

text \<open>\<open>shown\<close> is what presence says of the Bot, and \<open>sending\<close> whether a contact is configured.\<close>

definition decide :: "timestamp \<Rightarrow> bool \<Rightarrow> bool \<Rightarrow> push_row \<Rightarrow> gateway_db \<Rightarrow> decision" where
  "decide now sending shown p db =
     (if now - pu_created_at p \<ge> QUEUE_EXPIRY_MS then DropPush PushExpired
      else if \<not> user_enabled (pu_user p) db then DropPush PushDisabled
      else if pu_cause p = NotifyCause \<and> list_ex (\<lambda>n. Some (nt_id n) = pu_notification p
          \<and> nt_user n = pu_user p \<and> nt_run n \<noteq> None) (g_notifications db) then DropPush PushMerged
      else if shown then DropPush PushShown
      else if \<not> sending then DropPush PushUnconfigured
      else
        let targets = live_subscriptions now (pu_user p) db in
        if targets = [] then DropPush PushUnsubscribed
        else if sent_since (now - HOUR_MS) (pu_user p) (g_pushes db) \<ge> HOURLY_LIMIT then DropPush PushLimited
        else SendTo targets)"

definition set_push :: "int \<Rightarrow> push_state \<Rightarrow> (push_row \<Rightarrow> push_row) \<Rightarrow> gateway_db \<Rightarrow> gateway_db" where
  "set_push i from f db = db\<lparr>g_pushes := update_where (\<lambda>p. pu_id p = i \<and> pu_state p = from) f (g_pushes db)\<rparr>"

text \<open>One write transaction: the push as read before, its fate, and the targets and badge if it is sent.\<close>

definition claim_push ::
  "timestamp \<Rightarrow> bool \<Rightarrow> bool \<Rightarrow> push_row \<Rightarrow> gateway_db \<Rightarrow> (subscription_row list \<times> nat) option \<times> gateway_db" where
  "claim_push now sending shown p db =
     (case decide now sending shown p db of
        DropPush s \<Rightarrow> (None, set_push (pu_id p) PushQueued (\<lambda>q. q\<lparr>pu_state := s, pu_settled_at := Some now\<rparr>) db)
      | SendTo targets \<Rightarrow>
          if matched (\<lambda>q. pu_id q = pu_id p \<and> pu_state q = PushQueued) (g_pushes db) = 0 then (None, db)
          else (Some (targets, unread_bots (pu_user p) (g_bots db)),
            set_push (pu_id p) PushQueued (\<lambda>q. q\<lparr>pu_state := PushSending, pu_sent_at := Some now\<rparr>) db))"

text \<open>The page of queued pushes that \<open>deliver_pending\<close> reads next.\<close>

definition queued_after :: "int \<Rightarrow> gateway_db \<Rightarrow> push_row list" where
  "queued_after i db = take 32 (sort_key pu_id (filter (\<lambda>p. pu_state p = PushQueued \<and> pu_id p > i) (g_pushes db)))"

definition settle_push :: "timestamp \<Rightarrow> int \<Rightarrow> nat \<Rightarrow> gateway_db \<Rightarrow> gateway_db" where
  "settle_push now i delivered db = set_push i PushSending
     (\<lambda>p. p\<lparr>pu_state := (if delivered > 0 then PushSent else PushFailed), pu_settled_at := Some now\<rparr>) db"

definition recover_pushes :: "timestamp \<Rightarrow> gateway_db \<Rightarrow> gateway_db" where
  "recover_pushes now db = db\<lparr>g_pushes := update_where (\<lambda>p. pu_state p = PushSending)
     (\<lambda>p. p\<lparr>pu_state := PushFailed, pu_settled_at := Some now\<rparr>) (g_pushes db)\<rparr>"

definition prune_pushes :: "timestamp \<Rightarrow> gateway_db \<Rightarrow> gateway_db" where
  "prune_pushes now db =
     (let db1 = prune_subscriptions now db in
      db1\<lparr>g_pushes := filter (\<lambda>p. \<not> (pu_created_at p \<le> now - PUSH_RETENTION_MS
        \<and> pu_state p \<noteq> PushQueued \<and> pu_state p \<noteq> PushSending)) (g_pushes db1)\<rparr>)"

section \<open>Delivering\<close>

datatype attempt = Delivered | GoneForGood | RefusedPush | TokenRefused | TryAgain "nat option"

text \<open>\<open>Retry-After\<close> as \<open>parse::<u64>\<close> reads it: digits, after an optional plus.\<close>

definition parse_u64 :: "utext \<Rightarrow> nat option" where
  "parse_u64 t =
     (let ds = (case t of c # cs \<Rightarrow> if c = 43 then cs else t | [] \<Rightarrow> []);
          n = foldl (\<lambda>n c. n * 10 + (c - 48)) 0 ds
      in if ds \<noteq> [] \<and> list_all is_ascii_digit ds \<and> n < 2 ^ 64 then Some n else None)"

definition retry_after :: "utext option \<Rightarrow> nat option" where
  "retry_after header = (case header of None \<Rightarrow> None | Some h \<Rightarrow> map_option (\<lambda>s. s * 1000) (parse_u64 (trim h)))"

definition contains_text :: "utext \<Rightarrow> utext \<Rightarrow> bool" where
  "contains_text part t \<longleftrightarrow> list_ex (\<lambda>i. take (length part) (drop i t) = part) [0..<length t + 1]"

text \<open>\<open>why\<close> is the status and the service's reason.\<close>

definition classify :: "nat \<Rightarrow> utext \<Rightarrow> utext option \<Rightarrow> attempt" where
  "classify status why header =
     (if 200 \<le> status \<and> status \<le> 299 then Delivered
      else if status = 404 \<or> status = 410 then GoneForGood
      else if status = 403 \<and> contains_text (lit ''VapidPkHashMismatch'') why then GoneForGood
      else if status = 403 \<and> contains_text (lit ''BadJwtToken'') why then TokenRefused
      else if status = 429 \<or> (500 \<le> status \<and> status \<le> 599) then TryAgain (retry_after header)
      else RefusedPush)"

record retry =
  rt_retries :: nat
  rt_backoff_ms :: nat
  rt_longest_ms :: nat

definition default_retry :: retry where
  "default_retry = \<lparr>rt_retries = 3, rt_backoff_ms = 2000, rt_longest_ms = 60000\<rparr>"

definition retry_wait :: "retry \<Rightarrow> nat \<Rightarrow> nat option \<Rightarrow> nat" where
  "retry_wait r n asked = min (coalesce asked (rt_backoff_ms r * 2 ^ min n 16)) (rt_longest_ms r)"

text \<open>
  Attempt \<open>n\<close> and those after it, when attempt \<open>k\<close> comes to \<open>outcome k\<close>: whether the push
  arrived, whether the subscription ends, and the waits in between.
\<close>

function deliver_to :: "retry \<Rightarrow> (nat \<Rightarrow> attempt) \<Rightarrow> nat \<Rightarrow> bool \<times> bool \<times> nat list" where
  "deliver_to r outcome n =
     (case outcome n of
        Delivered \<Rightarrow> (True, False, [])
      | GoneForGood \<Rightarrow> (False, True, [])
      | RefusedPush \<Rightarrow> (False, False, [])
      | TokenRefused \<Rightarrow> (False, False, [])
      | TryAgain asked \<Rightarrow>
          if n \<ge> rt_retries r then (False, False, [])
          else let (arrived, gone, waits) = deliver_to r outcome (n + 1) in (arrived, gone, retry_wait r n asked # waits))"
  by pat_completeness auto
termination by (relation "measure (\<lambda>(r, outcome, n). rt_retries r - n)") auto

declare deliver_to.simps [simp del]

section \<open>Payloads fit\<close>

lemma trim_end_snoc: "trim_end (xs @ [c]) = (if is_white c then trim_end xs else xs @ [c])"
  by (simp add: trim_end_def)

lemma trim_end_weight: "sum_list (map (w :: uchar \<Rightarrow> nat) (trim_end xs)) \<le> sum_list (map w xs)"
proof -
  obtain ws where "xs = trim_end xs @ ws" using trim_end_split [of xs] by blast
  then have "sum_list (map w xs) = sum_list (map w (trim_end xs)) + sum_list (map w ws)"
    by (metis map_append sum_list_append)
  then show ?thesis by simp
qed

lemma cut_weight_mono:
  "n \<le> m \<Longrightarrow> sum_list (map (w :: uchar \<Rightarrow> nat) (trim_end (take n body))) \<le> sum_list (map w (trim_end (take m body)))"
proof (induction m rule: dec_induct)
  case (step m)
  have "sum_list (map w (trim_end (take m body))) \<le> sum_list (map w (trim_end (take (Suc m) body)))"
  proof (cases "m < length body")
    case True
    then show ?thesis
      using trim_end_weight [of w "take m body"] by (simp add: take_Suc_conv_app_nth trim_end_snoc)
  qed simp
  then show ?case using step by simp
qed simp

lemma longest_fit_finds:
  "\<lbrakk>\<forall>n m. n \<le> m \<longrightarrow> encode (cut_body body n) \<le> encode (cut_body body m);
      encode (cut_body body fits) \<le> PAYLOAD_BYTES; fits < too_long;
      too_long = length body \<or> encode (cut_body body too_long) > PAYLOAD_BYTES\<rbrakk>
    \<Longrightarrow> encode (cut_body body (longest_fit encode body fits too_long)) \<le> PAYLOAD_BYTES
      \<and> (\<forall>n. longest_fit encode body fits too_long < n \<and> n < length body \<longrightarrow> encode (cut_body body n) > PAYLOAD_BYTES)"
proof (induction encode body fits too_long rule: longest_fit.induct)
  case (1 encode body fits too_long)
  let ?m = "(fits + too_long) div 2"
  show ?case
  proof (cases "too_long - fits > 1")
    case True
    then have m: "fits < ?m" "?m < too_long" by simp_all
    show ?thesis
    proof (cases "encode (cut_body body ?m) \<le> PAYLOAD_BYTES")
      case fit: True
      have "longest_fit encode body fits too_long = longest_fit encode body ?m too_long"
        using True fit by (subst longest_fit.simps) (simp add: Let_def)
      then show ?thesis using 1(1) [OF True refl fit 1(3) fit m(2) 1(6)] by simp
    next
      case unfit: False
      have "longest_fit encode body fits too_long = longest_fit encode body fits ?m"
        using True unfit by (subst longest_fit.simps) (simp add: Let_def)
      then show ?thesis using 1(2) [OF True refl unfit 1(3,4) m(1)] unfit by simp
    qed
  next
    case False
    then have stop: "longest_fit encode body fits too_long = fits" by (subst longest_fit.simps) simp
    have "encode (cut_body body n) > PAYLOAD_BYTES" if n: "fits < n" "n < length body" for n
    proof -
      have "encode (cut_body body too_long) > PAYLOAD_BYTES" "too_long \<le> n"
        using False n 1(5,6) by auto
      then show ?thesis using 1(3) by (meson less_le_trans)
    qed
    then show ?thesis using stop 1(4) by simp
  qed
qed

text \<open>With a JSON encoding whose length adds up over the body's characters, a payload never
  passes the limit, a body that fits is sent whole, and one that does not is cut no shorter
  than it must be.\<close>

lemma payloads_fit:
  assumes "\<forall>b. encode b = fixed + sum_list (map width b)" and "fixed + width ELLIPSIS \<le> PAYLOAD_BYTES"
  shows "encode (payload_body encode body) \<le> PAYLOAD_BYTES
    \<and> (if encode body \<le> PAYLOAD_BYTES then payload_body encode body = body
       else \<exists>k. payload_body encode body = cut_body body k
         \<and> (\<forall>n. k < n \<and> n < length body \<longrightarrow> encode (cut_body body n) > PAYLOAD_BYTES))"
proof (cases "encode body \<le> PAYLOAD_BYTES")
  case False
  let ?k = "longest_fit encode body 0 (length body)"
  have cut: "encode (cut_body body n) = fixed + sum_list (map width (trim_end (take n body))) + width ELLIPSIS" for n
    using assms(1) by (simp add: cut_body_def)
  have mono: "\<forall>n m. n \<le> m \<longrightarrow> encode (cut_body body n) \<le> encode (cut_body body m)"
    by (simp add: cut cut_weight_mono)
  have "encode (cut_body body 0) \<le> PAYLOAD_BYTES" using assms(2) by (simp add: cut trim_end_def)
  moreover have "0 < length body" using False assms by (cases body) auto
  ultimately have "encode (cut_body body ?k) \<le> PAYLOAD_BYTES
      \<and> (\<forall>n. ?k < n \<and> n < length body \<longrightarrow> encode (cut_body body n) > PAYLOAD_BYTES)"
    using longest_fit_finds [OF mono] by blast
  then show ?thesis using False by (auto simp: payload_body_def)
qed (simp add: payload_body_def)

lemma payloads_fit_witness: "90 + 6 * length (payload_body (\<lambda>b. 90 + 6 * length b) (replicate 1000 97)) \<le> 3000"
  using payloads_fit [of "\<lambda>b. 90 + 6 * length b" 90 "\<lambda>_. 6" "replicate 1000 97"]
  by (simp add: sum_list_triv PAYLOAD_BYTES_def)

section \<open>Runs of the sender\<close>

text \<open>
  The steps on the table of pushes, in any order: queueing, a run's end, a claim (of a push read
  earlier, of which only the state can have changed since), the end of a delivery, a restart and pruning. Between them any other table may
  change; what is shown, configured and subscribed then is the step's.
\<close>

datatype push_op =
    QueuePush timestamp new_push
  | EndRun timestamp run_row run_state bool
  | ClaimPush timestamp bool bool int
  | SettlePush timestamp int nat
  | RecoverPushes timestamp
  | PrunePushes timestamp
  | ChangeOthers gateway_db

fun push_do :: "push_op \<Rightarrow> gateway_db \<Rightarrow> gateway_db" where
  "push_do (QueuePush now p) db = t_db (queue_push now p (tx_open db))"
| "push_do (EndRun now run state paused) db = t_db (run_ended now run state paused (tx_open db))"
| "push_do (ClaimPush now sending shown i) db =
     (case find (\<lambda>p. pu_id p = i) (g_pushes db) of None \<Rightarrow> db | Some p \<Rightarrow> snd (claim_push now sending shown p db))"
| "push_do (SettlePush now i delivered) db = settle_push now i delivered db"
| "push_do (RecoverPushes now) db = recover_pushes now db"
| "push_do (PrunePushes now) db = prune_pushes now db"
| "push_do (ChangeOthers db') db = db'\<lparr>g_pushes := g_pushes db\<rparr>"

text \<open>A push has a time of sending exactly once it is being delivered.\<close>

definition sent_stamp :: "user_id \<Rightarrow> push_row \<Rightarrow> int option" where
  "sent_stamp u p = (if pu_user p = u then pu_sent_at p else None)"

definition printable :: "uchar \<Rightarrow> bool" where
  "printable c \<longleftrightarrow> c = 10 \<or> \<not> (is_control c \<or> is_layout_control c)"

definition push_row_ok :: "push_row \<Rightarrow> bool" where
  "push_row_ok p \<longleftrightarrow> (pu_sent_at p \<noteq> None \<longleftrightarrow> counts_as_sent p)
     \<and> length (pu_title p) \<le> TITLE_CHARS \<and> shown_text (pu_title p) \<noteq> None
     \<and> (\<forall>c \<in> set (pu_body p). printable c)"

definition pushes_ok :: "push_row list \<Rightarrow> bool" where
  "pushes_ok rows \<longleftrightarrow> ascending pu_id rows \<and> (\<forall>p \<in> set rows. push_row_ok p)
     \<and> (\<forall>u. rolling_bound HOUR_MS HOURLY_LIMIT (sent_stamp u) rows)"

lemma sent_since_stamped:
  "\<forall>p \<in> set rows. push_row_ok p \<Longrightarrow> sent_since t u rows = length (stamped_after (sent_stamp u) t rows)"
  unfolding sent_since_def stamped_after_def
  by (rule arg_cong [where f = length], rule filter_cong)
    (auto simp: push_row_ok_def sent_stamp_def split: option.splits)

lemma pushes_ok_update:
  assumes "pushes_ok rows" and "\<And>p. pu_id (f p) = pu_id p" and "\<And>p. p \<in> set rows \<Longrightarrow> push_row_ok p \<Longrightarrow> q p \<Longrightarrow> push_row_ok (f p)"
    and "\<And>p u. q p \<Longrightarrow> sent_stamp u (f p) = sent_stamp u p \<or> sent_stamp u (f p) = None"
  shows "pushes_ok (update_where q f rows)"
  using assms(1,3) ascending_update [of pu_id f q rows, OF assms(2)]
    rolling_bound_update [of q "sent_stamp u" f for u, OF assms(4)]
  by (auto simp: pushes_ok_def set_update_where)

text \<open>A push that is claimed: the one row that gets a time, when the hour has room for it.\<close>

lemma pushes_ok_claim:
  assumes ok: "pushes_ok rows" and room: "sent_since (now - HOUR_MS) u rows < HOURLY_LIMIT"
    and p: "p \<in> set rows" "pu_user p = u" "pu_state p = PushQueued"
  shows "pushes_ok (update_where (\<lambda>q. pu_id q = pu_id p \<and> pu_state q = PushQueued)
    (\<lambda>q. q\<lparr>pu_state := PushSending, pu_sent_at := Some now\<rparr>) rows)" (is "pushes_ok (update_where ?q ?f rows)")
proof -
  obtain xs ys where rows: "rows = xs @ p # ys" using p(1) split_list by metis
  have asc: "ascending pu_id rows" and each: "\<forall>p \<in> set rows. push_row_ok p"
    and bound: "\<And>v. rolling_bound HOUR_MS HOURLY_LIMIT (sent_stamp v) rows"
    using ok by (auto simp: pushes_ok_def)
  have other: "pu_id x \<noteq> pu_id p" if "x \<in> set xs \<or> x \<in> set ys" for x
    using ascending_distinct [OF asc] that rows by (auto simp: image_iff)
  have upd: "update_where ?q ?f rows = xs @ ?f p # ys"
    using other p(3) by (auto simp: rows update_where_def intro!: map_idI)
  have row: "push_row_ok (?f p)" using each p(1) by (auto simp: push_row_ok_def counts_as_sent_def)
  have old: "sent_stamp v p = None" for v using each p(1,3) by (auto simp: push_row_ok_def counts_as_sent_def sent_stamp_def)
  have "rolling_bound HOUR_MS HOURLY_LIMIT (sent_stamp v) (xs @ ?f p # ys)" for v
  proof -
    have without: "rolling_bound HOUR_MS HOURLY_LIMIT (sent_stamp v) (xs @ ys)"
      using bound [of v] old [of v] by (simp add: rows rolling_bound_def stamped_within_def)
    show ?thesis
    proof (cases "v = u")
      case True
      have "length (stamped_after (sent_stamp u) (now - HOUR_MS) (xs @ ys)) < HOURLY_LIMIT"
        using room each old [of u] unfolding sent_since_stamped [OF each] by (simp add: rows stamped_after_def)
      then show ?thesis using without True p(2) by (intro rolling_bound_insert) (auto simp: sent_stamp_def)
    next
      case False
      then have "sent_stamp v (?f p) = None" using p(2) by (simp add: sent_stamp_def)
      then show ?thesis using without by (simp add: rolling_bound_def stamped_within_def)
    qed
  qed
  moreover have "ascending pu_id (xs @ ?f p # ys)"
    using asc unfolding rows by (simp add: ascending_def)
  moreover have "\<forall>x \<in> set (xs @ ?f p # ys). push_row_ok x" using row each by (simp add: rows)
  ultimately show ?thesis unfolding upd pushes_ok_def by blast
qed

lemma clean_cases:
  obtains kept where "clean text n = kept" "length kept \<le> n" "\<forall>c \<in> set kept. printable c"
  | kept where "clean text n = trim_end (take (n - 1) kept) @ [ELLIPSIS]" "\<forall>c \<in> set kept. printable c"
proof (cases "length (trim (filter printable text)) \<le> n")
  case True
  then show thesis
    using that(1) [of "trim (filter printable text)"] set_trim [of "filter printable text"]
    by (auto simp: clean_def printable_def [abs_def])
next
  case False
  then show thesis
    using that(2) [of "trim (filter printable text)"] set_trim [of "filter printable text"]
    by (auto simp: clean_def printable_def [abs_def])
qed

lemma set_trim_end: "set (trim_end t) \<subseteq> set t"
  using trim_end_split [of t] by (metis Un_upper1 set_append)

lemma length_trim_end: "length (trim_end t) \<le> length t"
  using trim_end_split [of t] by (metis length_append le_add1)

lemma clean_chars: "c \<in> set (clean text n) \<Longrightarrow> printable c"
proof (rule clean_cases [of "text" n])
  fix kept
  assume c: "c \<in> set (clean text n)" and k: "clean text n = trim_end (take (n - 1) kept) @ [ELLIPSIS]" "\<forall>c \<in> set kept. printable c"
  have "printable ELLIPSIS" by (simp add: printable_def ELLIPSIS_def is_control_def is_layout_control_def)
  moreover have "c \<in> set kept \<or> c = ELLIPSIS"
    using c k(1) set_trim_end [of "take (n - 1) kept"] set_take_subset [of "n - 1" kept] by auto
  ultimately show "printable c" using k(2) by blast
qed simp

lemma clean_length: "0 < n \<Longrightarrow> length (clean text n) \<le> n"
proof (rule clean_cases [of "text" n])
  fix kept
  assume n: "0 < n" and k: "clean text n = trim_end (take (n - 1) kept) @ [ELLIPSIS]"
  have "length (trim_end (take (n - 1) kept)) \<le> n - 1" using length_trim_end [of "take (n - 1) kept"] by simp
  then show "length (clean text n) \<le> n" unfolding k using n by simp
qed simp

lemma queued_push_ok: "push_row_ok \<lparr>pu_id = i, pu_user = u, pu_bot = b, pu_cause = c, pu_notification = n, pu_run = r,
    pu_urgency = g, pu_title = (case shown_text (clean title TITLE_CHARS) of None \<Rightarrow> FALLBACK_TITLE | Some s \<Rightarrow> s),
    pu_body = clean body USIZE_MAX, pu_state = PushQueued, pu_created_at = now, pu_sent_at = None, pu_settled_at = None\<rparr>"
proof -
  have "length FALLBACK_TITLE \<le> TITLE_CHARS" "shown_text FALLBACK_TITLE \<noteq> None"
    by (simp_all add: FALLBACK_TITLE_def TITLE_CHARS_def shown_text_def is_white_def not_drawn_def)
  moreover have "length s \<le> TITLE_CHARS \<and> shown_text s \<noteq> None" if "shown_text (clean title TITLE_CHARS) = Some s" for s
    using that clean_length [of TITLE_CHARS title] by (auto simp: shown_text_def TITLE_CHARS_def split: if_splits)
  ultimately show ?thesis
    using clean_chars [of _ body USIZE_MAX] by (auto simp: push_row_ok_def counts_as_sent_def split: option.split)
qed

lemma pushes_ok_queue: "pushes_ok (g_pushes (t_db t)) \<Longrightarrow> pushes_ok (g_pushes (t_db (queue_push now p t)))"
proof -
  assume ok: "pushes_ok (g_pushes (t_db t))"
  let ?rows = "g_pushes (t_db t)"
  have new: "pushes_ok (?rows @ [r])" if r: "push_row_ok r" "pu_id r = next_rowid (map pu_id ?rows)" "pu_sent_at r = None" for r
  proof -
    have "sent_stamp u r = None" for u using r(3) by (simp add: sent_stamp_def)
    then have "rolling_bound HOUR_MS HOURLY_LIMIT (sent_stamp u) (?rows @ [r])" for u
      using ok by (simp add: pushes_ok_def rolling_bound_def stamped_within_def)
    then show ?thesis using ok r ascending_new [of pu_id ?rows r] by (auto simp: pushes_ok_def)
  qed
  show ?thesis
    unfolding queue_push_def using ok new [OF queued_push_ok] by (auto split: option.split)
qed

lemma pushes_on: "g_pushes (t_db (on_pushes f t)) = f (g_pushes (t_db t))"
  by simp

lemma pushes_set: "g_pushes (set_push i from f db) = update_where (\<lambda>p. pu_id p = i \<and> pu_state p = from) f (g_pushes db)"
  by (simp add: set_push_def)

lemma pushes_recovered: "g_pushes (recover_pushes now db) = update_where (\<lambda>p. pu_state p = PushSending)
     (\<lambda>p. p\<lparr>pu_state := PushFailed, pu_settled_at := Some now\<rparr>) (g_pushes db)"
  by (simp add: recover_pushes_def)

lemma pushes_ok_merge: "pushes_ok (g_pushes (t_db t)) \<Longrightarrow> pushes_ok (g_pushes (t_db (merge_pushes now run t)))"
  unfolding merge_pushes_def Let_def pushes_on
  by (rule pushes_ok_update) (auto simp: push_row_ok_def counts_as_sent_def sent_stamp_def)

lemma pushes_ok_end: "pushes_ok (g_pushes (t_db t)) \<Longrightarrow> pushes_ok (g_pushes (t_db (run_ended now run state paused t)))"
  using pushes_ok_merge [of t now run] pushes_ok_queue
  by (auto simp: run_ended_def Let_def split: option.split prod.split)

lemma pushes_ok_set:
  assumes "pushes_ok (g_pushes db)" and "\<And>p. pu_id (f p) = pu_id p"
    and "\<And>p. push_row_ok p \<Longrightarrow> pu_state p = from \<Longrightarrow> push_row_ok (f p)" and "\<And>p u. sent_stamp u (f p) = sent_stamp u p"
  shows "pushes_ok (g_pushes (set_push i from f db))"
  unfolding pushes_set by (rule pushes_ok_update) (use assms in auto)

lemma decide_never_sends: "decide now sending shown p db = DropPush s \<Longrightarrow>
  s \<in> {PushExpired, PushDisabled, PushMerged, PushShown, PushUnconfigured, PushUnsubscribed, PushLimited}"
  by (auto simp: decide_def Let_def split: if_splits)

lemma pushes_ok_claimed:
  assumes ok: "pushes_ok (g_pushes db)" and p: "p \<in> set (g_pushes db)"
  shows "pushes_ok (g_pushes (snd (claim_push now sending shown p db)))"
proof (cases "decide now sending shown p db")
  case (DropPush s)
  have "pushes_ok (g_pushes (set_push (pu_id p) PushQueued (\<lambda>q. q\<lparr>pu_state := s, pu_settled_at := Some now\<rparr>) db))"
    by (rule pushes_ok_set [OF ok])
      (use decide_never_sends [OF DropPush] in \<open>auto simp: push_row_ok_def counts_as_sent_def sent_stamp_def\<close>)
  then show ?thesis using DropPush by (simp add: claim_push_def)
next
  case (SendTo targets)
  then have room: "sent_since (now - HOUR_MS) (pu_user p) (g_pushes db) < HOURLY_LIMIT"
    by (auto simp: decide_def Let_def split: if_splits)
  show ?thesis
  proof (cases "matched (\<lambda>q. pu_id q = pu_id p \<and> pu_state q = PushQueued) (g_pushes db) = 0")
    case False
    then obtain q where q: "q \<in> set (g_pushes db)" "pu_id q = pu_id p" "pu_state q = PushQueued" by (auto simp: matched_0)
    have "q = p" using ascending_inj [of pu_id "g_pushes db" q p] ok q p by (simp add: pushes_ok_def)
    then show ?thesis
      using SendTo False pushes_ok_claim [OF ok room p refl] q(3) by (simp add: claim_push_def set_push_def)
  qed (use SendTo ok in \<open>simp add: claim_push_def\<close>)
qed

lemma pushes_ok_filter: "pushes_ok rows \<Longrightarrow> pushes_ok (filter q rows)"
  by (auto simp: pushes_ok_def ascending_filter rolling_bound_filter)

lemma pushes_ok_do: "pushes_ok (g_pushes db) \<Longrightarrow> pushes_ok (g_pushes (push_do opr db))"
proof (cases opr)
  case (ClaimPush now sending shown i)
  then show "pushes_ok (g_pushes db) \<Longrightarrow> ?thesis"
    using pushes_ok_claimed by (auto dest!: find_Some_in split: option.split)
next
  case (SettlePush now i delivered)
  assume ok: "pushes_ok (g_pushes db)"
  show ?thesis
    unfolding SettlePush push_do.simps settle_push_def
    by (rule pushes_ok_set [OF ok]) (auto simp: push_row_ok_def counts_as_sent_def sent_stamp_def)
next
  case (RecoverPushes now)
  assume ok: "pushes_ok (g_pushes db)"
  show ?thesis
    unfolding RecoverPushes push_do.simps pushes_recovered
    by (rule pushes_ok_update [OF ok]) (auto simp: push_row_ok_def counts_as_sent_def sent_stamp_def)
next
  case (PrunePushes now)
  then show "pushes_ok (g_pushes db) \<Longrightarrow> ?thesis"
    by (simp add: prune_pushes_def prune_subscriptions_def Let_def pushes_ok_filter)
qed (simp_all add: pushes_ok_queue pushes_ok_end)

lemma pushes_ok_run: "pushes_ok (g_pushes db) \<Longrightarrow> pushes_ok (g_pushes (fold push_do ops db))"
  by (induction ops arbitrary: db) (simp_all add: pushes_ok_do)

text \<open>C25: however queueing, run ends, claims, deliveries, restarts and pruning interleave, and
  whatever the clock reads, no hour holds more pushes sent to a user than the hourly limit; and
  every push has a title that shows something and a body without control characters.\<close>

theorem hourly_push_limit:
  "length (filter (\<lambda>p. pu_user p = u \<and> (case pu_sent_at p of None \<Rightarrow> False | Some t \<Rightarrow> w - HOUR_MS < t \<and> t \<le> w))
      (g_pushes (fold push_do ops (db\<lparr>g_pushes := []\<rparr>)))) \<le> HOURLY_LIMIT
    \<and> list_all push_row_ok (g_pushes (fold push_do ops (db\<lparr>g_pushes := []\<rparr>)))"
proof -
  have ok: "pushes_ok (g_pushes (fold push_do ops (db\<lparr>g_pushes := []\<rparr>)))"
    by (rule pushes_ok_run) (simp add: pushes_ok_def ascending_def)
  have "filter (\<lambda>p. pu_user p = u \<and> (case pu_sent_at p of None \<Rightarrow> False | Some t \<Rightarrow> w - HOUR_MS < t \<and> t \<le> w)) rows
      = stamped_within HOUR_MS (sent_stamp u) w rows" for rows
    unfolding stamped_within_def sent_stamp_def by (rule filter_cong) (auto split: option.split)
  then show ?thesis using ok by (simp add: pushes_ok_def rolling_bound_def list_all_iff)
qed

section \<open>Retries\<close>

fun tries_again :: "attempt \<Rightarrow> bool" where
  "tries_again (TryAgain _) = True"
| "tries_again _ = False"

text \<open>The first attempt that settles a delivery, among those from \<open>n\<close> on.\<close>

definition settling :: "retry \<Rightarrow> (nat \<Rightarrow> attempt) \<Rightarrow> nat \<Rightarrow> attempt option" where
  "settling r outcome n = find (\<lambda>a. \<not> tries_again a) (map outcome [n..<Suc (max n (rt_retries r))])"

lemma deliver_to_ends:
  "fst (deliver_to r outcome n) = (settling r outcome n = Some Delivered)
    \<and> fst (snd (deliver_to r outcome n)) = (settling r outcome n = Some GoneForGood)
    \<and> length (snd (snd (deliver_to r outcome n))) \<le> rt_retries r - n
    \<and> (\<forall>w \<in> set (snd (snd (deliver_to r outcome n))). w \<le> rt_longest_ms r)"
proof (induction r outcome n rule: deliver_to.induct)
  case (1 r outcome n)
  show ?case
  proof (cases "tries_again (outcome n)")
    case True
    then obtain asked where again: "outcome n = TryAgain asked" by (cases "outcome n") auto
    show ?thesis
    proof (cases "n \<ge> rt_retries r")
      case True
      then show ?thesis using again by (subst (1 2 3 4) deliver_to.simps) (simp add: settling_def max_def)
    next
      case False
      obtain arrived gone waits where rest: "deliver_to r outcome (n + 1) = (arrived, gone, waits)" by (metis surj_pair)
      have step: "deliver_to r outcome n = (arrived, gone, retry_wait r n asked # waits)"
        using again False rest by (subst deliver_to.simps) simp
      have "[n..<Suc (max n (rt_retries r))] = n # [Suc n..<Suc (max (Suc n) (rt_retries r))]"
        using False by (simp add: upt_conv_Cons max_def)
      then have "settling r outcome n = settling r outcome (n + 1)" using again by (simp add: settling_def del: upt_Suc)
      then show ?thesis using 1 [OF again False] rest False unfolding step by (auto simp: retry_wait_def)
    qed
  next
    case False
    have "[n..<Suc (max n (rt_retries r))] = n # [Suc n..<Suc (max n (rt_retries r))]"
      by (rule upt_conv_Cons) simp
    then have "settling r outcome n = Some (outcome n)" using False by (simp add: settling_def)
    then show ?thesis using False by (subst (1 2 3 4) deliver_to.simps) (cases "outcome n"; simp)
  qed
qed

text \<open>C33: a delivery ends after at most one attempt more than its retries: it arrived exactly when
  the first attempt that is not worth trying again delivered it, the subscription ends exactly
  when that attempt says it is gone, and no wait is longer than the longest allowed.\<close>

theorem delivery_ends:
  "\<exists>waits. deliver_to r outcome 0 =
       (find (\<lambda>a. \<not> tries_again a) (map outcome [0..<Suc (rt_retries r)]) = Some Delivered,
        find (\<lambda>a. \<not> tries_again a) (map outcome [0..<Suc (rt_retries r)]) = Some GoneForGood, waits)
     \<and> length waits \<le> rt_retries r \<and> list_all (\<lambda>w. w \<le> rt_longest_ms r) waits"
  using deliver_to_ends [of r outcome 0]
  by (intro exI [of _ "snd (snd (deliver_to r outcome 0))"]) (auto simp: settling_def list_all_iff prod_eq_iff simp del: upt_Suc)

end
