(* ===== verification/Notifications.thy ===== *)
theory Notifications
  imports PushSender
begin

text \<open>
  The notifications of \<open>crates/bokkie-gateway/src/tools/notify.rs\<close>: recording one with its marker
  and its push, giving a run the ones its turn sent, the pages their owner reads and pruning.
\<close>

definition PER_TURN :: nat where
  "PER_TURN = 3"

definition PER_HOUR :: nat where
  "PER_HOUR = 30"

definition NOTIFICATION_RETENTION_MS :: int where
  "NOTIFICATION_RETENTION_MS = 90 * DAY_MS"

definition in_turn :: "user_id \<Rightarrow> bot_id \<Rightarrow> utext \<Rightarrow> utext \<Rightarrow> notification_row list \<Rightarrow> nat" where
  "in_turn u b thread turn rows =
     length (filter (\<lambda>n. nt_user n = u \<and> nt_bot n = b \<and> nt_thread n = thread \<and> nt_turn n = turn) rows)"

definition in_hour :: "timestamp \<Rightarrow> user_id \<Rightarrow> notification_row list \<Rightarrow> nat" where
  "in_hour now u rows = length (filter (\<lambda>n. nt_user n = u \<and> nt_created_at n > now - HOUR_MS) rows)"

definition turn_is_full :: utext where
  "turn_is_full = lit ''You have sent '' @ decimal PER_TURN @ lit '' notifications in this turn, the most a turn may: ''
     @ lit ''nothing was recorded. Put the rest in your reply.''"

definition hour_is_full :: utext where
  "hour_is_full = lit ''Your owner has had '' @ decimal PER_HOUR @ lit '' notifications in the past hour, the most an hour ''
     @ lit ''may: nothing was recorded. Put it in your reply instead.''"

text \<open>
  The transaction of a call: it fails, or refuses with what the model is told, or gives the
  notification and its marker.
\<close>

definition record_notification ::
  "timestamp \<Rightarrow> user_id \<Rightarrow> bot_id \<Rightarrow> utext \<Rightarrow> utext \<Rightarrow> utext \<Rightarrow> notify_request \<Rightarrow> gateway_db
   \<Rightarrow> failure + (utext + (notification_id \<times> message_id) \<times> tx)" where
  "record_notification now u b raw_thread raw_turn raw_call q db =
     (let thread = bounded raw_thread ID_CHARS; turn = bounded raw_turn ID_CHARS; call = bounded raw_call ID_CHARS in
      if in_turn u b thread turn (g_notifications db) \<ge> PER_TURN then Inr (Inl turn_is_full)
      else if in_hour now u (g_notifications db) \<ge> PER_HOUR then Inr (Inl hour_is_full)
      else
        and_then (insert_message now u \<lparr>nm_bot = b, nm_author = AuthorBot, nm_text = nq_title q, nm_state = Complete,
            nm_turn = Some (turn, call), nm_kind = Marker, nm_routine = None,
            nm_notification = Some (nq_kind q, nq_body q)\<rparr> (g_bots db)) (\<lambda>(marker, bots).
          let run = run_in_turn u b thread turn (g_routines db);
              row = \<lparr>nt_id = next_rowid (map nt_id (g_notifications db)), nt_user = u, nt_bot = b,
                nt_message = m_id marker, nt_thread = thread, nt_turn = turn, nt_call = call, nt_run = run,
                nt_kind = nq_kind q, nt_title = nq_title q, nt_body = nq_body q, nt_created_at = now\<rparr>;
              t1 = on_notifications (\<lambda>rows. rows @ [row]) (on_bots (\<lambda>_. bots) (tx_open db));
              t2 = emit (MessageCreated marker) t1;
              t3 = (if run = None then notified now u b (nt_id row) q t2 else t2)
          in Inr (Inr ((nt_id row, m_id marker), t3))))"

definition attribute_notifications ::
  "user_id \<Rightarrow> bot_id \<Rightarrow> utext \<Rightarrow> utext \<Rightarrow> routine_run_id \<Rightarrow> notification_row list \<Rightarrow> notification_row list" where
  "attribute_notifications u b thread turn run rows = update_where
     (\<lambda>n. nt_user n = u \<and> nt_bot n = b \<and> nt_thread n = bounded thread ID_CHARS
       \<and> nt_turn n = bounded turn ID_CHARS \<and> nt_run n = None)
     (\<lambda>n. n\<lparr>nt_run := Some run\<rparr>) rows"

definition notifications_page ::
  "user_id \<Rightarrow> notification_id option \<Rightarrow> nat \<Rightarrow> gateway_db \<Rightarrow> notification_row list \<times> notification_id option" where
  "notifications_page u before limit db = page_of nt_id before limit (filter (\<lambda>n. nt_user n = u) (g_notifications db))"

definition prune_notifications :: "timestamp \<Rightarrow> notification_row list \<Rightarrow> notification_row list" where
  "prune_notifications now rows = filter (\<lambda>n. \<not> nt_created_at n \<le> now - NOTIFICATION_RETENTION_MS) rows"

text \<open>\<open>serve\<close>: the arguments are checked first; the answer is the gateway's, or what went wrong.\<close>

definition serve_notify ::
  "timestamp \<Rightarrow> user_id \<Rightarrow> bot_id \<Rightarrow> utext \<Rightarrow> utext \<Rightarrow> utext \<Rightarrow> json_arguments \<Rightarrow> gateway_db
   \<Rightarrow> utext + (notification_id \<times> message_id) \<times> tx" where
  "serve_notify now u b thread turn call args db =
     and_then (notify_parse args) (\<lambda>q.
       case record_notification now u b thread turn call q db of
         Inl _ \<Rightarrow> Inl (lit ''The notification could not be recorded just now.'')
       | Inr answer \<Rightarrow> answer)"

section \<open>Limits\<close>

datatype notify_op =
    ServeNotify timestamp user_id bot_id utext utext utext json_arguments
  | AttributeTo user_id bot_id utext utext routine_run_id
  | PruneNotifications timestamp
  | ChangeRest gateway_db

fun notify_do :: "notify_op \<Rightarrow> gateway_db \<Rightarrow> gateway_db" where
  "notify_do (ServeNotify now u b thread turn call args) db =
     (case serve_notify now u b thread turn call args db of Inl _ \<Rightarrow> db | Inr (_, t) \<Rightarrow> t_db t)"
| "notify_do (AttributeTo u b thread turn run) db =
     db\<lparr>g_notifications := attribute_notifications u b thread turn run (g_notifications db)\<rparr>"
| "notify_do (PruneNotifications now) db = db\<lparr>g_notifications := prune_notifications now (g_notifications db)\<rparr>"
| "notify_do (ChangeRest db') db = db'\<lparr>g_notifications := g_notifications db\<rparr>"

definition notice_stamp :: "user_id \<Rightarrow> notification_row \<Rightarrow> int option" where
  "notice_stamp u n = (if nt_user n = u then Some (nt_created_at n) else None)"

definition notice_fits :: "notification_row \<Rightarrow> bool" where
  "notice_fits n \<longleftrightarrow> nt_title n \<noteq> [] \<and> length (nt_title n) \<le> NOTIFICATION_TITLE_CHARS
     \<and> length (nt_body n) \<le> NOTIFICATION_BODY_CHARS \<and> \<not> list_ex is_control (nt_title n)
     \<and> \<not> list_ex is_layout_control (nt_title n @ nt_body n)"

definition notices_ok :: "notification_row list \<Rightarrow> bool" where
  "notices_ok rows \<longleftrightarrow> (\<forall>u. rolling_bound HOUR_MS PER_HOUR (notice_stamp u) rows)
     \<and> (\<forall>u b thread turn. in_turn u b thread turn rows \<le> PER_TURN) \<and> list_all notice_fits rows"

lemma notify_parse_fits: "notify_parse args = Inr q \<Longrightarrow>
  nq_title q \<noteq> [] \<and> length (nq_title q) \<le> NOTIFICATION_TITLE_CHARS \<and> length (nq_body q) \<le> NOTIFICATION_BODY_CHARS
    \<and> \<not> list_ex is_control (nq_title q) \<and> \<not> list_ex is_layout_control (nq_title q @ nq_body q)"
  by (auto simp: notify_parse_def and_then_Inr Let_def split: if_splits)

lemma queue_notifications [simp]: "g_notifications (t_db (queue_push now p t)) = g_notifications (t_db t)"
  by (simp add: queue_push_def split: option.split)

lemma notified_notifications [simp]: "g_notifications (t_db (notified now u b n q t)) = g_notifications (t_db t)"
  by (simp add: notified_def split: option.split)

lemma record_notification_row:
  assumes "record_notification now u b thread turn call q db = Inr (Inr (ids, t))"
  obtains row where "g_notifications (t_db t) = g_notifications db @ [row]" "nt_user row = u" "nt_bot row = b"
    "nt_thread row = bounded thread ID_CHARS" "nt_turn row = bounded turn ID_CHARS" "nt_created_at row = now"
    "nt_title row = nq_title q" "nt_body row = nq_body q" "nt_id row = next_rowid (map nt_id (g_notifications db))"
    "in_turn u b (bounded thread ID_CHARS) (bounded turn ID_CHARS) (g_notifications db) < PER_TURN"
    "in_hour now u (g_notifications db) < PER_HOUR"
proof -
  show thesis
    using assms unfolding record_notification_def Let_def
    by (auto simp: and_then_Inr not_le split: if_splits intro!: that)
qed

lemma notices_ok_new:
  assumes ok: "notices_ok rows" and row: "notice_fits row"
    and turn: "in_turn (nt_user row) (nt_bot row) (nt_thread row) (nt_turn row) rows < PER_TURN"
    and hour: "in_hour (nt_created_at row) (nt_user row) rows < PER_HOUR"
  shows "notices_ok (rows @ [row])"
proof -
  have "rolling_bound HOUR_MS PER_HOUR (notice_stamp u) (rows @ [row])" for u
  proof (cases "u = nt_user row")
    case True
    have "stamped_after (notice_stamp u) (nt_created_at row - HOUR_MS) rows
        = filter (\<lambda>n. nt_user n = u \<and> nt_created_at n > nt_created_at row - HOUR_MS) rows"
      unfolding stamped_after_def notice_stamp_def by (rule filter_cong) auto
    then show ?thesis
      using ok hour True rolling_bound_insert [of HOUR_MS PER_HOUR "notice_stamp u" rows "[]" row "nt_created_at row"]
      by (simp add: notices_ok_def in_hour_def notice_stamp_def)
  next
    case False
    then show ?thesis using ok by (simp add: notices_ok_def rolling_bound_def stamped_within_def notice_stamp_def)
  qed
  moreover have "in_turn u b thread t (rows @ [row]) \<le> PER_TURN" for u b thread t
    using ok turn by (auto simp: notices_ok_def in_turn_def)
  ultimately show ?thesis using ok row by (simp add: notices_ok_def)
qed

lemma notices_ok_attribute: "notices_ok rows \<Longrightarrow> notices_ok (attribute_notifications u b thread turn run rows)"
proof -
  assume ok: "notices_ok rows"
  let ?rows = "attribute_notifications u b thread turn run rows"
  have "in_turn v c th tn ?rows = in_turn v c th tn rows" for v c th tn
    by (induction rows) (auto simp: attribute_notifications_def update_where_def in_turn_def)
  moreover have "rolling_bound HOUR_MS PER_HOUR (notice_stamp v) ?rows" for v
    unfolding attribute_notifications_def
    by (rule rolling_bound_update) (use ok in \<open>simp_all add: notice_stamp_def notices_ok_def\<close>)
  moreover have "list_all notice_fits ?rows"
    using ok by (auto simp: notices_ok_def attribute_notifications_def update_where_def list_all_iff notice_fits_def)
  ultimately show ?thesis using ok by (simp add: notices_ok_def)
qed

lemma notices_ok_filter: "notices_ok rows \<Longrightarrow> notices_ok (filter p rows)"
proof -
  assume ok: "notices_ok rows"
  have "in_turn u b thread turn (filter p rows) \<le> in_turn u b thread turn rows" for u b thread turn
    unfolding in_turn_def by (induction rows) auto
  then have "in_turn u b thread turn (filter p rows) \<le> PER_TURN" for u b thread turn
    using ok le_trans unfolding notices_ok_def by blast
  then show ?thesis using ok by (simp add: notices_ok_def rolling_bound_filter list_all_iff)
qed

lemma notices_ok_do: "notices_ok (g_notifications db) \<Longrightarrow> notices_ok (g_notifications (notify_do opr db))"
proof (cases opr)
  case (ServeNotify now u b thread turn call args)
  assume ok: "notices_ok (g_notifications db)"
  show ?thesis
  proof (cases "serve_notify now u b thread turn call args db")
    case (Inr r)
    obtain ids t where r: "r = (ids, t)" by fastforce
    obtain q where q: "notify_parse args = Inr q" "record_notification now u b thread turn call q db = Inr (Inr (ids, t))"
    proof (cases "notify_parse args")
      fix q
      assume q: "notify_parse args = Inr q"
      then show thesis
        using Inr r that [of q] by (cases "record_notification now u b thread turn call q db") (simp_all add: serve_notify_def)
    qed (use Inr in \<open>simp add: serve_notify_def\<close>)
    obtain row where row: "g_notifications (t_db t) = g_notifications db @ [row]" "nt_user row = u" "nt_bot row = b"
        "nt_thread row = bounded thread ID_CHARS" "nt_turn row = bounded turn ID_CHARS" "nt_created_at row = now"
        "nt_title row = nq_title q" "nt_body row = nq_body q"
        "in_turn u b (bounded thread ID_CHARS) (bounded turn ID_CHARS) (g_notifications db) < PER_TURN"
        "in_hour now u (g_notifications db) < PER_HOUR"
      using record_notification_row [OF q(2)] by blast
    have "notice_fits row" using notify_parse_fits [OF q(1)] row by (simp add: notice_fits_def)
    then have "notices_ok (g_notifications db @ [row])" using row by (intro notices_ok_new ok) simp_all
    then show ?thesis using ServeNotify Inr r row(1) by simp
  qed (use ServeNotify ok in simp)
qed (simp_all add: notices_ok_attribute notices_ok_filter prune_notifications_def)

lemma notices_ok_run: "notices_ok (g_notifications db) \<Longrightarrow> notices_ok (g_notifications (fold notify_do ops db))"
  by (induction ops arbitrary: db) (simp_all add: notices_ok_do)

text \<open>C32: however calls of notify, attribution to runs and pruning interleave, and whatever the clock
  reads, no turn records more than three notifications and no hour more than thirty of a user's,
  and each has a title of one line and a body within their limits.\<close>

theorem notifications_are_limited:
  "let rows = g_notifications (fold notify_do ops (db\<lparr>g_notifications := []\<rparr>)) in
    in_turn u b thread turn rows \<le> PER_TURN
    \<and> length (filter (\<lambda>n. nt_user n = u \<and> w - HOUR_MS < nt_created_at n \<and> nt_created_at n \<le> w) rows) \<le> PER_HOUR
    \<and> list_all notice_fits rows"
proof -
  have ok: "notices_ok (g_notifications (fold notify_do ops (db\<lparr>g_notifications := []\<rparr>)))"
    by (rule notices_ok_run) (simp add: notices_ok_def in_turn_def)
  have "filter (\<lambda>n. nt_user n = u \<and> w - HOUR_MS < nt_created_at n \<and> nt_created_at n \<le> w) rows
      = stamped_within HOUR_MS (notice_stamp u) w rows" for rows
    unfolding stamped_within_def notice_stamp_def by (rule filter_cong) auto
  then show ?thesis using ok by (simp add: notices_ok_def rolling_bound_def)
qed

end
