(* ===== verification/Routines.thy ===== *)
theory Routines
  imports Notifications
begin

text \<open>
  \<open>crates/bokkie-gateway/src/routines/mod.rs\<close>: the life of routines and their runs, each
  operation the transaction its code runs. The scheduler's tasks read rows before their
  transaction, so an operation takes the row as it was read, whatever happened since; the time
  zone database is a parameter.
\<close>

section \<open>Times and reasons\<close>

definition MISFIRE_WINDOW_MS :: int where
  "MISFIRE_WINDOW_MS = 6 * HOUR_MS"

definition BUSY_WAIT_MS :: int where
  "BUSY_WAIT_MS = 30 * MINUTE_MS"

definition RUN_DEADLINE_MS :: int where
  "RUN_DEADLINE_MS = 15 * MINUTE_MS"

definition INTERRUPT_GRACE_MS :: int where
  "INTERRUPT_GRACE_MS = MINUTE_MS"

definition DOWN :: utext where
  "DOWN = lit ''Bokkie was not running when it was due''"

definition SIGNED_OUT :: utext where
  "SIGNED_OUT = lit ''ChatGPT was signed out for the household''"

definition WAITING_SIGNED_OUT :: utext where
  "WAITING_SIGNED_OUT = lit ''Waiting for the household's ChatGPT sign-in''"

definition BUSY :: utext where
  "BUSY = lit ''The Bot was busy for 30 minutes''"

definition WAITING_BUSY :: utext where
  "WAITING_BUSY = lit ''Waiting for the Bot to finish its turn''"

definition OVERLAP :: utext where
  "OVERLAP = lit ''The routine's previous run was still going''"

definition DEADLINE :: utext where
  "DEADLINE = lit ''The run took longer than 15 minutes, so it was stopped''"

definition OUT_OF_TOKENS :: utext where
  "OUT_OF_TOKENS = lit ''Your token allowance ran out, so the run was stopped''"

definition TURN_FAILED :: utext where
  "TURN_FAILED = lit ''The Bot's turn failed''"

definition RESTARTED :: utext where
  "RESTARTED = lit ''Bokkie restarted during the run''"

definition PAUSED :: utext where
  "PAUSED = lit ''The routine was paused before the run started''"

text \<open>How the app server says a turn ended.\<close>

datatype turn_status = TurnCompleted | TurnInterrupted | TurnFailed | TurnInProgress

section \<open>Ending runs\<close>

definition emit_run :: "run_row \<Rightarrow> tx \<Rightarrow> tx" where
  "emit_run run t = emit (RoutineRunUpdated (run_to_api run (run_messages run (bd_messages (g_bots (t_db t)))))) t"

definition counted_outcome :: "run_row \<Rightarrow> run_state \<Rightarrow> bool option" where
  "counted_outcome ended state =
     (if state = RunFailed then Some True
      else if state = RunInterrupted \<and> ru_deadline_passed_at ended \<noteq> None then Some True
      else if state = RunSucceeded then Some False
      else None)"

definition announce_end :: "timestamp \<Rightarrow> run_row \<Rightarrow> run_state \<Rightarrow> tx \<Rightarrow> failure + tx" where
  "announce_end now ended state t0 =
     (let t = emit_run ended t0 in
      case counted_outcome ended state of
        None \<Rightarrow> Inr (run_ended now ended state False t)
      | Some failed \<Rightarrow>
          and_then (count_outcome now ended failed (g_routines (t_db t))) (\<lambda>(counted, rdb).
            let t1 = on_routines (\<lambda>_. rdb) t in
            case counted of
              None \<Rightarrow> Inr (run_ended now ended state False t1)
            | Some (routine, paused) \<Rightarrow>
                Inr (run_ended now ended state paused (emit (RoutineUpdated (routine_to_api routine)) t1))))"

definition end_run ::
  "timestamp \<Rightarrow> run_row \<Rightarrow> run_state \<Rightarrow> utext option \<Rightarrow> tx \<Rightarrow> failure + run_row option \<times> tx" where
  "end_run now run state reason t =
     (case finish_run now (ru_user run) (ru_id run) state reason (g_tokens (t_db t)) (g_routines (t_db t)) of
        (None, _) \<Rightarrow> Inr (None, t)
      | (Some ended, rdb) \<Rightarrow>
          and_then (announce_end now ended state (on_routines (\<lambda>_. rdb) t)) (\<lambda>t'. Inr (Some ended, t')))"

definition end_waiting ::
  "timestamp \<Rightarrow> run_row \<Rightarrow> run_state \<Rightarrow> utext option \<Rightarrow> tx \<Rightarrow> failure + run_row option \<times> tx" where
  "end_waiting now run state reason t =
     (case finish_waiting now (ru_user run) (ru_id run) state reason (g_tokens (t_db t)) (g_routines (t_db t)) of
        (None, _) \<Rightarrow> Inr (None, t)
      | (Some ended, rdb) \<Rightarrow>
          and_then (announce_end now ended state (on_routines (\<lambda>_. rdb) t)) (\<lambda>t'. Inr (Some ended, t')))"

fun turn_outcome :: "run_row \<Rightarrow> turn_status \<Rightarrow> bool \<Rightarrow> run_state \<times> utext option" where
  "turn_outcome run TurnCompleted oot = (RunSucceeded, None)"
| "turn_outcome run TurnInProgress oot = (RunSucceeded, None)"
| "turn_outcome run TurnInterrupted oot =
     (RunInterrupted, Some (if ru_deadline_passed_at run \<noteq> None then DEADLINE else if oot then OUT_OF_TOKENS else STOPPED))"
| "turn_outcome run TurnFailed oot = (RunFailed, Some TURN_FAILED)"

definition end_turn :: "timestamp \<Rightarrow> user_id \<Rightarrow> utext \<Rightarrow> turn_status \<Rightarrow> bool \<Rightarrow> tx \<Rightarrow> failure + tx" where
  "end_turn now u turn status oot t =
     (case run_of_turn u turn (g_routines (t_db t)) of
        None \<Rightarrow> Inr t
      | Some run \<Rightarrow>
          if ru_state run \<noteq> RunRunning then Inr t
          else
            let (state, reason) = turn_outcome run status oot
            in and_then (end_run now run state reason t) (\<lambda>(_, t'). Inr t'))"

fun end_each :: "timestamp \<Rightarrow> run_state \<Rightarrow> utext \<Rightarrow> run_row list \<Rightarrow> tx \<Rightarrow> failure + tx" where
  "end_each now state reason [] t = Inr t"
| "end_each now state reason (run # runs) t =
     and_then (end_run now run state (Some reason) t) (\<lambda>(_, t'). end_each now state reason runs t')"

definition end_running ::
  "timestamp \<Rightarrow> user_id \<Rightarrow> bot_id option \<Rightarrow> run_state \<Rightarrow> utext \<Rightarrow> tx \<Rightarrow> failure + tx" where
  "end_running now u b state reason t =
     (let disabled = (case account (g_accounts (t_db t)) u of None \<Rightarrow> False | Some a \<Rightarrow> u_disabled (ac_user a))
      in end_each now state (if disabled then DISABLED else reason) (running_runs_of u b (g_routines (t_db t))) t)"

section \<open>The API\<close>

record create_request =
  cq_name :: utext
  cq_prompt :: utext
  cq_schedule :: schedule
  cq_push :: routine_push
  cq_paused :: bool

record update_request =
  uq_name :: "utext option"
  uq_prompt :: "utext option"
  uq_schedule :: "schedule option"
  uq_push :: "routine_push option"
  uq_paused :: "bool option"

definition own_account :: "user_id \<Rightarrow> tx \<Rightarrow> failure + account" where
  "own_account u t = ok_or unauthenticated (account (g_accounts (t_db t)) u)"

definition account_zone :: "(utext \<Rightarrow> tz option) \<Rightarrow> tz \<Rightarrow> account \<Rightarrow> tz" where
  "account_zone zones utc a = stored_zone zones utc (u_time_zone (ac_user a))"

definition too_many_routines :: failure where
  "too_many_routines = conflict (lit ''You can have at most '' @ decimal MAX_ROUTINES @ lit '' routines'')"

definition create_in ::
  "(utext \<Rightarrow> tz option) \<Rightarrow> tz \<Rightarrow> timestamp \<Rightarrow> user_id \<Rightarrow> bot_id \<Rightarrow> create_request \<Rightarrow> tx \<Rightarrow> failure + routine \<times> tx" where
  "create_in zones utc now u b q t =
     and_then (check_routine_name (cq_name q)) (\<lambda>name.
     and_then (check_prompt (cq_prompt q)) (\<lambda>prompt.
     and_then (check_schedule (cq_schedule q)) (\<lambda>_.
     and_then (own_account u t) (\<lambda>a.
     and_then (ok_or not_found (find_bot u b (g_bots (t_db t)))) (\<lambda>_.
       if count_routines u (g_routines (t_db t)) \<ge> MAX_ROUTINES then Inl too_many_routines
       else
         let following = (if cq_paused q then None else next_after (cq_schedule q) (account_zone zones utc a) now) in
         and_then (create_routine now u \<lparr>nr_bot = b, nr_name = name, nr_prompt = prompt, nr_schedule = cq_schedule q,
             nr_push = cq_push q, nr_paused = cq_paused q, nr_next_run_at = following\<rparr> (g_bots (t_db t)) (g_routines (t_db t)))
           (\<lambda>(row, rdb). Inr (routine_to_api row,
              emit (RoutineCreated (routine_to_api row)) (on_routines (\<lambda>_. rdb) t))))))))"

text \<open>The routine with the request's changes, before it is scheduled again.\<close>

definition changed_routine :: "utext option \<Rightarrow> utext option \<Rightarrow> update_request \<Rightarrow> routine_row \<Rightarrow> routine_row" where
  "changed_routine name prompt q r =
     r\<lparr>ro_name := coalesce name (ro_name r), ro_prompt := coalesce prompt (ro_prompt r),
       ro_push := coalesce (uq_push q) (ro_push r), ro_schedule := coalesce (uq_schedule q) (ro_schedule r),
       ro_paused := coalesce (uq_paused q) (ro_paused r)\<rparr>"

definition rescheduled_routine :: "tz \<Rightarrow> timestamp \<Rightarrow> bool \<Rightarrow> bool \<Rightarrow> routine_row \<Rightarrow> routine_row" where
  "rescheduled_routine z now was_paused rescheduled r =
     (if ro_paused r then r\<lparr>ro_next_run_at := None\<rparr>
      else if was_paused \<or> rescheduled
      then r\<lparr>ro_failures := (if was_paused then 0 else ro_failures r), ro_next_run_at := next_after (ro_schedule r) z now\<rparr>
      else r)"

definition update_in ::
  "(utext \<Rightarrow> tz option) \<Rightarrow> tz \<Rightarrow> timestamp \<Rightarrow> user_id \<Rightarrow> bot_id \<Rightarrow> routine_id \<Rightarrow> update_request \<Rightarrow> tx
   \<Rightarrow> failure + routine \<times> tx" where
  "update_in zones utc now u b i q t =
     and_then (check_opt check_routine_name (uq_name q)) (\<lambda>name.
     and_then (check_opt check_prompt (uq_prompt q)) (\<lambda>prompt.
     and_then (check_opt check_schedule (uq_schedule q)) (\<lambda>_.
     and_then (own_account u t) (\<lambda>a.
     and_then (ok_or not_found (find_routine u b i (g_routines (t_db t)))) (\<lambda>old.
       let r = rescheduled_routine (account_zone zones utc a) now (ro_paused old) (uq_schedule q \<noteq> None)
             (changed_routine name prompt q old) in
       and_then (save_routine now r (g_routines (t_db t))) (\<lambda>(row, rdb).
         let t1 = emit (RoutineUpdated (routine_to_api row)) (on_routines (\<lambda>_. rdb) t) in
         if ro_paused row \<and> \<not> ro_paused old then
           (case active_run u i (g_routines (t_db t1)) of
              None \<Rightarrow> Inr (routine_to_api row, t1)
            | Some waiting \<Rightarrow>
                and_then (end_waiting now waiting RunSkipped (Some PAUSED) t1) (\<lambda>(_, t2). Inr (routine_to_api row, t2)))
         else Inr (routine_to_api row, t1)))))))"

definition delete_in :: "user_id \<Rightarrow> bot_id \<Rightarrow> routine_id \<Rightarrow> tx \<Rightarrow> failure + tx" where
  "delete_in u b i t =
     (case delete_routine u b i (g_routines (t_db t)) of
        (False, _) \<Rightarrow> Inl not_found
      | (True, rdb) \<Rightarrow> Inr (emit (RoutineDeleted b i) (on_routines (\<lambda>_. rdb) t)))"

text \<open>\<open>queue\<close>: the state a new run has, or the waiting run that stands for it.\<close>

datatype queued = NewRunIn run_state "utext option" | Coalesced run_row

definition queue_as :: "timestamp \<Rightarrow> account \<Rightarrow> routine_row \<Rightarrow> timestamp \<Rightarrow> routines_db \<Rightarrow> queued" where
  "queue_as now a r due rdb =
     (if u_disabled (ac_user a) then NewRunIn RunMissed (Some DISABLED)
      else if now - due > MISFIRE_WINDOW_MS then NewRunIn RunMissed (Some DOWN)
      else case active_run (ro_user r) (ro_id r) rdb of
          None \<Rightarrow> NewRunIn RunWaiting None
        | Some active \<Rightarrow> if ru_state active = RunWaiting then Coalesced active else NewRunIn RunSkipped (Some OVERLAP))"

definition queue_run ::
  "timestamp \<Rightarrow> account \<Rightarrow> routine_row \<Rightarrow> run_trigger \<Rightarrow> timestamp \<Rightarrow> tx \<Rightarrow> failure + run_row option \<times> tx" where
  "queue_run now a r trigger due t =
     (case queue_as now a r due (g_routines (t_db t)) of
        Coalesced active \<Rightarrow>
          if trigger = ScheduleTrigger then
            (case reschedule_waiting (ro_user r) (ru_id active) due (g_routines (t_db t)) of
               (None, _) \<Rightarrow> Inr (None, t)
             | (Some moved, rdb) \<Rightarrow> Inr (None, emit_run moved (on_routines (\<lambda>_. rdb) t)))
          else Inr (None, t)
      | NewRunIn state reason \<Rightarrow>
          and_then (insert_run now r \<lparr>nn_trigger = trigger, nn_scheduled_for = due, nn_state = state, nn_reason = reason\<rparr>
              (g_routines (t_db t))) (\<lambda>(run, rdb).
            let t1 = emit_run run (on_routines (\<lambda>_. rdb) t)
            in Inr (Some run, if state = RunMissed then run_ended now run state False t1 else t1)))"

definition run_now :: "timestamp \<Rightarrow> user_id \<Rightarrow> bot_id \<Rightarrow> routine_id \<Rightarrow> tx \<Rightarrow> failure + run_row option \<times> tx" where
  "run_now now u b i t =
     and_then (ok_or not_found (find_routine u b i (g_routines (t_db t)))) (\<lambda>r.
     and_then (own_account u t) (\<lambda>a. queue_run now a r ManualTrigger now t))"

fun reschedule_all :: "tz \<Rightarrow> timestamp \<Rightarrow> routine_row list \<Rightarrow> tx \<Rightarrow> failure + tx" where
  "reschedule_all z now [] t = Inr t"
| "reschedule_all z now (r # rs) t =
     (if ro_paused r then reschedule_all z now rs t
      else and_then (save_routine now (r\<lparr>ro_next_run_at := next_after (ro_schedule r) z now\<rparr>) (g_routines (t_db t)))
        (\<lambda>(row, rdb). reschedule_all z now rs (emit (RoutineUpdated (routine_to_api row)) (on_routines (\<lambda>_. rdb) t))))"

definition change_time_zone ::
  "(utext \<Rightarrow> tz option) \<Rightarrow> tz \<Rightarrow> timestamp \<Rightarrow> user_id \<Rightarrow> utext \<Rightarrow> tx \<Rightarrow> failure + account \<times> tx" where
  "change_time_zone zones utc now u given t =
     and_then (check_time_zone zones given) (\<lambda>name.
       let z = stored_zone zones utc name in
       and_then (set_time_zone now u name (g_accounts (t_db t))) (\<lambda>(a, adb).
         let t1 = emit (AccountUpdated (ac_user a)) (on_accounts (\<lambda>_. adb) t)
         in and_then (reschedule_all z now (routines_of_user u (g_routines (t_db t1))) t1) (\<lambda>t2. Inr (a, t2))))"

section \<open>The scheduler\<close>

definition recover_run :: "timestamp \<Rightarrow> run_row \<Rightarrow> tx \<Rightarrow> failure + tx" where
  "recover_run now run t = and_then (end_run now run RunFailed (Some RESTARTED) t) (\<lambda>(_, t'). Inr t')"

text \<open>The routine is read again under the user's lock.\<close>

definition fall_due :: "(utext \<Rightarrow> tz option) \<Rightarrow> tz \<Rightarrow> timestamp \<Rightarrow> routine_row \<Rightarrow> tx \<Rightarrow> failure + tx" where
  "fall_due zones utc now due t =
     (case routine_of_user (ro_user due) (ro_id due) (g_routines (t_db t)) of
        None \<Rightarrow> Inr t
      | Some r \<Rightarrow>
          (case ro_next_run_at r of
             None \<Rightarrow> Inr t
           | Some at_due \<Rightarrow>
               if \<not> (at_due \<le> now \<and> \<not> ro_paused r) then Inr t
               else
                 and_then (own_account (ro_user r) t) (\<lambda>a.
                   let z = account_zone zones utc a;
                       latest = (case latest_at_or_before (ro_schedule r) z now of
                           Some l \<Rightarrow> if l \<ge> at_due then l else at_due | None \<Rightarrow> at_due)
                   in and_then (save_routine now (r\<lparr>ro_next_run_at := next_after (ro_schedule r) z now\<rparr>) (g_routines (t_db t)))
                     (\<lambda>(row, rdb).
                       and_then (queue_run now a row ScheduleTrigger latest
                           (emit (RoutineUpdated (routine_to_api row)) (on_routines (\<lambda>_. rdb) t)))
                         (\<lambda>(_, t'). Inr t')))))"

text \<open>What the conversation service makes of a start.\<close>

datatype routine_start =
    Started utext | NotWaiting | StartPaused | StartBusy | StartSignedOut | StartFailed utext

datatype attempt_action = LeaveRun | EndUnstarted run_state utext | KeepWaiting waiting utext

text \<open>\<open>attempt\<close> after reading whether the account is disabled and trying the start.\<close>

definition attempt_action :: "timestamp \<Rightarrow> run_row \<Rightarrow> bool \<Rightarrow> routine_start \<Rightarrow> attempt_action" where
  "attempt_action now run disabled start =
     (if disabled then EndUnstarted RunMissed DISABLED
      else case start of
          Started turn \<Rightarrow> LeaveRun
        | NotWaiting \<Rightarrow> LeaveRun
        | StartPaused \<Rightarrow> EndUnstarted RunSkipped PAUSED
        | StartBusy \<Rightarrow> if now - ru_queued_at run \<ge> BUSY_WAIT_MS then EndUnstarted RunSkipped BUSY
            else KeepWaiting WaitingBusy WAITING_BUSY
        | StartSignedOut \<Rightarrow> if now - ru_scheduled_for run > MISFIRE_WINDOW_MS then EndUnstarted RunMissed SIGNED_OUT
            else KeepWaiting WaitingSignedOut WAITING_SIGNED_OUT
        | StartFailed reason \<Rightarrow> EndUnstarted RunFailed reason)"

definition settle_attempt :: "timestamp \<Rightarrow> run_row \<Rightarrow> bool \<Rightarrow> routine_start \<Rightarrow> tx \<Rightarrow> failure + tx" where
  "settle_attempt now run disabled start t =
     (case attempt_action now run disabled start of
        LeaveRun \<Rightarrow> Inr t
      | EndUnstarted state reason \<Rightarrow> and_then (end_waiting now run state (Some reason) t) (\<lambda>(_, t'). Inr t')
      | KeepWaiting w reason \<Rightarrow>
          (case set_waiting (ru_user run) (ru_id run) w reason (g_routines (t_db t)) of
             (None, _) \<Rightarrow> Inr t
           | (Some changed, rdb) \<Rightarrow> Inr (emit_run changed (on_routines (\<lambda>_. rdb) t))))"

definition run_marker :: "tz \<Rightarrow> routine_row \<Rightarrow> run_row \<Rightarrow> utext" where
  "run_marker z r run = ro_name r @ MIDDLE_DOT @ local_time z (ru_scheduled_for run)
     @ (case ru_trigger run of ScheduleTrigger \<Rightarrow> [] | ManualTrigger \<Rightarrow> MIDDLE_DOT @ lit ''test run'')"

definition run_about :: "tz \<Rightarrow> utext \<Rightarrow> routine_row \<Rightarrow> run_row \<Rightarrow> utext" where
  "run_about z owner r run =
     (case ru_trigger run of
        ScheduleTrigger \<Rightarrow> lit ''This turn is a run of your routine '' @ [34] @ ro_name r @ [34] @ lit '', scheduled for ''
          @ local_description z (ru_scheduled_for run) @ lit ''. Its prompt, which '' @ owner
          @ lit '' set, is the message. '' @ owner @ lit '' reads your reply later.''
      | ManualTrigger \<Rightarrow> lit ''This turn is a test run of your routine '' @ [34] @ ro_name r @ [34] @ lit '', which '' @ owner
          @ lit '' started at '' @ local_description z (ru_scheduled_for run) @ lit ''. Its prompt, which '' @ owner
          @ lit '' set, is the message. Answer as you would on its schedule.'')"

text \<open>
  The end of \<open>start_routine_locked\<close> in \<open>bots/service.rs\<close>: the run is running in its turn, calls
  and notifications the turn already made become the run's, and a turn that already ended ends
  the run.
\<close>

definition start_run ::
  "timestamp \<Rightarrow> user_id \<Rightarrow> bot_id \<Rightarrow> routine_run_id \<Rightarrow> utext \<Rightarrow> utext \<Rightarrow> turn_status option \<Rightarrow> tx \<Rightarrow> failure + tx" where
  "start_run now u b i thread turn ended t =
     (let t1 = (case set_running now u i thread turn (g_routines (t_db t)) of
            (None, _) \<Rightarrow> t
          | (Some running, rdb) \<Rightarrow>
              on_notifications (attribute_notifications u b thread turn i)
                (on_calls (attribute_calls u b thread turn i) (emit_run running (on_routines (\<lambda>_. rdb) t))))
      in case ended of None \<Rightarrow> Inr t1 | Some status \<Rightarrow> end_turn now u turn status False t1)"

datatype deadline_action = NoAction | AskInterrupt | EndStuck

definition deadline_action :: "timestamp \<Rightarrow> run_row \<Rightarrow> deadline_action" where
  "deadline_action now run =
     (case ru_started_at run of
        None \<Rightarrow> NoAction
      | Some started \<Rightarrow>
          (case ru_deadline_passed_at run of
             None \<Rightarrow> if now - started \<ge> RUN_DEADLINE_MS then AskInterrupt else NoAction
           | Some asked \<Rightarrow> if now - asked \<ge> INTERRUPT_GRACE_MS then EndStuck else NoAction))"

definition end_again :: "timestamp \<Rightarrow> run_row \<Rightarrow> run_state \<Rightarrow> utext \<Rightarrow> tx \<Rightarrow> failure + tx" where
  "end_again now run state reason t =
     (case find_run (ru_user run) (ru_id run) (g_routines (t_db t)) of
        None \<Rightarrow> Inr t
      | Some current \<Rightarrow> and_then (end_run now current state (Some reason) t) (\<lambda>(_, t'). Inr t'))"

definition enforce_deadline :: "timestamp \<Rightarrow> run_row \<Rightarrow> tx \<Rightarrow> failure + tx" where
  "enforce_deadline now run t =
     (case deadline_action now run of
        NoAction \<Rightarrow> Inr t
      | AskInterrupt \<Rightarrow> Inr (on_routines (set_deadline_passed now (ru_user run) (ru_id run)) t)
      | EndStuck \<Rightarrow> end_again now run RunInterrupted DEADLINE t)"

section \<open>Runs of the gateway\<close>

datatype routines_op =
    CreateRoutine timestamp user_id bot_id create_request
  | UpdateRoutine timestamp user_id bot_id routine_id update_request
  | DeleteRoutine user_id bot_id routine_id
  | RunNow timestamp user_id bot_id routine_id
  | ChangeTimeZone timestamp user_id utext
  | RecoverRun timestamp run_row
  | FallDue timestamp routine_row
  | SettleAttempt timestamp run_row bool routine_start
  | StartRun timestamp user_id bot_id routine_run_id utext utext "turn_status option"
  | EnforceDeadline timestamp run_row
  | EndTurn timestamp user_id utext turn_status bool
  | EndRunning timestamp user_id "bot_id option" utext
  | PruneRuns timestamp
  | OtherTables gateway_db

text \<open>The batch each runs; a failing one leaves nothing. The tables that are not routines' change freely in between.\<close>

fun routines_tx :: "(utext \<Rightarrow> tz option) \<Rightarrow> tz \<Rightarrow> routines_op \<Rightarrow> gateway_db \<Rightarrow> failure + tx" where
  "routines_tx zones utc (CreateRoutine now u b q) db = map_sum id snd (create_in zones utc now u b q (tx_open db))"
| "routines_tx zones utc (UpdateRoutine now u b i q) db = map_sum id snd (update_in zones utc now u b i q (tx_open db))"
| "routines_tx zones utc (DeleteRoutine u b i) db = delete_in u b i (tx_open db)"
| "routines_tx zones utc (RunNow now u b i) db = map_sum id snd (run_now now u b i (tx_open db))"
| "routines_tx zones utc (ChangeTimeZone now u z) db = map_sum id snd (change_time_zone zones utc now u z (tx_open db))"
| "routines_tx zones utc (RecoverRun now run) db = recover_run now run (tx_open db)"
| "routines_tx zones utc (FallDue now r) db = fall_due zones utc now r (tx_open db)"
| "routines_tx zones utc (SettleAttempt now run disabled start) db = settle_attempt now run disabled start (tx_open db)"
| "routines_tx zones utc (StartRun now u b i thread turn ended) db = start_run now u b i thread turn ended (tx_open db)"
| "routines_tx zones utc (EnforceDeadline now run) db = enforce_deadline now run (tx_open db)"
| "routines_tx zones utc (EndTurn now u turn status oot) db = end_turn now u turn status oot (tx_open db)"
| "routines_tx zones utc (EndRunning now u b reason) db = end_running now u b RunFailed reason (tx_open db)"
| "routines_tx zones utc (PruneRuns now) db = Inr (on_routines (prune_runs now) (tx_open db))"
| "routines_tx zones utc (OtherTables db') db = Inr (tx_open (db'\<lparr>g_routines := g_routines db\<rparr>))"

definition routines_do :: "(utext \<Rightarrow> tz option) \<Rightarrow> tz \<Rightarrow> routines_op \<Rightarrow> gateway_db \<Rightarrow> gateway_db" where
  "routines_do zones utc opr db = (case routines_tx zones utc opr db of Inl _ \<Rightarrow> db | Inr t \<Rightarrow> t_db t)"

definition no_routines :: routines_db where
  "no_routines = \<lparr>rd_routines = [], rd_runs = []\<rparr>"

text \<open>Whatever the other tables hold to begin with, there are no routines yet.\<close>

definition routines_after :: "(utext \<Rightarrow> tz option) \<Rightarrow> tz \<Rightarrow> gateway_db \<Rightarrow> routines_op list \<Rightarrow> gateway_db" where
  "routines_after zones utc db ops = fold (routines_do zones utc) ops (db\<lparr>g_routines := no_routines\<rparr>)"

end
