(* ===== verification/RoutineSafety.thy ===== *)
theory RoutineSafety
  imports Routines
begin

text \<open>
  What the operations of \<open>Routines\<close> do to the tables, as a step relation: each is a sequence of
  changes of one row, every change that a client can see with its event. The invariant of the
  tables, the life of a run and what clients are told are then proved change by change.
\<close>

section \<open>Rows\<close>

definition routine_ok :: "routine_row \<Rightarrow> bool" where
  "routine_ok r \<longleftrightarrow> (ro_paused r \<longrightarrow> ro_next_run_at r = None) \<and> (\<not> ro_paused r \<longrightarrow> ro_failures r < FAILURES_TO_PAUSE)
     \<and> check_schedule (ro_schedule r) = Inr () \<and> check_routine_name (ro_name r) = Inr (ro_name r)
     \<and> check_prompt (ro_prompt r) = Inr (ro_prompt r)"

definition run_ok :: "run_row \<Rightarrow> bool" where
  "run_ok r \<longleftrightarrow>
     (ru_state r = RunWaiting \<longrightarrow> ru_started_at r = None \<and> ru_thread_id r = None \<and> ru_turn_id r = None)
     \<and> (ru_state r = RunRunning \<longrightarrow> ru_started_at r \<noteq> None \<and> ru_thread_id r \<noteq> None \<and> ru_turn_id r \<noteq> None)
     \<and> (run_active r \<longleftrightarrow> ru_finished_at r = None) \<and> (ru_waiting_for r \<noteq> None \<longrightarrow> ru_state r = RunWaiting)
     \<and> (ru_started_at r = None \<longrightarrow> ru_deadline_passed_at r = None)"

definition run_key :: "run_row \<Rightarrow> routine_run_id \<times> user_id \<times> bot_id \<times> routine_id \<times> run_trigger \<times> timestamp" where
  "run_key r = (ru_id r, ru_user r, ru_bot r, ru_routine r, ru_trigger r, ru_queued_at r)"

text \<open>A run waits, then runs, then is over; or it is over without having run. It keeps what it is and its turn.\<close>

definition run_moves :: "run_row \<Rightarrow> run_row \<Rightarrow> bool" where
  "run_moves r s \<longleftrightarrow> run_key s = run_key r
     \<and> (r = s \<or> ru_state r = RunWaiting
        \<or> (ru_state r = RunRunning \<and> ru_state s \<noteq> RunWaiting \<and> ru_started_at s = ru_started_at r
           \<and> ru_thread_id s = ru_thread_id r \<and> ru_turn_id s = ru_turn_id r))"

section \<open>Changes\<close>

inductive change :: "user_id \<Rightarrow> routines_db \<Rightarrow> event list \<Rightarrow> routines_db \<Rightarrow> bool" for u where
  NewRoutine: "create_routine now u n bdb db = Inr (row, db') \<Longrightarrow> count_routines u db < MAX_ROUTINES \<Longrightarrow> routine_ok row
    \<Longrightarrow> change u db [RoutineCreated (routine_to_api row)] db'"
| SaveRoutine: "find_routine u (ro_bot r) (ro_id r) db = Some old \<Longrightarrow> ro_user r = u
    \<Longrightarrow> (routine_ok old \<Longrightarrow> routine_ok r) \<Longrightarrow> save_routine now r db = Inr (row, db')
    \<Longrightarrow> change u db [RoutineUpdated (routine_to_api row)] db'"
| NewRun: "insert_run now r n db = Inr (run, db') \<Longrightarrow> ro_user r = u \<Longrightarrow> nn_state n \<noteq> RunRunning
    \<Longrightarrow> (nn_state n = RunWaiting \<Longrightarrow> active_run u (ro_id r) db = None)
    \<Longrightarrow> change u db [RoutineRunUpdated (run_to_api run ms)] db'"
| MoveRun: "update_run (\<lambda>r. ru_id r = i \<and> ru_user r = u \<and> q r) f db = (Some run, db')
    \<Longrightarrow> (\<And>r. q r \<Longrightarrow> run_active r \<and> run_moves r (f r) \<and> (run_ok r \<longrightarrow> run_ok (f r)))
    \<Longrightarrow> change u db [RoutineRunUpdated (run_to_api run ms)] db'"
| MarkDeadline: "change u db [] (set_deadline_passed now u i db)"

inductive changes :: "user_id \<Rightarrow> routines_db \<Rightarrow> event list \<Rightarrow> routines_db \<Rightarrow> bool" for u where
  NoChange: "changes u db [] db"
| MoreChanges: "changes u db es db' \<Longrightarrow> change u db' fs db'' \<Longrightarrow> changes u db (es @ fs) db''"

lemma changes_one: "change u db es db' \<Longrightarrow> changes u db es db'"
  using MoreChanges [OF NoChange] by fastforce

lemma changes_append: "changes u db' fs db'' \<Longrightarrow> changes u db es db' \<Longrightarrow> changes u db (es @ fs) db''"
proof (induction arbitrary: es rule: changes.induct)
  case (MoreChanges db' fs db'' gs db''')
  then show ?case using changes.MoreChanges [of u db "es @ fs" db'' gs db'''] by simp
qed simp

fun routine_event :: "event \<Rightarrow> bool" where
  "routine_event (RoutineCreated _) = True"
| "routine_event (RoutineUpdated _) = True"
| "routine_event (RoutineDeleted _ _) = True"
| "routine_event (RoutineRunUpdated _) = True"
| "routine_event _ = False"

text \<open>A transaction goes on by changes of a user's routines, announcing each.\<close>

definition goes_on :: "user_id \<Rightarrow> tx \<Rightarrow> tx \<Rightarrow> bool" where
  "goes_on u t t' \<longleftrightarrow> (\<exists>es. changes u (g_routines (t_db t)) es (g_routines (t_db t'))
     \<and> filter routine_event (t_events t') = filter routine_event (t_events t) @ es)"

lemma goes_on_refl [simp]: "goes_on u t t"
  unfolding goes_on_def using NoChange by fastforce

lemma goes_on_trans: "goes_on u t t' \<Longrightarrow> goes_on u t' t'' \<Longrightarrow> goes_on u t t''"
  unfolding goes_on_def using changes_append by fastforce

lemma goes_on_same: "g_routines (t_db t') = g_routines (t_db t) \<Longrightarrow> t_events t' = t_events t \<Longrightarrow> goes_on u t t'"
  unfolding goes_on_def using NoChange by fastforce

text \<open>One change with its event, whatever the event looks like in the transaction.\<close>

lemma goes_on_change:
  "change u (g_routines (t_db t)) [ev] rdb \<Longrightarrow> routine_event ev \<Longrightarrow> goes_on u t (emit ev (on_routines (\<lambda>_. rdb) t))"
  unfolding goes_on_def using changes_one by fastforce

text \<open>What a push does is no change of routines.\<close>

lemma queue_push_keeps [simp]:
  "g_routines (t_db (queue_push now p t)) = g_routines (t_db t)" "t_events (queue_push now p t) = t_events t"
  by (simp_all add: queue_push_def split: option.split)

lemma run_ended_keeps [simp]:
  "g_routines (t_db (run_ended now run state paused t)) = g_routines (t_db t)"
  "t_events (run_ended now run state paused t) = t_events t"
  by (simp_all add: run_ended_def merge_pushes_def Let_def split: option.split prod.split)

lemma goes_on_ended: "goes_on u t t' \<Longrightarrow> goes_on u t (run_ended now run state paused t')"
  using goes_on_trans goes_on_same [of "run_ended now run state paused t'" t'] by simp

section \<open>Every operation is a sequence of changes\<close>

lemma find_routine_own: "routine_of_user u i db = Some r \<Longrightarrow> find_routine u (ro_bot r) (ro_id r) db = Some r \<and> ro_user r = u \<and> ro_id r = i"
proof -
  have own: "find (\<lambda>x. ro_id x = i \<and> ro_user x = u) rows = Some r \<Longrightarrow>
    find (\<lambda>x. ro_id x = ro_id r \<and> ro_bot x = ro_bot r \<and> ro_user x = u) rows = Some r \<and> ro_user r = u \<and> ro_id r = i" for rows
    by (induction rows) (auto split: if_splits)
  show "routine_of_user u i db = Some r \<Longrightarrow> ?thesis"
    unfolding routine_of_user_def find_routine_def using own [of "rd_routines db"] by auto
qed

lemma find_routine_Some: "find_routine u b i db = Some r \<Longrightarrow> ro_id r = i \<and> ro_bot r = b \<and> ro_user r = u \<and> r \<in> set (rd_routines db)"
  by (auto simp: find_routine_def dest: find_Some_in)

text \<open>A failure that pauses, or one that does not yet, keeps a routine as it should be.\<close>

lemma count_outcome_goes_on:
  assumes c: "count_outcome now run failed (g_routines (t_db t)) = Inr (counted, rdb)"
  shows "case counted of None \<Rightarrow> rdb = g_routines (t_db t)
    | Some (routine, paused) \<Rightarrow> goes_on (ru_user run) t (emit (RoutineUpdated (routine_to_api routine)) (on_routines (\<lambda>_. rdb) t))"
proof (cases "routine_of_user (ru_user run) (ru_routine run) (g_routines (t_db t))")
  case (Some r)
  note own = find_routine_own [OF Some]
  have save: "goes_on (ru_user run) t (emit (RoutineUpdated (routine_to_api row)) (on_routines (\<lambda>_. rdb) t))"
    if s: "save_routine now s (g_routines (t_db t)) = Inr (row, rdb)" "ro_bot s = ro_bot r" "ro_id s = ro_id r" "ro_user s = ro_user r"
      "routine_ok r \<Longrightarrow> routine_ok s" for s row
    by (rule goes_on_change) (use SaveRoutine [of "ru_user run" s "g_routines (t_db t)" r now row rdb] s own in auto)
  show ?thesis
    using c Some unfolding count_outcome_def
    by (auto simp: and_then_Inr Let_def routine_ok_def saturating_add_u32_def FAILURES_TO_PAUSE_def split: if_splits
        intro!: save)
qed (use c in \<open>simp add: count_outcome_def\<close>)

lemma announce_end_goes_on:
  assumes m: "change (ru_user ended) (g_routines (t_db t0)) [RoutineRunUpdated (run_to_api ended (run_messages ended (bd_messages (g_bots (t_db t0)))))] rdb"
    and a: "announce_end now ended state (on_routines (\<lambda>_. rdb) t0) = Inr t'"
  shows "goes_on (ru_user ended) t0 t'"
proof -
  let ?t = "emit_run ended (on_routines (\<lambda>_. rdb) t0)"
  have moved: "goes_on (ru_user ended) t0 ?t"
    unfolding emit_run_def using goes_on_change [OF m] by simp
  show ?thesis
  proof (cases "counted_outcome ended state")
    case None
    then show ?thesis using a goes_on_ended [OF moved] by (auto simp: announce_end_def)
  next
    case (Some failed)
    then obtain counted rdb' where c: "count_outcome now ended failed (g_routines (t_db ?t)) = Inr (counted, rdb')"
      and t': "t' = (case counted of None \<Rightarrow> run_ended now ended state False (on_routines (\<lambda>_. rdb') ?t)
        | Some (routine, paused) \<Rightarrow> run_ended now ended state paused (emit (RoutineUpdated (routine_to_api routine)) (on_routines (\<lambda>_. rdb') ?t)))"
      using a by (auto simp: announce_end_def and_then_Inr Let_def split: option.splits)
    note step = count_outcome_goes_on [OF c]
    show ?thesis
    proof (cases counted)
      case None
      then have "goes_on (ru_user ended) ?t (on_routines (\<lambda>_. rdb') ?t)" using step by (intro goes_on_same) simp_all
      then show ?thesis using goes_on_trans [OF moved] goes_on_ended None t' by simp
    next
      case (Some rp)
      then show ?thesis using goes_on_trans [OF moved] goes_on_ended step t' by (auto split: prod.splits)
    qed
  qed
qed

lemma finish_change:
  assumes f: "finish_from now u i state reason from rows db = (Some ended, rdb)" and s: "run_finished state"
    and active: "set from \<subseteq> {RunWaiting, RunRunning}"
  shows "change u db [RoutineRunUpdated (run_to_api ended ms)] rdb"
  using f unfolding finish_from_def
proof (rule MoveRun)
  fix r :: run_row
  assume "ru_state r \<in> set from"
  then have "run_active r" using active by (auto simp: run_active_def)
  then show "run_active r \<and> run_moves r (r\<lparr>ru_state := state, ru_reason := reason, ru_finished_at := Some now,
        ru_waiting_for := None, ru_tokens := turn_tokens (ru_user r) (ru_turn_id r) rows\<rparr>)
      \<and> (run_ok r \<longrightarrow> run_ok (r\<lparr>ru_state := state, ru_reason := reason, ru_finished_at := Some now,
        ru_waiting_for := None, ru_tokens := turn_tokens (ru_user r) (ru_turn_id r) rows\<rparr>))"
    using s by (auto simp: run_active_def run_moves_def run_key_def run_ok_def run_finished_def)
qed

lemma update_run_user:
  "update_run (\<lambda>r. ru_id r = i \<and> ru_user r = u \<and> q r) f db = (Some run, db') \<Longrightarrow> (\<And>r. ru_user (f r) = ru_user r) \<Longrightarrow> ru_user run = u"
  by (auto simp: update_run_def dest: find_Some_in)

lemma finish_user: "finish_from now u i state reason from rows db = (Some ended, rdb) \<Longrightarrow> ru_user ended = u"
  unfolding finish_from_def by (erule update_run_user) simp

lemma end_run_goes_on:
  assumes "end_run now run state reason t = Inr (ended, t')" and "run_finished state"
  shows "goes_on (ru_user run) t t'"
proof -
  obtain hit rdb where f: "finish_run now (ru_user run) (ru_id run) state reason (g_tokens (t_db t)) (g_routines (t_db t)) = (hit, rdb)"
    by fastforce
  show ?thesis
  proof (cases hit)
    case (Some e)
    note fin = f [unfolded Some finish_run_def]
    have "announce_end now e state (on_routines (\<lambda>_. rdb) t) = Inr t'"
      using assms(1) f Some by (auto simp: end_run_def and_then_Inr)
    then show ?thesis
      using announce_end_goes_on [OF _ , of e t rdb now state t'] finish_change [OF fin assms(2)] finish_user [OF fin] by simp
  qed (use assms f in \<open>simp add: end_run_def\<close>)
qed

lemma end_waiting_goes_on:
  assumes "end_waiting now run state reason t = Inr (ended, t')" and "run_finished state"
  shows "goes_on (ru_user run) t t'"
proof -
  obtain hit rdb where f: "finish_waiting now (ru_user run) (ru_id run) state reason (g_tokens (t_db t)) (g_routines (t_db t)) = (hit, rdb)"
    by fastforce
  show ?thesis
  proof (cases hit)
    case (Some e)
    note fin = f [unfolded Some finish_waiting_def]
    have "announce_end now e state (on_routines (\<lambda>_. rdb) t) = Inr t'"
      using assms(1) f Some by (auto simp: end_waiting_def and_then_Inr)
    then show ?thesis
      using announce_end_goes_on [OF _ , of e t rdb now state t'] finish_change [OF fin assms(2)] finish_user [OF fin] by simp
  qed (use assms f in \<open>simp add: end_waiting_def\<close>)
qed

lemma newest_in: "(case rev (sort_key k xs) of [] \<Rightarrow> None | r # _ \<Rightarrow> Some r) = Some x \<Longrightarrow> x \<in> set xs"
proof -
  have "set (rev (sort_key k xs)) = set xs" by simp
  then show "(case rev (sort_key k xs) of [] \<Rightarrow> None | r # _ \<Rightarrow> Some r) = Some x \<Longrightarrow> ?thesis"
    by (cases "rev (sort_key k xs)") auto
qed

lemma first_in: "(case sort_key k xs of [] \<Rightarrow> None | r # _ \<Rightarrow> Some r) = Some x \<Longrightarrow> x \<in> set xs"
proof -
  have "set (sort_key k xs) = set xs" by simp
  then show "(case sort_key k xs of [] \<Rightarrow> None | r # _ \<Rightarrow> Some r) = Some x \<Longrightarrow> ?thesis"
    by (cases "sort_key k xs") auto
qed

lemma end_turn_goes_on: "end_turn now u turn status oot t = Inr t' \<Longrightarrow> goes_on u t t'"
proof -
  assume e: "end_turn now u turn status oot t = Inr t'"
  show ?thesis
  proof (cases "run_of_turn u turn (g_routines (t_db t))")
    case (Some run)
    then have u: "ru_user run = u" unfolding run_of_turn_def by (auto dest!: newest_in)
    have "run_finished (fst (turn_outcome run status oot))" by (cases status) (simp_all add: run_finished_def)
    then show ?thesis
      using e Some u end_run_goes_on [of now run]
      by (auto simp: end_turn_def and_then_Inr split: if_splits prod.splits)
  qed (use e in \<open>simp add: end_turn_def\<close>)
qed

lemma end_each_goes_on:
  "end_each now state reason runs t = Inr t' \<Longrightarrow> run_finished state \<Longrightarrow> \<forall>r \<in> set runs. ru_user r = u \<Longrightarrow> goes_on u t t'"
proof (induction runs arbitrary: t)
  case (Cons run runs)
  obtain x t1 where step: "end_run now run state (Some reason) t = Inr (x, t1)" "end_each now state reason runs t1 = Inr t'"
    using Cons.prems(1) by (auto simp: and_then_Inr)
  show ?case
    using goes_on_trans [OF _ Cons.IH [OF step(2) Cons.prems(2)]] end_run_goes_on [OF step(1) Cons.prems(2)] Cons.prems(3) by simp
qed simp

lemma active_run_Some: "active_run u i db = Some r \<Longrightarrow> r \<in> set (rd_runs db) \<and> ru_routine r = i \<and> ru_user r = u \<and> run_active r"
  unfolding active_run_def by (auto dest!: first_in)

lemma active_run_None: "active_run u i db = None \<longleftrightarrow> (\<forall>r \<in> set (rd_runs db). \<not> (ru_routine r = i \<and> ru_user r = u \<and> run_active r))"
proof -
  have "active_run u i db = None \<longleftrightarrow> sort_key ru_id (filter (\<lambda>r. ru_routine r = i \<and> ru_user r = u \<and> run_active r) (rd_runs db)) = []"
    by (simp add: active_run_def split: list.split)
  also have "\<dots> \<longleftrightarrow> set (sort_key ru_id (filter (\<lambda>r. ru_routine r = i \<and> ru_user r = u \<and> run_active r) (rd_runs db))) = {}"
    by (simp del: set_sort)
  finally show ?thesis by auto
qed

lemma run_change_event: "change u (g_routines (t_db t)) [RoutineRunUpdated (run_to_api run (run_messages run (bd_messages (g_bots (t_db t)))))] rdb
    \<Longrightarrow> goes_on u t (emit_run run (on_routines (\<lambda>_. rdb) t))"
  unfolding emit_run_def using goes_on_change by simp

lemma set_waiting_goes_on:
  assumes w: "set_waiting u i w reason (g_routines (t_db t)) = (Some changed, rdb)"
  shows "goes_on u t (emit_run changed (on_routines (\<lambda>_. rdb) t))"
proof (rule run_change_event, rule MoveRun [OF w [unfolded set_waiting_def]])
  fix r :: run_row
  assume "ru_state r = RunWaiting \<and> (ru_waiting_for r \<noteq> Some w \<or> ru_reason r \<noteq> Some reason)"
  then show "run_active r \<and> run_moves r (r\<lparr>ru_waiting_for := Some w, ru_reason := Some reason\<rparr>)
      \<and> (run_ok r \<longrightarrow> run_ok (r\<lparr>ru_waiting_for := Some w, ru_reason := Some reason\<rparr>))"
    by (auto simp: run_active_def run_moves_def run_key_def run_ok_def)
qed

lemma reschedule_goes_on:
  assumes w: "reschedule_waiting u i due (g_routines (t_db t)) = (Some moved, rdb)"
  shows "goes_on u t (emit_run moved (on_routines (\<lambda>_. rdb) t))"
proof (rule run_change_event, rule MoveRun [OF w [unfolded reschedule_waiting_def]])
  fix r :: run_row
  assume "ru_state r = RunWaiting \<and> ru_scheduled_for r < due"
  then show "run_active r \<and> run_moves r (r\<lparr>ru_scheduled_for := due\<rparr>) \<and> (run_ok r \<longrightarrow> run_ok (r\<lparr>ru_scheduled_for := due\<rparr>))"
    by (auto simp: run_active_def run_moves_def run_key_def run_ok_def)
qed

lemma set_running_goes_on:
  assumes w: "set_running now u i thread turn (g_routines (t_db t)) = (Some running, rdb)"
  shows "goes_on u t (emit_run running (on_routines (\<lambda>_. rdb) t))"
proof (rule run_change_event, rule MoveRun [OF w [unfolded set_running_def]])
  fix r :: run_row
  assume "ru_state r = RunWaiting"
  then show "run_active r \<and> run_moves r (r\<lparr>ru_state := RunRunning, ru_started_at := Some now, ru_thread_id := Some thread,
        ru_turn_id := Some turn, ru_waiting_for := None, ru_reason := None\<rparr>)
      \<and> (run_ok r \<longrightarrow> run_ok (r\<lparr>ru_state := RunRunning, ru_started_at := Some now, ru_thread_id := Some thread,
        ru_turn_id := Some turn, ru_waiting_for := None, ru_reason := None\<rparr>))"
    by (auto simp: run_active_def run_moves_def run_key_def run_ok_def)
qed

lemma goes_on_others:
  "goes_on u t t' \<Longrightarrow> g_routines (t_db t'') = g_routines (t_db t') \<Longrightarrow> t_events t'' = t_events t' \<Longrightarrow> goes_on u t t''"
  using goes_on_trans goes_on_same by blast

lemma start_run_goes_on: "start_run now u b i thread turn ended t = Inr t' \<Longrightarrow> goes_on u t t'"
proof -
  assume s: "start_run now u b i thread turn ended t = Inr t'"
  obtain hit rdb where r: "set_running now u i thread turn (g_routines (t_db t)) = (hit, rdb)" by fastforce
  define t1 where "t1 = (case hit of None \<Rightarrow> t | Some running \<Rightarrow> on_notifications (attribute_notifications u b thread turn i)
    (on_calls (attribute_calls u b thread turn i) (emit_run running (on_routines (\<lambda>_. rdb) t))))"
  have "goes_on u t t1"
    using r by (cases hit) (auto simp: t1_def intro: goes_on_others set_running_goes_on)
  moreover have "t' = t1 \<or> (\<exists>status. end_turn now u turn status False t1 = Inr t')"
    using s r by (auto simp: start_run_def t1_def Let_def split: option.splits)
  ultimately show ?thesis using end_turn_goes_on goes_on_trans by blast
qed

lemma queue_run_goes_on: "queue_run now a r trigger due t = Inr (run, t') \<Longrightarrow> goes_on (ro_user r) t t'"
proof (cases "queue_as now a r due (g_routines (t_db t))")
  case (NewRunIn state reason)
  assume "queue_run now a r trigger due t = Inr (run, t')"
  then obtain row rdb where ins: "insert_run now r \<lparr>nn_trigger = trigger, nn_scheduled_for = due, nn_state = state, nn_reason = reason\<rparr>
      (g_routines (t_db t)) = Inr (row, rdb)"
    and t': "t' = (if state = RunMissed then run_ended now row state False (emit_run row (on_routines (\<lambda>_. rdb) t))
      else emit_run row (on_routines (\<lambda>_. rdb) t))"
    using NewRunIn by (auto simp: queue_run_def and_then_Inr Let_def)
  have state: "state \<noteq> RunRunning" "state = RunWaiting \<Longrightarrow> active_run (ro_user r) (ro_id r) (g_routines (t_db t)) = None"
    using NewRunIn by (auto simp: queue_as_def split: if_splits option.splits)
  have "goes_on (ro_user r) t (emit_run row (on_routines (\<lambda>_. rdb) t))"
    by (rule run_change_event, rule NewRun [OF ins]) (use state in simp_all)
  then show ?thesis using t' goes_on_ended by simp
next
  case (Coalesced active)
  assume q: "queue_run now a r trigger due t = Inr (run, t')"
  obtain hit rdb where m: "reschedule_waiting (ro_user r) (ru_id active) due (g_routines (t_db t)) = (hit, rdb)" by fastforce
  show ?thesis
    using q Coalesced m reschedule_goes_on [of "ro_user r" "ru_id active" due t]
    by (auto simp: queue_run_def split: if_splits option.splits)
qed

text \<open>A checked text passes the check again.\<close>

lemma check_text_again: "check_routine_text field v most single = Inr t \<Longrightarrow> check_routine_text field t most single = Inr t"
  by (auto simp: check_routine_text_def Let_def trim_trim split: if_splits)

lemma check_name_again: "check_routine_name v = Inr t \<Longrightarrow> check_routine_name t = Inr t"
  unfolding check_routine_name_def by (rule check_text_again)

lemma check_prompt_again: "check_prompt v = Inr t \<Longrightarrow> check_prompt t = Inr t"
  unfolding check_prompt_def by (rule check_text_again)

lemma create_in_goes_on:
  assumes "create_in zones utc now u b q t = Inr (api, t')"
  shows "goes_on u t t'"
proof -
  obtain name prompt a where c: "check_routine_name (cq_name q) = Inr name" "check_prompt (cq_prompt q) = Inr prompt"
      "check_schedule (cq_schedule q) = Inr ()" "own_account u t = Inr a"
      "count_routines u (g_routines (t_db t)) < MAX_ROUTINES"
    using assms by (auto simp: create_in_def and_then_Inr split: if_splits)
  define n where "n = \<lparr>nr_bot = b, nr_name = name, nr_prompt = prompt, nr_schedule = cq_schedule q, nr_push = cq_push q,
    nr_paused = cq_paused q, nr_next_run_at = (if cq_paused q then None else next_after (cq_schedule q) (account_zone zones utc a) now)\<rparr>"
  obtain row rdb where r: "create_routine now u n (g_bots (t_db t)) (g_routines (t_db t)) = Inr (row, rdb)"
      "t' = emit (RoutineCreated (routine_to_api row)) (on_routines (\<lambda>_. rdb) t)"
    using assms c by (auto simp: create_in_def and_then_Inr Let_def n_def split: if_splits)
  have "routine_ok row"
    using r(1) c check_name_again check_prompt_again
    by (auto simp: create_routine_def Let_def routine_ok_def n_def FAILURES_TO_PAUSE_def split: option.splits if_splits)
  then show ?thesis unfolding r(2) by (intro goes_on_change NewRoutine [OF r(1) c(5)]) simp_all
qed

lemma save_goes_on:
  assumes "find_routine u (ro_bot r) (ro_id r) (g_routines (t_db t)) = Some old" and "ro_user r = u"
    and "routine_ok old \<Longrightarrow> routine_ok r" and "save_routine now r (g_routines (t_db t)) = Inr (row, rdb)"
  shows "goes_on u t (emit (RoutineUpdated (routine_to_api row)) (on_routines (\<lambda>_. rdb) t))"
  by (rule goes_on_change, rule SaveRoutine [OF assms(1,2) _ assms(4)]) (use assms(3) in simp_all)

lemma update_in_goes_on:
  assumes "update_in zones utc now u b i q t = Inr (api, t')"
  shows "goes_on u t t'"
proof -
  obtain name prompt s a old where c: "check_opt check_routine_name (uq_name q) = Inr name" "check_opt check_prompt (uq_prompt q) = Inr prompt"
      "check_opt check_schedule (uq_schedule q) = Inr s" "own_account u t = Inr a"
      "find_routine u b i (g_routines (t_db t)) = Some old"
    using assms by (auto simp: update_in_def and_then_Inr)
  define r where "r = rescheduled_routine (account_zone zones utc a) now (ro_paused old) (uq_schedule q \<noteq> None) (changed_routine name prompt q old)"
  have same: "ro_bot r = ro_bot old" "ro_id r = ro_id old" "ro_user r = ro_user old"
    by (simp_all add: r_def rescheduled_routine_def changed_routine_def)
  note old = find_routine_Some [OF c(5)]
  have rest: "and_then (save_routine now r (g_routines (t_db t))) (\<lambda>(row, rdb).
         let t1 = emit (RoutineUpdated (routine_to_api row)) (on_routines (\<lambda>_. rdb) t) in
         if ro_paused row \<and> \<not> ro_paused old then
           (case active_run u i (g_routines (t_db t1)) of
              None \<Rightarrow> Inr (routine_to_api row, t1)
            | Some waiting \<Rightarrow>
                and_then (end_waiting now waiting RunSkipped (Some PAUSED) t1) (\<lambda>(_, t2). Inr (routine_to_api row, t2)))
         else Inr (routine_to_api row, t1)) = Inr (api, t')"
    using assms unfolding update_in_def r_def by (simp only: c and_then_simps ok_or_simps Let_def)
  then obtain row rdb where sv: "save_routine now r (g_routines (t_db t)) = Inr (row, rdb)" by (auto simp: and_then_Inr)
  define t1 where "t1 = emit (RoutineUpdated (routine_to_api row)) (on_routines (\<lambda>_. rdb) t)"
  have ok: "routine_ok r" if "routine_ok old"
    using that c(1,2,3) check_name_again check_prompt_again
    by (cases "uq_name q"; cases "uq_prompt q"; cases "uq_schedule q")
      (auto simp: routine_ok_def r_def rescheduled_routine_def changed_routine_def coalesce_def FAILURES_TO_PAUSE_def split: sum.splits)
  have saved: "goes_on u t t1"
    unfolding t1_def by (rule save_goes_on [of u r t old]) (use c(5) same old ok sv in simp_all)
  have "t' = t1 \<or> (\<exists>w x. active_run u i (g_routines (t_db t1)) = Some w \<and> end_waiting now w RunSkipped (Some PAUSED) t1 = Inr (x, t'))"
    using rest unfolding sv and_then_simps prod.case t1_def [symmetric] Let_def
    by (auto simp: and_then_Inr split: if_splits option.splits)
  then show ?thesis
  proof (elim disjE exE conjE)
    fix w x
    assume w: "active_run u i (g_routines (t_db t1)) = Some w" "end_waiting now w RunSkipped (Some PAUSED) t1 = Inr (x, t')"
    have "goes_on (ru_user w) t1 t'" by (rule end_waiting_goes_on [OF w(2)]) (simp add: run_finished_def)
    then show ?thesis using active_run_Some [OF w(1)] goes_on_trans [OF saved] by simp
  qed (use saved in simp)
qed

definition saved_as :: "timestamp \<Rightarrow> routine_row \<Rightarrow> routine_row \<Rightarrow> routine_row" where
  "saved_as now r x = x\<lparr>ro_name := ro_name r, ro_prompt := ro_prompt r, ro_schedule := ro_schedule r,
     ro_push := ro_push r, ro_paused := ro_paused r, ro_failures := ro_failures r,
     ro_next_run_at := ro_next_run_at r, ro_updated_at := now\<rparr>"

lemma saved_as_simps [simp]:
  "ro_id (saved_as now r x) = ro_id x" "ro_user (saved_as now r x) = ro_user x" "ro_bot (saved_as now r x) = ro_bot x"
  "ro_name (saved_as now r x) = ro_name r" "ro_next_run_at (saved_as now r x) = ro_next_run_at r"
  "ro_paused (saved_as now r x) = ro_paused r" "ro_failures (saved_as now r x) = ro_failures r"
  "ro_schedule (saved_as now r x) = ro_schedule r" "ro_prompt (saved_as now r x) = ro_prompt r"
  by (simp_all add: saved_as_def)

lemma save_routine_Inr: "save_routine now r db = Inr (row, db') \<longleftrightarrow>
  (\<exists>old. find_routine (ro_user r) (ro_bot r) (ro_id r) db = Some old \<and> \<not> routine_name_taken (ro_bot r) (ro_name r) (Some (ro_id r)) db
    \<and> row = saved_as now r old
    \<and> db' = db\<lparr>rd_routines := update_where (\<lambda>x. ro_id x = ro_id r \<and> ro_bot x = ro_bot r \<and> ro_user x = ro_user r)
        (saved_as now r) (rd_routines db)\<rparr>)"
  by (auto simp: save_routine_def saved_as_def [abs_def] Let_def split: option.split)

lemma save_other:
  assumes "save_routine now r db = Inr (row, db')" and "i \<noteq> ro_id r"
  shows "routine_of_user u i db' = routine_of_user u i db"
proof -
  have "find (\<lambda>y. ro_id y = i \<and> ro_user y = u) (update_where (\<lambda>x. ro_id x = ro_id r \<and> q x) (saved_as now r) rows)
      = find (\<lambda>y. ro_id y = i \<and> ro_user y = u) rows" for q rows
    using assms(2) by (induction rows) (auto simp: update_where_def)
  then show ?thesis using assms(1) by (auto simp: save_routine_Inr routine_of_user_def)
qed

lemma reschedule_all_goes_on:
  "reschedule_all z now rs t = Inr t' \<Longrightarrow> distinct (map ro_id rs) \<Longrightarrow>
    \<forall>r \<in> set rs. routine_of_user u (ro_id r) (g_routines (t_db t)) = Some r \<Longrightarrow> goes_on u t t'"
proof (induction rs arbitrary: t)
  case (Cons r rs)
  show ?case
  proof (cases "ro_paused r")
    case False
    let ?r = "r\<lparr>ro_next_run_at := next_after (ro_schedule r) z now\<rparr>"
    obtain row rdb where s: "save_routine now ?r (g_routines (t_db t)) = Inr (row, rdb)"
      and rest: "reschedule_all z now rs (emit (RoutineUpdated (routine_to_api row)) (on_routines (\<lambda>_. rdb) t)) = Inr t'"
      using Cons.prems(1) False by (auto simp: and_then_Inr)
    note own = find_routine_own [of u "ro_id r" "g_routines (t_db t)" r]
    have step: "goes_on u t (emit (RoutineUpdated (routine_to_api row)) (on_routines (\<lambda>_. rdb) t))"
      by (rule save_goes_on [of u ?r t r]) (use own Cons.prems(3) s False in \<open>auto simp: routine_ok_def\<close>)
    have "routine_of_user u (ro_id x) rdb = Some x" if "x \<in> set rs" for x
    proof -
      have "ro_id x \<noteq> ro_id ?r" using Cons.prems(2) that by (force simp: image_iff)
      then show ?thesis using save_other [OF s] Cons.prems(3) that by simp
    qed
    then show ?thesis using goes_on_trans [OF step Cons.IH [OF rest]] Cons.prems(2) by simp
  qed (use Cons in simp)
qed simp

lemma goes_on_start: "goes_on u t0 t' \<Longrightarrow> g_routines (t_db t0) = g_routines (t_db t) \<Longrightarrow>
    filter routine_event (t_events t0) = filter routine_event (t_events t) \<Longrightarrow> goes_on u t t'"
  by (simp add: goes_on_def)

lemma fall_due_goes_on: "fall_due zones utc now due t = Inr t' \<Longrightarrow> goes_on (ro_user due) t t'"
proof -
  assume f: "fall_due zones utc now due t = Inr t'"
  show ?thesis
  proof (cases "routine_of_user (ro_user due) (ro_id due) (g_routines (t_db t))")
    case (Some r)
    note own = find_routine_own [OF Some]
    have "t' = t \<or> (\<exists>a latest row rdb x z. save_routine now (r\<lparr>ro_next_run_at := next_after (ro_schedule r) z now\<rparr>) (g_routines (t_db t)) = Inr (row, rdb)
        \<and> queue_run now a row ScheduleTrigger latest (emit (RoutineUpdated (routine_to_api row)) (on_routines (\<lambda>_. rdb) t)) = Inr (x, t')
        \<and> \<not> ro_paused r)"
      using f Some by (auto simp: fall_due_def and_then_Inr Let_def split: option.splits if_splits) blast+
    then show ?thesis
    proof (elim disjE exE conjE)
      fix a latest row rdb x z
      assume s: "save_routine now (r\<lparr>ro_next_run_at := next_after (ro_schedule r) z now\<rparr>) (g_routines (t_db t)) = Inr (row, rdb)"
        and q: "queue_run now a row ScheduleTrigger latest (emit (RoutineUpdated (routine_to_api row)) (on_routines (\<lambda>_. rdb) t)) = Inr (x, t')"
        and paused: "\<not> ro_paused r"
      have "ro_user row = ro_user due"
        using s own by (auto simp: save_routine_Inr dest!: find_routine_Some)
      moreover have "goes_on (ro_user due) t (emit (RoutineUpdated (routine_to_api row)) (on_routines (\<lambda>_. rdb) t))"
        by (rule save_goes_on [OF _ _ _ s, of _ r]) (use own paused in \<open>auto simp: routine_ok_def\<close>)
      ultimately show ?thesis using queue_run_goes_on [OF q] goes_on_trans by simp
    qed simp
  qed (use f in \<open>simp add: fall_due_def\<close>)
qed

section \<open>The invariant of the tables\<close>

definition routine_key :: "routine_row \<Rightarrow> routine_id \<times> user_id \<times> bot_id" where
  "routine_key r = (ro_id r, ro_user r, ro_bot r)"

definition routine_names_unique :: "routine_row list \<Rightarrow> bool" where
  "routine_names_unique rows \<longleftrightarrow> (\<forall>r \<in> set rows. \<forall>s \<in> set rows. ro_bot r = ro_bot s
     \<and> to_ascii_lowercase (ro_name r) = to_ascii_lowercase (ro_name s) \<longrightarrow> ro_id r = ro_id s)"

definition one_active_run :: "run_row list \<Rightarrow> bool" where
  "one_active_run rows \<longleftrightarrow> (\<forall>r \<in> set rows. \<forall>s \<in> set rows. run_active r \<and> run_active s
     \<and> ru_routine r = ru_routine s \<longrightarrow> ru_id r = ru_id s)"

definition routines_ok :: "routines_db \<Rightarrow> bool" where
  "routines_ok db \<longleftrightarrow> ascending ro_id (rd_routines db) \<and> ascending ru_id (rd_runs db)
     \<and> routine_names_unique (rd_routines db) \<and> (\<forall>r \<in> set (rd_routines db). routine_ok r)
     \<and> (\<forall>u. count_routines u db \<le> MAX_ROUTINES)
     \<and> (\<forall>r \<in> set (rd_runs db). run_ok r \<and> (ru_routine r, ru_user r, ru_bot r) \<in> routine_key ` set (rd_routines db))
     \<and> one_active_run (rd_runs db)"

lemma routine_names_uniqueI:
  "(\<And>x y. x \<in> set rows \<Longrightarrow> y \<in> set rows \<Longrightarrow> ro_bot x = ro_bot y \<Longrightarrow>
      to_ascii_lowercase (ro_name x) = to_ascii_lowercase (ro_name y) \<Longrightarrow> ro_id x = ro_id y) \<Longrightarrow> routine_names_unique rows"
  unfolding routine_names_unique_def by blast

lemma routine_names_uniqueD:
  "routine_names_unique rows \<Longrightarrow> x \<in> set rows \<Longrightarrow> y \<in> set rows \<Longrightarrow> ro_bot x = ro_bot y \<Longrightarrow>
      to_ascii_lowercase (ro_name x) = to_ascii_lowercase (ro_name y) \<Longrightarrow> ro_id x = ro_id y"
  unfolding routine_names_unique_def by blast

lemma one_active_runI:
  "(\<And>x y. x \<in> set rows \<Longrightarrow> y \<in> set rows \<Longrightarrow> run_active x \<Longrightarrow> run_active y \<Longrightarrow> ru_routine x = ru_routine y \<Longrightarrow>
      ru_id x = ru_id y) \<Longrightarrow> one_active_run rows"
  unfolding one_active_run_def by blast

lemma one_active_runD:
  "one_active_run rows \<Longrightarrow> x \<in> set rows \<Longrightarrow> y \<in> set rows \<Longrightarrow> run_active x \<Longrightarrow> run_active y \<Longrightarrow>
      ru_routine x = ru_routine y \<Longrightarrow> ru_id x = ru_id y"
  unfolding one_active_run_def by blast

lemma name_free: "\<not> routine_name_taken b n except db \<Longrightarrow> x \<in> set (rd_routines db) \<Longrightarrow> ro_bot x = b \<Longrightarrow>
    to_ascii_lowercase (ro_name x) = to_ascii_lowercase n \<Longrightarrow> Some (ro_id x) = except"
  by (auto simp: routine_name_taken_def list_ex_iff)

lemma routines_ok_new:
  assumes ok: "routines_ok db" and c: "create_routine now u n bdb db = Inr (row, db')"
    and room: "count_routines u db < MAX_ROUTINES" and row: "routine_ok row"
  shows "routines_ok db'"
proof -
  have new: "\<not> routine_name_taken (ro_bot row) (ro_name row) None db" "ro_id row = next_rowid (map ro_id (rd_routines db))"
      "ro_user row = u" "db' = db\<lparr>rd_routines := rd_routines db @ [row]\<rparr>"
    using c by (auto simp: create_routine_def Let_def split: option.splits if_splits)
  have "ascending ro_id (rd_routines db @ [row])" using ok new(2) by (simp add: routines_ok_def ascending_new)
  moreover have "routine_names_unique (rd_routines db @ [row])"
  proof (rule routine_names_uniqueI)
    fix x y
    assume xy: "x \<in> set (rd_routines db @ [row])" "y \<in> set (rd_routines db @ [row])" "ro_bot x = ro_bot y"
      "to_ascii_lowercase (ro_name x) = to_ascii_lowercase (ro_name y)"
    have free: "z \<in> set (rd_routines db) \<Longrightarrow> ro_bot z = ro_bot row \<Longrightarrow>
        to_ascii_lowercase (ro_name z) \<noteq> to_ascii_lowercase (ro_name row)" for z
      using name_free [OF new(1), of z] by auto
    have names: "routine_names_unique (rd_routines db)" using ok by (simp add: routines_ok_def)
    show "ro_id x = ro_id y"
      using xy free [of x] free [of y] routine_names_uniqueD [OF names, of x y] by auto
  qed
  moreover have "count_routines v db' \<le> MAX_ROUTINES" for v
    using ok room new(3,4) by (auto simp: routines_ok_def count_routines_def)
  ultimately show ?thesis using ok row new(4) by (auto simp: routines_ok_def)
qed

lemma routines_ok_save:
  assumes ok: "routines_ok db" and s: "save_routine now r db = Inr (row, db')"
    and f: "find_routine u (ro_bot r) (ro_id r) db = Some old" "ro_user r = u" and keep: "routine_ok old \<Longrightarrow> routine_ok r"
  shows "routines_ok db'"
proof -
  let ?q = "\<lambda>x. ro_id x = ro_id r \<and> ro_bot x = ro_bot r \<and> ro_user x = ro_user r"
  let ?rows = "update_where ?q (saved_as now r) (rd_routines db)"
  have free: "\<not> routine_name_taken (ro_bot r) (ro_name r) (Some (ro_id r)) db"
    and db': "db' = db\<lparr>rd_routines := ?rows\<rparr>"
    using s by (auto simp: save_routine_Inr)
  note old = find_routine_Some [OF f(1)]
  have r: "routine_ok r" using ok old keep by (auto simp: routines_ok_def)
  have keys: "routine_key ` set ?rows = routine_key ` set (rd_routines db)"
    by (rule keys_updated) (simp add: routine_key_def)
  have asc: "ascending ro_id ?rows" using ok by (simp add: routines_ok_def ascending_update)
  have row_cases: "y \<in> set (rd_routines db) \<or> (ro_bot y = ro_bot r \<and> ro_name y = ro_name r \<and> ro_id y = ro_id r \<and> routine_ok y)"
    if y: "y \<in> set ?rows" for y
  proof -
    obtain x where x: "x \<in> set (rd_routines db)" "y = (if ?q x then saved_as now r x else x)"
      using y by (auto simp: update_where_def)
    have "routine_ok (saved_as now r x)" using r by (simp add: routine_ok_def)
    then show ?thesis using x by (cases "?q x") simp_all
  qed
  have names: "routine_names_unique ?rows"
  proof (rule routine_names_uniqueI)
    fix x y
    assume xy: "x \<in> set ?rows" "y \<in> set ?rows" "ro_bot x = ro_bot y"
      "to_ascii_lowercase (ro_name x) = to_ascii_lowercase (ro_name y)"
    have old_names: "routine_names_unique (rd_routines db)" using ok by (simp add: routines_ok_def)
    show "ro_id x = ro_id y"
      using row_cases [OF xy(1)] row_cases [OF xy(2)]
    proof (elim disjE)
      assume "x \<in> set (rd_routines db)" "y \<in> set (rd_routines db)"
      then show ?thesis using routine_names_uniqueD [OF old_names, of x y] xy(3,4) by blast
    next
      assume "x \<in> set (rd_routines db)" "ro_bot y = ro_bot r \<and> ro_name y = ro_name r \<and> ro_id y = ro_id r \<and> routine_ok y"
      then show ?thesis using name_free [OF free, of x] xy(3,4) by simp
    next
      assume "y \<in> set (rd_routines db)" "ro_bot x = ro_bot r \<and> ro_name x = ro_name r \<and> ro_id x = ro_id r \<and> routine_ok x"
      then show ?thesis using name_free [OF free, of y] xy(3,4) by simp
    qed simp
  qed
  have count: "count_routines v db' = count_routines v db" for v
  proof -
    have "length (filter (\<lambda>r. ro_user r = v) (update_where ?q (saved_as now r) rows)) = length (filter (\<lambda>r. ro_user r = v) rows)" for rows
      by (induction rows) (auto simp: update_where_def)
    then show ?thesis by (simp add: db' count_routines_def)
  qed
  have each: "\<forall>x \<in> set ?rows. routine_ok x"
  proof
    fix x assume "x \<in> set ?rows"
    then show "routine_ok x" using row_cases [of x] ok by (auto simp: routines_ok_def)
  qed
  have tables: "rd_routines db' = ?rows" "rd_runs db' = rd_runs db" by (simp_all add: db')
  show ?thesis using ok asc names each count unfolding routines_ok_def tables keys by simp
qed

lemma routines_ok_delete:
  assumes ok: "routines_ok db" and d: "delete_routine u b i db = (True, db')"
  shows "routines_ok db'"
proof -
  have db': "db' = db\<lparr>rd_routines := filter (\<lambda>r. \<not> (ro_id r = i \<and> ro_bot r = b \<and> ro_user r = u)) (rd_routines db),
        rd_runs := filter (\<lambda>r. ru_routine r \<noteq> i) (rd_runs db)\<rparr>"
    using d by (auto simp: delete_routine_def split: if_splits)
  have tables: "rd_routines db' = filter (\<lambda>r. \<not> (ro_id r = i \<and> ro_bot r = b \<and> ro_user r = u)) (rd_routines db)"
      "rd_runs db' = filter (\<lambda>r. ru_routine r \<noteq> i) (rd_runs db)"
    by (simp_all add: db')
  have "count_routines v db' \<le> count_routines v db" for v
    unfolding count_routines_def tables by (rule length_filter_twice)
  then have count: "\<forall>v. count_routines v db' \<le> MAX_ROUTINES" using ok le_trans unfolding routines_ok_def by blast
  have left: "k \<in> routine_key ` set (rd_routines db')" if "k \<in> routine_key ` set (rd_routines db)" "fst k \<noteq> i" for k
    using that by (auto simp: tables routine_key_def)
  have "\<forall>r \<in> set (rd_runs db'). run_ok r \<and> (ru_routine r, ru_user r, ru_bot r) \<in> routine_key ` set (rd_routines db')"
  proof
    fix r assume r: "r \<in> set (rd_runs db')"
    then have "run_ok r" "(ru_routine r, ru_user r, ru_bot r) \<in> routine_key ` set (rd_routines db)"
      using ok by (auto simp: tables routines_ok_def)
    then show "run_ok r \<and> (ru_routine r, ru_user r, ru_bot r) \<in> routine_key ` set (rd_routines db')"
      using left [of "(ru_routine r, ru_user r, ru_bot r)"] r by (simp add: tables)
  qed
  moreover have "routine_names_unique (rd_routines db')"
    by (rule routine_names_uniqueI, rule routine_names_uniqueD [of "rd_routines db"])
      (use ok in \<open>simp_all add: routines_ok_def tables\<close>)
  moreover have "one_active_run (rd_runs db')"
    by (rule one_active_runI, rule one_active_runD [of "rd_runs db"])
      (use ok in \<open>simp_all add: routines_ok_def tables\<close>)
  moreover have "ascending ro_id (rd_routines db')" "ascending ru_id (rd_runs db')" "\<forall>r \<in> set (rd_routines db'). routine_ok r"
    using ok by (auto simp: routines_ok_def tables ascending_filter)
  ultimately show ?thesis using count unfolding routines_ok_def by blast
qed

lemma routines_ok_run:
  assumes ok: "routines_ok db" and i: "insert_run now r n db = Inr (run, db')"
    and state: "nn_state n \<noteq> RunRunning" "nn_state n = RunWaiting \<Longrightarrow> active_run (ro_user r) (ro_id r) db = None"
  shows "routines_ok db'"
proof -
  obtain stored where s: "routine_of_user (ro_user r) (ro_id r) db = Some stored"
    using i by (auto simp: insert_run_def split: option.splits)
  have stored: "stored \<in> set (rd_routines db)" "ro_id stored = ro_id r" "ro_user stored = ro_user r"
    using s by (auto simp: routine_of_user_def dest: find_Some_in)
  have run: "ru_id run = next_rowid (map ru_id (rd_runs db))" "ru_routine run = ro_id r" "ru_user run = ro_user r"
      "ru_bot run = ro_bot stored" "ru_state run = nn_state n" "run_ok run"
    and tables: "rd_routines db' = rd_routines db" "rd_runs db' = rd_runs db @ [run]"
    using i s stored state(1) by (auto simp: insert_run_def Let_def run_ok_def run_active_def run_finished_def split: if_splits)
  have owner: "ru_user x = ro_user r" if x: "x \<in> set (rd_runs db)" "ru_routine x = ro_id r" for x
  proof -
    have "(ru_routine x, ru_user x, ru_bot x) \<in> routine_key ` set (rd_routines db)" using ok x(1) by (simp add: routines_ok_def)
    then obtain y where y: "y \<in> set (rd_routines db)" "ro_id y = ro_id r" "ro_user y = ru_user x"
      using x(2) by (auto simp: routine_key_def)
    have "y = stored" using ascending_inj [of ro_id "rd_routines db" y stored] ok y stored by (simp add: routines_ok_def)
    then show ?thesis using y stored by simp
  qed
  have alone: "\<not> run_active x" if "run_active run" "x \<in> set (rd_runs db)" "ru_routine x = ro_id r" for x
  proof -
    have "nn_state n = RunWaiting" using that(1) run(5) state(1) by (auto simp: run_active_def)
    from state(2) [OF this] show ?thesis unfolding active_run_None using that owner by blast
  qed
  have "one_active_run (rd_runs db @ [run])"
  proof (rule one_active_runI)
    fix x y
    assume xy: "x \<in> set (rd_runs db @ [run])" "y \<in> set (rd_runs db @ [run])" "run_active x" "run_active y" "ru_routine x = ru_routine y"
    have old: "one_active_run (rd_runs db)" using ok by (simp add: routines_ok_def)
    consider "x = run" "y = run" | "x = run" "y \<in> set (rd_runs db)" | "x \<in> set (rd_runs db)" "y = run"
      | "x \<in> set (rd_runs db)" "y \<in> set (rd_runs db)" using xy(1,2) by auto
    then show "ru_id x = ru_id y"
    proof cases
      case 2
      then show ?thesis using alone [of y] xy(3,4,5) run(2) by simp
    next
      case 3
      then show ?thesis using alone [of x] xy(3,4,5) run(2) by simp
    next
      case 4
      then show ?thesis using one_active_runD [OF old] xy by blast
    qed simp
  qed
  moreover have "(ru_routine run, ru_user run, ru_bot run) \<in> routine_key ` set (rd_routines db)"
    by (rule rev_image_eqI [OF stored(1)]) (use stored run in \<open>simp add: routine_key_def\<close>)
  moreover have "ascending ru_id (rd_runs db @ [run])" using ok run(1) by (simp add: routines_ok_def ascending_new)
  ultimately show ?thesis using ok run(6) by (simp add: routines_ok_def tables count_routines_def)
qed

text \<open>A change of one run that keeps what it is and ends nothing twice.\<close>

lemma routines_ok_move:
  assumes ok: "routines_ok db"
    and moves: "\<And>r. r \<in> set (rd_runs db) \<Longrightarrow> p r \<Longrightarrow> run_key (f r) = run_key r \<and> run_ok (f r) \<and> (run_active (f r) \<longrightarrow> run_active r)"
  shows "routines_ok (db\<lparr>rd_runs := update_where p f (rd_runs db)\<rparr>)"
proof -
  let ?rows = "update_where p f (rd_runs db)"
  have row: "\<exists>x \<in> set (rd_runs db). run_key y = run_key x \<and> run_ok y \<and> (run_active y \<longrightarrow> run_active x)" if "y \<in> set ?rows" for y
    using that moves ok by (auto simp: update_where_def routines_ok_def)
  have "map ru_id ?rows = map ru_id (rd_runs db)"
    using moves by (auto simp: update_where_def run_key_def)
  then have asc: "ascending ru_id ?rows" using ok by (simp add: routines_ok_def ascending_def)
  have "one_active_run ?rows"
  proof (rule one_active_runI)
    fix x y
    assume xy: "x \<in> set ?rows" "y \<in> set ?rows" "run_active x" "run_active y" "ru_routine x = ru_routine y"
    obtain a c where a: "a \<in> set (rd_runs db)" "run_key x = run_key a" "run_active a"
      and c: "c \<in> set (rd_runs db)" "run_key y = run_key c" "run_active c" using row xy(1-4) by meson
    have "ru_id a = ru_id c"
      using ok one_active_runD [of "rd_runs db" a c] a c xy(5) by (simp add: routines_ok_def run_key_def)
    then show "ru_id x = ru_id y" using a(2) c(2) by (simp add: run_key_def)
  qed
  moreover have "run_ok y \<and> (ru_routine y, ru_user y, ru_bot y) \<in> routine_key ` set (rd_routines db)" if "y \<in> set ?rows" for y
    using row [OF that] ok by (auto simp: routines_ok_def run_key_def)
  ultimately show ?thesis using ok asc by (auto simp: routines_ok_def count_routines_def)
qed

lemma change_keeps_ok: "change u db es db' \<Longrightarrow> routines_ok db \<Longrightarrow> routines_ok db'"
proof (induction rule: change.induct)
  case (NewRoutine now n bdb db row db')
  then show ?case using routines_ok_new by blast
next
  case (SaveRoutine r db old now row db')
  then show ?case using routines_ok_save by blast
next
  case (NewRun now r n db run db' ms)
  then show ?case using routines_ok_run [of db now r n run db'] by blast
next
  case (MoveRun i q f db run db' ms)
  have db': "db' = db\<lparr>rd_runs := update_where (\<lambda>r. ru_id r = i \<and> ru_user r = u \<and> q r) f (rd_runs db)\<rparr>"
    using MoveRun(1) by (auto simp: update_run_def)
  show ?case
    unfolding db'
  proof (rule routines_ok_move [OF MoveRun(3)])
    fix r assume "r \<in> set (rd_runs db)" "ru_id r = i \<and> ru_user r = u \<and> q r"
    then show "run_key (f r) = run_key r \<and> run_ok (f r) \<and> (run_active (f r) \<longrightarrow> run_active r)"
      using MoveRun(2) [of r] MoveRun(3) by (simp add: run_moves_def routines_ok_def)
  qed
next
  case (MarkDeadline db now i)
  show ?case
    unfolding set_deadline_passed_def
    by (rule routines_ok_move [OF MarkDeadline])
      (use MarkDeadline in \<open>auto simp: run_key_def run_active_def routines_ok_def run_ok_def\<close>)
qed

lemma changes_keep_ok: "changes u db es db' \<Longrightarrow> routines_ok db \<Longrightarrow> routines_ok db'"
  by (induction rule: changes.induct) (simp_all add: change_keeps_ok)

section \<open>Operations\<close>

fun op_user :: "routines_op \<Rightarrow> user_id" where
  "op_user (CreateRoutine now u b q) = u"
| "op_user (UpdateRoutine now u b i q) = u"
| "op_user (DeleteRoutine u b i) = u"
| "op_user (RunNow now u b i) = u"
| "op_user (ChangeTimeZone now u z) = u"
| "op_user (RecoverRun now run) = ru_user run"
| "op_user (FallDue now r) = ro_user r"
| "op_user (SettleAttempt now run disabled start) = ru_user run"
| "op_user (StartRun now u b i thread turn ended) = u"
| "op_user (EnforceDeadline now run) = ru_user run"
| "op_user (EndTurn now u turn status oot) = u"
| "op_user (EndRunning now u b reason) = u"
| "op_user (PruneRuns now) = 0"
| "op_user (OtherTables db) = 0"

text \<open>The operations that take rows away.\<close>

fun removes :: "routines_op \<Rightarrow> bool" where
  "removes (PruneRuns _) = True"
| "removes (DeleteRoutine _ _ _) = True"
| "removes _ = False"

lemma delete_in_Inr: "delete_in u b i t = Inr t' \<longleftrightarrow> (\<exists>rdb. delete_routine u b i (g_routines (t_db t)) = (True, rdb)
    \<and> t' = emit (RoutineDeleted b i) (on_routines (\<lambda>_. rdb) t))"
  by (auto simp: delete_in_def split: prod.split bool.split)

lemma routine_in_table: "routines_ok db \<Longrightarrow> r \<in> set (rd_routines db) \<Longrightarrow> routine_of_user (ro_user r) (ro_id r) db = Some r"
proof -
  assume "routines_ok db" and r: "r \<in> set (rd_routines db)"
  then have "distinct (map ro_id (rd_routines db))" by (simp add: routines_ok_def ascending_distinct)
  then have "find (\<lambda>x. ro_id x = ro_id r \<and> ro_user x = ro_user r) rows = Some r"
    if "r \<in> set rows" "distinct (map ro_id rows)" for rows
    using that by (induction rows) auto
  then show ?thesis using r \<open>distinct _\<close> by (simp add: routine_of_user_def)
qed

lemma time_zone_goes_on:
  assumes ok: "routines_ok (g_routines (t_db t))" and c: "change_time_zone zones utc now u given t = Inr (a, t')"
  shows "goes_on u t t'"
proof -
  obtain name adb where n: "set_time_zone now u name (g_accounts (t_db t)) = Inr (a, adb)"
      "reschedule_all (stored_zone zones utc name) now (routines_of_user u (g_routines (t_db t)))
        (emit (AccountUpdated (ac_user a)) (on_accounts (\<lambda>_. adb) t)) = Inr t'"
    using c by (auto simp: change_time_zone_def and_then_Inr Let_def)
  have asc: "ascending ro_id (filter (\<lambda>r. ro_user r = u) (rd_routines (g_routines (t_db t))))"
    using ok by (simp add: routines_ok_def ascending_filter)
  then have rows: "routines_of_user u (g_routines (t_db t)) = filter (\<lambda>r. ro_user r = u) (rd_routines (g_routines (t_db t)))"
    by (simp add: routines_of_user_def ascending_sorted)
  have "distinct (map ro_id (routines_of_user u (g_routines (t_db t))))" unfolding rows by (rule ascending_distinct [OF asc])
  then have "goes_on u (emit (AccountUpdated (ac_user a)) (on_accounts (\<lambda>_. adb) t)) t'"
    by (rule reschedule_all_goes_on [OF n(2)]) (use rows routine_in_table [OF ok] in auto)
  then show ?thesis by (rule goes_on_start) simp_all
qed

lemma settle_attempt_goes_on: "settle_attempt now run disabled start t = Inr t' \<Longrightarrow> goes_on (ru_user run) t t'"
proof (cases "attempt_action now run disabled start")
  case (EndUnstarted state reason)
  assume s: "settle_attempt now run disabled start t = Inr t'"
  have "run_finished state"
    using EndUnstarted by (auto simp: attempt_action_def run_finished_def split: if_splits routine_start.splits)
  then show ?thesis using s EndUnstarted end_waiting_goes_on [of now run] by (auto simp: settle_attempt_def and_then_Inr)
next
  case (KeepWaiting w reason)
  assume s: "settle_attempt now run disabled start t = Inr t'"
  obtain hit rdb where w: "set_waiting (ru_user run) (ru_id run) w reason (g_routines (t_db t)) = (hit, rdb)" by fastforce
  then show ?thesis using s KeepWaiting set_waiting_goes_on by (cases hit) (auto simp: settle_attempt_def)
qed (simp add: settle_attempt_def)

lemma enforce_deadline_goes_on: "enforce_deadline now run t = Inr t' \<Longrightarrow> goes_on (ru_user run) t t'"
proof (cases "deadline_action now run")
  case AskInterrupt
  assume "enforce_deadline now run t = Inr t'"
  then have t': "t' = on_routines (set_deadline_passed now (ru_user run) (ru_id run)) t"
    using AskInterrupt by (simp add: enforce_deadline_def)
  have "changes (ru_user run) (g_routines (t_db t)) [] (g_routines (t_db t'))"
    using changes_one [OF MarkDeadline] by (simp add: t')
  then show ?thesis unfolding goes_on_def using t' by fastforce
next
  case EndStuck
  assume e: "enforce_deadline now run t = Inr t'"
  show ?thesis
  proof (cases "find_run (ru_user run) (ru_id run) (g_routines (t_db t))")
    case (Some current)
    then have "ru_user current = ru_user run" by (auto simp: find_run_def dest: find_Some_in)
    then show ?thesis
      using e EndStuck Some end_run_goes_on [of now current RunInterrupted]
      by (auto simp: enforce_deadline_def end_again_def and_then_Inr run_finished_def)
  qed (use e EndStuck in \<open>simp add: enforce_deadline_def end_again_def\<close>)
qed (simp add: enforce_deadline_def)

lemma routines_tx_goes_on:
  assumes ok: "routines_ok (g_routines db)" and t: "routines_tx zones utc opr db = Inr t" and "\<not> removes opr"
  shows "goes_on (op_user opr) (tx_open db) t"
proof -
  have ok': "routines_ok (g_routines (t_db (tx_open db)))" using ok by simp
  have map_Inr: "map_sum id snd r = Inr t \<Longrightarrow> \<exists>x. r = Inr (x, t)" for r :: "failure + 'b \<times> tx"
    by (cases r) auto
  show ?thesis
  proof (cases opr)
    case (CreateRoutine now u b q)
    then show ?thesis using t create_in_goes_on by (auto dest!: map_Inr)
  next
    case (UpdateRoutine now u b i q)
    then show ?thesis using t update_in_goes_on by (auto dest!: map_Inr)
  next
    case (RunNow now u b i)
    then obtain x where "run_now now u b i (tx_open db) = Inr (x, t)" using t by (auto dest!: map_Inr)
    then obtain r a where "find_routine u b i (g_routines db) = Some r" "queue_run now a r ManualTrigger now (tx_open db) = Inr (x, t)"
      by (auto simp: run_now_def and_then_Inr)
    then show ?thesis using queue_run_goes_on RunNow find_routine_Some by fastforce
  next
    case (ChangeTimeZone now u z)
    then show ?thesis using t time_zone_goes_on [OF ok'] by (auto dest!: map_Inr)
  next
    case (RecoverRun now run)
    then show ?thesis using t end_run_goes_on [of now run RunFailed] by (auto simp: recover_run_def and_then_Inr run_finished_def)
  next
    case (FallDue now r)
    then show ?thesis using t fall_due_goes_on by auto
  next
    case (SettleAttempt now run disabled start)
    then show ?thesis using t settle_attempt_goes_on by auto
  next
    case (StartRun now u b i thread turn ended)
    then show ?thesis using t start_run_goes_on by auto
  next
    case (EnforceDeadline now run)
    then show ?thesis using t enforce_deadline_goes_on by auto
  next
    case (EndTurn now u turn status oot)
    then show ?thesis using t end_turn_goes_on by auto
  next
    case (EndRunning now u b reason)
    then have "\<exists>reason. end_each now RunFailed reason (running_runs_of u b (g_routines db)) (tx_open db) = Inr t"
      using t by (auto simp: end_running_def)
    then obtain why where "end_each now RunFailed why (running_runs_of u b (g_routines db)) (tx_open db) = Inr t" ..
    then have "goes_on u (tx_open db) t"
      by (rule end_each_goes_on) (simp_all add: run_finished_def running_runs_of_def)
    then show ?thesis using EndRunning by simp
  next
    case (OtherTables db')
    then show ?thesis using t by (auto intro: goes_on_same)
  qed (use assms(3) in simp_all)
qed

lemma prune_ok: "routines_ok db \<Longrightarrow> routines_ok (prune_runs now db)"
proof -
  assume ok: "routines_ok db"
  let ?p = "\<lambda>r. \<not> (ru_queued_at r \<le> now - RUN_RETENTION_MS \<and> \<not> run_active r)"
  have tables: "rd_routines (prune_runs now db) = rd_routines db" "rd_runs (prune_runs now db) = filter ?p (rd_runs db)"
    by (simp_all add: prune_runs_def)
  have count: "count_routines u (prune_runs now db) = count_routines u db" for u by (simp add: count_routines_def tables)
  have "one_active_run (filter ?p (rd_runs db))"
    by (rule one_active_runI, rule one_active_runD [of "rd_runs db"]) (use ok in \<open>simp_all add: routines_ok_def\<close>)
  moreover have "ascending ru_id (filter ?p (rd_runs db))" using ok by (simp add: routines_ok_def ascending_filter)
  ultimately show ?thesis using ok unfolding routines_ok_def tables count by simp
qed

lemma routines_do_ok: "routines_ok (g_routines db) \<Longrightarrow> routines_ok (g_routines (routines_do zones utc opr db))"
proof (cases "routines_tx zones utc opr db")
  case (Inr t)
  assume ok: "routines_ok (g_routines db)"
  show ?thesis
  proof (cases "removes opr")
    case True
    have "routines_do zones utc opr db = t_db t" using Inr by (simp add: routines_do_def)
    then show ?thesis using ok Inr True prune_ok routines_ok_delete
      by (cases opr) (auto simp: delete_in_Inr)
  next
    case False
    then show ?thesis
      using routines_tx_goes_on [OF ok Inr] Inr changes_keep_ok ok by (auto simp: goes_on_def routines_do_def)
  qed
qed (simp add: routines_do_def)

lemma routines_ok_after: "routines_ok (g_routines (routines_after zones utc db ops))"
proof -
  have "routines_ok (g_routines (db\<lparr>g_routines := no_routines\<rparr>))"
    by (simp add: routines_ok_def no_routines_def ascending_def routine_names_unique_def count_routines_def one_active_run_def)
  moreover have "routines_ok (g_routines db) \<Longrightarrow> routines_ok (g_routines (fold (routines_do zones utc) ops db))" for db
    by (induction ops arbitrary: db) (simp_all add: routines_do_ok)
  ultimately show ?thesis by (simp add: routines_after_def)
qed

end
