(* ===== verification/RoutinePromises.thy ===== *)
theory RoutinePromises
  imports RoutineSafety
begin

text \<open>
  What routines promise: their tables stay consistent, a run only moves forward, clients are told
  of every change, and whatever fell due is queued. One thing they do not keep is at the end: ids
  of deleted runs come back.
\<close>

section \<open>The tables\<close>

text \<open>C16: whatever requests, passes of the scheduler, turns and restarts come in whatever order,
  an account has at most twenty routines, the names of a Bot's routines differ, a routine that is
  not paused has failed fewer than three times in a row, a paused one is never due, at most one
  run of a routine is waiting or running, and a run's state, times, thread and turn agree.\<close>

theorem routine_tables_stay_consistent: "routines_ok (g_routines (routines_after zones utc db ops))"
  by (rule routines_ok_after)

section \<open>The life of a run\<close>

text \<open>What a transaction that takes nothing away does to the runs that there are.\<close>

definition runs_move :: "routines_db \<Rightarrow> routines_db \<Rightarrow> bool" where
  "runs_move db db' \<longleftrightarrow> (\<forall>r \<in> set (rd_runs db). \<exists>s \<in> set (rd_runs db'). run_moves r s)"

lemma run_moves_refl [simp]: "run_moves r r"
  by (simp add: run_moves_def)

lemma run_moves_trans: "run_moves r s \<Longrightarrow> run_moves s v \<Longrightarrow> run_moves r v"
  unfolding run_moves_def by auto

lemma runs_move_trans: "runs_move db db' \<Longrightarrow> runs_move db' db'' \<Longrightarrow> runs_move db db''"
  unfolding runs_move_def using run_moves_trans by meson

lemma runs_move_keep: "set (rd_runs db) \<subseteq> set (rd_runs db') \<Longrightarrow> runs_move db db'"
  unfolding runs_move_def using run_moves_refl by blast

lemma runs_move_update:
  "(\<And>r. p r \<Longrightarrow> run_moves r (f r)) \<Longrightarrow> runs_move db (db\<lparr>rd_runs := update_where p f (rd_runs db)\<rparr>)"
proof -
  assume moves: "\<And>r. p r \<Longrightarrow> run_moves r (f r)"
  show ?thesis
    unfolding runs_move_def update_where_def
  proof (rule ballI, rule bexI)
    fix r assume "r \<in> set (rd_runs db)"
    then show "(if p r then f r else r) \<in> set (rd_runs (db\<lparr>rd_runs := map (\<lambda>r. if p r then f r else r) (rd_runs db)\<rparr>))"
      by auto
    show "run_moves r (if p r then f r else r)" using moves by simp
  qed
qed

lemma change_moves: "change u db es db' \<Longrightarrow> runs_move db db'"
proof (induction rule: change.induct)
  case (NewRoutine now n bdb db row db')
  then show ?case by (intro runs_move_keep) (auto simp: create_routine_def Let_def split: option.splits if_splits)
next
  case (SaveRoutine r db old now row db')
  then show ?case by (intro runs_move_keep) (auto simp: save_routine_Inr)
next
  case (NewRun now r n db run db' ms)
  then show ?case by (intro runs_move_keep) (auto simp: insert_run_def Let_def split: option.splits)
next
  case (MoveRun i q f db run db' ms)
  then have "db' = db\<lparr>rd_runs := update_where (\<lambda>r. ru_id r = i \<and> ru_user r = u \<and> q r) f (rd_runs db)\<rparr>"
    by (auto simp: update_run_def)
  then show ?case using MoveRun(2) by (auto intro: runs_move_update)
next
  case (MarkDeadline db now i)
  show ?case unfolding set_deadline_passed_def
    by (rule runs_move_update) (auto simp: run_moves_def run_key_def)
qed

lemma changes_move: "changes u db es db' \<Longrightarrow> runs_move db db'"
proof (induction rule: changes.induct)
  case (NoChange db)
  show ?case by (rule runs_move_keep) simp
next
  case (MoreChanges db es db' fs db'')
  then show ?case using change_moves runs_move_trans by blast
qed

lemma run_by_id: "routines_ok db \<Longrightarrow> r \<in> set (rd_runs db) \<Longrightarrow> s \<in> set (rd_runs db) \<Longrightarrow> ru_id r = ru_id s \<Longrightarrow> r = s"
  unfolding routines_ok_def using ascending_inj [of ru_id "rd_runs db" r s] by blast

lemma routines_do_moves:
  assumes ok: "routines_ok (g_routines db)" and r: "r \<in> set (rd_runs (g_routines db))"
    and s: "s \<in> set (rd_runs (g_routines (routines_do zones utc opr db)))" "ru_id s = ru_id r"
  shows "run_moves r s"
proof (cases "routines_tx zones utc opr db")
  case (Inl e)
  then show ?thesis using run_by_id [OF ok, of s r] r s by (simp add: routines_do_def)
next
  case (Inr t)
  have t: "routines_do zones utc opr db = t_db t" using Inr by (simp add: routines_do_def)
  show ?thesis
  proof (cases "removes opr")
    case True
    then have "set (rd_runs (g_routines (t_db t))) \<subseteq> set (rd_runs (g_routines db))"
      using Inr by (cases opr) (auto simp: delete_in_Inr delete_routine_def prune_runs_def split: if_splits)
    then show ?thesis using run_by_id [OF ok, of s r] r s t by auto
  next
    case False
    then have "runs_move (g_routines db) (g_routines (t_db t))"
      using routines_tx_goes_on [OF ok Inr] changes_move by (auto simp: goes_on_def)
    then obtain s' where s': "s' \<in> set (rd_runs (g_routines (t_db t)))" "run_moves r s'"
      using r by (auto simp: runs_move_def)
    have "routines_ok (g_routines (t_db t))" using routines_do_ok [OF ok, of zones utc opr] t by simp
    then have "s' = s" using run_by_id s' s t by (simp add: run_moves_def run_key_def)
    then show ?thesis using s' by simp
  qed
qed

text \<open>C24: a run keeps its routine, trigger and time of queueing; it waits, then runs in one thread and
  turn from one start, then is over for good, or is over without having run: whatever operation
  comes next, a run that is over is not changed again, and a running one does not wait again.\<close>

theorem runs_only_move_forward:
  "let db = g_routines (routines_after zones utc db0 ops);
       db' = g_routines (routines_after zones utc db0 (ops @ [opr]))
   in list_all (\<lambda>r. list_all (run_moves r) (filter (\<lambda>s. ru_id s = ru_id r) (rd_runs db'))) (rd_runs db)"
proof -
  have "routines_after zones utc db0 (ops @ [opr]) = routines_do zones utc opr (routines_after zones utc db0 ops)"
    by (simp add: routines_after_def)
  then show ?thesis
    using routines_do_moves [OF routines_ok_after, where zones = zones and utc = utc and opr = opr] by (simp add: list_all_iff Let_def)
qed

section \<open>What clients are told\<close>

text \<open>What the routes give of an account's routines and runs, the messages of a run aside.\<close>

type_synonym routines_view = "(routine_id \<Rightarrow> routine option) \<times> (routine_run_id \<Rightarrow> routine_run option)"

definition routines_view :: "user_id \<Rightarrow> routines_db \<Rightarrow> routines_view" where
  "routines_view u db = (\<lambda>i. map_option routine_to_api (routine_of_user u i db),
     \<lambda>i. map_option (\<lambda>r. run_to_api r []) (find_run u i db))"

text \<open>What a client that hears an event knows.\<close>

fun hear :: "event \<Rightarrow> routines_view \<Rightarrow> routines_view" where
  "hear (RoutineCreated r) (rs, runs) = (rs(r_id r \<mapsto> r), runs)"
| "hear (RoutineUpdated r) (rs, runs) = (rs(r_id r \<mapsto> r), runs)"
| "hear (RoutineDeleted b i) (rs, runs) =
     (rs(i := None), \<lambda>j. case runs j of None \<Rightarrow> None | Some run \<Rightarrow> if rr_routine_id run = i then None else Some run)"
| "hear (RoutineRunUpdated run) (rs, runs) = (rs, runs(rr_id run \<mapsto> run\<lparr>rr_messages := []\<rparr>))"
| "hear _ v = v"

lemma hear_others: "fold hear (filter routine_event evs) v = fold hear evs v"
proof (induction evs arbitrary: v)
  case (Cons ev evs)
  have "\<not> routine_event ev \<Longrightarrow> hear ev v = v" by (cases ev; cases v) simp_all
  then show ?case using Cons by simp
qed simp

lemma find_by_key: "ascending key rows \<Longrightarrow> find (\<lambda>x. key x = i \<and> q x) rows = Some r \<longleftrightarrow> r \<in> set rows \<and> key r = i \<and> q r"
proof -
  assume "ascending key rows"
  then have "distinct (map key rows)" by (rule ascending_distinct)
  then show ?thesis by (induction rows) auto
qed

lemma find_update_where:
  "(\<And>x. x \<in> set rows \<Longrightarrow> p x \<Longrightarrow> q (f x) = q x) \<Longrightarrow>
    find q (update_where p f rows) = map_option (\<lambda>r. if p r then f r else r) (find q rows)"
  by (induction rows) (auto simp: update_where_def)

lemma routine_of_user_iff: "routines_ok db \<Longrightarrow>
    routine_of_user u i db = Some r \<longleftrightarrow> r \<in> set (rd_routines db) \<and> ro_id r = i \<and> ro_user r = u"
  unfolding routine_of_user_def routines_ok_def using find_by_key [of ro_id "rd_routines db" i "\<lambda>r. ro_user r = u" r] by blast

lemma find_run_iff: "routines_ok db \<Longrightarrow> find_run u i db = Some r \<longleftrightarrow> r \<in> set (rd_runs db) \<and> ru_id r = i \<and> ru_user r = u"
  unfolding find_run_def routines_ok_def using find_by_key [of ru_id "rd_runs db" i "\<lambda>r. ru_user r = u" r] by blast

lemma routine_to_api_id [simp]: "r_id (routine_to_api r) = ro_id r"
  by (simp add: routine_to_api_def)

lemma run_to_api_simps [simp]:
  "rr_id (run_to_api r ms) = ru_id r" "rr_routine_id (run_to_api r ms) = ru_routine r"
  "(run_to_api r ms)\<lparr>rr_messages := ms'\<rparr> = run_to_api r ms'"
  by (simp_all add: run_to_api_def)

lemma fresh_find: "ascending key rows \<Longrightarrow> find (\<lambda>r. key r = next_rowid (map key rows) \<and> q r) rows = None"
  using next_rowid_greater [of _ "map key rows"] by (fastforce simp: find_None_iff)

text \<open>Told of a change, a client's view is what it was, changed by the event.\<close>

definition told :: "user_id \<Rightarrow> routines_db \<Rightarrow> event list \<Rightarrow> routines_db \<Rightarrow> bool" where
  "told u db es db' \<longleftrightarrow>
     (\<forall>v. routines_view v db' = (if v = u then fold hear es (routines_view u db) else routines_view v db))"

lemma told_new:
  assumes ok: "routines_ok db" and c: "create_routine now u n bdb db = Inr (row, db')"
  shows "told u db [RoutineCreated (routine_to_api row)] db'"
proof -
  have new: "ro_id row = next_rowid (map ro_id (rd_routines db))" "ro_user row = u"
      "db' = db\<lparr>rd_routines := rd_routines db @ [row]\<rparr>"
    using c by (auto simp: create_routine_def Let_def split: option.splits if_splits)
  have asc: "ascending ro_id (rd_routines db)" using ok by (simp add: routines_ok_def)
  have "routine_of_user v i db' = (if i = ro_id row \<and> v = u then Some row else routine_of_user v i db)" for v i
    using fresh_find [OF asc, of "\<lambda>r. ro_user r = v"] new
    by (auto simp: routine_of_user_def find_append split: option.split)
  moreover have "find_run v i db' = find_run v i db" for v i by (simp add: new(3) find_run_def)
  ultimately show ?thesis by (auto simp: told_def routines_view_def fun_eq_iff)
qed

lemma told_save:
  assumes ok: "routines_ok db" and f: "find_routine u (ro_bot r) (ro_id r) db = Some old" "ro_user r = u"
    and s: "save_routine now r db = Inr (row, db')"
  shows "told u db [RoutineUpdated (routine_to_api row)] db'"
proof -
  let ?p = "\<lambda>x. ro_id x = ro_id r \<and> ro_bot x = ro_bot r \<and> ro_user x = ro_user r"
  have row: "row = saved_as now r old" and db': "db' = db\<lparr>rd_routines := update_where ?p (saved_as now r) (rd_routines db)\<rparr>"
    using s f by (auto simp: save_routine_Inr)
  note old = find_routine_Some [OF f(1)]
  have look: "routine_of_user v i db' = map_option (\<lambda>x. if ?p x then saved_as now r x else x) (routine_of_user v i db)" for v i
    unfolding routine_of_user_def db' by (simp add: find_update_where)
  have this_one: "routine_of_user u (ro_id r) db = Some old" using old routine_of_user_iff [OF ok] by blast
  have others: "routine_of_user v i db' = routine_of_user v i db" if "i \<noteq> ro_id r \<or> v \<noteq> u" for v i
  proof (cases "routine_of_user v i db")
    case (Some a)
    then have "ro_id a = i" "ro_user a = v" using routine_of_user_iff [OF ok] by blast+
    then show ?thesis using that f(2) Some by (auto simp: look)
  qed (simp add: look)
  have "routine_of_user v i db' = (if i = ro_id r \<and> v = u then Some row else routine_of_user v i db)" for v i
    using this_one others [of i v] old f(2) row by (auto simp: look)
  moreover have "find_run v i db' = find_run v i db" for v i by (simp add: db' find_run_def)
  ultimately show ?thesis using old row by (auto simp: told_def routines_view_def fun_eq_iff)
qed

lemma told_new_run:
  assumes ok: "routines_ok db" and i: "insert_run now r n db = Inr (run, db')" and u: "ro_user r = u"
  shows "told u db [RoutineRunUpdated (run_to_api run ms)] db'"
proof -
  have new: "ru_id run = next_rowid (map ru_id (rd_runs db))" "ru_user run = u" "db' = db\<lparr>rd_runs := rd_runs db @ [run]\<rparr>"
    using i u routine_of_user_iff [OF ok] by (auto simp: insert_run_def Let_def split: option.splits)
  have asc: "ascending ru_id (rd_runs db)" using ok by (simp add: routines_ok_def)
  have "find_run v i db' = (if i = ru_id run \<and> v = u then Some run else find_run v i db)" for v i
    using fresh_find [OF asc, of "\<lambda>r. ru_user r = v"] new
    by (auto simp: find_run_def find_append split: option.split)
  moreover have "routine_of_user v i db' = routine_of_user v i db" for v i by (simp add: new(3) routine_of_user_def)
  ultimately show ?thesis by (auto simp: told_def routines_view_def fun_eq_iff)
qed

lemma told_move:
  assumes ok: "routines_ok db" and m: "update_run (\<lambda>r. ru_id r = i \<and> ru_user r = u \<and> q r) f db = (Some run, db')"
    and moves: "\<And>r. q r \<Longrightarrow> run_key (f r) = run_key r"
  shows "told u db [RoutineRunUpdated (run_to_api run ms)] db'"
proof -
  let ?p = "\<lambda>r. ru_id r = i \<and> ru_user r = u \<and> q r"
  obtain x where x: "x \<in> set (rd_runs db)" "?p x" "run = f x" and db': "db' = db\<lparr>rd_runs := update_where ?p f (rd_runs db)\<rparr>"
    using m by (auto simp: update_run_def dest: find_Some_in)
  have look: "find_run v j db' = map_option (\<lambda>r. if ?p r then f r else r) (find_run v j db)" for v j
  proof -
    have "rd_runs db' = update_where ?p f (rd_runs db)" by (simp add: db')
    then show ?thesis unfolding find_run_def
      by (simp only:, intro find_update_where) (use moves in \<open>auto simp: run_key_def\<close>)
  qed
  have this_one: "find_run u i db = Some x" using x find_run_iff [OF ok] by blast
  have others: "find_run v j db' = find_run v j db" if "j \<noteq> i \<or> v \<noteq> u" for v j
  proof (cases "find_run v j db")
    case (Some a)
    then have "ru_id a = j" "ru_user a = v" using find_run_iff [OF ok] by blast+
    then show ?thesis using that Some by (auto simp: look)
  qed (simp add: look)
  have "find_run v j db' = (if j = i \<and> v = u then Some run else find_run v j db)" for v j
    using this_one others [of j v] x by (auto simp: look)
  moreover have "routine_of_user v j db' = routine_of_user v j db" for v j by (simp add: db' routine_of_user_def)
  moreover have "ru_id run = i" using x moves [of x] by (simp add: run_key_def)
  ultimately show ?thesis by (auto simp: told_def routines_view_def fun_eq_iff)
qed

lemma told_deadline: "told u db [] (set_deadline_passed now u i db)"
proof -
  let ?p = "\<lambda>r. ru_id r = i \<and> ru_user r = u \<and> ru_state r = RunRunning \<and> ru_deadline_passed_at r = None"
  have "find_run v j (set_deadline_passed now u i db)
      = map_option (\<lambda>r. if ?p r then r\<lparr>ru_deadline_passed_at := Some now\<rparr> else r) (find_run v j db)" for v j
    unfolding find_run_def set_deadline_passed_def by (simp add: find_update_where)
  then have "map_option (\<lambda>r. run_to_api r []) (find_run v j (set_deadline_passed now u i db))
      = map_option (\<lambda>r. run_to_api r []) (find_run v j db)" for v j
    by (auto simp: option.map_comp comp_def run_to_api_def intro!: option.map_cong)
  moreover have "routine_of_user v j (set_deadline_passed now u i db) = routine_of_user v j db" for v j
    by (simp add: set_deadline_passed_def routine_of_user_def)
  ultimately show ?thesis by (simp add: told_def routines_view_def)
qed

lemma told_deleted:
  assumes ok: "routines_ok db" and d: "delete_routine u b i db = (True, db')"
  shows "told u db [RoutineDeleted b i] db'"
proof -
  obtain old where old: "find_routine u b i db = Some old" using d by (auto simp: delete_routine_def split: if_splits)
  have db': "db' = db\<lparr>rd_routines := filter (\<lambda>r. \<not> (ro_id r = i \<and> ro_bot r = b \<and> ro_user r = u)) (rd_routines db),
      rd_runs := filter (\<lambda>r. ru_routine r \<noteq> i) (rd_runs db)\<rparr>"
    using d by (auto simp: delete_routine_def split: if_splits)
  have ok': "routines_ok db'" by (rule routines_ok_delete [OF ok d])
  note this_old = find_routine_Some [OF old]
  have unique: "r = old" if "r \<in> set (rd_routines db)" "ro_id r = i" for r
    using ascending_inj [of ro_id "rd_routines db" r old] ok this_old that by (simp add: routines_ok_def)
  have owned: "ru_user r = u" if r: "r \<in> set (rd_runs db)" "ru_routine r = i" for r
  proof -
    have "(ru_routine r, ru_user r, ru_bot r) \<in> routine_key ` set (rd_routines db)" using ok r(1) by (simp add: routines_ok_def)
    then show ?thesis using unique r(2) this_old by (auto simp: routine_key_def)
  qed
  have "routine_of_user v j db' = Some r \<longleftrightarrow> (if j = i \<and> v = u then False else routine_of_user v j db = Some r)" for v j r
    unfolding routine_of_user_iff [OF ok'] routine_of_user_iff [OF ok] using this_old unique by (auto simp: db')
  then have routines: "routine_of_user v j db' = (if j = i \<and> v = u then None else routine_of_user v j db)" for v j
    by (metis option.exhaust)
  have kept: "find_run v j db' = Some r \<longleftrightarrow> find_run v j db = Some r \<and> ru_routine r \<noteq> i" for v j r
    unfolding find_run_iff [OF ok'] find_run_iff [OF ok] by (auto simp: db')
  have runs: "find_run v j db' = (case find_run v j db of None \<Rightarrow> None | Some r \<Rightarrow> if ru_routine r = i then None else Some r)" for v j
  proof (cases "find_run v j db")
    case None
    then show ?thesis using kept [of v j "the (find_run v j db')"] by (cases "find_run v j db'") simp_all
  next
    case (Some r)
    then show ?thesis using kept [of v j r] kept [of v j "the (find_run v j db')"] by (cases "find_run v j db'") auto
  qed
  have others: "find_run v j db' = find_run v j db" if "v \<noteq> u" for v j
  proof (cases "find_run v j db")
    case (Some r)
    then have "ru_routine r \<noteq> i" using that owned find_run_iff [OF ok, of v j r] by blast
    then show ?thesis using Some by (simp add: runs)
  qed (simp add: runs)
  show ?thesis
    unfolding told_def
  proof
    fix v
    show "routines_view v db' = (if v = u then fold hear [RoutineDeleted b i] (routines_view u db) else routines_view v db)"
    proof (cases "v = u")
      case True
      then show ?thesis by (auto simp: routines_view_def routines runs fun_eq_iff split: option.split)
    next
      case False
      then show ?thesis by (simp add: routines_view_def routines others)
    qed
  qed
qed

lemma told_change: "change u db es db' \<Longrightarrow> routines_ok db \<Longrightarrow> told u db es db'"
proof (induction rule: change.induct)
  case (NewRoutine now n bdb db row db')
  then show ?case using told_new by blast
next
  case (SaveRoutine r db old now row db')
  then show ?case using told_save by blast
next
  case (NewRun now r n db run db' ms)
  then show ?case using told_new_run by blast
next
  case (MoveRun i q f db run db' ms)
  then show ?case using told_move [of db i u q f run db' ms] by (simp add: run_moves_def)
next
  case (MarkDeadline db now i)
  show ?case by (rule told_deadline)
qed

lemma told_changes: "changes u db es db' \<Longrightarrow> routines_ok db \<Longrightarrow> told u db es db'"
proof (induction rule: changes.induct)
  case (NoChange db)
  show ?case by (simp add: told_def)
next
  case (MoreChanges db es db' fs db'')
  have "told u db' fs db''" by (rule told_change) (use MoreChanges changes_keep_ok in blast)+
  then show ?case using MoreChanges by (auto simp: told_def)
qed

fun is_prune :: "routines_op \<Rightarrow> bool" where
  "is_prune (PruneRuns _) = True"
| "is_prune _ = False"

text \<open>C18: an operation that commits announces all it did: who knew an account's routines and runs
  and hears the events of the transaction knows them as they are now, and no other account's
  change. Only the pruning of old runs is silent. One that fails changes nothing.\<close>

theorem clients_hear_every_change:
  "let db = routines_after zones utc db0 ops in
   case routines_tx zones utc opr db of
     Inl e \<Rightarrow> routines_do zones utc opr db = db
   | Inr t \<Rightarrow>
       if is_prune opr then t_events t = []
       else \<forall>u. routines_view u (g_routines (t_db t)) =
         (if u = op_user opr then fold hear (t_events t) (routines_view u (g_routines db)) else routines_view u (g_routines db))"
proof -
  let ?db = "routines_after zones utc db0 ops"
  note ok = routines_ok_after [of zones utc db0 ops]
  show ?thesis
  proof (cases "routines_tx zones utc opr ?db")
    case (Inr t)
    have "told (op_user opr) (g_routines ?db) (filter routine_event (t_events t)) (g_routines (t_db t))" if "\<not> is_prune opr"
    proof (cases "removes opr")
      case True
      then obtain u b i where "opr = DeleteRoutine u b i" using \<open>\<not> is_prune opr\<close> by (cases opr) simp_all
      then show ?thesis using Inr told_deleted [OF ok] by (auto simp: delete_in_Inr)
    next
      case False
      then show ?thesis using routines_tx_goes_on [OF ok Inr] told_changes ok by (auto simp: goes_on_def)
    qed
    moreover have "t_events t = []" if "is_prune opr" using that Inr by (cases opr) auto
    ultimately show ?thesis using Inr by (auto simp: told_def hear_others)
  qed (simp add: routines_do_def)
qed

section \<open>Nothing due is left behind\<close>

definition is_due :: "timestamp \<Rightarrow> routine_row \<Rightarrow> bool" where
  "is_due now r \<longleftrightarrow> \<not> ro_paused r \<and> (case ro_next_run_at r of None \<Rightarrow> False | Some t \<Rightarrow> t \<le> now)"

lemma due_routines_set: "set (due_routines now db) = {r \<in> set (rd_routines db). is_due now r}"
  by (auto simp: due_routines_def is_due_def)

text \<open>A run of the routine, for that time or a later one.\<close>

definition run_for :: "routine_id \<Rightarrow> timestamp \<Rightarrow> routines_db \<Rightarrow> bool" where
  "run_for i d db \<longleftrightarrow> list_ex (\<lambda>r. ru_routine r = i \<and> d \<le> ru_scheduled_for r) (rd_runs db)"

lemma run_for_earlier: "run_for i l db \<Longrightarrow> d \<le> l \<Longrightarrow> run_for i d db"
  by (auto simp: run_for_def list_ex_iff)

definition keeps_runs_for :: "routines_db \<Rightarrow> routines_db \<Rightarrow> bool" where
  "keeps_runs_for db db' \<longleftrightarrow> (\<forall>i d. run_for i d db \<longrightarrow> run_for i d db')"

lemma keeps_runs_append: "rd_runs db' = rd_runs db @ rs \<Longrightarrow> keeps_runs_for db db'"
  by (simp add: keeps_runs_for_def run_for_def)

lemma run_ended_accounts: "g_accounts (t_db (run_ended now run state paused t)) = g_accounts (t_db t)"
  by (simp add: run_ended_def merge_pushes_def queue_push_def Let_def split: option.split prod.split)

lemma run_for_raised:
  "list_ex (\<lambda>r. ru_routine r = i \<and> d \<le> ru_scheduled_for r) rows \<Longrightarrow>
    list_ex (\<lambda>r. ru_routine r = i \<and> d \<le> ru_scheduled_for r)
      (update_where (\<lambda>x. q x \<and> ru_scheduled_for x < l) (\<lambda>x. x\<lparr>ru_scheduled_for := l\<rparr>) rows)"
  by (induction rows) (auto simp: update_where_def)

lemma raised_run_for:
  "x \<in> set rows \<Longrightarrow> ru_routine x = i \<Longrightarrow> q x \<Longrightarrow>
    list_ex (\<lambda>r. ru_routine r = i \<and> l \<le> ru_scheduled_for r)
      (update_where (\<lambda>x. q x \<and> ru_scheduled_for x < l) (\<lambda>x. x\<lparr>ru_scheduled_for := l\<rparr>) rows)"
  by (induction rows) (auto simp: update_where_def)

text \<open>Queueing for a time: a new run, or the waiting one, which is moved to that time if it was for an earlier one.\<close>

lemma queue_run_queues:
  assumes f: "routine_of_user (ro_user r) (ro_id r) (g_routines (t_db t)) = Some stored"
  obtains run t' where "queue_run now a r ScheduleTrigger latest t = Inr (run, t')"
    "g_accounts (t_db t') = g_accounts (t_db t)" "rd_routines (g_routines (t_db t')) = rd_routines (g_routines (t_db t))"
    "keeps_runs_for (g_routines (t_db t)) (g_routines (t_db t'))" "run_for (ro_id r) latest (g_routines (t_db t'))"
proof (cases "queue_as now a r latest (g_routines (t_db t))")
  case (NewRunIn state reason)
  let ?n = "\<lparr>nn_trigger = ScheduleTrigger, nn_scheduled_for = latest, nn_state = state, nn_reason = reason\<rparr>"
  obtain run rdb where i: "insert_run now r ?n (g_routines (t_db t)) = Inr (run, rdb)" and ids: "ru_routine run = ro_id r"
    "ru_scheduled_for run = latest" "rdb = (g_routines (t_db t))\<lparr>rd_runs := rd_runs (g_routines (t_db t)) @ [run]\<rparr>"
    using f by (auto simp: insert_run_def Let_def routine_of_user_def dest: find_Some_in)
  show ?thesis
    by (rule that [of "Some run" "if state = RunMissed then run_ended now run state False (emit_run run (on_routines (\<lambda>_. rdb) t))
        else emit_run run (on_routines (\<lambda>_. rdb) t)"])
      (use NewRunIn i ids in \<open>auto simp: queue_run_def emit_run_def run_ended_accounts run_for_def keeps_runs_append\<close>)
next
  case (Coalesced active)
  let ?q = "\<lambda>x. ru_id x = ru_id active \<and> ru_user x = ro_user r \<and> ru_state x = RunWaiting"
  let ?p = "\<lambda>x. ?q x \<and> ru_scheduled_for x < latest"
  let ?db = "g_routines (t_db t)"
  let ?db' = "?db\<lparr>rd_runs := update_where ?p (\<lambda>x. x\<lparr>ru_scheduled_for := latest\<rparr>) (rd_runs ?db)\<rparr>"
  have "active_run (ro_user r) (ro_id r) ?db = Some active" "ru_state active = RunWaiting"
    using Coalesced by (auto simp: queue_as_def split: if_splits option.splits)
  then have active: "active \<in> set (rd_runs ?db)" "ru_routine active = ro_id r" "?q active"
    using active_run_Some by auto
  have moved: "reschedule_waiting (ro_user r) (ru_id active) latest ?db
      = (map_option (\<lambda>x. x\<lparr>ru_scheduled_for := latest\<rparr>) (find ?p (rd_runs ?db)), ?db')"
    by (simp add: reschedule_waiting_def update_run_def conj_assoc)
  have rows: "rd_runs ?db' = update_where ?p (\<lambda>x. x\<lparr>ru_scheduled_for := latest\<rparr>) (rd_runs ?db)" by simp
  have keeps: "keeps_runs_for ?db ?db'"
    unfolding keeps_runs_for_def run_for_def rows by (intro allI impI) (rule run_for_raised)
  have queued: "run_for (ro_id r) latest ?db'"
    unfolding run_for_def rows by (rule raised_run_for [where q = ?q, OF active])
  show ?thesis
  proof (cases "find ?p (rd_runs ?db)")
    case None
    then have "\<not> ?p active" using active(1) by (auto simp: find_None_iff)
    then have "run_for (ro_id r) latest ?db" using active by (auto simp: run_for_def list_ex_iff)
    then show ?thesis
      by (intro that [of None t]) (use Coalesced moved None in \<open>simp_all add: queue_run_def keeps_runs_for_def\<close>)
  next
    case (Some x)
    show ?thesis
      by (rule that [of None "emit_run (x\<lparr>ru_scheduled_for := latest\<rparr>) (on_routines (\<lambda>_. ?db') t)"])
        (use Coalesced moved Some keeps queued in \<open>simp_all add: queue_run_def emit_run_def\<close>)
  qed
qed

lemma in_updated: "y \<in> set (update_where p f rows) \<Longrightarrow> \<exists>x \<in> set rows. y = (if p x then f x else x)"
  unfolding update_where_def set_map by (erule imageE) blast

lemma kept_in_update: "x \<in> set rows \<Longrightarrow> \<not> p x \<Longrightarrow> x \<in> set (update_where p f rows)"
  unfolding update_where_def set_map by (rule image_eqI [of _ _ x]) simp_all

text \<open>One routine of a pass: if it is due a run is queued for it and it is no longer due; no other routine changes.\<close>

lemma fall_due_queues:
  assumes ok: "routines_ok (g_routines db)"
    and owner: "\<forall>r \<in> set (rd_routines (g_routines db)). account (g_accounts db) (ro_user r) \<noteq> None"
    and db': "db' = routines_do zones utc (FallDue now due) db"
  shows "g_accounts db' = g_accounts db
    \<and> ro_user ` set (rd_routines (g_routines db')) \<subseteq> ro_user ` set (rd_routines (g_routines db))
    \<and> {r \<in> set (rd_routines (g_routines db')). is_due now r} \<subseteq> {r \<in> set (rd_routines (g_routines db)). is_due now r} - {due}
    \<and> {r \<in> set (rd_routines (g_routines db)). is_due now r \<and> ro_id r \<noteq> ro_id due} \<subseteq> set (rd_routines (g_routines db'))
    \<and> keeps_runs_for (g_routines db) (g_routines db')
    \<and> (due \<in> set (rd_routines (g_routines db)) \<and> is_due now due \<longrightarrow>
        run_for (ro_id due) (the (ro_next_run_at due)) (g_routines db'))"
proof (cases "\<exists>r d. routine_of_user (ro_user due) (ro_id due) (g_routines db) = Some r \<and> ro_next_run_at r = Some d \<and> d \<le> now \<and> \<not> ro_paused r")
  case False
  then have "fall_due zones utc now due (tx_open db) = Inr (tx_open db)"
    by (auto simp: fall_due_def split: option.split)
  moreover have "\<not> (due \<in> set (rd_routines (g_routines db)) \<and> is_due now due)"
    using False routine_in_table [OF ok, of due] by (auto simp: is_due_def split: option.splits)
  ultimately show ?thesis by (auto simp: db' routines_do_def keeps_runs_for_def)
next
  case True
  then obtain r d where r: "routine_of_user (ro_user due) (ro_id due) (g_routines db) = Some r"
    "ro_next_run_at r = Some d" "d \<le> now" "\<not> ro_paused r" by blast
  note own = find_routine_own [OF r(1)]
  have in_table: "r \<in> set (rd_routines (g_routines db))" "ro_id r = ro_id due" "ro_user r = ro_user due"
    using routine_of_user_iff [OF ok] r(1) by blast+
  obtain a where a: "account (g_accounts db) (ro_user r) = Some a" using owner in_table by blast
  let ?z = "account_zone zones utc a"
  let ?r = "r\<lparr>ro_next_run_at := next_after (ro_schedule r) ?z now\<rparr>"
  let ?latest = "case latest_at_or_before (ro_schedule r) ?z now of Some l \<Rightarrow> if l \<ge> d then l else d | None \<Rightarrow> d"
  let ?p = "\<lambda>x. ro_id x = ro_id r \<and> ro_bot x = ro_bot r \<and> ro_user x = ro_user r"
  let ?rdb = "(g_routines db)\<lparr>rd_routines := update_where ?p (saved_as now ?r) (rd_routines (g_routines db))\<rparr>"
  let ?row = "saved_as now ?r r"
  have names: "routine_names_unique (rd_routines (g_routines db))" using ok by (simp add: routines_ok_def)
  have free: "\<not> routine_name_taken (ro_bot r) (ro_name r) (Some (ro_id r)) (g_routines db)"
    unfolding routine_name_taken_def list_ex_iff using routine_names_uniqueD [OF names _ in_table(1)] by blast
  have saved: "save_routine now ?r (g_routines db) = Inr (?row, ?rdb)"
    using own free in_table by (simp add: save_routine_Inr)
  let ?t1 = "emit (RoutineUpdated (routine_to_api ?row)) (on_routines (\<lambda>_. ?rdb) (tx_open db))"
  have "routine_of_user (ro_user ?row) (ro_id ?row) (g_routines (t_db ?t1)) = Some ?row"
    using r(1) in_table by (simp add: routine_of_user_def find_update_where)
  then obtain run t where q: "queue_run now a ?row ScheduleTrigger ?latest ?t1 = Inr (run, t)"
    and t: "g_accounts (t_db t) = g_accounts db" "rd_routines (g_routines (t_db t)) = rd_routines ?rdb"
      "keeps_runs_for ?rdb (g_routines (t_db t))" "run_for (ro_id r) ?latest (g_routines (t_db t))"
    by (rule queue_run_queues) auto
  have "fall_due zones utc now due (tx_open db) = Inr t"
    unfolding fall_due_def using r in_table a saved q by (simp add: own_account_def ok_or_def and_then_Inr Let_def)
  then have t': "db' = t_db t" by (simp add: db' routines_do_def)
  have only: "x = r" if "x \<in> set (rd_routines (g_routines db))" "ro_id x = ro_id r" for x
    using ascending_inj [of ro_id "rd_routines (g_routines db)" x r] ok in_table that by (simp add: routines_ok_def)
  have table: "rd_routines ?rdb = update_where ?p (saved_as now ?r) (rd_routines (g_routines db))" by simp
  have rows: "y = ?row \<or> y \<in> set (rd_routines (g_routines db)) - {due}" if y: "y \<in> set (rd_routines ?rdb)" for y
  proof -
    obtain x where x: "x \<in> set (rd_routines (g_routines db))" "y = (if ?p x then saved_as now ?r x else x)"
      using in_updated [OF y [unfolded table]] by blast
    show ?thesis
    proof (cases "?p x")
      case True
      then have "x = r" using only [OF x(1)] by blast
      then show ?thesis using x(2) by simp
    next
      case False
      then have "y = x" "x \<noteq> r" using x(2) by auto
      moreover have "x \<noteq> due" using only [OF x(1)] \<open>x \<noteq> r\<close> in_table(2) by metis
      ultimately show ?thesis using x(1) by blast
    qed
  qed
  have "\<not> is_due now ?row" using next_after_later by (auto simp: is_due_def split: option.splits) fastforce
  then have dues: "{y \<in> set (rd_routines ?rdb). is_due now y} \<subseteq> {r \<in> set (rd_routines (g_routines db)). is_due now r} - {due}"
    using rows by blast
  have users: "ro_user ` set (rd_routines ?rdb) \<subseteq> ro_user ` set (rd_routines (g_routines db))"
  proof (rule image_subsetI)
    fix y assume "y \<in> set (rd_routines ?rdb)"
    from rows [OF this] have "ro_user y = ro_user r \<or> y \<in> set (rd_routines (g_routines db))" by auto
    then show "ro_user y \<in> ro_user ` set (rd_routines (g_routines db))" using in_table(1) by auto
  qed
  have others: "{x \<in> set (rd_routines (g_routines db)). is_due now x \<and> ro_id x \<noteq> ro_id due} \<subseteq> set (rd_routines ?rdb)"
  proof
    fix x assume "x \<in> {x \<in> set (rd_routines (g_routines db)). is_due now x \<and> ro_id x \<noteq> ro_id due}"
    then have "x \<in> set (rd_routines (g_routines db))" "\<not> ?p x" using in_table(2) by auto
    then show "x \<in> set (rd_routines ?rdb)" unfolding table by (rule kept_in_update)
  qed
  have keeps: "keeps_runs_for (g_routines db) (g_routines (t_db t))"
    using t(3) by (simp add: keeps_runs_for_def run_for_def)
  have queued: "run_for (ro_id due) (the (ro_next_run_at due)) (g_routines (t_db t))" if "due \<in> set (rd_routines (g_routines db))"
  proof -
    have due_is: "due = r" by (rule only [OF that in_table(2) [symmetric]])
    have "d \<le> ?latest" by (simp split: option.split)
    then have "run_for (ro_id r) d (g_routines (t_db t))" by (rule run_for_earlier [OF t(4)])
    then show ?thesis unfolding due_is r(2) by (simp only: option.sel)
  qed
  show ?thesis
    unfolding t' t(1,2)
    by (rule conjI [OF refl conjI [OF users conjI [OF dues conjI [OF others conjI [OF keeps impI]]]]]) (rule queued, erule conjunct1)
qed

definition scheduler_pass :: "(utext \<Rightarrow> tz option) \<Rightarrow> tz \<Rightarrow> timestamp \<Rightarrow> routine_row list \<Rightarrow> gateway_db \<Rightarrow> gateway_db" where
  "scheduler_pass zones utc now rs db = fold (\<lambda>r. routines_do zones utc (FallDue now r)) rs db"

lemma pass_serves:
  assumes "routines_ok (g_routines db)" and "\<forall>r \<in> set (rd_routines (g_routines db)). account (g_accounts db) (ro_user r) \<noteq> None"
    and "distinct (map ro_id rs)"
  shows "keeps_runs_for (g_routines db) (g_routines (scheduler_pass zones utc now rs db))
    \<and> {r \<in> set (rd_routines (g_routines (scheduler_pass zones utc now rs db))). is_due now r}
      \<subseteq> {r \<in> set (rd_routines (g_routines db)). is_due now r} - set rs
    \<and> (\<forall>r \<in> {r \<in> set rs. r \<in> set (rd_routines (g_routines db)) \<and> is_due now r}.
        run_for (ro_id r) (the (ro_next_run_at r)) (g_routines (scheduler_pass zones utc now rs db)))"
  using assms
proof (induction rs arbitrary: db)
  case Nil
  then show ?case by (simp add: scheduler_pass_def keeps_runs_for_def)
next
  case (Cons r rs)
  let ?db = "routines_do zones utc (FallDue now r) db"
  note step = fall_due_queues [OF Cons.prems(1,2) refl, of zones utc now r]
  have owner: "\<forall>r \<in> set (rd_routines (g_routines ?db)). account (g_accounts ?db) (ro_user r) \<noteq> None"
  proof
    fix x assume "x \<in> set (rd_routines (g_routines ?db))"
    then have "ro_user x \<in> ro_user ` set (rd_routines (g_routines db))" using step by blast
    then obtain y where "y \<in> set (rd_routines (g_routines db))" "ro_user x = ro_user y" by blast
    then show "account (g_accounts ?db) (ro_user x) \<noteq> None" using Cons.prems(2) step by simp
  qed
  let ?last = "scheduler_pass zones utc now rs ?db"
  have "distinct (map ro_id rs)" using Cons.prems(3) by simp
  then have rest: "keeps_runs_for (g_routines ?db) (g_routines ?last)"
      "{r \<in> set (rd_routines (g_routines ?last)). is_due now r} \<subseteq> {r \<in> set (rd_routines (g_routines ?db)). is_due now r} - set rs"
      "\<And>x. x \<in> set rs \<Longrightarrow> x \<in> set (rd_routines (g_routines ?db)) \<Longrightarrow> is_due now x \<Longrightarrow>
        run_for (ro_id x) (the (ro_next_run_at x)) (g_routines ?last)"
    using Cons.IH [OF routines_do_ok [OF Cons.prems(1)] owner] by blast+
  have pass: "scheduler_pass zones utc now (r # rs) db = ?last"
    by (simp add: scheduler_pass_def)
  have served: "run_for (ro_id x) (the (ro_next_run_at x)) (g_routines ?last)"
    if x: "x \<in> set (r # rs)" "x \<in> set (rd_routines (g_routines db))" "is_due now x" for x
  proof (cases "x = r")
    case True
    then have "run_for (ro_id x) (the (ro_next_run_at x)) (g_routines ?db)" using step x by blast
    then show ?thesis using rest(1) unfolding keeps_runs_for_def by blast
  next
    case False
    then have "x \<in> set rs" "ro_id x \<noteq> ro_id r" using x(1) Cons.prems(3) by (auto simp: image_iff)
    then show ?thesis using rest(3) step x by blast
  qed
  have "keeps_runs_for (g_routines db) (g_routines ?last)" using rest(1) step unfolding keeps_runs_for_def by blast
  moreover have "{r \<in> set (rd_routines (g_routines ?last)). is_due now r} \<subseteq> {r \<in> set (rd_routines (g_routines db)). is_due now r} - set (r # rs)"
    using rest(2) step by auto
  ultimately show ?case unfolding pass using served by blast
qed

text \<open>C17: one pass of the scheduler over the routines that are due leaves none due, and each of them has a
  run for the time it was due or a later one: waiting, missed or skipped, never silently left out.
  The owner of a routine has an account, as the database's foreign key says.\<close>

theorem a_pass_leaves_nothing_due:
  assumes "db = routines_after zones utc db0 ops"
    and "\<forall>r \<in> set (rd_routines (g_routines db)). account (g_accounts db) (ro_user r) \<noteq> None"
  shows "let due = due_routines now (g_routines db);
      db' = fold (\<lambda>r. routines_do zones utc (FallDue now r)) due db
    in due_routines now (g_routines db') = []
      \<and> list_all (\<lambda>r. run_for (ro_id r) (the (ro_next_run_at r)) (g_routines db')) due"
proof -
  let ?due = "due_routines now (g_routines db)"
  let ?last = "scheduler_pass zones utc now ?due db"
  have ok: "routines_ok (g_routines db)" by (simp add: assms(1) routines_ok_after)
  have due: "set ?due = {r \<in> set (rd_routines (g_routines db)). is_due now r}" by (rule due_routines_set)
  have "distinct (map ro_id ?due)"
  proof -
    have "distinct (map ro_id (rd_routines (g_routines db)))" using ok ascending_distinct by (auto simp: routines_ok_def)
    then have "inj_on ro_id (set ?due)" "distinct ?due"
      by (auto simp: due distinct_map inj_on_def due_routines_def)
    then show ?thesis by (simp add: distinct_map)
  qed
  note served = pass_serves [OF ok assms(2) this, of zones utc now]
  have "set (due_routines now (g_routines ?last)) = {}" unfolding due_routines_set using served due by blast
  moreover have "\<forall>r \<in> set ?due. run_for (ro_id r) (the (ro_next_run_at r)) (g_routines ?last)"
    using served due by blast
  ultimately show ?thesis by (simp add: Let_def list_all_iff scheduler_pass_def)
qed

section \<open>The home of the examples\<close>

definition example_home :: gateway_db where
  "example_home = \<lparr>g_accounts = \<lparr>db_users = [new_user_row 1 0 (lit ''ada'') (lit ''Ada'') Member default_permissions []],
       db_sessions = [], db_invitations = []\<rparr>,
     g_bots = \<lparr>bd_bots = [\<lparr>br_id = 1, br_user = 1, br_name = lit ''Al'', br_label = [], br_description = [], br_avatar = None,
         br_pinned = False, br_hidden = False, br_thread_id = None, br_profile_revision = 1, br_profile_sent_revision = 0,
         br_refused_reason = None, br_made_by = None, br_created_at = 0, br_updated_at = 0, br_grants = [],
         br_thread_grants = [], br_carryover_marker = None\<rparr>],
       bd_threads = [], bd_messages = [], bd_markers = []\<rparr>,
     g_routines = no_routines, g_turns = [], g_tokens = [], g_notes = [], g_calls = [], g_notifications = [],
     g_subscriptions = [], g_pushes = [], g_seen = [], g_reported = (\<lambda>_ _. 0)\<rparr>"

definition example_create :: "string \<Rightarrow> bool \<Rightarrow> create_request" where
  "example_create name paused = \<lparr>cq_name = lit name, cq_prompt = lit ''P'', cq_schedule = Daily (TimeOfDay 7 0),
     cq_push = NotifyOnly, cq_paused = paused\<rparr>"

lemmas word_eval = lit_def trim_def trim_start_def trim_end_def to_ascii_lowercase_def
  ascii_lower_char_def is_white_def is_control_def is_layout_control_def

lemmas routine_eval = routines_after_def routines_do_def create_in_def example_create_def check_routine_name_def
  check_routine_text_def word_eval MAX_NAME_CHARS_def check_prompt_def MAX_PROMPT_CHARS_def and_then_def own_account_def
  ok_or_def account_def find_user_def example_home_def new_user_row_def find_bot_def count_routines_def no_routines_def
  MAX_ROUTINES_def create_routine_def routine_name_taken_def Let_def next_rowid_def on_routines_def emit_def tx_open_def

lemmas run_eval = emit_run_def run_now_def find_routine_def queue_run_def queue_as_def active_run_def insert_run_def
  routine_of_user_def account_from_def MISFIRE_WINDOW_MS_def HOUR_MS_def MINUTE_MS_def run_finished_def start_run_def
  set_running_def update_run_def update_where_def on_calls_def on_notifications_def attribute_calls_def
  attribute_notifications_def end_turn_def run_of_turn_def end_run_def finish_run_def finish_from_def turn_tokens_def
  announce_end_def counted_outcome_def count_outcome_def delete_in_def delete_routine_def

lemmas push_eval = record_notification_def bounded_def ID_CHARS_def in_turn_def in_hour_def PER_TURN_def PER_HOUR_def
  insert_message_def new_message_row_def run_in_turn_def on_bots_def run_ended_def merge_pushes_def on_pushes_def bot_name_def
  user_enabled_def run_push_def carried_notification_def run_notification_def already_sent_def carried_alone_def
  push_title_def shown_text_def clean_def TITLE_CHARS_def not_drawn_def MIDDLE_DOT_def bot_title_def notification_text_def
  queue_push_def wake_sender_def USIZE_MAX_def

lemma example_candidates: "candidates_on (Daily (TimeOfDay 7 0)) utc_zone (-1) 8 = map (\<lambda>d. \<lparr>cn_at = d * 86400000 + 25200000, cn_moved = False\<rparr>) [-1,0,1,2,3,4,5,6,7,8]"
proof -
  have r: "resolve utc_zone d 420 = Some \<lparr>cn_at = d * 86400000 + 25200000, cn_moved = False\<rparr>" for d
        by (simp add: utc_facts local_minutes_def)
  have l: "tz_last_date utc_zone = 2932896" by (simp add: utc_zone_def)
  show ?thesis by (simp add: candidates_on.simps l r minutes_of_def List.map_filter_simps)
qed

lemma example_sorted: "sorted_candidates (Daily (TimeOfDay 7 0)) utc_zone (-1) 8 = map (\<lambda>d. \<lparr>cn_at = d * 86400000 + 25200000, cn_moved = False\<rparr>) [-1,0,1,2,3,4,5,6,7,8]"
  by (simp add: sorted_candidates_def example_candidates)

lemma unmoved_occurrences: "list_all (\<lambda>c. \<not> cn_moved c) (sorted_candidates s z from to) \<Longrightarrow>
   occurrences s z from to = map cn_at (sorted_candidates s z from to)"
proof -
  let ?cs = "sorted_candidates s z from to"
  assume "list_all (\<lambda>c. \<not> cn_moved c) ?cs"
  then have "filter (\<lambda>i. \<not> cn_moved (?cs ! i) \<or> \<not> crowded ?cs i) [0..<length ?cs] = [0..<length ?cs]"
    by (intro filter_True) (simp add: list_all_length)
  then have "occurrences s z from to = map cn_at (map (\<lambda>i. ?cs ! i) [0..<length ?cs])"
    by (simp add: occurrences_def Let_def comp_def)
  then show ?thesis by (simp only: map_nth)
qed

lemma utc_at_seven: "next_after (Daily (TimeOfDay 7 0)) utc_zone 0 = Some 25200000"
proof -
  have z: "tz_date utc_zone 0 = Some 0" "shift_date utc_zone 0 (- 1) = -1" "shift_date utc_zone 0 8 = 8" by (simp_all add: shift_date_def utc_zone_def)
  show ?thesis by (simp add: next_after_def around_def z unmoved_occurrences example_sorted)
qed

lemma example_routine:
  "rd_routines (g_routines (routines_after (\<lambda>_. None) utc_zone example_home [CreateRoutine 0 1 1 (example_create ''Rain'' False)]))
   = [\<lparr>ro_id = 1, ro_user = 1, ro_bot = 1, ro_name = lit ''Rain'', ro_prompt = lit ''P'',
       ro_schedule = Daily (TimeOfDay 7 0), ro_push = NotifyOnly, ro_paused = False, ro_failures = 0,
       ro_next_run_at = Some 25200000, ro_created_at = 0, ro_updated_at = 0\<rparr>]"
  by (simp add: routine_eval account_zone_def stored_zone_def zone_named_def utc_at_seven)

theorem a_pass_leaves_nothing_due_witness:
  "let db = routines_after (\<lambda>_. None) utc_zone example_home [CreateRoutine 0 1 1 (example_create ''Rain'' False)];
      due = due_routines 25200000 (g_routines db);
      db' = fold (\<lambda>r. routines_do (\<lambda>_. None) utc_zone (FallDue 25200000 r)) due db
    in map ro_id due = [1] \<and> due_routines 25200000 (g_routines db') = [] \<and> run_for 1 25200000 (g_routines db')"
proof -
  let ?db = "routines_after (\<lambda>_. None) utc_zone example_home [CreateRoutine 0 1 1 (example_create ''Rain'' False)]"
  have owner: "\<forall>r \<in> set (rd_routines (g_routines ?db)). account (g_accounts ?db) (ro_user r) \<noteq> None"
    unfolding example_routine by (simp add: routine_eval account_zone_def stored_zone_def zone_named_def utc_at_seven)
  have "map (\<lambda>r. (ro_id r, ro_next_run_at r)) (due_routines 25200000 (g_routines ?db)) = [(1, Some 25200000)]"
    by (simp add: due_routines_def example_routine)
  then obtain r where "due_routines 25200000 (g_routines ?db) = [r]" "ro_id r = 1" "ro_next_run_at r = Some 25200000" by auto
  then show ?thesis using a_pass_leaves_nothing_due [OF refl owner, of 25200000] by (simp add: Let_def)
qed

section \<open>Ids that come back\<close>

text \<open>
  A run of the routine Rain in whose turn the Bot sends the notification Wet ends, and its push
  carries it; Rain is deleted, and its run with it; a routine News is made and run.
\<close>

definition rain_runs :: gateway_db where
  "rain_runs = routines_after (\<lambda>_. None) utc_zone example_home
     [CreateRoutine 0 1 1 (example_create ''Rain'' True), RunNow 1 1 1 1, StartRun 2 1 1 1 (lit ''t'') (lit ''u'') None]"

definition rain_notifies :: gateway_db where
  "rain_notifies = (case record_notification 3 1 1 (lit ''t'') (lit ''u'') (lit ''c'')
       \<lparr>nq_kind = ResultNotice, nq_title = lit ''Wet'', nq_body = []\<rparr> rain_runs of
     Inr (Inr (_, t)) \<Rightarrow> t_db t | _ \<Rightarrow> rain_runs)"

definition news_runs :: gateway_db where
  "news_runs = fold (routines_do (\<lambda>_. None) utc_zone)
     [EndTurn 4 1 (lit ''u'') TurnCompleted False, DeleteRoutine 1 1 1, CreateRoutine 5 1 1 (example_create ''News'' True),
      RunNow 6 1 1 1, StartRun 7 1 1 1 (lit ''t'') (lit ''v'') None, EndTurn 8 1 (lit ''v'') TurnCompleted False] rain_notifies"

text \<open>
  Rain's push gives Wet, and then the push for the run of News, which has the id of the
  deleted run, gives it once more.
\<close>

lemma news_pushes_wet:
  "map (\<lambda>p. (pu_title p, pu_run p, pu_notification p, pu_body p)) (g_pushes news_runs) =
     [(lit ''Al'' @ MIDDLE_DOT @ lit ''Rain'', Some 1, Some 1, lit ''Wet''),
      (lit ''Al'' @ MIDDLE_DOT @ lit ''News'', Some 1, Some 1, lit ''Wet'')]"
  by (simp add: news_runs_def rain_notifies_def rain_runs_def routine_eval run_eval push_eval)

lemma insert_run_id:
  "insert_run now r n db = Inr (run, db') \<Longrightarrow>
   ru_id run = next_rowid (map ru_id (rd_runs db)) \<and> rd_runs db' = rd_runs db @ [run]"
  by (auto simp: insert_run_def Let_def split: option.splits)

lemma filter_by_routine:
  "map ru_id (filter (\<lambda>q. ru_routine q \<noteq> i) runs) =
   map fst (filter (\<lambda>(_, j). j \<noteq> i) (map (\<lambda>q. (ru_id q, ru_routine q)) runs))"
  by (induction runs) auto

text \<open>The id of the only run of a routine, the newest of all, comes back once the routine is deleted.\<close>

lemma run_id_comes_back:
  assumes "insert_run t1 r n rdb0 = Inr (run, rdb1)" and "ru_routine run \<notin> ru_routine ` set (rd_runs rdb0)"
    and "map (\<lambda>q. (ru_id q, ru_routine q)) (rd_runs rdb) = map (\<lambda>q. (ru_id q, ru_routine q)) (rd_runs rdb1)"
    and "delete_routine u b (ru_routine run) rdb = (True, rdb2)"
    and "insert_run t2 r' n' rdb3 = Inr (run', rdb4)" and "map ru_id (rd_runs rdb3) = map ru_id (rd_runs rdb2)"
  shows "ru_id run' = ru_id run"
proof -
  have "rd_runs rdb2 = filter (\<lambda>q. ru_routine q \<noteq> ru_routine run) (rd_runs rdb)"
    using assms(4) by (auto simp: delete_routine_def split: if_splits)
  then have "map ru_id (rd_runs rdb2) = map ru_id (filter (\<lambda>q. ru_routine q \<noteq> ru_routine run) (rd_runs rdb0 @ [run]))"
    using assms(3) insert_run_id [OF assms(1)] by (simp only: filter_by_routine)
  also have "\<dots> = map ru_id (rd_runs rdb0)"
  proof -
    have "\<forall>q \<in> set (rd_runs rdb0). ru_routine q \<noteq> ru_routine run" using assms(2) by (metis imageI)
    then show ?thesis by (simp add: filter_id_conv)
  qed
  finally show ?thesis using insert_run_id [OF assms(1)] insert_run_id [OF assms(5)] assms(6) by simp
qed

text \<open>C34: the only run of a routine, the newest run there is, has sent a notification when its routine
  is deleted. Then the next run of the account, of whatever routine, gets the deleted run's id,
  and when it succeeds without a notification of its own, its push is the deleted run's
  notification, under the name of the routine that did not send it. It holds whatever else
  happens meanwhile, as long as the account stays enabled, no other run is made and the
  notification has no push of its own, which one sent in a run's turn has not.\<close>

theorem deleted_runs_notify_again:
  assumes "insert_run t1 r n rdb0 = Inr (run, rdb1)" and "ru_routine run \<notin> ru_routine ` set (rd_runs rdb0)"
    and "map (\<lambda>q. (ru_id q, ru_routine q)) (rd_runs (g_routines db1)) = map (\<lambda>q. (ru_id q, ru_routine q)) (rd_runs rdb1)"
    and "run_notification run db1 = Some notice"
    and "delete_routine (ru_user run) (ru_bot run) (ru_routine run) (g_routines db1) = (True, rdb2)"
    and "insert_run t2 r' n' rdb3 = Inr (run', rdb4)" and "map ru_id (rd_runs rdb3) = map ru_id (rd_runs rdb2)"
    and "ru_user run' = ru_user run"
    and "g_notifications (t_db t) = g_notifications db1 @ newer" and "\<forall>m \<in> set newer. nt_run m \<noteq> Some (ru_id run')"
    and "\<forall>p \<in> set (g_pushes (t_db t)). pu_notification p = Some (nt_id notice) \<longrightarrow> pu_cause p \<noteq> NotifyCause"
    and "ru_id over = ru_id run'" and "ru_user over = ru_user run'"
    and "bot_name (ru_user over) (ru_bot over) (t_db t) = Some name"
    and "routine_of_user (ru_user over) (ru_routine over) (g_routines (t_db t)) = Some routine"
  shows "ru_id run' = ru_id run
    \<and> run_ended t3 over RunSucceeded paused t = queue_push t3
        \<lparr>np_user = ru_user run, np_bot = ru_bot over, np_cause = RunCause, np_notification = Some (nt_id notice),
         np_run = Some (ru_id run), np_urgency = urgency_of (nt_kind notice), np_title = push_title name routine,
         np_body = notification_text (nt_title notice) (nt_body notice)\<rparr> (merge_pushes t3 over t)"
proof (rule conjI)
  show id: "ru_id run' = ru_id run" using run_id_comes_back [OF assms(1-3,5-7)] .
  let ?t = "merge_pushes t3 over t"
  have kept: "g_notifications (t_db ?t) = g_notifications (t_db t)" "bot_name u b (t_db ?t) = bot_name u b (t_db t)"
    "g_routines (t_db ?t) = g_routines (t_db t)" for u b
    by (simp_all add: merge_pushes_def Let_def on_pushes_def bot_name_def user_enabled_def)
  have "run_notification over (t_db ?t) = run_notification run db1"
    using assms(8-10,12,13) id by (simp add: run_notification_def kept Let_def filter_empty_conv)
  moreover have "\<not> already_sent (ru_user over) (nt_id notice) (t_db ?t)"
    using assms(11) by (auto simp: already_sent_def merge_pushes_def Let_def on_pushes_def list_ex_iff set_update_where)
  ultimately show "run_ended t3 over RunSucceeded paused t = queue_push t3
        \<lparr>np_user = ru_user run, np_bot = ru_bot over, np_cause = RunCause, np_notification = Some (nt_id notice),
         np_run = Some (ru_id run), np_urgency = urgency_of (nt_kind notice), np_title = push_title name routine,
         np_body = notification_text (nt_title notice) (nt_body notice)\<rparr> ?t"
    using assms(4,8,12-15) id by (simp add: run_ended_def Let_def kept run_push_def carried_notification_def carried_alone_def)
qed

text \<open>Rain's run and notification in the tables, and then the run of News.\<close>

definition example_row :: "routine_id \<Rightarrow> string \<Rightarrow> routine_row" where
  "example_row i name = \<lparr>ro_id = i, ro_user = 1, ro_bot = 1, ro_name = lit name, ro_prompt = lit ''P'',
     ro_schedule = Daily (TimeOfDay 7 0), ro_push = NotifyOnly, ro_paused = True, ro_failures = 0,
     ro_next_run_at = None, ro_created_at = 0, ro_updated_at = 0\<rparr>"

definition run_by_hand :: new_run where
  "run_by_hand = \<lparr>nn_trigger = ManualTrigger, nn_scheduled_for = 1, nn_state = RunWaiting, nn_reason = None\<rparr>"

definition both_routines :: routines_db where
  "both_routines = \<lparr>rd_routines = [example_row 1 ''Rain'', example_row 2 ''News''], rd_runs = []\<rparr>"

definition example_run :: "routine_id \<Rightarrow> timestamp \<Rightarrow> run_row" where
  "example_run i now = \<lparr>ru_id = 1, ru_user = 1, ru_bot = 1, ru_routine = i, ru_trigger = ManualTrigger, ru_scheduled_for = 1,
     ru_queued_at = now, ru_started_at = None, ru_finished_at = None, ru_state = RunWaiting, ru_reason = None,
     ru_waiting_for = None, ru_thread_id = None, ru_turn_id = None, ru_deadline_passed_at = None, ru_tokens = None\<rparr>"

definition wet_notice :: notification_row where
  "wet_notice = \<lparr>nt_id = 1, nt_user = 1, nt_bot = 1, nt_message = 1, nt_thread = lit ''t'', nt_turn = lit ''u'', nt_call = lit ''c'',
     nt_run = Some 1, nt_kind = ResultNotice, nt_title = lit ''Wet'', nt_body = [], nt_created_at = 3\<rparr>"

definition rain_home :: gateway_db where
  "rain_home = example_home\<lparr>g_routines := both_routines\<lparr>rd_runs := [example_run 1 1]\<rparr>, g_notifications := [wet_notice]\<rparr>"

definition news_home :: gateway_db where
  "news_home = rain_home\<lparr>g_routines := \<lparr>rd_routines = [example_row 2 ''News''], rd_runs = [example_run 2 6]\<rparr>\<rparr>"

lemmas again_defs = example_row_def run_by_hand_def both_routines_def example_run_def wet_notice_def rain_home_def news_home_def

theorem deleted_runs_notify_again_witness:
  "run_ended 8 (example_run 2 6) RunSucceeded False (tx_open news_home) = queue_push 8
     \<lparr>np_user = 1, np_bot = 1, np_cause = RunCause, np_notification = Some 1, np_run = Some 1, np_urgency = NormalUrgency,
      np_title = push_title (lit ''Al'') (example_row 2 ''News''), np_body = notification_text (lit ''Wet'') []\<rparr>
     (merge_pushes 8 (example_run 2 6) (tx_open news_home))"
proof -
  have rain: "insert_run 1 (example_row 1 ''Rain'') run_by_hand both_routines
      = Inr (example_run 1 1, both_routines\<lparr>rd_runs := [example_run 1 1]\<rparr>)"
    by (simp add: again_defs insert_run_def routine_of_user_def run_finished_def next_rowid_def Let_def)
  have gone: "delete_routine 1 1 1 (g_routines rain_home) = (True, \<lparr>rd_routines = [example_row 2 ''News''], rd_runs = []\<rparr>)"
    by (simp add: again_defs delete_routine_def find_routine_def)
  have news: "insert_run 6 (example_row 2 ''News'') run_by_hand \<lparr>rd_routines = [example_row 2 ''News''], rd_runs = []\<rparr>
      = Inr (example_run 2 6, g_routines news_home)"
    by (simp add: again_defs insert_run_def routine_of_user_def run_finished_def next_rowid_def Let_def)
  have notice: "run_notification (example_run 1 1) rain_home = Some wet_notice"
    by (simp add: again_defs run_notification_def Let_def)
  have own: "bot_name 1 1 news_home = Some (lit ''Al'')"
    by (simp add: again_defs bot_name_def user_enabled_def example_home_def find_bot_def new_user_row_def account_def find_user_def account_from_def Let_def)
  show ?thesis
    using deleted_runs_notify_again [OF rain _ _ notice _ news, of _ "tx_open news_home" "[]" "example_run 2 6" "lit ''Al''"
        "example_row 2 ''News''" 8 False] gone own
    by (simp add: again_defs tx_open_def routine_of_user_def example_home_def)
qed

end
