(* ===== verification/Seen.thy ===== *)
theory Seen
  imports NotifyRequest "HOL-Library.List_Lexorder" "HOL-Library.Multiset"
begin

text \<open>
  \<open>crates/bokkie-gateway/src/tools/seen.rs\<close>: the canonical ids of items, the table of items a
  Bot has shown, and the two tools. Parsing of links, percent decoding, the encoding of a query
  and Unicode's lower case are of the url and percent-encoding crates and the Unicode tables: the
  parameter \<open>link_lib\<close>.
\<close>

section \<open>Canonical ids\<close>

definition SEEN_RETENTION_MS :: int where
  "SEEN_RETENTION_MS = 365 * DAY_MS"

definition MAX_PER_CALL :: nat where
  "MAX_PER_CALL = 50"

definition MAX_PER_BOT :: nat where
  "MAX_PER_BOT = 10000"

definition SEEN_TITLE_CHARS :: nat where
  "SEEN_TITLE_CHARS = 300"

definition URL_CHARS :: nat where
  "URL_CHARS = 2048"

definition ECHO_CHARS :: nat where
  "ECHO_CHARS = 200"

definition TRACKING :: "utext list" where
  "TRACKING = map lit [''fbclid'', ''gclid'', ''dclid'', ''gbraid'', ''wbraid'', ''msclkid'', ''yclid'', ''mc_cid'',
     ''mc_eid'', ''igshid'', ''_hsenc'', ''_hsmi'', ''mkt_tok'']"

record parsed_link =
  lk_scheme :: utext
  lk_host :: "utext option"
  lk_port :: "nat option"
  lk_path :: utext
  lk_pairs :: "(utext \<times> utext) list"

datatype link_parse = ParsedLink parsed_link | NoScheme | NoLink

record link_lib =
  ll_parse :: "utext \<Rightarrow> link_parse"
  ll_decode :: "utext \<Rightarrow> utext option"
  ll_encode :: "(utext \<times> utext) list \<Rightarrow> utext"
  ll_lower :: "utext \<Rightarrow> utext"

definition strip_prefix_ignoring_case :: "utext \<Rightarrow> utext \<Rightarrow> utext option" where
  "strip_prefix_ignoring_case prefx t =
     (if length prefx \<le> length t \<and> to_ascii_lowercase (take (length prefx) t) = to_ascii_lowercase prefx
      then Some (drop (length prefx) t) else None)"

definition all_digits :: "utext \<Rightarrow> nat \<Rightarrow> nat \<Rightarrow> bool" where
  "all_digits t lo hi \<longleftrightarrow> lo \<le> length t \<and> length t \<le> hi \<and> list_all is_ascii_digit t"

definition without_version :: "utext \<Rightarrow> utext" where
  "without_version t =
     (case rsplit_once 118 t of
        None \<Rightarrow> t
      | Some (a, v) \<Rightarrow> if a \<noteq> [] \<and> all_digits v 1 4 then a else t)"

definition archive_name :: "utext \<Rightarrow> bool" where
  "archive_name n \<longleftrightarrow> n \<noteq> [] \<and> hd n \<noteq> 45 \<and> last n \<noteq> 45 \<and> list_all (\<lambda>c. is_ascii_alphabetic c \<or> c = 45) n"

definition old_arxiv_id :: "utext \<Rightarrow> utext option" where
  "old_arxiv_id t =
     (case split_once 47 t of
        None \<Rightarrow> None
      | Some (archive, number) \<Rightarrow>
          if \<not> all_digits number 7 7 then None
          else
            (case split_once 46 archive of
               Some (name, subject) \<Rightarrow>
                 if archive_name name \<and> length subject = 2 \<and> list_all is_ascii_alphabetic subject
                 then Some (to_ascii_lowercase name @ 46 # to_ascii_uppercase subject @ 47 # number) else None
             | None \<Rightarrow> if archive_name archive then Some (to_ascii_lowercase archive @ 47 # number) else None))"

definition arxiv_id :: "utext \<Rightarrow> utext option" where
  "arxiv_id t =
     (let unversioned = without_version t in
      case split_once 46 unversioned of
        Some (year_month, number) \<Rightarrow>
          if all_digits year_month 4 4 \<and> all_digits number 4 5 then Some unversioned else old_arxiv_id unversioned
      | None \<Rightarrow> old_arxiv_id unversioned)"

definition doi :: "link_lib \<Rightarrow> utext \<Rightarrow> utext option" where
  "doi lib t =
     (let lower = ll_lower lib t in
      case split_once 47 lower of
        None \<Rightarrow> None
      | Some (prefx, suffx) \<Rightarrow>
          (case strip_prefix (lit ''10.'') prefx of
             None \<Rightarrow> None
           | Some registrant \<Rightarrow>
               if registrant = [] \<or> \<not> list_all (\<lambda>c. is_ascii_digit c \<or> c = 46) registrant \<or> last registrant = 46
                 \<or> suffx = [] \<or> list_ex is_white suffx then None
               else
                 (case (if prefx = lit ''10.48550'' then Option.bind (strip_prefix (lit ''arxiv.'') suffx) arxiv_id else None) of
                    Some i \<Rightarrow> Some (lit ''arxiv:'' @ i)
                  | None \<Rightarrow> Some (lit ''doi:'' @ lower))))"

definition arxiv_path :: "utext \<Rightarrow> utext option" where
  "arxiv_path path =
     (case List.map_filter (\<lambda>p. strip_prefix (lit p) path) [''/abs/'', ''/pdf/'', ''/html/''] of
        [] \<Rightarrow> None
      | rest # _ \<Rightarrow>
          let r = trim_end_char 47 rest in arxiv_id (case strip_suffix (lit ''.pdf'') r of None \<Rightarrow> r | Some s \<Rightarrow> s))"

text \<open>The links of a few sites name an arXiv id or a DOI.\<close>

definition named_by_site :: "link_lib \<Rightarrow> utext \<Rightarrow> utext \<Rightarrow> utext option option" where
  "named_by_site lib host path =
     (if host = lit ''arxiv.org'' \<or> host = lit ''export.arxiv.org''
      then Some (map_option (\<lambda>i. lit ''arxiv:'' @ i) (arxiv_path path))
      else if host = lit ''doi.org'' \<or> host = lit ''dx.doi.org''
      then map_option (doi lib) (ll_decode lib (dropWhile (\<lambda>c. c = 47) path))
      else if host = lit ''huggingface.co''
      then Some (case strip_prefix (lit ''/papers/'') path of
          None \<Rightarrow> None
        | Some rest \<Rightarrow> map_option (\<lambda>i. lit ''arxiv:'' @ i) (arxiv_id (trim_end_char 47 rest)))
      else Some None)"

definition tracks :: "utext \<Rightarrow> bool" where
  "tracks key \<longleftrightarrow> (let k = to_ascii_lowercase key in strip_prefix (lit ''utm_'') k \<noteq> None \<or> k \<in> set TRACKING)"

definition plain_link :: "link_lib \<Rightarrow> utext \<Rightarrow> parsed_link \<Rightarrow> utext" where
  "plain_link lib host l =
     (let port = (case lk_port l of None \<Rightarrow> [] | Some p \<Rightarrow> 58 # decimal p);
          path = (case trim_end_char 47 (lk_path l) of [] \<Rightarrow> [47] | p \<Rightarrow> p);
          pairs = sort (filter (\<lambda>(key, _). \<not> tracks key) (lk_pairs l));
          query = (if pairs = [] then [] else 63 # ll_encode lib pairs)
      in lit ''https://'' @ host @ port @ path @ query)"

definition parse_link :: "link_lib \<Rightarrow> utext \<Rightarrow> parsed_link option" where
  "parse_link lib input =
     (case ll_parse lib input of
        ParsedLink l \<Rightarrow> Some l
      | NoScheme \<Rightarrow>
          (case ll_parse lib (lit ''https://'' @ input) of
             ParsedLink l \<Rightarrow> (case lk_host l of None \<Rightarrow> None | Some h \<Rightarrow> if 46 \<in> set h then Some l else None)
           | _ \<Rightarrow> None)
      | NoLink \<Rightarrow> None)"

definition link_id :: "link_lib \<Rightarrow> utext \<Rightarrow> utext option" where
  "link_id lib input =
     (case parse_link lib input of
        None \<Rightarrow> None
      | Some l \<Rightarrow>
          if lk_scheme l \<noteq> lit ''http'' \<and> lk_scheme l \<noteq> lit ''https'' then None
          else
            (case lk_host l of
               None \<Rightarrow> None
             | Some h \<Rightarrow>
                 let dotless = trim_end_char 46 h;
                     host = (case strip_prefix (lit ''www.'') dotless of None \<Rightarrow> dotless | Some s \<Rightarrow> s) in
                 if host = [] then None
                 else
                   (case named_by_site lib host (lk_path l) of
                      None \<Rightarrow> None
                    | Some (Some i) \<Rightarrow> Some i
                    | Some None \<Rightarrow> Some (plain_link lib host l))))"

definition canonical :: "link_lib \<Rightarrow> utext \<Rightarrow> utext option" where
  "canonical lib raw =
     (let input = trim raw in
      if input = [] \<or> byte_len input > URL_CHARS then None
      else case strip_prefix_ignoring_case (lit ''arxiv:'') input of
          Some rest \<Rightarrow> map_option (\<lambda>i. lit ''arxiv:'' @ i) (arxiv_id (trim rest))
        | None \<Rightarrow>
            (case strip_prefix_ignoring_case (lit ''doi:'') input of
               Some rest \<Rightarrow> doi lib (trim rest)
             | None \<Rightarrow>
                 (case arxiv_id input of
                    Some i \<Rightarrow> Some (lit ''arxiv:'' @ i)
                  | None \<Rightarrow> if strip_prefix (lit ''10.'') input \<noteq> None then doi lib input else link_id lib input)))"

definition link_to :: "utext \<Rightarrow> utext" where
  "link_to i =
     (case strip_prefix (lit ''arxiv:'') i of
        Some a \<Rightarrow> lit ''https://arxiv.org/abs/'' @ a
      | None \<Rightarrow> (case strip_prefix (lit ''doi:'') i of Some d \<Rightarrow> lit ''https://doi.org/'' @ d | None \<Rightarrow> i))"

section \<open>Seen items\<close>

record shown_item =
  sh_title :: utext
  sh_url :: "utext option"
  sh_at :: timestamp

record seen_item =
  si_id :: utext
  si_title :: utext
  si_url :: utext

definition seen_rows :: "user_id \<Rightarrow> bot_id \<Rightarrow> gateway_db \<Rightarrow> seen_row list" where
  "seen_rows u b db = filter (\<lambda>r. sn_bot r = b \<and> sn_user r = u) (g_seen db)"

definition shown_items :: "timestamp \<Rightarrow> user_id \<Rightarrow> bot_id \<Rightarrow> utext list \<Rightarrow> gateway_db \<Rightarrow> utext \<Rightarrow> shown_item option" where
  "shown_items now u b ids db i =
     (if i \<notin> set ids then None
      else map_option (\<lambda>r. \<lparr>sh_title = sn_title r, sh_url = sn_url r, sh_at = sn_shown_at r\<rparr>)
        (find (\<lambda>r. sn_item r = i \<and> sn_shown_at r > now - SEEN_RETENTION_MS) (seen_rows u b db)))"

text \<open>The upsert of one item: whether a row was written, and the rows.\<close>

definition mark_one :: "timestamp \<Rightarrow> user_id \<Rightarrow> bot_id \<Rightarrow> seen_item \<Rightarrow> gateway_db \<Rightarrow> bool \<times> gateway_db" where
  "mark_one now u b item db =
     (case find_bot u b (g_bots db) of
        None \<Rightarrow> (False, db)
      | Some _ \<Rightarrow>
          (case find (\<lambda>r. sn_bot r = b \<and> sn_item r = si_id item) (g_seen db) of
             None \<Rightarrow> (True, db\<lparr>g_seen := g_seen db @ [\<lparr>sn_bot = b, sn_user = u, sn_item = si_id item,
               sn_title = si_title item, sn_url = Some (si_url item), sn_shown_at = now\<rparr>]\<rparr>)
           | Some old \<Rightarrow>
               if sn_user old = u
               then (True, db\<lparr>g_seen := update_where (\<lambda>r. sn_bot r = b \<and> sn_item r = si_id item)
                 (\<lambda>r. r\<lparr>sn_title := si_title item, sn_url := Some (si_url item), sn_shown_at := now\<rparr>) (g_seen db)\<rparr>)
               else (False, db)))"

fun mark_each :: "timestamp \<Rightarrow> user_id \<Rightarrow> bot_id \<Rightarrow> seen_item list \<Rightarrow> gateway_db \<Rightarrow> bool \<times> gateway_db" where
  "mark_each now u b [] db = (True, db)"
| "mark_each now u b (item # items) db =
     (let (done, db1) = mark_one now u b item db; (rest, db2) = mark_each now u b items db1 in (done \<and> rest, db2))"

text \<open>The newest \<open>MAX_PER_BOT\<close> of a Bot's rows stay: by time, then by rowid, which is the order of the table.\<close>

definition keep_newest :: "user_id \<Rightarrow> bot_id \<Rightarrow> seen_row list \<Rightarrow> seen_row list" where
  "keep_newest u b rows =
     (let own = filter (\<lambda>(i, r). sn_bot r = b \<and> sn_user r = u) (enumerate 0 rows);
          gone = drop MAX_PER_BOT (rev (sort_key (\<lambda>(i, r). (sn_shown_at r, i)) own))
      in map snd (filter (\<lambda>(i, r). i \<notin> set (map fst gone)) (enumerate 0 rows)))"

definition mark_items :: "timestamp \<Rightarrow> user_id \<Rightarrow> bot_id \<Rightarrow> seen_item list \<Rightarrow> gateway_db \<Rightarrow> bool \<times> gateway_db" where
  "mark_items now u b items db =
     (let (theirs, db1) = mark_each now u b items db in (theirs, db1\<lparr>g_seen := keep_newest u b (g_seen db1)\<rparr>))"

definition count_seen :: "user_id \<Rightarrow> bot_id \<Rightarrow> gateway_db \<Rightarrow> nat" where
  "count_seen u b db = length (seen_rows u b db)"

definition prune_seen :: "timestamp \<Rightarrow> gateway_db \<Rightarrow> gateway_db" where
  "prune_seen now db = db\<lparr>g_seen := filter (\<lambda>r. \<not> sn_shown_at r \<le> now - SEEN_RETENTION_MS) (g_seen db)\<rparr>"

section \<open>The tools\<close>

definition echo :: "utext \<Rightarrow> utext" where
  "echo t = (if byte_len (take ECHO_CHARS t) < byte_len t then take ECHO_CHARS t @ [0x2026] else take ECHO_CHARS t)"

definition items_of :: "utext \<Rightarrow> json_arguments \<Rightarrow> utext + json_field list" where
  "items_of tool args =
     and_then (ok_or (tool @ lit '' needs {'' @ [34] @ lit ''items'' @ [34] @ lit '': [...]}.'') (as_array (args (lit ''items'')))) (\<lambda>items.
       if items = [] then Inl (tool @ lit '' needs at least one item.'')
       else if length items > MAX_PER_CALL
       then Inl (tool @ lit '' takes at most '' @ decimal MAX_PER_CALL @ lit '' items at a time; split them up.'')
       else Inr items)"

datatype seen_result = NotAnItem utext | NewItem utext utext | SeenItem utext utext utext "utext option" int

text \<open>Division of integers rounds towards zero.\<close>

definition days_between :: "timestamp \<Rightarrow> timestamp \<Rightarrow> int" where
  "days_between from to = (let d = to - from in if d < 0 then - (- d div DAY_MS) else d div DAY_MS)"

definition seen_result_of :: "timestamp \<Rightarrow> (utext \<Rightarrow> shown_item option) \<Rightarrow> utext \<times> utext option \<Rightarrow> seen_result" where
  "seen_result_of now shown input =
     (case input of
        (t, None) \<Rightarrow> NotAnItem (echo t)
      | (t, Some i) \<Rightarrow>
          (case shown i of
             None \<Rightarrow> NewItem (echo t) i
           | Some s \<Rightarrow> SeenItem (echo t) i (sh_title s) (sh_url s) (days_between (sh_at s) now)))"

fun all_strings :: "json_field list \<Rightarrow> utext list option" where
  "all_strings [] = Some []"
| "all_strings (j # js) =
     (case as_str j of None \<Rightarrow> None | Some t \<Rightarrow> map_option (\<lambda>ts. t # ts) (all_strings js))"

text \<open>The answer of \<open>seen_check\<close>, before it is written as JSON.\<close>

definition check_tool :: "link_lib \<Rightarrow> timestamp \<Rightarrow> user_id \<Rightarrow> bot_id \<Rightarrow> json_arguments \<Rightarrow> gateway_db \<Rightarrow> utext + seen_result list" where
  "check_tool lib now u b args db =
     and_then (items_of (lit ''seen_check'') args) (\<lambda>items.
     and_then (ok_or (lit ''seen_check takes each item as a string: an arXiv id, a DOI or a link.'') (all_strings items)) (\<lambda>texts.
       let inputs = map (\<lambda>t. (t, canonical lib t)) texts;
           shown = shown_items now u b (List.map_filter snd inputs) db
       in Inr (map (seen_result_of now shown) inputs)))"

definition marked_item :: "link_lib \<Rightarrow> json_field \<Rightarrow> utext + seen_item" where
  "marked_item lib item =
     and_then (ok_or (lit ''seen_mark takes each item as {'' @ [34] @ lit ''id'' @ [34] @ lit '': ..., '' @ [34] @ lit ''title''
         @ [34] @ lit '': ...}.'') (as_str (json_get item (lit ''id'')))) (\<lambda>named.
     and_then (ok_or (lit ''Nothing was marked: '' @ [34] @ echo named @ [34]
         @ lit '' is not an arXiv id, DOI or http(s) link.'') (canonical lib named)) (\<lambda>i.
       let title = (case as_str (json_get item (lit ''title'')) of None \<Rightarrow> [] | Some t \<Rightarrow> trim t) in
       if title = [] then Inl (lit ''Nothing was marked: '' @ [34] @ echo named @ [34] @ lit '' needs a title.'')
       else
         and_then (case as_str (json_get item (lit ''url'')) of
             None \<Rightarrow> Inr (link_to i)
           | Some url \<Rightarrow>
               if byte_len url > URL_CHARS \<or> link_id lib url = None
               then Inl (lit ''Nothing was marked: the url of '' @ [34] @ echo named @ [34] @ lit '' is not an http(s) link.'')
               else Inr (trim url)) (\<lambda>url.
           Inr \<lparr>si_id = i, si_title = take SEEN_TITLE_CHARS title, si_url = url\<rparr>)))"

fun marked_items :: "link_lib \<Rightarrow> json_field list \<Rightarrow> utext + seen_item list" where
  "marked_items lib [] = Inr []"
| "marked_items lib (j # js) =
     and_then (marked_item lib j) (\<lambda>item. and_then (marked_items lib js) (\<lambda>items. Inr (item # items)))"

definition items_text :: "nat \<Rightarrow> utext" where
  "items_text n = (if n = 1 then lit ''1 item'' else decimal n @ lit '' items'')"

definition mark_tool :: "link_lib \<Rightarrow> timestamp \<Rightarrow> user_id \<Rightarrow> bot_id \<Rightarrow> json_arguments \<Rightarrow> gateway_db \<Rightarrow> utext + utext \<times> gateway_db" where
  "mark_tool lib now u b args db =
     and_then (items_of (lit ''seen_mark'') args) (\<lambda>items.
     and_then (marked_items lib items) (\<lambda>marked.
       Inr (lit ''Marked '' @ items_text (length marked) @ lit '' as shown: '' @ join_text (lit '', '') (map si_id marked) @ lit ''.'',
         snd (mark_items now u b marked db))))"

definition seen_summary :: "link_lib \<Rightarrow> utext \<Rightarrow> json_arguments \<Rightarrow> utext" where
  "seen_summary lib tool args =
     (case as_array (args (lit ''items'')) of
        None \<Rightarrow> lit ''invalid arguments''
      | Some items \<Rightarrow>
          let count = items_text (length items) in
          if tool \<noteq> lit ''seen_mark'' then count
          else
            let ids = List.map_filter (\<lambda>j. Option.bind (as_str (json_get j (lit ''id''))) (canonical lib)) (take MAX_PER_CALL items)
            in if ids = [] then count else count @ lit '': '' @ join_text (lit '', '') ids)"

section \<open>One id per paper\<close>

lemma digit_facts: "is_ascii_digit c \<Longrightarrow> c \<noteq> 118 \<and> c \<noteq> 46 \<and> c \<noteq> 47 \<and> c \<noteq> 58 \<and> \<not> is_white c"
  by (auto simp: is_ascii_digit_def is_white_def)

lemma digits_free: "list_all is_ascii_digit t \<Longrightarrow> 118 \<notin> set t \<and> 46 \<notin> set t \<and> 47 \<notin> set t \<and> 58 \<notin> set t"
  using digit_facts by (auto simp: list_all_iff)

lemma lower_again [simp]: "to_ascii_lowercase (to_ascii_lowercase t) = to_ascii_lowercase t"
  by (simp add: to_ascii_lowercase_def ascii_lower_char_def is_ascii_upper_def)

lemma upper_again [simp]: "to_ascii_uppercase (to_ascii_uppercase t) = to_ascii_uppercase t"
  by (auto simp: to_ascii_uppercase_def is_ascii_lower_def split: if_splits)

lemma cased_alphabetic [simp]:
  "is_ascii_alphabetic (ascii_lower_char c) \<longleftrightarrow> is_ascii_alphabetic c"
  "is_ascii_alphabetic (if is_ascii_lower c then c - 32 else c) \<longleftrightarrow> is_ascii_alphabetic c"
  "ascii_lower_char c = 45 \<longleftrightarrow> c = 45"
  by (auto simp: ascii_lower_char_def is_ascii_alphabetic_def is_ascii_lower_def is_ascii_upper_def)

lemma archive_name_lower [simp]: "archive_name (to_ascii_lowercase n) \<longleftrightarrow> archive_name n"
  by (auto simp: archive_name_def to_ascii_lowercase_def hd_map last_map list.pred_map comp_def)

lemma split_once_app: "sep \<notin> set p \<Longrightarrow> split_once sep (p @ sep # q) = Some (p, q)"
  by (induction p) auto

lemma split_once_none: "split_once sep t = None \<longleftrightarrow> sep \<notin> set t"
  by (induction t) auto

text \<open>The two shapes of an arXiv id.\<close>

lemma old_id_cases:
  assumes "old_arxiv_id t = Some i"
  obtains name mid number where "i = to_ascii_lowercase name @ mid @ 47 # number" "all_digits number 7 7" "archive_name name"
    "mid = [] \<or> (\<exists>s. mid = 46 # to_ascii_uppercase s \<and> length s = 2 \<and> list_all is_ascii_alphabetic s)"
proof -
  obtain archive number where n: "split_once 47 t = Some (archive, number)" "all_digits number 7 7"
    using assms by (auto simp: old_arxiv_id_def split: option.splits if_splits)
  show ?thesis
  proof (cases "split_once 46 archive")
    case None
    then show ?thesis using assms n that [of archive "[]" number] by (auto simp: old_arxiv_id_def split: if_splits)
  next
    case (Some ns)
    then show ?thesis
      using assms n that [of "fst ns" "46 # to_ascii_uppercase (snd ns)" number]
      by (cases ns) (auto simp: old_arxiv_id_def split: if_splits)
  qed
qed

lemma name_free_of: "archive_name n \<Longrightarrow> 46 \<notin> set (to_ascii_lowercase n) \<and> 47 \<notin> set (to_ascii_lowercase n) \<and> 58 \<notin> set (to_ascii_lowercase n)"
  by (auto simp: archive_name_def list_all_iff to_ascii_lowercase_def is_ascii_alphabetic_def is_ascii_lower_def
      is_ascii_upper_def ascii_lower_char_def split: if_splits)

lemma subject_free_of: "list_all is_ascii_alphabetic s \<Longrightarrow> 46 \<notin> set (to_ascii_uppercase s) \<and> 47 \<notin> set (to_ascii_uppercase s) \<and> 58 \<notin> set (to_ascii_uppercase s)"
  by (auto simp: list_all_iff to_ascii_uppercase_def is_ascii_alphabetic_def is_ascii_lower_def is_ascii_upper_def split: if_splits)

lemma digits_end: "all_digits t lo hi \<Longrightarrow> 0 < lo \<Longrightarrow> \<exists>a c. t = a @ [c] \<and> is_ascii_digit c"
  by (cases t rule: rev_cases) (auto simp: all_digits_def)

lemma old_id_again:
  assumes "old_arxiv_id t = Some i"
  shows "old_arxiv_id i = Some i \<and> 47 \<in> set i \<and> (\<exists>a c. i = a @ [c] \<and> is_ascii_digit c) \<and> i \<noteq> [] \<and> \<not> is_white (hd i) \<and> 58 \<notin> set i
    \<and> (\<forall>a b. i = a @ 118 # b \<longrightarrow> 47 \<in> set b)"
proof -
  obtain name mid number where i: "i = to_ascii_lowercase name @ mid @ 47 # number" "all_digits number 7 7" "archive_name name"
    "mid = [] \<or> (\<exists>s. mid = 46 # to_ascii_uppercase s \<and> length s = 2 \<and> list_all is_ascii_alphabetic s)"
    using assms by (rule old_id_cases)
  let ?n = "to_ascii_lowercase name"
  note free = name_free_of [OF i(3)]
  have again: "old_arxiv_id i = Some i"
    using i(4)
  proof (elim disjE exE conjE)
    assume "mid = []"
    then show ?thesis
      using i(1-3) free split_once_app [of 47 ?n number] split_once_none [of 46 ?n] by (simp add: old_arxiv_id_def)
  next
    fix u assume u: "mid = 46 # to_ascii_uppercase u" "length u = 2" "list_all is_ascii_alphabetic u"
    have "list_all is_ascii_alphabetic (to_ascii_uppercase u)" using u(3)
      by (simp only: to_ascii_uppercase_def list.pred_map comp_def cased_alphabetic)
    moreover have "length (to_ascii_uppercase u) = 2" using u(2) by (simp add: to_ascii_uppercase_def)
    moreover have "split_once 47 i = Some (?n @ 46 # to_ascii_uppercase u, number)"
      using split_once_app [of 47 "?n @ 46 # to_ascii_uppercase u" number] free subject_free_of [OF u(3)] i(1) u(1) by simp
    ultimately show ?thesis
      using i(1-3) u(1) free split_once_app [of 46 ?n "to_ascii_uppercase u"] by (simp add: old_arxiv_id_def)
  qed
  obtain a c where last: "number = a @ [c]" "is_ascii_digit c" using digits_end [OF i(2)] by auto
  have "name \<noteq> []" "is_ascii_alphabetic (hd name)" using i(3) by (auto simp: archive_name_def neq_Nil_conv)
  then have "i \<noteq> []" "\<not> is_white (hd i)"
    by (auto simp: i(1) to_ascii_lowercase_def hd_append hd_map ascii_lower_char_def is_white_def is_ascii_alphabetic_def
        is_ascii_lower_def is_ascii_upper_def)
  moreover have "47 \<in> set b" if "i = x @ 118 # b" for x b
  proof -
    have free: "118 \<notin> set (47 # number)" using i(2) digits_free by (auto simp: all_digits_def)
    have "x @ 118 # b = (?n @ mid) @ 47 # number" using that i(1) by simp
    then consider us where "us @ 118 # b = 47 # number" | us where "118 # b = us @ 47 # number"
      by (auto simp only: append_eq_append_conv2)
    then show ?thesis
    proof cases
      case 1
      then have "118 \<in> set (47 # number)" by (metis in_set_conv_decomp)
      then show ?thesis using free by contradiction
    next
      case 2
      then show ?thesis by (cases us) auto
    qed
  qed
  moreover have "58 \<notin> set i" using i(2,4) free subject_free_of digits_free by (auto simp: i(1) all_digits_def)
  moreover have "i = (?n @ mid @ 47 # a) @ [c]" using last(1) by (simp add: i(1))
  moreover have "47 \<in> set i" by (simp add: i(1))
  ultimately show ?thesis using again last(2) by (intro conjI allI impI exI) assumption+
qed

lemma unversioned_again: "without_version i = i \<Longrightarrow> i \<noteq> [] \<Longrightarrow> all_digits v 1 4 \<Longrightarrow> without_version (i @ 118 # v) = i"
  using digits_free [of v] rsplit_once_app [of 118 v i] by (simp add: without_version_def all_digits_def)

lemma arxiv_id_cases:
  assumes "arxiv_id t = Some i"
  obtains (new) ym number where "split_once 46 (without_version t) = Some (ym, number)" "all_digits ym 4 4"
      "all_digits number 4 5" "i = without_version t"
    | (old) "old_arxiv_id (without_version t) = Some i"
proof (cases "split_once 46 (without_version t)")
  case None
  then show ?thesis using assms old by (simp add: arxiv_id_def)
next
  case (Some yn)
  obtain ym number where yn: "yn = (ym, number)" by (cases yn)
  show ?thesis
  proof (cases "all_digits ym 4 4 \<and> all_digits number 4 5")
    case True
    then show ?thesis using assms Some yn by (intro new [of ym number]) (simp_all add: arxiv_id_def)
  next
    case False
    then have "arxiv_id t = old_arxiv_id (without_version t)" using False Some yn by (simp only: arxiv_id_def Let_def option.case prod.case if_False)
    then show ?thesis using assms by (intro old) simp
  qed
qed

lemma arxiv_id_again:
  assumes "arxiv_id t = Some i"
  shows "arxiv_id i = Some i \<and> without_version i = i \<and> (\<exists>a c. i = a @ [c] \<and> is_ascii_digit c) \<and> i \<noteq> [] \<and> \<not> is_white (hd i)
    \<and> 58 \<notin> set i"
proof -
  let ?u = "without_version t"
  consider (new) ym number where "split_once 46 ?u = Some (ym, number)" "all_digits ym 4 4" "all_digits number 4 5" "i = ?u"
    | (old) "old_arxiv_id ?u = Some i"
    using assms by (rule arxiv_id_cases)
  then show ?thesis
  proof cases
    case new
    then have i: "i = ym @ 46 # number" using split_once_Some by metis
    have colon: "58 \<notin> set i" and "118 \<notin> set i" using new(2,3) digits_free by (auto simp: i all_digits_def)
    then have "without_version i = i" using rsplit_once_None [of 118 i] by (simp add: without_version_def)
    moreover have "ym \<noteq> []" "\<not> is_white (hd ym)" using new(2) digit_facts [of "hd ym"] by (cases ym; simp add: all_digits_def)+
    moreover obtain a c where "number = a @ [c]" "is_ascii_digit c" using digits_end [OF new(3)] by auto
    moreover from this have "i = (ym @ 46 # a) @ [c]" by (simp add: i)
    moreover have "i \<noteq> []" "hd i = hd ym" using \<open>ym \<noteq> []\<close> by (simp_all add: i)
    moreover have "arxiv_id i = Some i"
      using new(1-3) calculation(1) unfolding new(4) [symmetric] by (simp add: arxiv_id_def)
    ultimately show ?thesis using colon by (intro conjI exI) (assumption | simp)+
  next
    case old
    note again = old_id_again [OF old]
    have w: "without_version i = i"
    proof (cases "rsplit_once 118 i")
      case (Some ab)
      obtain a b where ab: "ab = (a, b)" by (cases ab) auto
      have "47 \<in> set b" using again rsplit_once_Some [of 118 i a b] Some ab by blast
      then show ?thesis using Some ab digits_free [of b] by (auto simp: without_version_def all_digits_def)
    qed (simp add: without_version_def)
    have "\<not> (all_digits x 4 4 \<and> all_digits y 4 5)" if "split_once 46 i = Some (x, y)" for x y
      using split_once_Some [OF that] again digits_free [of x] digits_free [of y] by (auto simp: all_digits_def)
    then have "arxiv_id i = Some i" using w again by (auto simp: arxiv_id_def split: option.split)
    then show ?thesis using w again by blast
  qed
qed

lemma trim_whole: "t \<noteq> [] \<Longrightarrow> \<not> is_white (hd t) \<Longrightarrow> \<not> is_white (last t) \<Longrightarrow> trim t = t"
proof -
  assume t: "t \<noteq> []" "\<not> is_white (hd t)" "\<not> is_white (last t)"
  then have "dropWhile is_white t = t" "dropWhile is_white (rev t) = rev t" by (simp_all add: dropWhile_eq_self_iff hd_rev)
  then show ?thesis by (simp add: trim_def trim_start_def trim_end_def)
qed

lemma no_prefix: "58 \<notin> set t \<Longrightarrow> 58 \<in> set p \<Longrightarrow> strip_prefix_ignoring_case p t = None"
proof -
  assume t: "58 \<notin> set t" and p: "58 \<in> set p"
  have same: "58 \<in> set (to_ascii_lowercase x) \<longleftrightarrow> 58 \<in> set x" for x
    by (force simp: to_ascii_lowercase_def ascii_lower_char_def is_ascii_upper_def split: if_splits)
  have "to_ascii_lowercase (take (length p) t) \<noteq> to_ascii_lowercase p"
    using t p same in_set_takeD by metis
  then show ?thesis by (simp add: strip_prefix_ignoring_case_def)
qed

lemma prefix_again: "strip_prefix_ignoring_case p (p @ t) = Some t"
  by (simp add: strip_prefix_ignoring_case_def)

text \<open>Every version of an arXiv paper, named with or without its version or the prefix, is the
  same item, and the item's id names itself: what \<open>seen_mark\<close> answers can be given back to
  \<open>seen_check\<close>.\<close>

lemma versions_are_one_item:
  assumes "arxiv_id t = Some i" and "all_digits v 1 4" and "byte_len (lit ''arxiv:'' @ i @ 118 # v) \<le> URL_CHARS"
  shows "arxiv_id (i @ 118 # v) = Some i
    \<and> canonical lib (lit ''arxiv:'' @ i @ 118 # v) = Some (lit ''arxiv:'' @ i)
    \<and> canonical lib (i @ 118 # v) = Some (lit ''arxiv:'' @ i)
    \<and> canonical lib (lit ''arxiv:'' @ i) = Some (lit ''arxiv:'' @ i)"
proof -
  note again = arxiv_id_again [OF assms(1)]
  obtain a c where ends: "i = a @ [c]" "is_ascii_digit c" using again by blast
  obtain x d where v: "v = x @ [d]" "is_ascii_digit d" using digits_end [OF assms(2)] by auto
  have versioned: "arxiv_id (i @ 118 # v) = Some i"
  proof -
    have "without_version (i @ 118 # v) = without_version i" using again unversioned_again [OF _ _ assms(2)] by simp
    then have "arxiv_id (i @ 118 # v) = arxiv_id i" by (simp only: arxiv_id_def)
    then show ?thesis using again by simp
  qed
  have trims: "trim i = i" "trim (i @ 118 # v) = i @ 118 # v" "trim (lit ''arxiv:'' @ i) = lit ''arxiv:'' @ i"
      "trim (lit ''arxiv:'' @ i @ 118 # v) = lit ''arxiv:'' @ i @ 118 # v"
  proof -
    have "\<not> is_white c" "\<not> is_white d" using ends v digit_facts by simp_all
    moreover have "\<not> is_white 97" by (simp add: is_white_def)
    moreover have "lit ''arxiv:'' = 97 # tl (lit ''arxiv:'')" by simp
    moreover have "i \<noteq> []" "\<not> is_white (hd i)" using again by simp_all
    ultimately show "trim i = i" "trim (i @ 118 # v) = i @ 118 # v" "trim (lit ''arxiv:'' @ i) = lit ''arxiv:'' @ i"
        "trim (lit ''arxiv:'' @ i @ 118 # v) = lit ''arxiv:'' @ i @ 118 # v"
      unfolding ends(1) v(1) by (auto intro!: trim_whole simp: hd_append split: if_splits)
  qed
  have small: "byte_len i \<le> URL_CHARS" "byte_len (i @ 118 # v) \<le> URL_CHARS" "byte_len (lit ''arxiv:'' @ i) \<le> URL_CHARS"
    using assms(3) by (auto simp: byte_len_def)
  have "58 \<notin> set v" using assms(2) digits_free by (auto simp: all_digits_def)
  then have plain: "strip_prefix_ignoring_case (lit ''arxiv:'') (i @ 118 # v) = None"
      "strip_prefix_ignoring_case (lit ''doi:'') (i @ 118 # v) = None"
    using conjunct2 [OF conjunct2 [OF conjunct2 [OF conjunct2 [OF conjunct2 [OF again]]]]] by (simp_all add: no_prefix)
  have named: "canonical lib (lit ''arxiv:'' @ x) = Some (lit ''arxiv:'' @ i)"
    if "trim (lit ''arxiv:'' @ x) = lit ''arxiv:'' @ x" "trim x = x" "arxiv_id x = Some i" "byte_len (lit ''arxiv:'' @ x) \<le> URL_CHARS" for x
  proof -
    have "lit ''arxiv:'' @ x \<noteq> []" by simp
    then show ?thesis
      unfolding canonical_def Let_def that(1) using that(2-4) by (simp only: prefix_again) simp
  qed
  have bare: "canonical lib (i @ 118 # v) = Some (lit ''arxiv:'' @ i)"
    unfolding canonical_def Let_def trims using versioned plain small by simp
  show ?thesis
    using versioned named [OF trims(4,2) versioned assms(3)] bare named [OF trims(3,1) _ small(3)] again by blast
qed

lemma versions_are_one_item_witness:
  "arxiv_id (lit ''2501.12345'' @ 118 # lit ''2'') = Some (lit ''2501.12345'')
    \<and> (\<forall>lib. canonical lib (lit ''2501.12345'' @ 118 # lit ''2'') = Some (lit ''arxiv:2501.12345''))"
proof -
  have "arxiv_id (lit ''2501.12345'') = Some (lit ''2501.12345'')" by code_simp
  moreover have "all_digits (lit ''2'') 1 4" by code_simp
  moreover have "byte_len (lit ''arxiv:'' @ lit ''2501.12345'' @ 118 # lit ''2'') \<le> URL_CHARS" by code_simp
  moreover have "lit ''arxiv:2501.12345'' = lit ''arxiv:'' @ lit ''2501.12345''" by code_simp
  ultimately show ?thesis using versions_are_one_item by metis
qed

section \<open>The bound on the items kept\<close>

lemma filter_kept:
  "filter P (map snd (filter (\<lambda>(i, r). i \<notin> S) xs)) = map snd (filter (\<lambda>p. fst p \<notin> S) (filter (\<lambda>(i, r). P r) xs))"
  by (induction xs) auto

lemma filter_numbered: "filter P rows = map snd (filter (\<lambda>(i, r). P r) (enumerate k rows))"
  by (induction rows arbitrary: k) auto

lemma keep_newest_own: "length (filter (\<lambda>r. sn_bot r = b \<and> sn_user r = u) (keep_newest u b rows)) \<le> MAX_PER_BOT"
proof -
  let ?own = "filter (\<lambda>(i, r). sn_bot r = b \<and> sn_user r = u) (enumerate 0 rows)"
  let ?sorted = "rev (sort_key (\<lambda>(i, r). (sn_shown_at r, i)) ?own)"
  let ?gone = "drop MAX_PER_BOT ?sorted"
  let ?stays = "\<lambda>p. fst p \<notin> set (map fst ?gone)"
  have "filter (\<lambda>r. sn_bot r = b \<and> sn_user r = u) (keep_newest u b rows) = map snd (filter ?stays ?own)"
    unfolding keep_newest_def Let_def by (rule filter_kept)
  moreover have "length (filter ?stays ?own) = length (filter ?stays ?sorted)"
  proof -
    have "mset ?own = mset ?sorted" by simp
    then have "size (filter_mset ?stays (mset ?own)) = size (filter_mset ?stays (mset ?sorted))" by (simp only:)
    then show ?thesis by (simp only: mset_filter [symmetric] size_mset)
  qed
  moreover have "filter ?stays ?sorted = filter ?stays (take MAX_PER_BOT ?sorted)"
  proof -
    have "filter ?stays ?gone = []" by (auto simp: filter_empty_conv)
    then have "filter ?stays (take MAX_PER_BOT ?sorted @ ?gone) = filter ?stays (take MAX_PER_BOT ?sorted)"
      by (simp only: filter_append append_Nil2)
    then show ?thesis by (simp only: append_take_drop_id)
  qed
  moreover have "length (filter ?stays (take MAX_PER_BOT ?sorted)) \<le> MAX_PER_BOT"
    by (rule order_trans [OF length_filter_le]) simp
  ultimately show ?thesis by (simp only: length_map)
qed

lemma keep_newest_others: "filter (\<lambda>r. sn_bot r \<noteq> b) (keep_newest u b rows) = filter (\<lambda>r. sn_bot r \<noteq> b) rows"
proof -
  let ?own = "filter (\<lambda>(i, r). sn_bot r = b \<and> sn_user r = u) (enumerate 0 rows)"
  let ?gone = "drop MAX_PER_BOT (rev (sort_key (\<lambda>(i, r). (sn_shown_at r, i)) ?own))"
  let ?others = "filter (\<lambda>(i, r). sn_bot r \<noteq> b) (enumerate 0 rows)"
  have "fst p \<notin> set (map fst ?gone)" if p: "p \<in> set ?others" for p
  proof
    assume "fst p \<in> set (map fst ?gone)"
    then obtain q where q: "q \<in> set ?gone" "fst q = fst p" by auto
    have "q \<in> set ?own" using in_set_dropD [OF q(1)] by (simp only: set_rev set_sort)
    then show False using p q(2) by (auto simp: in_set_enumerate_eq)
  qed
  then have "filter (\<lambda>p. fst p \<notin> set (map fst ?gone)) ?others = ?others" by (simp only: filter_id_conv) blast
  then show ?thesis
    unfolding keep_newest_def Let_def filter_kept by (simp only: filter_numbered [of _ rows 0])
qed

lemma update_others: "(\<And>r. P r \<Longrightarrow> \<not> Q r) \<Longrightarrow> (\<And>r. P r \<Longrightarrow> \<not> Q (f r)) \<Longrightarrow> filter Q (update_where P f rows) = filter Q rows"
  by (induction rows) (auto simp: update_where_def)

lemma mark_one_others: "filter (\<lambda>r. sn_bot r \<noteq> b) (g_seen (snd (mark_one now u b item db))) = filter (\<lambda>r. sn_bot r \<noteq> b) (g_seen db)"
  by (auto simp: mark_one_def split: option.splits intro: update_others)

lemma mark_each_others: "filter (\<lambda>r. sn_bot r \<noteq> b) (g_seen (snd (mark_each now u b items db))) = filter (\<lambda>r. sn_bot r \<noteq> b) (g_seen db)"
  by (induction items arbitrary: db) (auto simp: Let_def case_prod_beta' mark_one_others)

text \<open>However many items a Bot marks, no more than \<open>MAX_PER_BOT\<close> of them are kept, and what the other
  Bots showed is not touched.\<close>

lemma seen_stays_bounded:
  "let db' = snd (mark_items now u b items db)
   in count_seen u b db' \<le> MAX_PER_BOT
     \<and> filter (\<lambda>r. sn_bot r \<noteq> b) (g_seen db') = filter (\<lambda>r. sn_bot r \<noteq> b) (g_seen db)"
  using keep_newest_own [of b u] keep_newest_others [of b u] mark_each_others [of b now u items db]
  by (simp add: mark_items_def case_prod_beta' Let_def count_seen_def seen_rows_def)

end
