(* ===== verification/HttpClient.thy ===== *)
theory HttpClient
  imports Addresses
begin

text \<open>
  \<open>crates/bokkie-gateway/src/http/mod.rs\<close>: the outbound HTTP client. A link is what the url crate
  makes of a text; name resolution, TCP, TLS and HTTP/1.1 are of the operating system and of
  libraries: the parameter \<open>http_world\<close> holds their answers to one request, so two requests may get
  different ones. A request's result comes with the connections it tried, in order.
\<close>

section \<open>Links\<close>

datatype url_host = DomainHost utext | Ipv4Host "32 word" utext | Ipv6Host "128 word" utext

fun host_text :: "url_host \<Rightarrow> utext" where
  "host_text (DomainHost t) = t"
| "host_text (Ipv4Host _ t) = t"
| "host_text (Ipv6Host _ t) = t"

record web_url =
  wu_text :: utext
  wu_scheme :: utext
  wu_username :: utext
  wu_password :: "utext option"
  wu_host :: "url_host option"
  wu_port :: "nat option"
  wu_known_port :: "nat option"
  wu_path :: utext
  wu_query :: "utext option"

section \<open>Requests and responses\<close>

type_synonym bytes = "8 word list"

datatype http_error =
    InvalidUrl utext
  | NotPublic utext
  | Resolve utext
  | Connect utext
  | Tls utext utext
  | Exchange utext utext

record http_request =
  rq_method :: utext
  rq_url :: web_url
  rq_headers :: "(utext \<times> utext) list"
  rq_body :: bytes

definition get_request :: "web_url \<Rightarrow> http_request" where
  "get_request url = \<lparr>rq_method = lit ''GET'', rq_url = url, rq_headers = [], rq_body = []\<rparr>"

record http_response =
  rs_status :: nat
  rs_headers :: "utext \<Rightarrow> utext option"
  rs_body :: bytes
  rs_truncated :: bool
  rs_address :: "ip_address \<times> nat"

text \<open>What goes out on a connection, and the pieces of a body that come back.\<close>

record outgoing =
  og_method :: utext
  og_path :: utext
  og_headers :: "(utext \<times> utext) list"
  og_body :: bytes

datatype frame = DataFrame bytes | OtherFrame | BrokenFrame utext

record http_world =
  hw_version :: utext
  hw_lookup :: "utext \<Rightarrow> nat \<Rightarrow> ip_address list option"
  hw_connects :: "ip_address \<Rightarrow> nat \<Rightarrow> bool"
  hw_builds :: "outgoing \<Rightarrow> utext option"
  hw_tls :: "url_host \<Rightarrow> utext option"
  hw_exchange :: "outgoing \<Rightarrow> utext + (nat \<times> (utext \<Rightarrow> utext option)) \<times> frame list"

definition USER_AGENT :: "utext \<Rightarrow> utext" where
  "USER_AGENT version = lit ''Bokkie/'' @ version
     @ lit '' (private household assistant; +https://github.com/robchristie/bokkie)''"

section \<open>Addresses\<close>

text \<open>Of the answers each address is kept once, in order.\<close>

definition resolve_host :: "http_world \<Rightarrow> utext \<Rightarrow> nat \<Rightarrow> http_error + ip_address list" where
  "resolve_host w host port =
     (case hw_lookup w host port of
        None \<Rightarrow> Inl (Resolve host)
      | Some found \<Rightarrow> Inr (foldl (\<lambda>as a. if a \<in> set as then as else as @ [a]) [] found))"

definition allows_address :: "ip_address \<Rightarrow> bool" where
  "allows_address a = is_public a"

definition addresses :: "http_world \<Rightarrow> web_url \<Rightarrow> http_error + ip_address list" where
  "addresses w url =
     and_then (ok_or (InvalidUrl (lit ''the link has no port'')) (wu_known_port url)) (\<lambda>port.
     and_then (ok_or (InvalidUrl (lit ''the link has no host'')) (wu_host url)) (\<lambda>host.
     and_then (case host of
         Ipv4Host a _ \<Rightarrow> Inr [V4 a] | Ipv6Host a _ \<Rightarrow> Inr [V6 a] | DomainHost name \<Rightarrow> resolve_host w name port) (\<lambda>as.
       if as = [] then Inl (Resolve (host_text host))
       else if list_ex (\<lambda>a. \<not> allows_address a) as then Inl (NotPublic (host_text host))
       else Inr as)))"

section \<open>A request\<close>

fun connect_first :: "http_world \<Rightarrow> nat \<Rightarrow> ip_address list \<Rightarrow> (ip_address \<times> nat) list \<times> (ip_address \<times> nat) option" where
  "connect_first w port [] = ([], None)"
| "connect_first w port (a # as) =
     (if hw_connects w a port then ([(a, port)], Some (a, port))
      else (case connect_first w port as of (tried, got) \<Rightarrow> ((a, port) # tried, got)))"

fun read_body :: "nat \<Rightarrow> bytes \<Rightarrow> frame list \<Rightarrow> utext + bytes \<times> bool" where
  "read_body limit got [] = Inr (got, False)"
| "read_body limit got (BrokenFrame e # fs) = Inl e"
| "read_body limit got (OtherFrame # fs) = read_body limit got fs"
| "read_body limit got (DataFrame d # fs) =
     (let room = limit - length got in
      if length d > room then Inr (got @ take room d, True) else read_body limit (got @ d) fs)"

definition exchange :: "http_world \<Rightarrow> outgoing \<Rightarrow> nat \<Rightarrow> utext \<Rightarrow> ip_address \<times> nat \<Rightarrow> http_error + http_response" where
  "exchange w og limit name address =
     (case hw_exchange w og of
        Inl e \<Rightarrow> Inl (Exchange name e)
      | Inr ((status, headers), frames) \<Rightarrow>
          (case read_body limit [] frames of
             Inl e \<Rightarrow> Inl (Exchange name e)
           | Inr (body, truncated) \<Rightarrow>
               Inr \<lparr>rs_status = status, rs_headers = headers, rs_body = body, rs_truncated = truncated,
                 rs_address = address\<rparr>))"

definition outgoing_of :: "http_world \<Rightarrow> http_request \<Rightarrow> url_host \<Rightarrow> outgoing" where
  "outgoing_of w rq host =
     (let url = rq_url rq;
          host_header = (case wu_port url of Some p \<Rightarrow> host_text host @ 58 # decimal p | None \<Rightarrow> host_text host);
          path = (case wu_query url of Some q \<Rightarrow> wu_path url @ 63 # q | None \<Rightarrow> wu_path url)
      in \<lparr>og_method = rq_method rq, og_path = path,
          og_headers = [(lit ''host'', host_header), (lit ''user-agent'', USER_AGENT (hw_version w))]
            @ filter (\<lambda>(n, _). n \<noteq> lit ''host'' \<and> n \<noteq> lit ''user-agent'') (rq_headers rq),
          og_body = rq_body rq\<rparr>)"

definition send :: "http_world \<Rightarrow> http_request \<Rightarrow> nat \<Rightarrow> (ip_address \<times> nat) list \<times> (http_error + http_response)" where
  "send w rq limit =
     (let url = rq_url rq in
      if wu_scheme url \<noteq> lit ''https'' \<and> wu_scheme url \<noteq> lit ''http''
      then ([], Inl (InvalidUrl (wu_scheme url @ lit '' links are not supported'')))
      else if wu_username url \<noteq> [] \<or> wu_password url \<noteq> None
      then ([], Inl (InvalidUrl (lit ''links with a user name or password are not supported'')))
      else
        (case wu_host url of
           None \<Rightarrow> ([], Inl (InvalidUrl (lit ''the link has no host'')))
         | Some host \<Rightarrow>
             (case wu_known_port url of
                None \<Rightarrow> ([], Inl (InvalidUrl (lit ''the link has no port'')))
              | Some port \<Rightarrow>
                  (case addresses w url of
                     Inl e \<Rightarrow> ([], Inl e)
                   | Inr as \<Rightarrow>
                       (case connect_first w port as of
                          (tried, None) \<Rightarrow> (tried, Inl (Connect (host_text host)))
                        | (tried, Some address) \<Rightarrow>
                            (tried,
                             let og = outgoing_of w rq host in
                             case hw_builds w og of
                               Some e \<Rightarrow> Inl (InvalidUrl e)
                             | None \<Rightarrow>
                                 (case (if wu_scheme url = lit ''https'' then hw_tls w host else None) of
                                    Some e \<Rightarrow> Inl (Tls (host_text host) e)
                                  | None \<Rightarrow> exchange w og limit (host_text host) address)))))))"

section \<open>Where it connects, and how much it reads\<close>

lemma connect_first_tried: "set (fst (connect_first w port as)) \<subseteq> (\<lambda>a. (a, port)) ` set as"
  by (induction as) (auto split: prod.splits)

lemma addresses_public: "addresses w url = Inr as \<Longrightarrow> list_all is_public as"
  by (auto simp: addresses_def and_then_Inr allows_address_def list_ex_iff list_all_iff split: if_splits)

lemma read_body_bounded:
  "length got \<le> limit \<Longrightarrow> read_body limit got frames = Inr (body, truncated) \<Longrightarrow> length body \<le> limit"
  by (induction limit got frames rule: read_body.induct) (auto simp: Let_def split: if_splits)

lemma exchange_bounded: "exchange w og limit name address = Inr r \<Longrightarrow> length (rs_body r) \<le> limit"
  using read_body_bounded [of "[]" limit] by (auto simp: exchange_def split: sum.splits prod.splits)

lemma send_bounded: "snd (send w rq limit) = Inr r \<Longrightarrow> length (rs_body r) \<le> limit"
  by (auto simp: send_def Let_def split: if_splits option.splits sum.splits prod.splits dest: exchange_bounded)

text \<open>A connection goes to an address the host resolved to, all of which are public, on the link's port.\<close>

lemma send_tried:
  assumes "c \<in> set (fst (send w rq limit))"
  shows "\<exists>as. addresses w (rq_url rq) = Inr as \<and> list_all is_public as \<and> fst c \<in> set as
    \<and> wu_known_port (rq_url rq) = Some (snd c)"
proof -
  obtain as port where as: "addresses w (rq_url rq) = Inr as" "wu_known_port (rq_url rq) = Some port"
      "c \<in> set (fst (connect_first w port as))"
    using assms by (auto simp: send_def Let_def split: if_splits option.splits sum.splits prod.splits)
  then have "c \<in> (\<lambda>a. (a, port)) ` set as" using connect_first_tried by blast
  then show ?thesis using as(1,2) addresses_public [OF as(1)] by auto
qed

end
