(* ===== verification/WebFetch.thy ===== *)
theory WebFetch
  imports FetchedText
begin

text \<open>
  \<open>crates/bokkie-gateway/src/tools/web_fetch.rs\<close>: the rules a link must pass, the fetch with its
  redirects, and the limits on fetches. A fetch takes long: counting it and recording it are two
  steps, between which others run. Links and status texts are of the url and http crates: the
  parameter \<open>fetch_lib\<close>; the network's answers to the fetch's \<open>n\<close>th request are \<open>worlds n\<close>.
\<close>

section \<open>Links\<close>

definition MAX_REDIRECTS :: nat where
  "MAX_REDIRECTS = 5"

definition FETCHES_PER_TURN :: nat where
  "FETCHES_PER_TURN = 60"

definition FETCHES_PER_DAY :: nat where
  "FETCHES_PER_DAY = 500"

definition ACCEPT :: utext where
  "ACCEPT = lit ''text/html, application/xhtml+xml, application/rss+xml, ''
     @ lit ''application/atom+xml, application/feed+json, application/json, ''
     @ lit ''text/plain;q=0.9, application/xml;q=0.8, text/xml;q=0.8''"

record fetch_lib =
  wl_parse :: "utext \<Rightarrow> web_url option"
  wl_join :: "web_url \<Rightarrow> utext \<Rightarrow> web_url option"
  wl_strip :: "web_url \<Rightarrow> web_url"
  wl_status :: "nat \<Rightarrow> utext"
  wl_reason :: "nat \<Rightarrow> utext option"
  wl_text :: text_lib

definition too_long :: utext where
  "too_long = lit ''The link is longer than '' @ decimal FETCH_URL_CHARS @ lit '' characters.''"

definition check_link :: "web_url \<Rightarrow> utext + unit" where
  "check_link url =
     (if length (wu_text url) > FETCH_URL_CHARS then Inl too_long
      else if wu_scheme url \<noteq> lit ''http'' \<and> wu_scheme url \<noteq> lit ''https''
      then Inl (lit ''web_fetch reads only http and https links, not '' @ wu_scheme url @ lit '' links.'')
      else if wu_username url \<noteq> [] \<or> wu_password url \<noteq> None
      then Inl (lit ''web_fetch does not send user names or passwords.'')
      else if wu_host url = None then Inl (lit ''The link has no host.'')
      else if wu_known_port url = Some 80 \<or> wu_known_port url = Some 443 then Inr ()
      else Inl (lit ''web_fetch reads only from ports 80 and 443.''))"

text \<open>What to log of a refused link, and why it was refused.\<close>

definition parse_fetch :: "fetch_lib \<Rightarrow> json_arguments \<Rightarrow> utext \<times> utext + web_url" where
  "parse_fetch lib args =
     (case as_str (args (lit ''url'')) of
        None \<Rightarrow> Inl (lit ''invalid arguments'', lit ''web_fetch needs a url: an http or https link.'')
      | Some raw \<Rightarrow>
          let t = trim raw in
          if length t > FETCH_URL_CHARS then Inl (take 100 t, too_long)
          else
            (case wl_parse lib t of
               None \<Rightarrow> Inl (t, t @ lit '' is not a link. Give a whole http or https link.'')
             | Some url \<Rightarrow> (case check_link url of Inl e \<Rightarrow> Inl (t, e) | Inr _ \<Rightarrow> Inr url)))"

definition shown_link :: "web_url \<Rightarrow> utext" where
  "shown_link url = (if length (wu_text url) > 200 then cut_with_ellipsis 199 (wu_text url) else wu_text url)"

section \<open>One fetch\<close>

record fetched =
  got_url :: web_url
  got_status :: nat
  got_type :: utext
  got_bytes :: nat
  got_truncated :: bool
  got_text :: utext

record fetch_failure =
  fx_message :: utext
  fx_route :: utext
  fx_brief :: utext

definition route_to :: "web_url \<Rightarrow> web_url \<Rightarrow> utext" where
  "route_to requested url =
     (if wu_text url = wu_text requested then wu_text requested
      else wu_text requested @ [32, 0x2192, 32] @ wu_text url)"

definition answer_of :: "fetched \<Rightarrow> utext" where
  "answer_of f = wrap (wu_text (got_url f)) (got_type f) (got_bytes f) (got_truncated f) (got_text f)"

fun http_message :: "web_url \<Rightarrow> http_error \<Rightarrow> utext" where
  "http_message url e =
     (let host = (case wu_host url of None \<Rightarrow> lit ''the host'' | Some h \<Rightarrow> host_text h) in
      case e of
        NotPublic _ \<Rightarrow> lit ''web_fetch reads only from public web addresses, and '' @ host @ lit '' is not one.''
      | Resolve _ \<Rightarrow> lit ''Could not find '' @ host @ lit ''.''
      | Connect _ \<Rightarrow> lit ''Could not connect to '' @ host @ lit ''.''
      | Tls _ _ \<Rightarrow> lit ''Could not make a secure connection to '' @ host @ lit ''.''
      | Exchange _ _ \<Rightarrow> lit ''The exchange with '' @ host @ lit '' failed.''
      | InvalidUrl reason \<Rightarrow> wu_text url @ lit '' is refused: '' @ reason @ lit ''.'')"

fun http_brief :: "http_error \<Rightarrow> utext" where
  "http_brief (NotPublic _) = lit ''refused, not a public address''"
| "http_brief (Resolve _) = lit ''not found''"
| "http_brief (Connect _) = lit ''no connection''"
| "http_brief (Tls _ _) = lit ''TLS failed''"
| "http_brief (Exchange _ _) = lit ''exchange failed''"
| "http_brief (InvalidUrl _) = lit ''refused''"

datatype hop = RedirectedTo web_url | Arrived fetched

definition redirect_target :: "fetch_lib \<Rightarrow> web_url \<Rightarrow> http_response \<Rightarrow> web_url option" where
  "redirect_target lib url r =
     (if rs_status r \<in> {301, 302, 303, 307, 308}
      then Option.bind (rs_headers r (lit ''location'')) (wl_join lib url) else None)"

text \<open>No encoding is asked for, but a server may compress anyway.\<close>

definition encoding_of :: "http_response \<Rightarrow> utext option" where
  "encoding_of r =
     (case rs_headers r (lit ''content-encoding'') of
        None \<Rightarrow> None
      | Some v \<Rightarrow>
          let e = to_ascii_lowercase (trim v) in if e = [] \<or> e = lit ''identity'' then None else Some e)"

definition read_answer :: "fetch_lib \<Rightarrow> web_url \<Rightarrow> web_url \<Rightarrow> http_response \<Rightarrow> fetch_failure + fetched" where
  "read_answer lib requested url r =
     (let failed = (\<lambda>message brief. Inl \<lparr>fx_message = message, fx_route = route_to requested url, fx_brief = brief\<rparr>) in
      if \<not> (200 \<le> rs_status r \<and> rs_status r < 300)
      then failed (replace_text (lit '' .'') (lit ''.'')
          (wu_text url @ lit '' answered '' @ decimal (rs_status r) @ [32]
            @ (case wl_reason lib (rs_status r) of None \<Rightarrow> [] | Some t \<Rightarrow> t) @ lit ''.'')) (decimal (rs_status r))
      else
        (case encoding_of r of
           Some e \<Rightarrow>
             failed (wu_text url @ lit '' sent '' @ e @ lit ''-compressed content, which web_fetch cannot read.'')
               (e @ lit '' refused'')
         | None \<Rightarrow>
             let (mime, charset) = media_type (case rs_headers r (lit ''content-type'') of None \<Rightarrow> [] | Some t \<Rightarrow> t) in
             (case render (wl_text lib) mime charset (rs_body r) (rs_truncated r) of
                Inl message \<Rightarrow>
                  failed (replace_text (lit ''{url}'') (wu_text url) message)
                    (if mime = [] then lit ''no type'' else mime @ lit '' refused'')
              | Inr t \<Rightarrow>
                  Inr \<lparr>got_url = wl_strip lib url, got_status = rs_status r, got_type = mime,
                    got_bytes = length (rs_body r), got_truncated = rs_truncated r, got_text = t\<rparr>)))"

definition fetch_request :: "fetch_lib \<Rightarrow> web_url \<Rightarrow> http_request" where
  "fetch_request lib url = (get_request (wl_strip lib url))\<lparr>rq_headers := [(lit ''accept'', ACCEPT)]\<rparr>"

type_synonym tried = "(web_url \<times> (ip_address \<times> nat) list) list"

definition fetch_hop :: "fetch_lib \<Rightarrow> http_world \<Rightarrow> web_url \<Rightarrow> web_url \<Rightarrow> tried \<times> (fetch_failure + hop)" where
  "fetch_hop lib w requested url =
     (let rq = fetch_request lib url; (connections, result) = send w rq MAX_BYTES;
          failed = (\<lambda>message brief. Inl \<lparr>fx_message = message, fx_route = route_to requested url, fx_brief = brief\<rparr>)
      in ([(rq_url rq, connections)],
          case result of
            Inl e \<Rightarrow> failed (http_message url e) (http_brief e)
          | Inr r \<Rightarrow>
              if 300 \<le> rs_status r \<and> rs_status r < 400
              then (case redirect_target lib url r of
                  None \<Rightarrow> failed (wu_text url @ lit '' answered '' @ wl_status lib (rs_status r) @ lit '' without a usable redirect.'')
                    (decimal (rs_status r))
                | Some n \<Rightarrow> Inr (RedirectedTo n))
              else map_sum (\<lambda>x. x) Arrived (read_answer lib requested url r)))"

text \<open>The loop, with the redirects that are left.\<close>

fun fetch_from :: "fetch_lib \<Rightarrow> (nat \<Rightarrow> http_world) \<Rightarrow> web_url \<Rightarrow> nat \<Rightarrow> web_url \<Rightarrow> tried \<times> (fetch_failure + fetched)" where
  "fetch_from lib worlds requested left url =
     (let (tried, result) = fetch_hop lib (worlds (MAX_REDIRECTS - left)) requested url in
      case result of
        Inl e \<Rightarrow> (tried, Inl e)
      | Inr (Arrived f) \<Rightarrow> (tried, Inr f)
      | Inr (RedirectedTo target) \<Rightarrow>
          (case left of
             0 \<Rightarrow> (tried, Inl \<lparr>fx_message = wu_text requested @ lit '' redirected more than '' @ decimal MAX_REDIRECTS
               @ lit '' times.'', fx_route = route_to requested url, fx_brief = lit ''too many redirects''\<rparr>)
           | Suc n \<Rightarrow>
               (case check_link target of
                  Inl e \<Rightarrow> (tried, Inl \<lparr>fx_message = wu_text url @ lit '' redirected to '' @ shown_link target
                    @ lit '', which is refused: '' @ e, fx_route = route_to requested target, fx_brief = lit ''redirect refused''\<rparr>)
                | Inr _ \<Rightarrow> (case fetch_from lib worlds requested n target of (further, final) \<Rightarrow> (tried @ further, final)))))"

declare fetch_from.simps [simp del]

definition fetch :: "fetch_lib \<Rightarrow> (nat \<Rightarrow> http_world) \<Rightarrow> web_url \<Rightarrow> tried \<times> (fetch_failure + fetched)" where
  "fetch lib worlds requested = fetch_from lib worlds requested MAX_REDIRECTS requested"

section \<open>Counting fetches\<close>

record counted =
  cn_id :: nat
  cn_user :: user_id
  cn_thread :: utext
  cn_turn :: utext

record fetcher =
  ft_next :: nat
  ft_calls :: "counted list"

definition fetcher_start :: fetcher where
  "fetcher_start = \<lparr>ft_next = 0, ft_calls = []\<rparr>"

text \<open>The fetches recorded since a time and those of a turn, refused ones apart.\<close>

definition is_counted :: "user_id \<Rightarrow> call_row \<Rightarrow> bool" where
  "is_counted u c \<longleftrightarrow> tc_user c = u \<and> tc_tool c = FETCH_TOOL \<and> tc_outcome c \<noteq> lit ''refused''"

definition count_fetches :: "user_id \<Rightarrow> utext \<Rightarrow> utext \<Rightarrow> timestamp \<Rightarrow> gateway_db \<Rightarrow> nat \<times> nat" where
  "count_fetches u thread turn since db =
     (length (filter (\<lambda>c. is_counted u c \<and> tc_at c > since) (g_calls db)),
      length (filter (\<lambda>c. is_counted u c \<and> tc_thread c = thread \<and> tc_turn c = turn) (g_calls db)))"

definition turn_is_spent :: utext where
  "turn_is_spent = lit ''You have used all '' @ decimal FETCHES_PER_TURN
     @ lit '' fetches one turn may make. Work with what you have fetched.''"

definition day_is_spent :: utext where
  "day_is_spent = lit ''Your owner has used all '' @ decimal FETCHES_PER_DAY
     @ lit '' fetches allowed in 24 hours. Try again later.''"

definition reserve_fetch ::
  "timestamp \<Rightarrow> user_id \<Rightarrow> utext \<Rightarrow> utext \<Rightarrow> gateway_db \<Rightarrow> fetcher \<Rightarrow> utext + nat \<times> fetcher" where
  "reserve_fetch now u thread turn db ft =
     (let (today, this_turn) = count_fetches u thread turn (now - DAY_MS) db;
          running_today = length (filter (\<lambda>c. cn_user c = u) (ft_calls ft));
          running_this_turn = length (filter (\<lambda>c. cn_user c = u \<and> cn_thread c = thread \<and> cn_turn c = turn) (ft_calls ft))
      in if this_turn + running_this_turn \<ge> FETCHES_PER_TURN then Inl turn_is_spent
         else if today + running_today \<ge> FETCHES_PER_DAY then Inl day_is_spent
         else let i = ft_next ft + 1 in
           Inr (i, \<lparr>ft_next = i, ft_calls = ft_calls ft @ [\<lparr>cn_id = i, cn_user = u, cn_thread = thread, cn_turn = turn\<rparr>]\<rparr>))"

definition release_fetch :: "nat \<Rightarrow> fetcher \<Rightarrow> fetcher" where
  "release_fetch i ft = ft\<lparr>ft_calls := filter (\<lambda>c. cn_id c \<noteq> i) (ft_calls ft)\<rparr>"

section \<open>A call\<close>

text \<open>The log's summary: the route and a detail, on one line of at most the log's bound; the route is shortened to fit.\<close>

definition fetch_summary :: "utext \<Rightarrow> utext \<Rightarrow> utext" where
  "fetch_summary route detail =
     (let r = map (\<lambda>c. if is_control c then 32 else c) route;
          tail = lit '': '' @ detail;
          room = SUMMARY_CHARS - length tail
      in (if length r > room then cut_with_ellipsis (room - 1) r else r) @ tail)"

record served =
  sv_outcome :: tool_outcome
  sv_output :: "utext + utext"
  sv_summary :: utext

text \<open>Up to the fetch: what is answered at once, or the link to fetch and its place in the count_fetches.\<close>

definition begin_fetch ::
  "fetch_lib \<Rightarrow> timestamp \<Rightarrow> user_id \<Rightarrow> utext \<Rightarrow> utext \<Rightarrow> json_arguments \<Rightarrow> gateway_db \<Rightarrow> fetcher
   \<Rightarrow> served + (web_url \<times> nat) \<times> fetcher" where
  "begin_fetch lib now u thread turn args db ft =
     (case parse_fetch lib args of
        Inl (shown, error) \<Rightarrow>
          Inl \<lparr>sv_outcome = CallFailed, sv_output = Inl error, sv_summary = fetch_summary shown (lit ''refused, '' @ error)\<rparr>
      | Inr url \<Rightarrow>
          (case reserve_fetch now u thread turn db ft of
             Inl refusal \<Rightarrow>
               Inl \<lparr>sv_outcome = CallRefused, sv_output = Inl refusal,
                 sv_summary = fetch_summary (wu_text url) (lit ''refused, over the limit'')\<rparr>
           | Inr (i, ft1) \<Rightarrow> Inr ((url, i), ft1)))"

text \<open>After it: the fetch ended, or its 30 seconds did.\<close>

definition end_fetch :: "web_url \<Rightarrow> (fetch_failure + fetched) option \<Rightarrow> served" where
  "end_fetch url result =
     (let s = (case result of
          Some (Inr f) \<Rightarrow>
            \<lparr>sv_outcome = CallOk, sv_output = Inr (answer_of f),
             sv_summary = fetch_summary (route_to url (got_url f))
               (decimal (got_status f) @ [32] @ got_type f @ lit '', '' @ decimal (got_bytes f) @ lit '' bytes'')\<rparr>
        | Some (Inl x) \<Rightarrow>
            \<lparr>sv_outcome = CallFailed, sv_output = Inl (fx_message x), sv_summary = fetch_summary (fx_route x) (fx_brief x)\<rparr>
        | None \<Rightarrow>
            \<lparr>sv_outcome = CallTimedOut, sv_output = Inl (lit ''web_fetch gave up on '' @ wu_text url @ lit '' after 30 seconds.''),
             sv_summary = fetch_summary (wu_text url) (lit ''timed out'')\<rparr>)
      in s\<lparr>sv_output := map_sum capped capped (sv_output s)\<rparr>)"

section \<open>Where a fetch goes\<close>

text \<open>Dropping the fragment of a link changes neither its host nor its port.\<close>

definition keeps_authority :: "(web_url \<Rightarrow> web_url) \<Rightarrow> bool" where
  "keeps_authority f \<longleftrightarrow> (\<forall>u. wu_host (f u) = wu_host u \<and> wu_known_port (f u) = wu_known_port u)"

definition goes_out :: "web_url \<times> (ip_address \<times> nat) list \<Rightarrow> bool" where
  "goes_out t \<longleftrightarrow> list_all (\<lambda>(a, port). is_public a \<and> (port = 80 \<or> port = 443) \<and> wu_known_port (fst t) = Some port) (snd t)"

lemma hop_arrived:
  assumes "fetch_hop lib w requested url = (tried, result)" "result = Inr (Arrived f)"
  obtains r where "snd (send w (fetch_request lib url) MAX_BYTES) = Inr r" "read_answer lib requested url r = Inr f"
proof (cases "snd (send w (fetch_request lib url) MAX_BYTES)")
  case (Inl e)
  then show ?thesis using assms by (simp add: fetch_hop_def Let_def case_prod_beta')
next
  case (Inr r)
  have "read_answer lib requested url r = Inr f"
    using assms Inr
    by (cases "redirect_target lib url r"; cases "read_answer lib requested url r")
      (simp_all add: fetch_hop_def Let_def case_prod_beta' split: if_splits)
  then show ?thesis using that Inr by blast
qed

lemma hop_goes_out:
  assumes "keeps_authority (wl_strip lib)" "check_link url = Inr ()" "fetch_hop lib w requested url = (tried, result)"
  shows "length tried = 1 \<and> list_all goes_out tried \<and> (\<forall>f. result = Inr (Arrived f) \<longrightarrow> got_bytes f \<le> MAX_BYTES)"
proof -
  let ?rq = "fetch_request lib url"
  have rq: "rq_url ?rq = wl_strip lib url" by (simp add: fetch_request_def get_request_def)
  have port: "wu_known_port url = Some 80 \<or> wu_known_port url = Some 443"
    using assms(2) by (auto simp: check_link_def split: if_splits)
  have "goes_out (rq_url ?rq, fst (send w ?rq MAX_BYTES))"
    using send_tried [of _ w ?rq MAX_BYTES] port assms(1)
    by (auto simp: goes_out_def list_all_iff rq keeps_authority_def) (metis option.inject)+
  moreover have "tried = [(rq_url ?rq, fst (send w ?rq MAX_BYTES))]"
    using assms(3) by (auto simp: fetch_hop_def Let_def split: prod.splits)
  moreover have "got_bytes f \<le> MAX_BYTES" if arrived: "result = Inr (Arrived f)" for f
  proof -
    obtain r where r: "snd (send w ?rq MAX_BYTES) = Inr r" "read_answer lib requested url r = Inr f"
      using assms(3) arrived by (rule hop_arrived)
    then have "got_bytes f = length (rs_body r)"
      by (auto simp: read_answer_def Let_def split: if_splits option.splits sum.splits prod.splits)
    then show ?thesis using send_bounded [OF r(1)] by simp
  qed
  ultimately show ?thesis by simp
qed

lemma fetch_from_goes_out:
  assumes "keeps_authority (wl_strip lib)"
  shows "check_link url = Inr () \<Longrightarrow> fetch_from lib worlds requested left url = (tried, result) \<Longrightarrow>
    length tried \<le> left + 1 \<and> list_all goes_out tried \<and> (\<forall>f. result = Inr f \<longrightarrow> got_bytes f \<le> MAX_BYTES)"
proof (induction left arbitrary: url tried result)
  case 0
  obtain t r where hop: "fetch_hop lib (worlds MAX_REDIRECTS) requested url = (t, r)" by fastforce
  show ?case using 0 hop hop_goes_out [OF assms 0(1) hop]
    by (auto simp: fetch_from.simps [of _ _ _ 0] split: sum.splits hop.splits)
next
  case (Suc n)
  obtain t r where hop: "fetch_hop lib (worlds (MAX_REDIRECTS - Suc n)) requested url = (t, r)" by fastforce
  note one = hop_goes_out [OF assms Suc(2) hop]
  show ?case
  proof (cases r)
    case (Inl e)
    then show ?thesis using Suc(3) hop one by (auto simp: fetch_from.simps [of _ _ _ "Suc n"])
  next
    case (Inr h)
    show ?thesis
    proof (cases h)
      case (Arrived f)
      then show ?thesis using Inr Suc(3) hop one by (auto simp: fetch_from.simps [of _ _ _ "Suc n"])
    next
      case (RedirectedTo target)
      obtain t' r' where rest: "fetch_from lib worlds requested n target = (t', r')" by fastforce
      show ?thesis
      proof (cases "check_link target")
        case (Inl e)
        then show ?thesis using Inr RedirectedTo Suc(3) hop one by (auto simp: fetch_from.simps [of _ _ _ "Suc n"])
      next
        case (Inr x)
        then have "tried = t @ t'" "result = r'" "check_link target = Inr ()"
          using \<open>r = Inr h\<close> RedirectedTo Suc(3) hop rest by (auto simp: fetch_from.simps [of _ _ _ "Suc n"])
        then show ?thesis using Suc(1) [OF _ rest] one by auto
      qed
    qed
  qed
qed

text \<open>C19: whatever a link, the sites it redirects to and the answers of name servers are, the requests
  of a fetch are at most six, every connection they try goes to a public address on port 80 or 443
  of the link requested, and at most 2 MB of an answer are read.\<close>

theorem fetches_reach_only_the_public_web:
  assumes "keeps_authority (wl_strip lib)" and "parse_fetch lib args = Inr requested"
  shows "case fetch lib worlds requested of (tried, result) \<Rightarrow>
      length tried \<le> MAX_REDIRECTS + 1 \<and> list_all goes_out tried
      \<and> (case result of Inl _ \<Rightarrow> True | Inr f \<Rightarrow> got_bytes f \<le> MAX_BYTES)"
proof -
  obtain tried result where f: "fetch lib worlds requested = (tried, result)" by fastforce
  have "check_link requested = Inr ()"
    using assms(2) by (auto simp: parse_fetch_def Let_def split: option.splits if_splits sum.splits)
  from fetch_from_goes_out [OF assms(1) this f [unfolded fetch_def]]
  show ?thesis using f by (auto split: sum.splits)
qed

text \<open>A library that knows one link.\<close>

definition example_link :: web_url where
  "example_link = \<lparr>wu_text = lit ''http://a.b/'', wu_scheme = lit ''http'', wu_username = [], wu_password = None,
     wu_host = Some (DomainHost (lit ''a.b'')), wu_port = None, wu_known_port = Some 80, wu_path = [47], wu_query = None\<rparr>"

definition example_text_lib :: text_lib where
  "example_text_lib = \<lparr>xl_lossy = (\<lambda>b. map unat b), xl_decode = (\<lambda>_ b. map unat b), xl_page = (\<lambda>t. (t, False)),
     xl_bare = (\<lambda>t. t), xl_feed = (\<lambda>_. None), xl_date = (\<lambda>_. [])\<rparr>"

definition example_fetch_lib :: fetch_lib where
  "example_fetch_lib = \<lparr>wl_parse = (\<lambda>t. if t = wu_text example_link then Some example_link else None), wl_join = (\<lambda>_ _. None),
     wl_strip = (\<lambda>u. u), wl_status = decimal, wl_reason = (\<lambda>_. None), wl_text = example_text_lib\<rparr>"

theorem fetches_reach_only_the_public_web_witness:
  "parse_fetch example_fetch_lib (\<lambda>_. JsonString (lit '' http://a.b/'')) = Inr example_link
    \<and> (\<forall>worlds. case fetch example_fetch_lib worlds example_link of (tried, result) \<Rightarrow>
        length tried \<le> MAX_REDIRECTS + 1 \<and> list_all goes_out tried
        \<and> (case result of Inl _ \<Rightarrow> True | Inr f \<Rightarrow> got_bytes f \<le> MAX_BYTES))"
proof -
  have "parse_fetch example_fetch_lib (\<lambda>_. JsonString (lit '' http://a.b/'')) = Inr example_link" by code_simp
  moreover have "keeps_authority (wl_strip example_fetch_lib)" by (simp add: keeps_authority_def example_fetch_lib_def)
  ultimately show ?thesis by (intro conjI allI) (assumption | rule fetches_reach_only_the_public_web)+
qed

end
