(* ===== verification/ToolSafety.thy ===== *)
theory ToolSafety
  imports ToolBroker
begin

text \<open>
  What the broker promises of a call, whatever its arguments: a tool whose grant the Bot lacks
  changes nothing but the log, every call of a Bot is logged once with how it ended, and no turn
  fetches more than it may, however its calls and their answers interleave.
\<close>

section \<open>What a tool leaves alone\<close>

definition keeps_calls :: "gateway_db \<Rightarrow> gateway_db \<Rightarrow> bool" where
  "keeps_calls db db' \<longleftrightarrow> g_calls db' = g_calls db \<and> bd_bots (g_bots db') = bd_bots (g_bots db)"

lemma keeps_calls_refl [simp]: "keeps_calls db db"
  by (simp add: keeps_calls_def)

lemma keeps_find: "keeps_calls db db' \<Longrightarrow> find_bot u b (g_bots db') = find_bot u b (g_bots db)"
  by (simp add: keeps_calls_def find_bot_def)

lemma write_notes_keeps [simp]: "keeps_calls db (snd (write_notes now u b t db))"
  by (simp add: write_notes_def keeps_calls_def split: option.split)

lemma mark_one_keeps: "keeps_calls db (snd (mark_one now u b item db))"
  by (simp add: mark_one_def keeps_calls_def split: option.split)

lemma mark_each_keeps: "keeps_calls db (snd (mark_each now u b items db))"
proof (induction items arbitrary: db)
  case (Cons item items)
  show ?case using Cons [of "snd (mark_one now u b item db)"] mark_one_keeps [of db now u b item]
    by (simp add: keeps_calls_def Let_def case_prod_beta')
qed simp

lemma mark_items_keeps: "keeps_calls db (snd (mark_items now u b items db))"
  using mark_each_keeps [of db now u b items] by (simp add: mark_items_def keeps_calls_def Let_def case_prod_beta')

lemma run_tool_keeps: "run_tool libs now u b t args db = Inr (answer, after) \<Longrightarrow> keeps_calls db after"
  using mark_items_keeps
  by (auto simp: run_tool_def replace_tool_def append_tool_def mark_tool_def and_then_Inr Let_def
      split: if_splits sum.splits) (case_tac "check_tool (tb_links libs) now u b args db"; simp)

lemma queue_push_keeps_calls: "keeps_calls (t_db t) (t_db (queue_push now p t))"
  by (simp add: queue_push_def keeps_calls_def on_pushes_def wake_sender_def split: option.split)

lemma notified_keeps [simp]:
  "g_calls (t_db (notified now u b n q t)) = g_calls (t_db t)"
  "bd_bots (g_bots (t_db (notified now u b n q t))) = bd_bots (g_bots (t_db t))"
  using queue_push_keeps_calls by (simp_all add: notified_def keeps_calls_def split: option.split)

lemma serve_notify_keeps:
  assumes "serve_notify now u b thread turn call args db = Inr (ids, t)"
  shows "keeps_calls db (t_db t)"
proof -
  obtain q where "record_notification now u b thread turn call q db = Inr (Inr (ids, t))"
  proof -
    obtain q where "(case record_notification now u b thread turn call q db of
        Inl _ \<Rightarrow> Inl (lit ''The notification could not be recorded just now.'') | Inr answer \<Rightarrow> answer) = Inr (ids, t)"
      using assms by (auto simp: serve_notify_def and_then_Inr)
    then show thesis using that by (cases "record_notification now u b thread turn call q db") auto
  qed
  then show ?thesis
    by (auto simp: record_notification_def and_then_Inr Let_def on_notifications_def on_bots_def emit_def keeps_calls_def
        insert_message_def split: if_splits option.splits)
qed

lemma bot_by_thread_found: "bot_by_thread u thread db = Some r \<Longrightarrow> find_bot u (br_id r) db = Some r"
proof -
  assume "bot_by_thread u thread db = Some r"
  then obtain b where f: "find_bot u b db = Some r" by (auto simp: bot_by_thread_def split: option.splits)
  then have "br_id r = b" by (simp add: find_bot_def find_Some_iff) blast
  then show ?thesis using f by simp
qed

lemma within_keeps:
  assumes "within timing name before result = (r, after)" "\<And>answer t. result = Inr (answer, t) \<Longrightarrow> keeps_calls (t_db before) (t_db t)"
  shows "keeps_calls (t_db before) (t_db after)"
  using assms by (auto simp: within_def split: timing.splits sum.splits prod.splits)


section \<open>The log of a call\<close>

lemma outcome_names: "outcome_name o1 = outcome_name o2 \<longleftrightarrow> o1 = o2"
  by (cases o1; cases o2) simp_all

text \<open>What one call adds to the log: nothing, or one row of the Bot with that outcome.\<close>

definition logs_one :: "user_id \<Rightarrow> bot_id \<Rightarrow> tool_outcome \<Rightarrow> gateway_db \<Rightarrow> gateway_db \<Rightarrow> bool" where
  "logs_one u b outcome db db' \<longleftrightarrow> (case drop (length (g_calls db)) (g_calls db') of
     [c] \<Rightarrow> take (length (g_calls db)) (g_calls db') = g_calls db
       \<and> tc_user c = u \<and> tc_bot c = b \<and> tc_outcome c = outcome_name outcome
   | _ \<Rightarrow> False)"

lemma record_call_row:
  assumes "find_bot (ce_user e) (ce_bot e) (g_bots db) = Some r"
  obtains c where "record_call now e db = db\<lparr>g_calls := g_calls db @ [c]\<rparr>" "tc_user c = ce_user e" "tc_bot c = ce_bot e"
    "tc_outcome c = outcome_name (ce_outcome e)" "tc_thread c = bounded (ce_thread e) ID_CHARS"
    "tc_turn c = bounded (ce_turn e) ID_CHARS" "tc_tool c = bounded (ce_tool e) ID_CHARS"
  using assms by (simp add: record_call_def Let_def)

lemma record_in_logs:
  assumes "find_bot u b (g_bots db) = Some r" "keeps_calls db (t_db t)"
  shows "logs_one u b outcome db (t_db (record_in now (entry_of u b call name outcome summary ms) t))"
proof -
  have "find_bot u b (g_bots (t_db t)) = Some r" using assms keeps_find by metis
  then obtain c where "record_call now (entry_of u b call name outcome summary ms) (t_db t) = (t_db t)\<lparr>g_calls := g_calls (t_db t) @ [c]\<rparr>"
      "tc_user c = u" "tc_bot c = b" "tc_outcome c = outcome_name outcome"
    using record_call_row [of "entry_of u b call name outcome summary ms" "t_db t" r now] by (auto simp: entry_of_def)
  moreover have "g_calls (t_db t) = g_calls db" using assms(2) by (simp add: keeps_calls_def)
  ultimately show ?thesis by (simp add: record_in_def logs_one_def)
qed

lemma served_at_logs:
  assumes "find_bot u b (g_bots db) = Some r" "keeps_calls db (t_db (snd x))"
    and "served_at now ms u b call name summary x = Answered resp t"
  shows "logs_one u b (fst (fst x)) db (t_db t) \<and> resp = response_of (snd (fst x))"
  using assms record_in_logs [OF assms(1,2)] by (auto simp: served_at_def split: prod.splits)

lemma within_outcome: "within timing name before result = ((outcome, said), after) \<Longrightarrow>
  (outcome = CallOk \<longleftrightarrow> rp_success (response_of said))"
  by (auto simp: within_def response_of_def split: timing.splits sum.splits prod.splits)

lemma begin_fetch_refused: "begin_fetch lib now u thread turn args db ft = Inl s \<Longrightarrow>
  sv_outcome s \<noteq> CallOk \<and> \<not> rp_success (response_of (sv_output s))"
  by (auto simp: begin_fetch_def response_of_def split: sum.splits)

text \<open>
  The answer of a call of a Bot, with how it ended and the batch it wrote, before it is recorded.
\<close>

lemma serve_call_cases:
  assumes "bot_by_thread u (tq_thread call) (g_bots db) = Some row"
    and "serve_call libs now timing ms u call db ft = Answered resp t"
  obtains name summary outcome said after where "t = record_in now (entry_of u (br_id row) call name outcome summary ms) after"
    "resp = response_of said" "keeps_calls db (t_db after)" "outcome = CallOk \<longleftrightarrow> rp_success (response_of said)"
    "allows_tool (grants_from_stored (br_grants row)) (tq_tool call) (tq_namespace call)
      \<or> outcome = CallRefused \<and> after = tx_open db"
proof -
  note goal = that
  have answered: thesis
    if a: "served_at now ms u (br_id row) call name summary ((outcome, said), after) = Answered resp t"
      "keeps_calls db (t_db after)" "outcome = CallOk \<longleftrightarrow> rp_success (response_of said)"
      "allows_tool (grants_from_stored (br_grants row)) (tq_tool call) (tq_namespace call) \<or> outcome = CallRefused \<and> after = tx_open db"
    for name summary outcome said after
    using a by (intro goal [of name outcome summary after said]) (simp_all add: served_at_def)
  have quiet: "keeps_calls db (t_db (tx_open db))" by simp
  show ?thesis
  proof (cases "find_tool (tq_tool call) (tq_namespace call)")
    case None
    then show ?thesis using assms
      by (intro answered [of _ _ CallRefused "Inl NOT_AVAILABLE" "tx_open db"]) (simp_all add: serve_call_def response_of_def)
  next
    case (Some x)
    show ?thesis
    proof (cases "to_grant x \<in> grants_from_stored (br_grants row)")
      case False
      then show ?thesis using assms Some
        by (intro answered [of _ _ CallRefused "Inl (removed_text (to_grant x))" "tx_open db"])
          (simp_all add: serve_call_def response_of_def)
    next
      case True
      then have allowed: "allows_tool (grants_from_stored (br_grants row)) (tq_tool call) (tq_namespace call)"
        using Some by (simp add: allows_tool_def)
      consider (fetch) s where "served_at now ms u (br_id row) call (to_name x) (sv_summary s) ((sv_outcome s, sv_output s), tx_open db) = Answered resp t"
          "begin_fetch (tb_fetch libs) now u (tq_thread call) (tq_turn call) (tq_args call) db ft = Inl s"
        | (local) result where "served_at now ms u (br_id row) call (to_name x) (tool_summary libs x (tq_args call))
            (within timing (to_name x) (tx_open db) result) = Answered resp t"
          "\<And>answer t. result = Inr (answer, t) \<Longrightarrow> keeps_calls db (t_db t)"
      proof (cases "to_name x = FETCH_TOOL")
        case True
        then show ?thesis using assms Some \<open>to_grant x \<in> _\<close> fetch
          by (cases "begin_fetch (tb_fetch libs) now u (tq_thread call) (tq_turn call) (tq_args call) db ft")
            (simp_all add: serve_call_def case_prod_beta')
      next
        case other: False
        show ?thesis
        proof (cases "to_name x = lit ''notify''")
          case True
          show ?thesis
            by (rule local [of "map_sum (\<lambda>e. e) (\<lambda>(_, after). (NOTIFIED, after))
                (serve_notify now u (br_id row) (tq_thread call) (tq_turn call) (tq_call call) (tq_args call) db)"])
              (use assms Some \<open>to_grant x \<in> _\<close> True other in \<open>auto simp: serve_call_def map_sum_def split: sum.splits dest: serve_notify_keeps\<close>)
        next
          case False
          show ?thesis
            by (rule local [of "map_sum (\<lambda>e. e) (\<lambda>(answer, after). (answer, tx_open after))
                (run_tool libs now u (br_id row) x (tq_args call) db)"])
              (use assms Some \<open>to_grant x \<in> _\<close> False other in \<open>auto simp: serve_call_def map_sum_def split: sum.splits dest: run_tool_keeps\<close>)
        qed
      qed
      then show ?thesis
      proof cases
        case fetch
        then show ?thesis using begin_fetch_refused [OF fetch(2)] allowed quiet by (intro answered) auto
      next
        case local
        obtain outcome said after where w: "within timing (to_name x) (tx_open db) result = ((outcome, said), after)"
          by (metis surj_pair)
        have "keeps_calls db (t_db after)" using within_keeps [OF w] local(2) by simp
        then show ?thesis using answered local(1) within_outcome [OF w] allowed unfolding w by blast
      qed
    qed
  qed
qed

section \<open>Grants and the log\<close>

text \<open>C20: a call from a thread of no Bot, and a call of a tool the Bot does not hold the grant for, are
  answered with a failure and change nothing in the database but the log of the Bot's calls, where
  the refusal stands; a call that is let through belongs to a granted tool.\<close>

theorem tools_need_their_grant:
  "case bot_by_thread u (tq_thread call) (g_bots db) of
     None \<Rightarrow> serve_call libs now timing ms u call db ft = Answered \<lparr>rp_success = False, rp_text = NOT_AVAILABLE\<rparr> (tx_open db)
   | Some row \<Rightarrow>
       if allows_tool (grants_from_stored (br_grants row)) (tq_tool call) (tq_namespace call) then True
       else \<exists>name summary said. serve_call libs now timing ms u call db ft =
         Answered \<lparr>rp_success = False, rp_text = said\<rparr>
           (record_in now (entry_of u (br_id row) call name CallRefused summary ms) (tx_open db))"
proof (cases "bot_by_thread u (tq_thread call) (g_bots db)")
  case None
  then show ?thesis by (simp add: serve_call_def response_of_def)
next
  case (Some row)
  show ?thesis
  proof (cases "allows_tool (grants_from_stored (br_grants row)) (tq_tool call) (tq_namespace call)")
    case False
    then show ?thesis using Some
      by (cases "find_tool (tq_tool call) (tq_namespace call)")
        (auto simp: serve_call_def allows_tool_def served_at_def response_of_def)
  qed (simp add: Some)
qed

text \<open>C21: every call of a Bot is logged, exactly once, as the caller's and the Bot's own, and the model is
  answered with success exactly when the log says that it went well; a fetch, which is logged when it
  ends, leaves the database alone until then.\<close>

theorem calls_are_logged_once:
  "case bot_by_thread u (tq_thread call) (g_bots db) of
     None \<Rightarrow> True
   | Some row \<Rightarrow>
       (case serve_call libs now timing ms u call db ft of
          Answered resp t \<Rightarrow> \<exists>outcome. logs_one u (br_id row) outcome db (t_db t) \<and> rp_success resp = (outcome = CallOk)
        | Fetching url i b ft1 \<Rightarrow> b = br_id row
            \<and> (case finish_call now2 ms2 u b call url i result db ft1 of (resp, db', ft2) \<Rightarrow>
                 \<exists>outcome. logs_one u b outcome db db' \<and> rp_success resp = (outcome = CallOk)))"
proof (cases "bot_by_thread u (tq_thread call) (g_bots db)")
  case (Some row)
  note row = bot_by_thread_found [OF Some]
  show ?thesis
  proof (cases "serve_call libs now timing ms u call db ft")
    case (Answered resp t)
    obtain name summary outcome said after where "t = record_in now (entry_of u (br_id row) call name outcome summary ms) after"
        "keeps_calls db (t_db after)" "outcome = CallOk \<longleftrightarrow> rp_success resp"
      by (rule serve_call_cases [OF Some Answered]) blast
    then have "logs_one u (br_id row) outcome db (t_db t) \<and> rp_success resp = (outcome = CallOk)"
      using record_in_logs [OF row] by auto
    then show ?thesis unfolding Some Answered by auto
  next
    case (Fetching url i b ft1)
    then have b: "b = br_id row" using Some
      by (auto simp: serve_call_def Let_def served_at_def split: option.splits if_splits sum.splits prod.splits)
    let ?s = "end_fetch url result"
    have "rp_success (response_of (sv_output ?s)) = (sv_outcome ?s = CallOk)"
      by (simp add: end_fetch_def Let_def response_of_def split: option.split sum.split)
    moreover have "logs_one u b (sv_outcome ?s) db (t_db (record_in now2 (entry_of u b call FETCH_TOOL (sv_outcome ?s) (sv_summary ?s) ms2) (tx_open db)))"
      using record_in_logs [of u b db row "tx_open db"] row b by simp
    ultimately show ?thesis unfolding Some Fetching
      by (simp add: finish_call_def Let_def record_in_def b) blast
  qed
qed simp

section \<open>How often a turn fetches\<close>

text \<open>
  The broker's calls and the ends of its fetches, in any order, with other work on the database
  between them that leaves the recorded fetches; \<open>bk_granted\<close> remembers each fetch that was let
  through. A fetch's end names the calling thread and turn, which the task of the call holds.
\<close>

record broker =
  bk_db :: gateway_db
  bk_fetcher :: fetcher
  bk_granted :: "(user_id \<times> utext \<times> utext) list"

datatype broker_op =
    CallTool timestamp timing nat user_id tool_request
  | EndFetch nat timestamp nat bot_id tool_request web_url "(fetch_failure + fetched) option"
  | OtherWork gateway_db

definition turn_key :: "user_id \<Rightarrow> tool_request \<Rightarrow> user_id \<times> utext \<times> utext" where
  "turn_key u call = (u, tq_thread call, tq_turn call)"

definition recorded_in :: "user_id \<times> utext \<times> utext \<Rightarrow> gateway_db \<Rightarrow> nat" where
  "recorded_in key db = (case key of (u, thread, turn) \<Rightarrow>
     length (filter (\<lambda>c. is_counted u c \<and> tc_thread c = thread \<and> tc_turn c = turn) (g_calls db)))"

definition running_in :: "user_id \<times> utext \<times> utext \<Rightarrow> fetcher \<Rightarrow> nat" where
  "running_in key ft = (case key of (u, thread, turn) \<Rightarrow>
     length (filter (\<lambda>c. cn_user c = u \<and> cn_thread c = thread \<and> cn_turn c = turn) (ft_calls ft)))"

text \<open>A call to end: it is in flight, with that thread and turn, and its Bot is still there.\<close>

definition ending :: "nat \<Rightarrow> bot_id \<Rightarrow> tool_request \<Rightarrow> broker \<Rightarrow> user_id option" where
  "ending i b call s =
     (case find (\<lambda>c. cn_id c = i) (ft_calls (bk_fetcher s)) of
        None \<Rightarrow> None
      | Some c \<Rightarrow>
          if cn_thread c = tq_thread call \<and> cn_turn c = tq_turn call \<and> find_bot (cn_user c) b (g_bots (bk_db s)) \<noteq> None
          then Some (cn_user c) else None)"

definition fetch_rows :: "gateway_db \<Rightarrow> call_row list" where
  "fetch_rows db = filter (\<lambda>c. tc_tool c = FETCH_TOOL) (g_calls db)"

fun broker_do :: "tool_libs \<Rightarrow> broker_op \<Rightarrow> broker \<Rightarrow> broker" where
  "broker_do libs (CallTool now timing ms u call) s =
     (case serve_call libs now timing ms u call (bk_db s) (bk_fetcher s) of
        Answered _ t \<Rightarrow> s\<lparr>bk_db := t_db t\<rparr>
      | Fetching _ _ _ ft \<Rightarrow> s\<lparr>bk_fetcher := ft, bk_granted := turn_key u call # bk_granted s\<rparr>)"
| "broker_do libs (EndFetch i now ms b call url result) s =
     (case ending i b call s of
        None \<Rightarrow> s
      | Some u \<Rightarrow>
          (case finish_call now ms u b call url i result (bk_db s) (bk_fetcher s) of
             (_, db, ft) \<Rightarrow> s\<lparr>bk_db := db, bk_fetcher := ft\<rparr>))"
| "broker_do libs (OtherWork db) s =
     (if take (length (fetch_rows (bk_db s))) (fetch_rows db) = fetch_rows (bk_db s) then s\<lparr>bk_db := db\<rparr> else s)"

definition broker_start :: "gateway_db \<Rightarrow> broker" where
  "broker_start db = \<lparr>bk_db = db, bk_fetcher = fetcher_start, bk_granted = []\<rparr>"

text \<open>The app server's ids of threads and turns are short, and recorded as they are.\<close>

definition short_key :: "user_id \<times> utext \<times> utext \<Rightarrow> bool" where
  "short_key key = (case key of (u, thread, turn) \<Rightarrow> length thread \<le> ID_CHARS \<and> length turn \<le> ID_CHARS)"

definition fetches_ok :: "user_id \<times> utext \<times> utext \<Rightarrow> broker \<Rightarrow> bool" where
  "fetches_ok key s \<longleftrightarrow> count_list (bk_granted s) key \<le> recorded_in key (bk_db s) + running_in key (bk_fetcher s)
     \<and> count_list (bk_granted s) key \<le> FETCHES_PER_TURN
     \<and> distinct (map cn_id (ft_calls (bk_fetcher s))) \<and> list_all (\<lambda>c. cn_id c \<le> ft_next (bk_fetcher s)) (ft_calls (bk_fetcher s))"

lemma recorded_prefix: "take (length (fetch_rows db)) (fetch_rows db') = fetch_rows db \<Longrightarrow> recorded_in key db \<le> recorded_in key db'"
proof -
  assume p: "take (length (fetch_rows db)) (fetch_rows db') = fetch_rows db"
  obtain u thread turn where key: "key = (u, thread, turn)" by (cases key)
  let ?P = "\<lambda>c. is_counted u c \<and> tc_thread c = thread \<and> tc_turn c = turn"
  have as: "recorded_in key d = length (filter ?P (fetch_rows d))" for d
    by (simp add: recorded_in_def fetch_rows_def key is_counted_def conj_commute conj_left_commute)
  obtain extra where "fetch_rows db' = fetch_rows db @ extra" using p by (metis append_take_drop_id)
  then show ?thesis by (simp add: as)
qed

lemma logs_one_grows: "logs_one u b outcome db db' \<Longrightarrow> recorded_in key db \<le> recorded_in key db'"
proof -
  assume "logs_one u b outcome db db'"
  then obtain c where "g_calls db' = g_calls db @ [c]"
    by (auto simp: logs_one_def split: list.splits) (metis append_take_drop_id)
  then show ?thesis by (simp add: recorded_in_def split: prod.split)
qed

lemma answered_grows: "serve_call libs now timing ms u call db ft = Answered resp t \<Longrightarrow> recorded_in key db \<le> recorded_in key (t_db t)"
proof (cases "bot_by_thread u (tq_thread call) (g_bots db)")
  case None
  moreover assume "serve_call libs now timing ms u call db ft = Answered resp t"
  ultimately show ?thesis by (auto simp: serve_call_def)
next
  case (Some row)
  assume a: "serve_call libs now timing ms u call db ft = Answered resp t"
  obtain name summary outcome said after where "t = record_in now (entry_of u (br_id row) call name outcome summary ms) after"
      "keeps_calls db (t_db after)"
    by (rule serve_call_cases [OF Some a]) blast
  then show ?thesis using record_in_logs [OF bot_by_thread_found [OF Some]] logs_one_grows by blast
qed

lemma fetching_reserves:
  "serve_call libs now timing ms u call db ft = Fetching url i b ft1 \<Longrightarrow>
    reserve_fetch now u (tq_thread call) (tq_turn call) db ft = Inr (i, ft1)"
  by (auto simp: serve_call_def Let_def served_at_def begin_fetch_def split: option.splits if_splits sum.splits prod.splits)

lemma reserve_fetches_ok:
  assumes "fetches_ok key s" "reserve_fetch now u (tq_thread call) (tq_turn call) (bk_db s) (bk_fetcher s) = Inr (i, ft1)"
  shows "fetches_ok key (s\<lparr>bk_fetcher := ft1, bk_granted := turn_key u call # bk_granted s\<rparr>)"
proof -
  have ft1: "ft1 = \<lparr>ft_next = ft_next (bk_fetcher s) + 1, ft_calls = ft_calls (bk_fetcher s)
      @ [\<lparr>cn_id = ft_next (bk_fetcher s) + 1, cn_user = u, cn_thread = tq_thread call, cn_turn = tq_turn call\<rparr>]\<rparr>"
    and room: "recorded_in (turn_key u call) (bk_db s) + running_in (turn_key u call) (bk_fetcher s) < FETCHES_PER_TURN"
    using assms(2) by (auto simp: reserve_fetch_def count_fetches_def recorded_in_def running_in_def turn_key_def Let_def split: if_splits)
  have "running_in key ft1 = running_in key (bk_fetcher s) + (if key = turn_key u call then 1 else 0)"
    by (auto simp: ft1 running_in_def turn_key_def split: prod.splits)
  moreover have "ft_next (bk_fetcher s) + 1 \<notin> set (map cn_id (ft_calls (bk_fetcher s)))"
    using assms(1) by (auto simp: fetches_ok_def list_all_iff)
  moreover have "list_all (\<lambda>c. cn_id c \<le> ft_next (bk_fetcher s) + 1) (ft_calls (bk_fetcher s))"
    using assms(1) by (auto simp: fetches_ok_def list_all_iff)
  ultimately show ?thesis using assms(1) room by (auto simp: fetches_ok_def ft1)
qed

lemma running_release:
  assumes "distinct (map cn_id cs)" "find (\<lambda>c. cn_id c = i) cs = Some c"
  shows "length (filter P cs) = length (filter P (filter (\<lambda>c. cn_id c \<noteq> i) cs)) + (if P c then 1 else 0)"
  using assms
proof (induction cs)
  case (Cons d cs)
  show ?case
  proof (cases "cn_id d = i")
    case True
    then have "filter (\<lambda>c. cn_id c \<noteq> i) cs = cs" using Cons(2) by (auto simp: filter_id_conv intro: rev_image_eqI)
    then show ?thesis using True Cons(3) by simp
  qed (use Cons in auto)
qed simp

lemma end_fetches_ok:
  assumes ok: "fetches_ok key s" and short: "short_key key" and e: "ending i b call s = Some u"
    and f: "finish_call now ms u b call url i result (bk_db s) (bk_fetcher s) = (resp, db, ft)"
  shows "fetches_ok key (s\<lparr>bk_db := db, bk_fetcher := ft\<rparr>)"
proof -
  let ?s = "end_fetch url result" and ?fs = "bk_fetcher s"
  let ?e = "entry_of u b call FETCH_TOOL (sv_outcome ?s) (sv_summary ?s) ms"
  obtain c r where c: "find (\<lambda>c. cn_id c = i) (ft_calls ?fs) = Some c" "cn_thread c = tq_thread call" "cn_turn c = tq_turn call"
      "cn_user c = u" "find_bot u b (g_bots (bk_db s)) = Some r"
    using e by (auto simp: ending_def split: option.splits if_splits)
  obtain row where row: "record_call now ?e (bk_db s) = (bk_db s)\<lparr>g_calls := g_calls (bk_db s) @ [row]\<rparr>" "tc_user row = u"
      "tc_outcome row = outcome_name (sv_outcome ?s)" "tc_thread row = bounded (tq_thread call) ID_CHARS"
      "tc_turn row = bounded (tq_turn call) ID_CHARS" "tc_tool row = bounded FETCH_TOOL ID_CHARS"
    using record_call_row [of ?e "bk_db s" r now] c(5) by (auto simp: entry_of_def)
  have counted: "is_counted u row"
  proof -
    have "sv_outcome ?s \<noteq> CallRefused" by (simp add: end_fetch_def Let_def split: option.split sum.split)
    then have "outcome_name (sv_outcome ?s) \<noteq> outcome_name CallRefused" using outcome_names by metis
    moreover have "bounded FETCH_TOOL ID_CHARS = FETCH_TOOL" by (simp add: bounded_def FETCH_TOOL_def ID_CHARS_def)
    ultimately show ?thesis using row by (simp add: is_counted_def)
  qed
  have db: "db = (bk_db s)\<lparr>g_calls := g_calls (bk_db s) @ [row]\<rparr>" and ft: "ft = release_fetch i ?fs"
    using f row(1) by (simp_all add: finish_call_def Let_def)
  have dist: "distinct (map cn_id (ft_calls ?fs))" using ok by (simp add: fetches_ok_def)
  have "running_in key ?fs = running_in key ft + (if key = turn_key u call then 1 else 0)"
  proof -
    obtain v thread turn where key: "key = (v, thread, turn)" by (cases key)
    show ?thesis
      using running_release [OF dist c(1), of "\<lambda>c. cn_user c = v \<and> cn_thread c = thread \<and> cn_turn c = turn"] c(2-4)
      by (simp add: key running_in_def ft release_fetch_def turn_key_def eq_commute)
  qed
  moreover have "recorded_in key (bk_db s) + (if key = turn_key u call then 1 else 0) \<le> recorded_in key db"
  proof (cases "key = turn_key u call")
    case True
    then have "tc_thread row = tq_thread call" "tc_turn row = tq_turn call"
      using short row(4,5) by (simp_all add: short_key_def turn_key_def bounded_def)
    then show ?thesis using True counted by (simp add: recorded_in_def turn_key_def db)
  next
    case False
    then show ?thesis by (simp add: recorded_in_def db split: prod.split)
  qed
  moreover have "distinct (map cn_id (ft_calls ft))" "list_all (\<lambda>c. cn_id c \<le> ft_next ft) (ft_calls ft)"
    using ok by (auto simp: fetches_ok_def ft release_fetch_def distinct_map_filter list_all_iff)
  ultimately show ?thesis using ok by (auto simp: fetches_ok_def)
qed

lemma broker_do_fetches_ok: "fetches_ok key s \<Longrightarrow> short_key key \<Longrightarrow> fetches_ok key (broker_do libs x s)"
proof (cases x)
  case (CallTool now timing ms u call)
  assume ok: "fetches_ok key s"
  show ?thesis
  proof (cases "serve_call libs now timing ms u call (bk_db s) (bk_fetcher s)")
    case (Answered resp t)
    then show ?thesis using ok answered_grows [OF Answered, of key] CallTool by (simp add: fetches_ok_def)
  next
    case (Fetching url i b ft)
    then show ?thesis using reserve_fetches_ok [OF ok fetching_reserves [OF Fetching]] CallTool by simp
  qed
next
  case (EndFetch i now ms b call url result)
  assume ok: "fetches_ok key s" and short: "short_key key"
  show ?thesis
  proof (cases "ending i b call s")
    case (Some u)
    obtain resp db ft where f: "finish_call now ms u b call url i result (bk_db s) (bk_fetcher s) = (resp, db, ft)" by (metis surj_pair)
    show ?thesis using end_fetches_ok [OF ok short Some f] EndFetch Some f by simp
  qed (use ok EndFetch in simp)
next
  case (OtherWork db)
  assume ok: "fetches_ok key s"
  show ?thesis using ok recorded_prefix [of "bk_db s" db key] OtherWork by (auto simp: fetches_ok_def)
qed

text \<open>C22: however the calls of its turns and the ends of their fetches interleave, no turn is let through
  more than 60 fetches.\<close>

theorem fetches_are_limited:
  "let s = fold (broker_do libs) ops (broker_start db)
   in if length thread \<le> ID_CHARS \<and> length turn \<le> ID_CHARS
      then count_list (bk_granted s) (u, thread, turn) \<le> FETCHES_PER_TURN else True"
proof -
  have "fetches_ok key (fold (broker_do libs) ops s)" if "fetches_ok key s" "short_key key" for key s
    using that by (induction ops arbitrary: s) (auto simp: broker_do_fetches_ok)
  moreover have "fetches_ok key (broker_start db)" for key
    by (simp add: fetches_ok_def broker_start_def fetcher_start_def)
  ultimately show ?thesis by (auto simp: Let_def fetches_ok_def short_key_def)
qed

end
