(* ===== verification/Conversations.thy ===== *)
theory Conversations
  imports BotPrompts Routines ToolBroker "HOL-Library.AList"
begin

text \<open>
  The state of the conversation service (\<open>crates/bokkie-gateway/src/bots/service.rs\<close>) and its
  router of app-server events. A batch is a transaction on the database with the events it
  announces; \<open>cv_log\<close> keeps them in the order of their commits, each with its user. Hash maps
  are association lists. What the service spawns, to run on its own, waits in \<open>cv_tasks\<close>. Each
  handler is one step, with one reading of the clock.
\<close>

section \<open>Live state\<close>

record active_turn =
  an_user :: user_id
  an_thread :: utext
  an_turn :: utext

record reply =
  ry_user :: user_id
  ry_bot :: bot_id
  ry_turn :: utext
  ry_message :: message_id
  ry_pending :: utext
  ry_written :: nat

type_synonym reply_key = "user_id \<times> utext \<times> utext"

record live =
  lv_turns :: "(bot_id \<times> active_turn) list"
  lv_replies :: "(reply_key \<times> reply) list"
  lv_finished :: "utext list"
  lv_token_stops :: "(user_id \<times> utext) set"
  lv_ended :: "(user_id \<times> utext \<times> turn_status) list"
  lv_searches :: "(user_id \<times> utext \<times> utext \<times> nat) list"
  lv_steered :: "((user_id \<times> utext) \<times> message_id list) list"
  lv_owed :: "(bot_id \<times> message_id list) list"
  lv_idled :: "(bot_id \<times> nat) list"

definition no_live :: live where
  "no_live = \<lparr>lv_turns = [], lv_replies = [], lv_finished = [], lv_token_stops = {}, lv_ended = [], lv_searches = [],
     lv_steered = [], lv_owed = [], lv_idled = []\<rparr>"

definition FINISHED_KEPT :: nat where
  "FINISHED_KEPT = 256"

text \<open>A queue of the latest: when full, the oldest goes.\<close>

definition push_kept :: "'a \<Rightarrow> 'a list \<Rightarrow> 'a list" where
  "push_kept x q = (if length q = FINISHED_KEPT then tl q else q) @ [x]"

definition turn_finished :: "utext \<Rightarrow> live \<Rightarrow> live" where
  "turn_finished turn lv = lv\<lparr>lv_finished := push_kept turn (lv_finished lv)\<rparr>"

definition turn_ended :: "user_id \<Rightarrow> utext \<Rightarrow> turn_status \<Rightarrow> live \<Rightarrow> live" where
  "turn_ended u turn status lv = lv\<lparr>lv_ended := push_kept (u, turn, status) (lv_ended lv)\<rparr>"

definition search_started :: "nat \<Rightarrow> user_id \<Rightarrow> utext \<Rightarrow> utext \<Rightarrow> live \<Rightarrow> live" where
  "search_started instant u thread item lv = lv\<lparr>lv_searches := push_kept (u, thread, item, instant) (lv_searches lv)\<rparr>"

definition replying :: "user_id \<Rightarrow> utext \<Rightarrow> live \<Rightarrow> live" where
  "replying u turn lv = lv\<lparr>lv_steered := AList.delete (u, turn) (lv_steered lv)\<rparr>"

fun remove_first :: "('a \<Rightarrow> bool) \<Rightarrow> 'a list \<Rightarrow> 'a list" where
  "remove_first P [] = []"
| "remove_first P (x # xs) = (if P x then xs else x # remove_first P xs)"

definition search_ended :: "nat \<Rightarrow> user_id \<Rightarrow> utext \<Rightarrow> utext \<Rightarrow> live \<Rightarrow> nat \<times> live" where
  "search_ended instant u thread item lv =
     (let is_it = (\<lambda>(v, t, i, _). v = u \<and> t = thread \<and> i = item) in
      case find is_it (lv_searches lv) of
        None \<Rightarrow> (0, lv)
      | Some (_, _, _, started) \<Rightarrow> (instant - started, lv\<lparr>lv_searches := remove_first is_it (lv_searches lv)\<rparr>))"

text \<open>How a turn of the user's that recently finished ended.\<close>

definition turn_end :: "user_id \<Rightarrow> utext \<Rightarrow> live \<Rightarrow> turn_status option" where
  "turn_end u turn lv = map_option (\<lambda>(_, _, status). status) (find (\<lambda>(v, t, _). v = u \<and> t = turn) (lv_ended lv))"

definition is_working :: "bot_id \<Rightarrow> live \<Rightarrow> bool" where
  "is_working b lv \<longleftrightarrow> map_of (lv_turns lv) b \<noteq> None \<or> map_of (lv_owed lv) b \<noteq> None"

definition idle_count :: "bot_id \<Rightarrow> live \<Rightarrow> nat" where
  "idle_count b lv = (case map_of (lv_idled lv) b of None \<Rightarrow> 0 | Some n \<Rightarrow> n)"

definition count_idle :: "bot_id \<Rightarrow> live \<Rightarrow> live" where
  "count_idle b lv = lv\<lparr>lv_idled := AList.update b (idle_count b lv + 1) (lv_idled lv)\<rparr>"

section \<open>The service\<close>

datatype task =
    AnswerOwed user_id bot_id
  | InterruptTurn user_id utext utext
  | ServeTool user_id tool_request

record conversations =
  cv_db :: gateway_db
  cv_log :: "(user_id \<times> event) list"
  cv_live :: live
  cv_subscription :: subscription_cache
  cv_tasks :: "task list"
  cv_wakes :: bool

definition with_live :: "(live \<Rightarrow> live) \<Rightarrow> conversations \<Rightarrow> conversations" where
  "with_live f s = s\<lparr>cv_live := f (cv_live s)\<rparr>"

definition spawn :: "task \<Rightarrow> conversations \<Rightarrow> conversations" where
  "spawn k s = s\<lparr>cv_tasks := cv_tasks s @ [k]\<rparr>"

definition commit_batch :: "user_id \<Rightarrow> tx \<Rightarrow> conversations \<Rightarrow> conversations" where
  "commit_batch u t s = s\<lparr>cv_db := t_db t, cv_log := cv_log s @ map (Pair u) (t_events t), cv_wakes := cv_wakes s \<or> t_wakes t\<rparr>"

definition batch_of :: "conversations \<Rightarrow> tx" where
  "batch_of s = tx_open (cv_db s)"

definition emit_alone :: "user_id \<Rightarrow> event \<Rightarrow> conversations \<Rightarrow> conversations" where
  "emit_alone u ev s = commit_batch u (emit ev (batch_of s)) s"

definition turned_idle :: "bot_id \<Rightarrow> conversations \<Rightarrow> conversations" where
  "turned_idle b = with_live (count_idle b)"

section \<open>Allowances\<close>

text \<open>The usage tables of the database, and writing them back.\<close>

definition usage_view :: "gateway_db \<Rightarrow> usage_db" where
  "usage_view db =
     \<lparr>ud_bots = map (\<lambda>r. (br_id r, br_user r)) (bd_bots (g_bots db)), ud_turns = g_turns db, ud_tokens = g_tokens db,
      ud_threads = map (\<lambda>(u, t, b). \<lparr>th_user_id = u, th_thread_id = t, th_bot_id = b, th_tokens_reported = g_reported db u t\<rparr>)
        (bd_threads (g_bots db))\<rparr>"

definition with_usage :: "usage_db \<Rightarrow> gateway_db \<Rightarrow> gateway_db" where
  "with_usage ud db = db\<lparr>g_turns := ud_turns ud, g_tokens := ud_tokens ud,
     g_reported := (\<lambda>u t. case find (\<lambda>r. th_user_id r = u \<and> th_thread_id r = t) (ud_threads ud) of
       None \<Rightarrow> g_reported db u t | Some r \<Rightarrow> th_tokens_reported r)\<rparr>"

definition on_usage :: "(usage_db \<Rightarrow> usage_db) \<Rightarrow> tx \<Rightarrow> tx" where
  "on_usage f t = t\<lparr>t_db := with_usage (f (usage_view (t_db t))) (t_db t)\<rparr>"

definition allowance_now :: "timestamp \<Rightarrow> user_id \<Rightarrow> gateway_db \<Rightarrow> allowance" where
  "allowance_now now u db = allowance_of now u (limits_of (g_accounts db) u) (usage_view db)"

definition tokens_used_up :: "allowance \<Rightarrow> bool" where
  "tokens_used_up a \<longleftrightarrow> (case weekly_tokens (al_limits a) of None \<Rightarrow> False | Some limit \<Rightarrow> al_tokens_this_week a \<ge> limit)"

definition emit_usage :: "timestamp \<Rightarrow> user_id \<Rightarrow> subscription_cache \<Rightarrow> tx \<Rightarrow> allowance \<times> tx" where
  "emit_usage now u c t =
     (let a = allowance_now now u (t_db t);
          subscription = (case cache_get c u of None \<Rightarrow> [] | Some bs \<Rightarrow> bs)
      in (a, emit (UsageUpdated (usage_of subscription a)) t))"

definition usage_changed :: "timestamp \<Rightarrow> user_id \<Rightarrow> conversations \<Rightarrow> conversations" where
  "usage_changed now u s = commit_batch u (snd (emit_usage now u (cv_subscription s) (batch_of s))) s"

text \<open>A turn is counted in one transaction with the check that one is left.\<close>

definition reserve :: "timestamp \<Rightarrow> user_id \<Rightarrow> bot_id \<Rightarrow> conversations \<Rightarrow> failure + int option \<times> conversations" where
  "reserve now u b s =
     and_then (reserve_turn now u b (g_accounts (cv_db s)) (usage_view (cv_db s))) (\<lambda>(turn, ud).
       case turn of
         None \<Rightarrow> Inr (None, s)
       | Some i \<Rightarrow>
           Inr (Some i, commit_batch u (snd (emit_usage now u (cv_subscription s) (on_usage (\<lambda>_. ud) (batch_of s)))) s))"

definition release :: "timestamp \<Rightarrow> user_id \<Rightarrow> int \<Rightarrow> conversations \<Rightarrow> conversations" where
  "release now u turn s =
     commit_batch u (snd (emit_usage now u (cv_subscription s) (on_usage (release_turn u turn) (batch_of s)))) s"

text \<open>Once the token allowance is used up, each running turn of the user is interrupted, once.\<close>

fun to_stop :: "user_id \<Rightarrow> (user_id \<times> utext) set \<Rightarrow> active_turn list \<Rightarrow> active_turn list \<times> (user_id \<times> utext) set" where
  "to_stop u stops [] = ([], stops)"
| "to_stop u stops (a # as) =
     (if an_user a = u \<and> (u, an_turn a) \<notin> stops
      then (case to_stop u (insert (u, an_turn a) stops) as of (rest, final) \<Rightarrow> (a # rest, final))
      else to_stop u stops as)"

definition stop_for_tokens :: "user_id \<Rightarrow> conversations \<Rightarrow> conversations" where
  "stop_for_tokens u s =
     (case to_stop u (lv_token_stops (cv_live s)) (map snd (lv_turns (cv_live s))) of (running, stops) \<Rightarrow>
        fold (\<lambda>a. spawn (InterruptTurn u (an_thread a) (an_turn a))) running
          (with_live (\<lambda>lv. lv\<lparr>lv_token_stops := stops\<rparr>) s))"

section \<open>Status\<close>

definition emit_status :: "user_id \<Rightarrow> bot_id \<Rightarrow> live \<Rightarrow> tx \<Rightarrow> tx" where
  "emit_status u b lv t =
     (case find_bot u b (g_bots (t_db t)) of
        None \<Rightarrow> t
      | Some r \<Rightarrow> emit (BotStatusChanged b (b_status (to_api r (is_working b lv) default_activity))) t)"

definition announce_status :: "user_id \<Rightarrow> bot_id \<Rightarrow> conversations \<Rightarrow> conversations" where
  "announce_status u b s = commit_batch u (emit_status u b (cv_live s) (batch_of s)) s"

definition announce_working :: "user_id \<Rightarrow> bot_id \<Rightarrow> conversations \<Rightarrow> conversations" where
  "announce_working u b s = (if is_working b (cv_live s) then announce_status u b s else s)"

section \<open>Streamed text\<close>

definition write_out :: "timestamp \<Rightarrow> reply \<Rightarrow> conversations \<Rightarrow> conversations" where
  "write_out now r s = commit_batch (ry_user r)
     (emit (MessageDelta (ry_bot r) (ry_message r) (ry_written r) (ry_pending r))
       (on_bots (append_text now (ry_user r) (ry_message r) (ry_pending r)) (batch_of s))) s"

definition taken_out :: "reply \<Rightarrow> reply" where
  "taken_out r = r\<lparr>ry_pending := [], ry_written := ry_written r + length (ry_pending r)\<rparr>"

definition flush :: "timestamp \<Rightarrow> conversations \<Rightarrow> conversations" where
  "flush now s =
     (let replies = lv_replies (cv_live s) in
      fold (\<lambda>(_, r). write_out now r) (filter (\<lambda>(_, r). ry_pending r \<noteq> []) replies)
        (with_live (\<lambda>lv. lv\<lparr>lv_replies := map (\<lambda>(k, r). (k, taken_out r)) replies\<rparr>) s))"

text \<open>A Bot reply begins.\<close>

definition reply_row :: "bot_id \<Rightarrow> utext \<Rightarrow> utext \<Rightarrow> utext \<Rightarrow> new_message" where
  "reply_row b turn item text = \<lparr>nm_bot = b, nm_author = AuthorBot, nm_text = text, nm_state = Streaming,
     nm_turn = Some (turn, item), nm_kind = TextMessage, nm_routine = None, nm_notification = None\<rparr>"

definition start_reply :: "timestamp \<Rightarrow> user_id \<Rightarrow> utext \<Rightarrow> utext \<Rightarrow> utext \<Rightarrow> utext \<Rightarrow> conversations \<Rightarrow> conversations" where
  "start_reply now u thread turn item text s0 =
     (let s = with_live (replying u turn) s0 in
      case bot_by_thread u thread (g_bots (cv_db s)) of
        None \<Rightarrow> s
      | Some r \<Rightarrow>
          if map_of (lv_replies (cv_live s)) (u, thread, item) \<noteq> None then s
          else
            (case insert_message now u (reply_row (br_id r) turn item text) (g_bots (cv_db s)) of
               Inl _ \<Rightarrow> s
             | Inr (m, bots) \<Rightarrow>
                 with_live (\<lambda>lv.
                   let turns = (if is_current r thread \<and> turn \<notin> set (lv_finished lv) \<and> map_of (lv_turns lv) (br_id r) = None
                     then AList.update (br_id r) \<lparr>an_user = u, an_thread = thread, an_turn = turn\<rparr> (lv_turns lv) else lv_turns lv)
                   in lv\<lparr>lv_turns := turns, lv_replies := AList.update (u, thread, item)
                     \<lparr>ry_user = u, ry_bot = br_id r, ry_turn = turn, ry_message = m_id m, ry_pending = [],
                      ry_written = length text\<rparr> (lv_replies lv)\<rparr>)
                 (commit_batch u (emit (MessageCreated m) (on_bots (\<lambda>_. bots) (batch_of s))) s)))"

text \<open>The streaming messages of the user, of a Bot or of one of its turns end, in a batch the caller goes on with.\<close>

definition finish_one :: "timestamp \<Rightarrow> user_id \<Rightarrow> utext option \<Rightarrow> message_state \<Rightarrow> message_id \<Rightarrow> tx \<Rightarrow> tx" where
  "finish_one now u text state i t =
     (case finish_message now u i text state (g_bots (t_db t)) of
        (found, bots) \<Rightarrow>
          let t1 = on_bots (\<lambda>_. bots) t in case found of None \<Rightarrow> t1 | Some m \<Rightarrow> emit (MessageCompleted m) t1)"

definition reply_ends :: "user_id \<Rightarrow> bot_id option \<Rightarrow> utext option \<Rightarrow> reply_key \<times> reply \<Rightarrow> bool" where
  "reply_ends u b turn kr = (case kr of ((owner, _, _), r) \<Rightarrow>
     owner = u \<and> (b = None \<or> b = Some (ry_bot r)) \<and> (turn = None \<or> turn = Some (ry_turn r)))"

definition finish_streaming ::
  "timestamp \<Rightarrow> user_id \<Rightarrow> bot_id option \<Rightarrow> utext option \<Rightarrow> message_state \<Rightarrow> conversations \<Rightarrow> conversations \<times> tx" where
  "finish_streaming now u b turn state s0 =
     (let s = with_live (\<lambda>lv. lv\<lparr>lv_replies := filter (\<lambda>kr. \<not> reply_ends u b turn kr) (lv_replies lv)\<rparr>) (flush now s0);
          t = batch_of s
      in (s, fold (finish_one now u None state) (streaming_messages u b turn (g_bots (t_db t))) t))"

text \<open>At start-up: replies a previous run of the gateway left streaming have failed.\<close>

definition recover_replies :: "timestamp \<Rightarrow> conversations \<Rightarrow> conversations" where
  "recover_replies now s =
     fold (\<lambda>(i, u) s. commit_batch u (finish_one now u None Failed i (batch_of s)) s)
       (map (\<lambda>m. (ms_id m, ms_user_id m)) (filter (\<lambda>m. ms_state m = lit ''streaming'') (bd_messages (g_bots (cv_db s))))) s"

section \<open>Events of the app server\<close>

datatype thread_item =
    UserItem "utext option"
  | AgentItem utext utext
  | SearchItem utext
  | OtherItem

datatype runtime_event =
    TurnStartedEvent utext utext
  | ItemStartedEvent utext utext thread_item
  | DeltaEvent utext utext utext utext
  | ItemCompletedEvent utext utext thread_item
  | TurnCompletedEvent utext utext turn_status
  | TokensEvent utext utext int
  | RateLimitsEvent snapshot
  | ErrorEvent utext utext bool
  | OtherEvent
  | RefusedEvent utext utext
  | SearchEvent utext utext utext utext "search_action option" bool
  | ToolCallEvent tool_request
  | ExitedEvent

definition REFUSED_TEXT :: utext where
  "REFUSED_TEXT = lit ''This Bot is unavailable because a safety check failed. An admin has been told''"

definition ALLOWANCE_STOPPED :: utext where
  "ALLOWANCE_STOPPED = lit ''Your token allowance is used up, so this turn was stopped''"

definition RUNTIME_STOPPED :: utext where
  "RUNTIME_STOPPED = lit ''The Bots' runtime stopped during the run''"

definition owe :: "bot_id \<Rightarrow> message_id list \<Rightarrow> live \<Rightarrow> live" where
  "owe b ms lv = lv\<lparr>lv_owed := AList.update b ((case map_of (lv_owed lv) b of None \<Rightarrow> [] | Some old \<Rightarrow> old) @ ms) (lv_owed lv)\<rparr>"

definition turn_started :: "user_id \<Rightarrow> utext \<Rightarrow> utext \<Rightarrow> conversations \<Rightarrow> conversations" where
  "turn_started u thread turn s =
     (case bot_by_thread u thread (g_bots (cv_db s)) of
        None \<Rightarrow> s
      | Some r \<Rightarrow>
          if \<not> is_current r thread then s
          else
            let was_idle = (map_of (lv_turns (cv_live s)) (br_id r) = None);
                s1 = with_live (\<lambda>lv. lv\<lparr>lv_turns := AList.update (br_id r)
                  \<lparr>an_user = u, an_thread = thread, an_turn = turn\<rparr> (lv_turns lv)\<rparr>) s
            in if was_idle then announce_status u (br_id r) s1 else s1)"

definition item_started :: "timestamp \<Rightarrow> nat \<Rightarrow> user_id \<Rightarrow> utext \<Rightarrow> utext \<Rightarrow> thread_item \<Rightarrow> conversations \<Rightarrow> conversations" where
  "item_started now instant u thread turn item s =
     (case item of
        UserItem (Some client) \<Rightarrow>
          (case steered_message client of
             None \<Rightarrow> s
           | Some m \<Rightarrow> with_live (\<lambda>lv. lv\<lparr>lv_steered := AList.update (u, turn)
               ((case map_of (lv_steered lv) (u, turn) of None \<Rightarrow> [] | Some old \<Rightarrow> old) @ [m]) (lv_steered lv)\<rparr>) s)
      | AgentItem i text \<Rightarrow> start_reply now u thread turn i text s
      | SearchItem i \<Rightarrow> with_live (search_started instant u thread i) s
      | _ \<Rightarrow> s)"

definition message_delta :: "timestamp \<Rightarrow> user_id \<Rightarrow> utext \<Rightarrow> utext \<Rightarrow> utext \<Rightarrow> utext \<Rightarrow> conversations \<Rightarrow> conversations" where
  "message_delta now u thread turn item delta s =
     (let known = (map_of (lv_replies (cv_live s)) (u, thread, item) \<noteq> None);
          s1 = (if known then s else start_reply now u thread turn item [] s)
      in case map_of (lv_replies (cv_live s1)) (u, thread, item) of
           None \<Rightarrow> s1
         | Some r \<Rightarrow> with_live (\<lambda>lv. lv\<lparr>lv_replies := AList.update (u, thread, item)
             (r\<lparr>ry_pending := ry_pending r @ delta\<rparr>) (lv_replies lv)\<rparr>) s1)"

definition item_completed :: "timestamp \<Rightarrow> user_id \<Rightarrow> utext \<Rightarrow> thread_item \<Rightarrow> conversations \<Rightarrow> conversations" where
  "item_completed now u thread item s =
     (case item of
        AgentItem i text \<Rightarrow>
          (case map_of (lv_replies (cv_live s)) (u, thread, i) of
             None \<Rightarrow> s
           | Some r \<Rightarrow>
               let s1 = with_live (\<lambda>lv. lv\<lparr>lv_replies := AList.delete (u, thread, i) (lv_replies lv)\<rparr>) s
               in commit_batch u (finish_one now u (Some text) Complete (ry_message r) (batch_of s1)) s1)
      | _ \<Rightarrow> s)"

fun final_state :: "turn_status \<Rightarrow> message_state" where
  "final_state TurnCompleted = Complete"
| "final_state TurnInProgress = Complete"
| "final_state TurnInterrupted = Interrupted"
| "final_state TurnFailed = Failed"

text \<open>
  What a turn's end leaves in the live state: whether it was the Bot's running turn, whether it was
  stopped for tokens, and whether steered messages are owed a turn.
\<close>

definition settle_turn :: "user_id \<Rightarrow> bot_id \<Rightarrow> utext \<Rightarrow> turn_status \<Rightarrow> live \<Rightarrow> (bool \<times> bool \<times> bool) \<times> live" where
  "settle_turn u b turn status lv =
     (let lv1 = turn_ended u turn status (turn_finished turn lv);
          stopped = ((u, turn) \<in> lv_token_stops lv1);
          unanswered = (case map_of (lv_steered lv1) (u, turn) of None \<Rightarrow> [] | Some ms \<Rightarrow> ms);
          lv2 = lv1\<lparr>lv_token_stops := lv_token_stops lv1 - {(u, turn)}, lv_steered := AList.delete (u, turn) (lv_steered lv1)\<rparr>;
          owing = (status = TurnCompleted \<and> unanswered \<noteq> []);
          lv3 = (if owing then owe b unanswered lv2 else lv2);
          current = (case map_of (lv_turns lv3) b of None \<Rightarrow> False | Some a \<Rightarrow> an_turn a = turn);
          lv4 = (if current then lv3\<lparr>lv_turns := AList.delete b (lv_turns lv3)\<rparr> else lv3)
      in ((current, stopped, owing), lv4))"

definition turn_completed :: "timestamp \<Rightarrow> user_id \<Rightarrow> utext \<Rightarrow> utext \<Rightarrow> turn_status \<Rightarrow> conversations \<Rightarrow> conversations" where
  "turn_completed now u thread turn status s =
     (case bot_by_thread u thread (g_bots (cv_db s)) of
        None \<Rightarrow> s
      | Some r \<Rightarrow>
          let b = br_id r; ((ended, stopped, owing), lv) = settle_turn u b turn status (cv_live s);
              (s1, t) = finish_streaming now u (Some b) (Some turn) (final_state status) (with_live (\<lambda>_. lv) s);
              t1 = (if stopped \<and> status = TurnInterrupted then emit (BotError b ALLOWANCE_STOPPED) t else t);
              t2 = (if ended then emit_status u b (cv_live s1) t1 else t1)
          in case end_turn now u turn status stopped t2 of
               Inl _ \<Rightarrow> s1
             | Inr t3 \<Rightarrow>
                 let s2 = commit_batch u t3 s1
                 in if owing then spawn (AnswerOwed u b) s2 else if ended then turned_idle b s2 else s2)"

definition tokens_updated :: "timestamp \<Rightarrow> user_id \<Rightarrow> utext \<Rightarrow> utext \<Rightarrow> int \<Rightarrow> conversations \<Rightarrow> conversations" where
  "tokens_updated now u thread turn tokens s =
     (case bot_by_thread u thread (g_bots (cv_db s)) of
        None \<Rightarrow> s
      | Some r \<Rightarrow>
          (case record_turn_tokens now u (br_id r) thread (Some turn) (nat tokens) (usage_view (cv_db s)) of
             Inl _ \<Rightarrow> s
           | Inr (_, ud) \<Rightarrow>
               let (a, t) = emit_usage now u (cv_subscription s) (on_usage (\<lambda>_. ud) (batch_of s));
                   s1 = commit_batch u t s
               in if tokens_used_up a then stop_for_tokens u s1 else s1))"

definition rate_limits_updated :: "timestamp \<Rightarrow> user_id \<Rightarrow> snapshot \<Rightarrow> conversations \<Rightarrow> conversations" where
  "rate_limits_updated now u snap s =
     usage_changed now u (s\<lparr>cv_subscription := snd (cache_update (cv_subscription s) u snap)\<rparr>)"

definition turn_error :: "user_id \<Rightarrow> utext \<Rightarrow> utext \<Rightarrow> bool \<Rightarrow> conversations \<Rightarrow> conversations" where
  "turn_error u thread message will_retry s =
     (if will_retry then s
      else case bot_by_thread u thread (g_bots (cv_db s)) of
          None \<Rightarrow> s
        | Some r \<Rightarrow> emit_alone u (BotError (br_id r) (take 300 message)) s)"

definition forget_turn :: "user_id \<Rightarrow> bot_id \<Rightarrow> live \<Rightarrow> live" where
  "forget_turn u b lv0 =
     (let lv = lv0\<lparr>lv_owed := AList.delete b (lv_owed lv0)\<rparr> in
      case map_of (lv_turns lv) b of
        None \<Rightarrow> lv
      | Some a \<Rightarrow> lv\<lparr>lv_turns := AList.delete b (lv_turns lv), lv_steered := AList.delete (u, an_turn a) (lv_steered lv),
          lv_token_stops := lv_token_stops lv - {(u, an_turn a)}\<rparr>)"

definition thread_refused :: "timestamp \<Rightarrow> user_id \<Rightarrow> utext \<Rightarrow> utext \<Rightarrow> conversations \<Rightarrow> conversations" where
  "thread_refused now u thread reason s =
     (case bot_by_thread u thread (g_bots (cv_db s)) of
        None \<Rightarrow> s
      | Some r \<Rightarrow>
          let b = br_id r;
              (s1, t) = finish_streaming now u (Some b) None Failed (with_live (forget_turn u b) s);
              t1 = emit_status u b (cv_live s1) (on_bots (set_refused now u b reason) t)
          in case end_running now u (Some b) RunFailed REFUSED_TEXT t1 of
               Inl _ \<Rightarrow> s1
             | Inr t2 \<Rightarrow> turned_idle b (commit_batch u t2 s1))"

definition search_completed ::
  "(utext \<Rightarrow> utext) \<Rightarrow> timestamp \<Rightarrow> nat \<Rightarrow> user_id \<Rightarrow> utext \<Rightarrow> utext \<Rightarrow> utext \<Rightarrow> utext \<Rightarrow> search_action option \<Rightarrow> bool
   \<Rightarrow> conversations \<Rightarrow> conversations" where
  "search_completed quoted now instant u thread turn item query action granted s =
     (let (ms, lv) = search_ended instant u thread item (cv_live s)
      in s\<lparr>cv_live := lv, cv_db := record_web_search quoted now u thread turn item query action granted ms (cv_db s)\<rparr>)"

definition runtime_exited :: "timestamp \<Rightarrow> user_id \<Rightarrow> conversations \<Rightarrow> conversations" where
  "runtime_exited now u s =
     (let bots = map br_id (list_bots u (g_bots (cv_db s)));
          stopped = filter (\<lambda>b. map_of (lv_turns (cv_live s)) b \<noteq> None) bots;
          (s1, t) = finish_streaming now u None None Failed
            (with_live (\<lambda>lv. lv\<lparr>lv_token_stops := {k \<in> lv_token_stops lv. fst k \<noteq> u},
               lv_steered := filter (\<lambda>(k, _). fst k \<noteq> u) (lv_steered lv),
               lv_turns := filter (\<lambda>(b, _). b \<notin> set bots) (lv_turns lv)\<rparr>) s);
          t1 = fold (\<lambda>b. emit_status u b (cv_live s1)) stopped t
      in case end_running now u None RunFailed RUNTIME_STOPPED t1 of
           Inl _ \<Rightarrow> s1
         | Inr t2 \<Rightarrow> fold turned_idle stopped (commit_batch u t2 s1))"

text \<open>The router: one event of a user's app server.\<close>

definition route_event ::
  "(utext \<Rightarrow> utext) \<Rightarrow> timestamp \<Rightarrow> nat \<Rightarrow> user_id \<Rightarrow> runtime_event \<Rightarrow> conversations \<Rightarrow> conversations" where
  "route_event quoted now instant u ev s =
     (case ev of
        TurnStartedEvent thread turn \<Rightarrow> turn_started u thread turn s
      | ItemStartedEvent thread turn item \<Rightarrow> item_started now instant u thread turn item s
      | DeltaEvent thread turn item delta \<Rightarrow> message_delta now u thread turn item delta s
      | ItemCompletedEvent thread turn item \<Rightarrow> item_completed now u thread item s
      | TurnCompletedEvent thread turn status \<Rightarrow> turn_completed now u thread turn status s
      | TokensEvent thread turn tokens \<Rightarrow> tokens_updated now u thread turn tokens s
      | RateLimitsEvent snap \<Rightarrow> rate_limits_updated now u snap s
      | ErrorEvent thread message will_retry \<Rightarrow> turn_error u thread message will_retry s
      | OtherEvent \<Rightarrow> s
      | RefusedEvent thread reason \<Rightarrow> thread_refused now u thread reason s
      | SearchEvent thread turn item query action granted \<Rightarrow>
          search_completed quoted now instant u thread turn item query action granted s
      | ToolCallEvent call \<Rightarrow> spawn (ServeTool u call) s
      | ExitedEvent \<Rightarrow> runtime_exited now u s)"

end
