(* ===== verification/ConversationLog.thy ===== *)
theory ConversationLog
  imports Conversations RoutineSafety BotTables ClientSync
begin

text \<open>
  What the conversation service announces of messages is what it stores: the messages of a Bot,
  replayed from its owner's events, are its rows, and every event fits the ones before it. A
  batch \<open>tells\<close> what it does to the rows; what it does not announce, it does not change.
\<close>

section \<open>Rows and events\<close>

definition stored :: "user_id \<Rightarrow> bot_id \<Rightarrow> bots_db \<Rightarrow> message_id \<rightharpoonup> message" where
  "stored u b db i = map_option message_from (find (\<lambda>m. message_key m = (i, b, u)) (bd_messages db))"

definition hear :: "event \<Rightarrow> (bot_id \<Rightarrow> message_id \<rightharpoonup> message) \<Rightarrow> bot_id \<Rightarrow> message_id \<rightharpoonup> message" where
  "hear e S = (\<lambda>b. server_event b e (S b))"

fun heard :: "event list \<Rightarrow> (bot_id \<Rightarrow> message_id \<rightharpoonup> message) \<Rightarrow> bot_id \<Rightarrow> message_id \<rightharpoonup> message" where
  "heard [] S = S"
| "heard (e # es) S = heard es (hear e S)"

fun events_fit :: "event list \<Rightarrow> (bot_id \<Rightarrow> message_id \<rightharpoonup> message) \<Rightarrow> bool" where
  "events_fit [] S \<longleftrightarrow> True"
| "events_fit (e # es) S \<longleftrightarrow> event_fits S e \<and> events_fit es (hear e S)"

lemma heard_append: "heard (es @ fs) S = heard fs (heard es S)"
  by (induction es arbitrary: S) simp_all

lemma events_fit_append: "events_fit (es @ fs) S \<longleftrightarrow> events_fit es S \<and> events_fit fs (heard es S)"
  by (induction es arbitrary: S) simp_all

text \<open>What was heard is what is stored, but for when a streaming message was last written.\<close>

definition follows :: "user_id \<Rightarrow> (bot_id \<Rightarrow> message_id \<rightharpoonup> message) \<Rightarrow> bots_db \<Rightarrow> bool" where
  "follows u S db \<longleftrightarrow> (\<forall>b i. same (S b i) (stored u b db i))"

definition tells :: "user_id \<Rightarrow> bots_db \<Rightarrow> event list \<Rightarrow> bots_db \<Rightarrow> bool" where
  "tells u db es db' \<longleftrightarrow> (ascending ms_id (bd_messages db) \<longrightarrow>
     ascending ms_id (bd_messages db') \<and> (\<forall>v b. v \<noteq> u \<longrightarrow> stored v b db' = stored v b db)
     \<and> (\<forall>S. follows u S db \<longrightarrow> events_fit es S \<and> follows u (heard es S) db'))"

lemma tells_trans: "tells u db es db' \<Longrightarrow> tells u db' fs db'' \<Longrightarrow> tells u db (es @ fs) db''"
  unfolding tells_def by (simp add: heard_append events_fit_append)

text \<open>Events that are not of messages, and rows that stay.\<close>

fun message_event :: "event \<Rightarrow> bool" where
  "message_event (MessageCreated _) = True"
| "message_event (MessageDelta _ _ _ _) = True"
| "message_event (MessageCompleted _) = True"
| "message_event _ = False"

lemma other_event: "\<not> message_event e \<Longrightarrow> hear e S = S \<and> event_fits S e"
  by (cases e) (simp_all add: hear_def)

lemma other_events: "list_all (\<lambda>e. \<not> message_event e) es \<Longrightarrow> heard es S = S \<and> events_fit es S"
  by (induction es) (simp_all add: other_event)

lemma tells_other:
  assumes "bd_messages db' = bd_messages db" and "list_all (\<lambda>e. \<not> message_event e) es"
  shows "tells u db es db'"
proof -
  have "stored v b db' = stored v b db" for v b by (rule ext) (simp add: stored_def assms(1))
  then show ?thesis using assms other_events [OF assms(2)] by (simp add: tells_def follows_def)
qed

lemma find_message_key:
  assumes asc: "ascending ms_id rows" and r: "r \<in> set rows" "message_key r = k"
  shows "find (\<lambda>m. message_key m = k) rows = Some r"
proof (cases "find (\<lambda>m. message_key m = k) rows")
  case None
  then show ?thesis using r by (auto simp: find_None_iff)
next
  case (Some s)
  then have s: "s \<in> set rows" "message_key s = k" using find_Some_in [OF Some] by simp_all
  have "s = r" by (rule ascending_inj [OF asc s(1) r(1)]) (use s(2) r(2) in \<open>auto simp: message_key_def\<close>)
  then show ?thesis using Some by simp
qed

lemma stored_row:
  assumes "ascending ms_id (bd_messages db)"
  shows "stored u b db i = Some m \<longleftrightarrow> (\<exists>r \<in> set (bd_messages db). message_key r = (i, b, u) \<and> m = message_from r)"
proof
  assume "stored u b db i = Some m"
  then show "\<exists>r \<in> set (bd_messages db). message_key r = (i, b, u) \<and> m = message_from r"
    by (auto simp: stored_def dest: find_Some_in)
next
  assume "\<exists>r \<in> set (bd_messages db). message_key r = (i, b, u) \<and> m = message_from r"
  then show "stored u b db i = Some m" using find_message_key [OF assms] by (auto simp: stored_def)
qed

lemma stored_None: "stored u b db i = None \<longleftrightarrow> (\<forall>r \<in> set (bd_messages db). message_key r \<noteq> (i, b, u))"
  by (auto simp: stored_def find_None_iff)

lemma update_elsewhere:
  "(\<And>s. find p rows = Some s \<Longrightarrow> \<not> hit s)
    \<Longrightarrow> map_option (\<lambda>r. g (if hit r then f r else r)) (find p rows) = map_option g (find p rows)"
  by (cases "find p rows") auto

lemma stored_update:
  assumes "\<And>m. message_key (f m) = message_key m"
  shows "stored u b (db\<lparr>bd_messages := update_where p f (bd_messages db)\<rparr>) i
    = map_option (\<lambda>r. message_from (if p r then f r else r)) (find (\<lambda>m. message_key m = (i, b, u)) (bd_messages db))"
  using find_update_where_key [of message_key f, OF assms]
  by (simp add: stored_def option.map_comp comp_def)

section \<open>What tells\<close>

text \<open>A new message, announced as created.\<close>

lemma tells_insert:
  assumes "insert_message now u n db = Inr (m, db')"
  shows "tells u db [MessageCreated m] db'"
proof -
  let ?r = "new_message_row now u (next_rowid (map ms_id (bd_messages db))) n"
  have m: "m = message_from ?r" and db': "db' = db\<lparr>bd_messages := bd_messages db @ [?r]\<rparr>" using insert_message_Inr [OF assms] by blast+
  have key: "message_key ?r = (ms_id ?r, nm_bot n, u)" "ms_id ?r = next_rowid (map ms_id (bd_messages db))"
    by (simp_all add: message_key_def new_message_row_def)
  have m_keys: "m_id m = ms_id ?r" "m_bot_id m = nm_bot n" by (simp_all add: m message_from_def new_message_row_def)
  have new: "stored v b db' i = (if (i, b, v) = message_key ?r then Some m else stored v b db i)" for v b i
  proof (cases "(i, b, v) = message_key ?r")
    case True
    then have "i \<notin> ms_id ` set (bd_messages db)" using next_rowid_fresh [of "map ms_id (bd_messages db)"] key by simp
    then have "find (\<lambda>m. message_key m = (i, b, v)) (bd_messages db) = None" by (auto simp: find_None_iff message_key_def)
    then show ?thesis using True by (simp add: stored_def db' find_append m)
  next
    case False
    then show ?thesis by (auto simp: stored_def db' find_append split: option.split)
  qed
  show ?thesis
    unfolding tells_def
  proof (intro impI conjI allI)
    assume asc: "ascending ms_id (bd_messages db)"
    show "ascending ms_id (bd_messages db')" using ascending_new [OF asc key(2)] by (simp add: db')
    show "stored v b db' = stored v b db" if "v \<noteq> u" for v b using that by (auto simp: new key)
    fix S assume S: "follows u S db"
    have "i \<noteq> ms_id ?r \<or> S b i = None" for b i
    proof -
      have "stored u b db (ms_id ?r) = None"
        unfolding stored_None
      proof (intro ballI notI)
        fix r assume "r \<in> set (bd_messages db)" "message_key r = (ms_id ?r, b, u)"
        then have "next_rowid (map ms_id (bd_messages db)) \<in> set (map ms_id (bd_messages db))" using key(2) by (force simp: message_key_def)
        then show False using next_rowid_fresh by blast
      qed
      then show ?thesis using S by (metis follows_def same_None(2))
    qed
    then show "events_fit [MessageCreated m] S" using m_keys by auto
    show "follows u (heard [MessageCreated m] S) db'"
      using S by (auto simp: follows_def hear_def new key m_keys)
  qed
qed

text \<open>A streaming message that ends, announced as completed.\<close>

definition announced :: "message option \<Rightarrow> event list" where
  "announced found = (case found of None \<Rightarrow> [] | Some m \<Rightarrow> [MessageCompleted m])"

lemma state_from_streaming: "state_from s = Streaming \<longleftrightarrow> s = lit ''streaming''"
  by (simp add: state_from_def)

lemma state_from_name: "state_from (state_name s) = s"
  by (cases s) (simp_all add: state_from_def)

lemma tells_finish:
  assumes fin: "finish_message now u i text state db = (found, db')" and ends: "state \<noteq> Streaming"
  shows "tells u db (announced found) db'"
proof -
  let ?hit = "\<lambda>m. ms_id m = i \<and> ms_user_id m = u \<and> ms_state m = lit ''streaming''"
  let ?f = "\<lambda>m. m\<lparr>ms_text := coalesce text (ms_text m), ms_state := state_name state, ms_updated_at := now\<rparr>"
  have f: "message_key (?f m) = message_key m" for m by (simp add: message_key_def)
  have db': "db' = db\<lparr>bd_messages := update_where ?hit ?f (bd_messages db)\<rparr>"
    and found: "found = map_option (\<lambda>m. message_from (?f m)) (find ?hit (bd_messages db))"
    using fin by (simp_all add: finish_message_def Let_def)
  have after: "stored v b db' j = map_option (\<lambda>r. message_from (if ?hit r then ?f r else r))
      (find (\<lambda>m. message_key m = (j, b, v)) (bd_messages db))" for v b j
    unfolding db' by (rule stored_update [OF f])
  show ?thesis
    unfolding tells_def
  proof (intro impI conjI allI)
    assume asc: "ascending ms_id (bd_messages db)"
    then show "ascending ms_id (bd_messages db')" by (simp add: db' ascending_update)
    show "stored v b db' = stored v b db" if "v \<noteq> u" for v b
    proof
      fix j
      have "\<not> ?hit r" if "find (\<lambda>m. message_key m = (j, b, v)) (bd_messages db) = Some r" for r
        using find_Some_in [OF that] \<open>v \<noteq> u\<close> by (auto simp: message_key_def)
      then show "stored v b db' j = stored v b db j" unfolding after unfolding stored_def by (rule update_elsewhere)
    qed
    fix S assume S: "follows u S db"
    show "events_fit (announced found) S" "follows u (heard (announced found) S) db'"
    proof (atomize (full), cases "find ?hit (bd_messages db)")
      case None
      have "\<not> ?hit r" if "find p (bd_messages db) = Some r" for p r
        using None find_Some_in [OF that] by (auto simp: find_None_iff)
      then have "stored u b db' j = stored u b db j" for b j unfolding after unfolding stored_def by (rule update_elsewhere)
      then show "events_fit (announced found) S \<and> follows u (heard (announced found) S) db'"
        using S None by (simp add: found announced_def follows_def)
    next
      case (Some r)
      have r: "r \<in> set (bd_messages db)" "?hit r" using find_Some_in [OF Some] by simp_all
      let ?m = "message_from (?f r)"
      have keys: "m_id ?m = i" "m_bot_id ?m = ms_bot_id r" "m_state ?m = state" by (simp_all add: message_from_def r(2) state_from_name)
      have "stored u (ms_bot_id r) db i = Some (message_from r)"
        using stored_row [OF asc] r by (auto simp: message_key_def)
      then have there: "S (ms_bot_id r) i \<noteq> None" using S by (metis follows_def same_None(1) option.distinct(1))
      have new: "stored u b db' j = (if j = i \<and> b = ms_bot_id r then Some ?m else stored u b db j)" for b j
      proof (cases "j = i \<and> b = ms_bot_id r")
        case True
        have "find (\<lambda>m. message_key m = (j, b, u)) (bd_messages db) = Some r"
          by (rule find_message_key [OF asc r(1)]) (use True r(2) in \<open>simp add: message_key_def\<close>)
        then show ?thesis using True r(2) unfolding after by simp
      next
        case False
        have "\<not> ?hit s" if "find (\<lambda>m. message_key m = (j, b, u)) (bd_messages db) = Some s" for s
        proof
          assume hit: "?hit s"
          have s: "s \<in> set (bd_messages db)" "message_key s = (j, b, u)" using find_Some_in [OF that] by simp_all
          have "s = r" by (rule ascending_inj [OF asc s(1) r(1)]) (use hit r(2) in simp)
          then show False using False s(2) r(2) by (simp add: message_key_def)
        qed
        then have "stored u b db' j = stored u b db j" unfolding after unfolding stored_def by (rule update_elsewhere)
        then show ?thesis unfolding if_not_P [OF False] .
      qed
      have one: "announced found = [MessageCompleted ?m]" unfolding found Some by (simp add: announced_def)
      have heard: "heard [MessageCompleted ?m] S b j = (if j = i \<and> b = ms_bot_id r then Some ?m else S b j)" for b j
        using keys by (auto simp: hear_def)
      show "events_fit (announced found) S \<and> follows u (heard (announced found) S) db'"
        unfolding one using S there keys ends by (simp add: follows_def heard new del: heard.simps)
    qed
  qed
qed

text \<open>A delta that starts where the streaming message's text ends.\<close>

lemma tells_append:
  assumes r: "r \<in> set (bd_messages db)" "message_key r = (i, b, u)"
    and offset: "ms_state r = lit ''streaming'' \<Longrightarrow> length (ms_text r) = offset"
  shows "tells u db [MessageDelta b i offset delta] (append_text now u i delta db)"
proof -
  let ?hit = "\<lambda>m. ms_id m = i \<and> ms_user_id m = u \<and> ms_state m = lit ''streaming''"
  let ?f = "\<lambda>m. m\<lparr>ms_text := ms_text m @ delta, ms_updated_at := now\<rparr>"
  let ?db = "append_text now u i delta db"
  have f: "message_key (?f m) = message_key m" for m by (simp add: message_key_def)
  have after: "stored v c ?db j = map_option (\<lambda>r. message_from (if ?hit r then ?f r else r))
      (find (\<lambda>m. message_key m = (j, c, v)) (bd_messages db))" for v c j
    unfolding append_text_def by (rule stored_update [OF f])
  show ?thesis
    unfolding tells_def
  proof (intro impI conjI allI)
    assume asc: "ascending ms_id (bd_messages db)"
    then show "ascending ms_id (bd_messages ?db)" by (simp add: append_text_def ascending_update)
    show "stored v c ?db = stored v c db" if "v \<noteq> u" for v c
    proof
      fix j
      have "\<not> ?hit s" if "find (\<lambda>m. message_key m = (j, c, v)) (bd_messages db) = Some s" for s
        using find_Some_in [OF that] \<open>v \<noteq> u\<close> by (auto simp: message_key_def)
      then show "stored v c ?db j = stored v c db j" unfolding after unfolding stored_def by (rule update_elsewhere)
    qed
    fix S assume S: "follows u S db"
    have found: "find (\<lambda>m. message_key m = (i, b, u)) (bd_messages db) = Some r" by (rule find_message_key [OF asc r])
    then have "stored u b db i = Some (message_from r)" by (simp add: stored_def)
    then obtain m where m: "S b i = Some m" "seen m = seen (message_from r)" using S unfolding follows_def by (metis same_Some(2))
    have eq: "m_state m = state_from (ms_state r)" "m_text m = ms_text r"
      using seen_eq_state [OF m(2)] by (simp_all add: message_from_def)
    show "events_fit [MessageDelta b i offset delta] S"
      using m eq offset by (simp add: state_from_streaming)
    have others: "stored u c ?db j = stored u c db j" if "\<not> (j = i \<and> c = b)" for c j
    proof -
      have "\<not> ?hit s" if found: "find (\<lambda>m. message_key m = (j, c, u)) (bd_messages db) = Some s" for s
      proof
        assume hit: "?hit s"
        have s: "s \<in> set (bd_messages db)" "message_key s = (j, c, u)" using find_Some_in [OF found] by simp_all
        have "s = r" by (rule ascending_inj [OF asc s(1) r(1)]) (use hit r(2) in \<open>simp add: message_key_def\<close>)
        then show False using \<open>\<not> (j = i \<and> c = b)\<close> s(2) r(2) by (simp add: message_key_def)
      qed
      then show ?thesis unfolding after unfolding stored_def by (rule update_elsewhere)
    qed
    show "follows u (heard [MessageDelta b i offset delta] S) ?db"
      unfolding follows_def
    proof (intro allI)
      fix c j
      show "same (heard [MessageDelta b i offset delta] S c j) (stored u c ?db j)"
      proof (cases "j = i \<and> c = b")
        case False
        then have "heard [MessageDelta b i offset delta] S c j = S c j" by (auto simp: hear_def split: option.split)
        then show ?thesis using S others [OF False] by (simp add: follows_def)
      next
        case here: True
        show ?thesis
        proof (cases "ms_state r = lit ''streaming''")
          case False
          then have "heard [MessageDelta b i offset delta] S c j = S c j" using here m eq by (simp add: hear_def state_from_streaming)
          moreover have "stored u c ?db j = stored u c db j"
            unfolding after unfolding stored_def by (rule update_elsewhere) (use here False found in simp)
          ultimately show ?thesis using S by (simp add: follows_def)
        next
          case True
          then have hit: "?hit r" using r(2) by (simp add: message_key_def)
          have "stored u c ?db j = map_option (\<lambda>r. message_from (if ?hit r then ?f r else r)) (Some r)"
            unfolding after using here found by (simp only:)
          then have "stored u c ?db j = Some (message_from (?f r))" unfolding option.map if_P [OF hit] .
          moreover have "heard [MessageDelta b i offset delta] S c j = Some (m\<lparr>m_text := m_text m @ delta\<rparr>)"
            using here m eq True by (simp add: hear_def state_from_streaming)
          moreover have "seen (m\<lparr>m_text := m_text m @ delta\<rparr>) = seen (message_from (?f r))"
          proof -
            have streams: "m_state m = Streaming" using eq(1) True by (simp add: state_from_streaming)
            have "seen (message_from (?f r)) = (seen (message_from r))\<lparr>m_text := ms_text r @ delta\<rparr>"
              using True by (simp add: seen_def message_from_def state_from_streaming)
            then show ?thesis using seen_text [OF streams] m(2) eq(2) by simp
          qed
          ultimately show ?thesis by (simp add: same_Some)
        qed
      qed
    qed
  qed
qed

section \<open>Batches\<close>

text \<open>Rows stay, and of those that still stream the text stays.\<close>

definition kept :: "bots_db \<Rightarrow> bots_db \<Rightarrow> bool" where
  "kept db db' \<longleftrightarrow> (\<forall>r \<in> set (bd_messages db). \<exists>r' \<in> set (bd_messages db'). message_key r' = message_key r
     \<and> (ms_state r' = lit ''streaming'' \<longrightarrow> ms_state r = lit ''streaming'' \<and> ms_text r' = ms_text r))"

definition speaks :: "user_id \<Rightarrow> tx \<Rightarrow> tx \<Rightarrow> bool" where
  "speaks u t t' \<longleftrightarrow> (\<exists>es. t_events t' = t_events t @ es \<and> tells u (g_bots (t_db t)) es (g_bots (t_db t')))
     \<and> kept (g_bots (t_db t)) (g_bots (t_db t'))"

definition quiet :: "tx \<Rightarrow> tx \<Rightarrow> bool" where
  "quiet t t' \<longleftrightarrow> bd_messages (g_bots (t_db t')) = bd_messages (g_bots (t_db t))
     \<and> (\<exists>es. t_events t' = t_events t @ es \<and> list_all (\<lambda>e. \<not> message_event e) es)"

lemma kept_same: "bd_messages db' = bd_messages db \<Longrightarrow> kept db db'"
  by (auto simp: kept_def)

lemma kept_trans: "kept db db' \<Longrightarrow> kept db' db'' \<Longrightarrow> kept db db''"
  unfolding kept_def by metis

lemma kept_finish:
  assumes "finish_message now u i text state db = (found, db')" and "state \<noteq> Streaming"
  shows "kept db db'"
proof -
  let ?hit = "\<lambda>m. ms_id m = i \<and> ms_user_id m = u \<and> ms_state m = lit ''streaming''"
  let ?f = "\<lambda>m. m\<lparr>ms_text := coalesce text (ms_text m), ms_state := state_name state, ms_updated_at := now\<rparr>"
  have over: "state_name state \<noteq> lit ''streaming''" using assms(2) by (cases state) simp_all
  have rows: "bd_messages db' = update_where ?hit ?f (bd_messages db)" using assms(1) by (auto simp: finish_message_def Let_def)
  show ?thesis
    unfolding kept_def
  proof
    fix r assume "r \<in> set (bd_messages db)"
    then have "(if ?hit r then ?f r else r) \<in> set (bd_messages db')" unfolding rows set_update_where by (rule imageI)
    moreover have "message_key (if ?hit r then ?f r else r) = message_key r" by (simp add: message_key_def)
    moreover have "ms_state (if ?hit r then ?f r else r) = lit ''streaming'' \<Longrightarrow> \<not> ?hit r" using over by (cases "?hit r") simp_all
    ultimately show "\<exists>r' \<in> set (bd_messages db'). message_key r' = message_key r
        \<and> (ms_state r' = lit ''streaming'' \<longrightarrow> ms_state r = lit ''streaming'' \<and> ms_text r' = ms_text r)"
      by (intro bexI [of _ "if ?hit r then ?f r else r"]) auto
  qed
qed

lemma kept_insert: "insert_message now u n db = Inr (m, db') \<Longrightarrow> kept db db'"
  by (auto simp: kept_def dest!: insert_message_Inr)

lemma quiet_trans: "quiet t t' \<Longrightarrow> quiet t' t'' \<Longrightarrow> quiet t t''"
  unfolding quiet_def by fastforce

lemma quiet_refl [simp]: "quiet t t"
  by (simp add: quiet_def)

lemma quiet_speaks: "quiet t t' \<Longrightarrow> speaks u t t'"
  unfolding quiet_def speaks_def using tells_other kept_same by blast

lemma speaks_trans: "speaks u t t' \<Longrightarrow> speaks u t' t'' \<Longrightarrow> speaks u t t''"
  unfolding speaks_def using tells_trans kept_trans by (metis append_assoc)

lemma speaks_refl [simp]: "speaks u t t"
  by (rule quiet_speaks) simp

lemma speaks_insert:
  "insert_message now u n (g_bots (t_db t)) = Inr (m, bots) \<Longrightarrow> speaks u t (emit (MessageCreated m) (on_bots (\<lambda>_. bots) t))"
  unfolding speaks_def using tells_insert kept_insert by (auto simp: emit_def on_bots_def)

lemma speaks_finish: "state \<noteq> Streaming \<Longrightarrow> speaks u t (finish_one now u text state i t)"
proof -
  assume ends: "state \<noteq> Streaming"
  obtain found bots where fin: "finish_message now u i text state (g_bots (t_db t)) = (found, bots)" by fastforce
  have "t_events (finish_one now u text state i t) = t_events t @ announced found"
    "g_bots (t_db (finish_one now u text state i t)) = bots"
    using fin by (cases found; simp add: finish_one_def announced_def emit_def on_bots_def Let_def)+
  then show ?thesis
    unfolding speaks_def using tells_finish [OF fin ends] kept_finish [OF fin ends] by auto
qed

lemma speaks_finish_all: "state \<noteq> Streaming \<Longrightarrow> speaks u t (fold (finish_one now u text state) is t)"
proof (induction "is" arbitrary: t)
  case (Cons i ids)
  then show ?case using speaks_trans [OF speaks_finish [OF Cons.prems] Cons.IH [OF Cons.prems]] by simp
qed simp

section \<open>Quiet changes\<close>

lemma quiet_emit: "\<not> message_event e \<Longrightarrow> quiet t (emit e t)"
  by (simp add: quiet_def emit_def)

lemma quiet_same:
  "bd_messages (g_bots (t_db t')) = bd_messages (g_bots (t_db t)) \<Longrightarrow> t_events t' = t_events t \<Longrightarrow> quiet t t'"
  by (simp add: quiet_def)

lemma queue_push_bots [simp]: "g_bots (t_db (queue_push now p t)) = g_bots (t_db t)"
  by (simp add: queue_push_def split: option.split)

lemma run_ended_bots [simp]: "g_bots (t_db (run_ended now run state paused t)) = g_bots (t_db t)"
  by (simp add: run_ended_def merge_pushes_def Let_def split: option.split prod.split)

lemma quiet_run_ended: "quiet t t' \<Longrightarrow> quiet t (run_ended now run state paused t')"
  using quiet_trans quiet_same [of "run_ended now run state paused t'" t'] by simp

lemma quiet_on_routines: "quiet t t' \<Longrightarrow> quiet t (on_routines f t')"
  using quiet_trans quiet_same [of "on_routines f t'" t'] by simp

lemma quiet_emits: "quiet t t' \<Longrightarrow> \<not> message_event e \<Longrightarrow> quiet t (emit e t')"
  using quiet_trans quiet_emit by blast

lemma quiet_announce_end: "announce_end now run state t = Inr t' \<Longrightarrow> quiet t t'"
  unfolding announce_end_def emit_run_def
  by (auto simp: and_then_Inr Let_def intro!: quiet_run_ended quiet_emits quiet_on_routines split: option.splits)

lemma quiet_end_run: "end_run now run state reason t = Inr (ended, t') \<Longrightarrow> quiet t t'"
  unfolding end_run_def
  by (auto simp: and_then_Inr intro: quiet_trans [OF quiet_on_routines [OF quiet_refl] quiet_announce_end] split: prod.splits option.splits)

lemma quiet_end_turn: "end_turn now u turn status oot t = Inr t' \<Longrightarrow> quiet t t'"
  unfolding end_turn_def
  by (auto simp: and_then_Inr Let_def dest: quiet_end_run split: option.splits if_splits prod.splits)

lemma quiet_end_each: "end_each now state reason runs t = Inr t' \<Longrightarrow> quiet t t'"
proof (induction runs arbitrary: t)
  case (Cons run runs)
  then obtain ended t1 where "end_run now run state (Some reason) t = Inr (ended, t1)" "end_each now state reason runs t1 = Inr t'"
    by (auto simp: and_then_Inr)
  then show ?case using Cons.IH quiet_end_run quiet_trans by blast
qed simp

lemma quiet_end_running: "end_running now u b state reason t = Inr t' \<Longrightarrow> quiet t t'"
  unfolding end_running_def Let_def by (rule quiet_end_each)

lemma quiet_emit_status: "quiet t t' \<Longrightarrow> quiet t (emit_status u b lv t')"
  by (simp add: emit_status_def quiet_emits split: option.split)

lemma quiet_statuses: "quiet t t' \<Longrightarrow> quiet t (fold (\<lambda>b. emit_status u b lv) bs t')"
  by (induction bs arbitrary: t') (simp_all add: quiet_emit_status)

lemma quiet_emit_usage: "quiet t t' \<Longrightarrow> quiet t (snd (emit_usage now u c t'))"
  by (simp add: emit_usage_def Let_def quiet_emits)

lemma quiet_on_usage: "quiet t (on_usage f t)"
  by (rule quiet_same) (simp_all add: on_usage_def with_usage_def)

lemma quiet_refused: "quiet t t' \<Longrightarrow> quiet t (on_bots (set_refused now u b reason) t')"
  using quiet_trans quiet_same [of "on_bots (set_refused now u b reason) t'" t'] by (simp add: set_refused_def on_bots_def)

section \<open>The service\<close>

text \<open>The events of a user, in order.\<close>

definition log_of :: "user_id \<Rightarrow> conversations \<Rightarrow> event list" where
  "log_of u s = map snd (filter (\<lambda>x. fst x = u) (cv_log s))"

definition spoken :: "conversations \<Rightarrow> bool" where
  "spoken s \<longleftrightarrow> ascending ms_id (bd_messages (g_bots (cv_db s)))
     \<and> (\<forall>u. events_fit (log_of u s) (\<lambda>_. Map.empty) \<and> follows u (heard (log_of u s) (\<lambda>_. Map.empty)) (g_bots (cv_db s)))"

text \<open>A live reply has its row, and what it has written out is the row's text.\<close>

definition reply_ok :: "bots_db \<Rightarrow> reply \<Rightarrow> bool" where
  "reply_ok db r \<longleftrightarrow> (\<exists>m \<in> set (bd_messages db). message_key m = (ry_message r, ry_bot r, ry_user r)
     \<and> (ms_state m = lit ''streaming'' \<longrightarrow> length (ms_text m) = ry_written r))"

definition replies_ok :: "bots_db \<Rightarrow> reply list \<Rightarrow> bool" where
  "replies_ok db rs \<longleftrightarrow> distinct (map ry_message rs) \<and> (\<forall>r \<in> set rs. reply_ok db r)"

definition in_step :: "conversations \<Rightarrow> bool" where
  "in_step s \<longleftrightarrow> spoken s \<and> replies_ok (g_bots (cv_db s)) (map snd (lv_replies (cv_live s)))"

lemma log_of_commit: "log_of v (commit_batch u t s) = (if v = u then log_of v s @ t_events t else log_of v s)"
  by (simp add: log_of_def commit_batch_def filter_map comp_def)

lemma commit_simps [simp]:
  "cv_db (commit_batch u t s) = t_db t" "cv_live (commit_batch u t s) = cv_live s" "cv_tasks (commit_batch u t s) = cv_tasks s"
  "cv_subscription (commit_batch u t s) = cv_subscription s"
  by (simp_all add: commit_batch_def)

lemma with_live_simps [simp]:
  "cv_db (with_live f s) = cv_db s" "cv_live (with_live f s) = f (cv_live s)" "log_of v (with_live f s) = log_of v s"
  by (simp_all add: with_live_def log_of_def)

lemma spawn_simps [simp]: "cv_db (spawn k s) = cv_db s" "cv_live (spawn k s) = cv_live s" "log_of v (spawn k s) = log_of v s"
  by (simp_all add: spawn_def log_of_def)

lemma spoken_cong: "cv_db s' = cv_db s \<Longrightarrow> (\<And>u. log_of u s' = log_of u s) \<Longrightarrow> spoken s \<Longrightarrow> spoken s'"
  by (simp add: spoken_def)

lemma spoken_tells:
  assumes s: "spoken s" and t: "tells u (g_bots (cv_db s)) (t_events t) (g_bots (t_db t))"
  shows "spoken (commit_batch u t s)"
proof -
  have asc: "ascending ms_id (bd_messages (g_bots (cv_db s)))" using s by (simp add: spoken_def)
  note told = t [unfolded tells_def, rule_format, OF asc]
  have "events_fit (log_of v (commit_batch u t s)) (\<lambda>_. Map.empty)
      \<and> follows v (heard (log_of v (commit_batch u t s)) (\<lambda>_. Map.empty)) (g_bots (t_db t))" for v
  proof (cases "v = u")
    case True
    then show ?thesis using s told by (simp add: spoken_def log_of_commit events_fit_append heard_append)
  next
    case False
    then show ?thesis using s told by (simp add: spoken_def log_of_commit follows_def)
  qed
  then show ?thesis using told by (simp add: spoken_def)
qed

lemma spoken_commit: "spoken s \<Longrightarrow> speaks u (batch_of s) t \<Longrightarrow> spoken (commit_batch u t s)"
  using spoken_tells by (auto simp: speaks_def batch_of_def)

lemma reply_ok_kept: "reply_ok db r \<Longrightarrow> kept db db' \<Longrightarrow> reply_ok db' r"
  unfolding reply_ok_def kept_def by metis

lemma in_step_commit:
  assumes "in_step s" and "speaks u (batch_of s) t"
  shows "in_step (commit_batch u t s)"
  using assms spoken_commit [of s u t] reply_ok_kept [of "g_bots (cv_db s)" _ "g_bots (t_db t)"]
  by (auto simp: in_step_def replies_ok_def speaks_def batch_of_def)

lemma in_step_quiet: "in_step s \<Longrightarrow> quiet (batch_of s) t \<Longrightarrow> in_step (commit_batch u t s)"
  using in_step_commit quiet_speaks by blast

text \<open>What a change of the live state may do to the replies: drop some, or write down what is pending.\<close>

lemma in_step_live:
  assumes "in_step s" and "replies_ok (g_bots (cv_db s)) (map snd (lv_replies (f (cv_live s))))"
  shows "in_step (with_live f s)"
  using assms spoken_cong [of "with_live f s" s] by (simp add: in_step_def)

lemma replies_ok_filter: "replies_ok db (map snd rs) \<Longrightarrow> replies_ok db (map snd (filter p rs))"
  by (induction rs) (auto simp: replies_ok_def)

lemma in_step_same_replies: "in_step s \<Longrightarrow> lv_replies (f (cv_live s)) = lv_replies (cv_live s) \<Longrightarrow> in_step (with_live f s)"
  by (rule in_step_live) (simp_all add: in_step_def)

lemma in_step_spawn: "in_step s \<Longrightarrow> in_step (spawn k s)"
  using spoken_cong [of "spawn k s" s] by (simp add: in_step_def)

section \<open>Streamed text is written out\<close>

lemma reply_ok_written:
  assumes ok: "reply_ok db r"
  shows "reply_ok (append_text now (ry_user r) (ry_message r) (ry_pending r) db) (taken_out r)"
proof -
  let ?hit = "\<lambda>m. ms_id m = ry_message r \<and> ms_user_id m = ry_user r \<and> ms_state m = lit ''streaming''"
  let ?f = "\<lambda>m. m\<lparr>ms_text := ms_text m @ ry_pending r, ms_updated_at := now\<rparr>"
  obtain m where m: "m \<in> set (bd_messages db)" "message_key m = (ry_message r, ry_bot r, ry_user r)"
    "ms_state m = lit ''streaming'' \<longrightarrow> length (ms_text m) = ry_written r" using ok by (auto simp: reply_ok_def)
  have there: "(if ?hit m then ?f m else m) \<in> set (bd_messages (append_text now (ry_user r) (ry_message r) (ry_pending r) db))"
    using imageI [OF m(1), of "\<lambda>m. if ?hit m then ?f m else m"] by (simp add: append_text_def set_update_where)
  show ?thesis
  proof (cases "ms_state m = lit ''streaming''")
    case True
    then have hit: "?hit m" using m(2) by (simp add: message_key_def)
    have "?f m \<in> set (bd_messages (append_text now (ry_user r) (ry_message r) (ry_pending r) db))" using there unfolding if_P [OF hit] .
    then show ?thesis unfolding reply_ok_def
      by (rule rev_bexI) (use m True in \<open>simp add: taken_out_def message_key_def\<close>)
  next
    case False
    then have miss: "\<not> ?hit m" by simp
    show ?thesis using there unfolding if_not_P [OF miss] reply_ok_def
      by (rule rev_bexI) (use m False in \<open>simp add: taken_out_def\<close>)
  qed
qed

lemma reply_ok_other:
  assumes ok: "reply_ok db r" and i: "ry_message r \<noteq> i"
  shows "reply_ok (append_text now u i delta db) r"
proof -
  obtain m where m: "m \<in> set (bd_messages db)" "message_key m = (ry_message r, ry_bot r, ry_user r)"
    "ms_state m = lit ''streaming'' \<longrightarrow> length (ms_text m) = ry_written r" using ok by (auto simp: reply_ok_def)
  have "m \<in> set (bd_messages (append_text now u i delta db))"
    using m i by (force simp: append_text_def set_update_where message_key_def)
  then show ?thesis using m(2,3) unfolding reply_ok_def by blast
qed

lemma spoken_write:
  assumes "spoken s" and "reply_ok (g_bots (cv_db s)) r"
  shows "spoken (write_out now r s)"
proof -
  obtain m where m: "m \<in> set (bd_messages (g_bots (cv_db s)))" "message_key m = (ry_message r, ry_bot r, ry_user r)"
    "ms_state m = lit ''streaming'' \<longrightarrow> length (ms_text m) = ry_written r" using assms(2) by (auto simp: reply_ok_def)
  show ?thesis unfolding write_out_def
    by (rule spoken_tells [OF assms(1)])
      (use tells_append [OF m(1,2), of "ry_written r" "ry_pending r" now] m(3) in \<open>simp add: emit_def on_bots_def batch_of_def\<close>)
qed

lemma write_simps [simp]:
  "g_bots (cv_db (write_out now r s)) = append_text now (ry_user r) (ry_message r) (ry_pending r) (g_bots (cv_db s))"
  "cv_live (write_out now r s) = cv_live s"
  by (simp_all add: write_out_def emit_def on_bots_def batch_of_def)

text \<open>The replies in \<open>kr\<close> are written out one by one; those in \<open>done\<close> are as they should be.\<close>

lemma write_all:
  assumes "spoken s" and "distinct (map ry_message (written @ map snd kr))"
    and "\<forall>r \<in> set written. reply_ok (g_bots (cv_db s)) r" and "\<forall>r \<in> snd ` set kr. reply_ok (g_bots (cv_db s)) r"
  shows "spoken (fold (\<lambda>(_, r). write_out now r) kr s)
    \<and> (\<forall>r \<in> set written \<union> taken_out ` snd ` set kr. reply_ok (g_bots (cv_db (fold (\<lambda>(_, r). write_out now r) kr s))) r)
    \<and> cv_live (fold (\<lambda>(_, r). write_out now r) kr s) = cv_live s"
  using assms
proof (induction kr arbitrary: s written)
  case (Cons x kr)
  obtain k r where x: "x = (k, r)" by (cases x)
  let ?s = "write_out now r s"
  have r: "reply_ok (g_bots (cv_db s)) r" using Cons.prems(4) x by simp
  have others: "reply_ok (g_bots (cv_db ?s)) r'" if "reply_ok (g_bots (cv_db s)) r'" "ry_message r' \<noteq> ry_message r" for r'
    using reply_ok_other [OF that] by simp
  have alone: "ry_message r \<notin> ry_message ` set written" "ry_message r \<notin> ry_message ` snd ` set kr"
    using Cons.prems(2) unfolding x by (simp_all add: image_image)
  have written: "\<forall>r' \<in> set (taken_out r # written). reply_ok (g_bots (cv_db ?s)) r'"
  proof
    fix r' assume r': "r' \<in> set (taken_out r # written)"
    show "reply_ok (g_bots (cv_db ?s)) r'"
    proof (cases "r' = taken_out r")
      case False
      then have "r' \<in> set written" using r' by simp
      then have "ry_message r' \<noteq> ry_message r" using alone(1) by (metis imageI)
      then show ?thesis using others Cons.prems(3) \<open>r' \<in> set written\<close> by blast
    qed (use reply_ok_written [OF r] in simp)
  qed
  have pending: "\<forall>r' \<in> snd ` set kr. reply_ok (g_bots (cv_db ?s)) r'"
  proof
    fix r' assume r': "r' \<in> snd ` set kr"
    then have "ry_message r' \<noteq> ry_message r" using alone(2) by (metis imageI)
    moreover have "reply_ok (g_bots (cv_db s)) r'" using r' Cons.prems(4) by auto
    ultimately show "reply_ok (g_bots (cv_db ?s)) r'" using others by blast
  qed
  have apart: "distinct (map ry_message ((taken_out r # written) @ map snd kr))"
    using Cons.prems(2) x by (auto simp: taken_out_def)
  note Cons.IH [OF spoken_write [OF Cons.prems(1) r] apart written pending]
  then show ?case using x by simp
qed simp

lemma distinct_parts: "distinct (map f xs) \<Longrightarrow> distinct (map f (filter p xs @ filter (\<lambda>x. \<not> p x) xs))"
  by (induction xs) auto

lemma not_pending: "ry_pending r = [] \<Longrightarrow> taken_out r = r"
  by (simp add: taken_out_def)

lemma in_step_flush:
  assumes "in_step s"
  shows "in_step (flush now s)"
proof -
  let ?rs = "lv_replies (cv_live s)" and ?db = "g_bots (cv_db s)"
  let ?f = "\<lambda>lv. lv\<lparr>lv_replies := map (\<lambda>(k, r). (k, taken_out r)) ?rs\<rparr>"
  let ?idle = "filter (\<lambda>(_, r). ry_pending r = []) ?rs" and ?busy = "filter (\<lambda>(_, r). ry_pending r \<noteq> []) ?rs"
  have rs: "distinct (map ry_message (map snd ?rs))" "\<forall>r \<in> snd ` set ?rs. reply_ok ?db r" and sp: "spoken s"
    using assms by (auto simp: in_step_def replies_ok_def)
  have apart: "distinct (map ry_message (map snd ?idle @ map snd ?busy))"
    using distinct_parts [of "ry_message \<circ> snd" ?rs "\<lambda>(_, r). ry_pending r = []"] rs(1) by (simp add: case_prod_unfold comp_def)
  have s1: "spoken (with_live ?f s)" using spoken_cong [of "with_live ?f s" s] sp by simp
  have all: "spoken (flush now s) \<and> (\<forall>r \<in> set (map snd ?idle) \<union> taken_out ` snd ` set ?busy. reply_ok (g_bots (cv_db (flush now s))) r)
      \<and> cv_live (flush now s) = cv_live (with_live ?f s)"
    unfolding flush_def Let_def by (rule write_all [OF s1 apart]) (use rs(2) in auto)
  have "reply_ok (g_bots (cv_db (flush now s))) r" if r: "r \<in> snd ` set (map (\<lambda>(k, r). (k, taken_out r)) ?rs)" for r
  proof -
    obtain kr where kr: "kr \<in> set ?rs" "r = taken_out (snd kr)" using r by (force simp: case_prod_unfold)
    show ?thesis
    proof (cases "ry_pending (snd kr) = []")
      case True
      then have "snd kr \<in> set (map snd ?idle)" using kr(1) by (simp add: case_prod_unfold)
      then have "r \<in> set (map snd ?idle)" using kr(2) not_pending [OF True] by simp
      then show ?thesis using all by blast
    next
      case False
      then have "kr \<in> set ?busy" using kr(1) by (simp add: case_prod_unfold)
      then have "r \<in> taken_out ` snd ` set ?busy" using kr(2) by blast
      then show ?thesis using all by blast
    qed
  qed
  then have ok: "\<forall>r \<in> set (map snd (map (\<lambda>(k, r). (k, taken_out r)) ?rs)). reply_ok (g_bots (cv_db (flush now s))) r"
    unfolding set_map [of snd] by blast
  have same: "map ry_message (map snd (map (\<lambda>(k, r). (k, taken_out r)) ?rs)) = map ry_message (map snd ?rs)"
    by (simp add: case_prod_unfold taken_out_def)
  have live: "lv_replies (cv_live (flush now s)) = map (\<lambda>(k, r). (k, taken_out r)) ?rs" using all by simp
  show ?thesis unfolding in_step_def replies_ok_def live same using all ok rs(1) by blast
qed

section \<open>The router\<close>

lemma update_absent: "map_of al k = None \<Longrightarrow> AList.update k v al = al @ [(k, v)]"
  by (induction al) (auto split: if_splits)

lemma update_present:
  "map_of al k = Some r \<Longrightarrow> f r' = f r \<Longrightarrow> map (f \<circ> snd) (AList.update k r' al) = map (f \<circ> snd) al"
  by (induction al) (auto split: if_splits)

lemma update_values: "snd ` set (AList.update k v al) \<subseteq> insert v (snd ` set al)"
  by (induction al) auto

lemma in_step_start_reply:
  assumes "in_step s0"
  shows "in_step (start_reply now u thread turn item text s0)"
proof -
  define s where "s = with_live (replying u turn) s0"
  have s: "in_step s" unfolding s_def by (rule in_step_same_replies [OF assms]) (simp add: replying_def)
  show ?thesis
  proof (cases "bot_by_thread u thread (g_bots (cv_db s))")
    case None
    then show ?thesis using s unfolding start_reply_def Let_def s_def [symmetric] by simp
  next
    case bot: (Some r)
    show ?thesis
    proof (cases "map_of (lv_replies (cv_live s)) (u, thread, item) \<noteq> None \<or> (\<exists>f. insert_message now u (reply_row (br_id r) turn item text) (g_bots (cv_db s)) = Inl f)")
      case True
      then show ?thesis using s bot unfolding start_reply_def Let_def s_def [symmetric] by auto
    next
      case False
      then obtain m bots where ins: "insert_message now u (reply_row (br_id r) turn item text) (g_bots (cv_db s)) = Inr (m, bots)"
        and fresh: "map_of (lv_replies (cv_live s)) (u, thread, item) = None"
        by (cases "insert_message now u (reply_row (br_id r) turn item text) (g_bots (cv_db s))") auto
      let ?t = "emit (MessageCreated m) (on_bots (\<lambda>_. bots) (batch_of s))"
      let ?reply = "\<lparr>ry_user = u, ry_bot = br_id r, ry_turn = turn, ry_message = m_id m, ry_pending = [], ry_written = length text\<rparr>"
      have sent: "speaks u (batch_of s) ?t" using speaks_insert [of now u _ "batch_of s" m bots] ins by (simp add: batch_of_def)
      have s1: "in_step (commit_batch u ?t s)" by (rule in_step_commit [OF s sent])
      obtain row where row: "row = new_message_row now u (next_rowid (map ms_id (bd_messages (g_bots (cv_db s))))) (reply_row (br_id r) turn item text)"
        "m = message_from row" "bots = (g_bots (cv_db s))\<lparr>bd_messages := bd_messages (g_bots (cv_db s)) @ [row]\<rparr>"
        using insert_message_Inr [OF ins] by blast
      have new: "reply_ok bots ?reply"
        unfolding reply_ok_def row(3) by (rule bexI [of _ row]) (simp_all add: row(1,2) message_key_def message_from_def new_message_row_def reply_row_def)
      have other: "ry_message r' \<noteq> m_id m" if "r' \<in> snd ` set (lv_replies (cv_live s))" for r'
      proof -
        have "reply_ok (g_bots (cv_db s)) r'" using s that by (auto simp: in_step_def replies_ok_def)
        then have "ry_message r' \<in> set (map ms_id (bd_messages (g_bots (cv_db s))))" by (force simp: reply_ok_def message_key_def)
        then have "ry_message r' \<noteq> next_rowid (map ms_id (bd_messages (g_bots (cv_db s))))" using next_rowid_fresh by metis
        then show ?thesis by (simp add: row(1,2) message_from_def new_message_row_def)
      qed
      have "replies_ok bots (map snd (lv_replies (cv_live s) @ [((u, thread, item), ?reply)]))"
        using s1 new other by (force simp: in_step_def replies_ok_def on_bots_def emit_def batch_of_def)
      then have "replies_ok (g_bots (cv_db (commit_batch u ?t s))) (map snd (AList.update (u, thread, item) ?reply (lv_replies (cv_live s))))"
        unfolding update_absent [OF fresh] by (simp add: on_bots_def emit_def)
      then have after: "in_step (with_live f (commit_batch u ?t s))"
        if "\<And>lv. lv_replies (f lv) = AList.update (u, thread, item) ?reply (lv_replies lv)" for f
        by (intro in_step_live [OF s1]) (simp add: that)
      have res: "start_reply now u thread turn item text s0 = with_live (\<lambda>lv.
          let turns = (if is_current r thread \<and> turn \<notin> set (lv_finished lv) \<and> map_of (lv_turns lv) (br_id r) = None
            then AList.update (br_id r) \<lparr>an_user = u, an_thread = thread, an_turn = turn\<rparr> (lv_turns lv) else lv_turns lv)
          in lv\<lparr>lv_turns := turns, lv_replies := AList.update (u, thread, item) ?reply (lv_replies lv)\<rparr>) (commit_batch u ?t s)"
        unfolding start_reply_def Let_def s_def [symmetric] using bot fresh ins by simp
      show ?thesis unfolding res by (rule after) (simp add: Let_def)
    qed
  qed
qed

lemma final_state_ends: "final_state status \<noteq> Streaming"
  by (cases status) simp_all

lemma in_step_finish:
  assumes "in_step s" and "state \<noteq> Streaming" and "finish_streaming now u b turn state s = (s1, t)"
  shows "in_step s1 \<and> speaks u (batch_of s1) t"
proof -
  let ?s = "with_live (\<lambda>lv. lv\<lparr>lv_replies := filter (\<lambda>kr. \<not> reply_ends u b turn kr) (lv_replies lv)\<rparr>) (flush now s)"
  have eq: "s1 = ?s" "t = fold (finish_one now u None state) (streaming_messages u b turn (g_bots (t_db (batch_of ?s)))) (batch_of ?s)"
    using assms(3) unfolding finish_streaming_def Let_def prod.inject by blast+
  have "in_step ?s"
    using in_step_flush [OF assms(1), of now]
    by (intro in_step_live) (simp_all add: in_step_def replies_ok_filter)
  then show ?thesis unfolding eq using speaks_finish_all [OF assms(2)] by simp
qed

lemma in_step_more: "in_step s \<Longrightarrow> speaks u (batch_of s) t \<Longrightarrow> quiet t t' \<Longrightarrow> in_step (commit_batch u t' s)"
  using in_step_commit speaks_trans quiet_speaks by blast

text \<open>Each handler keeps the log in step with the rows.\<close>

lemma in_step_status: "in_step s \<Longrightarrow> in_step (announce_status u b s)"
  unfolding announce_status_def by (rule in_step_quiet) (simp_all add: quiet_emit_status)

lemma in_step_working: "in_step s \<Longrightarrow> in_step (announce_working u b s)"
  by (simp add: announce_working_def in_step_status)

lemma in_step_alone: "in_step s \<Longrightarrow> \<not> message_event ev \<Longrightarrow> in_step (emit_alone u ev s)"
  unfolding emit_alone_def by (rule in_step_quiet) (simp_all add: quiet_emit)

lemma in_step_usage: "in_step s \<Longrightarrow> in_step (usage_changed now u s)"
  unfolding usage_changed_def by (rule in_step_quiet) (simp_all add: quiet_emit_usage)

lemma in_step_idle: "in_step s \<Longrightarrow> in_step (turned_idle b s)"
  unfolding turned_idle_def by (rule in_step_same_replies) (simp_all add: count_idle_def)

lemma in_step_idles: "in_step s \<Longrightarrow> in_step (fold turned_idle bs s)"
  by (induction bs arbitrary: s) (simp_all add: in_step_idle)

lemma in_step_interrupts: "in_step s \<Longrightarrow> in_step (fold (\<lambda>a. spawn (f a)) as s)"
  by (induction as arbitrary: s) (simp_all add: in_step_spawn)

lemma in_step_stops: "in_step s \<Longrightarrow> in_step (stop_for_tokens u s)"
  unfolding stop_for_tokens_def by (auto intro!: in_step_interrupts in_step_same_replies split: prod.split)

lemma in_step_cong:
  "in_step s \<Longrightarrow> g_bots (cv_db s') = g_bots (cv_db s) \<Longrightarrow> cv_log s' = cv_log s \<Longrightarrow> lv_replies (cv_live s') = lv_replies (cv_live s) \<Longrightarrow> in_step s'"
  by (simp add: in_step_def spoken_def log_of_def)

lemma in_step_turn_started: "in_step s \<Longrightarrow> in_step (turn_started u thread turn s)"
  unfolding turn_started_def Let_def
  by (auto intro!: in_step_status in_step_same_replies split: option.split)

lemma in_step_item_started: "in_step s \<Longrightarrow> in_step (item_started now instant u thread turn item s)"
  unfolding item_started_def
  by (auto intro!: in_step_start_reply in_step_same_replies simp: search_started_def split: thread_item.split option.split)

lemma in_step_pending:
  assumes s: "in_step s" and r: "map_of (lv_replies (cv_live s)) k = Some r"
  shows "in_step (with_live (\<lambda>lv. lv\<lparr>lv_replies := AList.update k (r\<lparr>ry_pending := p\<rparr>) (lv_replies lv)\<rparr>) s)"
proof (rule in_step_live [OF s])
  let ?rs = "AList.update k (r\<lparr>ry_pending := p\<rparr>) (lv_replies (cv_live s))"
  have old: "replies_ok (g_bots (cv_db s)) (map snd (lv_replies (cv_live s)))" using s by (simp add: in_step_def)
  have "r \<in> snd ` set (lv_replies (cv_live s))" using map_of_SomeD [OF r] by force
  then have "reply_ok (g_bots (cv_db s)) (r\<lparr>ry_pending := p\<rparr>)" using old by (auto simp: replies_ok_def reply_ok_def)
  then have "\<forall>r' \<in> insert (r\<lparr>ry_pending := p\<rparr>) (snd ` set (lv_replies (cv_live s))). reply_ok (g_bots (cv_db s)) r'"
    using old by (simp add: replies_ok_def)
  then have "\<forall>r' \<in> snd ` set ?rs. reply_ok (g_bots (cv_db s)) r'"
    using update_values [of k "r\<lparr>ry_pending := p\<rparr>" "lv_replies (cv_live s)"] by blast
  moreover have "map (ry_message \<circ> snd) ?rs = map (ry_message \<circ> snd) (lv_replies (cv_live s))"
    by (rule update_present [OF r]) simp
  ultimately show "replies_ok (g_bots (cv_db s)) (map snd (lv_replies ((cv_live s)\<lparr>lv_replies := ?rs\<rparr>)))"
    using old by (simp add: replies_ok_def)
qed

lemma in_step_delta:
  assumes "in_step s"
  shows "in_step (message_delta now u thread turn item delta s)"
proof -
  define s1 where "s1 = (if map_of (lv_replies (cv_live s)) (u, thread, item) \<noteq> None then s else start_reply now u thread turn item [] s)"
  have "in_step s1" using assms in_step_start_reply by (simp add: s1_def)
  then show ?thesis
    unfolding message_delta_def Let_def s1_def [symmetric] using in_step_pending by (simp split: option.split)
qed

lemma in_step_item_completed:
  assumes "in_step s"
  shows "in_step (item_completed now u thread item s)"
proof (cases item)
  case (AgentItem i said)
  show ?thesis
  proof (cases "map_of (lv_replies (cv_live s)) (u, thread, i)")
    case (Some r)
    let ?s = "with_live (\<lambda>lv. lv\<lparr>lv_replies := AList.delete (u, thread, i) (lv_replies lv)\<rparr>) s"
    have "in_step ?s" using assms by (intro in_step_live) (simp_all add: in_step_def AList.delete_eq replies_ok_filter)
    then have "in_step (commit_batch u (finish_one now u (Some said) Complete (ry_message r) (batch_of ?s)) ?s)"
      by (rule in_step_commit) (rule speaks_finish, simp)
    then show ?thesis using AgentItem Some by (simp add: item_completed_def Let_def)
  qed (use assms AgentItem in \<open>simp add: item_completed_def\<close>)
qed (use assms in \<open>simp_all add: item_completed_def\<close>)

lemma settle_replies: "lv_replies (snd (settle_turn u b turn status lv)) = lv_replies lv"
  by (simp add: settle_turn_def Let_def turn_ended_def turn_finished_def owe_def)

lemma in_step_turn_completed:
  assumes "in_step s"
  shows "in_step (turn_completed now u thread turn status s)"
proof (cases "bot_by_thread u thread (g_bots (cv_db s))")
  case (Some r)
  obtain ended stopped owing lv where settled: "settle_turn u (br_id r) turn status (cv_live s) = ((ended, stopped, owing), lv)"
    by (metis prod_cases3 surj_pair)
  have "in_step (with_live (\<lambda>_. lv) s)"
    by (rule in_step_same_replies [OF assms]) (use settle_replies [of u "br_id r" turn status "cv_live s"] settled in simp)
  moreover obtain s1 t where fin: "finish_streaming now u (Some (br_id r)) (Some turn) (final_state status) (with_live (\<lambda>_. lv) s) = (s1, t)"
    by fastforce
  ultimately have s1: "in_step s1" "speaks u (batch_of s1) t" using in_step_finish [OF _ final_state_ends fin] by blast+
  define t1 where "t1 = (if stopped \<and> status = TurnInterrupted then emit (BotError (br_id r) ALLOWANCE_STOPPED) t else t)"
  define t2 where "t2 = (if ended then emit_status u (br_id r) (cv_live s1) t1 else t1)"
  have t2: "quiet t t2" by (simp add: t2_def t1_def quiet_emit quiet_emit_status)
  have eq: "turn_completed now u thread turn status s = (case end_turn now u turn status stopped t2 of Inl _ \<Rightarrow> s1
    | Inr t3 \<Rightarrow> let s2 = commit_batch u t3 s1
        in if owing then spawn (AnswerOwed u (br_id r)) s2 else if ended then turned_idle (br_id r) s2 else s2)"
    by (simp add: turn_completed_def Some settled fin t1_def t2_def Let_def)
  show ?thesis
  proof (cases "end_turn now u turn status stopped t2")
    case (Inr t3)
    have "in_step (commit_batch u t3 s1)" by (rule in_step_more [OF s1 quiet_trans [OF t2 quiet_end_turn [OF Inr]]])
    then show ?thesis unfolding eq Inr by (simp add: Let_def in_step_spawn in_step_idle)
  qed (use s1 eq in simp)
qed (use assms in \<open>simp add: turn_completed_def\<close>)

lemma in_step_tokens: "in_step s \<Longrightarrow> in_step (tokens_updated now u thread turn tokens s)"
proof (cases "bot_by_thread u thread (g_bots (cv_db s))")
  case (Some r)
  assume s: "in_step s"
  have spent: "in_step (commit_batch u (snd (emit_usage now u c (on_usage f (batch_of s)))) s)" for f c
    by (rule in_step_quiet [OF s]) (simp add: quiet_emit_usage quiet_on_usage)
  show ?thesis
    unfolding tokens_updated_def Some using s spent in_step_stops
    by (auto simp: Let_def split: sum.split prod.split) (metis snd_conv)+
qed (simp add: tokens_updated_def)

lemma in_step_rate_limits: "in_step s \<Longrightarrow> in_step (rate_limits_updated now u snap s)"
  unfolding rate_limits_updated_def by (rule in_step_usage) (rule in_step_cong, simp_all)

lemma in_step_turn_error: "in_step s \<Longrightarrow> in_step (turn_error u thread message will_retry s)"
  unfolding turn_error_def by (simp add: in_step_alone split: option.split)

lemma in_step_refused:
  assumes "in_step s"
  shows "in_step (thread_refused now u thread reason s)"
proof (cases "bot_by_thread u thread (g_bots (cv_db s))")
  case (Some r)
  have "in_step (with_live (forget_turn u (br_id r)) s)"
    by (rule in_step_same_replies [OF assms]) (simp add: forget_turn_def Let_def split: option.split)
  moreover obtain s1 t where fin: "finish_streaming now u (Some (br_id r)) None Failed (with_live (forget_turn u (br_id r)) s) = (s1, t)"
    by fastforce
  ultimately have s1: "in_step s1" "speaks u (batch_of s1) t" using in_step_finish [OF _ _ fin] by auto
  define t1 where "t1 = emit_status u (br_id r) (cv_live s1) (on_bots (set_refused now u (br_id r) reason) t)"
  have t1: "quiet t t1" by (simp add: t1_def quiet_emit_status quiet_refused)
  show ?thesis
  proof (cases "end_running now u (Some (br_id r)) RunFailed REFUSED_TEXT t1")
    case (Inr t2)
    have "in_step (commit_batch u t2 s1)" by (rule in_step_more [OF s1 quiet_trans [OF t1 quiet_end_running [OF Inr]]])
    then show ?thesis using Inr by (simp add: thread_refused_def Some fin t1_def [symmetric] Let_def in_step_idle)
  qed (use s1 in \<open>simp add: thread_refused_def Some fin t1_def [symmetric] Let_def\<close>)
qed (use assms in \<open>simp add: thread_refused_def\<close>)

lemma in_step_exited:
  assumes "in_step s"
  shows "in_step (runtime_exited now u s)"
proof -
  define bots where "bots = map br_id (list_bots u (g_bots (cv_db s)))"
  define stopped where "stopped = filter (\<lambda>b. map_of (lv_turns (cv_live s)) b \<noteq> None) bots"
  define s0 where "s0 = with_live (\<lambda>lv. lv\<lparr>lv_token_stops := {k \<in> lv_token_stops lv. fst k \<noteq> u},
    lv_steered := filter (\<lambda>(k, _). fst k \<noteq> u) (lv_steered lv), lv_turns := filter (\<lambda>(b, _). b \<notin> set bots) (lv_turns lv)\<rparr>) s"
  have "in_step s0" unfolding s0_def by (rule in_step_same_replies [OF assms]) simp
  moreover obtain s1 t where fin: "finish_streaming now u None None Failed s0 = (s1, t)" by fastforce
  ultimately have s1: "in_step s1" "speaks u (batch_of s1) t" using in_step_finish [OF _ _ fin] by auto
  define t1 where "t1 = fold (\<lambda>b. emit_status u b (cv_live s1)) stopped t"
  have t1: "quiet t t1" by (simp add: t1_def quiet_statuses)
  have eq: "runtime_exited now u s = (case end_running now u None RunFailed RUNTIME_STOPPED t1 of Inl _ \<Rightarrow> s1
      | Inr t2 \<Rightarrow> fold turned_idle stopped (commit_batch u t2 s1))"
    unfolding runtime_exited_def Let_def bots_def [symmetric] stopped_def [symmetric] s0_def [symmetric] fin
    by (simp add: t1_def)
  show ?thesis
  proof (cases "end_running now u None RunFailed RUNTIME_STOPPED t1")
    case (Inr t2)
    have "in_step (commit_batch u t2 s1)" by (rule in_step_more [OF s1 quiet_trans [OF t1 quiet_end_running [OF Inr]]])
    then show ?thesis unfolding eq Inr by (simp add: in_step_idles)
  qed (use s1 eq in simp)
qed

lemma search_replies: "lv_replies (snd (search_ended instant u thread item lv)) = lv_replies lv"
  by (simp add: search_ended_def Let_def split: option.split)

lemma in_step_search: "in_step s \<Longrightarrow> in_step (search_completed quoted now instant u thread turn item query action granted s)"
  unfolding search_completed_def
  using search_replies [of instant u thread item "cv_live s"]
  by (auto intro!: in_step_cong [of s] simp: record_web_search_def record_call_def Let_def split: prod.split option.split)

lemma in_step_route: "in_step s \<Longrightarrow> in_step (route_event quoted now instant u ev s)"
  by (cases ev) (simp_all add: route_event_def in_step_turn_started in_step_item_started in_step_delta in_step_item_completed
    in_step_turn_completed in_step_tokens in_step_rate_limits in_step_turn_error in_step_refused in_step_search in_step_spawn
    in_step_exited)

lemma in_step_recover: "in_step s \<Longrightarrow> in_step (recover_replies now s)"
proof -
  have "in_step (fold (\<lambda>(i, u) s. commit_batch u (finish_one now u None Failed i (batch_of s)) s) ius s)" if "in_step s" for ius s
    using that
  proof (induction ius arbitrary: s)
    case (Cons x ius)
    then show ?case using in_step_commit [OF Cons.prems speaks_finish] by (cases x) simp
  qed simp
  then show "in_step s \<Longrightarrow> ?thesis" by (simp add: recover_replies_def)
qed

end
