(* ===== verification/Sends.thy ===== *)
theory Sends
  imports Conversations
begin

text \<open>
  How turns begin (\<open>crates/bokkie-gateway/src/bots/service.rs\<close>): a user's message, a routine's
  run, and messages a turn left unanswered. Each waits many times, for the database and for
  the user's app server, and other tasks run meanwhile: an environment says what they do to the
  service at each wait, what the app server answers, and what the clock reads. What others can
  see of a send is kept in order: the turns it counted and took back, and its calls.
\<close>

section \<open>The environment\<close>

datatype codex_error =
    CodexRefused utext
  | ThreadRefused utext
  | CodexSignedOut utext
  | AppServerFailed utext
  | CodexRejected utext

fun had_no_effect :: "codex_error \<Rightarrow> bool" where
  "had_no_effect (AppServerFailed _) = False"
| "had_no_effect _ = True"

definition limit_reached :: failure where
  "limit_reached = failure_new LimitReached (lit ''You have used your allowance for now. It refills over the next day or week'')"

definition signed_out_failure :: failure where
  "signed_out_failure = unavailable (lit ''ChatGPT is signed out for the household, so the Bots cannot reply. Ask an admin to sign it in'')"

fun unavailable_for :: "codex_error \<Rightarrow> failure" where
  "unavailable_for (CodexRefused _) = unavailable REFUSED_TEXT"
| "unavailable_for (ThreadRefused _) = unavailable REFUSED_TEXT"
| "unavailable_for (CodexSignedOut _) = signed_out_failure"
| "unavailable_for (AppServerFailed _) = unavailable (lit ''The Bots' runtime is unavailable'')"
| "unavailable_for (CodexRejected _) = unavailable (lit ''The Bots' runtime is unavailable'')"

text \<open>Calls of an app server, answered with the id of the thread or turn.\<close>

datatype codex_call =
    ResumeThread utext utext grant_set
  | StartThread utext grant_set
  | StartTurn utext utext "contexts option"
  | SteerTurn utext utext utext utext "contexts option"
  | InterruptCall utext utext

datatype deed = Counted int | TakenBack int | Called codex_call "codex_error + utext"

record world =
  wo_cv :: conversations
  wo_deeds :: "deed list"
  wo_time :: nat

record env =
  ev_now :: "nat \<Rightarrow> timestamp"
  ev_others :: "nat \<Rightarrow> conversations \<Rightarrow> conversations"
  ev_answer :: "nat \<Rightarrow> codex_call \<Rightarrow> codex_error + utext"
  ev_runtime :: "nat \<Rightarrow> codex_error + unit"
  ev_served :: "nat \<Rightarrow> utext \<Rightarrow> bool"
  ev_running :: "nat \<Rightarrow> bool"
  ev_lock_free :: "nat \<Rightarrow> bool"

type_synonym 'a outcome = "(failure + 'a) \<times> world"

definition andthen :: "'a outcome \<Rightarrow> ('a \<Rightarrow> world \<Rightarrow> 'b outcome) \<Rightarrow> 'b outcome" where
  "andthen r k = (case r of (Inl f, w) \<Rightarrow> (Inl f, w) | (Inr a, w) \<Rightarrow> k a w)"

text \<open>A wait, at which other tasks run.\<close>

definition pause :: "env \<Rightarrow> world \<Rightarrow> world" where
  "pause e w = w\<lparr>wo_cv := ev_others e (wo_time w) (wo_cv w), wo_time := Suc (wo_time w)\<rparr>"

definition now_of :: "env \<Rightarrow> world \<Rightarrow> timestamp" where
  "now_of e w = ev_now e (wo_time w)"

definition bots_now :: "world \<Rightarrow> bots_db" where
  "bots_now w = g_bots (cv_db (wo_cv w))"

definition on_cv :: "(conversations \<Rightarrow> conversations) \<Rightarrow> world \<Rightarrow> world" where
  "on_cv f w = w\<lparr>wo_cv := f (wo_cv w)\<rparr>"

definition done_deed :: "deed \<Rightarrow> world \<Rightarrow> world" where
  "done_deed d w = w\<lparr>wo_deeds := wo_deeds w @ [d]\<rparr>"

definition ask :: "env \<Rightarrow> codex_call \<Rightarrow> world \<Rightarrow> (codex_error + utext) \<times> world" where
  "ask e call w =
     (let r = ev_answer e (wo_time w) call in (r, pause e (done_deed (Called call r) w)))"

text \<open>A statement on the Bots' tables that announces nothing.\<close>

definition write_bots :: "env \<Rightarrow> (bots_db \<Rightarrow> bots_db) \<Rightarrow> world \<Rightarrow> world" where
  "write_bots e f w = on_cv (\<lambda>s. s\<lparr>cv_db := (cv_db s)\<lparr>g_bots := f (g_bots (cv_db s))\<rparr>\<rparr>) (pause e w)"

definition or_not_found :: "'a option \<Rightarrow> world \<Rightarrow> 'a outcome" where
  "or_not_found x w = (case x of None \<Rightarrow> (Inl not_found, w) | Some a \<Rightarrow> (Inr a, w))"

definition the_bot :: "env \<Rightarrow> user_id \<Rightarrow> bot_id \<Rightarrow> world \<Rightarrow> bot_row outcome" where
  "the_bot e u b w0 = (let w = pause e w0 in or_not_found (find_bot u b (bots_now w)) w)"

section \<open>Steps\<close>

text \<open>A safety refusal of the Bot's own thread is recorded on the Bot.\<close>

definition refusing :: "env \<Rightarrow> user_id \<Rightarrow> bot_id \<Rightarrow> codex_error \<Rightarrow> world \<Rightarrow> 'a outcome" where
  "refusing e u b err w =
     (case err of
        ThreadRefused reason \<Rightarrow>
          let w1 = pause e w in
          (Inl (unavailable_for err), on_cv (\<lambda>s. commit_batch u
            (emit_status u b (cv_live s) (on_bots (set_refused (now_of e w1) u b reason) (batch_of s))) s) w1)
      | _ \<Rightarrow> (Inl (unavailable_for err), w))"

text \<open>A message stored and announced in one batch.\<close>

definition post_message :: "env \<Rightarrow> user_id \<Rightarrow> new_message \<Rightarrow> world \<Rightarrow> message outcome" where
  "post_message e u n w0 =
     (let w = pause e w0 in
      case insert_message (now_of e w) u n (bots_now w) of
        Inl f \<Rightarrow> (Inl f, w)
      | Inr (m, bots) \<Rightarrow> (Inr m, on_cv (\<lambda>s. commit_batch u (emit (MessageCreated m) (on_bots (\<lambda>_. bots) (batch_of s))) s) w))"

definition user_message :: "bot_id \<Rightarrow> utext \<Rightarrow> new_message" where
  "user_message b t = \<lparr>nm_bot = b, nm_author = AuthorUser, nm_text = t, nm_state = Complete, nm_turn = None,
     nm_kind = TextMessage, nm_routine = None, nm_notification = None\<rparr>"

definition store_message :: "env \<Rightarrow> user_id \<Rightarrow> bot_id \<Rightarrow> utext \<Rightarrow> world \<Rightarrow> message outcome" where
  "store_message e u b t = post_message e u (user_message b t)"

definition marker_message :: "bot_id \<Rightarrow> utext \<Rightarrow> (routine_id \<times> routine_run_id \<times> utext) option \<Rightarrow> new_message" where
  "marker_message b t routine = \<lparr>nm_bot = b, nm_author = AuthorBot, nm_text = t, nm_state = Complete, nm_turn = None,
     nm_kind = Marker, nm_routine = routine, nm_notification = None\<rparr>"

definition serve_thread :: "env \<Rightarrow> account \<Rightarrow> bot_row \<Rightarrow> utext \<Rightarrow> world \<Rightarrow> unit outcome" where
  "serve_thread e owner r thread w =
     (if ev_served e (wo_time w) thread then (Inr (), w)
      else
        let gs = grants_from_stored (br_thread_grants r) in
        case ask e (ResumeThread thread (instructions (u_display_name (ac_user owner)) r gs) gs) w of
          (Inl err, w1) \<Rightarrow> refusing e (u_id (ac_user owner)) (br_id r) err w1
        | (Inr _, w1) \<Rightarrow> (Inr (), w1))"

text \<open>The switch to a fresh thread and its marker commit together.\<close>

definition switch_thread :: "env \<Rightarrow> user_id \<Rightarrow> bot_row \<Rightarrow> utext \<Rightarrow> utext \<Rightarrow> world \<Rightarrow> utext outcome" where
  "switch_thread e u r old fresh w0 =
     (let w = pause e w0; gs = bot_grants r in
      case insert_message (now_of e w) u (marker_message (br_id r) (capabilities_marker gs) None) (bots_now w) of
        Inl f \<Rightarrow> (Inl f, w)
      | Inr (marker, bots) \<Rightarrow>
          (case replace_thread u (br_id r) old fresh (br_profile_revision r) gs (m_id marker) bots of
             Inl f \<Rightarrow> (Inl f, w)
           | Inr (False, _) \<Rightarrow> (Inl (internal (lit ''the Bot's thread changed during a send'')), w)
           | Inr (True, bots1) \<Rightarrow>
               (Inr fresh, on_cv (\<lambda>s. commit_batch u (emit (MessageCreated marker) (on_bots (\<lambda>_. bots1) (batch_of s))) s) w)))"

definition first_thread :: "env \<Rightarrow> user_id \<Rightarrow> bot_row \<Rightarrow> utext \<Rightarrow> world \<Rightarrow> utext outcome" where
  "first_thread e u r fresh w0 =
     (let w = pause e w0 in
      case set_thread u (br_id r) fresh (br_profile_revision r) (bot_grants r) (bots_now w) of
        Inl f \<Rightarrow> (Inl f, w)
      | Inr bots \<Rightarrow> (Inr fresh, on_cv (\<lambda>s. s\<lparr>cv_db := (cv_db s)\<lparr>g_bots := bots\<rparr>\<rparr>) w))"

text \<open>The thread a new turn runs on: the Bot's own, if it has the Bot's grants, or a fresh one.\<close>

definition prepare_thread :: "env \<Rightarrow> account \<Rightarrow> bot_row \<Rightarrow> world \<Rightarrow> utext outcome" where
  "prepare_thread e owner r w =
     (let u = u_id (ac_user owner);
          fresh = (\<lambda>_. case ask e (StartThread (instructions (u_display_name (ac_user owner)) r (bot_grants r)) (bot_grants r)) w of
            (Inl err, w1) \<Rightarrow> refusing e u (br_id r) err w1
          | (Inr thread, w1) \<Rightarrow>
              (case br_thread_id r of
                 None \<Rightarrow> first_thread e u r thread w1
               | Some old \<Rightarrow> switch_thread e u r old thread w1))
      in case br_thread_id r of
           Some thread \<Rightarrow>
             if grants_from_stored (br_thread_grants r) = bot_grants r
             then andthen (serve_thread e owner r thread w) (\<lambda>_ w1. (Inr thread, w1))
             else fresh ()
         | None \<Rightarrow> fresh ())"

definition carryover_of :: "account \<Rightarrow> bot_row \<Rightarrow> message_id \<Rightarrow> message_id \<Rightarrow> gateway_db \<Rightarrow> utext" where
  "carryover_of owner r marker sending db =
     (let u = u_id (ac_user owner)
      in carryover (u_display_name (ac_user owner))
           (if Notes \<in> bot_grants r then Some (fst (read_notes u (br_id r) db)) else None)
           (recent_text u (br_id r) marker (Some sending) CARRYOVER_MESSAGES (g_bots db)))"

definition pending_carryover :: "env \<Rightarrow> account \<Rightarrow> bot_id \<Rightarrow> message_id \<Rightarrow> world \<Rightarrow> (message_id \<times> utext) option outcome" where
  "pending_carryover e owner b sending w =
     andthen (the_bot e (u_id (ac_user owner)) b w) (\<lambda>r w1.
       case br_carryover_marker r of
         None \<Rightarrow> (Inr None, w1)
       | Some marker \<Rightarrow>
           let w2 = pause e w1 in (Inr (Some (marker, carryover_of owner r marker sending (cv_db (wo_cv w2)))), w2))"

text \<open>A turn counted if the allowance has one left, and taken back.\<close>

definition count_turn :: "env \<Rightarrow> user_id \<Rightarrow> bot_id \<Rightarrow> world \<Rightarrow> int option outcome" where
  "count_turn e u b w0 =
     (let w = pause e w0 in
      case reserve (now_of e w) u b (wo_cv w) of
        Inl f \<Rightarrow> (Inl f, w)
      | Inr (None, s) \<Rightarrow> (Inr None, w)
      | Inr (Some i, s) \<Rightarrow> (Inr (Some i), done_deed (Counted i) (w\<lparr>wo_cv := s\<rparr>)))"

definition must_count :: "env \<Rightarrow> user_id \<Rightarrow> bot_id \<Rightarrow> world \<Rightarrow> int outcome" where
  "must_count e u b w =
     andthen (count_turn e u b w) (\<lambda>i w1. case i of None \<Rightarrow> (Inl limit_reached, w1) | Some i \<Rightarrow> (Inr i, w1))"

definition take_back :: "env \<Rightarrow> user_id \<Rightarrow> int \<Rightarrow> world \<Rightarrow> world" where
  "take_back e u i w0 =
     (let w = pause e w0 in done_deed (TakenBack i) (on_cv (release (now_of e w) u i) w))"

definition or_take_back :: "env \<Rightarrow> user_id \<Rightarrow> int \<Rightarrow> 'a outcome \<Rightarrow> 'a outcome" where
  "or_take_back e u i r = (case r of (Inl f, w) \<Rightarrow> (Inl f, take_back e u i w) | (Inr a, w) \<Rightarrow> (Inr a, w))"

definition profile_of :: "bot_row \<Rightarrow> contexts option" where
  "profile_of r = (if br_profile_sent_revision r < br_profile_revision r then Some (profile_context (profile_update r)) else None)"

text \<open>The turn is recorded as running, unless it ended or the router recorded it first.\<close>

definition note_turn :: "user_id \<Rightarrow> bot_id \<Rightarrow> utext \<Rightarrow> utext \<Rightarrow> live \<Rightarrow> bool \<times> live" where
  "note_turn u b thread turn lv0 =
     (let lv = lv0\<lparr>lv_owed := AList.delete b (lv_owed lv0)\<rparr> in
      if turn \<in> set (lv_finished lv) then (False, lv)
      else (map_of (lv_turns lv) b = None,
        lv\<lparr>lv_turns := AList.update b \<lparr>an_user = u, an_thread = thread, an_turn = turn\<rparr> (lv_turns lv)\<rparr>))"

definition begun :: "env \<Rightarrow> user_id \<Rightarrow> bot_row \<Rightarrow> utext \<Rightarrow> utext \<Rightarrow> message_id option \<Rightarrow> world \<Rightarrow> world" where
  "begun e u r thread turn marker w =
     (let w1 = write_bots e (set_profile_sent u (br_id r) (br_profile_revision r)) w;
          w2 = (case marker of None \<Rightarrow> w1 | Some m \<Rightarrow> write_bots e (clear_carryover u (br_id r) m) w1);
          (started, lv) = note_turn u (br_id r) thread turn (cv_live (wo_cv w2));
          w3 = on_cv (with_live (\<lambda>_. lv)) w2
      in if started then on_cv (announce_working u (br_id r)) (pause e w3) else w3)"

definition begin_turn ::
  "env \<Rightarrow> account \<Rightarrow> bot_row \<Rightarrow> utext \<Rightarrow> int \<Rightarrow> message_id \<Rightarrow> utext \<Rightarrow> contexts option \<Rightarrow> world \<Rightarrow> utext outcome" where
  "begin_turn e owner r thread counted begun_by input extra w =
     (let u = u_id (ac_user owner) in
      andthen (or_take_back e u counted (pending_carryover e owner (br_id r) begun_by w)) (\<lambda>carried w1.
        let context = merged (merged (profile_of r) (map_option (\<lambda>(_, t). carryover_context t) carried)) extra in
        case ask e (StartTurn thread input context) w1 of
          (Inl err, w2) \<Rightarrow> refusing e u (br_id r) err (if had_no_effect err then take_back e u counted w2 else w2)
        | (Inr turn, w2) \<Rightarrow> (Inr turn, begun e u r thread turn (map_option fst carried) w2)))"

section \<open>A user's message\<close>

datatype delivery = NewTurn | Steered

text \<open>The thread, the Bot as it is then, and the stored message.\<close>

definition prepare_send :: "env \<Rightarrow> account \<Rightarrow> bot_row \<Rightarrow> active_turn option \<Rightarrow> utext \<Rightarrow> world \<Rightarrow> (utext \<times> bot_row \<times> message) outcome" where
  "prepare_send e owner r active t w =
     (let u = u_id (ac_user owner) in
      andthen (case active of
          Some a \<Rightarrow> andthen (serve_thread e owner r (an_thread a) w) (\<lambda>_ w1. (Inr (an_thread a), w1))
        | None \<Rightarrow> prepare_thread e owner r w) (\<lambda>thread w1.
      andthen (the_bot e u (br_id r) w1) (\<lambda>r1 w2.
      andthen (store_message e u (br_id r1) t w2) (\<lambda>m w3. (Inr (thread, r1, m), w3)))))"

definition new_turn :: "env \<Rightarrow> account \<Rightarrow> bot_row \<Rightarrow> utext \<Rightarrow> int \<Rightarrow> message \<Rightarrow> utext \<Rightarrow> world \<Rightarrow> (message \<times> delivery) outcome" where
  "new_turn e owner r thread counted m t w =
     andthen (begin_turn e owner r thread counted (m_id m) t None w) (\<lambda>_ w1. (Inr (m, NewTurn), w1))"

text \<open>A steer that missed its turn starts one, on a thread with the Bot's grants.\<close>

definition steer_missed :: "env \<Rightarrow> account \<Rightarrow> bot_row \<Rightarrow> message \<Rightarrow> utext \<Rightarrow> world \<Rightarrow> (message \<times> delivery) outcome" where
  "steer_missed e owner r m t w =
     (let u = u_id (ac_user owner) in
      andthen (must_count e u (br_id r) w) (\<lambda>counted w1.
      andthen (or_take_back e u counted (prepare_thread e owner r w1)) (\<lambda>thread w2.
        new_turn e owner r thread counted m t w2)))"

definition steer :: "env \<Rightarrow> account \<Rightarrow> bot_row \<Rightarrow> active_turn \<Rightarrow> utext \<Rightarrow> message \<Rightarrow> utext \<Rightarrow> world \<Rightarrow> (message \<times> delivery) outcome" where
  "steer e owner r a thread m t w =
     (let u = u_id (ac_user owner) in
      case ask e (SteerTurn thread (an_turn a) t (steer_client_id (m_id m)) (profile_of r)) w of
        (Inr _, w1) \<Rightarrow> (Inr (m, Steered), write_bots e (set_profile_sent u (br_id r) (br_profile_revision r)) w1)
      | (Inl err, w1) \<Rightarrow>
          (case err of
             AppServerFailed _ \<Rightarrow> steer_missed e owner r m t w1
           | CodexRejected _ \<Rightarrow> steer_missed e owner r m t w1
           | CodexSignedOut _ \<Rightarrow> (Inl (unavailable_for err), w1)
           | _ \<Rightarrow> refusing e u (br_id r) err w1))"

definition runtime_of :: "env \<Rightarrow> world \<Rightarrow> (codex_error + unit) \<times> world" where
  "runtime_of e w0 = (let w = pause e w0 in (ev_runtime e (wo_time w), w))"

definition refused_bot :: failure where
  "refused_bot = unavailable_for (CodexRefused (lit ''refused''))"

text \<open>
  A message that starts a turn counts it first; a failure before Codex is asked takes it back.
\<close>

definition send_fresh :: "env \<Rightarrow> account \<Rightarrow> bot_row \<Rightarrow> utext \<Rightarrow> world \<Rightarrow> (message \<times> delivery) outcome" where
  "send_fresh e owner r t w =
     (let u = u_id (ac_user owner) in
      andthen (must_count e u (br_id r) w) (\<lambda>counted w1.
      andthen (or_take_back e u counted (prepare_send e owner r None t w1)) (\<lambda>(thread, r1, m) w2.
        new_turn e owner r1 thread counted m t w2)))"

definition send_running :: "env \<Rightarrow> account \<Rightarrow> bot_row \<Rightarrow> active_turn \<Rightarrow> utext \<Rightarrow> world \<Rightarrow> (message \<times> delivery) outcome" where
  "send_running e owner r a t w =
     andthen (prepare_send e owner r (Some a) t w) (\<lambda>(thread, r1, m) w1. steer e owner r1 a thread m t w1)"

text \<open>A new turn needs turns and tokens left; steering a running turn needs only tokens.\<close>

definition send_allowed :: "env \<Rightarrow> account \<Rightarrow> bot_row \<Rightarrow> utext \<Rightarrow> world \<Rightarrow> (message \<times> delivery) outcome" where
  "send_allowed e owner r t w0 =
     (let w = pause e w0;
          a = allowance_now (now_of e w) (u_id (ac_user owner)) (cv_db (wo_cv w));
          active = map_of (lv_turns (cv_live (wo_cv w))) (br_id r)
      in if tokens_used_up a \<or> (active = None \<and> al_exhausted a) then (Inl limit_reached, w)
         else
           (case runtime_of e w of
              (Inl err, w1) \<Rightarrow> (Inl (unavailable_for err), w1)
            | (Inr _, w1) \<Rightarrow>
                (case active of Some turn \<Rightarrow> send_running e owner r turn t w1 | None \<Rightarrow> send_fresh e owner r t w1)))"

definition send_locked :: "env \<Rightarrow> account \<Rightarrow> bot_id \<Rightarrow> utext \<Rightarrow> world \<Rightarrow> (message \<times> delivery) outcome" where
  "send_locked e owner b t w =
     andthen (the_bot e (u_id (ac_user owner)) b w) (\<lambda>r w1.
       if br_refused_reason r \<noteq> None then (Inl refused_bot, w1) else send_allowed e owner r t w1)"

text \<open>Letting go of a Bot's lock while the Bot is idle counts as its turning idle.\<close>

definition let_go :: "bot_id \<Rightarrow> conversations \<Rightarrow> conversations" where
  "let_go b s = (if is_working b (cv_live s) then s else turned_idle b s)"

definition send :: "env \<Rightarrow> account \<Rightarrow> bot_id \<Rightarrow> utext \<Rightarrow> world \<Rightarrow> (message \<times> delivery) outcome" where
  "send e owner b t w =
     (case check_message t of
        Inl f \<Rightarrow> (Inl f, w)
      | Inr text \<Rightarrow> (case send_locked e owner b text (pause e w) of (r, w1) \<Rightarrow> (r, on_cv (let_go b) w1)))"

section \<open>A routine's run\<close>

text \<open>What starting the turn of a run comes to: its thread, the Bot and the run's marker.\<close>

definition prepare_run ::
  "env \<Rightarrow> account \<Rightarrow> bot_row \<Rightarrow> routine_row \<Rightarrow> routine_run_id \<Rightarrow> utext \<Rightarrow> world \<Rightarrow> (utext \<times> bot_row \<times> message) outcome" where
  "prepare_run e owner r routine run marker w =
     (let u = u_id (ac_user owner) in
      andthen (prepare_thread e owner r w) (\<lambda>thread w1.
      andthen (the_bot e u (ro_bot routine) w1) (\<lambda>r1 w2.
      andthen (post_message e u (marker_message (br_id r1) marker (Some (ro_id routine, run, ro_prompt routine))) w2) (\<lambda>m w3.
        (Inr (thread, r1, m), w3)))))"

text \<open>The run is running, or over if its turn ended already.\<close>

definition run_started :: "env \<Rightarrow> user_id \<Rightarrow> bot_id \<Rightarrow> routine_run_id \<Rightarrow> utext \<Rightarrow> utext \<Rightarrow> world \<Rightarrow> routine_start outcome" where
  "run_started e u b run thread turn w0 =
     (let w = pause e w0; s = wo_cv w in
      case start_run (now_of e w) u b run thread turn (turn_end u turn (cv_live s)) (batch_of s) of
        Inl f \<Rightarrow> (Inl f, w)
      | Inr t \<Rightarrow> (Inr (Started turn), on_cv (commit_batch u t) w))"

definition begin_run ::
  "env \<Rightarrow> account \<Rightarrow> bot_row \<Rightarrow> routine_row \<Rightarrow> routine_run_id \<Rightarrow> utext \<Rightarrow> utext \<Rightarrow> int \<Rightarrow> world \<Rightarrow> routine_start outcome" where
  "begin_run e owner r routine run marker about counted w =
     (let u = u_id (ac_user owner) in
      andthen (or_take_back e u counted (prepare_run e owner r routine run marker w)) (\<lambda>(thread, r1, m) w1.
      andthen (begin_turn e owner r1 thread counted (m_id m) (ro_prompt routine) (Some (routine_context about)) w1)
        (\<lambda>turn w2. run_started e u (br_id r1) run thread turn w2)))"

fun start_without :: "codex_error \<Rightarrow> routine_start" where
  "start_without (CodexSignedOut _) = StartSignedOut"
| "start_without err = StartFailed (f_message (unavailable_for err))"

definition run_with_bot ::
  "env \<Rightarrow> account \<Rightarrow> bot_row \<Rightarrow> routine_row \<Rightarrow> routine_run_id \<Rightarrow> utext \<Rightarrow> utext \<Rightarrow> world \<Rightarrow> routine_start outcome" where
  "run_with_bot e owner r routine run marker about w0 =
     (let u = u_id (ac_user owner); w = pause e w0; a = allowance_now (now_of e w) u (cv_db (wo_cv w))
      in if tokens_used_up a \<or> al_exhausted a then (Inr (StartFailed (f_message limit_reached)), w)
         else
           (case runtime_of e w of
              (Inl err, w1) \<Rightarrow> (Inr (start_without err), w1)
            | (Inr _, w1) \<Rightarrow>
                andthen (count_turn e u (br_id r) w1) (\<lambda>counted w2.
                  case counted of
                    None \<Rightarrow> (Inr (StartFailed (f_message limit_reached)), w2)
                  | Some i \<Rightarrow> begin_run e owner r routine run marker about i w2)))"

definition start_routine_locked ::
  "env \<Rightarrow> account \<Rightarrow> routine_id \<Rightarrow> routine_run_id \<Rightarrow> utext \<Rightarrow> utext \<Rightarrow> world \<Rightarrow> routine_start outcome" where
  "start_routine_locked e owner i run marker about w0 =
     (let u = u_id (ac_user owner); w = pause e w0 in
      case find_run u run (g_routines (cv_db (wo_cv w))) of
        None \<Rightarrow> (Inr NotWaiting, w)
      | Some row \<Rightarrow>
          if ru_state row \<noteq> RunWaiting then (Inr NotWaiting, w)
          else
            let w1 = pause e w in
            (case routine_of_user u i (g_routines (cv_db (wo_cv w1))) of
               None \<Rightarrow> (Inr NotWaiting, w1)
             | Some routine \<Rightarrow>
                 if ro_paused routine \<and> ru_trigger row = ScheduleTrigger then (Inr StartPaused, w1)
                 else
                   let w2 = pause e w1 in
                   (case find_bot u (ro_bot routine) (bots_now w2) of
                      None \<Rightarrow> (Inr (StartFailed (lit ''The Bot no longer exists'')), w2)
                    | Some r \<Rightarrow>
                        if br_refused_reason r \<noteq> None then (Inr (StartFailed (f_message refused_bot)), w2)
                        else if is_working (br_id r) (cv_live (wo_cv w2)) then (Inr StartBusy, w2)
                        else run_with_bot e owner r routine run marker about w2)))"

definition start_routine ::
  "env \<Rightarrow> account \<Rightarrow> routine_id \<Rightarrow> routine_run_id \<Rightarrow> utext \<Rightarrow> utext \<Rightarrow> world \<Rightarrow> routine_start \<times> world" where
  "start_routine e owner i run marker about w =
     (if \<not> ev_lock_free e (wo_time w) then (StartBusy, w)
      else case start_routine_locked e owner i run marker about w of
          (Inr start, w1) \<Rightarrow> (start, w1)
        | (Inl f, w1) \<Rightarrow> (StartFailed (f_message f), w1))"

section \<open>Messages a turn left unanswered\<close>

definition own_message :: "user_id \<Rightarrow> bot_id \<Rightarrow> message_id \<Rightarrow> bots_db \<Rightarrow> message option" where
  "own_message u b i db =
     (case find_message u i db of
        None \<Rightarrow> None
      | Some m \<Rightarrow> if m_bot_id m = b \<and> m_author m = AuthorUser then Some m else None)"

definition prepare_owed :: "env \<Rightarrow> account \<Rightarrow> bot_row \<Rightarrow> world \<Rightarrow> (utext \<times> bot_row) outcome" where
  "prepare_owed e owner r w =
     andthen (prepare_thread e owner r w) (\<lambda>thread w1.
     andthen (the_bot e (u_id (ac_user owner)) (br_id r) w1) (\<lambda>r1 w2. (Inr (thread, r1), w2)))"

definition owed_turn :: "env \<Rightarrow> account \<Rightarrow> bot_row \<Rightarrow> message \<Rightarrow> world \<Rightarrow> bool outcome" where
  "owed_turn e owner r m w0 =
     (let u = u_id (ac_user owner); w = pause e w0; a = allowance_now (now_of e w) u (cv_db (wo_cv w))
      in if tokens_used_up a \<or> al_exhausted a then (Inl limit_reached, w)
         else
           (case runtime_of e w of
              (Inl err, w1) \<Rightarrow> (Inl (unavailable_for err), w1)
            | (Inr _, w1) \<Rightarrow>
                andthen (must_count e u (br_id r) w1) (\<lambda>counted w2.
                andthen (or_take_back e u counted (prepare_owed e owner r w2)) (\<lambda>(thread, r1) w3.
                andthen (begin_turn e owner r1 thread counted (m_id m) (m_text m) None w3) (\<lambda>_ w4. (Inr True, w4))))))"

text \<open>Whether a turn of the Bot started, here or meanwhile.\<close>

definition start_owed :: "env \<Rightarrow> user_id \<Rightarrow> bot_id \<Rightarrow> world \<Rightarrow> bool outcome" where
  "start_owed e u b w0 =
     (let w = pause e w0; lv = cv_live (wo_cv w);
          w1 = on_cv (with_live (\<lambda>lv. lv\<lparr>lv_owed := AList.delete b (lv_owed lv)\<rparr>)) w
      in if map_of (lv_turns lv) b \<noteq> None then (Inr True, w1)
         else
           (case map_of (lv_owed lv) b of
              None \<Rightarrow> (Inr False, w1)
            | Some [] \<Rightarrow> (Inr False, w1)
            | Some (i # ms) \<Rightarrow>
                let w2 = pause e w1; w3 = pause e w2; w4 = pause e w3 in
                (case account (g_accounts (cv_db (wo_cv w2))) u of
                   None \<Rightarrow> (Inr False, w2)
                 | Some owner \<Rightarrow>
                     (case find_bot u b (bots_now w3) of
                        None \<Rightarrow> (Inr False, w3)
                      | Some r \<Rightarrow>
                          (case own_message u (br_id r) (last (i # ms)) (bots_now w4) of
                             None \<Rightarrow> (Inr False, w4)
                           | Some m \<Rightarrow>
                               if u_disabled (ac_user owner) \<or> br_refused_reason r \<noteq> None then (Inr False, w4)
                               else owed_turn e owner r m w4)))))"

definition answer_owed :: "env \<Rightarrow> user_id \<Rightarrow> bot_id \<Rightarrow> world \<Rightarrow> world" where
  "answer_owed e u b w0 =
     (case start_owed e u b w0 of (r, w) \<Rightarrow>
        let (started, w1) = (case r of
              Inr started \<Rightarrow> (started, w)
            | Inl f \<Rightarrow>
                let w2 = on_cv (emit_alone u (BotError b (f_message f))) (pause e w)
                in (is_working b (cv_live (wo_cv w2)), w2))
        in if started then w1 else on_cv (turned_idle b) (on_cv (announce_status u b) (pause e w1)))"

section \<open>Stopping, and the meter\<close>

definition interrupt_turn :: "env \<Rightarrow> utext \<Rightarrow> utext \<Rightarrow> world \<Rightarrow> bool \<times> world" where
  "interrupt_turn e thread turn w0 =
     (let w = pause e w0 in
      if \<not> ev_running e (wo_time w) then (False, w)
      else case ask e (InterruptCall thread turn) w of (Inl _, w1) \<Rightarrow> (False, w1) | (Inr _, w1) \<Rightarrow> (True, w1))"

definition stop :: "env \<Rightarrow> user_id \<Rightarrow> bot_id \<Rightarrow> world \<Rightarrow> bool outcome" where
  "stop e u b w0 =
     andthen (the_bot e u b w0) (\<lambda>_ w.
       case map_of (lv_turns (cv_live (wo_cv w))) b of
         None \<Rightarrow> (Inr False, w)
       | Some a \<Rightarrow>
           let w1 = pause e w in
           if \<not> ev_running e (wo_time w1) then (Inr False, w1)
           else case ask e (InterruptCall (an_thread a) (an_turn a)) w1 of
               (Inl err, w2) \<Rightarrow> (Inl (unavailable_for err), w2)
             | (Inr _, w2) \<Rightarrow> (Inr True, w2))"

text \<open>The meter reads the subscription's windows from the app server when none are cached, or one reset.\<close>

definition meter :: "timestamp \<Rightarrow> user_id \<Rightarrow> rate_limits_response option \<Rightarrow> conversations \<Rightarrow> usage \<times> conversations" where
  "meter now u answer s =
     (let cached = (case cache_get (cv_subscription s) u of None \<Rightarrow> None | Some bs \<Rightarrow> if stale bs now then None else Some bs);
          (subscription, s1) = (case cached of
              Some bs \<Rightarrow> (bs, s)
            | None \<Rightarrow>
                (case answer of
                   None \<Rightarrow> ([], s)
                 | Some r \<Rightarrow> (buckets_of r, s\<lparr>cv_subscription := cache_set (cv_subscription s) u (buckets_of r)\<rparr>)))
      in (usage_of subscription (allowance_now now u (cv_db s1)), s1))"

definition prune_all :: "timestamp \<Rightarrow> gateway_db \<Rightarrow> gateway_db" where
  "prune_all now db =
     (let db1 = with_usage (prune_usage now (usage_view db)) db;
          db2 = prune_seen now (db1\<lparr>g_calls := prune_calls now (g_calls db1)\<rparr>);
          db3 = db2\<lparr>g_notifications := prune_notifications now (g_notifications db2)\<rparr>
      in prune_pushes now (db3\<lparr>g_routines := prune_runs now (g_routines db3)\<rparr>))"

text \<open>Users with usage that left a window, or with a subscription window that reset, hear their meter; then old rows go.\<close>

definition refresh_limits :: "(user_id \<Rightarrow> rate_limits_response option) \<Rightarrow> user_id \<Rightarrow> conversations \<Rightarrow> conversations" where
  "refresh_limits answers u s =
     (case answers u of None \<Rightarrow> s | Some r \<Rightarrow> s\<lparr>cv_subscription := cache_set (cv_subscription s) u (buckets_of r)\<rparr>)"

definition roll_over ::
  "(user_id \<Rightarrow> rate_limits_response option) \<Rightarrow> timestamp \<Rightarrow> timestamp \<Rightarrow> timestamp \<Rightarrow> conversations \<Rightarrow> user_id list \<times> conversations" where
  "roll_over answers clock since now s =
     (let reset = resetting (cv_subscription s) since now;
          users = sorted_list_of_set (rolled_over since now (usage_view (cv_db s)) \<union> reset);
          s1 = fold (refresh_limits answers) (sorted_list_of_set reset) s;
          s2 = fold (usage_changed clock) users s1
      in (users, s2\<lparr>cv_db := prune_all now (cv_db s2)\<rparr>))"

end
