(* ===== verification/ConversationPromises.thy ===== *)
theory ConversationPromises
  imports ConversationLog Sends
begin

text \<open>
  Runs of the conversation service: routed events, streamed text written out, restarts, and
  whatever other tasks commit, among them the batches of sends and their waits. What the
  gateway announced is what it stores, and a client that heard it all shows it.
\<close>

section \<open>Steps of the service\<close>

text \<open>
  A task of the gateway may commit a new message with its announcement and other changes
  (\<open>Posted\<close>), changes that leave the messages alone (\<open>Committed\<close>), and changes that nobody
  hears of (\<open>Unheard\<close>).
\<close>

inductive service_step :: "conversations \<Rightarrow> conversations \<Rightarrow> bool" where
  Routed: "service_step s (route_event quoted now instant u ev s)"
| Flushed: "service_step s (flush now s)"
| Restarted: "service_step s (recover_replies now (s\<lparr>cv_live := no_live, cv_subscription := Map.empty, cv_tasks := [], cv_wakes := False\<rparr>))"
| Posted: "insert_message now u n (g_bots (cv_db s)) = Inr (m, bots) \<Longrightarrow> bd_messages (g_bots (t_db t)) = bd_messages bots
    \<Longrightarrow> t_events t = es @ MessageCreated m # fs \<Longrightarrow> list_all (\<lambda>e. \<not> message_event e) (es @ fs)
    \<Longrightarrow> service_step s (commit_batch u t s)"
| Committed: "quiet (batch_of s) t \<Longrightarrow> service_step s (commit_batch u t s)"
| Unheard: "bd_messages (g_bots (cv_db s')) = bd_messages (g_bots (cv_db s)) \<Longrightarrow> cv_log s' = cv_log s
    \<Longrightarrow> lv_replies (cv_live s') = lv_replies (cv_live s) \<Longrightarrow> service_step s s'"

lemma in_step_unheard:
  "in_step s \<Longrightarrow> bd_messages (g_bots (cv_db s')) = bd_messages (g_bots (cv_db s)) \<Longrightarrow> cv_log s' = cv_log s
    \<Longrightarrow> lv_replies (cv_live s') = lv_replies (cv_live s) \<Longrightarrow> in_step s'"
  by (simp add: in_step_def spoken_def log_of_def follows_def stored_def replies_ok_def reply_ok_def)

lemma tells_split: "tells u db es db' \<Longrightarrow> bd_messages db'' = bd_messages db' \<Longrightarrow> list_all (\<lambda>e. \<not> message_event e) (fs @ gs)
    \<Longrightarrow> tells u db (fs @ es @ gs) db''"
  using tells_trans [OF tells_other [of db db fs u] tells_trans [of u db es db' gs db'', OF _ tells_other [of db'' db' gs u]]] by simp

lemma in_step_posted:
  assumes s: "in_step s" and ins: "insert_message now u n (g_bots (cv_db s)) = Inr (m, bots)"
    and t: "bd_messages (g_bots (t_db t)) = bd_messages bots" "t_events t = es @ MessageCreated m # fs"
      "list_all (\<lambda>e. \<not> message_event e) (es @ fs)"
  shows "in_step (commit_batch u t s)"
proof (rule in_step_commit [OF s])
  have "tells u (g_bots (cv_db s)) (es @ [MessageCreated m] @ fs) (g_bots (t_db t))" by (rule tells_split [OF tells_insert [OF ins] t(1,3)])
  moreover have "kept (g_bots (cv_db s)) (g_bots (t_db t))" using kept_trans [OF kept_insert [OF ins] kept_same [OF t(1)]] .
  ultimately show "speaks u (batch_of s) t" using t(2) by (simp add: speaks_def batch_of_def)
qed

lemma in_step_service: "service_step s s' \<Longrightarrow> in_step s \<Longrightarrow> in_step s'"
proof (induction rule: service_step.induct)
  case (Restarted s now)
  show ?case
    by (rule in_step_recover) (use Restarted in \<open>simp add: in_step_def spoken_def log_of_def replies_ok_def no_live_def\<close>)
next
  case (Posted now u n s m bots t es fs)
  then show ?case using in_step_posted by blast
next
  case (Unheard s' s)
  then show ?case using in_step_unheard by blast
qed (simp_all add: in_step_route in_step_flush in_step_quiet)

lemma in_step_run: "rtranclp service_step s s' \<Longrightarrow> in_step s \<Longrightarrow> in_step s'"
  by (induction rule: rtranclp_induct) (simp_all add: in_step_service)

text \<open>To begin with there are no messages, and nothing was announced.\<close>

definition fresh_service :: "conversations \<Rightarrow> bool" where
  "fresh_service s \<longleftrightarrow> bd_messages (g_bots (cv_db s)) = [] \<and> cv_log s = [] \<and> cv_live s = no_live"

lemma in_step_fresh: "fresh_service s \<Longrightarrow> in_step s"
  by (simp add: fresh_service_def in_step_def spoken_def log_of_def follows_def stored_def replies_ok_def no_live_def same_def ascending_def)

section \<open>The log a client reads\<close>

lemma heard_fold: "heard es S b = fold (server_event b) es (S b)"
  by (induction es arbitrary: S) (simp_all add: hear_def)

lemma heard_server_at: "heard (map e_event (take k L)) (\<lambda>_. Map.empty) b = server_at b L k"
  by (simp add: heard_fold server_at_def fold_map comp_def)

lemma events_fit_nth:
  "events_fit es S \<longleftrightarrow> (\<forall>k < length es. event_fits (heard (take k es) S) (es ! k))"
proof (induction es arbitrary: S)
  case (Cons e es)
  then show ?case by (auto simp: less_Suc_eq_0_disj nth_Cons' split: if_splits)
qed simp

lemma log_fits_events:
  assumes "numbered L" and fit: "events_fit (map e_event L) (\<lambda>_. Map.empty)"
  shows "log_fits L"
proof -
  have "event_fits (\<lambda>b. server_at b L k) (e_event (L ! k))" if "k < length L" for k
  proof -
    have eq: "(\<lambda>b. server_at b L k) = heard (map e_event (take k L)) (\<lambda>_. Map.empty)" by (rule ext) (simp only: heard_server_at)
    show ?thesis unfolding eq using fit that by (simp add: events_fit_nth take_map)
  qed
  then show ?thesis using assms(1) by (simp add: log_fits_def)
qed

lemma in_step_log:
  assumes "in_step s" and "numbered L" and "map e_event L = log_of u s"
  shows "log_fits L \<and> (\<forall>b i. same (server_at b L (length L) i) (stored u b (g_bots (cv_db s)) i))"
proof -
  have "events_fit (map e_event L) (\<lambda>_. Map.empty)" and f: "follows u (heard (map e_event (take (length L) L)) (\<lambda>_. Map.empty)) (g_bots (cv_db s))"
    using assms(1) unfolding in_step_def spoken_def by (simp_all add: assms(3))
  then show ?thesis using log_fits_events [OF assms(2)] f unfolding follows_def heard_server_at by blast
qed

section \<open>Properties\<close>



section \<open>A reply from the app server to the screen\<close>

text \<open>One Bot with a thread; a reply begins, streams, is written out and completes.\<close>

definition example_talk :: conversations where
  "example_talk = \<lparr>cv_db = \<lparr>g_accounts = \<lparr>db_users = [], db_sessions = [], db_invitations = []\<rparr>,
     g_bots = \<lparr>bd_bots = [\<lparr>br_id = 1, br_user = 1, br_name = [65], br_label = [], br_description = [], br_avatar = None,
         br_pinned = False, br_hidden = False, br_thread_id = Some [116], br_profile_revision = 1, br_profile_sent_revision = 1,
         br_refused_reason = None, br_made_by = None, br_created_at = 0, br_updated_at = 0, br_grants = [],
         br_thread_grants = [], br_carryover_marker = None\<rparr>],
       bd_threads = [(1, [116], 1)], bd_messages = [], bd_markers = []\<rparr>,
     g_routines = \<lparr>rd_routines = [], rd_runs = []\<rparr>, g_turns = [], g_tokens = [], g_notes = [], g_calls = [], g_notifications = [],
     g_subscriptions = [], g_pushes = [], g_seen = [], g_reported = (\<lambda>_ _. 0)\<rparr>,
     cv_log = [], cv_live = no_live, cv_subscription = Map.empty, cv_tasks = [], cv_wakes = False\<rparr>"

definition example_routed :: conversations where
  "example_routed = route_event id 12 0 1 (ItemCompletedEvent [116] [110] (AgentItem [105] [104, 105, 33]))
     (flush 11 (route_event id 11 0 1 (DeltaEvent [116] [110] [105] [105])
       (route_event id 10 0 1 (ItemStartedEvent [116] [110] (AgentItem [105] [104])) example_talk)))"

definition example_said :: "utext \<Rightarrow> message_state \<Rightarrow> timestamp \<Rightarrow> message" where
  "example_said t s updated = \<lparr>m_id = 1, m_bot_id = 1, m_author = AuthorBot, m_text = t, m_state = s,
     m_created_at = 10, m_updated_at = updated, m_kind = TextMessage, m_routine = None, m_notification = None\<rparr>"

definition example_log :: "envelope list" where
  "example_log = [\<lparr>e_seq = 1, e_at = 10, e_event = MessageCreated (example_said [104] Streaming 10)\<rparr>,
     \<lparr>e_seq = 2, e_at = 11, e_event = MessageDelta 1 1 1 [105]\<rparr>,
     \<lparr>e_seq = 3, e_at = 12, e_event = MessageCompleted (example_said [104, 105, 33] Complete 12)\<rparr>]"

lemmas talk_eval = example_talk_def route_event_def item_started_def start_reply_def message_delta_def item_completed_def
  flush_def write_out_def finish_one_def with_live_def commit_batch_def batch_of_def bot_by_thread_def thread_bot_def find_bot_def
  insert_message_def new_message_row_def reply_row_def next_rowid_def append_text_def finish_message_def update_where_def
  is_current_def replying_def no_live_def tx_open_def emit_def on_bots_def taken_out_def coalesce_def Let_def

lemma run_routed: "rtranclp service_step s0 s \<Longrightarrow> rtranclp service_step s0 (route_event quoted now instant u ev s)"
  using rtranclp.rtrancl_into_rtrancl [of service_step s0 s] Routed by blast

lemma run_flushed: "rtranclp service_step s0 s \<Longrightarrow> rtranclp service_step s0 (flush now s)"
  using rtranclp.rtrancl_into_rtrancl [of service_step s0 s] Flushed by blast

lemma example_started: "rtranclp service_step example_talk example_routed"
  unfolding example_routed_def by (intro run_routed run_flushed rtranclp.rtrancl_refl)

lemma example_fresh: "fresh_service example_talk"
  by (simp add: fresh_service_def example_talk_def)

lemma example_routed_log: "log_of 1 example_routed = map e_event example_log"
  by (simp add: example_routed_def talk_eval log_of_def example_log_def example_said_def message_from_def author_from_def
    state_from_def kind_from_def)

lemma example_numbered: "numbered example_log"
  by (simp add: numbered_def example_log_def eval_nat_numeral)

lemma example_log_length: "length example_log = 3"
  by (simp add: example_log_def)


text \<open>The client asks for the conversation, gets an empty page from before, and reads the log.\<close>

definition example_reading :: "client_op list" where
  "example_reading = [Ask (SnapMessages 1), GetMessages 1 \<lparr>pg_messages = [], pg_older = None, pg_seq = 0\<rparr>, NextEvent, NextEvent, NextEvent]"

lemmas reading_eval = example_reading_def example_log_def example_said_def client_step_def Let_def request_def
  store_apply_def hold_def MAX_HELD_def then_apply_def apply_to_conversation_def apply_to_bots_def apply_to_routines_def
  apply_usage_def finish_def new_client_def new_store_def no_change_def merge_applied_def load_messages_def
  note_newest_def replay_held_def loaded_def reload_if_stale_def settle_def append_delta_def changed_def

lemma example_reading_allowed: "run_allowed example_log example_reading new_client"
proof -
  have "page_shows example_log 1 \<lparr>pg_messages = [], pg_older = None, pg_seq = 0\<rparr>"
    unfolding page_shows_def by (rule exI [of _ 0]) (simp add: page_map_def covers_def)
  then show ?thesis by (simp add: reading_eval)
qed


end
