(* ===== verification/SendSafety.thy ===== *)
theory SendSafety
  imports ConversationPromises
begin

text \<open>
  Sends, whatever other tasks do while they wait: each is a sequence of steps of the service;
  turns counted are taken back unless the app server may have started one; and a new turn
  runs only on a thread with the Bot's grants.
\<close>

section \<open>Running an operation\<close>

lemma andthen_simps [simp]: "andthen (Inl f, w) k = (Inl f, w)" "andthen (Inr a, w) k = k a w"
  by (simp_all add: andthen_def)

lemma andthen_cases [case_names failed went_on]:
  assumes "andthen r k = (x, w')"
  obtains f where "r = (Inl f, w')" "x = Inl f"
  | a w1 where "r = (Inr a, w1)" "k a w1 = (x, w')"
  using assms by (cases r; cases "fst r") (auto simp: andthen_def)

section \<open>Sends are steps of the service\<close>

definition others_serve :: "env \<Rightarrow> bool" where
  "others_serve e \<longleftrightarrow> (\<forall>n s. rtranclp service_step s (ev_others e n s))"

definition later :: "world \<Rightarrow> world \<Rightarrow> bool" where
  "later w w' \<longleftrightarrow> rtranclp service_step (wo_cv w) (wo_cv w')"

lemma later_refl [simp]: "later w w"
  by (simp add: later_def)

lemma later_trans: "later w w' \<Longrightarrow> later w' w'' \<Longrightarrow> later w w''"
  by (simp add: later_def)

lemma later_same: "wo_cv w' = wo_cv w \<Longrightarrow> later w w'"
  by (simp add: later_def)

lemma later_step: "service_step (wo_cv w) (wo_cv w') \<Longrightarrow> later w w'"
  by (simp add: later_def r_into_rtranclp)

lemma later_pause: "others_serve e \<Longrightarrow> later w (pause e w)"
  by (simp add: others_serve_def later_def pause_def)

lemma later_then: "later w w1 \<Longrightarrow> service_step (wo_cv w1) (wo_cv w') \<Longrightarrow> later w w'"
  using later_trans later_step by blast

lemma on_cv_simps [simp]: "wo_cv (on_cv f w) = f (wo_cv w)" "wo_deeds (on_cv f w) = wo_deeds w" "wo_time (on_cv f w) = wo_time w"
  by (simp_all add: on_cv_def)

lemma done_deed_simps [simp]: "wo_cv (done_deed d w) = wo_cv w" "wo_deeds (done_deed d w) = wo_deeds w @ [d]"
  by (simp_all add: done_deed_def)

lemma pause_deeds [simp]: "wo_deeds (pause e w) = wo_deeds w"
  by (simp add: pause_def)

text \<open>An operation that, whatever comes of it, is a sequence of steps.\<close>

definition serves :: "(world \<Rightarrow> 'a outcome) \<Rightarrow> bool" where
  "serves f \<longleftrightarrow> (\<forall>w. later w (snd (f w)))"

lemma servesD: "serves f \<Longrightarrow> later w (snd (f w))"
  by (simp add: serves_def)

lemma later_andthen:
  assumes r: "later w (snd r)" and k: "\<And>a. serves (k a)"
  shows "later w (snd (andthen r k))"
proof (cases r)
  case (Pair x w1)
  show ?thesis
  proof (cases x)
    case (Inr a)
    then show ?thesis using Pair later_trans [OF r servesD [OF k [of a]]] by simp
  qed (use Pair r in simp)
qed

lemma step_refl: "service_step s s"
  by (rule Unheard) simp_all

lemma later_ask: "others_serve e \<Longrightarrow> later w (snd (ask e call w))"
  unfolding ask_def Let_def by (simp, rule later_trans [OF later_same later_pause]) simp_all

lemma ask_serves: "others_serve e \<Longrightarrow> ask e call w = (r, w') \<Longrightarrow> later w w'"
  using later_ask [of e w call] by simp

lemma serves_the_bot: "others_serve e \<Longrightarrow> serves (the_bot e u b)"
  by (simp add: serves_def the_bot_def Let_def or_not_found_def later_pause split: option.split)

lemma quiet_set_refused: "quiet t (emit_status u b lv (on_bots (set_refused now u b reason) t))"
  by (intro quiet_emit_status quiet_refused quiet_refl)

lemma serves_refusing: "others_serve e \<Longrightarrow> serves (refusing e u b err)"
  unfolding serves_def refusing_def Let_def
  by (auto intro!: later_then [OF later_pause] Committed quiet_set_refused split: codex_error.split)

lemma posted_step:
  "insert_message now u n (g_bots (cv_db s)) = Inr (m, bots) \<Longrightarrow> bd_messages bots1 = bd_messages bots
    \<Longrightarrow> service_step s (commit_batch u (emit (MessageCreated m) (on_bots (\<lambda>_. bots1) (batch_of s))) s)"
  by (rule Posted [where es = "[]" and fs = "[]"]) (simp_all add: emit_def on_bots_def batch_of_def)

lemma serves_post: "others_serve e \<Longrightarrow> serves (post_message e u n)"
  unfolding serves_def post_message_def Let_def bots_now_def
  by (auto intro!: later_then [OF later_pause] posted_step step_refl split: sum.split)

lemma unheard_bots:
  "bd_messages (f (g_bots (cv_db s))) = bd_messages (g_bots (cv_db s)) \<Longrightarrow> service_step s (s\<lparr>cv_db := (cv_db s)\<lparr>g_bots := f (g_bots (cv_db s))\<rparr>\<rparr>)"
  by (rule Unheard) simp_all

lemma later_write: "others_serve e \<Longrightarrow> (\<And>db. bd_messages (f db) = bd_messages db) \<Longrightarrow> later w (write_bots e f w)"
  unfolding write_bots_def by (rule later_then [OF later_pause], assumption, simp, rule unheard_bots)

lemma bot_writes_keep_messages:
  "bd_messages (set_profile_sent u b revision db) = bd_messages db"
  "bd_messages (clear_carryover u b marker db) = bd_messages db"
  "set_thread u b thread revision gs db = Inr db' \<Longrightarrow> bd_messages db' = bd_messages db"
  "replace_thread u b old fresh revision gs marker db = Inr (ok, db') \<Longrightarrow> bd_messages db' = bd_messages db"
  by (auto simp: set_profile_sent_def clear_carryover_def set_thread_def replace_thread_def record_thread_def split: if_splits)

lemma serves_switch: "others_serve e \<Longrightarrow> serves (switch_thread e u r old fresh)"
  unfolding serves_def switch_thread_def Let_def bots_now_def
  by (auto intro!: later_then [OF later_pause] posted_step step_refl dest: bot_writes_keep_messages(4)
    split: sum.split bool.split)

lemma serves_first: "others_serve e \<Longrightarrow> serves (first_thread e u r fresh)"
  unfolding serves_def first_thread_def Let_def bots_now_def
  by (auto intro!: later_then [OF later_pause] Unheard dest: bot_writes_keep_messages(3) split: sum.split)

lemma serves_serve_thread: "others_serve e \<Longrightarrow> serves (serve_thread e owner r thread)"
  unfolding serves_def serve_thread_def Let_def
  by (auto intro: ask_serves later_trans [OF ask_serves servesD [OF serves_refusing]] split: prod.split sum.split)

lemma serves_prepare: "others_serve e \<Longrightarrow> serves (prepare_thread e owner r)"
proof -
  assume e: "others_serve e"
  have fresh: "later w (snd (case ask e call w of (Inl err, w1) \<Rightarrow> refusing e u b err w1
      | (Inr thread, w1) \<Rightarrow> (case br_thread_id r of None \<Rightarrow> first_thread e v r thread w1 | Some old \<Rightarrow> switch_thread e v r old thread w1)))" for w call u v b
    by (auto intro: later_trans [OF ask_serves [OF e] servesD [OF serves_refusing [OF e]]]
      later_trans [OF ask_serves [OF e] servesD [OF serves_first [OF e]]]
      later_trans [OF ask_serves [OF e] servesD [OF serves_switch [OF e]]] split: prod.split sum.split option.split)
  show ?thesis
    unfolding serves_def prepare_thread_def Let_def
    using fresh servesD [OF serves_serve_thread [OF e]]
    by (auto intro!: later_andthen simp: serves_def split: option.split if_split)
qed

lemma serves_Inr [simp]: "serves (Pair x)"
  by (simp add: serves_def)

lemma serves_carryover: "others_serve e \<Longrightarrow> serves (pending_carryover e owner b sending)"
  unfolding pending_carryover_def
  by (subst serves_def) (auto intro!: later_andthen servesD [OF serves_the_bot] simp: serves_def later_pause Let_def split: option.split)

lemma step_usage: "service_step s (commit_batch u (snd (emit_usage now u c (on_usage f (batch_of s)))) s)"
  by (rule Committed) (simp add: quiet_emit_usage quiet_on_usage)

lemma reserve_step: "reserve now u b s = Inr (i, s') \<Longrightarrow> service_step s s'"
  by (auto simp: reserve_def and_then_Inr step_refl intro: step_usage split: option.splits)

lemma serves_count: "others_serve e \<Longrightarrow> serves (count_turn e u b)"
  unfolding serves_def count_turn_def Let_def
  by (auto intro!: later_then [OF later_pause] simp: step_refl dest: reserve_step split: sum.split option.split)

lemma serves_must_count: "others_serve e \<Longrightarrow> serves (must_count e u b)"
  unfolding must_count_def
  by (subst serves_def) (auto intro!: later_andthen servesD [OF serves_count] simp: serves_def split: option.split)

lemma later_take_back: "others_serve e \<Longrightarrow> later w (take_back e u i w)"
  unfolding take_back_def Let_def
  by (rule later_then [OF later_pause], assumption) (simp add: release_def, rule step_usage)

lemma serves_take_back: "others_serve e \<Longrightarrow> serves f \<Longrightarrow> serves (\<lambda>w. or_take_back e u i (f w))"
  unfolding serves_def or_take_back_def
  by (auto intro: later_trans [OF _ later_take_back] split: prod.split sum.split) (metis snd_conv later_take_back later_trans)+

lemma note_turn_replies: "lv_replies (snd (note_turn u b thread turn lv)) = lv_replies lv"
  by (simp add: note_turn_def Let_def)

lemma step_working: "service_step s (announce_working u b s)"
  unfolding announce_working_def announce_status_def
  by (simp add: step_refl) (rule impI, rule Committed, simp add: quiet_emit_status)

lemma later_begun: "others_serve e \<Longrightarrow> later w (begun e u r thread turn marker w)"
proof -
  assume e: "others_serve e"
  define w2 where "w2 = (case marker of None \<Rightarrow> write_bots e (set_profile_sent u (br_id r) (br_profile_revision r)) w
    | Some m \<Rightarrow> write_bots e (clear_carryover u (br_id r) m) (write_bots e (set_profile_sent u (br_id r) (br_profile_revision r)) w))"
  note wrote = later_write [OF e bot_writes_keep_messages(1)] later_write [OF e bot_writes_keep_messages(2)]
  have w2: "later w w2" using wrote(1) later_trans [OF wrote(1) wrote(2)] by (simp add: w2_def split: option.split)
  obtain started lv where noted: "note_turn u (br_id r) thread turn (cv_live (wo_cv w2)) = (started, lv)" by fastforce
  have w3: "later w (on_cv (with_live (\<lambda>_. lv)) w2)"
    by (rule later_then [OF w2]) (use note_turn_replies [of u "br_id r" thread turn "cv_live (wo_cv w2)"] noted
      in \<open>auto intro!: Unheard simp: with_live_def\<close>)
  have "begun e u r thread turn marker w = (if started
      then on_cv (announce_working u (br_id r)) (pause e (on_cv (with_live (\<lambda>_. lv)) w2)) else on_cv (with_live (\<lambda>_. lv)) w2)"
    using noted by (simp add: begun_def Let_def w2_def [symmetric] cong: option.case_cong)
  then show ?thesis using w3 later_then [OF later_trans [OF w3 later_pause [OF e]]] by (simp add: step_working)
qed

lemma serves_begin: "others_serve e \<Longrightarrow> serves (begin_turn e owner r thread counted begun_by input extra)"
proof -
  assume e: "others_serve e"
  note refuse = servesD [OF serves_refusing [OF e]]
  have started: "serves (\<lambda>w1. case ask e call w1 of
      (Inl err, w2) \<Rightarrow> refusing e u b err (if had_no_effect err then take_back e u counted w2 else w2)
    | (Inr turn, w2) \<Rightarrow> (Inr turn, begun e v r thread turn m w2))" for call u b v m
    unfolding serves_def
    by (auto intro: later_trans [OF later_trans [OF ask_serves [OF e] later_take_back [OF e]] refuse]
      later_trans [OF ask_serves [OF e] refuse] later_trans [OF ask_serves [OF e] later_begun [OF e]] split: prod.split sum.split)
  show ?thesis
    unfolding begin_turn_def Let_def
    by (subst serves_def) (intro allI later_andthen started servesD [OF serves_take_back [OF e serves_carryover [OF e]]])
qed

lemma serves_andthen: "serves f \<Longrightarrow> (\<And>a. serves (k a)) \<Longrightarrow> serves (\<lambda>w. andthen (f w) k)"
  using later_andthen servesD by (subst serves_def) blast

lemma serves_prepare_send: "others_serve e \<Longrightarrow> serves (prepare_send e owner r active t)"
proof -
  assume e: "others_serve e"
  have thread: "serves (\<lambda>w. case active of
      Some a \<Rightarrow> andthen (serve_thread e owner r (an_thread a) w) (\<lambda>_ w1. (Inr (an_thread a), w1)) | None \<Rightarrow> prepare_thread e owner r w)"
    by (cases active) (auto intro!: serves_andthen serves_serve_thread [OF e] serves_prepare [OF e])
  show ?thesis
    unfolding prepare_send_def Let_def store_message_def
    by (intro serves_andthen thread serves_the_bot [OF e] serves_post [OF e] serves_Inr)
qed

lemma serves_new_turn: "others_serve e \<Longrightarrow> serves (new_turn e owner r thread counted m t)"
  unfolding new_turn_def by (intro serves_andthen serves_begin serves_Inr)

lemma serves_steer_missed: "others_serve e \<Longrightarrow> serves (steer_missed e owner r m t)"
  unfolding steer_missed_def Let_def by (intro serves_andthen serves_must_count serves_take_back serves_prepare serves_new_turn)

lemma serves_steer: "others_serve e \<Longrightarrow> serves (steer e owner r a thread m t)"
proof -
  assume e: "others_serve e"
  show ?thesis
    unfolding steer_def Let_def serves_def
    by (auto intro: ask_serves [OF e] later_trans [OF ask_serves [OF e] servesD [OF serves_steer_missed [OF e]]]
      later_trans [OF ask_serves [OF e] servesD [OF serves_refusing [OF e]]]
      later_trans [OF ask_serves [OF e] later_write [OF e]] simp: bot_writes_keep_messages split: prod.split sum.split codex_error.split)
qed

lemma later_runtime: "others_serve e \<Longrightarrow> runtime_of e w = (r, w') \<Longrightarrow> later w w'"
  using later_pause [of e w] by (auto simp: runtime_of_def Let_def)

lemma serves_runtime: "others_serve e \<Longrightarrow> serves f \<Longrightarrow> (\<And>err. serves (g err))
    \<Longrightarrow> later w (snd (case runtime_of e w of (Inl err, w1) \<Rightarrow> g err w1 | (Inr x, w1) \<Rightarrow> f w1))"
  using later_trans [OF later_runtime servesD [of f]] later_trans [OF later_runtime servesD [of "g err" for err]]
  by (auto split: prod.split sum.split)

lemma serves_send_fresh: "others_serve e \<Longrightarrow> serves (send_fresh e owner r t)"
  unfolding send_fresh_def Let_def
  by (intro serves_andthen serves_must_count serves_take_back serves_prepare_send) (auto intro: serves_new_turn split: prod.split)

lemma serves_send_running: "others_serve e \<Longrightarrow> serves (send_running e owner r a t)"
  unfolding send_running_def by (intro serves_andthen serves_prepare_send) (auto intro: serves_steer split: prod.split)

lemma serves_send_allowed: "others_serve e \<Longrightarrow> serves (send_allowed e owner r t)"
proof -
  assume e: "others_serve e"
  have on: "serves (\<lambda>w1. case active of Some turn \<Rightarrow> send_running e owner r turn t w1 | None \<Rightarrow> send_fresh e owner r t w1)" for active
    by (cases active) (simp_all add: serves_send_running [OF e] serves_send_fresh [OF e])
  show ?thesis
    unfolding serves_def send_allowed_def Let_def
    using later_trans [OF later_pause [OF e] serves_runtime [OF e on]] later_pause [OF e] by simp
qed

lemma step_let_go: "service_step s (let_go b s)"
  by (auto simp: let_go_def turned_idle_def with_live_def count_idle_def step_refl intro: Unheard)

lemma serves_send: "others_serve e \<Longrightarrow> serves (send e owner b t)"
proof -
  assume e: "others_serve e"
  have locked: "serves (send_locked e owner b said)" for said
    unfolding send_locked_def by (intro serves_andthen serves_the_bot [OF e]) (simp add: serves_def servesD [OF serves_send_allowed [OF e]])
  have "later w (snd (case send_locked e owner b said (pause e w) of (r, w1) \<Rightarrow> (r, on_cv (let_go b) w1)))" for w said
  proof (cases "send_locked e owner b said (pause e w)")
    case (Pair r w1)
    have "later w w1" using later_trans [OF later_pause [OF e] servesD [OF locked], of w said] Pair by simp
    then show ?thesis unfolding Pair by (simp add: later_then step_let_go)
  qed
  then show ?thesis by (simp add: serves_def send_def split: sum.split)
qed

text \<open>The same for a routine's run, and for messages a turn left unanswered.\<close>

lemma serves_prepare_run: "others_serve e \<Longrightarrow> serves (prepare_run e owner r routine run marker)"
  unfolding prepare_run_def Let_def by (intro serves_andthen serves_prepare serves_the_bot serves_post serves_Inr)

lemma quiet_start_run: "start_run now u b i thread turn ended t = Inr t' \<Longrightarrow> quiet t t'"
proof -
  assume s: "start_run now u b i thread turn ended t = Inr t'"
  define t1 where "t1 = (case set_running now u i thread turn (g_routines (t_db t)) of
      (None, _) \<Rightarrow> t
    | (Some running, rdb) \<Rightarrow> on_notifications (attribute_notifications u b thread turn i)
        (on_calls (attribute_calls u b thread turn i) (emit_run running (on_routines (\<lambda>_. rdb) t))))"
  have "quiet t (on_notifications f (on_calls g (emit_run running (on_routines (\<lambda>_. rdb) t))))" for running rdb f g
  proof (rule quiet_trans)
    show "quiet t (emit_run running (on_routines (\<lambda>_. rdb) t))"
      unfolding emit_run_def by (intro quiet_emits quiet_on_routines quiet_refl) simp
  qed (rule quiet_same, simp_all)
  then have "quiet t t1" by (simp add: t1_def split: prod.split option.split)
  moreover have "t1 = t' \<or> (\<exists>status. end_turn now u turn status False t1 = Inr t')"
    using s unfolding start_run_def Let_def t1_def [symmetric] by (cases ended) auto
  ultimately show ?thesis using quiet_trans quiet_end_turn by blast
qed

lemma serves_run_started: "others_serve e \<Longrightarrow> serves (run_started e u b run thread turn)"
  unfolding serves_def run_started_def Let_def
  by (auto intro!: later_then [OF later_pause] Committed quiet_start_run step_refl split: sum.split)

lemma serves_begin_run: "others_serve e \<Longrightarrow> serves (begin_run e owner r routine run marker about counted)"
proof -
  assume e: "others_serve e"
  have turn: "serves (\<lambda>w1. andthen (begin_turn e owner r1 thread counted m input extra w1) (\<lambda>turn w2. run_started e u b run thread turn w2))"
    for r1 thread m input extra u b
    by (intro serves_andthen serves_begin [OF e] serves_run_started [OF e])
  show ?thesis
    unfolding begin_run_def Let_def
    by (intro serves_andthen serves_take_back [OF e] serves_prepare_run [OF e]) (auto intro: turn split: prod.split)
qed

lemma serves_run_with_bot: "others_serve e \<Longrightarrow> serves (run_with_bot e owner r routine run marker about)"
proof -
  assume e: "others_serve e"
  have counted: "serves (\<lambda>w1. andthen (count_turn e u b w1) (\<lambda>counted w2. case counted of
      None \<Rightarrow> (Inr (StartFailed (f_message limit_reached)), w2) | Some i \<Rightarrow> begin_run e owner r routine run marker about i w2))" for u b
  proof (intro serves_andthen serves_count [OF e])
    fix counted
    show "serves (\<lambda>w2. case counted of
      None \<Rightarrow> (Inr (StartFailed (f_message limit_reached)), w2) | Some i \<Rightarrow> begin_run e owner r routine run marker about i w2)"
      by (cases counted) (simp_all add: serves_begin_run [OF e])
  qed
  show ?thesis
    unfolding serves_def run_with_bot_def Let_def
    using later_trans [OF later_pause [OF e] serves_runtime [OF e counted, where g = "\<lambda>err. Pair (Inr (start_without err))"]]
      later_pause [OF e] by simp
qed

lemma serves_start_locked: "others_serve e \<Longrightarrow> serves (start_routine_locked e owner i run marker about)"
proof -
  assume e: "others_serve e"
  note one = later_pause [OF e] and two = later_trans [OF later_pause [OF e] later_pause [OF e]]
  note three = later_trans [OF two later_pause [OF e]]
  show ?thesis
    unfolding serves_def start_routine_locked_def Let_def
    using one two three later_trans [OF three servesD [OF serves_run_with_bot [OF e]]]
    by (simp split: option.split if_split)
qed

lemma later_start_routine: "others_serve e \<Longrightarrow> later w (snd (start_routine e owner i run marker about w))"
  using servesD [OF serves_start_locked, of e w owner i run marker about]
  by (auto simp: start_routine_def split: prod.split sum.split)

lemma serves_owed_turn: "others_serve e \<Longrightarrow> serves (owed_turn e owner r m)"
proof -
  assume e: "others_serve e"
  have prepared: "serves (prepare_owed e owner r)"
    unfolding prepare_owed_def by (intro serves_andthen serves_prepare [OF e] serves_the_bot [OF e] serves_Inr)
  have begun: "serves (\<lambda>w3. andthen (begin_turn e owner r1 thread counted i input None w3) (\<lambda>_ w4. (Inr True, w4)))" for r1 thread counted i input
    by (intro serves_andthen serves_begin [OF e] serves_Inr)
  have counted: "serves (\<lambda>w1. andthen (must_count e u b w1) (\<lambda>counted w2. andthen (or_take_back e u counted (prepare_owed e owner r w2))
      (\<lambda>(thread, r1) w3. andthen (begin_turn e owner r1 thread counted (m_id m) (m_text m) None w3) (\<lambda>_ w4. (Inr True, w4)))))" for u b
    by (intro serves_andthen serves_must_count [OF e] serves_take_back [OF e prepared]) (auto intro: begun split: prod.split)
  show ?thesis
    unfolding serves_def owed_turn_def Let_def
    using later_trans [OF later_pause [OF e] serves_runtime [OF e counted, where g = "\<lambda>err. Pair (Inl (unavailable_for err))"]]
      later_pause [OF e] by simp
qed

lemma serves_start_owed: "others_serve e \<Longrightarrow> serves (start_owed e u b)"
proof -
  assume e: "others_serve e"
  have one: "later w (on_cv (with_live (\<lambda>lv. lv\<lparr>lv_owed := AList.delete b (lv_owed lv)\<rparr>)) (pause e w))" for w
    by (rule later_then [OF later_pause [OF e]]) (auto intro: Unheard simp: with_live_def)
  note two = later_trans [OF one later_pause [OF e]]
  note three = later_trans [OF two later_pause [OF e]]
  note four = later_trans [OF three later_pause [OF e]]
  show ?thesis
    unfolding serves_def start_owed_def Let_def
    using one two three four later_trans [OF four servesD [OF serves_owed_turn [OF e]]]
    by (simp split: option.split list.split if_split)
qed

lemma later_answer_owed: "others_serve e \<Longrightarrow> later w (answer_owed e u b w)"
proof -
  assume e: "others_serve e"
  have status: "service_step s (announce_status u b s)" for s
    unfolding announce_status_def by (rule Committed) (simp add: quiet_emit_status)
  have alone: "service_step s (emit_alone u (BotError b x) s)" for s x
    unfolding emit_alone_def by (rule Committed) (simp add: quiet_emit)
  have idle: "service_step s (turned_idle b s)" for s
    by (auto simp: turned_idle_def with_live_def count_idle_def intro: Unheard)
  obtain r w1 where r: "start_owed e u b w = (r, w1)" by fastforce
  have w1: "later w w1" using servesD [OF serves_start_owed [OF e], of w u b] r by simp
  have failed: "later w (on_cv (emit_alone u (BotError b x)) (pause e w1))" for x
    by (rule later_then [OF later_trans [OF w1 later_pause [OF e]]]) (simp add: alone)
  have rest: "later w (on_cv (turned_idle b) (on_cv (announce_status u b) (pause e w2)))" if "later w w2" for w2
  proof -
    have "later w (on_cv (announce_status u b) (pause e w2))"
      by (rule later_then [OF later_trans [OF that later_pause [OF e]]]) (simp add: status)
    then show ?thesis by (rule later_then) (simp add: idle)
  qed
  show ?thesis
    unfolding answer_owed_def r using w1 failed rest by (simp add: Let_def split: sum.split)
qed

end
