(* ===== verification/TurnPromises.thy ===== *)
theory TurnPromises
  imports SendSafety
begin

text \<open>
  What a send does with turns and threads. What it waits for is an interface: reading rows,
  storing a message, recording a refusal and calls that start no turn keep whatever waiting
  keeps; one instance is the ledger of turns, another the Bot's thread and grants.
\<close>

section \<open>What waiting keeps\<close>

fun starts_turn :: "codex_call \<Rightarrow> bool" where
  "starts_turn (StartTurn _ _ _) = True"
| "starts_turn _ = False"

fun of_turns :: "deed \<Rightarrow> bool" where
  "of_turns (Called call _) = starts_turn call"
| "of_turns _ = True"

locale waiting =
  fixes e :: env and R :: "world \<Rightarrow> world \<Rightarrow> bool"
  assumes kept_refl: "R w w"
    and kept_trans: "R w w1 \<Longrightarrow> R w1 w2 \<Longrightarrow> R w w2"
    and kept_pause: "R w (pause e w)"
    and kept_call: "\<not> starts_turn call \<Longrightarrow> R w (done_deed (Called call a) w)"
    and kept_write: "R w (on_cv (commit_batch v (emit ev (on_bots (\<lambda>_. bots) (batch_of (wo_cv w))))) w)
      \<or> bd_bots bots \<noteq> bd_bots (bots_now w)"
    and kept_refusal: "R w (on_cv (\<lambda>s. commit_batch v (emit_status v b (cv_live s) (on_bots (set_refused now v b reason) (batch_of s))) s) w)"
begin

lemma kept_then: "R w (snd r) \<Longrightarrow> (\<And>a w'. R w' (snd (k a w'))) \<Longrightarrow> R w (snd (andthen r k))"
  by (cases r; cases "fst r") (auto simp: andthen_def intro: kept_trans)

lemma kept_the_bot: "R w (snd (the_bot e u b w))"
  by (simp add: the_bot_def Let_def or_not_found_def kept_pause split: option.split)

lemma kept_ask: "\<not> starts_turn call \<Longrightarrow> R w (snd (ask e call w))"
  unfolding ask_def Let_def by (simp, rule kept_trans [OF kept_call kept_pause])

lemma kept_refusing: "R w (snd (refusing e u b err w))"
  by (auto simp: refusing_def Let_def kept_refl intro: kept_trans [OF kept_pause kept_refusal] split: codex_error.split)

lemma kept_post: "R w (snd (post_message e u n w))"
proof (cases "insert_message (now_of e (pause e w)) u n (bots_now (pause e w))")
  case (Inr mb)
  obtain m bots where mb: "mb = (m, bots)" by fastforce
  have "bd_bots bots = bd_bots (bots_now (pause e w))" using Inr mb by (auto dest!: insert_message_Inr)
  then have "R (pause e w) (on_cv (commit_batch u (emit (MessageCreated m) (on_bots (\<lambda>_. bots) (batch_of (wo_cv (pause e w)))))) (pause e w))"
    using kept_write [of "pause e w" u "MessageCreated m" bots] by blast
  then show ?thesis using Inr mb by (simp add: post_message_def Let_def on_cv_def kept_trans [OF kept_pause])
qed (simp add: post_message_def Let_def kept_pause)

lemma kept_serve_thread: "R w (snd (serve_thread e owner r thread w))"
proof -
  have "R w (snd (case ask e (ResumeThread thread i gs) w of (Inl err, w1) \<Rightarrow> refusing e u b err w1 | (Inr x, w1) \<Rightarrow> (Inr (), w1)))" for i gs u b
    using kept_ask [of "ResumeThread thread i gs" w] by (auto intro: kept_trans [OF _ kept_refusing] split: prod.split sum.split)
  then show ?thesis by (simp add: serve_thread_def Let_def kept_refl)
qed

lemma kept_carryover: "R w (snd (pending_carryover e owner b sending w))"
  unfolding pending_carryover_def by (rule kept_then [OF kept_the_bot]) (simp add: kept_refl kept_pause Let_def split: option.split)

end

section \<open>The ledger of turns\<close>

definition ledger :: "world \<Rightarrow> deed list" where
  "ledger w = filter of_turns (wo_deeds w)"

lemma ledger_simps [simp]:
  "ledger (pause e w) = ledger w" "ledger (on_cv f w) = ledger w"
  "ledger (done_deed d w) = ledger w @ (if of_turns d then [d] else [])"
  by (simp_all add: ledger_def)

interpretation calm: waiting e "\<lambda>w w'. ledger w' = ledger w" for e
  by unfold_locales simp_all

lemma ledger_cv [simp]: "ledger (w\<lparr>wo_cv := s\<rparr>) = ledger w"
  by (simp add: ledger_def)

lemma ledger_switch: "ledger (snd (switch_thread e u r old fresh w)) = ledger w"
  by (simp add: switch_thread_def Let_def split: sum.split prod.split bool.split)

lemma ledger_first: "ledger (snd (first_thread e u r fresh w)) = ledger w"
  by (simp add: first_thread_def Let_def split: sum.split)

lemma ledger_prepare: "ledger (snd (prepare_thread e owner r w)) = ledger w"
proof -
  have fresh: "ledger (snd (case ask e (StartThread i gs) w of (Inl err, w1) \<Rightarrow> refusing e u b err w1
      | (Inr thread, w1) \<Rightarrow> (case br_thread_id r of None \<Rightarrow> first_thread e v r thread w1 | Some old \<Rightarrow> switch_thread e v r old thread w1)))
    = ledger w" for i gs u v b
    using calm.kept_ask [of "StartThread i gs" e w]
    by (auto simp: calm.kept_refusing ledger_first ledger_switch split: prod.split sum.split option.split)
  show ?thesis
    unfolding prepare_thread_def Let_def
    by (auto simp: fresh calm.kept_then [OF calm.kept_serve_thread] split: option.split)
qed

lemma ledger_prepare_send: "ledger (snd (prepare_send e owner r active t w)) = ledger w"
proof -
  have thread: "ledger (snd (case active of Some a \<Rightarrow> andthen (serve_thread e owner r (an_thread a) w) (\<lambda>_ w1. (Inr (an_thread a), w1))
      | None \<Rightarrow> prepare_thread e owner r w)) = ledger w"
    by (cases active) (simp_all add: calm.kept_then [OF calm.kept_serve_thread] ledger_prepare)
  show ?thesis
    unfolding prepare_send_def Let_def store_message_def
    by (rule calm.kept_then [OF thread], rule calm.kept_then [OF calm.kept_the_bot], rule calm.kept_then [OF calm.kept_post], simp)
qed

lemma ledger_begun: "ledger (begun e u r thread turn marker w) = ledger w"
  by (simp add: begun_def Let_def write_bots_def split: option.split prod.split)

lemma ledger_take_back: "ledger (take_back e u i w) = ledger w @ [TakenBack i]"
  by (simp add: take_back_def Let_def)

lemma ledger_count:
  "must_count e u b w = (r, w') \<Longrightarrow> ledger w' = ledger w @ (case r of Inl _ \<Rightarrow> [] | Inr i \<Rightarrow> [Counted i])"
  by (auto simp: must_count_def count_turn_def andthen_def Let_def split: sum.splits option.splits prod.splits)

text \<open>What becomes of a counted turn: the app server starts it, or is certain not to and it is taken back, or may have.\<close>

definition settled :: "int \<Rightarrow> bool \<Rightarrow> deed list \<Rightarrow> bool" where
  "settled i ok ds \<longleftrightarrow>
     (if ok then \<exists>thread t c turn. ds = [Called (StartTurn thread t c) (Inr turn)]
      else ds = [TakenBack i] \<or> (\<exists>thread t c err. ds = Called (StartTurn thread t c) (Inl err) # (if had_no_effect err then [TakenBack i] else [])))"

lemma isl_Inl: "isl (Inl f)" "\<not> isl (Inr a)"
  by simp_all

lemma begin_settles:
  assumes "begin_turn e owner r thread counted begun_by input extra w = (x, w')"
  shows "\<exists>ds. ledger w' = ledger w @ ds \<and> settled counted (\<not> isl x) ds
    \<and> (\<forall>call a. Called call a \<in> set ds \<longrightarrow> (\<exists>t c. call = StartTurn thread t c))"
proof -
  let ?u = "u_id (ac_user owner)"
  obtain y w1 where carried: "pending_carryover e owner (br_id r) begun_by w = (y, w1)" by fastforce
  have l1: "ledger w1 = ledger w" using calm.kept_carryover [of e owner "br_id r" begun_by w] carried by simp
  show ?thesis
  proof (cases y)
    case (Inl f)
    then have "x = Inl f" "w' = take_back e ?u counted w1"
      using assms carried by (auto simp: begin_turn_def Let_def or_take_back_def)
    then show ?thesis using l1 by (intro exI [of _ "[TakenBack counted]"]) (simp add: settled_def ledger_take_back)
  next
    case (Inr c)
    define ctx where "ctx = merged (merged (profile_of r) (map_option (\<lambda>(_, t). carryover_context t) c)) extra"
    define call where "call = StartTurn thread input ctx"
    obtain a w2 where asked: "ask e call w1 = (a, w2)" by fastforce
    have l2: "ledger w2 = ledger w @ [Called call a]" using asked l1 by (auto simp: ask_def Let_def call_def)
    have eq: "(x, w') = (case (a, w2) of (Inl err, w2) \<Rightarrow> refusing e ?u (br_id r) err (if had_no_effect err then take_back e ?u counted w2 else w2)
        | (Inr turn, w2) \<Rightarrow> (Inr turn, begun e ?u r thread turn (map_option fst c) w2))"
      using assms carried Inr asked by (simp add: begin_turn_def Let_def or_take_back_def ctx_def call_def)
    show ?thesis
    proof (cases a)
      case (Inl err)
      let ?w = "if had_no_effect err then take_back e ?u counted w2 else w2"
      have gone: "refusing e ?u (br_id r) err ?w = (x, w')" using eq Inl by simp
      have "isl x" using gone by (auto simp: refusing_def Let_def split: codex_error.splits)
      have "ledger (snd (refusing e ?u (br_id r) err ?w :: utext outcome)) = ledger ?w" by (rule calm.kept_refusing)
      then have "ledger w' = ledger ?w" unfolding gone by simp
      then have "ledger w' = ledger w @ Called call (Inl err) # (if had_no_effect err then [TakenBack counted] else [])"
        using l2 Inl by (simp add: ledger_take_back)
      moreover have "settled counted (\<not> isl x) (Called call (Inl err) # (if had_no_effect err then [TakenBack counted] else []))"
      proof -
        have "\<exists>thread t c err'. Called call (Inl err) # (if had_no_effect err then [TakenBack counted] else [])
            = Called (StartTurn thread t c) (Inl err') # (if had_no_effect err' then [TakenBack counted] else [])"
          unfolding call_def by (intro exI) (rule refl)
        then show ?thesis using \<open>isl x\<close> unfolding settled_def by simp
      qed
      ultimately show ?thesis by (intro exI conjI) (auto simp: call_def split: if_splits)
    next
      case (Inr turn)
      then have "ledger w' = ledger w @ [Called call (Inr turn)]" "\<not> isl x" using eq l2 by (simp_all add: ledger_begun)
      then show ?thesis by (intro exI conjI) (auto simp: settled_def call_def)
    qed
  qed
qed

text \<open>What a send leaves in the ledger.\<close>

fun accounted :: "failure + message \<times> delivery \<Rightarrow> deed list \<Rightarrow> bool" where
  "accounted (Inr (m, Steered)) ds \<longleftrightarrow> ds = []"
| "accounted (Inr (m, NewTurn)) ds \<longleftrightarrow> (\<exists>i es. ds = Counted i # es \<and> settled i True es)"
| "accounted (Inl f) ds \<longleftrightarrow> ds = [] \<or> (\<exists>i es. ds = Counted i # es \<and> settled i False es)"

lemma new_turn_settles:
  assumes "new_turn e owner r thread counted m t w = (x, w')"
  shows "\<exists>ds. ledger w' = ledger w @ ds \<and> settled counted (\<not> isl x) ds \<and> (case x of Inl f \<Rightarrow> True | Inr (_, d) \<Rightarrow> d = NewTurn)"
proof -
  obtain y w1 where y: "begin_turn e owner r thread counted (m_id m) t None w = (y, w1)" by fastforce
  then have "w' = w1" "isl x = isl y" "case x of Inl f \<Rightarrow> True | Inr (_, d) \<Rightarrow> d = NewTurn"
    using assms by (auto simp: new_turn_def andthen_def split: sum.splits)
  then show ?thesis using begin_settles [OF y] by auto
qed

lemma settled_taken_back: "settled i False [TakenBack i]"
  by (simp add: settled_def)

text \<open>Counted, then prepared: a failure to prepare takes the turn back.\<close>

lemma counted_then_new:
  assumes p: "ledger (snd p) = ledger w" and l: "ledger w = ledger w0 @ [Counted i]"
    and go: "andthen (or_take_back e u i p) k = (x, w')"
    and k: "\<And>a w1 x w'. k a w1 = (x, w') \<Longrightarrow> \<exists>ds. ledger w' = ledger w1 @ ds \<and> settled i (\<not> isl x) ds \<and> (case x of Inl f \<Rightarrow> True | Inr (_, d) \<Rightarrow> d = NewTurn)"
  shows "\<exists>ds. ledger w' = ledger w0 @ ds \<and> accounted x ds"
proof -
  obtain y w1 where y: "p = (y, w1)" by fastforce
  have l1: "ledger w1 = ledger w0 @ [Counted i]" using p l y by simp
  show ?thesis
  proof (cases y)
    case (Inl f)
    then have "x = Inl f" "w' = take_back e u i w1" using go y by (auto simp: or_take_back_def)
    then show ?thesis using l1 settled_taken_back by (intro exI [of _ "[Counted i, TakenBack i]"]) (simp add: ledger_take_back)
  next
    case (Inr a)
    then have "k a w1 = (x, w')" using go y by (simp add: or_take_back_def)
    from k [OF this] obtain ds where ds: "ledger w' = ledger w1 @ ds" "settled i (\<not> isl x) ds"
      "case x of Inl f \<Rightarrow> True | Inr (_, d) \<Rightarrow> d = NewTurn" by blast
    then have "accounted x (Counted i # ds)"
      by (cases x) (auto split: prod.splits)
    then show ?thesis using ds(1) l1 by auto
  qed
qed

lemma fresh_accounts:
  assumes "send_fresh e owner r t w = (x, w')"
  shows "\<exists>ds. ledger w' = ledger w @ ds \<and> accounted x ds"
proof -
  let ?u = "u_id (ac_user owner)"
  obtain c w1 where c: "must_count e ?u (br_id r) w = (c, w1)" by fastforce
  show ?thesis
  proof (cases c)
    case (Inl f)
    then show ?thesis using assms c ledger_count [OF c] by (auto simp: send_fresh_def Let_def)
  next
    case (Inr i)
    have go: "andthen (or_take_back e ?u i (prepare_send e owner r None t w1)) (\<lambda>(thread, r1, m) w2. new_turn e owner r1 thread i m t w2) = (x, w')"
      using assms c Inr by (simp add: send_fresh_def Let_def)
    show ?thesis
    proof (rule counted_then_new [OF ledger_prepare_send _ go])
      show "ledger w1 = ledger w @ [Counted i]" using ledger_count [OF c] Inr by simp
    next
      fix a w2 x w'
      assume a: "(case a of (thread, r1, m) \<Rightarrow> \<lambda>w2. new_turn e owner r1 thread i m t w2) w2 = (x, w')"
      obtain thread r1 m where "a = (thread, r1, m)" by (cases a)
      then have "new_turn e owner r1 thread i m t w2 = (x, w')" using a by simp
      from new_turn_settles [OF this]
      show "\<exists>ds. ledger w' = ledger w2 @ ds \<and> settled i (\<not> isl x) ds \<and> (case x of Inl f \<Rightarrow> True | Inr (_, d) \<Rightarrow> d = NewTurn)" .
    qed
  qed
qed

lemma missed_accounts:
  assumes "steer_missed e owner r m t w = (x, w')"
  shows "\<exists>ds. ledger w' = ledger w @ ds \<and> accounted x ds"
proof -
  let ?u = "u_id (ac_user owner)"
  obtain c w1 where c: "must_count e ?u (br_id r) w = (c, w1)" by fastforce
  show ?thesis
  proof (cases c)
    case (Inl f)
    then show ?thesis using assms c ledger_count [OF c] by (auto simp: steer_missed_def Let_def)
  next
    case (Inr i)
    have go: "andthen (or_take_back e ?u i (prepare_thread e owner r w1)) (\<lambda>thread w2. new_turn e owner r thread i m t w2) = (x, w')"
      using assms c Inr by (simp add: steer_missed_def Let_def)
    show ?thesis
      by (rule counted_then_new [OF ledger_prepare _ go]) (use ledger_count [OF c] Inr new_turn_settles in auto)
  qed
qed

lemma refusal_accounts: "refusing e u b err w = (x, w') \<Longrightarrow> ledger w' = ledger w \<and> isl x"
  using calm.kept_refusing [of e u b err w] by (auto simp: refusing_def Let_def split: codex_error.splits)

lemma steer_accounts:
  assumes "steer e owner r a thread m t w = (x, w')"
  shows "\<exists>ds. ledger w' = ledger w @ ds \<and> accounted x ds"
proof -
  obtain y w1 where y: "ask e (SteerTurn thread (an_turn a) t (steer_client_id (m_id m)) (profile_of r)) w = (y, w1)" by fastforce
  have l1: "ledger w1 = ledger w" using calm.kept_ask [of "SteerTurn thread (an_turn a) t (steer_client_id (m_id m)) (profile_of r)" e w] y by simp
  have refused: "\<exists>ds. ledger w' = ledger w @ ds \<and> accounted x ds" if r: "refusing e u b err w1 = (x, w')" for u b err
    using refusal_accounts [OF r] l1 by (cases x) auto
  show ?thesis
    using assms y missed_accounts [of e owner r m t w1 x w'] refused l1
    by (auto simp: steer_def Let_def write_bots_def split: sum.splits codex_error.splits)
qed

lemma running_accounts:
  assumes "send_running e owner r a t w = (x, w')"
  shows "\<exists>ds. ledger w' = ledger w @ ds \<and> accounted x ds"
proof -
  obtain y w1 where y: "prepare_send e owner r (Some a) t w = (y, w1)" by fastforce
  have l1: "ledger w1 = ledger w" using ledger_prepare_send [of e owner r "Some a" t w] y by simp
  show ?thesis
  proof (cases y)
    case (Inl f)
    then show ?thesis using assms y l1 by (auto simp: send_running_def)
  next
    case (Inr b)
    obtain thread r1 m where "b = (thread, r1, m)" by (cases b)
    then show ?thesis using steer_accounts [of e owner r1 a thread m t w1 x w'] assms y Inr l1 by (simp add: send_running_def)
  qed
qed

lemma allowed_accounts:
  assumes "send_allowed e owner r t w = (x, w')"
  shows "\<exists>ds. ledger w' = ledger w @ ds \<and> accounted x ds"
proof -
  have run: "ledger w1 = ledger w2" if "runtime_of e w2 = (y, w1)" for y w1 w2 using that by (auto simp: runtime_of_def Let_def)
  have fresh: ?thesis if "send_fresh e owner r t w1 = (x, w')" "ledger w1 = ledger w" for w1
    using fresh_accounts [OF that(1)] that(2) by simp
  have running: ?thesis if "send_running e owner r a t w1 = (x, w')" "ledger w1 = ledger w" for a w1
    using running_accounts [OF that(1)] that(2) by simp
  show ?thesis
    using assms
    by (auto simp: send_allowed_def Let_def dest!: run intro: fresh running split: if_splits prod.splits sum.splits option.splits)
qed

text \<open>C3: every turn a send counts is accounted for, whatever other tasks and the app server do: a
  message that steers counts none; one that begins a turn counts one, and the app server
  started it; and when a send fails, either it counted none, or the turn was taken back, or the
  app server was asked for it and failed in a way that may have started it. So no failed send
  costs a turn that certainly did not run, and no turn that may have run goes uncounted.\<close>

theorem turns_are_accounted_for:
  "case send e owner b t w of (x, w') \<Rightarrow> \<exists>ds. ledger w' = ledger w @ ds \<and> accounted x ds"
proof (cases "check_message t")
  case (Inr said)
  obtain r w1 where r: "the_bot e (u_id (ac_user owner)) b (pause e w) = (r, w1)" by fastforce
  have l1: "ledger w1 = ledger w" using calm.kept_the_bot [of e "u_id (ac_user owner)" b "pause e w"] r by simp
  obtain x w2 where x: "send_locked e owner b said (pause e w) = (x, w2)" by fastforce
  have "\<exists>ds. ledger w2 = ledger w @ ds \<and> accounted x ds"
    using x r l1 allowed_accounts [of e owner _ said w1 x w2] by (auto simp: send_locked_def andthen_def split: sum.splits if_splits)
  then show ?thesis using Inr x by (simp add: send_def)
qed (simp add: send_def)

section \<open>The thread of a turn\<close>

text \<open>A Bot's thread, its grants, and the grants its thread started with.\<close>

definition standing :: "user_id \<Rightarrow> bot_id \<Rightarrow> bots_db \<Rightarrow> (utext option \<times> utext \<times> utext) option" where
  "standing u b db = map_option (\<lambda>r. (br_thread_id r, br_grants r, br_thread_grants r)) (find_bot u b db)"

text \<open>Other tasks leave the Bot's thread and grants alone, since changing them takes the lock that the send holds.\<close>

definition others_keep :: "env \<Rightarrow> user_id \<Rightarrow> bot_id \<Rightarrow> bool" where
  "others_keep e u b \<longleftrightarrow> (\<forall>n s. standing u b (g_bots (cv_db (ev_others e n s))) = standing u b (g_bots (cv_db s)))"

lemma standing_rows: "bd_bots db' = bd_bots db \<Longrightarrow> standing u b db' = standing u b db"
  by (simp add: standing_def find_bot_def)

lemma find_bot_update:
  assumes "\<And>r. br_id (f r) = br_id r" "\<And>r. br_user (f r) = br_user r"
  shows "find_bot u b (db\<lparr>bd_bots := update_where p f (bd_bots db)\<rparr>) = map_option (\<lambda>r. if p r then f r else r) (find_bot u b db)"
  using find_update_where_key [of "\<lambda>r. (br_id r, br_user r)" f "(b, u)" p "bd_bots db"] assms by (simp add: find_bot_def)

lemma standing_update:
  assumes "\<And>r. br_id (f r) = br_id r" "\<And>r. br_user (f r) = br_user r" "\<And>r. br_thread_id (f r) = br_thread_id r"
    "\<And>r. br_grants (f r) = br_grants r" "\<And>r. br_thread_grants (f r) = br_thread_grants r"
  shows "standing u b (db\<lparr>bd_bots := update_where p f (bd_bots db)\<rparr>) = standing u b db"
  unfolding standing_def by (subst find_bot_update) (simp_all add: assms option.map_comp comp_def if_distrib cong: if_cong)

lemma standing_writes:
  "standing u b (set_refused now v c reason db) = standing u b db"
  "standing u b (set_profile_sent v c revision db) = standing u b db"
  "standing u b (clear_carryover v c marker db) = standing u b db"
  unfolding set_refused_def set_profile_sent_def clear_carryover_def by (rule standing_update; simp)+

abbreviation stands :: "user_id \<Rightarrow> bot_id \<Rightarrow> world \<Rightarrow> (utext option \<times> utext \<times> utext) option" where
  "stands u b w \<equiv> standing u b (bots_now w)"

lemma bots_now_simps [simp]:
  "bots_now (on_cv (commit_batch v t) w) = g_bots (t_db t)" "bots_now (done_deed d w) = bots_now w"
  "bots_now (on_cv (\<lambda>s. commit_batch v (f s) s) w) = g_bots (t_db (f (wo_cv w)))"
  "bots_now (on_cv (with_live g) w) = bots_now w"
  by (simp_all add: bots_now_def)

lemma emit_status_db [simp]: "t_db (emit_status u b lv t) = t_db t"
  by (simp add: emit_status_def split: option.split)

lemma stands_pause: "others_keep e u b \<Longrightarrow> stands u b (pause e w) = stands u b w"
  by (simp add: others_keep_def bots_now_def pause_def)

interpretation still: waiting e "\<lambda>w w'. others_keep e u b \<longrightarrow> stands u b w' = stands u b w" for e u b
proof unfold_locales
  show "(others_keep e u b \<longrightarrow> stands u b (on_cv (commit_batch v (emit ev (on_bots (\<lambda>_. bots) (batch_of (wo_cv w))))) w) = stands u b w)
      \<or> bd_bots bots \<noteq> bd_bots (bots_now w)" for v ev bots w
    using standing_rows [of bots "bots_now w" u b] by (cases "bd_bots bots = bd_bots (bots_now w)") simp_all
  show "others_keep e u b \<longrightarrow> stands u b (on_cv (\<lambda>s. commit_batch v (emit_status v c (cv_live s)
      (on_bots (set_refused now v c reason) (batch_of s))) s) w) = stands u b w" for v c now reason w
    by (simp add: standing_writes batch_of_def bots_now_def)
qed (simp_all add: stands_pause)

lemma stands_take_back: "others_keep e u b \<Longrightarrow> stands u b (take_back e v i w) = stands u b w"
  by (simp add: take_back_def Let_def release_def emit_usage_def on_usage_def with_usage_def bots_now_def batch_of_def stands_pause [unfolded bots_now_def])

lemma stands_count: "others_keep e u b \<Longrightarrow> must_count e v c w = (r, w') \<Longrightarrow> stands u b w' = stands u b w"
proof -
  assume e: "others_keep e u b" and c: "must_count e v c w = (r, w')"
  have "g_bots (cv_db s') = g_bots (cv_db s)" if "reserve now v c s = Inr (i, s')" for now s i s'
    using that by (auto simp: reserve_def and_then_Inr emit_usage_def Let_def on_usage_def with_usage_def batch_of_def split: option.splits)
  then show ?thesis
    using c stands_pause [OF e, of w]
    by (auto simp: must_count_def count_turn_def andthen_def Let_def bots_now_def done_deed_def split: sum.splits option.splits prod.splits)
qed

lemma stands_begun: "others_keep e u b \<Longrightarrow> stands u b (begun e v r thread turn marker w) = stands u b w"
proof -
  assume e: "others_keep e u b"
  have wrote: "stands u b (write_bots e f w) = stands u b w" if "\<And>db. standing u b (f db) = standing u b db" for f w
    using stands_pause [OF e, of w] that by (simp add: write_bots_def bots_now_def)
  have working: "stands u b (on_cv (announce_working v c) w) = stands u b w" for c w
    by (simp add: announce_working_def announce_status_def bots_now_def batch_of_def on_cv_def)
  show ?thesis
    by (auto simp: begun_def Let_def wrote standing_writes working stands_pause [OF e] split: option.split prod.split)
qed

lemma begin_stands:
  assumes e: "others_keep e u b" and go: "begin_turn e owner r thread counted begun_by input extra w = (x, w')"
  shows "stands u b w' = stands u b w"
proof -
  let ?u = "u_id (ac_user owner)"
  obtain y w1 where carried: "pending_carryover e owner (br_id r) begun_by w = (y, w1)" by fastforce
  have l1: "stands u b w1 = stands u b w" using still.kept_carryover [of e u b owner "br_id r" begun_by w] carried e by simp
  show ?thesis
  proof (cases y)
    case (Inl f)
    then show ?thesis using go carried l1 by (auto simp: begin_turn_def Let_def or_take_back_def stands_take_back [OF e])
  next
    case (Inr c)
    have asked: "stands u b (snd (ask e call w1)) = stands u b w" for call
      using l1 stands_pause [OF e] by (simp add: ask_def Let_def)
    have whole: "stands u b (snd (case ask e call w1 of
        (Inl err, w2) \<Rightarrow> refusing e ?u (br_id r) err (if had_no_effect err then take_back e ?u counted w2 else w2)
      | (Inr turn, w2) \<Rightarrow> (Inr turn, begun e ?u r thread turn m w2))) = stands u b w" for call m
      using asked [of call]
      by (auto simp: stands_begun [OF e] stands_take_back [OF e] still.kept_refusing [rule_format, OF e] split: prod.split sum.split)
    have "(case ask e (StartTurn thread input (merged (merged (profile_of r) (map_option (\<lambda>(_, t). carryover_context t) c)) extra)) w1 of
        (Inl err, w2) \<Rightarrow> refusing e ?u (br_id r) err (if had_no_effect err then take_back e ?u counted w2 else w2)
      | (Inr turn, w2) \<Rightarrow> (Inr turn, begun e ?u r thread turn (map_option fst c) w2)) = (x, w')"
      using go carried Inr by (simp add: begin_turn_def Let_def or_take_back_def)
    from whole [where call = "StartTurn thread input (merged (merged (profile_of r) (map_option (\<lambda>(_, t). carryover_context t) c)) extra)" and m = "map_option fst c",
        unfolded this] show ?thesis by simp
  qed
qed

text \<open>A prepared thread is the Bot's, and has the Bot's grants.\<close>

definition ready :: "user_id \<Rightarrow> bot_id \<Rightarrow> utext \<Rightarrow> world \<Rightarrow> bool" where
  "ready u b thread w \<longleftrightarrow> (\<exists>gs tgs. stands u b w = Some (Some thread, gs, tgs) \<and> grants_from_stored tgs = grants_from_stored gs)"

lemma ready_kept: "stands u b w' = stands u b w \<Longrightarrow> ready u b thread w' = ready u b thread w"
  by (simp add: ready_def)

lemma find_bot_row: "find_bot u b db = Some r \<Longrightarrow> br_id r = b \<and> br_user r = u"
  by (auto simp: find_bot_def dest: find_Some_in)

lemma fresh_standing:
  assumes "standing u b db = Some (t0, gs, tgs0)"
    and "\<And>r. br_id (f r) = br_id r" "\<And>r. br_user (f r) = br_user r" "\<And>r. br_grants (f r) = br_grants r"
    and "\<And>r. br_thread_id (f r) = Some fresh" "\<And>r. br_thread_grants (f r) = tgs"
  shows "standing u b (record_thread v fresh c (db\<lparr>bd_bots := update_where (\<lambda>r. br_id r = b \<and> br_user r = u \<and> br_thread_id r = t0) f (bd_bots db)\<rparr>))
    = Some (Some fresh, gs, tgs)"
proof -
  obtain r where r: "find_bot u b db = Some r" "br_thread_id r = t0" "br_grants r = gs" using assms(1) by (auto simp: standing_def)
  have "bd_bots (record_thread v fresh c db1) = bd_bots db1" for db1 by (simp add: record_thread_def)
  then have "standing u b (record_thread v fresh c db1) = standing u b db1" for db1 using standing_rows by blast
  moreover have "standing u b (db\<lparr>bd_bots := update_where (\<lambda>r. br_id r = b \<and> br_user r = u \<and> br_thread_id r = t0) f (bd_bots db)\<rparr>)
      = Some (Some fresh, gs, tgs)"
    unfolding standing_def by (subst find_bot_update) (use r find_bot_row [OF r(1)] assms in simp_all)
  ultimately show ?thesis by simp
qed

lemma standing_in: "standing u b db = Some (t0, gs, tgs) \<Longrightarrow> list_ex (\<lambda>r. br_id r = b \<and> br_user r = u \<and> br_thread_id r = t0) (bd_bots db)"
  by (auto simp: standing_def find_bot_def list_ex_iff dest!: find_Some_in)

lemma first_ready:
  assumes e: "others_keep e u (br_id r)" and s: "stands u (br_id r) w = Some (None, br_grants r, tgs)"
    and go: "first_thread e u r fresh w = (Inr thread, w')"
  shows "ready u (br_id r) thread w'"
proof -
  have s1: "stands u (br_id r) (pause e w) = Some (None, br_grants r, tgs)" using s stands_pause [OF e] by simp
  obtain bots where set: "set_thread u (br_id r) fresh (br_profile_revision r) (bot_grants r) (bots_now (pause e w)) = Inr bots"
    and w': "thread = fresh" "bots_now w' = bots"
    using go by (auto simp: first_thread_def Let_def bots_now_def split: sum.splits)
  have "standing u (br_id r) bots = Some (Some fresh, br_grants r, grants_to_stored (bot_grants r))"
    using set standing_in [OF s1] fresh_standing [OF s1] by (auto simp: set_thread_def split: if_splits)
  then show ?thesis using w' by (simp add: ready_def bot_grants_def grants_stored_roundtrip)
qed

lemma switch_ready:
  assumes e: "others_keep e u (br_id r)" and s: "stands u (br_id r) w = Some (Some old, br_grants r, tgs)"
    and go: "switch_thread e u r old fresh w = (Inr thread, w')"
  shows "ready u (br_id r) thread w'"
proof -
  let ?ins = "insert_message (now_of e (pause e w)) u (marker_message (br_id r) (capabilities_marker (bot_grants r)) None) (bots_now (pause e w))"
  let ?rep = "\<lambda>m bots. replace_thread u (br_id r) old fresh (br_profile_revision r) (bot_grants r) (m_id m) bots"
  obtain mb where mb: "?ins = Inr mb" using go by (cases ?ins) (simp_all add: switch_thread_def Let_def)
  obtain m bots where "mb = (m, bots)" by fastforce
  then have ins: "?ins = Inr (m, bots)" using mb by simp
  obtain ob where ob: "?rep m bots = Inr ob" using go ins by (cases "?rep m bots") (simp_all add: switch_thread_def Let_def)
  obtain ok bots1 where "ob = (ok, bots1)" by fastforce
  then have rep0: "?rep m bots = Inr (ok, bots1)" using ob by simp
  have "ok" using go ins rep0 by (cases ok) (simp_all add: switch_thread_def Let_def)
  then have rep: "?rep m bots = Inr (True, bots1)" using rep0 by simp
  have w': "thread = fresh" "bots_now w' = bots1"
    using go ins rep by (auto simp: switch_thread_def Let_def batch_of_def)
  have "bd_bots bots = bd_bots (bots_now (pause e w))" using ins by (auto dest!: insert_message_Inr)
  then have s1: "standing u (br_id r) bots = Some (Some old, br_grants r, tgs)"
    using s stands_pause [OF e, of w] standing_rows by metis
  have "standing u (br_id r) bots1 = Some (Some fresh, br_grants r, grants_to_stored (bot_grants r))"
    using rep fresh_standing [OF s1] by (auto simp: replace_thread_def split: if_splits)
  then show ?thesis using w' by (simp add: ready_def bot_grants_def grants_stored_roundtrip)
qed

lemma prepare_ready:
  assumes e: "others_keep e (u_id (ac_user owner)) (br_id r)"
    and s: "stands (u_id (ac_user owner)) (br_id r) w = Some (br_thread_id r, br_grants r, br_thread_grants r)"
    and go: "prepare_thread e owner r w = (Inr thread, w')"
  shows "ready (u_id (ac_user owner)) (br_id r) thread w'"
proof -
  let ?u = "u_id (ac_user owner)"
  have own: ?thesis if t: "br_thread_id r = Some thread0" and same: "grants_from_stored (br_thread_grants r) = bot_grants r" for thread0
  proof -
    have "thread = thread0" and w': "w' = snd (serve_thread e owner r thread0 w)"
      using go t same by (auto simp: prepare_thread_def andthen_def split: prod.splits sum.splits)
    moreover have "stands ?u (br_id r) w' = stands ?u (br_id r) w" unfolding w' using still.kept_serve_thread e by blast
    ultimately show ?thesis using s t same by (simp add: ready_def bot_grants_def)
  qed
  have fresh: ?thesis if other: "\<not> (\<exists>thread0. br_thread_id r = Some thread0 \<and> grants_from_stored (br_thread_grants r) = bot_grants r)"
  proof -
    let ?call = "StartThread (instructions (u_display_name (ac_user owner)) r (bot_grants r)) (bot_grants r)"
    obtain a w1 where a: "ask e ?call w = (a, w1)" by fastforce
    have s1: "stands ?u (br_id r) w1 = Some (br_thread_id r, br_grants r, br_thread_grants r)"
      using still.kept_ask [of ?call e ?u "br_id r" w] a e s by simp
    have step: "(case (a, w1) of (Inl err, w1) \<Rightarrow> refusing e ?u (br_id r) err w1
        | (Inr thread, w1) \<Rightarrow> (case br_thread_id r of None \<Rightarrow> first_thread e ?u r thread w1 | Some old \<Rightarrow> switch_thread e ?u r old thread w1))
      = (Inr thread, w')"
      using go other a by (auto simp: prepare_thread_def Let_def split: option.splits if_splits)
    then show ?thesis
      using first_ready [OF e, of w1] switch_ready [OF e, of w1] s1
      by (auto simp: refusing_def Let_def split: sum.splits option.splits codex_error.splits)
  qed
  show ?thesis using own fresh by blast
qed

text \<open>Every turn that was asked for is asked for on a ready thread.\<close>

definition on_ready :: "user_id \<Rightarrow> bot_id \<Rightarrow> deed list \<Rightarrow> world \<Rightarrow> bool" where
  "on_ready u b ds w \<longleftrightarrow> (\<forall>thread t c a. Called (StartTurn thread t c) a \<in> set ds \<longrightarrow> ready u b thread w)"

lemma on_ready_simps [simp]:
  "on_ready u b [] w" "on_ready u b (Counted i # ds) w = on_ready u b ds w" "on_ready u b (TakenBack i # ds) w = on_ready u b ds w"
  by (auto simp: on_ready_def)

lemma new_turn_ready:
  assumes e: "others_keep e u b" and r: "ready u b thread w" and go: "new_turn e owner r1 thread counted m t w = (x, w')"
  shows "\<exists>ds. ledger w' = ledger w @ ds \<and> on_ready u b ds w'"
proof -
  obtain y w1 where y: "begin_turn e owner r1 thread counted (m_id m) t None w = (y, w1)" by fastforce
  then have w': "w' = w1" using go by (auto simp: new_turn_def andthen_def split: sum.splits)
  obtain ds where ds: "ledger w1 = ledger w @ ds" "\<forall>call a. Called call a \<in> set ds \<longrightarrow> (\<exists>t c. call = StartTurn thread t c)"
    using begin_settles [OF y] by blast
  have "ready u b thread w1" using begin_stands [OF e y] r by (simp add: ready_def)
  then have "on_ready u b ds w1" using ds(2) unfolding on_ready_def by blast
  then show ?thesis using ds(1) unfolding w' by blast
qed

text \<open>The Bot's row as it was read, and as it stands.\<close>

lemma the_bot_reads:
  assumes "others_keep e u b" and "the_bot e u b w = (Inr r, w1)"
  shows "br_id r = b \<and> stands u b w1 = stands u b w \<and> stands u b w1 = Some (br_thread_id r, br_grants r, br_thread_grants r)"
  using assms stands_pause [OF assms(1), of w]
  by (auto simp: the_bot_def Let_def or_not_found_def standing_def dest: find_bot_row split: option.splits)

lemma missed_ready:
  assumes e: "others_keep e (u_id (ac_user owner)) (br_id r)"
    and s: "stands (u_id (ac_user owner)) (br_id r) w = Some (br_thread_id r, br_grants r, br_thread_grants r)"
    and go: "steer_missed e owner r m t w = (x, w')"
  shows "\<exists>ds. ledger w' = ledger w @ ds \<and> on_ready (u_id (ac_user owner)) (br_id r) ds w'"
proof -
  let ?u = "u_id (ac_user owner)"
  obtain c w1 where c: "must_count e ?u (br_id r) w = (c, w1)" by fastforce
  note l1 = ledger_count [OF c] and s1 = stands_count [OF e c]
  obtain p w2 where p: "prepare_thread e owner r w1 = (p, w2)" by fastforce
  have l2: "ledger w2 = ledger w1" using ledger_prepare [of e owner r w1] p by simp
  show ?thesis
  proof (cases c)
    case (Inl f)
    then show ?thesis using go c l1 by (intro exI [of _ "[]"]) (auto simp: steer_missed_def Let_def)
  next
    case counted: (Inr i)
    show ?thesis
    proof (cases p)
      case (Inl f)
      then have "w' = take_back e ?u i w2" using go c counted p by (auto simp: steer_missed_def Let_def or_take_back_def)
      then show ?thesis using l1 l2 counted by (intro exI [of _ "[Counted i, TakenBack i]"]) (simp add: ledger_take_back)
    next
      case (Inr thread)
      have "ready ?u (br_id r) thread w2" by (rule prepare_ready [OF e]) (use s s1 p Inr in simp_all)
      moreover have "new_turn e owner r thread i m t w2 = (x, w')"
        using go c counted p Inr by (simp add: steer_missed_def Let_def or_take_back_def)
      ultimately obtain ds where "ledger w' = ledger w2 @ ds" "on_ready ?u (br_id r) ds w'" using new_turn_ready [OF e] by blast
      then show ?thesis using l1 l2 counted by (intro exI [of _ "Counted i # ds"]) simp
    qed
  qed
qed

lemma steer_ready:
  assumes e: "others_keep e (u_id (ac_user owner)) (br_id r)"
    and s: "stands (u_id (ac_user owner)) (br_id r) w = Some (br_thread_id r, br_grants r, br_thread_grants r)"
    and go: "steer e owner r a thread m t w = (x, w')"
  shows "\<exists>ds. ledger w' = ledger w @ ds \<and> on_ready (u_id (ac_user owner)) (br_id r) ds w'"
proof -
  let ?call = "SteerTurn thread (an_turn a) t (steer_client_id (m_id m)) (profile_of r)"
  obtain y w1 where y: "ask e ?call w = (y, w1)" by fastforce
  have l1: "ledger w1 = ledger w" using calm.kept_ask [of ?call e w] y by simp
  have s1: "stands (u_id (ac_user owner)) (br_id r) w1 = Some (br_thread_id r, br_grants r, br_thread_grants r)"
    using still.kept_ask [of ?call e "u_id (ac_user owner)" "br_id r" w] y e s by simp
  have missed: ?thesis if "steer_missed e owner r m t w1 = (x, w')" using missed_ready [OF e s1 that] l1 by simp
  have quiet: ?thesis if "ledger w' = ledger w1" using that l1 by (intro exI [of _ "[]"]) simp
  have refused: ?thesis if r: "refusing e u b err w1 = (x, w')" for u b err using refusal_accounts [OF r] quiet by blast
  show ?thesis
  proof (cases y)
    case (Inr x)
    then show ?thesis using go y l1 by (intro exI [of _ "[]"]) (auto simp: steer_def Let_def write_bots_def)
  next
    case (Inl err)
    then show ?thesis using go y by (cases err) (auto simp: steer_def Let_def intro: missed refused quiet)
  qed
qed

text \<open>Preparing leaves a ready thread, or the running turn's, and a Bot that stands as it was read.\<close>

lemma prepare_send_ready:
  assumes e: "others_keep e (u_id (ac_user owner)) (br_id r)"
    and s: "stands (u_id (ac_user owner)) (br_id r) w = Some (br_thread_id r, br_grants r, br_thread_grants r)"
    and go: "prepare_send e owner r active t w = (Inr (thread, r1, m), w')"
  shows "br_id r1 = br_id r \<and> stands (u_id (ac_user owner)) (br_id r) w' = Some (br_thread_id r1, br_grants r1, br_thread_grants r1)
    \<and> (active = None \<longrightarrow> ready (u_id (ac_user owner)) (br_id r) thread w')"
proof -
  let ?u = "u_id (ac_user owner)"
  let ?first = "case active of Some a \<Rightarrow> andthen (serve_thread e owner r (an_thread a) w) (\<lambda>_ w1. (Inr (an_thread a), w1)) | None \<Rightarrow> prepare_thread e owner r w"
  obtain y w1 where y: "?first = (y, w1)" by fastforce
  then obtain thread0 where y0: "y = Inr thread0" using go by (cases y) (auto simp: prepare_send_def)
  obtain z w2 where z: "the_bot e ?u (br_id r) w1 = (z, w2)" by fastforce
  then obtain r0 where z0: "z = Inr r0" using go y y0 by (cases z) (auto simp: prepare_send_def)
  obtain q w3 where q: "store_message e ?u (br_id r0) t w2 = (q, w3)" by fastforce
  then obtain m0 where q0: "q = Inr m0" using go y y0 z z0 by (cases q) (auto simp: prepare_send_def)
  have eq: "thread = thread0" "r1 = r0" "w' = w3" using go y y0 z z0 q q0 by (auto simp: prepare_send_def)
  have reads: "br_id r0 = br_id r" "stands ?u (br_id r) w2 = stands ?u (br_id r) w1"
    "stands ?u (br_id r) w2 = Some (br_thread_id r0, br_grants r0, br_thread_grants r0)"
    using the_bot_reads [OF e] z z0 by blast+
  have s3: "stands ?u (br_id r) w3 = stands ?u (br_id r) w2"
    using still.kept_post [of e ?u "br_id r" ?u "user_message (br_id r0) t" w2] q e by (simp add: store_message_def)
  have "ready ?u (br_id r) thread0 w1" if "active = None"
    by (rule prepare_ready [OF e s]) (use y y0 that in simp)
  then show ?thesis using reads s3 eq by (simp add: ready_def)
qed

lemma allowed_ready:
  assumes e: "others_keep e (u_id (ac_user owner)) (br_id r)"
    and s: "stands (u_id (ac_user owner)) (br_id r) w = Some (br_thread_id r, br_grants r, br_thread_grants r)"
    and go: "send_allowed e owner r t w = (x, w')"
  shows "\<exists>ds. ledger w' = ledger w @ ds \<and> on_ready (u_id (ac_user owner)) (br_id r) ds w'"
proof -
  let ?u = "u_id (ac_user owner)"
  have running: ?thesis if g: "send_running e owner r a t w1 = (x, w')" and l: "ledger w1 = ledger w"
      and s1: "stands ?u (br_id r) w1 = stands ?u (br_id r) w" for a w1
  proof -
    obtain y w2 where y: "prepare_send e owner r (Some a) t w1 = (y, w2)" by fastforce
    have l2: "ledger w2 = ledger w" using ledger_prepare_send [of e owner r "Some a" t w1] y l by simp
    show ?thesis
    proof (cases y)
      case (Inl f)
      then show ?thesis using g y l2 by (intro exI [of _ "[]"]) (auto simp: send_running_def)
    next
      case (Inr trm)
      obtain thread r1 m where trm: "trm = (thread, r1, m)" by (cases trm)
      note ok = prepare_send_ready [OF e _ y [unfolded Inr trm]]
      have "br_id r1 = br_id r" "stands ?u (br_id r) w2 = Some (br_thread_id r1, br_grants r1, br_thread_grants r1)" using ok s s1 by simp_all
      moreover have "steer e owner r1 a thread m t w2 = (x, w')" using g y Inr trm by (simp add: send_running_def)
      ultimately show ?thesis using steer_ready [of e owner r1 w2 a thread m t x w'] e l2 by simp
    qed
  qed
  have fresh: ?thesis if g: "send_fresh e owner r t w1 = (x, w')" and l: "ledger w1 = ledger w"
      and s1: "stands ?u (br_id r) w1 = stands ?u (br_id r) w" for w1
  proof -
    obtain c w2 where c: "must_count e ?u (br_id r) w1 = (c, w2)" by fastforce
    note l2 = ledger_count [OF c] and s2 = stands_count [OF e c]
    obtain y w3 where y: "prepare_send e owner r None t w2 = (y, w3)" by fastforce
    have l3: "ledger w3 = ledger w2" using ledger_prepare_send [of e owner r None t w2] y by simp
    show ?thesis
    proof (cases c)
      case (Inl f)
      then show ?thesis using g c l l2 by (intro exI [of _ "[]"]) (auto simp: send_fresh_def Let_def)
    next
      case counted: (Inr i)
      show ?thesis
      proof (cases y)
        case (Inl f)
        then have "w' = take_back e ?u i w3" using g c counted y by (auto simp: send_fresh_def Let_def or_take_back_def)
        then show ?thesis using l l2 l3 counted by (intro exI [of _ "[Counted i, TakenBack i]"]) (simp add: ledger_take_back)
      next
        case (Inr trm)
        obtain thread r1 m where trm: "trm = (thread, r1, m)" by (cases trm)
        have "ready ?u (br_id r) thread w3" using prepare_send_ready [OF e _ y [unfolded Inr trm]] s s1 s2 by simp
        moreover have "new_turn e owner r1 thread i m t w3 = (x, w')"
          using g c counted y Inr trm by (simp add: send_fresh_def Let_def or_take_back_def)
        ultimately obtain ds where "ledger w' = ledger w3 @ ds" "on_ready ?u (br_id r) ds w'" using new_turn_ready [OF e] by blast
        then show ?thesis using l l2 l3 counted by (intro exI [of _ "Counted i # ds"]) simp
      qed
    qed
  qed
  have run: "ledger w1 = ledger w2 \<and> stands ?u (br_id r) w1 = stands ?u (br_id r) w2" if "runtime_of e w2 = (y, w1)" for y w1 w2
    using that stands_pause [OF e] by (auto simp: runtime_of_def Let_def)
  have quiet: ?thesis if "ledger w' = ledger w" using that by (intro exI [of _ "[]"]) simp
  show ?thesis
    using go stands_pause [OF e, of w]
    by (auto simp: send_allowed_def Let_def dest!: run intro: fresh running quiet split: if_splits prod.splits sum.splits option.splits)
qed

text \<open>C5: a new turn runs only on a thread with the Bot's grants. As long as other tasks leave the
  Bot's thread and grants alone while the send holds its lock, every turn the send asks the
  app server for, also one that a missed steer leads to, is on the Bot's current thread, and that
  thread started with exactly the grants the Bot has.\<close>

theorem turns_need_the_bots_grants:
  assumes "others_keep e (u_id (ac_user owner)) b" and "send e owner b t w = (x, w')"
    and "ledger w' = ledger w @ ds" and "Called (StartTurn thread input c) a \<in> set ds"
  shows "\<exists>row. find_bot (u_id (ac_user owner)) b (bots_now w') = Some row \<and> br_thread_id row = Some thread
    \<and> grants_from_stored (br_thread_grants row) = bot_grants row"
proof -
  let ?u = "u_id (ac_user owner)"
  obtain said where said: "check_message t = Inr said" using assms by (cases "check_message t") (auto simp: send_def)
  obtain r w1 where r: "the_bot e ?u b (pause e w) = (r, w1)" by fastforce
  have l1: "ledger w1 = ledger w" using calm.kept_the_bot [of e ?u b "pause e w"] r by simp
  obtain y w2 where y: "send_locked e owner b said (pause e w) = (y, w2)" by fastforce
  have w': "w' = on_cv (let_go b) w2" using assms(2) said y by (simp add: send_def)
  have "\<exists>es. ledger w2 = ledger w @ es \<and> on_ready ?u b es w2"
  proof (cases r)
    case (Inr row)
    note reads = the_bot_reads [OF assms(1) r [unfolded Inr]]
    show ?thesis
      using y r Inr l1 reads allowed_ready [of e owner row w1 said y w2] assms(1)
      by (auto simp: send_locked_def split: if_splits intro: exI [of _ "[]"])
  qed (use y r l1 in \<open>auto simp: send_locked_def intro: exI [of _ "[]"]\<close>)
  then have "on_ready ?u b ds w2" using assms(3) w' by auto
  moreover have "bots_now w' = bots_now w2" by (simp add: w' bots_now_def let_go_def turned_idle_def)
  ultimately have "ready ?u b thread w'" using assms(4) unfolding on_ready_def ready_def by metis
  then show ?thesis by (auto simp: ready_def standing_def bot_grants_def)
qed

section \<open>A message\<close>

text \<open>The Bot has a thread with its grants, other tasks do nothing, and the app server answers every call.\<close>

definition example_owner :: account where
  "example_owner = account_from (new_user_row 1 0 [97] [65] Member default_permissions [])"

definition example_env :: env where
  "example_env = \<lparr>ev_now = (\<lambda>_. 5), ev_others = (\<lambda>_ s. s), ev_answer = (\<lambda>_ _. Inr [9]), ev_runtime = (\<lambda>_. Inr ()),
     ev_served = (\<lambda>_ _. True), ev_running = (\<lambda>_. True), ev_lock_free = (\<lambda>_. True)\<rparr>"

definition example_world :: world where
  "example_world = \<lparr>wo_cv = example_talk, wo_deeds = [], wo_time = 0\<rparr>"

definition example_bot :: bot_row where
  "example_bot = hd (bd_bots (g_bots (cv_db example_talk)))"

lemma example_env_simps [simp]: "ev_now example_env n = 5" "ev_others example_env n s = s" "ev_answer example_env n call = Inr [9]"
  "ev_runtime example_env n = Inr ()" "ev_served example_env n thread"
  by (simp_all add: example_env_def)

lemma example_pause [simp]: "pause example_env w = w\<lparr>wo_time := Suc (wo_time w)\<rparr>" "bots_now (w\<lparr>wo_time := n\<rparr>) = bots_now w"
  "ledger (w\<lparr>wo_time := n\<rparr>) = ledger w"
  by (simp_all add: pause_def bots_now_def ledger_def)

lemma example_message: "check_message [104] = Inr [104]"
  by (simp add: check_message_def check_text_def MAX_MESSAGE_CHARS_def trim_def trim_start_def trim_end_def is_white_def is_control_def Let_def)

lemma example_user: "u_id (ac_user example_owner) = 1"
  by (simp add: example_owner_def account_from_def new_user_row_def Let_def)

lemma example_allowance: "\<not> tokens_used_up (allowance_now now 1 (cv_db example_talk))" "\<not> al_exhausted (allowance_now now 1 (cv_db example_talk))"
  by (simp_all add: tokens_used_up_def allowance_now_def allowance_of_def limits_of_def account_def find_user_def example_talk_def no_limits_def Let_def
    usage_view_def)

lemma example_found: "bots_now w = g_bots (cv_db example_talk) \<Longrightarrow> find_bot 1 1 (bots_now w) = Some example_bot"
  by (simp add: example_bot_def find_bot_def example_talk_def)

lemma example_bot_simps [simp]: "br_id example_bot = 1" "br_thread_id example_bot = Some [116]" "br_grants example_bot = []"
  "br_thread_grants example_bot = []" "br_refused_reason example_bot = None" "br_carryover_marker example_bot = None"
  "br_profile_sent_revision example_bot = 1" "br_profile_revision example_bot = 1"
  by (simp_all add: example_bot_def example_talk_def)

lemma example_counts:
  assumes "wo_cv w = example_talk"
  shows "\<exists>w1. must_count example_env 1 1 w = (Inr 1, w1) \<and> bots_now w1 = g_bots (cv_db example_talk) \<and> ledger w1 = ledger w @ [Counted 1]"
proof -
  have "reserve_turn 5 1 1 (g_accounts (cv_db example_talk)) (usage_view (cv_db example_talk))
      = Inr (Some 1, (usage_view (cv_db example_talk))\<lparr>ud_turns := [\<lparr>tn_id = 1, tn_user_id = 1, tn_bot_id = 1, tn_at = 5\<rparr>]\<rparr>)"
    using example_allowance(2) [of 5]
    by (simp add: reserve_turn_def allowance_now_def usage_view_def example_talk_def next_rowid_def Let_def)
  then show ?thesis using assms
    by (simp add: must_count_def count_turn_def now_of_def andthen_def reserve_def done_deed_def bots_now_def ledger_def Let_def
      emit_usage_def on_usage_def with_usage_def batch_of_def on_bots_def tx_open_def)
qed

lemma example_prepares:
  assumes "bots_now w = g_bots (cv_db example_talk)"
  shows "\<exists>m w1. prepare_send example_env example_owner example_bot None [104] w = (Inr ([116], example_bot, m), w1)
    \<and> find_bot 1 1 (bots_now w1) = Some example_bot \<and> ledger w1 = ledger w"
proof -
  have "bots_now (w\<lparr>wo_time := n\<rparr>) = g_bots (cv_db example_talk)" for n using assms by simp
  note found = example_found [OF this]
  obtain m db where stored: "insert_message 5 1 (user_message 1 [104]) (g_bots (cv_db example_talk)) = Inr (m, db)"
    "bd_bots db = bd_bots (g_bots (cv_db example_talk))"
    by (simp add: insert_message_def user_message_def new_message_row_def example_talk_def find_bot_def next_rowid_def Let_def)
  then have "find_bot 1 1 db = Some example_bot" using example_found [OF assms] assms by (simp add: find_bot_def)
  then show ?thesis using found assms stored
    by (simp add: prepare_send_def prepare_thread_def grants_from_stored_def bot_grants_def serve_thread_def andthen_def the_bot_def
      or_not_found_def store_message_def post_message_def now_of_def example_user on_bots_def batch_of_def Let_def)
qed

lemma example_begins:
  assumes "find_bot 1 1 (bots_now w) = Some example_bot"
  shows "\<exists>w1. new_turn example_env example_owner example_bot [116] 1 m [104] w = (Inr (m, NewTurn), w1)
    \<and> ledger w1 = ledger w @ [Called (StartTurn [116] [104] None) (Inr [9])]"
  using assms by (simp add: new_turn_def begin_turn_def pending_carryover_def the_bot_def or_not_found_def andthen_def or_take_back_def
    profile_of_def merged_def ask_def ledger_begun example_user Let_def)

lemma example_send:
  "\<exists>m w. send example_env example_owner 1 [104] example_world = (Inr (m, NewTurn), w)
    \<and> ledger w = ledger example_world @ [Counted 1, Called (StartTurn [116] [104] None) (Inr [9])]"
proof -
  let ?w = "\<lambda>n. example_world\<lparr>wo_time := n\<rparr>"
  have cv: "wo_cv (?w n) = example_talk" for n by (simp add: example_world_def)
  have b: "bots_now (?w n) = g_bots (cv_db example_talk)" for n by (simp add: bots_now_def cv del: example_pause)
  note found = example_found [OF b]
  obtain w1 where c: "must_count example_env 1 1 (?w (Suc (Suc (Suc (Suc 0))))) = (Inr 1, w1)" "bots_now w1 = g_bots (cv_db example_talk)"
    "ledger w1 = ledger example_world @ [Counted 1]"
    using example_counts [OF cv, of "Suc (Suc (Suc (Suc 0)))"] by auto
  obtain m w2 where p: "prepare_send example_env example_owner example_bot None [104] w1 = (Inr ([116], example_bot, m), w2)"
    "find_bot 1 1 (bots_now w2) = Some example_bot" "ledger w2 = ledger w1"
    using example_prepares [OF c(2)] by auto
  obtain w3 where n: "new_turn example_env example_owner example_bot [116] 1 m [104] w2 = (Inr (m, NewTurn), w3)"
    "ledger w3 = ledger w2 @ [Called (StartTurn [116] [104] None) (Inr [9])]"
    using example_begins [OF p(2)] by auto
  have "send_fresh example_env example_owner example_bot [104] (?w (Suc (Suc (Suc (Suc 0))))) = (Inr (m, NewTurn), w3)"
    using c p n by (simp add: send_fresh_def andthen_def or_take_back_def example_user)
  moreover have "wo_time example_world = 0" by (simp add: example_world_def)
  moreover have "lv_turns (cv_live example_talk) = []" by (simp add: example_talk_def no_live_def)
  ultimately show ?thesis using found cv example_allowance n p c
    by (simp add: send_def example_message send_locked_def the_bot_def or_not_found_def andthen_def send_allowed_def runtime_of_def
      example_user now_of_def Let_def)
qed

theorem turns_need_the_bots_grants_witness:
  "\<exists>x w row. send example_env example_owner 1 [104] example_world = (x, w) \<and> find_bot 1 1 (bots_now w) = Some row
    \<and> br_thread_id row = Some [116] \<and> grants_from_stored (br_thread_grants row) = bot_grants row"
proof -
  obtain m w where s: "send example_env example_owner 1 [104] example_world = (Inr (m, NewTurn), w)"
    "ledger w = ledger example_world @ [Counted 1, Called (StartTurn [116] [104] None) (Inr [9])]"
    using example_send by blast
  have others: "others_keep example_env (u_id (ac_user example_owner)) 1" by (simp add: others_keep_def)
  show ?thesis using turns_need_the_bots_grants [OF others s, of "[116]" "[104]" None "Inr [9]"] s(1) by (simp add: example_user)
qed

end
