(* ===== verification/CodexGuard.thy ===== *)
theory CodexGuard
  imports ToolBroker "HOL-Library.List_Lexorder"
begin

text \<open>
  What the gateway demands of a user's app server before it serves a thread
  (\<open>crates/bokkie-gateway/src/codex/guard.rs\<close>), the configuration it writes (\<open>codex/config.rs\<close>)
  and the model catalog it strips and checks (\<open>codex/catalog.rs\<close>). JSON values are serde's;
  printing one, quoting a text as JSON and Rust's \<open>Debug\<close> of a text are parameters.
\<close>

section \<open>The configuration (config.rs)\<close>

definition PROFILE :: utext where
  "PROFILE = lit ''bokkie''"

definition DISABLED_FEATURES :: "utext list" where
  "DISABLED_FEATURES = map lit
     [''shell_tool'', ''unified_exec'', ''shell_snapshot'', ''view_image'', ''image_generation'', ''multi_agent'',
      ''multi_agent_v2'', ''goals'', ''apps'', ''plugins'', ''remote_plugin'', ''browser_use'', ''browser_use_external'',
      ''in_app_browser'', ''computer_use'', ''code_mode_host'', ''sleep_tool'', ''skill_search'', ''tool_suggest'',
      ''hooks'', ''memories'', ''realtime_conversation'', ''use_agent_identity'', ''standalone_web_search'']"

definition WEB_SEARCH_MODE :: utext where
  "WEB_SEARCH_MODE = lit ''live''"

definition CREDENTIALS_STORE :: utext where
  "CREDENTIALS_STORE = lit ''file''"

definition thread_overrides :: "grant_set \<Rightarrow> (utext \<times> json_field) list option" where
  "thread_overrides grants = (if WebSearch \<in> grants then Some [(lit ''web_search'', JsonString WEB_SEARCH_MODE)] else None)"

definition render_config :: "(utext \<Rightarrow> utext) \<Rightarrow> utext \<Rightarrow> utext \<Rightarrow> utext" where
  "render_config quote data_dir catalog =
     lit ''# Written by the Bokkie gateway each time it starts this app server.'' @ [10]
     @ lit ''# Do not edit: the gateway refuses to serve threads if it changes.'' @ [10, 10]
     @ lit ''default_permissions = '' @ quote PROFILE @ [10]
     @ lit ''approval_policy = '' @ [34] @ lit ''never'' @ [34, 10]
     @ lit ''web_search = '' @ [34] @ lit ''disabled'' @ [34, 10]
     @ lit ''model_catalog_json = '' @ quote catalog @ [10]
     @ lit ''project_doc_max_bytes = 0'' @ [10]
     @ lit ''check_for_update_on_startup = false'' @ [10]
     @ lit ''cli_auth_credentials_store = '' @ quote CREDENTIALS_STORE @ [10, 10]
     @ lit ''[features]'' @ [10]
     @ concat (map (\<lambda>feature. feature @ lit '' = false'' @ [10]) DISABLED_FEATURES)
     @ [10] @ lit ''[permissions.'' @ PROFILE @ lit ''.filesystem]'' @ [10]
     @ [34] @ lit '':minimal'' @ [34] @ lit '' = '' @ [34] @ lit ''read'' @ [34, 10]
     @ quote data_dir @ lit '' = '' @ [34] @ lit ''deny'' @ [34, 10]
     @ [34] @ lit '':workspace_roots'' @ [34] @ lit '' = '' @ [34] @ lit ''write'' @ [34, 10]
     @ [10] @ lit ''[permissions.'' @ PROFILE @ lit ''.network]'' @ [10] @ lit ''enabled = false'' @ [10]"

section \<open>Checks (guard.rs)\<close>

type_synonym refusal = utext

record expected =
  ex_data_dir :: utext
  ex_catalog_path :: utext
  ex_slugs :: "utext set"
  ex_workspace :: utext

definition require :: "bool \<Rightarrow> refusal \<Rightarrow> refusal + unit" where
  "require ok reason = (if ok then Inr () else Inl reason)"

text \<open>\<open>for \<dots> { check(x)?; }\<close>: the first refusal.\<close>

fun require_all :: "('a \<Rightarrow> refusal + unit) \<Rightarrow> 'a list \<Rightarrow> refusal + unit" where
  "require_all check [] = Inr ()"
| "require_all check (x # xs) = and_then (check x) (\<lambda>_. require_all check xs)"

lemma require_ok [simp]: "require ok reason = Inr u \<longleftrightarrow> ok"
  by (simp add: require_def)

lemma and_then_ok: "and_then r k = Inr y \<longleftrightarrow> (\<exists>x. r = Inr x \<and> k x = Inr y)"
  by (cases r) (simp_all add: and_then_def)

lemma require_then [simp]: "and_then (require ok reason) k = Inr y \<longleftrightarrow> ok \<and> k () = Inr y"
  by (simp add: require_def and_then_def)

lemma require_all_ok [simp]: "require_all check xs = Inr u \<longleftrightarrow> list_all (\<lambda>x. check x = Inr ()) xs"
  by (induction xs) (auto simp: and_then_ok)

lemma require_all_then [simp]:
  "and_then (require_all check xs) k = Inr y \<longleftrightarrow> list_all (\<lambda>x. check x = Inr ()) xs \<and> k () = Inr y"
  by (simp add: and_then_ok)

definition json_at :: "json_field \<Rightarrow> utext list \<Rightarrow> json_field" where
  "json_at value keys = foldl json_get value keys"

fun as_object :: "json_field \<Rightarrow> (utext \<times> json_field) list option" where
  "as_object (JsonObject kvs) = Some kvs"
| "as_object _ = None"

definition null_or_empty :: "json_field \<Rightarrow> bool" where
  "null_or_empty v \<longleftrightarrow> v = JsonNull \<or> as_object v = Some []"

text \<open>What the profile must give: the paths and their access.\<close>

definition wanted_access :: "expected \<Rightarrow> (utext \<times> utext) list" where
  "wanted_access e = [(lit '':minimal'', lit ''read''), (ex_data_dir e, lit ''deny''), (lit '':workspace_roots'', lit ''write'')]"

definition check_profile :: "expected \<Rightarrow> json_field \<Rightarrow> refusal + unit" where
  "check_profile e profile =
     (case as_object (json_get profile (lit ''filesystem'')) of
        None \<Rightarrow> Inl (lit ''permission profile '' @ PROFILE @ lit '' has no filesystem'')
      | Some filesystem \<Rightarrow>
          and_then (require_all (\<lambda>(path, access). require
              ((case map_of filesystem path of None \<Rightarrow> None | Some v \<Rightarrow> as_str v) = Some access)
              (lit ''profile '' @ PROFILE @ lit '' does not give '' @ path @ [32] @ access @ lit '' access'')) (wanted_access e)) (\<lambda>_.
          and_then (require_all (\<lambda>(path, access). require
              (access = JsonNull \<or> path \<in> set (map fst (wanted_access e)))
              (lit ''profile '' @ PROFILE @ lit '' also grants '' @ path)) filesystem) (\<lambda>_.
          and_then (require (json_at profile [lit ''network'', lit ''enabled''] = JsonBool False)
              (lit ''profile '' @ PROFILE @ lit '' enables the network'')) (\<lambda>_.
          require (json_get profile (lit ''extends'') = JsonNull)
              (lit ''profile '' @ PROFILE @ lit '' extends another profile'')))))"

definition check_config :: "(json_field \<Rightarrow> utext) \<Rightarrow> json_field \<Rightarrow> expected \<Rightarrow> refusal + unit" where
  "check_config shown config e =
     (let value = (\<lambda>key. json_get config (lit key));
          text_is = (\<lambda>key want. as_str (value key) = Some want)
      in and_then (require (text_is ''default_permissions'' PROFILE)
           (lit ''default_permissions is '' @ shown (value ''default_permissions'') @ lit '', not '' @ 34 # PROFILE @ [34])) (\<lambda>_.
         and_then (require (text_is ''approval_policy'' (lit ''never''))
           (lit ''approval_policy is '' @ shown (value ''approval_policy''))) (\<lambda>_.
         and_then (require (text_is ''web_search'' (lit ''disabled''))
           (lit ''web_search is '' @ shown (value ''web_search''))) (\<lambda>_.
         and_then (require (text_is ''model_catalog_json'' (ex_catalog_path e))
           (lit ''model_catalog_json is '' @ shown (value ''model_catalog_json'') @ lit '', not Bokkie's catalog'')) (\<lambda>_.
         and_then (require (value ''project_doc_max_bytes'' = JsonInteger 0)
           (lit ''project_doc_max_bytes is '' @ shown (value ''project_doc_max_bytes'') @ lit '', so AGENTS.md files would be read'')) (\<lambda>_.
         and_then (require (text_is ''cli_auth_credentials_store'' CREDENTIALS_STORE)
           (lit ''cli_auth_credentials_store is '' @ shown (value ''cli_auth_credentials_store'') @ lit '', not '' @ 34 # CREDENTIALS_STORE @ [34])) (\<lambda>_.
         and_then (require (value ''profile'' = JsonNull) (lit ''a config profile is selected'')) (\<lambda>_.
         and_then (require (null_or_empty (value ''profiles'')) (lit ''config profiles are defined'')) (\<lambda>_.
         and_then (require_all (\<lambda>feature.
             let v = json_at config [lit ''features'', feature]
             in require (v = JsonBool False) (lit ''feature '' @ feature @ lit '' is '' @ shown v @ lit '', not false'')) DISABLED_FEATURES) (\<lambda>_.
         and_then (require (null_or_empty (value ''mcp_servers'')) (lit ''MCP servers are configured'')) (\<lambda>_.
         check_profile e (json_at config [lit ''permissions'', PROFILE]))))))))))))"

definition check_models :: "utext list \<Rightarrow> expected \<Rightarrow> refusal + unit" where
  "check_models models e =
     and_then (require (models \<noteq> []) (lit ''model/list is empty'')) (\<lambda>_.
     require_all (\<lambda>m. require (m \<in> ex_slugs e) (lit ''model '' @ m @ lit '' is not in Bokkie's catalog'')) models)"

text \<open>Of an answer to \<open>thread/start\<close> or \<open>thread/resume\<close>, what the gateway reads.\<close>

record thread_session =
  ts_thread :: utext
  ts_model :: utext
  ts_cwd :: utext
  ts_approval :: json_field
  ts_profile :: "(utext \<times> utext option) option"

definition check_thread ::
  "(json_field \<Rightarrow> utext) \<Rightarrow> (utext option \<Rightarrow> utext) \<Rightarrow> thread_session \<Rightarrow> expected \<Rightarrow> refusal + unit" where
  "check_thread shown debug r e =
     (let t = lit ''thread '' @ ts_thread r; profile = ts_profile r
      in and_then (require (case profile of None \<Rightarrow> False | Some (i, _) \<Rightarrow> i = PROFILE)
           (t @ lit '' runs with permission profile '' @ debug (map_option fst profile) @ lit '', not '' @ 34 # PROFILE @ [34])) (\<lambda>_.
         and_then (require (case profile of None \<Rightarrow> False | Some (_, extends) \<Rightarrow> extends = None) (t @ lit '' runs with an extended profile'')) (\<lambda>_.
         and_then (require (ts_approval r = JsonString (lit ''never'')) (t @ lit '' has approval policy '' @ shown (ts_approval r))) (\<lambda>_.
         and_then (require (ts_model r \<in> ex_slugs e)
           (t @ lit '' uses model '' @ ts_model r @ lit '', which is not in Bokkie's catalog'')) (\<lambda>_.
         require (ts_cwd r = ex_workspace e) (t @ lit '' runs outside the user's workspace''))))))"

text \<open>The items of a turn, as the app server reports them.\<close>

datatype codex_item =
    UserMessageItem utext "utext option"
  | AgentMessageItem utext utext
  | ReasoningItem utext
  | PlanItem utext utext
  | ContextCompactionItem utext
  | CommandExecutionItem utext utext
  | DynamicToolCallItem utext utext "utext option"
  | WebSearchItem utext utext "search_action option"
  | McpToolCallItem utext utext utext
  | UnknownItem

fun check_item :: "codex_item \<Rightarrow> grant_set \<Rightarrow> refusal + unit" where
  "check_item (UserMessageItem _ _) grants = Inr ()"
| "check_item (AgentMessageItem _ _) grants = Inr ()"
| "check_item (ReasoningItem _) grants = Inr ()"
| "check_item (PlanItem _ _) grants = Inr ()"
| "check_item (ContextCompactionItem _) grants = Inr ()"
| "check_item (DynamicToolCallItem _ tool namespace) grants =
     (if allows_tool grants tool namespace then Inr ()
      else Inl (lit ''the model called tool '' @ take 64 tool @ lit '', which its thread was not granted''))"
| "check_item (WebSearchItem _ _ _) grants =
     require (WebSearch \<in> grants) (lit ''the model searched the web on a thread without web.search'')"
| "check_item (CommandExecutionItem _ command) grants =
     Inl (lit ''the model ran a command ('' @ decimal (byte_len command) @ lit '' characters) while commands are disabled'')"
| "check_item (McpToolCallItem _ server tool) grants =
     Inl (lit ''the model called MCP tool '' @ server @ 47 # tool)"
| "check_item UnknownItem grants = Inl (lit ''the model used a Codex tool, and every Codex tool is off'')"

section \<open>The catalog (catalog.rs)\<close>

text \<open>\<open>Value::get\<close>, and inserting a key into an object, which keeps its keys in order.\<close>

fun json_lookup :: "json_field \<Rightarrow> utext \<Rightarrow> json_field option" where
  "json_lookup (JsonObject kvs) key = map_of kvs key"
| "json_lookup _ key = None"

fun put_field :: "utext \<Rightarrow> json_field \<Rightarrow> (utext \<times> json_field) list \<Rightarrow> (utext \<times> json_field) list" where
  "put_field k v [] = [(k, v)]"
| "put_field k v ((a, b) # kvs) =
     (if a = k then (k, v) # kvs else if k < a then (k, v) # (a, b) # kvs else (a, b) # put_field k v kvs)"

lemma map_of_put [simp]: "map_of (put_field k v kvs) x = (if x = k then Some v else map_of kvs x)"
  by (induction kvs) auto

definition SHELL_TYPE_DISABLED :: utext where
  "SHELL_TYPE_DISABLED = lit ''disabled''"

definition TOOL_FIELDS :: "(utext \<times> json_field) list" where
  "TOOL_FIELDS = [(lit ''apply_patch_tool_type'', JsonNull), (lit ''tool_mode'', JsonNull), (lit ''multi_agent_version'', JsonNull),
     (lit ''supports_search_tool'', JsonBool False), (lit ''shell_type'', JsonString [])]"

definition expected_field :: "utext \<Rightarrow> json_field \<Rightarrow> json_field" where
  "expected_field field value = (if field = lit ''shell_type'' then JsonString SHELL_TYPE_DISABLED else value)"

definition EXPERIMENTAL :: utext where
  "EXPERIMENTAL = lit ''experimental_supported_tools''"

definition strip_entry :: "json_field \<Rightarrow> refusal + json_field" where
  "strip_entry model =
     (case as_object model of
        None \<Rightarrow> Inl (lit ''a catalog entry is not an object'')
      | Some entry \<Rightarrow> Inr (JsonObject (put_field EXPERIMENTAL (JsonArray [])
          (fold (\<lambda>(field, value). put_field field (expected_field field value)) TOOL_FIELDS entry))))"

fun map_results :: "('a \<Rightarrow> 'e + 'b) \<Rightarrow> 'a list \<Rightarrow> 'e + 'b list" where
  "map_results f [] = Inr []"
| "map_results f (x # xs) = and_then (f x) (\<lambda>y. and_then (map_results f xs) (\<lambda>ys. Inr (y # ys)))"

definition catalog_models :: "json_field \<Rightarrow> json_field list option" where
  "catalog_models catalog =
     (case json_lookup catalog (lit ''models'') of
        None \<Rightarrow> None
      | Some v \<Rightarrow> (case as_array v of None \<Rightarrow> None | Some models \<Rightarrow> if models = [] then None else Some models))"

definition with_models :: "json_field list \<Rightarrow> json_field \<Rightarrow> json_field" where
  "with_models models catalog =
     (case catalog of JsonObject kvs \<Rightarrow> JsonObject (put_field (lit ''models'') (JsonArray models) kvs) | _ \<Rightarrow> catalog)"

definition strip_tools :: "json_field \<Rightarrow> refusal + json_field" where
  "strip_tools catalog =
     (case catalog_models catalog of
        None \<Rightarrow> Inl (lit ''the bundled model catalog has no models'')
      | Some models \<Rightarrow> and_then (map_results strip_entry models) (\<lambda>stripped. Inr (with_models stripped catalog)))"

definition entry_slug :: "json_field \<Rightarrow> utext option" where
  "entry_slug model = (case json_lookup model (lit ''slug'') of None \<Rightarrow> None | Some v \<Rightarrow> as_str v)"

definition check_entry :: "(json_field \<Rightarrow> utext) \<Rightarrow> json_field \<Rightarrow> refusal + utext" where
  "check_entry shown model =
     (case entry_slug model of
        None \<Rightarrow> Inl (lit ''a catalog entry has no slug'')
      | Some slug \<Rightarrow>
          and_then (require_all (\<lambda>(field, value). require (json_lookup model field = Some (expected_field field value))
             (lit ''catalog entry '' @ slug @ lit '' sets '' @ field @ lit '' to ''
               @ shown (case json_lookup model field of None \<Rightarrow> JsonNull | Some v \<Rightarrow> v))) TOOL_FIELDS) (\<lambda>_.
          and_then (require (json_lookup model EXPERIMENTAL = Some (JsonArray []))
             (lit ''catalog entry '' @ slug @ lit '' lists experimental tools'')) (\<lambda>_. Inr slug)))"

definition check_catalog :: "(json_field \<Rightarrow> utext) \<Rightarrow> json_field \<Rightarrow> refusal + utext set" where
  "check_catalog shown catalog =
     (case catalog_models catalog of
        None \<Rightarrow> Inl (lit ''the model catalog has no models'')
      | Some models \<Rightarrow> and_then (map_results (check_entry shown) models) (\<lambda>slugs. Inr (set slugs)))"

end
