(* ===== verification/GuardPromises.thy ===== *)
theory GuardPromises
  imports CodexGuard
begin

text \<open>
  What a passed check means: which keys of the configuration are fixed and how, and that a stripped
  catalog offers no tools and keeps everything else.
\<close>

declare lit_Nil [simp del] lit_Cons [simp del]

lemma lit_eq [simp]: "lit s = lit t \<longleftrightarrow> s = t"
  unfolding lit_def by (rule inj_map_eq_map) (metis inj_onI char_of_char)

section \<open>The configuration\<close>

text \<open>The paths the profile grants, with their access, and the policy as such.\<close>

definition granted_access :: "json_field \<Rightarrow> (utext \<times> json_field) set" where
  "granted_access filesystem = (case as_object filesystem of None \<Rightarrow> {} | Some kvs \<Rightarrow> set (filter (\<lambda>(p, v). v \<noteq> JsonNull) kvs))"

definition profile_locked :: "json_field \<Rightarrow> expected \<Rightarrow> bool" where
  "profile_locked profile e \<longleftrightarrow>
     granted_access (json_get profile (lit ''filesystem'')) = set (map (\<lambda>(p, a). (p, JsonString a)) (wanted_access e))
     \<and> json_at profile [lit ''network'', lit ''enabled''] = JsonBool False \<and> json_get profile (lit ''extends'') = JsonNull"

definition locked_down :: "json_field \<Rightarrow> expected \<Rightarrow> bool" where
  "locked_down config e \<longleftrightarrow>
     json_get config (lit ''default_permissions'') = JsonString PROFILE
     \<and> json_get config (lit ''approval_policy'') = JsonString (lit ''never'')
     \<and> json_get config (lit ''web_search'') = JsonString (lit ''disabled'')
     \<and> json_get config (lit ''model_catalog_json'') = JsonString (ex_catalog_path e)
     \<and> json_get config (lit ''project_doc_max_bytes'') = JsonInteger 0
     \<and> json_get config (lit ''cli_auth_credentials_store'') = JsonString CREDENTIALS_STORE
     \<and> json_get config (lit ''profile'') = JsonNull \<and> null_or_empty (json_get config (lit ''profiles''))
     \<and> list_all (\<lambda>feature. json_at config [lit ''features'', feature] = JsonBool False) DISABLED_FEATURES
     \<and> null_or_empty (json_get config (lit ''mcp_servers''))
     \<and> profile_locked (json_at config [lit ''permissions'', PROFILE]) e"

definition keys_once :: "json_field \<Rightarrow> bool" where
  "keys_once v = (case as_object v of None \<Rightarrow> True | Some kvs \<Rightarrow> distinct (map fst kvs))"

lemma as_str_Some [simp]: "as_str v = Some t \<longleftrightarrow> v = JsonString t"
  by (cases v) auto

lemma lookup_is: "distinct (map fst kvs) \<Longrightarrow> (case map_of kvs p of None \<Rightarrow> None | Some v \<Rightarrow> as_str v) = Some a \<longleftrightarrow> (p, JsonString a) \<in> set kvs"
  by (auto split: option.split dest: map_of_SomeD eq_key_imp_eq_value simp: map_of_eq_Some_iff)

lemma check_profile_ok:
  assumes "keys_once (json_get profile (lit ''filesystem''))"
  shows "check_profile e profile = Inr () \<longleftrightarrow> profile_locked profile e"
proof (cases "as_object (json_get profile (lit ''filesystem''))")
  case None
  then have "granted_access (json_get profile (lit ''filesystem'')) = {}" by (simp add: granted_access_def)
  then show ?thesis using None by (simp add: check_profile_def profile_locked_def wanted_access_def)
next
  case (Some kvs)
  have d: "distinct (map fst kvs)" using assms Some by (simp add: keys_once_def)
  have "(list_all (\<lambda>(p, a). (p, JsonString a) \<in> set kvs) (wanted_access e)
      \<and> list_all (\<lambda>(p, v). v = JsonNull \<or> p \<in> set (map fst (wanted_access e))) kvs)
    \<longleftrightarrow> set (filter (\<lambda>(p, v). v \<noteq> JsonNull) kvs) = set (map (\<lambda>(p, a). (p, JsonString a)) (wanted_access e))" (is "?l \<longleftrightarrow> ?r")
  proof
    assume l: ?l
    have "v = JsonString a" if "(p, v) \<in> set kvs" "(p, a) \<in> set (wanted_access e)" for p v a
    proof -
      have "(p, JsonString a) \<in> set kvs" using l that(2) by (auto simp: list_all_iff)
      then show ?thesis using d that(1) by (metis eq_key_imp_eq_value)
    qed
    then show ?r using l by (fastforce simp: list_all_iff)
  next
    assume r: ?r
    have "(p, JsonString a) \<in> set kvs" if "(p, a) \<in> set (wanted_access e)" for p a
    proof -
      have "(p, JsonString a) \<in> set (map (\<lambda>(p, a). (p, JsonString a)) (wanted_access e))" using that by force
      then show ?thesis unfolding r [symmetric] by simp
    qed
    moreover have "p \<in> fst ` set (wanted_access e)" if "(p, v) \<in> set kvs" "v \<noteq> JsonNull" for p v
    proof -
      have "(p, v) \<in> set (filter (\<lambda>(p, v). v \<noteq> JsonNull) kvs)" using that by simp
      then show ?thesis unfolding r by force
    qed
    ultimately show ?l by (auto simp: list_all_iff)
  qed
  then show ?thesis
    using lookup_is [OF d] by (simp add: check_profile_def profile_locked_def granted_access_def Some case_prod_unfold) blast
qed

lemma config_ok:
  assumes "keys_once (json_at config [lit ''permissions'', PROFILE, lit ''filesystem''])"
  shows "check_config shown config e = Inr () \<longleftrightarrow> locked_down config e"
proof -
  have "check_profile e (json_at config [lit ''permissions'', PROFILE]) = Inr () \<longleftrightarrow> profile_locked (json_at config [lit ''permissions'', PROFILE]) e"
    using assms by (intro check_profile_ok) (simp add: json_at_def)
  then show ?thesis by (simp add: check_config_def locked_down_def Let_def)
qed

text \<open>A configuration passes exactly when it is locked down. The app server's effective
  configuration passes if and only if approvals are never asked for, web search, every listed
  feature, MCP servers, config profiles, AGENTS.md and the network are off, the catalog and the
  sign-in are Bokkie's, and the paths the permission profile grants are exactly three: the
  minimal ones to read, the data directory denied, and the workspace to write.\<close>

lemma configuration_passes_exactly:
  assumes "keys_once (json_at config [lit ''permissions'', PROFILE, lit ''filesystem''])"
  shows "check_config shown config e = Inr () \<longleftrightarrow> locked_down config e"
  by (rule config_ok [OF assms])


section \<open>A configuration that passes\<close>

definition example_expected :: "utext \<Rightarrow> expected" where
  "example_expected ws = \<lparr>ex_data_dir = lit ''/data'', ex_catalog_path = lit ''/data/models.json'', ex_slugs = {[103]}, ex_workspace = ws\<rparr>"

definition example_profile :: json_field where
  "example_profile = JsonObject
     [(lit ''filesystem'', JsonObject [(lit ''/data'', JsonString (lit ''deny'')), (lit '':minimal'', JsonString (lit ''read'')),
        (lit '':workspace_roots'', JsonString (lit ''write'')), (lit ''glob_scan_max_depth'', JsonNull)]),
      (lit ''network'', JsonObject [(lit ''enabled'', JsonBool False)])]"

definition example_config :: json_field where
  "example_config = JsonObject
     [(lit ''default_permissions'', JsonString PROFILE), (lit ''approval_policy'', JsonString (lit ''never'')),
      (lit ''web_search'', JsonString (lit ''disabled'')), (lit ''model_catalog_json'', JsonString (lit ''/data/models.json'')),
      (lit ''project_doc_max_bytes'', JsonInteger 0), (lit ''cli_auth_credentials_store'', JsonString CREDENTIALS_STORE),
      (lit ''features'', JsonObject (map (\<lambda>feature. (feature, JsonBool False)) DISABLED_FEATURES)),
      (lit ''permissions'', JsonObject [(PROFILE, example_profile)])]"

lemma off_features: "list_all (\<lambda>f. map_of (map (\<lambda>f. (f, v)) fs) f = Some v) fs"
  by (simp add: list_all_iff map_of_map_restrict restrict_map_def)

lemma example_locked: "locked_down example_config (example_expected ws)"
proof -
  have "list_all (\<lambda>feature. json_at example_config [lit ''features'', feature] = JsonBool False) DISABLED_FEATURES"
    using off_features [of "JsonBool False" DISABLED_FEATURES]
    by (simp add: example_config_def json_at_def list_all_iff split: option.split)
  moreover have "profile_locked example_profile (example_expected ws)"
    by (auto simp: profile_locked_def example_profile_def granted_access_def wanted_access_def example_expected_def json_at_def)
  ultimately show ?thesis
    by (simp add: locked_down_def example_config_def json_at_def null_or_empty_def example_expected_def)
qed

lemma example_keys: "keys_once (json_at example_config [lit ''permissions'', PROFILE, lit ''filesystem''])"
  by (simp add: keys_once_def json_at_def example_config_def example_profile_def)

lemma example_config_ok: "check_config shown example_config (example_expected ws) = Inr ()"
  using config_ok [OF example_keys] example_locked by blast

lemma configuration_passes_exactly_witness: "check_config (\<lambda>_. []) example_config (example_expected []) = Inr ()"
  using configuration_passes_exactly [OF example_keys] example_locked by blast

section \<open>The catalog\<close>

definition tool_keys :: "utext list" where
  "tool_keys = EXPERIMENTAL # map fst TOOL_FIELDS"

lemma fold_put_fields:
  "map_of (fold (\<lambda>(field, value). put_field field (f field value)) fs kvs) k
    = (case map_of (rev fs) k of None \<Rightarrow> map_of kvs k | Some v \<Rightarrow> Some (f k v))"
  by (induction fs arbitrary: kvs) (auto simp: map_of_append map_add_def split: option.split)

lemma strip_entry_lookup:
  assumes "strip_entry model = Inr model'"
  shows "json_lookup model' k = (if k = EXPERIMENTAL then Some (JsonArray [])
    else case map_of TOOL_FIELDS k of None \<Rightarrow> json_lookup model k | Some v \<Rightarrow> Some (expected_field k v))"
proof -
  obtain kvs where kvs: "model = JsonObject kvs" using assms by (cases model) (auto simp: strip_entry_def)
  have "distinct (map fst TOOL_FIELDS)" by (simp add: TOOL_FIELDS_def)
  then have "map_of (rev TOOL_FIELDS) = map_of TOOL_FIELDS" using map_of_inject_set [of "rev TOOL_FIELDS" TOOL_FIELDS] by (simp add: rev_map [symmetric])
  then show ?thesis using assms kvs by (auto simp: strip_entry_def fold_put_fields split: option.split)
qed


lemma map_results_all2: "map_results f xs = Inr ys \<longleftrightarrow> list_all2 (\<lambda>x y. f x = Inr y) xs ys"
  by (induction xs arbitrary: ys) (auto simp: and_then_ok list_all2_Cons1)

lemma stripped_models: "catalog_models catalog = Some models \<Longrightarrow> ms \<noteq> [] \<Longrightarrow> catalog_models (with_models ms catalog) = Some ms"
  by (cases catalog) (auto simp: catalog_models_def with_models_def)

lemma field_names: "lit ''slug'' \<notin> set tool_keys" "EXPERIMENTAL \<notin> set (map fst TOOL_FIELDS)" "distinct (map fst TOOL_FIELDS)"
  by (simp_all add: tool_keys_def TOOL_FIELDS_def EXPERIMENTAL_def)

lemma other_key: "k \<notin> set tool_keys \<Longrightarrow> k \<noteq> EXPERIMENTAL \<and> map_of TOOL_FIELDS k = None"
  using map_of_eq_None_iff [of TOOL_FIELDS k] by (simp add: tool_keys_def)

lemma stripped_entry_check:
  assumes "strip_entry model = Inr model'"
  shows "check_entry shown model' = (case entry_slug model of None \<Rightarrow> Inl (lit ''a catalog entry has no slug'') | Some slug \<Rightarrow> Inr slug)"
proof -
  have slug: "entry_slug model' = entry_slug model"
    using other_key [OF field_names(1)] by (simp add: entry_slug_def strip_entry_lookup [OF assms])
  have "json_lookup model' field = Some (expected_field field value)" if "(field, value) \<in> set TOOL_FIELDS" for field "value"
  proof -
    have "field \<noteq> EXPERIMENTAL" using that field_names(2) by force
    moreover have "map_of TOOL_FIELDS field = Some value" using that map_of_eq_Some_iff [OF field_names(3)] by blast
    ultimately show ?thesis by (simp add: strip_entry_lookup [OF assms])
  qed
  then have "list_all (\<lambda>(field, value). json_lookup model' field = Some (expected_field field value)) TOOL_FIELDS"
    by (auto simp: list_all_iff)
  then show ?thesis
    by (cases "entry_slug model") (simp_all add: check_entry_def slug case_prod_unfold strip_entry_lookup [OF assms])
qed

lemma checked_slugs:
  assumes "list_all2 (\<lambda>m m'. strip_entry m = Inr m') ms ms'"
  shows "map_results (check_entry shown) ms' = (if list_all (\<lambda>m. entry_slug m \<noteq> None) ms then Inr (map (\<lambda>m. the (entry_slug m)) ms)
    else Inl (lit ''a catalog entry has no slug''))"
  using assms
  by (induction rule: list_all2_induct) (auto simp: stripped_entry_check and_then_def split: option.split)

text \<open>C11: a stripped catalog offers no tools. Stripping Codex's bundled catalog gives one that passes
  the check with exactly the slugs of its models, unless a model has no slug; and every field
  of every model that is not about tools stays as it was.\<close>

theorem stripped_catalogs_pass:
  assumes "strip_tools catalog = Inr stripped" and "catalog_models catalog = Some models"
  shows "check_catalog shown stripped = (if list_all (\<lambda>m. entry_slug m \<noteq> None) models then Inr (set (map (\<lambda>m. the (entry_slug m)) models))
      else Inl (lit ''a catalog entry has no slug''))
    \<and> (\<exists>ms. catalog_models stripped = Some ms
        \<and> list_all2 (\<lambda>m m'. list_all (\<lambda>key. key \<in> set tool_keys \<or> json_lookup m' key = json_lookup m key) keys) models ms)"
proof -
  obtain ms where ms: "list_all2 (\<lambda>m m'. strip_entry m = Inr m') models ms" "stripped = with_models ms catalog"
    using assms by (auto simp: strip_tools_def and_then_ok map_results_all2)
  have "models \<noteq> []" using assms(2) by (auto simp: catalog_models_def split: option.splits if_splits)
  then have "ms \<noteq> []" using ms(1) by auto
  then have found: "catalog_models stripped = Some ms" using stripped_models [OF assms(2)] ms(2) by blast
  have "json_lookup m' key = json_lookup m key" if "strip_entry m = Inr m'" "key \<notin> set tool_keys" for m m' key
    using other_key [OF that(2)] by (simp add: strip_entry_lookup [OF that(1)])
  then have "list_all2 (\<lambda>m m'. list_all (\<lambda>key. key \<in> set tool_keys \<or> json_lookup m' key = json_lookup m key) keys) models ms"
    by (intro list_all2_mono [OF ms(1)]) (auto simp: list_all_iff)
  moreover have "check_catalog shown stripped = (if list_all (\<lambda>m. entry_slug m \<noteq> None) models then Inr (set (map (\<lambda>m. the (entry_slug m)) models))
      else Inl (lit ''a catalog entry has no slug''))"
    by (simp add: check_catalog_def found checked_slugs [OF ms(1)] and_then_def)
  ultimately show ?thesis using found by blast
qed

theorem stripped_catalogs_pass_witness:
  "\<exists>stripped. strip_tools (JsonObject [(lit ''models'', JsonArray [JsonObject [(lit ''slug'', JsonString [103]), (lit ''tool_mode'', JsonString [99])]])])
      = Inr stripped \<and> check_catalog (\<lambda>_. []) stripped = Inr {[103]}"
proof -
  let ?m = "JsonObject [(lit ''slug'', JsonString [103]), (lit ''tool_mode'', JsonString [99])]"
  let ?c = "JsonObject [(lit ''models'', JsonArray [?m])]"
  have c: "catalog_models ?c = Some [?m]" by (simp add: catalog_models_def)
  obtain stripped where s: "strip_tools ?c = Inr stripped" by (simp add: strip_tools_def c strip_entry_def and_then_def)
  have "entry_slug ?m = Some [103]" by (simp add: entry_slug_def)
  then show ?thesis using s stripped_catalogs_pass [OF s c, of "\<lambda>_. []" "[]"] by simp
qed

end
