(* ===== verification/Household.thy ===== *)
theory Household
  imports CodexGuard
begin

text \<open>
  The household's sign-in (\<open>crates/bokkie-gateway/src/codex/household.rs\<close>): what an app
  server's \<open>auth.json\<close> is, the expiry of the access token, and device-code sign-ins. The
  file system, JSON and base64 are parameters.
\<close>

section \<open>The file\<close>

datatype auth_file = AuthMissing | AuthLink | AuthFile | AuthOther utext

definition LINK_TARGET :: utext where
  "LINK_TARGET = lit ''../../../household/codex/auth.json''"

text \<open>What the file system says of a path, without following a link.\<close>

datatype path_state = PathMissing | PathUnreadable utext | PathLink utext | PathFile | PathOther

fun inspect :: "path_state \<Rightarrow> utext + auth_file" where
  "inspect PathMissing = Inr AuthMissing"
| "inspect (PathUnreadable err) = Inl err"
| "inspect (PathLink target) =
     Inr (if target = LINK_TARGET then AuthLink else AuthOther (lit ''a symbolic link to somewhere else''))"
| "inspect PathFile = Inr AuthFile"
| "inspect PathOther = Inr (AuthOther (lit ''neither a file nor a link''))"

section \<open>The access token\<close>

text \<open>\<open>nth(1)\<close> of the parts between dots.\<close>

definition token_payload :: "utext \<Rightarrow> utext option" where
  "token_payload token = (case split_on 46 token of _ # payload # _ \<Rightarrow> Some payload | _ \<Rightarrow> None)"

fun as_i64 :: "json_field \<Rightarrow> int option" where
  "as_i64 (JsonInteger i) = (if - (2 ^ 63) \<le> i \<and> i < 2 ^ 63 then Some i else None)"
| "as_i64 _ = None"

definition parse_expiry :: "(utext \<Rightarrow> json_field option) \<Rightarrow> (utext \<Rightarrow> utext option) \<Rightarrow> utext \<Rightarrow> int option" where
  "parse_expiry from_str decode text =
     (case from_str text of
        None \<Rightarrow> None
      | Some file \<Rightarrow>
          (case as_str (json_at file [lit ''tokens'', lit ''access_token'']) of
             None \<Rightarrow> None
           | Some token \<Rightarrow>
               (case token_payload token of
                  None \<Rightarrow> None
                | Some payload \<Rightarrow>
                    (case decode (trim_end_char 61 payload) of
                       None \<Rightarrow> None
                     | Some bytes \<Rightarrow>
                         (case from_str bytes of None \<Rightarrow> None | Some claims \<Rightarrow> as_i64 (json_get claims (lit ''exp'')))))))"

datatype file_read = NoFile | NotRead | Contents utext

text \<open>A half-written file is read again, at most twice.\<close>

fun expiry_in :: "(utext \<Rightarrow> int option) \<Rightarrow> file_read list \<Rightarrow> int option" where
  "expiry_in parse [] = None"
| "expiry_in parse (NoFile # reads) = None"
| "expiry_in parse (NotRead # reads) = expiry_in parse reads"
| "expiry_in parse (Contents t # reads) = (case parse t of Some x \<Rightarrow> Some x | None \<Rightarrow> expiry_in parse reads)"

section \<open>Device-code sign-ins\<close>

datatype login_state = LoginPending | LoginCompleted | LoginExpired | LoginFailed | LoginCancelled

record login =
  li_runtime :: nat
  li_id :: utext
  li_url :: utext
  li_code :: utext
  li_state :: login_state
  li_expires_at :: timestamp
  li_error :: "utext option"

definition DEVICE_CODE_LIFETIME_MS :: int where
  "DEVICE_CODE_LIFETIME_MS = 15 * 60 * 1000"

definition login_completed :: "bool \<Rightarrow> utext option \<Rightarrow> login \<Rightarrow> login" where
  "login_completed success err l =
     (if li_state l \<noteq> LoginPending then l
      else if success then l\<lparr>li_state := LoginCompleted\<rparr>
      else
        let reason = (case err of None \<Rightarrow> lit ''The sign-in did not complete'' | Some t \<Rightarrow> t)
        in l\<lparr>li_state := (if contains (lit ''timed out'') reason then LoginExpired else LoginFailed), li_error := Some (take 300 reason)\<rparr>)"

definition login_stopped :: "nat \<Rightarrow> login \<Rightarrow> login" where
  "login_stopped runtime l =
     (if li_state l = LoginPending \<and> li_runtime l = runtime
      then l\<lparr>li_state := LoginFailed, li_error := Some (lit ''The household's app server stopped'')\<rparr> else l)"

definition login_expire :: "timestamp \<Rightarrow> login \<Rightarrow> login" where
  "login_expire now l = (if li_state l = LoginPending \<and> now \<ge> li_expires_at l then l\<lparr>li_state := LoginExpired\<rparr> else l)"

end
