(* ===== verification/CodexServers.thy ===== *)
theory CodexServers
  imports Household Sends
begin

text \<open>
  The supervisor of app servers (\<open>crates/bokkie-gateway/src/codex/supervisor.rs\<close>): one app server
  per user and the household's, the checks each passes before it is handed out and each thread
  before it is served, what is refused for good, the shared sign-in and its refresh, and the
  loop that watches one app server. An operation waits for locks, files and answers of app
  servers; an environment says what other tasks do to the supervisor at each wait, and what
  files, clocks and app servers say. What the supervisor asks of app servers, finds and tells
  the gateway is kept as a ghost list, newest first.
\<close>

section \<open>Errors\<close>

text \<open>Errors of the client: only an error the app server answered with had no effect.\<close>

datatype client_error = RpcFailed bool utext | ClientFailed utext

fun from_client :: "client_error \<Rightarrow> codex_error" where
  "from_client (RpcFailed undecodable shown) = (if undecodable then AppServerFailed shown else CodexRejected shown)"
| "from_client (ClientFailed shown) = AppServerFailed shown"

text \<open>\<open>timed\<close>: None is no answer in time.\<close>

definition timed :: "(client_error + 'a) option \<Rightarrow> codex_error + 'a" where
  "timed answer =
     (case answer of
        None \<Rightarrow> Inl (AppServerFailed (lit ''the app server did not answer in time''))
      | Some (Inl err) \<Rightarrow> Inl (from_client err)
      | Some (Inr a) \<Rightarrow> Inr a)"

section \<open>State\<close>

datatype owner = HouseholdServer | UserServer user_id

fun owner_text :: "owner \<Rightarrow> utext" where
  "owner_text HouseholdServer = lit ''household''"
| "owner_text (UserServer u) = lit ''user '' @ decimal_int u"

text \<open>\<open>Path::join\<close> with a relative path, and the directories of an app server.\<close>

definition path_join :: "utext \<Rightarrow> utext \<Rightarrow> utext" where
  "path_join dir name = (if dir = [] \<or> last dir = 47 then dir @ name else dir @ 47 # name)"

record user_paths =
  up_root :: utext
  up_codex_home :: utext
  up_home :: utext
  up_workspace :: utext
  up_log :: utext

definition paths_under :: "utext \<Rightarrow> user_paths" where
  "paths_under root = \<lparr>up_root = root, up_codex_home = path_join root (lit ''codex''), up_home = path_join root (lit ''home''),
     up_workspace = path_join root (lit ''workspace''), up_log = path_join root (lit ''app-server.log'')\<rparr>"

fun paths_of :: "utext \<Rightarrow> owner \<Rightarrow> user_paths" where
  "paths_of data_dir HouseholdServer = paths_under (path_join data_dir (lit ''household''))"
| "paths_of data_dir (UserServer u) = paths_under (path_join (path_join data_dir (lit ''users'')) (decimal_int u))"

record app_server =
  ap_owner :: owner
  ap_alive :: bool
  ap_served :: "(utext \<times> grant_set) list"
  ap_expected :: expected

datatype app_call =
    InitializeCall
  | ConfigReadCall
  | ModelListCall
  | ThreadStartCall utext "tool_spec list option" "(utext \<times> json_field) list option"
  | ThreadResumeCall utext utext "(utext \<times> json_field) list option"
  | TurnStartCall utext utext "contexts option"
  | TurnSteerCall utext utext utext utext "contexts option"
  | TurnInterruptCall utext utext
  | RateLimitsCall
  | AccountReadCall bool
  | LogoutCall
  | LoginStartCall
  | LoginCancelCall utext

datatype app_answer = ToolUnavailable | ApprovalDeclined | MethodNotFound utext

datatype app_deed =
    Launched nat owner
  | Asked nat app_call
  | Answered nat app_answer
  | ConfigPassed nat
  | ModelsPassed nat
  | ThreadPassed nat utext grant_set
  | ThreadBarred user_id utext
  | CodexTainted
  | Told user_id runtime_event

text \<open>App servers by serial number, as shared references would see them.\<close>

record supervisor =
  sv_servers :: "(nat \<times> app_server) list"
  sv_slots :: "(user_id \<times> nat option) list"
  sv_household :: "nat option"
  sv_refresh_failed_at :: "int option"
  sv_login :: "login option"
  sv_recovering :: "user_id set"
  sv_recover_tasks :: "(user_id \<times> nat) list"
  sv_recoveries :: nat
  sv_serials :: nat
  sv_barred :: "((user_id \<times> utext) \<times> utext) list"
  sv_tainted :: "utext option"
  sv_did :: "app_deed list"

record servers_world =
  sw_state :: supervisor
  sw_time :: nat

datatype login_answer = DeviceCode utext utext utext | UnknownLogin

datatype account_answer = ChatgptAccount "utext option" utext | NoAccount | OtherAccount

record server_env =
  se_others :: "nat \<Rightarrow> supervisor \<Rightarrow> supervisor"
  se_unix :: "nat \<Rightarrow> int"
  se_auth :: "nat \<Rightarrow> owner \<Rightarrow> path_state"
  se_reads :: "nat \<Rightarrow> file_read list"
  se_from_str :: "utext \<Rightarrow> json_field option"
  se_decode :: "utext \<Rightarrow> utext option"
  se_shown :: "json_field \<Rightarrow> utext"
  se_debug :: "utext option \<Rightarrow> utext"
  se_written :: "nat \<Rightarrow> utext + unit"
  se_catalog :: "nat \<Rightarrow> refusal + json_field"
  se_launch :: "nat \<Rightarrow> codex_error + unit"
  se_plain :: "nat \<Rightarrow> app_call \<Rightarrow> (client_error + unit) option"
  se_config :: "nat \<Rightarrow> app_call \<Rightarrow> (client_error + json_field) option"
  se_models :: "nat \<Rightarrow> app_call \<Rightarrow> (client_error + utext list) option"
  se_thread :: "nat \<Rightarrow> app_call \<Rightarrow> (client_error + thread_session) option"
  se_turn :: "nat \<Rightarrow> app_call \<Rightarrow> (client_error + utext) option"
  se_limits :: "nat \<Rightarrow> app_call \<Rightarrow> (client_error + rate_limits_response) option"
  se_account :: "nat \<Rightarrow> app_call \<Rightarrow> (client_error + account_answer) option"
  se_login :: "nat \<Rightarrow> app_call \<Rightarrow> (client_error + login_answer) option"
  se_data_dir :: utext
  se_catalog_path :: utext
  se_refresh_ahead :: int
  se_retry_after :: int

type_synonym 'a reply_of = "(codex_error + 'a) \<times> servers_world"

definition next_do :: "'a reply_of \<Rightarrow> ('a \<Rightarrow> servers_world \<Rightarrow> 'b reply_of) \<Rightarrow> 'b reply_of" where
  "next_do r k = (case r of (Inl err, w) \<Rightarrow> (Inl err, w) | (Inr a, w) \<Rightarrow> k a w)"

text \<open>A check that fails with a refusal or another error, at once.\<close>

definition checked :: "codex_error + 'a \<Rightarrow> servers_world \<Rightarrow> 'a reply_of" where
  "checked r w = (r, w)"

fun refused_by :: "refusal + 'a \<Rightarrow> codex_error + 'a" where
  "refused_by (Inl reason) = Inl (CodexRefused reason)"
| "refused_by (Inr a) = Inr a"

fun failed_by :: "utext \<Rightarrow> utext + 'a \<Rightarrow> codex_error + 'a" where
  "failed_by doing (Inl err) = Inl (AppServerFailed (doing @ lit '': '' @ err))"
| "failed_by doing (Inr a) = Inr a"

definition on_servers :: "(supervisor \<Rightarrow> supervisor) \<Rightarrow> servers_world \<Rightarrow> servers_world" where
  "on_servers f w = w\<lparr>sw_state := f (sw_state w)\<rparr>"

definition wait_for :: "server_env \<Rightarrow> servers_world \<Rightarrow> servers_world" where
  "wait_for e w = w\<lparr>sw_state := se_others e (sw_time w) (sw_state w), sw_time := Suc (sw_time w)\<rparr>"

definition did :: "app_deed \<Rightarrow> supervisor \<Rightarrow> supervisor" where
  "did d s = s\<lparr>sv_did := d # sv_did s\<rparr>"

definition ask_server ::
  "server_env \<Rightarrow> nat \<Rightarrow> app_call \<Rightarrow> (nat \<Rightarrow> app_call \<Rightarrow> (client_error + 'a) option) \<Rightarrow> servers_world \<Rightarrow> 'a reply_of" where
  "ask_server e n call answer w = (timed (answer (sw_time w) call), wait_for e (on_servers (did (Asked n call)) w))"

section \<open>What is refused for good\<close>

definition bar_thread :: "user_id \<Rightarrow> utext \<Rightarrow> refusal \<Rightarrow> supervisor \<Rightarrow> supervisor" where
  "bar_thread u t reason s = did (ThreadBarred u t) (s\<lparr>sv_barred := AList.update (u, t) reason (sv_barred s)\<rparr>)"

definition thread_refusal :: "user_id \<Rightarrow> utext \<Rightarrow> supervisor \<Rightarrow> refusal option" where
  "thread_refusal u t s = map_of (sv_barred s) (u, t)"

definition taint :: "refusal \<Rightarrow> supervisor \<Rightarrow> supervisor" where
  "taint reason s = (if sv_tainted s \<noteq> None then s else did CodexTainted (s\<lparr>sv_tainted := Some reason\<rparr>))"

definition ensure_untainted :: "supervisor \<Rightarrow> codex_error + unit" where
  "ensure_untainted s =
     (case sv_tainted s of
        Some reason \<Rightarrow> Inl (CodexRefused (lit ''Codex is refused until the gateway restarts: '' @ reason))
      | None \<Rightarrow> Inr ())"

section \<open>One app server\<close>

definition the_server :: "nat \<Rightarrow> supervisor \<Rightarrow> app_server option" where
  "the_server n s = map_of (sv_servers s) n"

definition change_server :: "nat \<Rightarrow> (app_server \<Rightarrow> app_server) \<Rightarrow> supervisor \<Rightarrow> supervisor" where
  "change_server n f s =
     (case the_server n s of None \<Rightarrow> s | Some a \<Rightarrow> s\<lparr>sv_servers := AList.update n (f a) (sv_servers s)\<rparr>)"

definition is_alive :: "nat \<Rightarrow> supervisor \<Rightarrow> bool" where
  "is_alive n s = (case the_server n s of None \<Rightarrow> False | Some a \<Rightarrow> ap_alive a)"

definition stop_server :: "nat \<Rightarrow> supervisor \<Rightarrow> supervisor" where
  "stop_server n = change_server n (\<lambda>a. a\<lparr>ap_alive := False\<rparr>)"

definition server_user :: "nat \<Rightarrow> supervisor \<Rightarrow> codex_error + user_id" where
  "server_user n s =
     (case map_option ap_owner (the_server n s) of
        Some (UserServer u) \<Rightarrow> Inr u
      | _ \<Rightarrow> Inl (CodexRefused (lit ''the household's app server runs no threads'')))"

definition expected_of :: "nat \<Rightarrow> supervisor \<Rightarrow> expected" where
  "expected_of n s = (case the_server n s of None \<Rightarrow> \<lparr>ex_data_dir = [], ex_catalog_path = [], ex_slugs = {}, ex_workspace = []\<rparr>
     | Some a \<Rightarrow> ap_expected a)"

definition config_passes :: "server_env \<Rightarrow> nat \<Rightarrow> servers_world \<Rightarrow> unit reply_of" where
  "config_passes e n w0 =
     next_do (ask_server e n ConfigReadCall (se_config e) w0) (\<lambda>config w.
     next_do (checked (refused_by (check_config (se_shown e) config (expected_of n (sw_state w)))) w) (\<lambda>_ w.
       (Inr (), on_servers (did (ConfigPassed n)) w)))"

definition startup_checks :: "server_env \<Rightarrow> nat \<Rightarrow> servers_world \<Rightarrow> unit reply_of" where
  "startup_checks e n w0 =
     next_do (ask_server e n InitializeCall (se_plain e) w0) (\<lambda>_ w.
     next_do (config_passes e n w) (\<lambda>_ w.
     next_do (ask_server e n ModelListCall (se_models e) w) (\<lambda>models w.
     next_do (checked (refused_by (check_models models (expected_of n (sw_state w)))) w) (\<lambda>_ w.
       (Inr (), on_servers (did (ModelsPassed n)) w)))))"

definition refuse_on :: "nat \<Rightarrow> user_id \<Rightarrow> utext \<Rightarrow> refusal \<Rightarrow> supervisor \<Rightarrow> supervisor" where
  "refuse_on n u t reason s = bar_thread u t reason (change_server n (\<lambda>a. a\<lparr>ap_served := AList.delete t (ap_served a)\<rparr>) s)"

definition serve_answer :: "server_env \<Rightarrow> nat \<Rightarrow> thread_session \<Rightarrow> grant_set \<Rightarrow> servers_world \<Rightarrow> thread_session reply_of" where
  "serve_answer e n r grants w =
     next_do (checked (server_user n (sw_state w)) w) (\<lambda>u w.
       case check_thread (se_shown e) (se_debug e) r (expected_of n (sw_state w)) of
         Inl reason \<Rightarrow> (Inl (ThreadRefused reason), on_servers (refuse_on n u (ts_thread r) reason) w)
       | Inr _ \<Rightarrow>
           (Inr r, on_servers (\<lambda>s. did (ThreadPassed n (ts_thread r) grants)
             (change_server n (\<lambda>a. a\<lparr>ap_served := AList.update (ts_thread r) grants (ap_served a)\<rparr>) s)) w))"

definition ensure_not_refused :: "nat \<Rightarrow> utext \<Rightarrow> supervisor \<Rightarrow> codex_error + unit" where
  "ensure_not_refused n t s =
     and_then (server_user n s) (\<lambda>u.
       case sv_tainted s of
         Some reason \<Rightarrow> Inl (CodexRefused reason)
       | None \<Rightarrow> (case thread_refusal u t s of Some reason \<Rightarrow> Inl (ThreadRefused reason) | None \<Rightarrow> Inr ()))"

definition thread_grants :: "nat \<Rightarrow> utext \<Rightarrow> supervisor \<Rightarrow> grant_set option" where
  "thread_grants n t s = (case the_server n s of None \<Rightarrow> None | Some a \<Rightarrow> map_of (ap_served a) t)"

definition is_served :: "nat \<Rightarrow> utext \<Rightarrow> supervisor \<Rightarrow> bool" where
  "is_served n t s =
     (case server_user n s of
        Inl _ \<Rightarrow> False
      | Inr u \<Rightarrow> is_alive n s \<and> thread_grants n t s \<noteq> None \<and> thread_refusal u t s = None)"

definition ensure_served :: "nat \<Rightarrow> utext \<Rightarrow> supervisor \<Rightarrow> codex_error + unit" where
  "ensure_served n t s =
     and_then (ensure_not_refused n t s) (\<lambda>_.
       if thread_grants n t s = None then Inl (CodexRefused (lit ''the thread has not passed its checks on this app server''))
       else Inr ())"

definition start_thread :: "server_env \<Rightarrow> nat \<Rightarrow> utext \<Rightarrow> grant_set \<Rightarrow> servers_world \<Rightarrow> thread_session reply_of" where
  "start_thread e n instr grants w =
     next_do (checked (server_user n (sw_state w)) w) (\<lambda>_ w.
     next_do (checked (case sv_tainted (sw_state w) of Some reason \<Rightarrow> Inl (CodexRefused reason) | None \<Rightarrow> Inr ()) w) (\<lambda>_ w.
     next_do (config_passes e n w) (\<lambda>_ w.
     next_do (ask_server e n (ThreadStartCall instr (specs grants) (thread_overrides grants)) (se_thread e) w) (\<lambda>r w.
       serve_answer e n r grants w))))"

definition resume_thread :: "server_env \<Rightarrow> nat \<Rightarrow> utext \<Rightarrow> utext \<Rightarrow> grant_set \<Rightarrow> servers_world \<Rightarrow> thread_session reply_of" where
  "resume_thread e n t instr grants w =
     next_do (checked (ensure_not_refused n t (sw_state w)) w) (\<lambda>_ w.
     next_do (config_passes e n w) (\<lambda>_ w.
     next_do (ask_server e n (ThreadResumeCall t instr (thread_overrides grants)) (se_thread e) w) (\<lambda>r w.
       if ts_thread r \<noteq> t then (Inl (CodexRefused (lit ''thread/resume answered for a different thread'')), w)
       else serve_answer e n r grants w)))"

definition start_turn :: "server_env \<Rightarrow> nat \<Rightarrow> utext \<Rightarrow> utext \<Rightarrow> contexts option \<Rightarrow> servers_world \<Rightarrow> utext reply_of" where
  "start_turn e n t text ctxt w =
     next_do (checked (ensure_served n t (sw_state w)) w) (\<lambda>_ w.
       ask_server e n (TurnStartCall t text ctxt) (se_turn e) w)"

definition steer_turn ::
  "server_env \<Rightarrow> nat \<Rightarrow> utext \<Rightarrow> utext \<Rightarrow> utext \<Rightarrow> utext \<Rightarrow> contexts option \<Rightarrow> servers_world \<Rightarrow> utext reply_of" where
  "steer_turn e n t turn text client_id ctxt w =
     next_do (checked (ensure_served n t (sw_state w)) w) (\<lambda>_ w.
       ask_server e n (TurnSteerCall t turn text client_id ctxt) (se_turn e) w)"

definition interrupt_on :: "server_env \<Rightarrow> nat \<Rightarrow> utext \<Rightarrow> utext \<Rightarrow> servers_world \<Rightarrow> unit reply_of" where
  "interrupt_on e n t turn w =
     next_do (checked (server_user n (sw_state w)) w) (\<lambda>_ w.
       ask_server e n (TurnInterruptCall t turn) (se_plain e) w)"

definition rate_limits :: "server_env \<Rightarrow> nat \<Rightarrow> servers_world \<Rightarrow> rate_limits_response reply_of" where
  "rate_limits e n w = ask_server e n RateLimitsCall (se_limits e) w"

section \<open>Starting an app server\<close>

definition fresh_server :: "server_env \<Rightarrow> owner \<Rightarrow> utext set \<Rightarrow> app_server" where
  "fresh_server e owner slugs = \<lparr>ap_owner = owner, ap_alive = True, ap_served = [],
     ap_expected = \<lparr>ex_data_dir = se_data_dir e, ex_catalog_path = se_catalog_path e, ex_slugs = slugs, ex_workspace = up_workspace (paths_of (se_data_dir e) owner)\<rparr>\<rparr>"

definition launch :: "server_env \<Rightarrow> owner \<Rightarrow> utext set \<Rightarrow> supervisor \<Rightarrow> supervisor" where
  "launch e owner slugs s =
     did (Launched (sv_serials s) owner)
       (s\<lparr>sv_servers := AList.update (sv_serials s) (fresh_server e owner slugs) (sv_servers s), sv_serials := Suc (sv_serials s)\<rparr>)"

definition start_server :: "server_env \<Rightarrow> owner \<Rightarrow> servers_world \<Rightarrow> nat reply_of" where
  "start_server e owner w0 =
     (let w = wait_for e w0; t = sw_time w0 in
      next_do (checked (failed_by (lit ''creating '' @ owner_text owner @ lit '''s directories'') (se_written e t)) w) (\<lambda>_ w.
      next_do (checked (refused_by (and_then (se_catalog e t) (check_catalog (se_shown e)))) w) (\<lambda>slugs w.
      next_do (checked (failed_by (lit ''writing config.toml'') (se_written e (Suc t))) w) (\<lambda>_ w.
      next_do (checked (se_launch e t) w) (\<lambda>_ w.
        let n = sv_serials (sw_state w) in
        case startup_checks e n (on_servers (launch e owner slugs) w) of
          (Inl err, w1) \<Rightarrow> (Inl err, on_servers (stop_server n) w1)
        | (Inr _, w1) \<Rightarrow> (Inr n, w1))))))"

end
