(* ===== verification/CodexSupervisor.thy ===== *)
theory CodexSupervisor
  imports CodexServers
begin

text \<open>
  The operations of the supervisor on users' app servers, on the household's and its sign-in
  (\<open>codex/supervisor.rs\<close>, \<open>Supervisor\<close>), and the loop that reads one app server's messages
  (\<open>watch\<close>, \<open>violation\<close>).
\<close>

section \<open>The household's app server and its token\<close>

definition slot_of :: "user_id \<Rightarrow> supervisor \<Rightarrow> nat option" where
  "slot_of u s = (case map_of (sv_slots s) u of None \<Rightarrow> None | Some slot \<Rightarrow> slot)"

definition set_slot :: "user_id \<Rightarrow> nat option \<Rightarrow> supervisor \<Rightarrow> supervisor" where
  "set_slot u slot s = s\<lparr>sv_slots := AList.update u slot (sv_slots s)\<rparr>"

text \<open>\<open>entry(user).or_default()\<close>.\<close>

definition touch_slot :: "user_id \<Rightarrow> supervisor \<Rightarrow> supervisor" where
  "touch_slot u s = set_slot u (slot_of u s) s"

text \<open>The server in a slot, if it runs, and taking out what is there.\<close>

definition running_in :: "nat option \<Rightarrow> supervisor \<Rightarrow> nat option" where
  "running_in slot s = (case slot of None \<Rightarrow> None | Some n \<Rightarrow> if is_alive n s then Some n else None)"

definition stop_any :: "nat option \<Rightarrow> supervisor \<Rightarrow> supervisor" where
  "stop_any slot s = (case slot of None \<Rightarrow> s | Some n \<Rightarrow> stop_server n s)"

definition household_file :: "utext + auth_file \<Rightarrow> codex_error + unit" where
  "household_file found =
     (case found of
        Inr AuthMissing \<Rightarrow> Inr ()
      | Inr AuthFile \<Rightarrow> Inr ()
      | Inr _ \<Rightarrow> Inl (CodexRefused (lit ''the household's auth.json is not a file''))
      | Inl err \<Rightarrow> Inl (AppServerFailed (lit ''reading the household's auth.json: '' @ err)))"

definition household :: "server_env \<Rightarrow> servers_world \<Rightarrow> nat reply_of" where
  "household e w0 =
     next_do (checked (ensure_untainted (sw_state w0)) w0) (\<lambda>_ w0.
       let w = wait_for e w0; t = sw_time w0; slot = sv_household (sw_state w) in
       case running_in slot (sw_state w) of
         Some n \<Rightarrow> (Inr n, w)
       | None \<Rightarrow>
           next_do (checked (failed_by (lit ''creating the household's directories'') (se_written e t))
             (on_servers (\<lambda>s. (stop_any slot s)\<lparr>sv_household := None\<rparr>) w)) (\<lambda>_ w.
           next_do (checked (household_file (inspect (se_auth e t HouseholdServer))) w) (\<lambda>_ w.
           next_do (start_server e HouseholdServer w) (\<lambda>n w. (Inr n, on_servers (\<lambda>s. s\<lparr>sv_household := Some n\<rparr>) w)))))"

definition token_expiry :: "server_env \<Rightarrow> nat \<Rightarrow> int option" where
  "token_expiry e t = expiry_in (parse_expiry (se_from_str e) (se_decode e)) (take 3 (se_reads e t))"

definition outside_window :: "server_env \<Rightarrow> nat \<Rightarrow> int \<Rightarrow> bool" where
  "outside_window e t expiry \<longleftrightarrow> wrap_i64 (expiry - se_unix e t) > se_refresh_ahead e"

definition NO_SIGN_IN :: utext where
  "NO_SIGN_IN = lit ''no ChatGPT sign-in''"

definition NOT_REFRESHED :: utext where
  "NOT_REFRESHED = lit ''the sign-in could not be refreshed''"

text \<open>Reading the expiry waits; None inside is a token in its refresh window.\<close>

definition token_good :: "server_env \<Rightarrow> servers_world \<Rightarrow> bool reply_of" where
  "token_good e w0 =
     (let w = wait_for e w0; t = sw_time w0 in
      case token_expiry e t of
        None \<Rightarrow> (Inl (CodexSignedOut NO_SIGN_IN), w)
      | Some x \<Rightarrow> (Inr (outside_window e t x), w))"

definition refresh_with :: "server_env \<Rightarrow> nat \<Rightarrow> servers_world \<Rightarrow> unit reply_of" where
  "refresh_with e n w0 =
     (case ask_server e n (AccountReadCall True) (se_account e) w0 of (_, w) \<Rightarrow>
        next_do (token_good e w) (\<lambda>good w1.
          if good then (Inr (), on_servers (\<lambda>s. s\<lparr>sv_refresh_failed_at := None\<rparr>) w1)
          else (Inl (CodexSignedOut NOT_REFRESHED),
            on_servers (\<lambda>s. s\<lparr>sv_refresh_failed_at := Some (se_unix e (sw_time w))\<rparr>) w1)))"

definition ensure_household :: "server_env \<Rightarrow> servers_world \<Rightarrow> unit reply_of" where
  "ensure_household e w0 =
     next_do (household e w0) (\<lambda>n w.
     next_do (token_good e w) (\<lambda>good w.
       if good then (Inr (), w)
       else next_do (token_good e (wait_for e w)) (\<lambda>good w1.
         if good then (Inr (), w1)
         else
           (case sv_refresh_failed_at (sw_state w1) of
              Some failed \<Rightarrow>
                if wrap_i64 (se_unix e (sw_time w1) - failed) < se_retry_after e then (Inl (CodexSignedOut NOT_REFRESHED), w1)
                else refresh_with e n w1
            | None \<Rightarrow> refresh_with e n w1))))"

definition refresh_household :: "server_env \<Rightarrow> servers_world \<Rightarrow> unit reply_of" where
  "refresh_household e w0 = next_do (household e w0) (\<lambda>n w. refresh_with e n (wait_for e w))"

text \<open>One look of the refresher.\<close>

definition refresher_tick :: "server_env \<Rightarrow> servers_world \<Rightarrow> servers_world" where
  "refresher_tick e w0 =
     (let w = wait_for e w0 in
      if sv_tainted (sw_state w) \<noteq> None then w
      else
        let w1 = wait_for e w in
        if token_expiry e (sw_time w) = None then w1 else snd (ensure_household e w1))"

record household_status =
  hs_signed_in :: bool
  hs_email :: "utext option"
  hs_plan :: "utext option"

definition signed_out_status :: household_status where
  "signed_out_status = \<lparr>hs_signed_in = False, hs_email = None, hs_plan = None\<rparr>"

definition household_status :: "server_env \<Rightarrow> bool \<Rightarrow> servers_world \<Rightarrow> household_status \<times> servers_world" where
  "household_status e detail w0 =
     (case ensure_household e w0 of
        (Inl _, w) \<Rightarrow> (signed_out_status, w)
      | (Inr _, w) \<Rightarrow>
          if \<not> detail then (signed_out_status\<lparr>hs_signed_in := True\<rparr>, w)
          else
            (case household e w of
               (Inl _, w1) \<Rightarrow> (signed_out_status, w1)
             | (Inr n, w1) \<Rightarrow>
                 (case ask_server e n (AccountReadCall False) (se_account e) w1 of
                    (Inr (ChatgptAccount email plan), w2) \<Rightarrow> (\<lparr>hs_signed_in = True, hs_email = email, hs_plan = Some plan\<rparr>, w2)
                  | (Inr NoAccount, w2) \<Rightarrow> (signed_out_status, w2)
                  | (Inr OtherAccount, w2) \<Rightarrow> (signed_out_status\<lparr>hs_signed_in := True\<rparr>, w2)
                  | (Inl _, w2) \<Rightarrow> (signed_out_status, w2))))"

section \<open>Users' app servers\<close>

definition NOT_THE_LINK :: utext where
  "NOT_THE_LINK = lit ''the user's auth.json is not the household's sign-in''"

definition sign_out_own :: "server_env \<Rightarrow> user_id \<Rightarrow> servers_world \<Rightarrow> unit reply_of" where
  "sign_out_own e u w0 =
     next_do (start_server e (UserServer u) w0) (\<lambda>n w.
       case ask_server e n LogoutCall (se_plain e) w of (r, w1) \<Rightarrow>
         next_do (checked r (on_servers (stop_server n) w1)) (\<lambda>_ w2.
           if inspect (se_auth e (sw_time w2) (UserServer u)) = Inr AuthMissing then (Inr (), wait_for e w2)
           else (Inl (CodexRefused (lit ''the user's own earlier sign-in was not signed out'')), wait_for e w2)))"

definition link_user :: "server_env \<Rightarrow> user_id \<Rightarrow> servers_world \<Rightarrow> unit reply_of" where
  "link_user e u w0 =
     (let t = sw_time w0; w = wait_for e w0;
          make = (\<lambda>_ w1.
            let t1 = sw_time w1; w2 = wait_for e w1 in
            next_do (checked (failed_by (lit ''linking the user's auth.json'') (se_written e t1)) w2) (\<lambda>_ w3.
              if inspect (se_auth e (Suc t1) (UserServer u)) = Inr AuthLink then (Inr (), w3)
              else (Inl (CodexRefused NOT_THE_LINK), w3)))
      in next_do (checked (failed_by (lit ''creating the user's directories'') (se_written e t)) w) (\<lambda>_ w.
           case inspect (se_auth e t (UserServer u)) of
             Inl err \<Rightarrow> (Inl (AppServerFailed (lit ''reading the user's auth.json: '' @ err)), w)
           | Inr AuthLink \<Rightarrow> (Inr (), w)
           | Inr AuthMissing \<Rightarrow> make () w
           | Inr AuthFile \<Rightarrow> next_do (sign_out_own e u w) make
           | Inr (AuthOther what) \<Rightarrow>
               (Inl (CodexRefused (lit ''the user's auth.json is '' @ what @ lit '', not the household's sign-in'')), w)))"

text \<open>Before every use the household must be signed in, and the link be the household's.\<close>

definition runtime :: "server_env \<Rightarrow> user_id \<Rightarrow> servers_world \<Rightarrow> nat reply_of" where
  "runtime e u w0 =
     next_do (checked (ensure_untainted (sw_state w0)) w0) (\<lambda>_ w.
     next_do (ensure_household e w) (\<lambda>_ w1.
       let t = sw_time w1; w = wait_for e (on_servers (touch_slot u) w1); slot = slot_of u (sw_state w) in
       case running_in slot (sw_state w) of
         Some n \<Rightarrow>
           if inspect (se_auth e t (UserServer u)) = Inr AuthLink then (Inr n, w)
           else (Inl (CodexRefused NOT_THE_LINK), on_servers (\<lambda>s. set_slot u None (stop_server n s)) w)
       | None \<Rightarrow>
           next_do (link_user e u (on_servers (\<lambda>s. set_slot u None (stop_any slot s)) w)) (\<lambda>_ w.
           next_do (start_server e (UserServer u) w) (\<lambda>n w. (Inr n, on_servers (set_slot u (Some n)) w)))))"

definition running :: "server_env \<Rightarrow> user_id \<Rightarrow> servers_world \<Rightarrow> nat option \<times> servers_world" where
  "running e u w0 =
     (let w = wait_for e (on_servers (touch_slot u) w0) in (running_in (slot_of u (sw_state w)) (sw_state w), w))"

definition stop_user :: "server_env \<Rightarrow> user_id \<Rightarrow> servers_world \<Rightarrow> servers_world" where
  "stop_user e u w0 =
     on_servers (\<lambda>s. set_slot u None (stop_any (slot_of u s) s)) (wait_for e (on_servers (touch_slot u) w0))"

definition stop_users :: "server_env \<Rightarrow> servers_world \<Rightarrow> servers_world" where
  "stop_users e w0 = fold (stop_user e) (map fst (sv_slots (sw_state w0))) w0"

text \<open>As the gateway starts, users with a sign-in of their own are linked; a failure leaves the user as is.\<close>

definition link_at_start :: "server_env \<Rightarrow> user_id \<Rightarrow> servers_world \<Rightarrow> servers_world" where
  "link_at_start e u w =
     (if inspect (se_auth e (sw_time w) (UserServer u)) = Inr AuthFile then snd (link_user e u (wait_for e (on_servers (touch_slot u) w))) else wait_for e w)"

definition sign_out_own_sign_ins :: "server_env \<Rightarrow> user_id list \<Rightarrow> servers_world \<Rightarrow> servers_world" where
  "sign_out_own_sign_ins e users w = fold (link_at_start e) users w"

section \<open>Signing the household in and out\<close>

definition expire_login :: "timestamp \<Rightarrow> supervisor \<Rightarrow> supervisor" where
  "expire_login now s = s\<lparr>sv_login := map_option (login_expire now) (sv_login s)\<rparr>"

text \<open>The state is set on the pending sign-in found; its end may be reported meanwhile.\<close>

definition mark_cancelled :: "utext \<Rightarrow> supervisor \<Rightarrow> supervisor" where
  "mark_cancelled i s =
     s\<lparr>sv_login := (case sv_login s of None \<Rightarrow> None | Some l \<Rightarrow> Some (if li_id l = i then l\<lparr>li_state := LoginCancelled\<rparr> else l))\<rparr>"

definition cancel_login :: "server_env \<Rightarrow> timestamp \<Rightarrow> servers_world \<Rightarrow> login option reply_of" where
  "cancel_login e now w0 =
     (let w = on_servers (expire_login now) w0;
          w1 = (case sv_login (sw_state w) of
             Some l \<Rightarrow>
               if li_state l \<noteq> LoginPending then w
               else
                 (case household e (on_servers (mark_cancelled (li_id l)) (wait_for e w)) of
                    (Inl _, w2) \<Rightarrow> w2
                  | (Inr n, w2) \<Rightarrow> snd (ask_server e n (LoginCancelCall (li_id l)) (se_plain e) w2))
           | None \<Rightarrow> w);
          w3 = on_servers (expire_login now) w1
      in (Inr (sv_login (sw_state w3)), w3))"

definition start_login :: "server_env \<Rightarrow> timestamp \<Rightarrow> servers_world \<Rightarrow> login reply_of" where
  "start_login e now w0 =
     next_do (household e w0) (\<lambda>n w.
     next_do (cancel_login e now w) (\<lambda>_ w.
     next_do (ask_server e n LoginStartCall (se_login e) w) (\<lambda>answer w.
       case answer of
         UnknownLogin \<Rightarrow> (Inl (CodexRejected (lit ''Codex did not offer a device-code sign-in'')), w)
       | DeviceCode i url code \<Rightarrow>
           let l = \<lparr>li_runtime = n, li_id = i, li_url = url, li_code = code, li_state = LoginPending,
             li_expires_at = now + DEVICE_CODE_LIFETIME_MS, li_error = None\<rparr>
           in (Inr l, on_servers (\<lambda>s. s\<lparr>sv_login := Some l\<rparr>) w))))"

definition login_reported :: "utext option \<Rightarrow> bool \<Rightarrow> utext option \<Rightarrow> supervisor \<Rightarrow> supervisor" where
  "login_reported i success err s =
     (case sv_login s of
        None \<Rightarrow> s
      | Some l \<Rightarrow>
          if i \<noteq> Some (li_id l) then s
          else
            let s1 = s\<lparr>sv_login := Some (login_completed success err l)\<rparr>
            in if success then s1\<lparr>sv_refresh_failed_at := None\<rparr> else s1)"

definition household_exited :: "nat \<Rightarrow> supervisor \<Rightarrow> supervisor" where
  "household_exited n s = s\<lparr>sv_login := map_option (login_stopped n) (sv_login s)\<rparr>"

definition sign_out_household :: "server_env \<Rightarrow> timestamp \<Rightarrow> servers_world \<Rightarrow> unit reply_of" where
  "sign_out_household e now w0 =
     next_do (household e w0) (\<lambda>n w.
     next_do (cancel_login e now w) (\<lambda>_ w.
     next_do (ask_server e n LogoutCall (se_plain e) (wait_for e w)) (\<lambda>_ w.
       (Inr (), stop_users e w))))"

section \<open>Recovery from a failed credential\<close>

definition turn_reported :: "user_id \<Rightarrow> nat \<Rightarrow> turn_status \<Rightarrow> bool \<Rightarrow> supervisor \<Rightarrow> supervisor" where
  "turn_reported u n status bad_credential s =
     (if status = TurnCompleted then s\<lparr>sv_recovering := sv_recovering s - {u}\<rparr>
      else if status = TurnFailed \<and> bad_credential then s\<lparr>sv_recover_tasks := sv_recover_tasks s @ [(u, n)]\<rparr>
      else s)"

definition recover_server :: "server_env \<Rightarrow> user_id \<Rightarrow> nat \<Rightarrow> servers_world \<Rightarrow> servers_world" where
  "recover_server e u failed w0 =
     (if u \<in> sv_recovering (sw_state w0) then w0
      else
        (case ensure_household e (on_servers (\<lambda>s. s\<lparr>sv_recovering := insert u (sv_recovering s)\<rparr>) w0) of
           (Inl _, w) \<Rightarrow> on_servers (\<lambda>s. s\<lparr>sv_recovering := sv_recovering s - {u}\<rparr>) w
         | (Inr _, w) \<Rightarrow>
             let w1 = on_servers (\<lambda>s. if slot_of u s = Some failed then set_slot u None (stop_server failed s) else s)
                   (wait_for e (on_servers (touch_slot u) w))
             in snd (runtime e u (on_servers (\<lambda>s. s\<lparr>sv_recoveries := Suc (sv_recoveries s)\<rparr>) w1))))"

section \<open>Watching an app server\<close>

definition tell :: "nat \<Rightarrow> runtime_event \<Rightarrow> supervisor \<Rightarrow> supervisor" where
  "tell n ev s = (case map_option ap_owner (the_server n s) of Some (UserServer u) \<Rightarrow> did (Told u ev) s | _ \<Rightarrow> s)"

text \<open>A broken rule refuses the thread and taints Codex for the whole gateway.\<close>

definition violation :: "nat \<Rightarrow> utext option \<Rightarrow> refusal \<Rightarrow> supervisor \<Rightarrow> supervisor" where
  "violation n thread reason s =
     (let s1 = (case (thread, map_option ap_owner (the_server n s)) of
            (Some t, Some (UserServer u)) \<Rightarrow> tell n (RefusedEvent t reason) (refuse_on n u t reason s)
          | _ \<Rightarrow> s)
      in stop_server n (taint reason s1))"

fun item_of :: "codex_item \<Rightarrow> thread_item" where
  "item_of (UserMessageItem _ client) = UserItem client"
| "item_of (AgentMessageItem i t) = AgentItem i t"
| "item_of (WebSearchItem i _ _) = SearchItem i"
| "item_of _ = OtherItem"

text \<open>Whether Codex puts a turn's failure down to the credential; the error's own classification, if any.\<close>

definition status_401 :: "json_field \<Rightarrow> bool" where
  "status_401 v = (case as_object v of None \<Rightarrow> False
     | Some kvs \<Rightarrow> list_ex (\<lambda>(_, detail). json_get detail (lit ''httpStatusCode'') = JsonInteger 401) kvs)"

fun is_unauthorized :: "json_field option \<Rightarrow> bool" where
  "is_unauthorized None = False"
| "is_unauthorized (Some (JsonString kind)) = (kind = lit ''unauthorized'')"
| "is_unauthorized (Some v) = status_401 v"

definition unauthorized :: "json_field option option \<Rightarrow> bool" where
  "unauthorized err = (case err of None \<Rightarrow> False | Some info \<Rightarrow> is_unauthorized info)"

datatype app_notification =
    ItemStartedNote utext utext codex_item
  | ItemCompletedNote utext utext codex_item
  | TurnCompletedNote utext utext turn_status "json_field option option"
  | LoginCompletedNote "utext option" bool "utext option"
  | TurnStartedNote utext utext
  | DeltaNote utext utext utext utext
  | TokensNote utext utext int
  | RateLimitsNote snapshot
  | ErrorNote utext utext bool
  | UnroutedNote

fun note_event :: "app_notification \<Rightarrow> runtime_event" where
  "note_event (ItemStartedNote t turn item) = ItemStartedEvent t turn (item_of item)"
| "note_event (ItemCompletedNote t turn item) = ItemCompletedEvent t turn (item_of item)"
| "note_event (TurnCompletedNote t turn status _) = TurnCompletedEvent t turn status"
| "note_event (LoginCompletedNote _ _ _) = OtherEvent"
| "note_event (TurnStartedNote t turn) = TurnStartedEvent t turn"
| "note_event (DeltaNote t turn item text) = DeltaEvent t turn item text"
| "note_event (TokensNote t turn tokens) = TokensEvent t turn tokens"
| "note_event (RateLimitsNote snap) = RateLimitsEvent snap"
| "note_event (ErrorNote t message will_retry) = ErrorEvent t message will_retry"
| "note_event UnroutedNote = OtherEvent"

definition granted_to :: "nat \<Rightarrow> utext \<Rightarrow> supervisor \<Rightarrow> grant_set" where
  "granted_to n t s = (case thread_grants n t s of None \<Rightarrow> {} | Some gs \<Rightarrow> gs)"

definition item_checked :: "nat \<Rightarrow> utext \<Rightarrow> codex_item \<Rightarrow> supervisor \<Rightarrow> supervisor" where
  "item_checked n t item s =
     (case check_item item (granted_to n t s) of Inl reason \<Rightarrow> violation n (Some t) reason s | Inr _ \<Rightarrow> s)"

definition search_told :: "nat \<Rightarrow> utext \<Rightarrow> utext \<Rightarrow> codex_item \<Rightarrow> bool \<Rightarrow> supervisor \<Rightarrow> supervisor" where
  "search_told n t turn item passed s =
     (case item of WebSearchItem i query action \<Rightarrow> tell n (SearchEvent t turn i query action passed) s | _ \<Rightarrow> s)"

definition note_received :: "nat \<Rightarrow> app_notification \<Rightarrow> supervisor \<Rightarrow> supervisor" where
  "note_received n note s =
     tell n (note_event note)
       (case note of
          ItemStartedNote t turn item \<Rightarrow> item_checked n t item s
        | ItemCompletedNote t turn item \<Rightarrow>
            search_told n t turn item (check_item item (granted_to n t s) = Inr ()) (item_checked n t item s)
        | TurnCompletedNote t turn status err \<Rightarrow>
            (case map_option ap_owner (the_server n s) of Some (UserServer u) \<Rightarrow> turn_reported u n status (unauthorized err) s | _ \<Rightarrow> s)
        | LoginCompletedNote i success err \<Rightarrow>
            (if map_option ap_owner (the_server n s) = Some HouseholdServer then login_reported i success err s else s)
        | _ \<Rightarrow> s)"

datatype app_request =
    ToolCallRequest tool_request
  | CommandApproval utext
  | FileApproval utext
  | UnknownRequest utext "json_field option"

definition is_approval :: "utext \<Rightarrow> bool" where
  "is_approval method = contains (lit ''pproval'') method"

text \<open>The thread an unknown request names.\<close>

definition request_thread :: "json_field \<Rightarrow> utext option" where
  "request_thread params =
     (case (case json_lookup params (lit ''threadId'') of None \<Rightarrow> json_lookup params (lit ''conversationId'') | found \<Rightarrow> found) of
        None \<Rightarrow> None
      | Some v \<Rightarrow> as_str v)"

definition request_received :: "nat \<Rightarrow> app_request \<Rightarrow> supervisor \<Rightarrow> supervisor" where
  "request_received n request s =
     (case request of
        ToolCallRequest call \<Rightarrow>
          (case (map_option ap_owner (the_server n s), thread_grants n (tq_thread call) s) of
             (Some (UserServer u), Some gs) \<Rightarrow>
               if allows_tool gs (tq_tool call) (tq_namespace call) then tell n (ToolCallEvent call) s
               else did (Answered n ToolUnavailable) (violation n (Some (tq_thread call))
                 (lit ''the model called '' @ display_name (tq_tool call) (tq_namespace call) @ lit '', which its thread was not granted'') s)
           | (_, Some gs) \<Rightarrow> did (Answered n ToolUnavailable) (violation n (Some (tq_thread call))
                 (lit ''the model called '' @ display_name (tq_tool call) (tq_namespace call) @ lit '', which its thread was not granted'') s)
           | (_, None) \<Rightarrow> did (Answered n ToolUnavailable) s)
      | CommandApproval t \<Rightarrow>
          did (Answered n ApprovalDeclined) (violation n (Some t) (lit ''the app server asked to approve a command'') s)
      | FileApproval t \<Rightarrow>
          did (Answered n ApprovalDeclined) (violation n (Some t) (lit ''the app server asked to approve a file change'') s)
      | UnknownRequest method params \<Rightarrow>
          did (Answered n (MethodNotFound method))
            (case (case params of None \<Rightarrow> None | Some p \<Rightarrow> request_thread p) of
               Some t \<Rightarrow> if is_approval method then violation n (Some t) (lit ''the app server sent '' @ method) s else s
             | None \<Rightarrow> s))"

datatype incoming =
    Notification app_notification
  | Request app_request
  | MalformedRequest utext
  | MalformedLine "json_field option"

definition message_received :: "nat \<Rightarrow> incoming \<Rightarrow> supervisor \<Rightarrow> supervisor" where
  "message_received n message s =
     (case message of
        Notification note \<Rightarrow> note_received n note s
      | Request request \<Rightarrow> request_received n request s
      | MalformedRequest method \<Rightarrow>
          let s1 = did (Answered n (MethodNotFound method)) s in
          if is_approval method then violation n None (lit ''the app server sent an unreadable '' @ method) s1 else s1
      | MalformedLine line \<Rightarrow>
          let method = (case line of None \<Rightarrow> None | Some v \<Rightarrow> as_str (json_get v (lit ''method'')));
              thread = (case line of None \<Rightarrow> None | Some v \<Rightarrow> as_str (json_at v [lit ''params'', lit ''threadId'']))
          in if method = Some (lit ''item/started'') \<or> method = Some (lit ''item/completed'')
          then violation n thread (lit ''the app server sent an item that could not be checked'') s else s)"

text \<open>The stream ended, or Codex is refused for the whole gateway.\<close>

definition watch_ends :: "nat \<Rightarrow> supervisor \<Rightarrow> supervisor" where
  "watch_ends n s =
     (let s1 = stop_server n s;
          s2 = (if map_option ap_owner (the_server n s) = Some HouseholdServer then household_exited n s1 else s1)
      in tell n ExitedEvent s2)"

end
