(* ===== verification/CodexSafety.thy ===== *)
theory CodexSafety
  imports CodexSupervisor
begin

text \<open>
  What the supervisor keeps. Everything it does is allowed by what it did before: a thread is
  started or resumed after the configuration passed its checks, served after its own answer
  passed, a turn starts or is steered only on a served thread that was never refused, and a
  tool call or search is passed on only with the thread's grants; once a rule is broken no turn
  starts any more. Each operation preserves this whatever other tasks do that preserve it.
\<close>

declare lit_Nil [simp del] lit_Cons [simp del]

section \<open>What is allowed after what\<close>

definition served_before :: "app_deed list \<Rightarrow> nat \<Rightarrow> utext \<Rightarrow> bool" where
  "served_before ds n t \<longleftrightarrow> (\<exists>gs. ThreadPassed n t gs \<in> set ds)"

definition turn_allowed :: "app_deed list \<Rightarrow> nat \<Rightarrow> utext \<Rightarrow> bool" where
  "turn_allowed ds n t \<longleftrightarrow> CodexTainted \<notin> set ds \<and> served_before ds n t
     \<and> (\<exists>u. Launched n (UserServer u) \<in> set ds \<and> ThreadBarred u t \<notin> set ds)"

fun call_allowed :: "app_deed list \<Rightarrow> nat \<Rightarrow> app_call \<Rightarrow> bool" where
  "call_allowed ds n (TurnStartCall t _ _) = turn_allowed ds n t"
| "call_allowed ds n (TurnSteerCall t _ _ _ _) = turn_allowed ds n t"
| "call_allowed ds n (ThreadStartCall _ tools overrides) =
     (ConfigPassed n \<in> set ds \<and> (\<exists>gs. tools = specs gs \<and> overrides = thread_overrides gs))"
| "call_allowed ds n (ThreadResumeCall _ _ overrides) =
     (ConfigPassed n \<in> set ds \<and> (\<exists>gs. overrides = thread_overrides gs))"
| "call_allowed ds n _ = True"

fun told_allowed :: "app_deed list \<Rightarrow> user_id \<Rightarrow> runtime_event \<Rightarrow> bool" where
  "told_allowed ds u (ToolCallEvent call) =
     (\<exists>n gs. Launched n (UserServer u) \<in> set ds \<and> ThreadPassed n (tq_thread call) gs \<in> set ds
       \<and> allows_tool gs (tq_tool call) (tq_namespace call))"
| "told_allowed ds u (SearchEvent t turn i query action granted) =
     (granted \<longrightarrow> (\<exists>n gs. Launched n (UserServer u) \<in> set ds \<and> ThreadPassed n t gs \<in> set ds \<and> WebSearch \<in> gs))"
| "told_allowed ds u _ = True"

fun allowed :: "app_deed list \<Rightarrow> app_deed \<Rightarrow> bool" where
  "allowed ds (Asked n call) = call_allowed ds n call"
| "allowed ds (ThreadPassed n t gs) =
     (ConfigPassed n \<in> set ds \<and> (\<exists>i. Asked n (ThreadStartCall i (specs gs) (thread_overrides gs)) \<in> set ds
       \<or> Asked n (ThreadResumeCall t i (thread_overrides gs)) \<in> set ds))"
| "allowed ds (Told u ev) = told_allowed ds u ev"
| "allowed ds _ = True"

fun guarded :: "app_deed list \<Rightarrow> bool" where
  "guarded [] = True"
| "guarded (d # ds) = (allowed ds d \<and> guarded ds)"

section \<open>The invariant\<close>

definition server_fits :: "app_deed list \<Rightarrow> nat \<Rightarrow> app_server \<Rightarrow> bool" where
  "server_fits ds n a \<longleftrightarrow> Launched n (ap_owner a) \<in> set ds
     \<and> (\<forall>t gs. map_of (ap_served a) t = Some gs \<longrightarrow> ThreadPassed n t gs \<in> set ds)"

definition servers_ok :: "supervisor \<Rightarrow> bool" where
  "servers_ok s \<longleftrightarrow> guarded (sv_did s) \<and> (CodexTainted \<in> set (sv_did s) \<longleftrightarrow> sv_tainted s \<noteq> None)
     \<and> (\<forall>u t. ThreadBarred u t \<in> set (sv_did s) \<longrightarrow> thread_refusal u t s \<noteq> None)
     \<and> (\<forall>n a. the_server n s = Some a \<longrightarrow> server_fits (sv_did s) n a)"

definition goes_well :: "supervisor \<Rightarrow> supervisor \<Rightarrow> bool" where
  "goes_well s s' \<longleftrightarrow> (servers_ok s \<longrightarrow> servers_ok s' \<and> suffix (sv_did s) (sv_did s'))"

definition others_go_well :: "server_env \<Rightarrow> bool" where
  "others_go_well e \<longleftrightarrow> (\<forall>t s. goes_well s (se_others e t s))"

lemma goes_well_refl [simp]: "goes_well s s"
  by (simp add: goes_well_def)

lemma goes_well_trans: "goes_well s s1 \<Longrightarrow> goes_well s1 s2 \<Longrightarrow> goes_well s s2"
  by (auto simp: goes_well_def intro: suffix_order.trans)

lemma server_fits_grows: "server_fits ds n a \<Longrightarrow> suffix ds ds' \<Longrightarrow> server_fits ds' n a"
  by (auto simp: server_fits_def suffix_def)

lemma server_fits_Cons: "server_fits ds n a \<Longrightarrow> server_fits (d # ds) n a"
  by (auto simp: server_fits_def)

text \<open>A deed that is allowed and neither taints nor bars keeps the invariant.\<close>

lemma goes_well_did:
  assumes "servers_ok s \<Longrightarrow> allowed (sv_did s) d" and "d \<noteq> CodexTainted" and "\<And>u t. d \<noteq> ThreadBarred u t"
  shows "goes_well s (did d s)"
  using assms
  by (auto simp: goes_well_def servers_ok_def did_def the_server_def thread_refusal_def suffix_def intro: server_fits_Cons)

lemma goes_well_same:
  assumes "sv_did s' = sv_did s" "sv_servers s' = sv_servers s" "sv_tainted s' = sv_tainted s" "sv_barred s' = sv_barred s"
  shows "goes_well s s'"
  using assms by (simp add: goes_well_def servers_ok_def the_server_def thread_refusal_def)

lemma change_server_simps [simp]:
  "sv_did (change_server n f s) = sv_did s" "sv_tainted (change_server n f s) = sv_tainted s"
  "sv_barred (change_server n f s) = sv_barred s"
  by (simp_all add: change_server_def split: option.split)

lemma the_server_change: "the_server m (change_server n f s) = (if m = n then map_option f (the_server n s) else the_server m s)"
  by (simp add: change_server_def the_server_def update_conv split: option.split)

lemma goes_well_change:
  assumes "\<And>a. server_fits (sv_did s) n a \<Longrightarrow> server_fits (sv_did s) n (f a)"
  shows "goes_well s (change_server n f s)"
  using assms by (auto simp: goes_well_def servers_ok_def the_server_change thread_refusal_def)

lemma goes_well_stop [simp]: "goes_well s (stop_server n s)"
  unfolding stop_server_def by (rule goes_well_change) (simp add: server_fits_def)

lemma goes_well_stop_any [simp]: "goes_well s (stop_any slot s)"
  by (simp add: stop_any_def split: option.split)

lemma goes_well_taint [simp]: "goes_well s (taint reason s)"
  by (auto simp: goes_well_def servers_ok_def taint_def did_def the_server_def thread_refusal_def suffix_def intro: server_fits_Cons)

lemma goes_well_bar: "goes_well s (bar_thread u t reason s)"
  by (auto simp: goes_well_def servers_ok_def bar_thread_def did_def the_server_def thread_refusal_def suffix_def update_conv
    intro: server_fits_Cons)

lemma goes_well_refuse: "goes_well s (refuse_on n u t reason s)"
  unfolding refuse_on_def
  by (rule goes_well_trans [OF goes_well_change goes_well_bar]) (auto simp: server_fits_def delete_conv split: if_splits)

section \<open>Operations one after another\<close>

text \<open>
  From a sound state an operation goes well and, when it succeeds, its result has the
  property, which is about deeds and so stays.
\<close>

definition goes :: "'a reply_of \<Rightarrow> servers_world \<Rightarrow> ('a \<Rightarrow> app_deed list \<Rightarrow> bool) \<Rightarrow> bool" where
  "goes r w Q \<longleftrightarrow> goes_well (sw_state w) (sw_state (snd r))
     \<and> (servers_ok (sw_state w) \<longrightarrow> (case fst r of Inl _ \<Rightarrow> True | Inr a \<Rightarrow> Q a (sv_did (sw_state (snd r)))))"

abbreviation goes_on :: "'a reply_of \<Rightarrow> servers_world \<Rightarrow> bool" where
  "goes_on r w \<equiv> goes r w (\<lambda>_ _. True)"

lemma on_servers_simps [simp]: "sw_state (on_servers f w) = f (sw_state w)" "sw_time (on_servers f w) = sw_time w"
  by (simp_all add: on_servers_def)

lemma goes_next:
  assumes r: "goes r w Q" and k: "\<And>a w1. servers_ok (sw_state w1) \<Longrightarrow> suffix (sv_did (sw_state w)) (sv_did (sw_state w1))
      \<Longrightarrow> Q a (sv_did (sw_state w1)) \<Longrightarrow> goes (k a w1) w1 Q'"
  shows "goes (next_do r k) w Q'"
proof (cases "servers_ok (sw_state w)")
  case ok: True
  obtain x w1 where x: "r = (x, w1)" by (cases r)
  have w1: "servers_ok (sw_state w1)" "suffix (sv_did (sw_state w)) (sv_did (sw_state w1))" "goes_well (sw_state w) (sw_state w1)"
    using r ok by (simp_all add: goes_def goes_well_def x)
  show ?thesis
  proof (cases x)
    case (Inr a)
    have "Q a (sv_did (sw_state w1))" using r ok by (simp add: goes_def x Inr)
    from k [OF w1(1,2) this] show ?thesis
      using w1 by (auto simp: next_do_def x Inr goes_def intro: goes_well_trans)
  qed (use w1 in \<open>simp add: next_do_def x goes_def\<close>)
qed (simp add: goes_def goes_well_def)

lemma goes_checked: "(\<And>a. r = Inr a \<Longrightarrow> Q a (sv_did (sw_state w))) \<Longrightarrow> goes (checked r w) w Q"
  by (simp add: goes_def checked_def split: sum.split)

lemma goes_result: "goes_well (sw_state w) (sw_state w1) \<Longrightarrow> (\<And>a. r = Inr a \<Longrightarrow> Q a (sv_did (sw_state w1))) \<Longrightarrow> goes (r, w1) w Q"
  by (simp add: goes_def split: sum.split)

lemma goes_weaker: "goes r w Q \<Longrightarrow> (\<And>a ds. Q a ds \<Longrightarrow> Q' a ds) \<Longrightarrow> goes r w Q'"
  by (auto simp: goes_def split: sum.splits)

lemma goes_after:
  assumes "goes_well (sw_state w) (sw_state w1)" and "goes r w1 Q"
  shows "goes r w Q"
  using assms by (auto simp: goes_def goes_well_def intro: suffix_order.trans)

lemma goes_wait: "others_go_well e \<Longrightarrow> goes_well (sw_state w) (sw_state (wait_for e w))"
  by (simp add: wait_for_def others_go_well_def)

lemma goes_ask:
  assumes e: "others_go_well e" and c: "servers_ok (sw_state w) \<Longrightarrow> call_allowed (sv_did (sw_state w)) n call"
  shows "goes (ask_server e n call answer w) w (\<lambda>_ ds. Asked n call \<in> set ds)"
proof -
  let ?w = "on_servers (did (Asked n call)) w"
  have d: "goes_well (sw_state w) (sw_state ?w)" using c by (simp add: goes_well_did)
  have o: "goes_well (sw_state ?w) (sw_state (wait_for e ?w))" using e by (rule goes_wait)
  have "Asked n call \<in> set (sv_did (sw_state (wait_for e ?w)))" if "servers_ok (sw_state w)"
  proof -
    have "suffix (sv_did (sw_state ?w)) (sv_did (sw_state (wait_for e ?w)))" using d o that by (auto simp: goes_well_def)
    then show ?thesis by (auto simp: suffix_def did_def)
  qed
  then show ?thesis using goes_well_trans [OF d o] by (simp add: goes_def ask_server_def split: sum.split)
qed

lemma goes_config:
  assumes e: "others_go_well e"
  shows "goes (config_passes e n w) w (\<lambda>_ ds. ConfigPassed n \<in> set ds)"
  unfolding config_passes_def
  by (rule goes_next [OF goes_ask [OF e]], simp, rule goes_next [OF goes_checked [where Q = "\<lambda>_ _. True"]], simp,
      rule goes_result) (simp_all add: goes_well_did, simp add: did_def)

lemma goes_startup: "others_go_well e \<Longrightarrow> goes_on (startup_checks e n w) w"
  unfolding startup_checks_def
  by (intro goes_next [OF goes_ask] goes_next [OF goes_config] goes_next [OF goes_checked [where Q = "\<lambda>_ _. True"]] goes_result)
    (simp_all add: goes_well_did)


lemma server_user_launched:
  assumes "servers_ok s" and "server_user n s = Inr u"
  shows "Launched n (UserServer u) \<in> set (sv_did s)"
proof -
  obtain a where a: "the_server n s = Some a" "ap_owner a = UserServer u"
    using assms(2) by (auto simp: server_user_def split: option.splits owner.splits)
  then have "server_fits (sv_did s) n a" using assms(1) by (simp add: servers_ok_def)
  then show ?thesis using a by (simp add: server_fits_def)
qed

lemma thread_grants_passed:
  assumes "servers_ok s" and "thread_grants n t s = Some gs"
  shows "ThreadPassed n t gs \<in> set (sv_did s)"
proof -
  obtain a where a: "the_server n s = Some a" "map_of (ap_served a) t = Some gs"
    using assms(2) by (auto simp: thread_grants_def split: option.splits)
  then have "server_fits (sv_did s) n a" using assms(1) by (simp add: servers_ok_def)
  then show ?thesis using a by (simp add: server_fits_def)
qed

lemma did_change: "did d (change_server n f s) = change_server n f (did d s)"
  by (simp add: did_def change_server_def the_server_def split: option.split)

text \<open>A thread served: its answer passed after the configuration had, and the call was made.\<close>

lemma goes_serve:
  assumes "ConfigPassed n \<in> set (sv_did (sw_state w))"
    and "\<exists>i. Asked n (ThreadStartCall i (specs gs) (thread_overrides gs)) \<in> set (sv_did (sw_state w))
      \<or> Asked n (ThreadResumeCall (ts_thread r) i (thread_overrides gs)) \<in> set (sv_did (sw_state w))"
  shows "goes_on (serve_answer e n r gs w) w"
proof -
  let ?d = "ThreadPassed n (ts_thread r) gs"
  have "goes_well (sw_state w) (did ?d (sw_state w))" using assms by (intro goes_well_did) simp_all
  moreover have "goes_well (did ?d (sw_state w))
      (change_server n (\<lambda>a. a\<lparr>ap_served := AList.update (ts_thread r) gs (ap_served a)\<rparr>) (did ?d (sw_state w)))"
    by (rule goes_well_change) (auto simp: server_fits_def update_conv did_def split: if_splits)
  ultimately have served: "goes_well (sw_state w) (did ?d
      (change_server n (\<lambda>a. a\<lparr>ap_served := AList.update (ts_thread r) gs (ap_served a)\<rparr>) (sw_state w)))"
    unfolding did_change by (rule goes_well_trans)
  show ?thesis
    unfolding serve_answer_def
    by (cases "server_user n (sw_state w)")
      (use served in \<open>auto intro!: goes_result simp: goes_well_refuse checked_def next_do_def split: sum.split\<close>)
qed


lemma grown: "suffix ds ds' \<Longrightarrow> d \<in> set ds \<Longrightarrow> d \<in> set ds'"
  by (auto simp: suffix_def)

lemmas goes_plain = goes_next [OF goes_checked [where Q = "\<lambda>_ _. True"]]

lemma goes_start_thread:
  assumes e: "others_go_well e"
  shows "goes_on (start_thread e n instr gs w) w"
  unfolding start_thread_def
proof (intro goes_plain)
  fix w1 :: servers_world
  show "goes_on (next_do (config_passes e n w1) (\<lambda>_ w. next_do
      (ask_server e n (ThreadStartCall instr (specs gs) (thread_overrides gs)) (se_thread e) w) (\<lambda>r w. serve_answer e n r gs w))) w1"
  proof (rule goes_next [OF goes_config [OF e]])
    fix a and w2 :: servers_world
    assume c: "ConfigPassed n \<in> set (sv_did (sw_state w2))"
    show "goes_on (next_do (ask_server e n (ThreadStartCall instr (specs gs) (thread_overrides gs)) (se_thread e) w2)
        (\<lambda>r w. serve_answer e n r gs w)) w2"
      by (rule goes_next [OF goes_ask [OF e]]) (use c in \<open>auto intro!: goes_serve intro: grown\<close>)
  qed
qed simp_all

lemma goes_resume_thread:
  assumes e: "others_go_well e"
  shows "goes_on (resume_thread e n t instr gs w) w"
  unfolding resume_thread_def
proof (intro goes_plain)
  fix w1 :: servers_world
  show "goes_on (next_do (config_passes e n w1) (\<lambda>_ w. next_do
      (ask_server e n (ThreadResumeCall t instr (thread_overrides gs)) (se_thread e) w) (\<lambda>r w.
        if ts_thread r \<noteq> t then (Inl (CodexRefused (lit ''thread/resume answered for a different thread'')), w)
        else serve_answer e n r gs w))) w1"
  proof (rule goes_next [OF goes_config [OF e]])
    fix a and w2 :: servers_world
    assume c: "ConfigPassed n \<in> set (sv_did (sw_state w2))"
    show "goes_on (next_do (ask_server e n (ThreadResumeCall t instr (thread_overrides gs)) (se_thread e) w2) (\<lambda>r w.
        if ts_thread r \<noteq> t then (Inl (CodexRefused (lit ''thread/resume answered for a different thread'')), w)
        else serve_answer e n r gs w)) w2"
      by (rule goes_next [OF goes_ask [OF e]]) (use c in \<open>auto intro!: goes_serve goes_result intro: grown\<close>)
  qed
qed simp_all

lemma served_turn_allowed:
  assumes ok: "servers_ok s" and served: "ensure_served n t s = Inr ()"
  shows "turn_allowed (sv_did s) n t"
proof -
  obtain u where u: "server_user n s = Inr u" "sv_tainted s = None" "thread_refusal u t s = None"
    using served by (auto simp: ensure_served_def ensure_not_refused_def and_then_ok split: option.splits)
  obtain gs where gs: "thread_grants n t s = Some gs"
    using served by (auto simp: ensure_served_def and_then_ok split: if_splits)
  have "ThreadBarred u t \<in> set (sv_did s) \<longrightarrow> thread_refusal u t s \<noteq> None" "CodexTainted \<in> set (sv_did s) \<longleftrightarrow> sv_tainted s \<noteq> None"
    using ok unfolding servers_ok_def by blast+
  then have "CodexTainted \<notin> set (sv_did s)" "ThreadBarred u t \<notin> set (sv_did s)" using u by auto
  then show ?thesis
    using server_user_launched [OF ok u(1)] thread_grants_passed [OF ok gs] by (auto simp: turn_allowed_def served_before_def)
qed

lemma goes_start_turn: "others_go_well e \<Longrightarrow> goes_on (start_turn e n t text ctxt w) w"
  unfolding start_turn_def
  by (cases "ensure_served n t (sw_state w)")
    (auto simp: checked_def next_do_def intro!: goes_result goes_weaker [OF goes_ask] served_turn_allowed)

lemma goes_steer_turn: "others_go_well e \<Longrightarrow> goes_on (steer_turn e n t turn text client ctxt w) w"
  unfolding steer_turn_def
  by (cases "ensure_served n t (sw_state w)")
    (auto simp: checked_def next_do_def intro!: goes_result goes_weaker [OF goes_ask] served_turn_allowed)

lemma goes_interrupt: "others_go_well e \<Longrightarrow> goes_on (interrupt_on e n t turn w) w"
  unfolding interrupt_on_def by (intro goes_plain goes_weaker [OF goes_ask]) simp_all

lemma goes_rate_limits: "others_go_well e \<Longrightarrow> goes_on (rate_limits e n w) w"
  unfolding rate_limits_def by (intro goes_weaker [OF goes_ask]) simp_all

lemma goes_well_launch: "goes_well s (launch e owner slugs s)"
proof -
  let ?a = "fresh_server e owner slugs" and ?n = "sv_serials s"
  have "goes_well s (did (Launched ?n owner) s)" by (rule goes_well_did) simp_all
  moreover have "goes_well (did (Launched ?n owner) s)
      ((did (Launched ?n owner) s)\<lparr>sv_servers := AList.update ?n ?a (sv_servers s), sv_serials := Suc ?n\<rparr>)"
    by (auto simp: goes_well_def servers_ok_def the_server_def thread_refusal_def update_conv did_def server_fits_def fresh_server_def
      split: if_splits)
  moreover have "launch e owner slugs s
      = (did (Launched ?n owner) s)\<lparr>sv_servers := AList.update ?n ?a (sv_servers s), sv_serials := Suc ?n\<rparr>"
    by (cases s) (simp add: launch_def did_def)
  ultimately show ?thesis by (metis goes_well_trans)
qed


lemma goes_start_server:
  assumes e: "others_go_well e"
  shows "goes_on (start_server e owner w) w"
  unfolding start_server_def Let_def
proof (rule goes_after [OF goes_wait [OF e]], intro goes_plain)
  fix w1 :: servers_world and slugs
  let ?w = "on_servers (launch e owner slugs) w1" and ?n = "sv_serials (sw_state w1)"
  obtain x w2 where x: "startup_checks e ?n ?w = (x, w2)" by fastforce
  have "goes_well (sw_state ?w) (sw_state w2)" using goes_startup [OF e, of ?n ?w] by (simp add: goes_def x)
  then have "goes_well (sw_state w1) (sw_state w2)" using goes_well_trans [OF goes_well_launch] by simp
  then show "goes_on (case startup_checks e ?n ?w of (Inl err, w1) \<Rightarrow> (Inl err, on_servers (stop_server ?n) w1)
      | (Inr _, w1) \<Rightarrow> (Inr ?n, w1)) w1"
    by (cases x) (auto simp: x intro!: goes_result intro: goes_well_trans)
qed simp_all

section \<open>The household and users\<close>

lemma goes_well_fields [simp]:
  "goes_well s (s\<lparr>sv_slots := x1\<rparr>)" "goes_well s (s\<lparr>sv_household := x2\<rparr>)" "goes_well s (s\<lparr>sv_refresh_failed_at := x3\<rparr>)"
  "goes_well s (s\<lparr>sv_login := x4\<rparr>)" "goes_well s (s\<lparr>sv_recovering := x5\<rparr>)" "goes_well s (s\<lparr>sv_recover_tasks := x6\<rparr>)"
  "goes_well s (s\<lparr>sv_recoveries := x7\<rparr>)"
  by (rule goes_well_same; simp)+

lemma goes_well_slot [simp]: "goes_well s (set_slot u slot s)" "goes_well s (touch_slot u s)"
  by (simp_all add: set_slot_def touch_slot_def)

lemma goes_well_logins [simp]: "goes_well s (expire_login now s)" "goes_well s (mark_cancelled i s)" "goes_well s (household_exited n s)"
  "goes_well s (login_reported li ok err s)"
  by (auto simp: expire_login_def mark_cancelled_def household_exited_def login_reported_def Let_def
    intro: goes_well_same split: option.split)

lemma goes_household:
  assumes e: "others_go_well e"
  shows "goes_on (household e w0) w0"
  unfolding household_def
proof (intro goes_plain)
  fix w :: servers_world
  let ?w = "wait_for e w"
  let ?slot = "sv_household (sw_state ?w)"
  let ?w1 = "on_servers (\<lambda>s. (stop_any ?slot s)\<lparr>sv_household := None\<rparr>) ?w"
  have w1: "goes_well (sw_state w) (sw_state ?w1)"
    unfolding on_servers_simps by (rule goes_well_trans [OF goes_wait [OF e] goes_well_trans [OF goes_well_stop_any goes_well_fields(2)]])
  have new: "goes_on (next_do (checked (failed_by (lit ''creating the household's directories'') (se_written e t)) ?w1) (\<lambda>_ w.
      next_do (checked (household_file (inspect (se_auth e t HouseholdServer))) w) (\<lambda>_ w.
      next_do (start_server e HouseholdServer w) (\<lambda>n w. (Inr n, on_servers (\<lambda>s. s\<lparr>sv_household := Some n\<rparr>) w))))) w" for t
    by (rule goes_after [OF w1], intro goes_plain goes_next [OF goes_start_server [OF e]] goes_result) simp_all
  show "goes_on (let w' = wait_for e w; t = sw_time w; slot = sv_household (sw_state w') in
      case running_in slot (sw_state w') of Some n \<Rightarrow> (Inr n, w')
      | None \<Rightarrow> next_do (checked (failed_by (lit ''creating the household's directories'') (se_written e t))
             (on_servers (\<lambda>s. (stop_any slot s)\<lparr>sv_household := None\<rparr>) w')) (\<lambda>_ w.
           next_do (checked (household_file (inspect (se_auth e t HouseholdServer))) w) (\<lambda>_ w.
           next_do (start_server e HouseholdServer w) (\<lambda>n w. (Inr n, on_servers (\<lambda>s. s\<lparr>sv_household := Some n\<rparr>) w))))) w"
    unfolding Let_def by (auto simp: new intro!: goes_result goes_wait [OF e] split: option.split)
qed simp

lemma goes_token: "others_go_well e \<Longrightarrow> goes_on (token_good e w) w"
  by (auto simp: token_good_def Let_def intro!: goes_result goes_wait split: option.split)

lemma goes_refresh:
  assumes e: "others_go_well e"
  shows "goes_on (refresh_with e n w) w"
proof -
  obtain r w1 where r: "ask_server e n (AccountReadCall True) (se_account e) w = (r, w1)" by fastforce
  have "goes_well (sw_state w) (sw_state w1)" using goes_ask [OF e, of w n "AccountReadCall True" "se_account e"] by (simp add: goes_def r)
  then show ?thesis
    unfolding refresh_with_def r prod.case
    by (rule goes_after, intro goes_next [OF goes_token [OF e]]) (auto intro!: goes_result)
qed

lemma goes_ensure:
  assumes e: "others_go_well e"
  shows "goes_on (ensure_household e w) w"
  unfolding ensure_household_def
proof (intro goes_next [OF goes_household [OF e]] goes_next [OF goes_token [OF e]])
  fix n w1 good and w2 :: servers_world
  have again: "goes_on (next_do (token_good e (wait_for e w2)) (\<lambda>good w1. if good then (Inr (), w1)
      else (case sv_refresh_failed_at (sw_state w1) of
          Some failed \<Rightarrow> if wrap_i64 (se_unix e (sw_time w1) - failed) < se_retry_after e then (Inl (CodexSignedOut NOT_REFRESHED), w1)
            else refresh_with e n w1
        | None \<Rightarrow> refresh_with e n w1))) w2"
    by (rule goes_after [OF goes_wait [OF e]], rule goes_next [OF goes_token [OF e]])
      (auto intro!: goes_result goes_refresh [OF e] split: option.split)
  then show "goes_on (if good then (Inr (), w2) else next_do (token_good e (wait_for e w2)) (\<lambda>good w1. if good then (Inr (), w1)
      else (case sv_refresh_failed_at (sw_state w1) of
          Some failed \<Rightarrow> if wrap_i64 (se_unix e (sw_time w1) - failed) < se_retry_after e then (Inl (CodexSignedOut NOT_REFRESHED), w1)
            else refresh_with e n w1
        | None \<Rightarrow> refresh_with e n w1))) w2"
    by (cases good) (simp_all add: goes_result)
qed


lemma goes_refresh_household:
  assumes e: "others_go_well e"
  shows "goes_on (refresh_household e w) w"
  unfolding refresh_household_def
  by (rule goes_next [OF goes_household [OF e]], rule goes_after [OF goes_wait [OF e]], rule goes_refresh [OF e])

lemma goes_well_of: "goes_on r w \<Longrightarrow> r = (x, w1) \<Longrightarrow> goes_well (sw_state w) (sw_state w1)"
  by (simp add: goes_def)

lemma goes_well_snd: "goes_on r w \<Longrightarrow> goes_well (sw_state w) (sw_state (snd r))"
  by (simp add: goes_def)

lemma goes_ask_plain:
  assumes "others_go_well e" and "\<And>ds. call_allowed ds n call"
  shows "goes_on (ask_server e n call answer w) w"
  by (rule goes_weaker [OF goes_ask]) (use assms in simp_all)

lemma goes_well_refresher:
  assumes e: "others_go_well e"
  shows "goes_well (sw_state w) (sw_state (refresher_tick e w))"
  unfolding refresher_tick_def Let_def
  using goes_wait [OF e, of w] goes_well_trans [OF goes_wait [OF e, of w] goes_wait [OF e]]
    goes_well_trans [OF goes_well_trans [OF goes_wait [OF e, of w] goes_wait [OF e]] goes_well_snd [OF goes_ensure [OF e]]]
  by simp

lemma goes_sign_out_own:
  assumes e: "others_go_well e"
  shows "goes_on (sign_out_own e u w) w"
  unfolding sign_out_own_def
proof (rule goes_next [OF goes_start_server [OF e]])
  fix n and w1 :: servers_world
  obtain r w2 where r: "ask_server e n LogoutCall (se_plain e) w1 = (r, w2)" by fastforce
  have w2: "goes_well (sw_state w1) (sw_state (on_servers (stop_server n) w2))"
    using goes_well_trans [OF goes_well_of [OF goes_ask_plain [OF e] r] goes_well_stop] by simp
  show "goes_on (case ask_server e n LogoutCall (se_plain e) w1 of (r, w1) \<Rightarrow>
      next_do (checked r (on_servers (stop_server n) w1)) (\<lambda>_ w2.
        if inspect (se_auth e (sw_time w2) (UserServer u)) = Inr AuthMissing then (Inr (), wait_for e w2)
        else (Inl (CodexRefused (lit ''the user's own earlier sign-in was not signed out'')), wait_for e w2))) w1"
    unfolding r prod.case
    by (rule goes_after [OF w2], intro goes_plain) (auto intro!: goes_result goes_wait [OF e])
qed

lemma goes_link:
  assumes e: "others_go_well e"
  shows "goes_on (link_user e u w0) w0"
proof -
  have make: "goes_on (next_do (checked (failed_by (lit ''linking the user's auth.json'') (se_written e t1)) (wait_for e w1)) (\<lambda>_ w3.
      if inspect (se_auth e (Suc t1) (UserServer u)) = Inr AuthLink then (Inr (), w3)
      else (Inl (CodexRefused NOT_THE_LINK), w3))) w1" for t1 w1
    by (rule goes_after [OF goes_wait [OF e]], intro goes_plain) (auto intro!: goes_result)
  show ?thesis
    unfolding link_user_def Let_def
    by (rule goes_after [OF goes_wait [OF e]], intro goes_plain)
      (auto intro!: goes_result make goes_next [OF goes_sign_out_own [OF e]] split: sum.split auth_file.split)
qed

lemma goes_runtime:
  assumes e: "others_go_well e"
  shows "goes_on (runtime e u w0) w0"
  unfolding runtime_def
proof (intro goes_plain goes_next [OF goes_ensure [OF e]])
  fix w1 :: servers_world
  let ?w = "wait_for e (on_servers (touch_slot u) w1)"
  let ?slot = "slot_of u (sw_state ?w)"
  have w: "goes_well (sw_state w1) (sw_state ?w)"
    using goes_well_trans [OF goes_well_slot(2) goes_wait [OF e, of "on_servers (touch_slot u) w1", unfolded on_servers_simps]] .
  have stopped: "goes_well (sw_state w1) (sw_state (on_servers (\<lambda>s. set_slot u None (stop_server n s)) ?w))" for n
    unfolding on_servers_simps by (rule goes_well_trans [OF w goes_well_trans [OF goes_well_stop goes_well_slot(1)]])
  have emptied: "goes_well (sw_state w1) (sw_state (on_servers (\<lambda>s. set_slot u None (stop_any ?slot s)) ?w))"
    unfolding on_servers_simps by (rule goes_well_trans [OF w goes_well_trans [OF goes_well_stop_any goes_well_slot(1)]])
  have new: "goes_on (next_do (link_user e u (on_servers (\<lambda>s. set_slot u None (stop_any ?slot s)) ?w)) (\<lambda>_ w.
      next_do (start_server e (UserServer u) w) (\<lambda>n w. (Inr n, on_servers (set_slot u (Some n)) w)))) w1"
    by (rule goes_after [OF emptied], intro goes_next [OF goes_link [OF e]] goes_next [OF goes_start_server [OF e]] goes_result) simp_all
  show "goes_on (let t = sw_time w1; w = wait_for e (on_servers (touch_slot u) w1); slot = slot_of u (sw_state w) in
      case running_in slot (sw_state w) of
        Some n \<Rightarrow> if inspect (se_auth e t (UserServer u)) = Inr AuthLink then (Inr n, w)
          else (Inl (CodexRefused NOT_THE_LINK), on_servers (\<lambda>s. set_slot u None (stop_server n s)) w)
      | None \<Rightarrow> next_do (link_user e u (on_servers (\<lambda>s. set_slot u None (stop_any slot s)) w)) (\<lambda>_ w.
           next_do (start_server e (UserServer u) w) (\<lambda>n w. (Inr n, on_servers (set_slot u (Some n)) w)))) w1"
    unfolding Let_def
    by (cases "running_in ?slot (sw_state ?w)") (use new w stopped in \<open>auto intro!: goes_result\<close>)
qed simp


lemma goes_well_running: "others_go_well e \<Longrightarrow> goes_well (sw_state w) (sw_state (snd (running e u w)))"
  using goes_well_trans [OF goes_well_slot(2) goes_wait [of e "on_servers (touch_slot u) w", unfolded on_servers_simps]]
  by (simp add: running_def Let_def)

lemma goes_well_stop_user:
  assumes e: "others_go_well e"
  shows "goes_well (sw_state w) (sw_state (stop_user e u w))"
  unfolding stop_user_def on_servers_simps
  by (rule goes_well_trans [OF goes_well_trans [OF goes_well_slot(2) goes_wait [OF e, of "on_servers (touch_slot u) w", unfolded on_servers_simps]]
    goes_well_trans [OF goes_well_stop_any goes_well_slot(1)]])

lemma goes_well_fold:
  assumes "\<And>x w. goes_well (sw_state w) (sw_state (f x w))"
  shows "goes_well (sw_state w) (sw_state (fold f xs w))"
  using assms by (induction xs arbitrary: w) (auto intro: goes_well_trans)

lemma goes_well_link_at_start:
  assumes e: "others_go_well e"
  shows "goes_well (sw_state w) (sw_state (link_at_start e u w))"
proof -
  have t: "goes_well (sw_state w) (sw_state (wait_for e (on_servers (touch_slot u) w)))"
    using goes_well_trans [OF goes_well_slot(2) goes_wait [OF e, of "on_servers (touch_slot u) w", unfolded on_servers_simps]] .
  show ?thesis
    unfolding link_at_start_def
    using goes_well_trans [OF t goes_well_snd [OF goes_link [OF e]]] goes_wait [OF e, of w] by simp
qed

lemma goes_cancel_login:
  assumes e: "others_go_well e"
  shows "goes_on (cancel_login e now w0) w0"
proof -
  let ?w = "on_servers (expire_login now) w0"
  have told: "goes_well (sw_state w0) (sw_state (case household e (on_servers (mark_cancelled i) (wait_for e ?w)) of
      (Inl _, w2) \<Rightarrow> w2 | (Inr n, w2) \<Rightarrow> snd (ask_server e n (LoginCancelCall i) (se_plain e) w2)))" for i
  proof -
    let ?m = "on_servers (mark_cancelled i) (wait_for e ?w)"
    have m: "goes_well (sw_state w0) (sw_state ?m)"
      unfolding on_servers_simps
      by (rule goes_well_trans [OF goes_well_trans [OF goes_well_logins(1) goes_wait [OF e, of ?w, unfolded on_servers_simps]] goes_well_logins(2)])
    obtain x w2 where x: "household e ?m = (x, w2)" by fastforce
    note w2 = goes_well_trans [OF m goes_well_of [OF goes_household [OF e] x]]
    have asked: "goes_well (sw_state w0) (sw_state (snd (ask_server e n (LoginCancelCall i) (se_plain e) w2)))" for n
      by (rule goes_well_trans [OF w2 goes_well_snd [OF goes_ask_plain [OF e]]]) simp
    show ?thesis using w2 asked by (cases x) (simp_all add: x)
  qed
  have ends: "goes_well (sw_state w0) (expire_login now (sw_state w1))" if "goes_well (sw_state w0) (sw_state w1)" for w1
    by (rule goes_well_trans [OF that goes_well_logins(1)])
  show ?thesis
    unfolding cancel_login_def Let_def
    by (rule goes_result) (use ends [OF told] ends [of "on_servers (expire_login now) w0"] in \<open>auto split: option.split\<close>)
qed

lemma goes_start_login:
  assumes e: "others_go_well e"
  shows "goes_on (start_login e now w) w"
  unfolding start_login_def
  by (intro goes_next [OF goes_household [OF e]] goes_next [OF goes_cancel_login [OF e]] goes_next [OF goes_ask_plain [OF e]])
    (auto simp: Let_def intro!: goes_result split: login_answer.split)

lemma goes_sign_out_household:
  assumes e: "others_go_well e"
  shows "goes_on (sign_out_household e now w) w"
  unfolding sign_out_household_def
  by (intro goes_next [OF goes_household [OF e]] goes_next [OF goes_cancel_login [OF e]], rule goes_after [OF goes_wait [OF e]],
      intro goes_next [OF goes_ask_plain [OF e]] goes_result)
    (simp_all add: stop_users_def goes_well_fold goes_well_stop_user e)

lemma goes_well_status:
  assumes e: "others_go_well e"
  shows "goes_well (sw_state w0) (sw_state (snd (household_status e detail w0)))"
proof -
  obtain x w where x: "ensure_household e w0 = (x, w)" by fastforce
  note w = goes_well_of [OF goes_ensure [OF e] x]
  obtain y w1 where y: "household e w = (y, w1)" by fastforce
  note w1 = goes_well_trans [OF w goes_well_of [OF goes_household [OF e] y]]
  have w2: "goes_well (sw_state w0) (sw_state w2)" if "ask_server e n (AccountReadCall False) (se_account e) w1 = (z, w2)" for n z w2
    by (rule goes_well_trans [OF w1 goes_well_of [OF goes_ask_plain [OF e] that]]) simp
  show ?thesis
    using w w1 w2 by (auto simp: household_status_def x y split: sum.split prod.split account_answer.split)
qed

lemma goes_well_turn_reported [simp]: "goes_well s (turn_reported u n status bad_credential s)"
  by (simp add: turn_reported_def)

lemma goes_well_recover:
  assumes e: "others_go_well e"
  shows "goes_well (sw_state w0) (sw_state (recover_server e u failed w0))"
proof (cases "u \<in> sv_recovering (sw_state w0)")
  case False
  let ?w0 = "on_servers (\<lambda>s. s\<lparr>sv_recovering := insert u (sv_recovering s)\<rparr>) w0"
  obtain x w where x: "ensure_household e ?w0 = (x, w)" by fastforce
  have w: "goes_well (sw_state w0) (sw_state w)"
    using goes_well_trans [OF goes_well_fields(5) goes_well_of [OF goes_ensure [OF e] x, unfolded on_servers_simps]] .
  let ?t = "wait_for e (on_servers (touch_slot u) w)"
  have t: "goes_well (sw_state w0) (sw_state ?t)"
    using goes_well_trans [OF w goes_well_trans [OF goes_well_slot(2) goes_wait [OF e, of "on_servers (touch_slot u) w", unfolded on_servers_simps]]] .
  let ?s = "if slot_of u (sw_state ?t) = Some failed then set_slot u None (stop_server failed (sw_state ?t)) else sw_state ?t"
  have s: "goes_well (sw_state w0) ?s"
    using t goes_well_trans [OF t goes_well_trans [OF goes_well_stop goes_well_slot(1)]] by simp
  have last: "goes_well (sw_state w0) (sw_state (snd (runtime e u w1)))"
    if "sw_state w1 = ?s\<lparr>sv_recoveries := Suc (sv_recoveries ?s)\<rparr>" for w1
  proof (rule goes_well_trans [OF goes_well_trans [OF s goes_well_fields(7)]])
    have "goes_well (sw_state w1) (sw_state (snd (runtime e u w1)))" by (rule goes_well_snd [OF goes_runtime [OF e]])
    then show "goes_well (?s\<lparr>sv_recoveries := Suc (sv_recoveries ?s)\<rparr>) (sw_state (snd (runtime e u w1)))" using that by simp
  qed
  show ?thesis
  proof (cases x)
    case (Inl err)
    then show ?thesis using False goes_well_trans [OF w goes_well_fields(5)] by (simp add: recover_server_def x)
  next
    case (Inr y)
    show ?thesis using False by (simp add: recover_server_def x Inr Let_def) (rule last, simp)
  qed
qed (simp add: recover_server_def)


section \<open>Messages of an app server\<close>

lemma goes_well_tell:
  assumes "\<And>u. servers_ok s \<Longrightarrow> Launched n (UserServer u) \<in> set (sv_did s) \<Longrightarrow> told_allowed (sv_did s) u ev"
  shows "goes_well s (tell n ev s)"
proof (cases "map_option ap_owner (the_server n s)")
  case (Some owner)
  show ?thesis
  proof (cases owner)
    case (UserServer u)
    have "Launched n (UserServer u) \<in> set (sv_did s)" if "servers_ok s"
      by (rule server_user_launched [OF that]) (use Some UserServer in \<open>auto simp: server_user_def\<close>)
    then show ?thesis using assms Some UserServer by (auto simp: tell_def intro!: goes_well_did)
  qed (use Some in \<open>auto simp: tell_def\<close>)
qed (simp add: tell_def)

lemma goes_well_violation [simp]: "goes_well s (violation n thread reason s)"
proof -
  have refused: "goes_well s (tell n (RefusedEvent t reason) (refuse_on n u t reason s))" for u t
    by (rule goes_well_trans [OF goes_well_refuse goes_well_tell]) simp
  have "goes_well s (stop_server n (taint reason s1))" if "goes_well s s1" for s1
    by (rule goes_well_trans [OF that goes_well_trans [OF goes_well_taint goes_well_stop]])
  then show ?thesis
    unfolding violation_def Let_def by (auto simp: refused split: option.split owner.split)
qed

lemma goes_well_answered: "goes_well s s1 \<Longrightarrow> goes_well s (did (Answered n a) s1)"
  by (rule goes_well_trans [OF _ goes_well_did]) simp_all

lemma goes_well_item [simp]: "goes_well s (item_checked n t item s)"
  by (simp add: item_checked_def split: sum.split)

lemma plain_notes: "(\<And>call. ev \<noteq> ToolCallEvent call) \<Longrightarrow> (\<And>t turn i q a. ev \<noteq> SearchEvent t turn i q a True) \<Longrightarrow> told_allowed ds u ev"
  by (cases ev) auto

text \<open>A search passed its check only with the grant, on a thread served before.\<close>

lemma goes_well_search:
  "goes_well s (search_told n t turn item (check_item item (granted_to n t s) = Inr ()) (item_checked n t item s))"
proof (cases item)
  case (WebSearchItem i q a)
  show ?thesis
  proof (cases "WebSearch \<in> granted_to n t s")
    case True
    obtain gs where gs: "thread_grants n t s = Some gs" "WebSearch \<in> gs"
      using True by (auto simp: granted_to_def split: option.splits)
    have "item_checked n t item s = s" using True WebSearchItem by (simp add: item_checked_def require_def)
    moreover have "goes_well s (tell n (SearchEvent t turn i q a True) s)"
      by (rule goes_well_tell, unfold told_allowed.simps) (use thread_grants_passed [OF _ gs(1)] gs(2) in blast)
    ultimately show ?thesis using True WebSearchItem by (simp add: search_told_def)
  next
    case False
    have "goes_well s (tell n (SearchEvent t turn i q a False) (item_checked n t item s))"
      by (rule goes_well_trans [OF goes_well_item goes_well_tell]) simp
    then show ?thesis using False WebSearchItem by (simp add: search_told_def)
  qed
qed (simp_all add: search_told_def)

lemma goes_well_note: "goes_well s (note_received n note s)"
proof -
  have last: "goes_well s1 (tell n (note_event note) s1)" for s1
    by (rule goes_well_tell, rule plain_notes) ((cases "note"; simp)+)
  show ?thesis
    unfolding note_received_def
    by (rule goes_well_trans [OF _ last])
      (auto simp: goes_well_search split: app_notification.split option.split owner.split)
qed

lemma goes_well_request: "goes_well s (request_received n request s)"
proof -
  have tool: "goes_well s (tell n (ToolCallEvent call) s)"
    if "thread_grants n (tq_thread call) s = Some gs" "allows_tool gs (tq_tool call) (tq_namespace call)" for call gs
    by (rule goes_well_tell, unfold told_allowed.simps) (use thread_grants_passed [OF _ that(1)] that(2) in blast)
  show ?thesis
    unfolding request_received_def
    by (auto simp: tool intro: goes_well_answered split: app_request.split option.split owner.split)
qed

lemma goes_well_message: "goes_well s (message_received n message s)"
  using goes_well_trans [OF goes_well_answered [OF goes_well_refl] goes_well_violation]
  by (auto simp: message_received_def Let_def goes_well_note goes_well_request goes_well_answered split: incoming.split)

lemma goes_well_watch_ends: "goes_well s (watch_ends n s)"
proof -
  have "goes_well s (if map_option ap_owner (the_server n s) = Some HouseholdServer then household_exited n (stop_server n s) else stop_server n s)"
    using goes_well_trans [OF goes_well_stop goes_well_logins(3)] by simp
  then show ?thesis unfolding watch_ends_def Let_def by (rule goes_well_trans [OF _ goes_well_tell]) simp
qed

end
