(* ===== verification/CodexPromises.thy ===== *)
theory CodexPromises
  imports CodexSafety GuardPromises
begin

text \<open>
  What the gateway can rely on of its app servers: threads run only after their checks, a broken
  rule stops Codex until the gateway restarts, and no app server is handed out without the
  household's sign-in; and a sign-in that completed while it was cancelled. What holds from
  before to after an operation is proved once, in the locales \<open>steady\<close> and \<open>steady_servers\<close>.
\<close>

section \<open>Operations in any order\<close>

datatype server_op =
    UseRuntime user_id
  | LookRunning user_id
  | StopUser user_id
  | UseHousehold
  | EnsureHousehold
  | RefreshNow
  | RefresherTick
  | AskStatus bool
  | StartThreadOn nat utext grant_set
  | ResumeThreadOn nat utext utext grant_set
  | StartTurnOn nat utext utext "contexts option"
  | SteerTurnOn nat utext utext utext utext "contexts option"
  | InterruptTurnOn nat utext utext
  | ReadLimits nat
  | StartLogin timestamp
  | CancelLogin timestamp
  | LookAtLogin timestamp
  | SignOut timestamp
  | Recover user_id nat
  | LinkUsers "user_id list"
  | Receive nat incoming
  | CloseWatch nat

fun server_do :: "server_env \<Rightarrow> server_op \<Rightarrow> servers_world \<Rightarrow> servers_world" where
  "server_do e (UseRuntime u) w = snd (runtime e u w)"
| "server_do e (LookRunning u) w = snd (running e u w)"
| "server_do e (StopUser u) w = stop_user e u w"
| "server_do e UseHousehold w = snd (household e w)"
| "server_do e EnsureHousehold w = snd (ensure_household e w)"
| "server_do e RefreshNow w = snd (refresh_household e w)"
| "server_do e RefresherTick w = refresher_tick e w"
| "server_do e (AskStatus detail) w = snd (household_status e detail w)"
| "server_do e (StartThreadOn n instr gs) w = snd (start_thread e n instr gs w)"
| "server_do e (ResumeThreadOn n t instr gs) w = snd (resume_thread e n t instr gs w)"
| "server_do e (StartTurnOn n t input ctxt) w = snd (start_turn e n t input ctxt w)"
| "server_do e (SteerTurnOn n t turn input client ctxt) w = snd (steer_turn e n t turn input client ctxt w)"
| "server_do e (InterruptTurnOn n t turn) w = snd (interrupt_on e n t turn w)"
| "server_do e (ReadLimits n) w = snd (rate_limits e n w)"
| "server_do e (StartLogin now) w = snd (start_login e now w)"
| "server_do e (CancelLogin now) w = snd (cancel_login e now w)"
| "server_do e (LookAtLogin now) w = on_servers (expire_login now) w"
| "server_do e (SignOut now) w = snd (sign_out_household e now w)"
| "server_do e (Recover u n) w = recover_server e u n w"
| "server_do e (LinkUsers users) w = sign_out_own_sign_ins e users w"
| "server_do e (Receive n message) w = on_servers (message_received n message) w"
| "server_do e (CloseWatch n) w = on_servers (watch_ends n) w"

lemma server_do_goes_well:
  assumes e: "others_go_well e"
  shows "goes_well (sw_state w) (sw_state (server_do e op w))"
proof (cases op)
  case (LinkUsers users)
  then show ?thesis by (simp add: sign_out_own_sign_ins_def goes_well_fold goes_well_link_at_start e)
qed (simp_all add: goes_well_snd goes_runtime goes_well_running goes_well_stop_user goes_household goes_ensure goes_refresh_household
    goes_well_refresher goes_well_status goes_start_thread goes_resume_thread goes_start_turn goes_steer_turn goes_interrupt
    goes_rate_limits goes_start_login goes_cancel_login goes_sign_out_household goes_well_recover goes_well_message
    goes_well_watch_ends e)

definition no_servers :: supervisor where
  "no_servers = \<lparr>sv_servers = [], sv_slots = [], sv_household = None, sv_refresh_failed_at = None, sv_login = None,
     sv_recovering = {}, sv_recover_tasks = [], sv_recoveries = 0, sv_serials = 1, sv_barred = [], sv_tainted = None, sv_did = []\<rparr>"

definition new_gateway :: servers_world where
  "new_gateway = \<lparr>sw_state = no_servers, sw_time = 0\<rparr>"

lemma no_servers_ok: "servers_ok no_servers"
  by (simp add: servers_ok_def no_servers_def the_server_def)

lemma guarded_split: "guarded (later @ d # earlier) \<Longrightarrow> allowed earlier d"
  by (induction later) auto

lemma server_run_ok:
  assumes e: "others_go_well e"
  shows "servers_ok (sw_state (fold (server_do e) ops new_gateway))"
proof -
  have "goes_well (sw_state new_gateway) (sw_state (fold (server_do e) ops new_gateway))"
    by (rule goes_well_fold) (rule server_do_goes_well [OF e])
  then show ?thesis using no_servers_ok by (simp add: goes_well_def new_gateway_def)
qed


text \<open>C6: threads run only after their checks. Whatever the gateway asks of app servers, and
  whatever other tasks do meanwhile that keeps to the same rules, a thread is started or
  resumed only after the app server's configuration passed, and with exactly the tools and
  overrides of some grants; it counts as served only after its own answer passed, with those
  grants; a turn starts or is steered only on a thread served there that was never refused, and
  never after a safety rule broke; and a tool call, or a search found granted, is passed on only
  for a thread served with that grant.\<close>

theorem threads_run_only_after_their_checks:
  assumes "others_go_well e" and "sv_did (sw_state (fold (server_do e) ops new_gateway)) = later @ d # earlier"
  shows "allowed earlier d"
proof (rule guarded_split)
  show "guarded (later @ d # earlier)" using server_run_ok [OF assms(1), of ops] unfolding servers_ok_def assms(2) by blast
qed

section \<open>What every operation keeps\<close>

text \<open>
  What holds from before an operation to after it: operations only wait and change the
  supervisor in a few ways, so it holds of them all when it holds of a wait and of each way.
\<close>

locale steady =
  fixes e :: server_env and R :: "servers_world \<Rightarrow> servers_world \<Rightarrow> bool" and K :: "supervisor \<Rightarrow> supervisor \<Rightarrow> bool"
  assumes steady_refl: "R w w"
    and steady_trans: "R w w1 \<Longrightarrow> R w1 w2 \<Longrightarrow> R w w2"
    and steady_wait: "R w (wait_for e w)"
    and steady_set: "(\<And>s. K s (f s)) \<Longrightarrow> R w (on_servers f w)"
    and keeps_refl: "K s s"
    and keeps_trans: "K s s1 \<Longrightarrow> K s1 s2 \<Longrightarrow> K s s2"
    and keeps_did: "K s (did d s)"
    and keeps_stop: "K s (stop_server n s)"
    and keeps_launch: "K s (launch e owner slugs s)"
    and keeps_fields: "K s (s\<lparr>sv_slots := x1\<rparr>)" "K s (s\<lparr>sv_household := x2\<rparr>)" "K s (s\<lparr>sv_refresh_failed_at := x3\<rparr>)"
begin

lemma keeps_stop_any: "K s (stop_any slot s)"
  by (simp add: stop_any_def keeps_refl keeps_stop split: option.split)

lemma keeps_slot: "K s (set_slot u slot s)" "K s (touch_slot u s)"
  by (simp_all add: set_slot_def touch_slot_def keeps_fields)

lemmas keeps_simple = keeps_refl keeps_did keeps_stop keeps_launch keeps_fields keeps_stop_any keeps_slot
  keeps_trans [OF keeps_stop_any keeps_fields(2)] keeps_trans [OF keeps_stop_any keeps_slot(1)] keeps_trans [OF keeps_stop keeps_slot(1)]

lemma steady_next: "R w (snd r) \<Longrightarrow> (\<And>a w1. R w1 (snd (k a w1))) \<Longrightarrow> R w (snd (next_do r k))"
  by (auto simp: next_do_def split: prod.split sum.split intro: steady_trans)

lemma steady_checked: "R w (snd (checked r w))"
  by (simp add: checked_def steady_refl)

lemma steady_ask: "R w (snd (ask_server e n call answer w))"
  unfolding ask_server_def snd_conv by (rule steady_trans [OF steady_set steady_wait]) (rule keeps_did)

lemma steady_config: "R w (snd (config_passes e n w))"
  unfolding config_passes_def by (intro steady_next steady_ask steady_checked) (simp add: steady_set keeps_did)

lemma steady_startup: "R w (snd (startup_checks e n w))"
  unfolding startup_checks_def
  by (intro steady_next steady_ask steady_checked steady_config) (simp add: steady_set keeps_did)

lemma steady_start: "R w (snd (start_server e owner w))"
proof -
  have "R w1 (snd (case startup_checks e n (on_servers (launch e owner slugs) w1) of
      (Inl err, w1) \<Rightarrow> (Inl err, on_servers (stop_server n) w1) | (Inr _, w1) \<Rightarrow> (Inr n, w1)))" for slugs n w1
  proof -
    obtain x w2 where x: "startup_checks e n (on_servers (launch e owner slugs) w1) = (x, w2)" by fastforce
    have "R (on_servers (launch e owner slugs) w1) w2"
      using steady_startup [where n = n and w = "on_servers (launch e owner slugs) w1"] by (simp add: x)
    then have w2: "R w1 w2" by (rule steady_trans [OF steady_set [OF keeps_launch]])
    show ?thesis using w2 steady_trans [OF w2 steady_set [OF keeps_stop]] by (cases x) (simp_all add: x)
  qed
  note started = this
  show ?thesis
    unfolding start_server_def Let_def by (rule steady_trans [OF steady_wait], intro steady_next steady_checked started)
qed

lemma steady_household: "R w (snd (household e w))"
proof -
  have "R w1 (snd (case running_in slot s of Some n \<Rightarrow> (Inr n, wait_for e w1)
      | None \<Rightarrow> next_do (checked c (on_servers (\<lambda>s. (stop_any slot s)\<lparr>sv_household := None\<rparr>) (wait_for e w1))) (\<lambda>_ w.
          next_do (checked d w) (\<lambda>_ w.
          next_do (start_server e HouseholdServer w) (\<lambda>n w. (Inr n, on_servers (\<lambda>s. s\<lparr>sv_household := Some n\<rparr>) w))))))" for slot s c d w1
  proof (cases "running_in slot s")
    case None
    show ?thesis
      unfolding None option.case
      by (rule steady_trans [OF steady_wait],
          rule steady_trans [OF steady_set [where f = "\<lambda>s. (stop_any slot s)\<lparr>sv_household := None\<rparr>",
            OF keeps_trans [OF keeps_stop_any keeps_fields(2)]]])
        (intro steady_next steady_checked steady_start, simp add: steady_set keeps_fields)
  qed (simp add: steady_wait)
  note found = this
  show ?thesis unfolding household_def Let_def by (intro steady_next steady_checked found)
qed

lemma steady_token: "R w (snd (token_good e w))"
  by (simp add: token_good_def Let_def steady_wait split: option.split)

lemma steady_refresh: "R w (snd (refresh_with e n w))"
proof -
  obtain r w1 where r: "ask_server e n (AccountReadCall True) (se_account e) w = (r, w1)" by fastforce
  have "R w w1" using steady_ask [of w n "AccountReadCall True" "se_account e"] by (simp add: r)
  then show ?thesis
    unfolding refresh_with_def r prod.case
    by (rule steady_trans) (auto intro!: steady_next steady_token simp: steady_set keeps_fields)
qed

lemma steady_own: "R w1 (snd (sign_out_own e u w1))"
proof -
  have "R w1 (snd (case ask_server e n LogoutCall (se_plain e) w1 of (r, w2) \<Rightarrow>
      next_do (checked r (on_servers (stop_server n) w2)) (\<lambda>_ w3. if b w3 then (Inr (), wait_for e w3) else (Inl err, wait_for e w3))))"
    for n b err w1
  proof -
    obtain r w2 where r: "ask_server e n LogoutCall (se_plain e) w1 = (r, w2)" by fastforce
    have "R w1 w2" using steady_ask [where w = w1 and n = n and call = LogoutCall and answer = "se_plain e"] by (simp add: r)
    then have "R w1 (on_servers (stop_server n) w2)" by (rule steady_trans) (rule steady_set [OF keeps_stop])
    then show ?thesis
      unfolding r prod.case by (rule steady_trans) (intro steady_next steady_checked, simp add: steady_wait)
  qed
  note told = this
  show ?thesis unfolding sign_out_own_def by (intro steady_next steady_start told)
qed

lemma steady_link: "R w (snd (link_user e u w))"
proof -
  have made: "R w1 (snd (next_do (checked c (wait_for e w1)) (\<lambda>_ w3. if b then (Inr (), w3) else (Inl err, w3))))" for c b err w1
    by (rule steady_trans [OF steady_wait], intro steady_next steady_checked) (simp add: steady_refl)
  show ?thesis
    unfolding link_user_def Let_def
    by (rule steady_trans [OF steady_wait], intro steady_next steady_checked)
      (auto simp: steady_refl made intro!: steady_next [OF steady_own made] split: sum.split auth_file.split)
qed

lemma steady_ensure: "R w (snd (ensure_household e w))"
proof -
  have "R w2 (snd (next_do (token_good e (wait_for e w2)) (\<lambda>good w1. if good then (Inr (), w1)
      else (case sv_refresh_failed_at (sw_state w1) of
          Some failed \<Rightarrow> if wrap_i64 (se_unix e (sw_time w1) - failed) < se_retry_after e then (Inl (CodexSignedOut NOT_REFRESHED), w1)
            else refresh_with e n w1
        | None \<Rightarrow> refresh_with e n w1))))" for n w2
    by (rule steady_next [OF steady_trans [OF steady_wait steady_token]])
      (auto simp: steady_refl steady_refresh split: option.split)
  then show ?thesis
    unfolding ensure_household_def
    by (intro steady_next steady_household steady_token) (auto simp: steady_refl)
qed

end

interpretation time: steady e "\<lambda>w w'. sw_time w \<le> sw_time w'" "\<lambda>_ _. True" for e
  by unfold_locales (simp_all add: wait_for_def)


text \<open>The same for every operation and every message.\<close>

locale steady_servers = steady +
  assumes keeps_more: "K s (s\<lparr>sv_login := x4\<rparr>)" "K s (s\<lparr>sv_recovering := x5\<rparr>)" "K s (s\<lparr>sv_recover_tasks := x6\<rparr>)"
      "K s (s\<lparr>sv_recoveries := x7\<rparr>)" "K s (s\<lparr>sv_barred := x8\<rparr>)" "K s (s\<lparr>sv_tainted := x9\<rparr>)"
    and keeps_served: "K s (change_server n (\<lambda>a. a\<lparr>ap_served := g a\<rparr>) s)"
begin

lemma keeps_bar: "K s (bar_thread u t reason s)"
  unfolding bar_thread_def by (rule keeps_trans [OF keeps_more(5) keeps_did])

lemma keeps_refuse: "K s (refuse_on n u t reason s)"
  unfolding refuse_on_def by (rule keeps_trans [OF keeps_served keeps_bar])

lemma keeps_taint: "K s (taint reason s)"
  using keeps_trans [OF keeps_more(6) keeps_did] by (simp add: taint_def keeps_refl)

lemma keeps_tell: "K s (tell n ev s)"
  by (simp add: tell_def keeps_refl keeps_did split: option.split owner.split)

lemma keeps_violation: "K s (violation n t reason s)"
proof -
  have "K s s1 \<Longrightarrow> K s (stop_server n (taint reason s1))" for s1
    by (erule keeps_trans, rule keeps_trans [OF keeps_taint keeps_stop])
  then show ?thesis
    unfolding violation_def Let_def
    by (auto simp: keeps_refl intro: keeps_trans [OF keeps_refuse keeps_tell] split: option.split owner.split)
qed

lemma keeps_item: "K s (item_checked n t item s)"
  by (simp add: item_checked_def keeps_refl keeps_violation split: sum.split)

lemma keeps_search: "K s (search_told n t turn item ok s)"
  by (simp add: search_told_def keeps_refl keeps_tell split: codex_item.split)

lemma keeps_logins: "K s (expire_login now s)" "K s (mark_cancelled i s)" "K s (household_exited n s)" "K s (login_reported li ok err s)"
  using keeps_trans [OF keeps_more(1) keeps_fields(3)]
  by (auto simp: expire_login_def mark_cancelled_def household_exited_def login_reported_def Let_def keeps_refl keeps_more
    split: option.split)

lemma keeps_note: "K s (note_received n note s)"
  unfolding note_received_def
  by (rule keeps_trans [OF _ keeps_tell])
    (auto simp: keeps_refl keeps_item keeps_logins keeps_more turn_reported_def intro: keeps_trans [OF keeps_item keeps_search]
      split: app_notification.split option.split owner.split)

lemma keeps_request: "K s (request_received n request s)"
  unfolding request_received_def
  by (auto simp: keeps_did keeps_tell intro: keeps_trans [OF keeps_violation keeps_did]
    split: app_request.split option.split owner.split)

lemma keeps_message: "K s (message_received n message s)"
  by (auto simp: message_received_def Let_def keeps_refl keeps_note keeps_request keeps_did keeps_violation
    intro: keeps_trans [OF keeps_did keeps_violation] split: incoming.split)

lemma keeps_watch_ends: "K s (watch_ends n s)"
  unfolding watch_ends_def Let_def
  by (rule keeps_trans [OF _ keeps_tell]) (auto simp: keeps_stop intro: keeps_trans [OF keeps_stop keeps_logins(3)])

lemma steady_serve: "R w (snd (serve_answer e n r gs w))"
  unfolding serve_answer_def
  by (intro steady_next steady_checked)
    (auto intro!: steady_set keeps_refuse keeps_trans [OF keeps_served keeps_did] split: sum.split)

lemma steady_threads: "R w (snd (start_thread e n instr gs w))" "R w (snd (resume_thread e n t instr gs w))"
  unfolding start_thread_def resume_thread_def
  by (intro steady_next steady_checked steady_config steady_ask steady_serve; simp add: steady_refl steady_serve)+

lemma steady_turns: "R w (snd (start_turn e n t input ctxt w))" "R w (snd (steer_turn e n t turn input client ctxt w))"
  "R w (snd (interrupt_on e n t turn w))" "R w (snd (rate_limits e n w))"
  unfolding start_turn_def steer_turn_def interrupt_on_def rate_limits_def by (intro steady_next steady_checked steady_ask)+

lemma steady_touch: "R w (wait_for e (on_servers (touch_slot u) w))"
  by (rule steady_trans [OF steady_set [OF keeps_slot(2)] steady_wait])

lemma steady_runtime: "R w (snd (runtime e u w))"
proof -
  have "R w1 (snd (let t = sw_time w1; w = wait_for e (on_servers (touch_slot u) w1); slot = slot_of u (sw_state w) in
      case running_in slot (sw_state w) of
        Some n \<Rightarrow> if inspect (se_auth e t (UserServer u)) = Inr AuthLink then (Inr n, w)
          else (Inl (CodexRefused NOT_THE_LINK), on_servers (\<lambda>s. set_slot u None (stop_server n s)) w)
      | None \<Rightarrow> next_do (link_user e u (on_servers (\<lambda>s. set_slot u None (stop_any slot s)) w)) (\<lambda>_ w.
           next_do (start_server e (UserServer u) w) (\<lambda>n w. (Inr n, on_servers (set_slot u (Some n)) w)))))" for w1
  proof -
    let ?w = "wait_for e (on_servers (touch_slot u) w1)"
    let ?slot = "slot_of u (sw_state ?w)"
    have stopped: "R w1 (on_servers (\<lambda>s. set_slot u None (stop_server n s)) ?w)" for n
      by (rule steady_trans [OF steady_touch steady_set]) (rule keeps_trans [OF keeps_stop keeps_slot(1)])
    have "R w1 (on_servers (\<lambda>s. set_slot u None (stop_any ?slot s)) ?w)"
      by (rule steady_trans [OF steady_touch steady_set]) (rule keeps_trans [OF keeps_stop_any keeps_slot(1)])
    then have "R w1 (snd (next_do (link_user e u (on_servers (\<lambda>s. set_slot u None (stop_any ?slot s)) ?w)) (\<lambda>_ w.
         next_do (start_server e (UserServer u) w) (\<lambda>n w. (Inr n, on_servers (set_slot u (Some n)) w)))))"
      by (rule steady_trans) (intro steady_next steady_link steady_start, simp add: steady_set keeps_slot)
    then show ?thesis
      unfolding Let_def by (cases "running_in ?slot (sw_state ?w)") (simp_all add: stopped steady_touch)
  qed
  then show ?thesis unfolding runtime_def by (intro steady_next steady_checked steady_ensure)
qed

lemma steady_stop_user: "R w (stop_user e u w)"
  unfolding stop_user_def
  by (rule steady_trans [OF steady_touch steady_set]) (rule keeps_trans [OF keeps_stop_any keeps_slot(1)])

lemma steady_fold: "(\<And>x w. R w (f x w)) \<Longrightarrow> R w (fold f xs w)"
  by (induction xs arbitrary: w) (auto intro: steady_refl steady_trans)

lemma steady_link_at_start: "R w (link_at_start e u w)"
  using steady_trans [OF steady_touch steady_link] by (simp add: link_at_start_def steady_wait)

lemma steady_refresher: "R w (refresher_tick e w)"
  unfolding refresher_tick_def Let_def
  using steady_trans [OF steady_wait steady_wait] steady_trans [OF steady_trans [OF steady_wait steady_wait] steady_ensure]
  by (simp add: steady_wait)

lemma steady_status: "R w0 (snd (household_status e detail w0))"
proof -
  obtain x w where x: "ensure_household e w0 = (x, w)" by fastforce
  have w: "R w0 w" using steady_ensure [of w0] by (simp add: x)
  obtain y w1 where y: "household e w = (y, w1)" by fastforce
  have w1: "R w0 w1" using steady_trans [OF w steady_household [of w]] by (simp add: y)
  have w2: "R w0 w2" if "ask_server e n (AccountReadCall False) (se_account e) w1 = (z, w2)" for n z w2
    using steady_trans [OF w1 steady_ask [of w1 n "AccountReadCall False" "se_account e"]] by (simp add: that)
  show ?thesis using w w1 w2 by (auto simp: household_status_def x y split: sum.split prod.split account_answer.split)
qed

lemma steady_cancel: "R w0 (snd (cancel_login e now w0))"
proof -
  let ?w = "on_servers (expire_login now) w0"
  have w: "R w0 ?w" by (rule steady_set [OF keeps_logins(1)])
  have told: "R w0 (case household e (on_servers (mark_cancelled i) (wait_for e ?w)) of
      (Inl _, w2) \<Rightarrow> w2 | (Inr n, w2) \<Rightarrow> snd (ask_server e n (LoginCancelCall i) (se_plain e) w2))" for i
  proof -
    let ?m = "on_servers (mark_cancelled i) (wait_for e ?w)"
    have m: "R w0 ?m" by (rule steady_trans [OF w steady_trans [OF steady_wait steady_set [OF keeps_logins(2)]]])
    obtain x w2 where x: "household e ?m = (x, w2)" by fastforce
    have w2: "R w0 w2" using steady_trans [OF m steady_household [of ?m]] by (simp add: x)
    show ?thesis using w2 steady_trans [OF w2 steady_ask] by (cases x) (simp_all add: x)
  qed
  have "R w0 w1 \<Longrightarrow> R w0 (on_servers (expire_login now) w1)" for w1 by (erule steady_trans) (rule steady_set [OF keeps_logins(1)])
  then show ?thesis unfolding cancel_login_def Let_def using w told by (auto split: option.split)
qed

lemma steady_sign_in: "R w (snd (start_login e now w))" "R w (snd (sign_out_household e now w))"
proof -
  show "R w (snd (start_login e now w))"
    unfolding start_login_def
    by (intro steady_next steady_household steady_cancel steady_ask)
      (auto simp: Let_def steady_refl intro!: steady_set keeps_more split: login_answer.split)
  show "R w (snd (sign_out_household e now w))"
    unfolding sign_out_household_def
    by (intro steady_next steady_household steady_cancel steady_trans [OF steady_wait steady_ask])
      (simp add: stop_users_def steady_fold steady_stop_user)
qed

lemma steady_recover: "R w0 (recover_server e u failed w0)"
proof -
  let ?w0 = "on_servers (\<lambda>s. s\<lparr>sv_recovering := insert u (sv_recovering s)\<rparr>) w0"
  obtain x w where x: "ensure_household e ?w0 = (x, w)" by fastforce
  have w: "R w0 w" using steady_trans [OF steady_set [OF keeps_more(2)] steady_ensure [of ?w0]] by (simp add: x)
  let ?t = "wait_for e (on_servers (touch_slot u) w)"
  let ?s = "on_servers (\<lambda>s. if slot_of u s = Some failed then set_slot u None (stop_server failed s) else s) ?t"
  have "R w0 ?s"
    by (rule steady_trans [OF w steady_trans [OF steady_touch steady_set]])
      (simp add: keeps_refl keeps_trans [OF keeps_stop keeps_slot(1)])
  then have "R w0 (on_servers (\<lambda>s. s\<lparr>sv_recoveries := Suc (sv_recoveries s)\<rparr>) ?s)"
    by (rule steady_trans) (rule steady_set [OF keeps_more(4)])
  then have ran: "R w0 (snd (runtime e u (on_servers (\<lambda>s. s\<lparr>sv_recoveries := Suc (sv_recoveries s)\<rparr>) ?s)))"
    by (rule steady_trans) (rule steady_runtime)
  have "R w0 (on_servers (\<lambda>s. s\<lparr>sv_recovering := sv_recovering s - {u}\<rparr>) w)"
    by (rule steady_trans [OF w steady_set [OF keeps_more(2)]])
  then show ?thesis using ran by (cases x) (simp_all add: recover_server_def steady_refl x Let_def)
qed

lemma steady_do: "R w (server_do e op w)"
proof (cases op)
  case (LookRunning u)
  then show ?thesis using steady_touch by (simp add: running_def Let_def)
next
  case RefreshNow
  then show ?thesis
    by (simp add: refresh_household_def) (intro steady_next steady_household steady_trans [OF steady_wait steady_refresh])
next
  case (LinkUsers users)
  then show ?thesis by (simp add: sign_out_own_sign_ins_def steady_fold steady_link_at_start)
qed (simp_all add: steady_runtime steady_stop_user steady_household steady_ensure steady_refresher steady_status steady_threads
    steady_turns steady_sign_in steady_cancel steady_recover steady_set keeps_logins keeps_message keeps_watch_ends)

end

text \<open>App servers stay launched and, once stopped, stopped.\<close>

definition serials_ok :: "supervisor \<Rightarrow> bool" where
  "serials_ok s \<longleftrightarrow> (\<forall>n. the_server n s \<noteq> None \<longrightarrow> n < sv_serials s)"

definition stops_for_good :: "supervisor \<Rightarrow> supervisor \<Rightarrow> bool" where
  "stops_for_good s s' \<longleftrightarrow> (serials_ok s \<longrightarrow> serials_ok s'
     \<and> (\<forall>n. the_server n s \<noteq> None \<longrightarrow> the_server n s' \<noteq> None \<and> (is_alive n s' \<longrightarrow> is_alive n s)))"

definition others_stop_for_good :: "server_env \<Rightarrow> bool" where
  "others_stop_for_good e \<longleftrightarrow> (\<forall>t s. stops_for_good s (se_others e t s))"

lemma stops_same:
  "sv_servers s' = sv_servers s \<Longrightarrow> sv_serials s' = sv_serials s \<Longrightarrow> stops_for_good s s'"
  by (simp add: stops_for_good_def serials_ok_def the_server_def is_alive_def)

lemma stops_change:
  assumes "\<And>a. ap_alive (f a) \<Longrightarrow> ap_alive a"
  shows "stops_for_good s (change_server n f s)"
proof -
  have "sv_serials (change_server n f s) = sv_serials s" by (simp add: change_server_def split: option.split)
  then show ?thesis using assms
    by (auto simp: stops_for_good_def serials_ok_def is_alive_def the_server_change split: option.splits if_splits)
qed

lemma stops_launch: "stops_for_good s (launch e owner slugs s)"
  by (auto simp: stops_for_good_def serials_ok_def is_alive_def the_server_def launch_def did_def update_conv less_Suc_eq
    split: option.splits if_splits)

interpretation stopped: steady_servers e "\<lambda>w w'. others_stop_for_good e \<longrightarrow> stops_for_good (sw_state w) (sw_state w')" stops_for_good for e
  by unfold_locales
    (auto simp: others_stop_for_good_def wait_for_def stops_launch stop_server_def did_def intro: stops_change stops_same,
     auto simp: stops_for_good_def)

section \<open>A broken rule\<close>

text \<open>
  Messages after which Codex is refused. Not among them: an unknown approval that names no
  thread, a tool call of a thread that is not served, and a tool call that cannot be read.
\<close>

fun breaks_rule :: "nat \<Rightarrow> incoming \<Rightarrow> supervisor \<Rightarrow> bool" where
  "breaks_rule n (Notification (ItemStartedNote t turn item)) s = (check_item item (granted_to n t s) \<noteq> Inr ())"
| "breaks_rule n (Notification (ItemCompletedNote t turn item)) s = (check_item item (granted_to n t s) \<noteq> Inr ())"
| "breaks_rule n (Notification _) s = False"
| "breaks_rule n (Request (ToolCallRequest call)) s =
     (case thread_grants n (tq_thread call) s of
        None \<Rightarrow> False
      | Some gs \<Rightarrow> \<not> allows_tool gs (tq_tool call) (tq_namespace call) \<or> (case server_user n s of Inl _ \<Rightarrow> True | Inr _ \<Rightarrow> False))"
| "breaks_rule n (Request (CommandApproval t)) s = True"
| "breaks_rule n (Request (FileApproval t)) s = True"
| "breaks_rule n (Request (UnknownRequest m params)) s =
     (is_approval m \<and> (case params of None \<Rightarrow> False | Some p \<Rightarrow> request_thread p \<noteq> None))"
| "breaks_rule n (MalformedRequest m) s = is_approval m"
| "breaks_rule n (MalformedLine line) s =
     (case line of None \<Rightarrow> False
      | Some v \<Rightarrow> as_str (json_get v (lit ''method'')) = Some (lit ''item/started'')
          \<or> as_str (json_get v (lit ''method'')) = Some (lit ''item/completed''))"

lemma violation_taints [simp]: "\<exists>y. sv_tainted (violation n t reason s) = Some y" "\<not> is_alive n (violation n t reason s)"
  by (auto simp: violation_def Let_def taint_def stop_server_def did_def is_alive_def the_server_change split: option.split)

lemma tell_keeps [simp]: "sv_tainted (tell n ev s) = sv_tainted s" "is_alive m (tell n ev s) = is_alive m s"
  by (simp_all add: tell_def did_def is_alive_def the_server_def split: option.split owner.split)

lemma did_keeps [simp]: "sv_tainted (did d s) = sv_tainted s" "is_alive m (did d s) = is_alive m s"
  by (simp_all add: did_def is_alive_def the_server_def)

lemma search_keeps [simp]: "sv_tainted (search_told n t turn item ok s) = sv_tainted s"
  "is_alive m (search_told n t turn item ok s) = is_alive m s"
  by (simp_all add: search_told_def split: codex_item.split)

lemma broken_rule_taints:
  assumes "breaks_rule n message s"
  shows "sv_tainted (message_received n message s) \<noteq> None \<and> \<not> is_alive n (message_received n message s)"
  using assms
  by (cases "(n, message, s)" rule: breaks_rule.cases)
    (auto simp: message_received_def note_received_def item_checked_def request_received_def Let_def server_user_def
      split: sum.splits option.splits owner.splits)

definition turns_asked :: "app_deed list \<Rightarrow> app_deed list" where
  "turns_asked ds = filter (\<lambda>d. case d of Asked _ (TurnStartCall _ _ _) \<Rightarrow> True | Asked _ (TurnSteerCall _ _ _ _ _) \<Rightarrow> True | _ \<Rightarrow> False) ds"

lemma no_turns_when_tainted:
  assumes "guarded (new @ ds)" and "CodexTainted \<in> set ds"
  shows "turns_asked (new @ ds) = turns_asked ds"
  using assms
proof (induction new)
  case (Cons d new)
  then show ?case
    by (auto simp: turns_asked_def turn_allowed_def split: app_deed.splits app_call.splits)
qed simp


lemma tainted_refuses:
  assumes "sv_tainted (sw_state w) \<noteq> None"
  shows "\<exists>reason. runtime e u w = (Inl (CodexRefused reason), w) \<and> household e w = (Inl (CodexRefused reason), w)"
  using assms by (auto simp: runtime_def household_def ensure_untainted_def checked_def next_do_def)

text \<open>The steps of the loops that watch app servers, and what they leave.\<close>

lemma watch_ends_stops: "\<not> is_alive m (watch_ends m s)"
proof -
  have exited: "is_alive m (household_exited m s1) = is_alive m s1" for s1
    by (simp add: household_exited_def is_alive_def the_server_def)
  have "\<not> is_alive m (stop_server m s)" by (simp add: stop_server_def is_alive_def the_server_change split: option.split)
  then show ?thesis by (simp add: watch_ends_def Let_def exited)
qed

lemma stopped_run: "others_stop_for_good e \<Longrightarrow> stops_for_good (sw_state w) (sw_state (fold (server_do e) ops w))"
  using stopped.steady_fold [where f = "server_do e" and e = e, OF stopped.steady_do] by blast

lemma serials_run: "others_stop_for_good e \<Longrightarrow> serials_ok (sw_state (fold (server_do e) ops new_gateway))"
  using stopped_run [of e new_gateway ops] by (simp add: stops_for_good_def serials_ok_def new_gateway_def no_servers_def the_server_def)

lemma watched_stop:
  assumes e: "others_stop_for_good e" and ok: "serials_ok (sw_state w)" and m: "the_server m (sw_state w) \<noteq> None" "CloseWatch m \<in> set ops"
  shows "\<not> is_alive m (sw_state (fold (server_do e) ops w))"
proof -
  obtain xs ys where ops: "ops = xs @ CloseWatch m # ys" using split_list [OF m(2)] by blast
  let ?v = "fold (server_do e) xs w"
  let ?u = "on_servers (watch_ends m) ?v"
  have v: "serials_ok (sw_state ?v)" "the_server m (sw_state ?v) \<noteq> None"
    using stopped_run [OF e, of w xs] ok m(1) by (simp_all add: stops_for_good_def)
  have "stops_for_good (sw_state ?v) (sw_state ?u)" using stopped.keeps_watch_ends by simp
  then have u: "serials_ok (sw_state ?u)" "the_server m (sw_state ?u) \<noteq> None" using v by (simp_all add: stops_for_good_def)
  have "\<not> is_alive m (sw_state ?u)" by (simp add: watch_ends_stops)
  moreover have "stops_for_good (sw_state ?u) (sw_state (fold (server_do e) ys ?u))" by (rule stopped_run [OF e])
  ultimately show ?thesis using u unfolding ops stops_for_good_def by auto
qed

text \<open>Codex is refused after such messages only.\<close>

lemma only_broken_rules_taint:
  assumes "sv_tainted s = None"
  shows "sv_tainted (message_received n message s) \<noteq> None \<longleftrightarrow> breaks_rule n message s"
proof
  assume "sv_tainted (message_received n message s) \<noteq> None"
  then show "breaks_rule n message s"
    using assms
    by (cases "(n, message, s)" rule: breaks_rule.cases)
      (auto simp: message_received_def note_received_def item_checked_def request_received_def Let_def turn_reported_def
        login_reported_def server_user_def split: sum.splits option.splits owner.splits if_splits)
qed (use broken_rule_taints in blast)

text \<open>C7: a broken rule stops Codex for good. When an app server asks to approve a command or a file
  change, or sends another approval that names a thread or one that cannot be read; when it
  reports an item, or calls a tool, outside the grants of a thread it serves; or when an item
  cannot be read: then it is stopped for good and Codex is refused. From then on, whatever
  happens, no turn is started or steered on any thread of any user, and no app server is
  handed out, until the gateway restarts; every other app server is stopped for good, and
  with it the turns it runs, when the loop that watches it sees the refusal and ends. A call of a
  thread that is not served, and a call that cannot be read, is refused without that.\<close>

theorem a_broken_rule_stops_codex:
  assumes "others_go_well e" and "others_stop_for_good e" and "w = fold (server_do e) ops new_gateway"
    and "breaks_rule n message (sw_state w)"
    and "w1 = server_do e (Receive n message) w" and "w2 = fold (server_do e) after w1"
  shows "\<not> is_alive n (sw_state w1) \<and> turns_asked (sv_did (sw_state w2)) = turns_asked (sv_did (sw_state w1))
    \<and> (\<exists>reason. runtime e u w2 = (Inl (CodexRefused reason), w2) \<and> household e w2 = (Inl (CodexRefused reason), w2))
    \<and> (\<forall>m. the_server m (sw_state w1) \<noteq> None \<and> (m = n \<or> CloseWatch m \<in> set after) \<longrightarrow> \<not> is_alive m (sw_state w2))"
proof -
  have ok: "servers_ok (sw_state w1)"
    using server_run_ok [OF assms(1), of ops] server_do_goes_well [OF assms(1), of w "Receive n message"] assms(3,5)
    by (simp add: goes_well_def)
  have ok2: "servers_ok (sw_state w2)" "suffix (sv_did (sw_state w1)) (sv_did (sw_state w2))"
    using goes_well_fold [where w = w1 and xs = after, OF server_do_goes_well [OF assms(1)]] ok assms(6) by (simp_all add: goes_well_def)
  have broken: "sv_tainted (sw_state w1) \<noteq> None" "\<not> is_alive n (sw_state w1)"
    using broken_rule_taints [OF assms(4)] assms(5) by simp_all
  have "CodexTainted \<in> set (sv_did (sw_state w1))" using ok broken(1) unfolding servers_ok_def by blast
  moreover obtain new where new: "sv_did (sw_state w2) = new @ sv_did (sw_state w1)" using ok2(2) by (auto simp: suffix_def)
  moreover have "guarded (new @ sv_did (sw_state w1))" using ok2(1) unfolding servers_ok_def new by blast
  ultimately have turns: "turns_asked (sv_did (sw_state w2)) = turns_asked (sv_did (sw_state w1))" "CodexTainted \<in> set (sv_did (sw_state w2))"
    by (simp_all add: no_turns_when_tainted)
  then have "sv_tainted (sw_state w2) \<noteq> None" using ok2(1) unfolding servers_ok_def by blast
  moreover have "\<not> is_alive m (sw_state w2)" if "the_server m (sw_state w1) \<noteq> None" "m = n \<or> CloseWatch m \<in> set after" for m
  proof -
    have serials: "serials_ok (sw_state w1)" using serials_run [OF assms(2), of "ops @ [Receive n message]"] assms(3,5) by simp
    have "stops_for_good (sw_state w1) (sw_state w2)" unfolding assms(6) by (rule stopped_run [OF assms(2)])
    then show ?thesis using that serials broken(2) watched_stop [OF assms(2) serials that(1)] assms(6)
      by (auto simp: stops_for_good_def)
  qed
  ultimately show ?thesis using turns(1) broken(2) tainted_refuses by blast
qed

section \<open>The sign-in\<close>

text \<open>When the token is found good, and the link, within a stretch of time.\<close>

definition signed_in_between :: "server_env \<Rightarrow> nat \<Rightarrow> nat \<Rightarrow> bool" where
  "signed_in_between e a b \<longleftrightarrow> (\<exists>t x. a \<le> t \<and> t < b \<and> token_expiry e t = Some x \<and> outside_window e t x)"

definition linked_between :: "server_env \<Rightarrow> user_id \<Rightarrow> nat \<Rightarrow> nat \<Rightarrow> bool" where
  "linked_between e u a b \<longleftrightarrow> (\<exists>t. a \<le> t \<and> t \<le> b \<and> inspect (se_auth e t (UserServer u)) = Inr AuthLink)"

lemma next_ok: "next_do r k = (Inr y, w') \<Longrightarrow> \<exists>a w1. r = (Inr a, w1) \<and> k a w1 = (Inr y, w')"
  by (auto simp: next_do_def split: prod.splits sum.splits)

lemma wait_time [simp]: "sw_time (wait_for e w) = Suc (sw_time w)"
  by (simp add: wait_for_def)

lemma time_passed: "r = (x, w') \<Longrightarrow> sw_time w \<le> sw_time (snd r) \<Longrightarrow> sw_time w \<le> sw_time w'"
  by simp

lemma token_good_between: "token_good e w = (Inr True, w') \<Longrightarrow> signed_in_between e (sw_time w) (sw_time w')"
  by (auto simp: token_good_def Let_def signed_in_between_def split: option.splits)

lemma between_wider: "signed_in_between e a b \<Longrightarrow> a' \<le> a \<Longrightarrow> b \<le> b' \<Longrightarrow> signed_in_between e a' b'"
  unfolding signed_in_between_def by (meson le_trans less_le_trans)

lemma linked_wider: "linked_between e u a b \<Longrightarrow> a' \<le> a \<Longrightarrow> b \<le> b' \<Longrightarrow> linked_between e u a' b'"
  unfolding linked_between_def by (meson le_trans)

lemma refresh_between:
  assumes "refresh_with e n w = (Inr u, w')"
  shows "signed_in_between e (sw_time w) (sw_time w')"
proof -
  obtain r w1 where r: "ask_server e n (AccountReadCall True) (se_account e) w = (r, w1)" by fastforce
  then have t: "sw_time w \<le> sw_time w1" using time.steady_ask [of w e n "AccountReadCall True" "se_account e"] by simp
  obtain good w2 where good: "token_good e w1 = (Inr good, w2)" "(if good then (Inr (), on_servers (\<lambda>s. s\<lparr>sv_refresh_failed_at := None\<rparr>) w2)
      else (Inl (CodexSignedOut NOT_REFRESHED), on_servers (\<lambda>s. s\<lparr>sv_refresh_failed_at := Some (se_unix e (sw_time w1))\<rparr>) w2)) = (Inr u, w')"
    using assms unfolding refresh_with_def r prod.case by (auto dest: next_ok)
  then have "good" "sw_time w' = sw_time w2" by (auto split: if_splits)
  then show ?thesis using token_good_between [of e w1 w2] good(1) t between_wider by auto
qed

lemma ensure_between:
  assumes "ensure_household e w = (Inr u, w')"
  shows "signed_in_between e (sw_time w) (sw_time w')"
proof -
  obtain n w1 where n: "household e w = (Inr n, w1)" and go: "next_do (token_good e w1) (\<lambda>good w. if good then (Inr (), w)
       else next_do (token_good e (wait_for e w)) (\<lambda>good w1. if good then (Inr (), w1)
         else (case sv_refresh_failed_at (sw_state w1) of
              Some failed \<Rightarrow> if wrap_i64 (se_unix e (sw_time w1) - failed) < se_retry_after e then (Inl (CodexSignedOut NOT_REFRESHED), w1)
                else refresh_with e n w1
            | None \<Rightarrow> refresh_with e n w1))) = (Inr u, w')"
    using next_ok [OF assms [unfolded ensure_household_def]] by blast
  have t1: "sw_time w \<le> sw_time w1" using time.steady_household [of w e] by (simp add: n)
  obtain g w2 where g: "token_good e w1 = (Inr g, w2)" and go2: "(if g then (Inr (), w2)
       else next_do (token_good e (wait_for e w2)) (\<lambda>good w1. if good then (Inr (), w1)
         else (case sv_refresh_failed_at (sw_state w1) of
              Some failed \<Rightarrow> if wrap_i64 (se_unix e (sw_time w1) - failed) < se_retry_after e then (Inl (CodexSignedOut NOT_REFRESHED), w1)
                else refresh_with e n w1
            | None \<Rightarrow> refresh_with e n w1))) = (Inr u, w')"
    using next_ok [OF go] by auto
  have t2: "sw_time w1 \<le> sw_time w2" using time.steady_token [of w1 e] by (simp add: g)
  show ?thesis
  proof (cases g)
    case True
    then show ?thesis using token_good_between [of e w1 w2] g go2 t1 between_wider by auto
  next
    case False
    then obtain h w3 where h: "token_good e (wait_for e w2) = (Inr h, w3)" and go3: "(if h then (Inr (), w3)
         else (case sv_refresh_failed_at (sw_state w3) of
              Some failed \<Rightarrow> if wrap_i64 (se_unix e (sw_time w3) - failed) < se_retry_after e then (Inl (CodexSignedOut NOT_REFRESHED), w3)
                else refresh_with e n w3
            | None \<Rightarrow> refresh_with e n w3)) = (Inr u, w')"
      using next_ok [OF go2 [unfolded if_not_P [OF False]]] by blast
    have t3: "sw_time w2 \<le> sw_time w3" using time.steady_token [of "wait_for e w2" e] by (simp add: h)
    show ?thesis
    proof (cases h)
      case True
      then show ?thesis using token_good_between [of e "wait_for e w2" w3] h go3 t1 t2 between_wider by auto
    next
      case False
      then have "refresh_with e n w3 = (Inr u, w')" using go3 by (auto split: option.splits if_splits)
      then show ?thesis using refresh_between t1 t2 t3 between_wider by (meson le_trans order_refl)
    qed
  qed
qed


lemma link_between:
  assumes "link_user e u w = (Inr x, w')"
  shows "linked_between e u (sw_time w) (sw_time w')"
proof -
  define make where "make = (\<lambda>(a::unit) w1. next_do (checked (failed_by (lit ''linking the user's auth.json'') (se_written e (sw_time w1))) (wait_for e w1))
      (\<lambda>_ w3. if inspect (se_auth e (Suc (sw_time w1)) (UserServer u)) = Inr AuthLink then (Inr (), w3) else (Inl (CodexRefused NOT_THE_LINK), w3)))"
  have made: "sw_time w' = Suc (sw_time w1) \<and> inspect (se_auth e (Suc (sw_time w1)) (UserServer u)) = Inr AuthLink"
    if m: "make a w1 = (Inr x, w')" for a w1
  proof -
    obtain b w3 where "checked (failed_by (lit ''linking the user's auth.json'') (se_written e (sw_time w1))) (wait_for e w1) = (Inr b, w3)"
      "(if inspect (se_auth e (Suc (sw_time w1)) (UserServer u)) = Inr AuthLink then (Inr (), w3) else (Inl (CodexRefused NOT_THE_LINK), w3)) = (Inr x, w')"
      using next_ok [OF m [unfolded make_def]] by blast
    then show ?thesis by (auto simp: checked_def split: if_splits)
  qed
  have parts: "link_user e u w = next_do (checked (failed_by (lit ''creating the user's directories'') (se_written e (sw_time w))) (wait_for e w)) (\<lambda>_ w1.
           case inspect (se_auth e (sw_time w) (UserServer u)) of
             Inl err \<Rightarrow> (Inl (AppServerFailed (lit ''reading the user's auth.json: '' @ err)), w1)
           | Inr AuthLink \<Rightarrow> (Inr (), w1)
           | Inr AuthMissing \<Rightarrow> make () w1
           | Inr AuthFile \<Rightarrow> next_do (sign_out_own e u w1) make
           | Inr (AuthOther what) \<Rightarrow>
               (Inl (CodexRefused (lit ''the user's auth.json is '' @ what @ lit '', not the household's sign-in'')), w1))"
    by (simp only: link_user_def make_def Let_def)
  obtain b w1 where w1: "checked (failed_by (lit ''creating the user's directories'') (se_written e (sw_time w))) (wait_for e w) = (Inr b, w1)"
    and go: "(case inspect (se_auth e (sw_time w) (UserServer u)) of
             Inl err \<Rightarrow> (Inl (AppServerFailed (lit ''reading the user's auth.json: '' @ err)), w1)
           | Inr AuthLink \<Rightarrow> (Inr (), w1)
           | Inr AuthMissing \<Rightarrow> make () w1
           | Inr AuthFile \<Rightarrow> next_do (sign_out_own e u w1) make
           | Inr (AuthOther what) \<Rightarrow>
               (Inl (CodexRefused (lit ''the user's auth.json is '' @ what @ lit '', not the household's sign-in'')), w1)) = (Inr x, w')"
    using next_ok [OF assms [unfolded parts]] by blast
  have t1: "sw_time w1 = Suc (sw_time w)" using w1 by (auto simp: checked_def)
  show ?thesis
  proof (cases "inspect (se_auth e (sw_time w) (UserServer u))")
    case (Inr f)
    show ?thesis
    proof (cases f)
      case AuthMissing
      then have "make () w1 = (Inr x, w')" using go Inr by simp
      from made [OF this] show ?thesis unfolding linked_between_def using t1 by (intro exI [of _ "Suc (sw_time w1)"]) simp
    next
      case AuthFile
      have own: "next_do (sign_out_own e u w1) make = (Inr x, w')" using go Inr AuthFile by simp
      obtain a w2 where w2: "sign_out_own e u w1 = (Inr a, w2)" "make a w2 = (Inr x, w')" using next_ok [OF own] by blast
      have "sw_time w1 \<le> sw_time w2" using time.steady_own [of w1 e u] by (simp add: w2(1))
      with made [OF w2(2)] t1 show ?thesis
        unfolding linked_between_def by (intro exI [of _ "Suc (sw_time w2)"]) simp
    next
      case AuthLink
      then show ?thesis using go Inr t1 unfolding linked_between_def by (intro exI [of _ "sw_time w"]) auto
    qed (use go Inr in simp)
  qed (use go in simp)
qed

text \<open>C8: no app server without the household's sign-in. Whatever files, clocks, app servers and other
  tasks do, a user's app server is handed out, for a turn or a thread, only if during that very
  request the household's access token was found outside its refresh window, and the user's
  sign-in found to be the household's.\<close>

theorem app_servers_need_the_sign_in:
  assumes "runtime e u w = (Inr n, w')"
  shows "signed_in_between e (sw_time w) (sw_time w') \<and> linked_between e u (sw_time w) (sw_time w')"
proof -
  obtain a w0 where a: "checked (ensure_untainted (sw_state w)) w = (Inr a, w0)" and go0: "next_do (ensure_household e w0) (\<lambda>_ w1.
       let t = sw_time w1; w = wait_for e (on_servers (touch_slot u) w1); slot = slot_of u (sw_state w) in
       case running_in slot (sw_state w) of
         Some n \<Rightarrow> if inspect (se_auth e t (UserServer u)) = Inr AuthLink then (Inr n, w)
           else (Inl (CodexRefused NOT_THE_LINK), on_servers (\<lambda>s. set_slot u None (stop_server n s)) w)
       | None \<Rightarrow> next_do (link_user e u (on_servers (\<lambda>s. set_slot u None (stop_any slot s)) w)) (\<lambda>_ w.
           next_do (start_server e (UserServer u) w) (\<lambda>n w. (Inr n, on_servers (set_slot u (Some n)) w)))) = (Inr n, w')"
    using next_ok [OF assms [unfolded runtime_def]] by blast
  have w0: "w0 = w" using a by (simp add: checked_def)
  obtain b w1 where b: "ensure_household e w = (Inr b, w1)" and go1: "(let t = sw_time w1; w = wait_for e (on_servers (touch_slot u) w1); slot = slot_of u (sw_state w) in
       case running_in slot (sw_state w) of
         Some n \<Rightarrow> if inspect (se_auth e t (UserServer u)) = Inr AuthLink then (Inr n, w)
           else (Inl (CodexRefused NOT_THE_LINK), on_servers (\<lambda>s. set_slot u None (stop_server n s)) w)
       | None \<Rightarrow> next_do (link_user e u (on_servers (\<lambda>s. set_slot u None (stop_any slot s)) w)) (\<lambda>_ w.
           next_do (start_server e (UserServer u) w) (\<lambda>n w. (Inr n, on_servers (set_slot u (Some n)) w)))) = (Inr n, w')"
    using next_ok [OF go0 [unfolded w0]] by blast
  note good = ensure_between [OF b]
  have t1: "sw_time w \<le> sw_time w1" using good unfolding signed_in_between_def by auto
  let ?w = "wait_for e (on_servers (touch_slot u) w1)"
  show ?thesis
  proof (cases "running_in (slot_of u (sw_state ?w)) (sw_state ?w)")
    case (Some m)
    then have "w' = ?w" "inspect (se_auth e (sw_time w1) (UserServer u)) = Inr AuthLink" using go1 by (auto simp: Let_def split: if_splits)
    then show ?thesis using between_wider [OF good order_refl] t1 unfolding linked_between_def by (auto intro: exI [of _ "sw_time w1"])
  next
    case None
    let ?v = "on_servers (\<lambda>s. set_slot u None (stop_any (slot_of u (sw_state ?w)) s)) ?w"
    have go2: "next_do (link_user e u ?v) (\<lambda>_ w. next_do (start_server e (UserServer u) w) (\<lambda>n w. (Inr n, on_servers (set_slot u (Some n)) w))) = (Inr n, w')"
      using go1 None by (simp add: Let_def)
    obtain c w2 where c: "link_user e u ?v = (Inr c, w2)" and go3: "next_do (start_server e (UserServer u) w2) (\<lambda>n w. (Inr n, on_servers (set_slot u (Some n)) w)) = (Inr n, w')"
      using next_ok [OF go2] by blast
    obtain m w3 where m: "start_server e (UserServer u) w2 = (Inr m, w3)" "sw_time w' = sw_time w3" using next_ok [OF go3] by auto
    have t2: "sw_time ?v \<le> sw_time w2" using time.steady_link [of ?v e u] by (simp add: c)
    have t3: "sw_time w2 \<le> sw_time w3" using time.steady_start [of w2 e "UserServer u"] by (simp add: m)
    have "linked_between e u (sw_time w) (sw_time w')"
      by (rule linked_wider [OF link_between [OF c]]) (use t1 t3 m(2) in simp_all)
    moreover have "signed_in_between e (sw_time w) (sw_time w')" using between_wider [OF good order_refl] t2 t3 m(2) by simp
    ultimately show ?thesis by blast
  qed
qed


section \<open>A gateway with one user\<close>

text \<open>App servers answer every call, and other tasks do nothing.\<close>

definition example_catalog :: "refusal + json_field" where
  "example_catalog = strip_tools (JsonObject [(lit ''models'', JsonArray [JsonObject [(lit ''slug'', JsonString [103])]])])"

definition example_workspace :: utext where
  "example_workspace = up_workspace (paths_of (lit ''/data'') (UserServer 1))"

definition example_session :: thread_session where
  "example_session = \<lparr>ts_thread = [116], ts_model = [103], ts_cwd = example_workspace, ts_approval = JsonString (lit ''never''),
     ts_profile = Some (PROFILE, None)\<rparr>"

definition example_auth_json :: json_field where
  "example_auth_json = JsonObject [(lit ''tokens'', JsonObject [(lit ''access_token'', JsonString [46, 46])]), (lit ''exp'', JsonInteger 10000)]"

definition example_servers :: server_env where
  "example_servers = \<lparr>se_others = (\<lambda>_ s. s), se_unix = (\<lambda>_. 0),
     se_auth = (\<lambda>_ owner. if owner = HouseholdServer then PathMissing else PathLink LINK_TARGET),
     se_reads = (\<lambda>_. [Contents []]), se_from_str = (\<lambda>_. Some example_auth_json), se_decode = Some, se_shown = (\<lambda>_. []),
     se_debug = (\<lambda>_. []), se_written = (\<lambda>_. Inr ()), se_catalog = (\<lambda>_. example_catalog), se_launch = (\<lambda>_. Inr ()),
     se_plain = (\<lambda>_ _. Some (Inr ())), se_config = (\<lambda>_ _. Some (Inr example_config)), se_models = (\<lambda>_ _. Some (Inr [[103]])),
     se_thread = (\<lambda>_ _. Some (Inr example_session)), se_turn = (\<lambda>_ _. Some (Inr [9])), se_limits = (\<lambda>_ _. None),
     se_account = (\<lambda>_ _. None), se_login = (\<lambda>_ _. None), se_data_dir = lit ''/data'', se_catalog_path = lit ''/data/models.json'',
     se_refresh_ahead = 900, se_retry_after = 60\<rparr>"

lemma example_goes_well: "others_go_well example_servers"
  by (simp add: others_go_well_def example_servers_def)

lemma example_catalog_ok: "and_then example_catalog (check_catalog shown) = Inr {[103]}"
proof -
  let ?m = "JsonObject [(lit ''slug'', JsonString [103])]"
  let ?c = "JsonObject [(lit ''models'', JsonArray [?m])]"
  have c: "catalog_models ?c = Some [?m]" by (simp add: catalog_models_def)
  obtain m' where m: "strip_entry ?m = Inr m'" by (simp add: strip_entry_def)
  have "catalog_models (with_models [m'] ?c) = Some [m']" by (rule stripped_models [OF c]) simp
  moreover have "check_entry shown m' = Inr [103]" by (simp add: stripped_entry_check [OF m] entry_slug_def)
  ultimately show ?thesis by (simp add: example_catalog_def strip_tools_def c m and_then_def check_catalog_def)
qed

lemma example_fields [simp]:
  "se_others example_servers t s = s" "se_unix example_servers t = 0" "se_written example_servers t = Inr ()"
  "se_launch example_servers t = Inr ()" "se_plain example_servers t call = Some (Inr ())"
  "se_config example_servers t call = Some (Inr example_config)" "se_models example_servers t call = Some (Inr [[103]])"
  "se_thread example_servers t call = Some (Inr example_session)" "se_turn example_servers t call = Some (Inr [9])"
  "se_catalog example_servers t = example_catalog"
  "inspect (se_auth example_servers t HouseholdServer) = Inr AuthMissing" "inspect (se_auth example_servers t (UserServer u)) = Inr AuthLink"
  by (simp_all add: example_servers_def)

lemma example_token [simp]: "token_expiry example_servers t = Some 10000"
  by (simp add: token_expiry_def example_servers_def parse_expiry_def example_auth_json_def json_at_def token_payload_def trim_end_char_def)

lemma example_outside [simp]: "outside_window example_servers t 10000"
  by (simp add: outside_window_def wrap_i64_def) (simp add: example_servers_def)

lemma example_expected_of [simp]: "ap_expected (fresh_server example_servers owner {[103]}) = example_expected (up_workspace (paths_of (lit ''/data'') owner))"
  by (simp add: fresh_server_def example_servers_def example_expected_def)

lemma example_models: "check_models [[103]] (example_expected ws) = Inr ()"
  by (simp add: check_models_def example_expected_def)

lemma example_wait [simp]: "sw_state (wait_for example_servers w) = sw_state w"
  by (simp add: wait_for_def)

text \<open>What the example needs of the state: how many app servers there are, and that nothing is refused.\<close>

definition calm_with :: "nat \<Rightarrow> supervisor \<Rightarrow> bool" where
  "calm_with n s \<longleftrightarrow> sv_serials s = n \<and> sv_tainted s = None \<and> sv_barred s = [] \<and> slot_of 1 s = None"

lemma example_start:
  assumes "calm_with n (sw_state w)"
  shows "\<exists>w1. start_server example_servers owner w = (Inr n, w1) \<and> calm_with (Suc n) (sw_state w1)
    \<and> the_server n (sw_state w1) = Some (fresh_server example_servers owner {[103]})"
proof -
  have e: "expected_of n (launch example_servers owner {[103]} s) = example_expected (up_workspace (paths_of (lit ''/data'') owner))" if "sv_serials s = n" for s
    using that by (simp add: expected_of_def the_server_def launch_def did_def update_conv)
  have e': "expected_of n (did d s) = expected_of n s" for n d s by (simp add: expected_of_def the_server_def did_def)
  have "sv_serials (sw_state w) = n" using assms by (simp add: calm_with_def)
  note e = e [OF this] and n = this
  show ?thesis
    by (simp add: start_server_def Let_def next_do_def checked_def example_catalog_ok startup_checks_def config_passes_def ask_server_def
      timed_def e e' example_config_ok example_models n)
      (use assms in \<open>simp add: launch_def did_def calm_with_def the_server_def update_conv slot_of_def\<close>)
qed

lemma example_household:
  "\<exists>w. household example_servers new_gateway = (Inr 1, w) \<and> calm_with 2 (sw_state w)"
proof -
  let ?w = "on_servers (\<lambda>s. (stop_any None s)\<lparr>sv_household := None\<rparr>) (wait_for example_servers new_gateway)"
  have "calm_with 1 (sw_state ?w)" by (simp add: calm_with_def new_gateway_def no_servers_def stop_any_def slot_of_def)
  then obtain w1 where w1: "start_server example_servers HouseholdServer ?w = (Inr 1, w1)" "calm_with (Suc 1) (sw_state w1)"
    using example_start [of 1 ?w HouseholdServer] by blast
  have "sv_household (sw_state new_gateway) = None" "sv_tainted (sw_state new_gateway) = None" by (simp_all add: new_gateway_def no_servers_def)
  then show ?thesis
    using w1 by (simp add: household_def ensure_untainted_def next_do_def checked_def running_in_def household_file_def Let_def calm_with_def
      numeral_2_eq_2 slot_of_def)
qed


lemma example_runtime:
  "\<exists>w. runtime example_servers 1 new_gateway = (Inr 2, w) \<and> sv_tainted (sw_state w) = None \<and> sv_barred (sw_state w) = []
    \<and> the_server 2 (sw_state w) = Some (fresh_server example_servers (UserServer 1) {[103]})"
proof -
  obtain w1 where w1: "household example_servers new_gateway = (Inr 1, w1)" "calm_with 2 (sw_state w1)"
    using example_household by blast
  let ?w2 = "wait_for example_servers w1"
  let ?w3 = "on_servers (\<lambda>s. set_slot 1 None (stop_any None s)) (wait_for example_servers (on_servers (touch_slot 1) ?w2))"
  let ?w4 = "wait_for example_servers ?w3"
  let ?s = "sw_state ?w4"
  have "sv_tainted (sw_state new_gateway) = None" by (simp add: new_gateway_def no_servers_def)
  moreover have "ensure_household example_servers new_gateway = (Inr (), ?w2)"
    by (simp add: ensure_household_def w1 next_do_def token_good_def)
  moreover have "slot_of 1 (touch_slot 1 (sw_state w1)) = None"
    using w1(2) by (simp add: slot_of_def touch_slot_def set_slot_def calm_with_def update_conv)
  moreover have "link_user example_servers 1 ?w3 = (Inr (), ?w4)"
    by (simp add: link_user_def next_do_def checked_def Let_def)
  moreover obtain w5 where w5: "start_server example_servers (UserServer 1) ?w4 = (Inr 2, w5)"
    "the_server 2 (sw_state w5) = Some (fresh_server example_servers (UserServer 1) {[103]})" "sv_tainted (sw_state w5) = None"
    "sv_barred (sw_state w5) = []"
  proof -
    have "calm_with 2 ?s" using w1(2) by (simp add: calm_with_def stop_any_def touch_slot_def set_slot_def slot_of_def update_conv)
    from example_start [OF this] that show ?thesis by (auto simp: calm_with_def)
  qed
  ultimately show ?thesis
    by (simp add: runtime_def ensure_untainted_def next_do_def checked_def running_in_def Let_def set_slot_def the_server_def)
qed

lemma example_thread_ok: "check_thread shown debug example_session (example_expected example_workspace) = Inr ()"
  by (simp add: check_thread_def example_session_def example_expected_def Let_def)

lemma example_run: "\<exists>earlier. sv_did (sw_state (fold (server_do example_servers) [UseRuntime 1, StartThreadOn 2 [] {}, StartTurnOn 2 [116] [104] None]
    new_gateway)) = [] @ Asked 2 (TurnStartCall [116] [104] None) # earlier"
proof -
  obtain w1 where w1: "runtime example_servers 1 new_gateway = (Inr 2, w1)" "sv_tainted (sw_state w1) = None" "sv_barred (sw_state w1) = []"
    "the_server 2 (sw_state w1) = Some (fresh_server example_servers (UserServer 1) {[103]})"
    using example_runtime by blast
  have e: "expected_of 2 s = example_expected example_workspace" if "the_server 2 s = Some (fresh_server example_servers (UserServer 1) {[103]})" for s
    using that by (simp add: expected_of_def example_workspace_def)
  have o: "ap_owner (fresh_server example_servers owner slugs) = owner" for owner slugs by (simp add: fresh_server_def)
  have d: "the_server n (did x s) = the_server n s" for n x s by (simp add: the_server_def did_def)
  obtain w2 where w2: "start_thread example_servers 2 [] {} w1 = (Inr example_session, w2)" "thread_grants 2 [116] (sw_state w2) = Some {}"
    "server_user 2 (sw_state w2) = Inr 1" "sv_tainted (sw_state w2) = None" "sv_barred (sw_state w2) = []"
    using w1(2-4)
    by (simp add: start_thread_def server_user_def o next_do_def checked_def config_passes_def ask_server_def timed_def d e example_config_ok
      serve_answer_def example_thread_ok thread_grants_def the_server_change)
      (simp add: did_def example_session_def update_conv)
  have "ensure_served 2 [116] (sw_state w2) = Inr ()"
    using w2 by (simp add: ensure_served_def ensure_not_refused_def and_then_def thread_refusal_def)
  then show ?thesis
    by (simp add: w1(1) w2(1) start_turn_def checked_def next_do_def ask_server_def timed_def) (simp add: did_def)
qed


theorem threads_run_only_after_their_checks_witness:
  "\<exists>earlier. sv_did (sw_state (fold (server_do example_servers) [UseRuntime 1, StartThreadOn 2 [] {}, StartTurnOn 2 [116] [104] None]
      new_gateway)) = Asked 2 (TurnStartCall [116] [104] None) # earlier \<and> turn_allowed earlier 2 [116]"
proof -
  obtain earlier where earlier: "sv_did (sw_state (fold (server_do example_servers)
      [UseRuntime 1, StartThreadOn 2 [] {}, StartTurnOn 2 [116] [104] None] new_gateway)) = [] @ Asked 2 (TurnStartCall [116] [104] None) # earlier"
    using example_run by blast
  from threads_run_only_after_their_checks [OF example_goes_well this] earlier show ?thesis by simp
qed

lemma example_stops: "others_stop_for_good example_servers"
  by (simp add: others_stop_for_good_def stops_for_good_def example_servers_def)

theorem a_broken_rule_stops_codex_witness:
  "\<exists>reason. runtime example_servers 1 (fold (server_do example_servers) [CloseWatch 1]
      (server_do example_servers (Receive 2 (Request (CommandApproval [116]))) (fold (server_do example_servers) [UseRuntime 1] new_gateway)))
    = (Inl (CodexRefused reason), fold (server_do example_servers) [CloseWatch 1]
      (server_do example_servers (Receive 2 (Request (CommandApproval [116]))) (fold (server_do example_servers) [UseRuntime 1] new_gateway)))"
  using a_broken_rule_stops_codex [OF example_goes_well example_stops refl, of 2 "Request (CommandApproval [116])" "[UseRuntime 1]",
    OF _ refl refl, where after = "[CloseWatch 1]" and u = 1] by simp blast

theorem app_servers_need_the_sign_in_witness:
  "\<exists>w. runtime example_servers 1 new_gateway = (Inr 2, w) \<and> signed_in_between example_servers 0 (sw_time w)
    \<and> linked_between example_servers 1 0 (sw_time w)"
proof -
  obtain w where w: "runtime example_servers 1 new_gateway = (Inr 2, w)" using example_runtime by blast
  have "sw_time new_gateway = 0" by (simp add: new_gateway_def)
  then show ?thesis using app_servers_need_the_sign_in [OF w] w by auto
qed

section \<open>A sign-in that ends while it is cancelled\<close>

text \<open>Other tasks leave a sign-in that has ended as it is: no other one is started meanwhile.\<close>

definition ended_kept :: "supervisor \<Rightarrow> supervisor \<Rightarrow> bool" where
  "ended_kept s s' \<longleftrightarrow> (\<forall>l. sv_login s = Some l \<and> li_state l \<noteq> LoginPending \<longrightarrow> sv_login s' = Some l)"

definition others_leave_ended :: "server_env \<Rightarrow> bool" where
  "others_leave_ended e \<longleftrightarrow> (\<forall>t s. ended_kept s (se_others e t s))"

lemma login_untouched [simp]:
  "sv_login (did d s) = sv_login s" "sv_login (change_server n f s) = sv_login s" "sv_login (stop_server n s) = sv_login s"
  "sv_login (launch e owner slugs s) = sv_login s" "sv_login (tell n ev s) = sv_login s"
  by (simp_all add: did_def change_server_def stop_server_def launch_def tell_def split: option.split owner.split)

interpretation ended: steady e "\<lambda>w w'. others_leave_ended e \<longrightarrow> ended_kept (sw_state w) (sw_state w')" ended_kept for e
  by unfold_locales (auto simp: ended_kept_def others_leave_ended_def wait_for_def)

text \<open>C12: a sign-in that completed ends up cancelled. \<open>cancel_login\<close> looks at the sign-in, finds it
  pending, and locks it again to mark it cancelled without looking at its state. When Codex
  reports between the two locks that this sign-in completed, the gateway is signed in, and yet
  the admin who cancels is shown a cancelled sign-in, and so is everybody who looks later.
  It holds for any pending sign-in that has not expired, whatever the state of the app servers,
  whatever else other tasks do at that moment, and however stopping it at Codex ends, unless
  somebody starts another sign-in meanwhile.\<close>

theorem a_completed_sign_in_is_cancelled:
  assumes "sv_login (sw_state w) = Some l" and "li_state l = LoginPending" and "now < li_expires_at l"
    and "se_others e (sw_time w) (sw_state w) = message_received n (Notification (LoginCompletedNote (Some (li_id l)) True err)) s"
    and "map_option ap_owner (the_server n s) = Some HouseholdServer" and "sv_login s = Some l"
    and "others_leave_ended e"
  shows "sv_login (sw_state (wait_for e w)) = Some (l\<lparr>li_state := LoginCompleted\<rparr>)
    \<and> fst (cancel_login e now w) = Inr (Some (l\<lparr>li_state := LoginCancelled\<rparr>))
    \<and> sv_login (sw_state (snd (cancel_login e now w))) = Some (l\<lparr>li_state := LoginCancelled\<rparr>)"
proof -
  have same: "on_servers (expire_login now) w = w"
    using assms(1-3) by (cases w, cases "sw_state w") (simp add: on_servers_def expire_login_def login_expire_def)
  have completed: "sv_login (sw_state (wait_for e w)) = Some (l\<lparr>li_state := LoginCompleted\<rparr>)"
    using assms(2,5,6) by (simp add: wait_for_def assms(4) message_received_def note_received_def login_reported_def
      login_completed_def Let_def)
  let ?l = "l\<lparr>li_state := LoginCancelled\<rparr>"
  let ?w = "on_servers (mark_cancelled (li_id l)) (wait_for e w)"
  have marked: "sv_login (sw_state ?w) = Some ?l" using completed by (simp add: mark_cancelled_def)
  have kept: "sv_login (sw_state w') = Some ?l"
    if "sv_login (sw_state w1) = Some ?l" "others_leave_ended e \<longrightarrow> ended_kept (sw_state w1) (sw_state w')" for w1 w'
    using that assms(7) by (simp add: ended_kept_def)
  obtain x w2 where x: "household e ?w = (x, w2)" by fastforce
  have w2: "sv_login (sw_state w2) = Some ?l" using kept [OF marked ended.steady_household] by (simp add: x)
  have asked: "sv_login (sw_state (snd (ask_server e m call answer w2))) = Some ?l" for m call and answer :: "nat \<Rightarrow> app_call \<Rightarrow> (client_error + unit) option"
    using kept [OF w2 ended.steady_ask] .
  have "sv_login (sw_state (case household e ?w of (Inl _, w2) \<Rightarrow> w2
      | (Inr m, w2) \<Rightarrow> snd (ask_server e m (LoginCancelCall (li_id l)) (se_plain e) w2))) = Some ?l"
    using w2 asked by (cases x) (simp_all add: x)
  then show ?thesis
    using completed assms(1,2) by (simp add: cancel_login_def same Let_def) (simp add: expire_login_def login_expire_def)
qed

text \<open>Codex reports the sign-in completed at each wait; the report counts once.\<close>

definition racing_login :: login where
  "racing_login = \<lparr>li_runtime = 1, li_id = [105], li_url = [], li_code = [], li_state = LoginPending, li_expires_at = 100, li_error = None\<rparr>"

definition racing_servers :: server_env where
  "racing_servers = example_servers\<lparr>se_others :=
     (\<lambda>_. message_received 1 (Notification (LoginCompletedNote (Some [105]) True None)))\<rparr>"

definition racing_gateway :: servers_world where
  "racing_gateway = \<lparr>sw_state = (launch example_servers HouseholdServer {} no_servers)\<lparr>sv_login := Some racing_login\<rparr>, sw_time = 0\<rparr>"

lemma login_report_ended: "ended_kept s (message_received m (Notification (LoginCompletedNote i ok err)) s)"
  by (auto simp: ended_kept_def message_received_def note_received_def login_reported_def login_completed_def Let_def
    split: option.split)

theorem a_completed_sign_in_is_cancelled_witness:
  "map_option li_state (sv_login (sw_state (wait_for racing_servers racing_gateway))) = Some LoginCompleted
   \<and> map_option li_state (sv_login (sw_state (snd (cancel_login racing_servers 0 racing_gateway)))) = Some LoginCancelled"
proof -
  have "sv_login (sw_state racing_gateway) = Some racing_login" "li_state racing_login = LoginPending" "0 < li_expires_at racing_login"
    "map_option ap_owner (the_server 1 (sw_state racing_gateway)) = Some HouseholdServer"
    by (simp_all add: racing_gateway_def racing_login_def launch_def no_servers_def the_server_def did_def fresh_server_def)
  moreover have "se_others racing_servers (sw_time racing_gateway) (sw_state racing_gateway)
      = message_received 1 (Notification (LoginCompletedNote (Some (li_id racing_login)) True None)) (sw_state racing_gateway)"
    by (simp add: racing_servers_def racing_login_def)
  moreover have "others_leave_ended racing_servers" by (simp add: others_leave_ended_def racing_servers_def login_report_ended)
  ultimately show ?thesis using a_completed_sign_in_is_cancelled [of racing_gateway racing_login 0 racing_servers 1 None] by auto
qed

end
