(* ===== verification/Spec2Isabelle.thy ===== *)
theory Spec2Isabelle
  imports Protocol Failures Grants Addresses LoginLimiter Accounts AccountSafety AccountPromises
    RequestGuard UsageMeter EventLog Presence EventSocket ClientConnection Delivery ClientStore ClientSync
    BotStore BotTables Schedule ScheduleMeaning RoutineStore Database NotifyRequest PushQueue PushSender Notifications
    Routines RoutineSafety RoutinePromises Seen HttpClient FetchedText WebFetch ToolBroker ToolSafety BotPrompts Conversations ConversationLog Sends ConversationPromises SendSafety TurnPromises
    CodexGuard GuardPromises Household CodexServers CodexSupervisor CodexSafety CodexPromises
begin

text \<open>
  Bokkie is a household assistant. A gateway (\<open>crates/bokkie-gateway\<close>) keeps accounts, Bots,
  conversations, routines and a numbered event log per user in SQLite, runs Codex app servers
  that answer for the Bots, gives them tools, and sends push notifications. A web client
  (\<open>apps/bokkie-web\<close>) keeps a copy of what its user may see from HTTP snapshots and a socket
  that replays and follows the log. \<open>crates/bokkie-protocol\<close> holds the types they share.

  \<^bold>\<open>Theories and what they model\<close>

  \<^item> \<open>Prelude\<close>: Unicode text, fallible results, tables as lists of rows, and the interfaces
    (stored names, catalogues, retained tables, table histories) as locales.
  \<^item> \<open>Protocol\<close> (\<open>bokkie-protocol\<close>), \<open>Failures\<close> (\<open>error.rs\<close>, \<open>clock.rs\<close>), \<open>Grants\<close> (\<open>grants.rs\<close>),
    \<open>Addresses\<close> (\<open>http/address.rs\<close>), \<open>Database\<close> (the tables as one record, and transactions).
  \<^item> \<open>LoginLimiter\<close> (\<open>auth.rs\<close>): the sign-in limiter and its journal.
  \<^item> \<open>Accounts\<close> (\<open>accounts.rs\<close>, \<open>secrets.rs\<close>) with \<open>AccountSafety\<close> (the invariant of the tables
    under any interleaving) and \<open>AccountPromises\<close> (sign-in, sessions and invitations).
  \<^item> \<open>RequestGuard\<close> (\<open>config.rs\<close>, \<open>auth.rs\<close>): origins, hosts, the guard, cookies and extractors; who
    reaches an admin's route; and how two admins can disable each other.
  \<^item> \<open>UsageMeter\<close> (\<open>usage.rs\<close>): turns, tokens, allowances and the subscription cache.
  \<^item> \<open>EventLog\<close> (\<open>events.rs\<close>), \<open>Presence\<close> (\<open>presence.rs\<close>), \<open>EventSocket\<close> (\<open>routes/events.rs\<close>),
    \<open>ClientConnection\<close> (the client's \<open>connection.rs\<close>) and \<open>Delivery\<close>, which composes them.
  \<^item> \<open>ClientStore\<close> (the client's \<open>store.rs\<close>) and \<open>ClientSync\<close>, which runs it against a log.
  \<^item> \<open>BotStore\<close> (\<open>bots/store.rs\<close>) and \<open>BotTables\<close>, its invariant, pages, unread state and markers.
  \<^item> \<open>BotPrompts\<close>, \<open>Conversations\<close> and \<open>Sends\<close> (\<open>bots/service.rs\<close>): the texts given to the model,
    the router of app-server events, streamed replies, and every way a turn begins or stops.
    \<open>ConversationLog\<close>, \<open>ConversationPromises\<close>, \<open>SendSafety\<close> and \<open>TurnPromises\<close> prove that what is
    announced is what is stored, and what happens to turns, threads and grants.
  \<^item> \<open>Schedule\<close> (\<open>routines/schedule.rs\<close>) with \<open>ScheduleMeaning\<close>, which says what a schedule asks
    for without the code; \<open>RoutineStore\<close> (\<open>routines/store.rs\<close>) and \<open>Routines\<close> (\<open>routines/mod.rs\<close>)
    with \<open>RoutineSafety\<close> (its step relation and invariants) and \<open>RoutinePromises\<close>.
  \<^item> \<open>PushQueue\<close> and \<open>PushSender\<close> (\<open>push/\<close>): what is queued, merged, dropped and retried.
  \<^item> \<open>NotifyRequest\<close> and \<open>Notifications\<close> (\<open>tools/notify.rs\<close>, \<open>tools/notes.rs\<close>, \<open>tools/audit.rs\<close>),
    \<open>Seen\<close> (\<open>tools/seen.rs\<close>), \<open>HttpClient\<close> (\<open>http/mod.rs\<close>), \<open>FetchedText\<close> and \<open>WebFetch\<close>
    (\<open>tools/web_fetch.rs\<close>), \<open>ToolBroker\<close> (\<open>tools/mod.rs\<close>, \<open>tools/web_search.rs\<close>) and \<open>ToolSafety\<close>.
  \<^item> \<open>CodexGuard\<close> (\<open>codex/guard.rs\<close>, \<open>codex/config.rs\<close>, \<open>codex/catalog.rs\<close>) with \<open>GuardPromises\<close>,
    \<open>Household\<close> (\<open>codex/household.rs\<close>), \<open>CodexServers\<close> and \<open>CodexSupervisor\<close>
    (\<open>codex/supervisor.rs\<close>) with \<open>CodexSafety\<close> (what is done only after what) and \<open>CodexPromises\<close>.

  \<^bold>\<open>What the lemmas show\<close>

  Tables: every operation, in every order, keeps the invariant of its tables (\<open>accounts_inv\<close>,
  \<open>log_inv\<close>, and those of Bots and routines), also where the code reads rows before the transaction
  that uses them: such an operation takes the earlier state as an argument. Delivery: the log has
  no gaps, the socket passes it on as far as its broadcast channel serves it, the connection hands
  it to the store in order, and the store converges to what is stored. Limits: sign-in attempts,
  turns, fetches, notifications and pushes in their windows. Safety: outbound fetches and their
  addresses, grants of tools and threads, the checks of app servers, origins and sessions.
  Meaning: when routines run, what unread means, and what pages cover. Where the code does not
  keep what it means to, a theorem says so in general: messages of other Bots that leak in, ids of
  deleted runs that come back, a completed sign-in that is cancelled, admins that disable each
  other.

  \<^bold>\<open>Concurrency\<close>

  A lock, a batch or a transaction is one step. What waits (sends, app servers) takes an environment
  that says what other tasks do to the state at each wait; the theorems assume of them what the
  same rules demand: \<open>others_keep\<close> (others leave the Bot's thread and grants while its lock is held),
  \<open>others_go_well\<close>, \<open>others_stop_for_good\<close> and \<open>others_leave_ended\<close> (others keep to the supervisor's
  rules, revive no stopped app server, and leave an ended sign-in). The locales \<open>waiting\<close>,
  \<open>steady\<close> and \<open>steady_servers\<close> prove once for all operations what holds from before to after.

  \<^bold>\<open>Bounds and fuel\<close>

  Loops over the network take fuel from a list: the states that the replay's reads see (as many as
  events to replay are enough), the attempts of a delivery (as many as the configured retries), the
  redirects of a fetch (six requests). Reading a conversation back page by page has fuel that is
  enough when it exceeds the number of messages. Other recursion is structural or has a
  measure. Integers are unbounded except where the code wraps or saturates, which is written
  out (\<open>wrap_i64\<close>, saturating additions, \<open>u32\<close> counters); addresses are words.

  \<^bold>\<open>Parameters and conventions\<close>

  Not under \<open>src/\<close>, and so arguments with named hypotheses on documented behaviour: tokio's
  broadcast channel (\<open>broadcast_channel\<close>), jiff's time zones (\<open>zone_of_clock\<close>: what the zone says of
  a local time fits its clock), Argon2 and hashing, links and percent decoding, the network,
  conversion of pages, JSON values of serde, and what app servers answer. A table is the list of its
  rows in rowid order; a failure is a value of \<open>failure + 'a\<close>; a database error other than a
  violated constraint is not a branch. Times are milliseconds; dates are day numbers.

  \<^bold>\<open>Not modelled\<close>

  Encodings of serde and SQL, encryption and VAPID signing, the wire of JSON-RPC, spawning processes
  and writing files, the HTTP handlers that only combine operations, start-up and migrations, the
  views of the client, and the tools that test the program from outside.
\<close>

end
